(* ===== verification/Go_Prelude.thy ===== *)
theory Go_Prelude
  imports Main "HOL-Library.Word" "HOL-Library.Monad_Syntax"
begin

unbundle bit_operations_syntax

text \<open>
  Shared vocabulary of the development: bytes and Go strings, slices whose bounds are
  checked, big-endian 16-bit fields, and the operations of the packages \<open>strings\<close>,
  \<open>strconv\<close> and \<open>fmt\<close> that the modelled sources call.

  Conventions used by every theory:
  \<^item> a Go \<open>string\<close> is a HOL \<open>string\<close> (a list of bytes), a \<open>[]byte\<close> is a list of
    8-bit words; a nil slice and an empty one are both the empty list;
  \<^item> an expression that can panic at run time (a slice or an index out of bounds) has an
    \<open>option\<close> type: None is the panic, and the option monad propagates it;
  \<^item> a Go error result is the left injection of a sum;
  \<^item> case mapping and white space are those of ASCII.
\<close>

type_synonym byte = "8 word"
type_synonym bytes = "8 word list"

named_theorems no_panic "introduction rules for the absence of a run-time panic"

section \<open>Bytes and strings\<close>

definition byte_of_char :: "char \<Rightarrow> byte" where
  "byte_of_char c = word_of_nat (of_char c)"

definition char_of_byte :: "byte \<Rightarrow> char" where
  "char_of_byte w = char_of (unat w)"

abbreviation bytes_of_string :: "string \<Rightarrow> bytes" where
  "bytes_of_string s \<equiv> map byte_of_char s"

abbreviation string_of_bytes :: "bytes \<Rightarrow> string" where
  "string_of_bytes bs \<equiv> map char_of_byte bs"

lemma unat_byte_of_char [simp]: "unat (byte_of_char c) = of_char c"
  by (simp add: byte_of_char_def unat_of_nat)

lemma char_of_byte_of_char [simp]: "char_of_byte (byte_of_char c) = c"
  by (simp add: char_of_byte_def)

lemma byte_of_char_of_byte [simp]: "byte_of_char (char_of_byte w) = w"
proof -
  have "unat w < 2 ^ 8"
    using unsigned_less [of w] by simp
  then have "unat w mod 256 = unat w" by simp
  then show ?thesis by (simp add: byte_of_char_def char_of_byte_def)
qed

lemma char_byte_comp [simp]: "char_of_byte \<circ> byte_of_char = id" "byte_of_char \<circ> char_of_byte = id"
  by (simp_all add: fun_eq_iff)

lemma string_of_bytes_of_string [simp]: "string_of_bytes (bytes_of_string s) = s"
  by (simp add: map_idI)

lemma bytes_of_string_of_bytes [simp]: "bytes_of_string (string_of_bytes bs) = bs"
  by (simp add: map_idI)

lemma unat_byte_less [simp]: "unat (w :: byte) < 256"
  using unsigned_less [of w] by simp

section \<open>Slices\<close>

text \<open>
  \<open>xs[lo:hi]\<close> and \<open>xs[i]\<close> with the bounds Go checks at run time. The slices the sources
  cut are freshly made, so that their capacity is their length; where it is not, the
  model says so.
\<close>

definition slice :: "'a list \<Rightarrow> nat \<Rightarrow> nat \<Rightarrow> 'a list option" where
  "slice xs lo hi =
     (if lo \<le> hi \<and> hi \<le> length xs then Some (take (hi - lo) (drop lo xs)) else None)"

definition at_index :: "'a list \<Rightarrow> nat \<Rightarrow> 'a option" where
  "at_index xs i = (if i < length xs then Some (xs ! i) else None)"

text \<open>\<open>copy(dst[off:], src)\<close> for a destination that is long enough is overwriting; the
  sources also use it on a shorter one, where the rest of \<open>src\<close> is dropped.\<close>

definition copy_at :: "'a list \<Rightarrow> nat \<Rightarrow> 'a list \<Rightarrow> 'a list" where
  "copy_at dst off src =
     take off dst @ take (length dst - off) src @ drop (off + length src) dst"

lemma slice_append [simp]:
  "length xs = n \<Longrightarrow> slice (xs @ ys @ zs) n (n + length ys) = Some ys"
  by (simp add: slice_def)

lemma slice_Some_iff:
  "slice xs lo hi = Some ys \<longleftrightarrow> lo \<le> hi \<and> hi \<le> length xs \<and> ys = take (hi - lo) (drop lo xs)"
  by (auto simp: slice_def)

lemma slice_length: "slice xs lo hi = Some ys \<Longrightarrow> length ys = hi - lo"
  by (auto simp: slice_def split: if_splits)

lemma slice_None_iff: "slice xs lo hi = None \<longleftrightarrow> hi < lo \<or> length xs < hi"
  by (auto simp: slice_def)

lemma at_index_None_iff: "at_index xs i = None \<longleftrightarrow> length xs \<le> i"
  by (auto simp: at_index_def)

lemma at_index_in_bounds: "i < length xs \<Longrightarrow> at_index xs i = Some (xs ! i)"
  by (simp add: at_index_def)

lemma length_copy_at: "off \<le> length dst \<Longrightarrow> length (copy_at dst off src) = length dst"
  by (simp add: copy_at_def)

section \<open>Big-endian 16-bit fields\<close>

definition put_u16 :: "nat \<Rightarrow> bytes" where
  "put_u16 n = [word_of_nat (n div 256), word_of_nat n]"

definition get_u16 :: "byte \<Rightarrow> byte \<Rightarrow> nat" where
  "get_u16 hi lo = unat hi * 256 + unat lo"

lemma length_put_u16 [simp]: "length (put_u16 n) = 2"
  by (simp add: put_u16_def)

lemma get_put_u16: "put_u16 n = [a, b] \<Longrightarrow> get_u16 a b = n mod 65536"
proof -
  assume "put_u16 n = [a, b]"
  then have "get_u16 a b = (n div 256 mod 256) * 256 + n mod 256"
    by (auto simp: put_u16_def get_u16_def unat_of_nat)
  also have "\<dots> = n mod 65536"
    using mod_mult2_eq [of n 256 256] by (simp add: mult.commute)
  finally show ?thesis .
qed

lemma get_u16_put [simp]:
  "get_u16 (word_of_nat (n div 256)) (word_of_nat n) = n mod 65536"
  by (rule get_put_u16) (simp add: put_u16_def)

lemma get_u16_less: "get_u16 a b < 65536"
  using unat_byte_less [of a] unat_byte_less [of b] by (simp only: get_u16_def)

text \<open>Reading the two bytes at an offset of a slice.\<close>

definition u16_at :: "bytes \<Rightarrow> nat \<Rightarrow> nat option" where
  "u16_at bs i = do { hi \<leftarrow> at_index bs i; lo \<leftarrow> at_index bs (i + 1); Some (get_u16 hi lo) }"

lemma u16_at_in_bounds: "i + 1 < length bs \<Longrightarrow> u16_at bs i = Some (get_u16 (bs ! i) (bs ! (i + 1)))"
  by (simp add: u16_at_def at_index_def)

lemma u16_at_put: "length xs = i \<Longrightarrow> u16_at (xs @ put_u16 n @ ys) i = Some (n mod 65536)"
  by (simp add: u16_at_def at_index_def put_u16_def nth_append)

section \<open>Package strings\<close>

definition has_prefix :: "string \<Rightarrow> string \<Rightarrow> bool" where
  "has_prefix s p \<longleftrightarrow> take (length p) s = p"

definition has_suffix :: "string \<Rightarrow> string \<Rightarrow> bool" where
  "has_suffix s p \<longleftrightarrow> length p \<le> length s \<and> drop (length s - length p) s = p"

definition trim_prefix :: "string \<Rightarrow> string \<Rightarrow> string" where
  "trim_prefix s p = (if has_prefix s p then drop (length p) s else s)"

definition trim_suffix :: "string \<Rightarrow> string \<Rightarrow> string" where
  "trim_suffix s p = (if has_suffix s p then take (length s - length p) s else s)"

text \<open>\<open>strings.Index\<close>: the first position of a substring; None is \<open>-1\<close>.\<close>

fun index_of :: "string \<Rightarrow> string \<Rightarrow> nat option" where
  "index_of [] p = (if p = [] then Some 0 else None)"
| "index_of (c # s) p =
     (if has_prefix (c # s) p then Some 0 else map_option Suc (index_of s p))"

definition contains :: "string \<Rightarrow> string \<Rightarrow> bool" where
  "contains s p \<longleftrightarrow> index_of s p \<noteq> None"

fun index_byte :: "string \<Rightarrow> char \<Rightarrow> nat option" where
  "index_byte [] x = None"
| "index_byte (c # s) x = (if c = x then Some 0 else map_option Suc (index_byte s x))"

definition last_index_byte :: "string \<Rightarrow> char \<Rightarrow> nat option" where
  "last_index_byte s x =
     (case index_byte (rev s) x of None \<Rightarrow> None | Some i \<Rightarrow> Some (length s - Suc i))"

text \<open>\<open>strings.Cut\<close> around the first separator.\<close>

definition cut :: "string \<Rightarrow> string \<Rightarrow> string \<times> string \<times> bool" where
  "cut s p = (case index_of s p of
       None \<Rightarrow> (s, [], False)
     | Some i \<Rightarrow> (take i s, drop (i + length p) s, True))"

definition is_space :: "char \<Rightarrow> bool" where
  "is_space c \<longleftrightarrow> (of_char c :: nat) \<in> {9, 10, 11, 12, 13, 32}"

definition trim_right :: "(char \<Rightarrow> bool) \<Rightarrow> string \<Rightarrow> string" where
  "trim_right P s = rev (dropWhile P (rev s))"

definition trim_space :: "string \<Rightarrow> string" where
  "trim_space s = trim_right is_space (dropWhile is_space s)"

definition lower_char :: "char \<Rightarrow> char" where
  "lower_char c = (let n = (of_char c :: nat) in if 65 \<le> n \<and> n \<le> 90 then char_of (n + 32) else c)"

definition upper_char :: "char \<Rightarrow> char" where
  "upper_char c = (let n = (of_char c :: nat) in if 97 \<le> n \<and> n \<le> 122 then char_of (n - 32) else c)"

abbreviation to_lower :: "string \<Rightarrow> string" where
  "to_lower s \<equiv> map lower_char s"

abbreviation to_upper :: "string \<Rightarrow> string" where
  "to_upper s \<equiv> map upper_char s"

text \<open>\<open>strings.EqualFold\<close> on ASCII.\<close>

definition equal_fold :: "string \<Rightarrow> string \<Rightarrow> bool" where
  "equal_fold s t \<longleftrightarrow> to_lower s = to_lower t"

text \<open>\<open>strings.SplitN(s, sep, n)\<close> and \<open>strings.Split(s, sep)\<close> for a one-byte separator.\<close>

fun split_n :: "nat \<Rightarrow> char \<Rightarrow> string \<Rightarrow> string list" where
  "split_n 0 x s = []"
| "split_n (Suc 0) x s = [s]"
| "split_n (Suc (Suc n)) x s = (case index_byte s x of
       None \<Rightarrow> [s]
     | Some i \<Rightarrow> take i s # split_n (Suc n) x (drop (Suc i) s))"

fun split_all :: "char \<Rightarrow> string \<Rightarrow> string list" where
  "split_all x [] = [[]]"
| "split_all x (c # s) =
     (if c = x then [] # split_all x s
      else (case split_all x s of [] \<Rightarrow> [[c]] | w # ws \<Rightarrow> (c # w) # ws))"

text \<open>\<open>strings.Fields\<close>: the words between runs of white space.\<close>

fun fields_aux :: "string \<Rightarrow> string \<Rightarrow> string list" where
  "fields_aux w [] = (if w = [] then [] else [rev w])"
| "fields_aux w (c # s) =
     (if is_space c then (if w = [] then fields_aux [] s else rev w # fields_aux [] s)
      else fields_aux (c # w) s)"

definition str_fields :: "string \<Rightarrow> string list" where
  "str_fields s = fields_aux [] s"

text \<open>\<open>strings.ReplaceAll(s, old, new)\<close> for a nonempty \<open>old\<close>: left to right, without overlap.\<close>

function replace_all :: "string \<Rightarrow> string \<Rightarrow> string \<Rightarrow> string" where
  "replace_all old new s =
     (if old = [] then s else case s of
        [] \<Rightarrow> []
      | c # s' \<Rightarrow> (if has_prefix s old then new @ replace_all old new (drop (length old) s)
                   else c # replace_all old new s'))"
  by pat_completeness auto
termination
  by (relation "measure (\<lambda>(old, new, s). length s)") auto

declare replace_all.simps [simp del]

section \<open>Packages strconv and fmt\<close>

definition is_digit :: "char \<Rightarrow> bool" where
  "is_digit c \<longleftrightarrow> 48 \<le> (of_char c :: nat) \<and> (of_char c :: nat) \<le> 57"

definition digit_val :: "char \<Rightarrow> nat" where
  "digit_val c = of_char c - 48"

definition digit_char :: "nat \<Rightarrow> char" where
  "digit_char d = char_of (48 + d)"

fun num_of_digits :: "nat \<Rightarrow> string \<Rightarrow> nat" where
  "num_of_digits acc [] = acc"
| "num_of_digits acc (c # s) = num_of_digits (10 * acc + digit_val c) s"

text \<open>\<open>strconv.Atoi\<close>: an optional sign, then digits only; out of the range of a 64-bit
  \<open>int\<close> is an error.\<close>

definition atoi :: "string \<Rightarrow> int option" where
  "atoi s =
     (let (neg, ds) = (case s of
            [] \<Rightarrow> (False, [])
          | c # s' \<Rightarrow> if c = CHR ''-'' then (True, s') else if c = CHR ''+'' then (False, s') else (False, s));
          n = int (num_of_digits 0 ds);
          v = (if neg then - n else n)
      in if ds = [] \<or> \<not> list_all is_digit ds then None
         else if v < - (2 ^ 63) \<or> 2 ^ 63 - 1 < v then None else Some v)"

text \<open>\<open>strconv.Itoa\<close> on the non-negative numbers the sources print.\<close>

fun itoa :: "nat \<Rightarrow> string" where
  "itoa n = (if n < 10 then [digit_char n] else itoa (n div 10) @ [digit_char (n mod 10)])"

declare itoa.simps [simp del]

definition itoa_int :: "int \<Rightarrow> string" where
  "itoa_int i = (if i < 0 then CHR ''-'' # itoa (nat (- i)) else itoa (nat i))"

text \<open>
  \<open>fmt.Sscanf(s, "%d", &p)\<close> for an unsigned variable of \<open>w\<close> bits whose value before the call
  is \<open>old\<close>: blanks are skipped and the longest run of digits is stored; without a digit, or
  with a value that does not fit, the call fails and the variable keeps its value (the
  sources ignore the error).
\<close>

definition sscanf_uint :: "nat \<Rightarrow> nat \<Rightarrow> string \<Rightarrow> nat" where
  "sscanf_uint w old s =
     (let ds = takeWhile is_digit (dropWhile (\<lambda>c. c = CHR '' '') s); n = num_of_digits 0 ds
      in if ds = [] \<or> 2 ^ w \<le> n then old else n)"

section \<open>Facts shared by the components\<close>

lemma num_of_digits_append: "num_of_digits acc (xs @ ys) = num_of_digits (num_of_digits acc xs) ys"
  by (induction xs arbitrary: acc) auto

lemma of_digit_char: "d < 10 \<Longrightarrow> (of_char (digit_char d) :: nat) = 48 + d"
  by (simp add: digit_char_def)

lemma is_digit_digit_char [simp]: "d < 10 \<Longrightarrow> is_digit (digit_char d)"
  by (simp add: is_digit_def of_digit_char)

lemma digit_val_digit_char [simp]: "d < 10 \<Longrightarrow> digit_val (digit_char d) = d"
  by (simp add: digit_val_def of_digit_char)

lemma itoa_digits: "list_all is_digit (itoa n)"
proof (induction n rule: itoa.induct)
  case (1 n)
  then show ?case by (subst itoa.simps) auto
qed

lemma itoa_nonempty: "itoa n \<noteq> []"
  by (subst itoa.simps) simp

lemma num_of_digits_itoa: "num_of_digits 0 (itoa n) = n"
proof (induction n rule: itoa.induct)
  case (1 n)
  then show ?case by (subst itoa.simps) (auto simp: num_of_digits_append)
qed

lemma itoa_inj: "itoa m = itoa n \<Longrightarrow> m = n"
  using num_of_digits_itoa by metis

lemma is_digit_not_sign: "is_digit c \<Longrightarrow> c \<noteq> CHR ''-'' \<and> c \<noteq> CHR ''+'' \<and> c \<noteq> CHR '' ''"
  by (auto simp: is_digit_def)

lemma atoi_itoa: "int n < 2 ^ 63 \<Longrightarrow> atoi (itoa n) = Some (int n)"
proof -
  assume small: "int n < 2 ^ 63"
  obtain c s where cs: "itoa n = c # s"
    using itoa_nonempty [of n] by (cases "itoa n") auto
  have "is_digit c"
    using itoa_digits [of n] by (simp add: cs)
  then have "c \<noteq> CHR ''-''" "c \<noteq> CHR ''+''"
    using is_digit_not_sign by auto
  with small show ?thesis
    using itoa_digits [of n] num_of_digits_itoa [of n] by (simp add: atoi_def cs Let_def)
qed

lemma sscanf_uint_itoa: "n < 2 ^ w \<Longrightarrow> sscanf_uint w old (itoa n) = n"
proof -
  assume small: "n < 2 ^ w"
  obtain c s where cs: "itoa n = c # s"
    using itoa_nonempty [of n] by (cases "itoa n") auto
  have "is_digit c"
    using itoa_digits [of n] by (simp add: cs)
  then have "c \<noteq> CHR '' ''"
    using is_digit_not_sign by auto
  then have drop: "dropWhile (\<lambda>c. c = CHR '' '') (itoa n) = itoa n"
    by (simp add: cs)
  have take: "takeWhile is_digit (itoa n) = itoa n"
    using itoa_digits [of n] takeWhile_eq_all_conv by (fastforce simp: list_all_iff)
  show ?thesis
    unfolding sscanf_uint_def drop take Let_def
    using small itoa_nonempty [of n] by (simp add: num_of_digits_itoa)
qed

lemma index_byte_Some_less: "index_byte s x = Some i \<Longrightarrow> i < length s \<and> s ! i = x"
  by (induction s arbitrary: i) (auto split: if_splits)

lemma index_byte_None_iff: "index_byte s x = None \<longleftrightarrow> x \<notin> set s"
  by (induction s) auto

lemma index_byte_append:
  "x \<notin> set s \<Longrightarrow> index_byte (s @ x # t) x = Some (length s)"
  by (induction s) auto

lemma last_index_byte_append:
  "x \<notin> set t \<Longrightarrow> last_index_byte (s @ x # t) x = Some (length s)"
  by (simp add: last_index_byte_def index_byte_append)

lemma has_suffix_append: "has_suffix (s @ p) p"
  by (simp add: has_suffix_def)

lemma has_suffix_iff: "has_suffix s p \<longleftrightarrow> (\<exists>t. s = t @ p)"
proof
  assume "has_suffix s p"
  then have "s = take (length s - length p) s @ p"
    unfolding has_suffix_def by (metis append_take_drop_id)
  then show "\<exists>t. s = t @ p" by blast
qed (auto simp: has_suffix_def)

lemma has_prefix_iff: "has_prefix s p \<longleftrightarrow> (\<exists>t. s = p @ t)"
  unfolding has_prefix_def by (metis append_eq_conv_conj append_take_drop_id)

lemma index_of_append: "index_of (s @ p @ t) p \<noteq> None"
proof (induction s)
  case Nil
  have "has_prefix (p @ t) p"
    by (simp add: has_prefix_def)
  then show ?case
    by (cases "p @ t") auto
qed auto

lemma index_of_Some: "index_of s p = Some i \<Longrightarrow> \<exists>u v. s = u @ p @ v \<and> length u = i"
proof (induction s arbitrary: i)
  case Nil
  then show ?case by (auto split: if_splits)
next
  case (Cons c s)
  show ?case
  proof (cases "has_prefix (c # s) p")
    case True
    with Cons.prems show ?thesis by (auto simp: has_prefix_iff)
  next
    case False
    with Cons.prems obtain j where "index_of s p = Some j" "i = Suc j" by auto
    with Cons.IH [of j] obtain u v where "s = u @ p @ v" "length u = j" by blast
    with \<open>i = Suc j\<close> have "c # s = (c # u) @ p @ v" "length (c # u) = i" by auto
    then show ?thesis by blast
  qed
qed

lemma contains_iff: "contains s p \<longleftrightarrow> (\<exists>u v. s = u @ p @ v)"
  unfolding contains_def using index_of_append index_of_Some by blast

lemma lower_char_idem [simp]: "lower_char (lower_char c) = lower_char c"
proof -
  have "(of_char (lower_char c) :: nat) < 65 \<or> 90 < (of_char (lower_char c) :: nat)"
    by (auto simp: lower_char_def Let_def)
  then show ?thesis
    by (auto simp: lower_char_def [of "lower_char c"] Let_def)
qed

lemma to_lower_idem [simp]: "to_lower (to_lower s) = to_lower s"
  by simp

lemma to_lower_idem_comp [simp]: "lower_char \<circ> lower_char = lower_char"
  by auto

lemma equal_fold_refl [simp]: "equal_fold s s"
  by (simp add: equal_fold_def)

section \<open>Absence of panics\<close>

text \<open>The rules that show, from the outside in, that an expression does not panic.\<close>

lemma bind_no_panic [no_panic]:
  "m \<noteq> None \<Longrightarrow> (\<And>x. m = Some x \<Longrightarrow> f x \<noteq> None) \<Longrightarrow> Option.bind m f \<noteq> None"
  by (cases m) auto

lemma if_no_panic [no_panic]:
  "(c \<Longrightarrow> a \<noteq> None) \<Longrightarrow> (\<not> c \<Longrightarrow> b \<noteq> None) \<Longrightarrow> (if c then a else b) \<noteq> None"
  by simp

lemma at_index_no_panic [no_panic]: "i < length xs \<Longrightarrow> at_index xs i \<noteq> None"
  by (simp add: at_index_def)

lemma slice_no_panic [no_panic]: "lo \<le> hi \<Longrightarrow> hi \<le> length xs \<Longrightarrow> slice xs lo hi \<noteq> None"
  by (simp add: slice_def)

lemma u16_at_no_panic [no_panic]: "i + 2 \<le> length bs \<Longrightarrow> u16_at bs i \<noteq> None"
  by (simp add: u16_at_in_bounds)

lemma map_no_panic [no_panic]: "m \<noteq> None \<Longrightarrow> map_option f m \<noteq> None"
  by simp

lemma Some_no_panic [no_panic]: "Some x \<noteq> None"
  by simp

end
