(* ===== verification/Go_Net.thy ===== *)
theory Go_Net
  imports Go_Prelude
begin

text \<open>
  The part of Go's package \<open>net\<close> that the sources rely on: IP addresses as byte slices
  (\<open>To4\<close>, \<open>To16\<close>, \<open>Equal\<close>, \<open>String\<close>, \<open>ParseIP\<close>), CIDR networks, and the host:port
  notation. Name resolution (\<open>LookupIP\<close>, \<open>ResolveUDPAddr\<close>) depends on the machine the
  program runs on and is a parameter of the operations that use it.
\<close>

section \<open>IP addresses\<close>

text \<open>A \<open>net.IP\<close> is a byte slice; nil is the empty one.\<close>

type_synonym ip = "8 word list"

definition v4_in_v6_prefix :: bytes where
  "v4_in_v6_prefix = [0, 0, 0, 0, 0, 0, 0, 0, 0, 0, 255, 255]"

text \<open>\<open>net.IPv4(a, b, c, d)\<close> makes the 16-byte form.\<close>

definition ipv4 :: "byte \<Rightarrow> byte \<Rightarrow> byte \<Rightarrow> byte \<Rightarrow> ip" where
  "ipv4 a b c d = v4_in_v6_prefix @ [a, b, c, d]"

definition to4 :: "ip \<Rightarrow> ip option" where
  "to4 a = (if length a = 4 then Some a
            else if length a = 16 \<and> take 12 a = v4_in_v6_prefix then Some (drop 12 a) else None)"

definition to16 :: "ip \<Rightarrow> ip option" where
  "to16 a = (if length a = 4 then Some (v4_in_v6_prefix @ a)
             else if length a = 16 then Some a else None)"

definition ip_equal :: "ip \<Rightarrow> ip \<Rightarrow> bool" where
  "ip_equal a b =
     (if length a = length b then a = b
      else if length a = 4 \<and> length b = 16 then take 12 b = v4_in_v6_prefix \<and> a = drop 12 b
      else if length a = 16 \<and> length b = 4 then take 12 a = v4_in_v6_prefix \<and> drop 12 a = b
      else False)"

definition ipv4_zero :: ip where
  "ipv4_zero = ipv4 0 0 0 0"

definition ipv6_loopback :: ip where
  "ipv6_loopback = replicate 15 0 @ [1]"

definition is_unspecified :: "ip \<Rightarrow> bool" where
  "is_unspecified a \<longleftrightarrow> ip_equal a ipv4_zero \<or> ip_equal a (replicate 16 0)"

definition is_loopback :: "ip \<Rightarrow> bool" where
  "is_loopback a = (case to4 a of Some b \<Rightarrow> b ! 0 = 127 | None \<Rightarrow> ip_equal a ipv6_loopback)"

definition is_private :: "ip \<Rightarrow> bool" where
  "is_private a = (case to4 a of
       Some b \<Rightarrow> b ! 0 = 10 \<or> (b ! 0 = 172 \<and> b ! 1 AND 0xf0 = 16) \<or> (b ! 0 = 192 \<and> b ! 1 = 168)
     | None \<Rightarrow> length a = 16 \<and> a ! 0 AND 0xfe = 0xfc)"

definition is_link_local_unicast :: "ip \<Rightarrow> bool" where
  "is_link_local_unicast a = (case to4 a of
       Some b \<Rightarrow> b ! 0 = 169 \<and> b ! 1 = 254
     | None \<Rightarrow> length a = 16 \<and> a ! 0 = 0xfe \<and> a ! 1 AND 0xc0 = 0x80)"

section \<open>Printing\<close>

fun join_with :: "string \<Rightarrow> string list \<Rightarrow> string" where
  "join_with sep [] = []"
| "join_with sep [w] = w"
| "join_with sep (w # ws) = w @ sep @ join_with sep ws"

definition hex_char :: "nat \<Rightarrow> char" where
  "hex_char d = (if d < 10 then digit_char d else char_of (87 + d))"

fun hex_nat :: "nat \<Rightarrow> string" where
  "hex_nat n = (if n < 16 then [hex_char n] else hex_nat (n div 16) @ [hex_char (n mod 16)])"

declare hex_nat.simps [simp del]

definition hex_byte :: "byte \<Rightarrow> string" where
  "hex_byte w = [hex_char (unat w div 16), hex_char (unat w mod 16)]"

abbreviation hex_string :: "bytes \<Rightarrow> string" where
  "hex_string bs \<equiv> concat (map hex_byte bs)"

definition dotted :: "bytes \<Rightarrow> string" where
  "dotted b = join_with ''.'' (map (\<lambda>w. itoa (unat w)) b)"

fun groups16 :: "bytes \<Rightarrow> nat list" where
  "groups16 (a # b # bs) = get_u16 a b # groups16 bs"
| "groups16 bs = []"

definition zero_run :: "nat list \<Rightarrow> nat" where
  "zero_run gs = length (takeWhile (\<lambda>x. x = 0) gs)"

text \<open>The longest run of at least two zero groups, the first one on a tie.\<close>

definition best_run :: "nat list \<Rightarrow> nat \<times> nat" where
  "best_run gs =
     fold (\<lambda>i (st, len). let l = zero_run (drop i gs)
                        in if 2 \<le> l \<and> len < l then (i, l) else (st, len))
       [0..<length gs] (0, 0)"

definition ipv6_text :: "bytes \<Rightarrow> string" where
  "ipv6_text a =
     (let gs = groups16 a; (st, len) = best_run gs
      in if len = 0 then join_with '':'' (map hex_nat gs)
         else join_with '':'' (map hex_nat (take st gs)) @ ''::'' @
              join_with '':'' (map hex_nat (drop (st + len) gs)))"

text \<open>\<open>IP.String()\<close>\<close>

definition ip_string :: "ip \<Rightarrow> string" where
  "ip_string a =
     (if a = [] then ''<nil>''
      else if length a \<noteq> 4 \<and> length a \<noteq> 16 then ''?'' @ hex_string a
      else case to4 a of Some b \<Rightarrow> dotted b | None \<Rightarrow> ipv6_text a)"

section \<open>Parsing\<close>

definition parse_octet :: "string \<Rightarrow> byte option" where
  "parse_octet s =
     (if s = [] \<or> \<not> list_all is_digit s then None
      else if 1 < length s \<and> hd s = CHR ''0'' then None
      else if 255 < num_of_digits 0 s then None
      else Some (word_of_nat (num_of_digits 0 s)))"

definition parse_ipv4 :: "string \<Rightarrow> bytes option" where
  "parse_ipv4 s = (case map parse_octet (split_all CHR ''.'' s) of
       [Some a, Some b, Some c, Some d] \<Rightarrow> Some [a, b, c, d]
     | _ \<Rightarrow> None)"

definition hex_val :: "char \<Rightarrow> nat option" where
  "hex_val c =
     (let n = (of_char c :: nat) in
      if 48 \<le> n \<and> n \<le> 57 then Some (n - 48)
      else if 97 \<le> n \<and> n \<le> 102 then Some (n - 87)
      else if 65 \<le> n \<and> n \<le> 70 then Some (n - 55) else None)"

definition is_hex :: "char \<Rightarrow> bool" where
  "is_hex c \<longleftrightarrow> hex_val c \<noteq> None"

definition num_of_hex :: "string \<Rightarrow> nat" where
  "num_of_hex s = fold (\<lambda>c acc. 16 * acc + (case hex_val c of Some d \<Rightarrow> d | None \<Rightarrow> 0)) s 0"

text \<open>
  The loop of \<open>netip.parseIPv6\<close> over at most \<open>k\<close> further groups: \<open>acc\<close> holds the bytes
  parsed so far and \<open>e\<close> the position of the double colon.
\<close>

fun parse6_loop :: "nat \<Rightarrow> string \<Rightarrow> bytes \<Rightarrow> nat option \<Rightarrow> (bytes \<times> nat option) option" where
  "parse6_loop 0 s acc e = (if s = [] then Some (acc, e) else None)"
| "parse6_loop (Suc k) s acc e =
     (let h = takeWhile is_hex s; s1 = drop (length h) s; acc' = acc @ put_u16 (num_of_hex h)
      in if h = [] \<or> 4 < length h then None
         else case s1 of
           [] \<Rightarrow> Some (acc', e)
         | c # s2 \<Rightarrow>
             (if c = CHR ''.'' then
                (if (e = None \<and> length acc \<noteq> 12) \<or> 16 < length acc + 4 then None
                 else case parse_ipv4 s of None \<Rightarrow> None | Some b \<Rightarrow> Some (acc @ b, e))
              else if c \<noteq> CHR '':'' then None
              else case s2 of
                [] \<Rightarrow> None
              | d # s3 \<Rightarrow>
                  (if d = CHR '':'' then
                     (if e \<noteq> None then None
                      else if s3 = [] then Some (acc', Some (length acc'))
                      else parse6_loop k s3 acc' (Some (length acc')))
                   else parse6_loop k s2 acc' e)))"

definition parse_ipv6 :: "string \<Rightarrow> bytes option" where
  "parse_ipv6 s =
     (let (s', e) = (if has_prefix s ''::'' then (drop 2 s, Some 0) else (s, None))
      in if e \<noteq> None \<and> s' = [] then Some (replicate 16 0)
         else case parse6_loop 8 s' [] e of
           None \<Rightarrow> None
         | Some (acc, e') \<Rightarrow>
             (if length acc < 16 then
                (case e' of None \<Rightarrow> None
                 | Some j \<Rightarrow> Some (take j acc @ replicate (16 - length acc) 0 @ drop j acc))
              else if e' \<noteq> None then None else Some acc))"

text \<open>\<open>netip.ParseAddr\<close>: the first of the characters dot, colon and percent decides; a zone
  makes the callers here fail. True marks the IPv4 notation.\<close>

definition parse_addr :: "string \<Rightarrow> (bool \<times> bytes) option" where
  "parse_addr s =
     (if CHR ''%'' \<in> set s then None
      else case dropWhile (\<lambda>c. c \<noteq> CHR ''.'' \<and> c \<noteq> CHR '':'') s of
        [] \<Rightarrow> None
      | c # _ \<Rightarrow> (if c = CHR ''.'' then map_option (Pair True) (parse_ipv4 s)
                  else map_option (Pair False) (parse_ipv6 s)))"

definition parse_ip :: "string \<Rightarrow> ip option" where
  "parse_ip s = (case parse_addr s of
       None \<Rightarrow> None
     | Some (v4, b) \<Rightarrow> Some (if v4 then v4_in_v6_prefix @ b else b))"

section \<open>Networks\<close>

record ip_net =
  net_ip :: ip
  net_mask :: bytes

definition mask_byte :: "nat \<Rightarrow> nat \<Rightarrow> byte" where
  "mask_byte n i =
     (if 8 * (i + 1) \<le> n then 255 else if n \<le> 8 * i then 0
      else word_of_nat (256 - 2 ^ (8 - (n - 8 * i))))"

definition cidr_mask :: "nat \<Rightarrow> nat \<Rightarrow> bytes" where
  "cidr_mask n len = map (mask_byte n) [0..<len]"

definition and_bytes :: "bytes \<Rightarrow> bytes \<Rightarrow> bytes" where
  "and_bytes a m = map (\<lambda>(x, y). x AND y) (zip a m)"

definition parse_cidr :: "string \<Rightarrow> ip_net option" where
  "parse_cidr s =
     (let (addr, mask, found) = cut s ''/'' in
      if \<not> found then None
      else case parse_addr addr of
        None \<Rightarrow> None
      | Some (v4, b) \<Rightarrow>
          (if mask = [] \<or> \<not> list_all is_digit mask \<or> 8 * length b < num_of_digits 0 mask then None
           else let m = cidr_mask (num_of_digits 0 mask) (length b)
                in Some \<lparr>net_ip = and_bytes b m, net_mask = m\<rparr>))"

definition net_contains :: "ip_net \<Rightarrow> ip \<Rightarrow> bool" where
  "net_contains n a =
     (let nn = (case to4 (net_ip n) of Some b \<Rightarrow> b | None \<Rightarrow> net_ip n);
          m = (if length (net_mask n) = 16 \<and> length nn = 4 then drop 12 (net_mask n) else net_mask n);
          x = (case to4 a of Some b \<Rightarrow> b | None \<Rightarrow> a)
      in length nn = length m \<and> length x = length nn \<and> and_bytes nn m = and_bytes x m)"

section \<open>host:port\<close>

definition join_host_port :: "string \<Rightarrow> string \<Rightarrow> string" where
  "join_host_port host port =
     (if CHR '':'' \<in> set host then ''['' @ host @ '']:'' @ port else host @ '':'' @ port)"

text \<open>\<open>net.SplitHostPort\<close>; None is any of its errors (the host is then empty).\<close>

definition split_host_port :: "string \<Rightarrow> (string \<times> string) option" where
  "split_host_port s =
     (case last_index_byte s CHR '':'' of
        None \<Rightarrow> None
      | Some i \<Rightarrow>
          (if s \<noteq> [] \<and> hd s = CHR ''['' then
             (case index_byte s CHR '']'' of
                None \<Rightarrow> None
              | Some e \<Rightarrow>
                  (if e + 1 \<noteq> i then None
                   else if CHR ''['' \<in> set (drop 1 s) \<or> CHR '']'' \<in> set (drop (e + 1) s) then None
                   else Some (take (e - 1) (drop 1 s), drop (i + 1) s)))
           else if CHR '':'' \<in> set (take i s) \<or> CHR ''['' \<in> set s \<or> CHR '']'' \<in> set s then None
           else Some (take i s, drop (i + 1) s)))"

record udp_addr =
  ua_ip :: ip
  ua_port :: nat

text \<open>\<open>(*UDPAddr).String()\<close>: an empty IP prints as the empty host.\<close>

definition udp_string :: "udp_addr \<Rightarrow> string" where
  "udp_string a =
     join_host_port (if ua_ip a = [] then [] else ip_string (ua_ip a)) (itoa (ua_port a))"

section \<open>Facts shared by the components\<close>

lemma to4_length: "to4 a = Some b \<Longrightarrow> length b = 4"
  by (auto simp: to4_def split: if_splits)

lemma to4_of_4 [simp]: "length a = 4 \<Longrightarrow> to4 a = Some a"
  by (simp add: to4_def)

lemma to16_length: "to16 a = Some b \<Longrightarrow> length b = 16"
  by (auto simp: to16_def v4_in_v6_prefix_def split: if_splits)

lemma to4_nil [simp]: "to4 [] = None" and to16_nil [simp]: "to16 [] = None"
  by (simp_all add: to4_def to16_def)

lemma ip_equal_refl [simp]: "ip_equal a a"
  by (simp add: ip_equal_def)

lemma ip_equal_sym: "ip_equal a b = ip_equal b a"
  by (auto simp: ip_equal_def)

lemma ip_equal_4: "length a = 4 \<Longrightarrow> length b = 4 \<Longrightarrow> ip_equal a b \<longleftrightarrow> a = b"
  by (simp add: ip_equal_def)

lemma is_unspecified_4: "length a = 4 \<Longrightarrow> is_unspecified a \<longleftrightarrow> a = [0, 0, 0, 0]"
proof -
  assume a: "length a = 4"
  have "length ipv4_zero = 16" "take 12 ipv4_zero = v4_in_v6_prefix" "drop 12 ipv4_zero = [0, 0, 0, 0]"
    "length (replicate 16 0 :: ip) = 16" "take 12 (replicate 16 0) \<noteq> v4_in_v6_prefix"
    by code_simp+
  with a show ?thesis
    by (simp add: is_unspecified_def ip_equal_def del: length_replicate take_replicate)
qed

lemma ip_string_4: "length a = 4 \<Longrightarrow> ip_string a = dotted a"
  by (auto simp: ip_string_def)

text \<open>Joining and splitting a host and a port.\<close>

lemma split_join_host_port:
  assumes "CHR ''['' \<notin> set host" "CHR '']'' \<notin> set host"
    and "CHR '':'' \<notin> set port" "CHR ''['' \<notin> set port" "CHR '']'' \<notin> set port"
  shows "split_host_port (join_host_port host port) = Some (host, port)"
proof (cases "CHR '':'' \<in> set host")
  case True
  let ?s = "(CHR ''['' # host @ [CHR '']'']) @ CHR '':'' # port"
  have eq: "join_host_port host port = ?s"
    using True by (simp add: join_host_port_def)
  have last: "last_index_byte ?s CHR '':'' = Some (length host + 2)"
    using last_index_byte_append [OF assms(3)] by (simp del: append_Cons)
  have close: "index_byte ?s CHR '']'' = Some (length host + 1)"
    using index_byte_append [of "CHR '']''" "CHR ''['' # host" "CHR '':'' # port"] assms(2) by simp
  have "CHR ''['' \<notin> set (drop 1 ?s)" "CHR '']'' \<notin> set (drop (length host + 2) ?s)"
    using assms by auto
  then show ?thesis
    unfolding eq by (simp only: split_host_port_def last close option.case) simp
next
  case False
  have last: "last_index_byte (host @ CHR '':'' # port) CHR '':'' = Some (length host)"
    by (rule last_index_byte_append [OF assms(3)])
  have "host @ CHR '':'' # port \<noteq> [] \<and> hd (host @ CHR '':'' # port) \<noteq> CHR ''[''"
    using assms(1) by (cases host) auto
  with False assms show ?thesis
    by (simp add: join_host_port_def split_host_port_def last)
qed

lemma digits_no_delims:
  "list_all is_digit s \<Longrightarrow> CHR '':'' \<notin> set s \<and> CHR ''['' \<notin> set s \<and> CHR '']'' \<notin> set s \<and> CHR ''.'' \<notin> set s"
  by (auto simp: list_all_iff is_digit_def)

lemmas itoa_no_delims = digits_no_delims [OF itoa_digits]

lemma split_join_itoa:
  assumes "CHR ''['' \<notin> set host" "CHR '']'' \<notin> set host"
  shows "split_host_port (join_host_port host (itoa n)) = Some (host, itoa n)"
  using assms itoa_no_delims [of n] by (intro split_join_host_port) auto

text \<open>Dotted decimals are read back, so that distinct IPv4 addresses print differently.\<close>

lemma hd_itoa_zero: "hd (itoa n) = CHR ''0'' \<Longrightarrow> n = 0"
proof (induction n rule: itoa.induct)
  case (1 n)
  show ?case
  proof (cases "n < 10")
    case True
    then have "hd (itoa n) = digit_char n" by (subst itoa.simps) simp
    with "1.prems" True show ?thesis
      using of_digit_char [of n] by simp
  next
    case False
    then have "hd (itoa n) = hd (itoa (n div 10))"
      using itoa_nonempty [of "n div 10"] by (subst itoa.simps) simp
    with "1.IH" [OF False] "1.prems" False show ?thesis by simp
  qed
qed

lemma parse_octet_itoa: "parse_octet (itoa (unat (w :: byte))) = Some w"
proof -
  have "\<not> (1 < length (itoa (unat w)) \<and> hd (itoa (unat w)) = CHR ''0'')"
  proof
    assume a: "1 < length (itoa (unat w)) \<and> hd (itoa (unat w)) = CHR ''0''"
    then have "unat w = 0" using hd_itoa_zero by blast
    then have "length (itoa (unat w)) = 1" by (subst itoa.simps) simp
    with a show False by simp
  qed
  moreover have "unat w \<le> 255"
    using unat_byte_less [of w] by linarith
  ultimately show ?thesis
    using itoa_nonempty [of "unat w"] itoa_digits [of "unat w"]
    by (auto simp: parse_octet_def num_of_digits_itoa)
qed

lemma split_all_no: "x \<notin> set w \<Longrightarrow> split_all x w = [w]"
  by (induction w) auto

lemma split_all_cons: "x \<notin> set w \<Longrightarrow> split_all x (w @ x # s) = w # split_all x s"
  by (induction w) auto

lemma parse_ipv4_dotted: "parse_ipv4 (dotted [a, b, c, d]) = Some [a, b, c, d]"
proof -
  have no: "CHR ''.'' \<notin> set (itoa n)" for n
    using itoa_no_delims by blast
  have "split_all CHR ''.'' (dotted [a, b, c, d]) =
    [itoa (unat a), itoa (unat b), itoa (unat c), itoa (unat d)]"
    using no by (simp add: dotted_def split_all_cons split_all_no)
  then show ?thesis
    by (simp add: parse_ipv4_def parse_octet_itoa)
qed

lemma length_4_cases: "length a = 4 \<Longrightarrow> \<exists>w x y z. a = [w, x, y, z]"
  by (auto simp: eval_nat_numeral length_Suc_conv)

lemma ip_string_inj_4:
  assumes "length a = 4" "length b = 4" "ip_string a = ip_string b"
  shows "a = b"
proof -
  from assms have "dotted a = dotted b" by (simp add: ip_string_4)
  moreover obtain w x y z where "a = [w, x, y, z]" using assms(1) length_4_cases by blast
  moreover obtain w' x' y' z' where "b = [w', x', y', z']" using assms(2) length_4_cases by blast
  ultimately show ?thesis
    using parse_ipv4_dotted by (metis option.inject)
qed

lemma dotted_first_delim:
  "\<exists>s. dropWhile (\<lambda>c. c \<noteq> CHR ''.'' \<and> c \<noteq> CHR '':'') (dotted [a, b, c, d]) = CHR ''.'' # s"
proof -
  have "\<forall>c \<in> set (itoa (unat a)). c \<noteq> CHR ''.'' \<and> c \<noteq> CHR '':''"
    using itoa_no_delims [of "unat a"] by blast
  then show ?thesis
    by (auto simp: dotted_def dropWhile_append2)
qed

lemma dotted_chars: "c \<in> set (dotted b) \<Longrightarrow> is_digit c \<or> c = CHR ''.''"
proof (induction b rule: rev_induct)
  case Nil
  then show ?case by (simp add: dotted_def)
next
  case (snoc x xs)
  have join: "join_with ''.'' (ws @ [w]) = (if ws = [] then w else join_with ''.'' ws @ ''.'' @ w)" for ws w
    by (induction "''.''" ws rule: join_with.induct) auto
  from snoc show ?case
    using itoa_digits [of "unat x"] by (auto simp: dotted_def join list_all_iff split: if_splits)
qed

lemma parse_addr_dotted: "length a = 4 \<Longrightarrow> parse_addr (dotted a) = Some (True, a)"
proof -
  assume "length a = 4"
  then obtain w x y z where a: "a = [w, x, y, z]" using length_4_cases by blast
  obtain s where s: "dropWhile (\<lambda>c. c \<noteq> CHR ''.'' \<and> c \<noteq> CHR '':'') (dotted a) = CHR ''.'' # s"
    using dotted_first_delim unfolding a by blast
  have "CHR ''%'' \<notin> set (dotted a)"
    using dotted_chars by (force simp: is_digit_def)
  then show ?thesis
    using s parse_ipv4_dotted by (simp add: parse_addr_def a)
qed

lemma parse_ip_dotted: "length a = 4 \<Longrightarrow> parse_ip (ip_string a) = Some (v4_in_v6_prefix @ a)"
  by (simp add: parse_ip_def ip_string_4 parse_addr_dotted)

lemma ip_string_no_brackets_4: "length a = 4 \<Longrightarrow> CHR ''['' \<notin> set (ip_string a) \<and> CHR '']'' \<notin> set (ip_string a)"
  using dotted_chars [of _ a] by (force simp: ip_string_4 is_digit_def)


text \<open>Membership in a network, bit by bit.\<close>

lemma less_8_cases: "(k :: nat) < 8 \<Longrightarrow> k \<in> {0, 1, 2, 3, 4, 5, 6, 7}"
  by auto

lemma bit_mask_byte: "k < 8 \<Longrightarrow> bit (mask_byte n i) k \<longleftrightarrow> 8 * i + (7 - k) < n"
proof -
  assume k: "k < 8"
  have part: "bit (word_of_nat (256 - 2 ^ m) :: byte) k \<longleftrightarrow> m \<le> k" if "m \<in> {1, 2, 3, 4, 5, 6, 7}" for m
    using that less_8_cases [OF k] by (elim insertE emptyE) simp_all
  consider "8 * (i + 1) \<le> n" | "n \<le> 8 * i" | "8 * i < n" "n < 8 * (i + 1)" by linarith
  then show ?thesis
  proof cases
    case 1
    then have "8 * i + (7 - k) < n" by simp
    moreover have "bit (255 :: byte) k"
      using less_8_cases [OF k] by (elim insertE emptyE) simp_all
    ultimately show ?thesis
      using 1 by (simp add: mask_byte_def)
  next
    case 2
    then show ?thesis by (simp add: mask_byte_def)
  next
    case 3
    let ?m = "8 - (n - 8 * i)"
    have "?m \<in> {1, 2, 3, 4, 5, 6, 7}"
      using 3 by auto
    with part [of ?m] 3 k show ?thesis
      by (auto simp: mask_byte_def)
  qed
qed

lemma length_and_bytes [simp]: "length (and_bytes a m) = min (length a) (length m)"
  by (simp add: and_bytes_def)

lemma nth_and_bytes: "i < length a \<Longrightarrow> i < length m \<Longrightarrow> and_bytes a m ! i = a ! i AND m ! i"
  by (simp add: and_bytes_def)

lemma length_cidr_mask [simp]: "length (cidr_mask n len) = len"
  by (simp add: cidr_mask_def)

lemma and_mask_eq_iff:
  "a AND mask_byte n i = b AND mask_byte n i \<longleftrightarrow>
     (\<forall>j. 8 * i \<le> j \<longrightarrow> j < 8 * i + 8 \<longrightarrow> j < n \<longrightarrow> bit a (7 - j mod 8) = bit b (7 - j mod 8))"
proof
  assume eq: "a AND mask_byte n i = b AND mask_byte n i"
  show "\<forall>j. 8 * i \<le> j \<longrightarrow> j < 8 * i + 8 \<longrightarrow> j < n \<longrightarrow> bit a (7 - j mod 8) = bit b (7 - j mod 8)"
  proof (intro allI impI)
    fix j assume j: "8 * i \<le> j" "j < 8 * i + 8" "j < n"
    then have "j mod 8 = j - 8 * i"
      by (simp add: mod_nat_eqI)
    with j have "bit (mask_byte n i) (7 - j mod 8)"
      by (subst bit_mask_byte) auto
    with eq show "bit a (7 - j mod 8) = bit b (7 - j mod 8)"
      by (metis bit_and_iff)
  qed
next
  assume same: "\<forall>j. 8 * i \<le> j \<longrightarrow> j < 8 * i + 8 \<longrightarrow> j < n \<longrightarrow> bit a (7 - j mod 8) = bit b (7 - j mod 8)"
  have "bit a k = bit b k" if k: "k < 8" "bit (mask_byte n i) k" for k
  proof -
    let ?j = "8 * i + (7 - k)"
    have "?j < n" using k by (simp add: bit_mask_byte)
    moreover have "?j mod 8 = 7 - k" using k(1) by (simp only: mod_mult_self4) simp
    ultimately show ?thesis
      using same [THEN spec, of ?j] k(1) by simp
  qed
  then show "a AND mask_byte n i = b AND mask_byte n i"
    by (intro bit_word_eqI) (auto simp: bit_and_iff)
qed

lemma and_bytes_mask_eq_iff:
  assumes "length a = len" "length b = len" "n \<le> 8 * len"
  shows "and_bytes a (cidr_mask n len) = and_bytes b (cidr_mask n len) \<longleftrightarrow>
    (\<forall>j < n. bit (a ! (j div 8)) (7 - j mod 8) = bit (b ! (j div 8)) (7 - j mod 8))"
proof -
  have "and_bytes a (cidr_mask n len) = and_bytes b (cidr_mask n len) \<longleftrightarrow>
      (\<forall>i < len. a ! i AND mask_byte n i = b ! i AND mask_byte n i)"
    using assms by (auto simp: list_eq_iff_nth_eq nth_and_bytes cidr_mask_def)
  also have "\<dots> \<longleftrightarrow> (\<forall>i < len. \<forall>j. 8 * i \<le> j \<longrightarrow> j < 8 * i + 8 \<longrightarrow> j < n \<longrightarrow>
      bit (a ! i) (7 - j mod 8) = bit (b ! i) (7 - j mod 8))"
    by (simp only: and_mask_eq_iff)
  also have "\<dots> \<longleftrightarrow> (\<forall>j < n. bit (a ! (j div 8)) (7 - j mod 8) = bit (b ! (j div 8)) (7 - j mod 8))"
  proof (rule iffI; intro allI impI)
    fix j assume all: "\<forall>i < len. \<forall>j. 8 * i \<le> j \<longrightarrow> j < 8 * i + 8 \<longrightarrow> j < n \<longrightarrow>
      bit (a ! i) (7 - j mod 8) = bit (b ! i) (7 - j mod 8)" and j: "j < n"
    have "j div 8 < len" using j assms(3) by (simp add: less_mult_imp_div_less mult.commute)
    moreover have "8 * (j div 8) \<le> j" "j < 8 * (j div 8) + 8" by auto
    ultimately show "bit (a ! (j div 8)) (7 - j mod 8) = bit (b ! (j div 8)) (7 - j mod 8)"
      using all j by blast
  next
    fix i j assume all: "\<forall>j < n. bit (a ! (j div 8)) (7 - j mod 8) = bit (b ! (j div 8)) (7 - j mod 8)"
      and "i < len" and j: "8 * i \<le> j" "j < 8 * i + 8" "j < n"
    have "j div 8 = i" using j by (simp add: div_nat_eqI)
    with all j show "bit (a ! i) (7 - j mod 8) = bit (b ! i) (7 - j mod 8)" by metis
  qed
  finally show ?thesis .
qed

lemma index_of_char: "x \<notin> set s \<Longrightarrow> index_of (s @ x # t) [x] = Some (length s)"
  by (induction s) (auto simp: has_prefix_def)

lemma parse_cidr_dotted:
  assumes "length b = 4" "n \<le> 32"
  shows "parse_cidr (dotted b @ ''/'' @ itoa n) =
    Some \<lparr>net_ip = and_bytes b (cidr_mask n 4), net_mask = cidr_mask n 4\<rparr>"
proof -
  have "CHR ''/'' \<notin> set (dotted b)"
    using dotted_chars by (force simp: is_digit_def)
  then have "cut (dotted b @ ''/'' @ itoa n) ''/'' = (dotted b, itoa n, True)"
    by (simp add: cut_def index_of_char)
  then show ?thesis
    using assms itoa_nonempty [of n] itoa_digits [of n]
    by (simp add: parse_cidr_def parse_addr_dotted num_of_digits_itoa Let_def)
qed

lemma to4_v4_in_v6 [simp]: "length a = 4 \<Longrightarrow> to4 (v4_in_v6_prefix @ a) = Some a"
  by (simp add: to4_def v4_in_v6_prefix_def)

text \<open>Every parsed address has sixteen bytes, and prints like its four-byte form if it has one.\<close>

lemma parse6_loop_length:
  "parse6_loop k s acc e = Some (acc', e') \<Longrightarrow> length acc + 2 * k \<le> 16 \<Longrightarrow> length acc' \<le> 16"
proof (induction k s acc e rule: parse6_loop.induct)
  case (2 k s acc e)
  have len4: "length b = 4" if "parse_ipv4 s = Some b" for b s
    using that by (auto simp: parse_ipv4_def split: list.splits option.splits)
  from 2 show ?case
    by (auto simp: Let_def len4 split: if_splits list.splits option.splits)
qed (auto split: if_splits)

lemma parse_ipv6_length: "parse_ipv6 s = Some b \<Longrightarrow> length b = 16"
  by (auto simp: parse_ipv6_def Let_def dest: parse6_loop_length split: if_splits option.splits prod.splits)

lemma parse_ipv4_length: "parse_ipv4 s = Some b \<Longrightarrow> length b = 4"
  by (auto simp: parse_ipv4_def split: list.splits option.splits)

lemma parse_ip_length: "parse_ip s = Some a \<Longrightarrow> length a = 16"
  by (auto simp: parse_ip_def parse_addr_def v4_in_v6_prefix_def
      dest: parse_ipv6_length parse_ipv4_length split: option.splits list.splits if_splits)

lemma ip_string_to4:
  assumes "to4 a = Some b"
  shows "ip_string b = ip_string a"
proof -
  have "ip_string b = dotted b"
    using to4_length [OF assms] by (simp add: ip_string_4)
  moreover have "length a = 4 \<or> length a = 16"
    using assms by (auto simp: to4_def split: if_splits)
  ultimately show ?thesis
    using assms by (auto simp: ip_string_def [of a])
qed

lemma to16_16: "length a = 16 \<Longrightarrow> to16 a = Some a"
  by (simp add: to16_def)

lemma net_contains_to4:
  assumes "to4 x = Some a" "length b = 4" "n \<le> 32"
  shows "net_contains \<lparr>net_ip = and_bytes b (cidr_mask n 4), net_mask = cidr_mask n 4\<rparr> x \<longleftrightarrow>
    (\<forall>j < n. bit (a ! (j div 8)) (7 - j mod 8) = bit (b ! (j div 8)) (7 - j mod 8))"
proof -
  have "and_bytes (and_bytes b m) m = and_bytes b m" for b m
    by (auto simp: list_eq_iff_nth_eq nth_and_bytes)
  then show ?thesis
    using assms to4_length [OF assms(1)] and_bytes_mask_eq_iff [of a 4 b n]
    by (auto simp: net_contains_def Let_def)
qed

lemmas net_contains_4 = net_contains_to4 [OF to4_v4_in_v6]

end
