(* ===== verification/Proxy_Registry.thy ===== *)
theory Proxy_Registry
  imports Go_Net
begin

text \<open>
  The proxy objects and the registry that finds them by name
  (\<open>proxy/interface.go\<close>, \<open>proxy/registry.go\<close> and the constructors of \<open>proxy/*.go\<close>).

  Proxies are pointers in the source: a chain keeps the objects it resolved when it was
  built, and the registry, the groups and the chains share them together with their
  mutable fields. The model therefore has a heap: a \<open>pref\<close> is a pointer into it, the
  registry maps lower-case names to pointers, and the stateless \<open>DIRECT\<close> and
  \<open>REJECT\<close> proxies, which \<open>Get\<close> makes anew on each call, are pointers of their own.
\<close>

section \<open>Configurations\<close>

text \<open>\<open>config.ProxyConfig\<close>: one entry of the \<open>proxies\<close> list.\<close>

record config_proxy =
  pc_name :: string
  pc_type :: string
  pc_server :: string
  pc_port :: int
  pc_username :: string
  pc_password :: string
  pc_cipher :: string
  pc_sni :: string
  pc_alpn :: "string list"
  pc_uuid :: string
  pc_alter_id :: int
  pc_method :: string
  pc_proxies :: "string list"
  pc_url :: string
  pc_interval :: int
  pc_default :: string
  pc_public_key :: string
  pc_short_id :: string
  pc_fingerprint :: string

text \<open>\<open>proxy.Config\<close>\<close>

record proxy_cfg =
  c_name :: string
  c_type :: string
  c_server :: string
  c_port :: int
  c_username :: string
  c_password :: string
  c_cipher :: string
  c_sni :: string
  c_alpn :: "string list"
  c_uuid :: string
  c_alter_id :: int
  c_network :: string
  c_method :: string
  c_proxies :: "string list"
  c_url :: string
  c_interval :: int
  c_default :: string
  c_public_key :: string
  c_short_id :: string
  c_fingerprint :: string

definition to_proxy_config :: "config_proxy \<Rightarrow> proxy_cfg" where
  "to_proxy_config pc = \<lparr>
     c_name = pc_name pc, c_type = pc_type pc, c_server = pc_server pc, c_port = pc_port pc,
     c_username = pc_username pc, c_password = pc_password pc, c_cipher = pc_cipher pc,
     c_sni = pc_sni pc, c_alpn = pc_alpn pc, c_uuid = pc_uuid pc, c_alter_id = pc_alter_id pc,
     c_network = [], c_method = pc_method pc, c_proxies = pc_proxies pc, c_url = pc_url pc,
     c_interval = pc_interval pc, c_default = pc_default pc, c_public_key = pc_public_key pc,
     c_short_id = pc_short_id pc, c_fingerprint = pc_fingerprint pc\<rparr>"

section \<open>Objects, errors and the world\<close>

datatype leaf_kind =
    KHTTP | KHTTPS | KSOCKS5 | KShadowsocks | KTrojan | KVMess | KVLESS | KForward | KHTTP3

datatype pref = PDirect | PReject | PObj nat

text \<open>
  The concrete types behind the interface \<open>Proxy\<close>. The counter of a round-robin group is
  an \<open>atomic.Int64\<close>; a URL-test group keeps the selected name, the latencies (in
  nanoseconds) and the names marked as failed; a chain keeps its resolved hops.
\<close>

datatype obj =
    ODirect
  | OLeaf leaf_kind proxy_cfg
  | OSelector proxy_cfg string
  | OURLTest proxy_cfg string "string \<rightharpoonup> int" "string \<rightharpoonup> bool"
  | ORoundRobin proxy_cfg "64 word"
  | OChain proxy_cfg "pref list"
  | OFailover proxy_cfg
  | OLoadBalance proxy_cfg

datatype perr =
    NotFound string
  | UnknownProxyType string
  | UnknownGroupType string
  | BadCipher string
  | PasswordTooShort
  | NoProxies string
  | NoServerAddress string nat
  | Rejected
  | NetError string
  | EmptyChain string
  | InGroup string perr
  | InHop string nat perr
  | AllFailed string perr

text \<open>
  What the network saw: a dial by a proxy (the direct one or a remote one, by name) to a
  target, with the number of the connection and whether it came up, and the closing of a
  connection.
\<close>

datatype event =
    Dial string string nat bool
  | Close nat

record world =
  heap :: "obj list"
  names :: "string \<rightharpoonup> pref"
  tick :: nat
  trace :: "event list"

definition new_registry :: world where
  "new_registry = \<lparr>heap = [], names = Map.empty, tick = 0, trace = []\<rparr>"

definition obj_name :: "obj \<Rightarrow> string" where
  "obj_name ob = (case ob of
       ODirect \<Rightarrow> ''DIRECT''
     | OLeaf k c \<Rightarrow> c_name c
     | OSelector c ch \<Rightarrow> c_name c
     | OURLTest c b l f \<Rightarrow> c_name c
     | ORoundRobin c i \<Rightarrow> c_name c
     | OChain c hs \<Rightarrow> c_name c
     | OFailover c \<Rightarrow> c_name c
     | OLoadBalance c \<Rightarrow> c_name c)"

definition pref_name :: "world \<Rightarrow> pref \<Rightarrow> string" where
  "pref_name w p = (case p of
       PDirect \<Rightarrow> ''DIRECT'' | PReject \<Rightarrow> ''REJECT''
     | PObj i \<Rightarrow> (if i < length (heap w) then obj_name (heap w ! i) else []))"

section \<open>The registry\<close>

text \<open>\<open>Register\<close> stores the object under its lower-case name; allocation of the object
  on the heap is the Go \<open>&T{...}\<close> of its constructor.\<close>

definition alloc :: "world \<Rightarrow> obj \<Rightarrow> world \<times> pref" where
  "alloc w ob = (w\<lparr>heap := heap w @ [ob]\<rparr>, PObj (length (heap w)))"

definition reg_register :: "world \<Rightarrow> pref \<Rightarrow> world" where
  "reg_register w p = w\<lparr>names := (names w)(to_lower (pref_name w p) \<mapsto> p)\<rparr>"

definition reg_get :: "world \<Rightarrow> string \<Rightarrow> perr + pref" where
  "reg_get w nm =
     (if to_upper nm = ''DIRECT'' then Inr PDirect
      else if to_upper nm = ''REJECT'' then Inr PReject
      else case names w (to_lower nm) of None \<Rightarrow> Inl (NotFound nm) | Some p \<Rightarrow> Inr p)"

definition reg_unregister :: "world \<Rightarrow> string \<Rightarrow> world" where
  "reg_unregister w nm = w\<lparr>names := (names w)(to_lower nm := None)\<rparr>"

text \<open>
  \<open>Names\<close> ranges over a Go map, whose iteration order is unspecified: any ordering of the
  registered names is a possible result.
\<close>

definition reg_names :: "world \<Rightarrow> string list \<Rightarrow> bool" where
  "reg_names w ns \<longleftrightarrow> distinct ns \<and> set ns = dom (names w)"

definition is_group :: "string \<Rightarrow> bool" where
  "is_group t \<longleftrightarrow> t \<in> {''selector'', ''url-test'', ''urltest'', ''round-robin'', ''roundrobin'',
     ''chain'', ''failover'', ''load-balance'', ''loadbalance''}"

section \<open>Constructors\<close>

text \<open>\<open>NewShadowsocks\<close>: the errors of its cipher switch (the AES and ChaCha20 constructors
  get keys of a legal length on every branch and cannot fail).\<close>

definition new_shadowsocks :: "proxy_cfg \<Rightarrow> perr + obj" where
  "new_shadowsocks c =
     (let m = to_lower (c_cipher c) in
      if m = ''aes-128-gcm'' then
        (if length (c_password c) < 16 then Inl PasswordTooShort else Inr (OLeaf KShadowsocks c))
      else if m \<in> {''aes-256-gcm'', ''chacha20-ietf-poly1305'', ''aes-128-cfb'', ''aes-256-cfb'',
                  ''aes-128-ctr'', ''aes-256-ctr''} then Inr (OLeaf KShadowsocks c)
      else Inl (BadCipher m))"

definition new_proxy :: "proxy_cfg \<Rightarrow> perr + obj" where
  "new_proxy c =
     (let t = to_lower (c_type c) in
      if t = ''direct'' then Inr ODirect
      else if t = ''http'' then Inr (OLeaf KHTTP c)
      else if t = ''https'' then Inr (OLeaf KHTTPS c)
      else if t = ''socks5'' then Inr (OLeaf KSOCKS5 c)
      else if t = ''ss'' \<or> t = ''shadowsocks'' then new_shadowsocks c
      else if t = ''trojan'' then Inr (OLeaf KTrojan c)
      else if t = ''vmess'' then Inr (OLeaf KVMess c)
      else if t = ''vless'' then Inr (OLeaf KVLESS c)
      else if t = ''forward'' then Inr (OLeaf KForward c)
      else if t = ''http3'' then Inr (OLeaf KHTTP3 c)
      else Inl (UnknownProxyType (c_type c)))"

definition new_selector :: "proxy_cfg \<Rightarrow> obj" where
  "new_selector c =
     OSelector c (if c_default c = [] \<and> c_proxies c \<noteq> [] then hd (c_proxies c) else c_default c)"

definition new_urltest :: "proxy_cfg \<Rightarrow> obj" where
  "new_urltest c =
     OURLTest c (if c_proxies c \<noteq> [] then hd (c_proxies c) else []) Map.empty Map.empty"

definition new_round_robin :: "proxy_cfg \<Rightarrow> obj" where
  "new_round_robin c = ORoundRobin c 0"

definition new_failover :: "proxy_cfg \<Rightarrow> perr + obj" where
  "new_failover c = (if c_proxies c = [] then Inl (NoProxies (c_name c)) else Inr (OFailover c))"

definition new_load_balance :: "proxy_cfg \<Rightarrow> perr + obj" where
  "new_load_balance c =
     (if c_proxies c = [] then Inl (NoProxies (c_name c)) else Inr (OLoadBalance c))"

fun resolve_hops :: "world \<Rightarrow> string \<Rightarrow> string list \<Rightarrow> perr + pref list" where
  "resolve_hops w nm [] = Inr []"
| "resolve_hops w nm (h # hs) = (case reg_get w h of
       Inl e \<Rightarrow> Inl (InGroup nm e)
     | Inr p \<Rightarrow> (case resolve_hops w nm hs of Inl e \<Rightarrow> Inl e | Inr ps \<Rightarrow> Inr (p # ps)))"

definition new_chain :: "world \<Rightarrow> proxy_cfg \<Rightarrow> perr + obj" where
  "new_chain w c =
     (if c_proxies c = [] then Inl (NoProxies (c_name c))
      else case resolve_hops w (c_name c) (c_proxies c) of
        Inl e \<Rightarrow> Inl e | Inr ps \<Rightarrow> Inr (OChain c ps))"

definition new_group :: "world \<Rightarrow> proxy_cfg \<Rightarrow> perr + obj" where
  "new_group w c =
     (let t = to_lower (c_type c) in
      if t = ''selector'' then Inr (new_selector c)
      else if t = ''url-test'' \<or> t = ''urltest'' then Inr (new_urltest c)
      else if t = ''round-robin'' \<or> t = ''roundrobin'' then Inr (new_round_robin c)
      else if t = ''chain'' then new_chain w c
      else if t = ''failover'' then new_failover c
      else if t = ''load-balance'' \<or> t = ''loadbalance'' then new_load_balance c
      else Inl (UnknownGroupType (c_type c)))"

text \<open>\<open>Register(cfgs)\<close>: one pass over the plain proxies, then one over the groups.\<close>

fun register_pass ::
    "(world \<Rightarrow> proxy_cfg \<Rightarrow> perr + obj) \<Rightarrow> bool \<Rightarrow> world \<Rightarrow> config_proxy list \<Rightarrow> perr + world" where
  "register_pass mk grp w [] = Inr w"
| "register_pass mk grp w (pc # pcs) =
     (let pc' = pc\<lparr>pc_type := to_lower (pc_type pc)\<rparr> in
      if is_group (pc_type pc') \<noteq> grp then register_pass mk grp w pcs
      else case mk w (to_proxy_config pc') of
        Inl e \<Rightarrow> Inl (InGroup (pc_name pc') e)
      | Inr ob \<Rightarrow> (let (w', p) = alloc w ob in register_pass mk grp (reg_register w' p) pcs))"

definition register_all :: "config_proxy list \<Rightarrow> perr + world" where
  "register_all cfgs = (case register_pass (\<lambda>_. new_proxy) False new_registry cfgs of
       Inl e \<Rightarrow> Inl e
     | Inr w \<Rightarrow> register_pass new_group True w cfgs)"

section \<open>Server addresses\<close>

text \<open>\<open>ServerAddr\<close> of every remote proxy type, and the empty string for the others.\<close>

definition server_addr :: "proxy_cfg \<Rightarrow> string" where
  "server_addr c = join_host_port (c_server c) (itoa_int (c_port c))"

definition server_addr_of :: "world \<Rightarrow> pref \<Rightarrow> string" where
  "server_addr_of w p = (case p of
       PObj i \<Rightarrow> (if i < length (heap w) then
                   (case heap w ! i of OLeaf k c \<Rightarrow> server_addr c | _ \<Rightarrow> []) else [])
     | _ \<Rightarrow> [])"

section \<open>The registry contract\<close>

text \<open>
  What the router and the groups rely on: lookup ignores case, a registration is found
  under every spelling of its name until it is removed or replaced, and reserved names
  cannot be captured.
\<close>

locale name_registry =
  fixes get :: "'w \<Rightarrow> string \<Rightarrow> perr + 'p"
    and put :: "'w \<Rightarrow> 'p \<Rightarrow> 'w"
    and del :: "'w \<Rightarrow> string \<Rightarrow> 'w"
    and nm :: "'w \<Rightarrow> 'p \<Rightarrow> string"
    and reserved :: "string \<Rightarrow> bool"
  assumes get_put: "\<not> reserved s \<Longrightarrow>
      get (put w p) s = (if to_lower s = to_lower (nm w p) then Inr p else get w s)"
    and get_del: "\<not> reserved s \<Longrightarrow>
      get (del w n) s = (if to_lower s = to_lower n then Inl (NotFound s) else get w s)"
    and put_reserved: "reserved s \<Longrightarrow> get (put w p) s = get w s"
    and del_reserved: "reserved s \<Longrightarrow> get (del w n) s = get w s"
    and nm_put: "nm (put w p) q = nm w q"
    and nm_del: "nm (del w n) q = nm w q"
begin

lemma get_put_same: "\<not> reserved (nm w p) \<Longrightarrow> get (put w p) (nm w p) = Inr p"
  by (simp add: get_put)

lemma get_put_fold:
  "\<not> reserved s \<Longrightarrow> equal_fold s (nm w p) \<Longrightarrow> get (put w p) s = Inr p"
  by (simp add: get_put equal_fold_def)

lemma last_put_wins:
  "\<not> reserved s \<Longrightarrow> equal_fold (nm w p) (nm w q) \<Longrightarrow> get (put (put w p) q) s = get (put w q) s"
  by (simp add: get_put nm_put equal_fold_def)

lemma get_del_put:
  "\<not> reserved s \<Longrightarrow> get (del (put w p) (nm w p)) s = get (del w (nm w p)) s"
  by (simp add: get_put get_del)

lemma put_del_other:
  "\<not> equal_fold (nm w p) n \<Longrightarrow> get (del (put w p) n) s = get (put (del w n) p) s"
  by (cases "reserved s") (auto simp: get_put get_del put_reserved del_reserved nm_del equal_fold_def)

end

definition reserved_name :: "string \<Rightarrow> bool" where
  "reserved_name s \<longleftrightarrow> to_upper s = ''DIRECT'' \<or> to_upper s = ''REJECT''"

lemma pref_name_names [simp]: "pref_name (w\<lparr>names := m\<rparr>) q = pref_name w q"
  by (simp add: pref_name_def split: pref.splits)

lemma pref_name_register [simp]: "pref_name (reg_register w p) q = pref_name w q"
  by (simp add: pref_name_def reg_register_def split: pref.splits)

lemma pref_name_unregister [simp]: "pref_name (reg_unregister w n) q = pref_name w q"
  by (simp add: pref_name_def reg_unregister_def split: pref.splits)

interpretation preg: name_registry reg_get reg_register reg_unregister pref_name reserved_name
  by unfold_locales (auto simp: reg_get_def reg_register_def reg_unregister_def reserved_name_def)

lemma reg_get_DIRECT [simp]: "reg_get w ''DIRECT'' = Inr PDirect"
  by (simp add: reg_get_def upper_char_def Let_def)

lemma reg_get_names:
  "reg_get w s = Inr p \<Longrightarrow> p = PDirect \<or> p = PReject \<or> names w (to_lower s) = Some p"
  by (auto simp: reg_get_def split: if_splits option.splits)

lemma reg_get_cong: "names w = names w' \<Longrightarrow> reg_get w = reg_get w'"
  by (rule ext) (simp add: reg_get_def)


section \<open>What a registration leaves\<close>

text \<open>
  The key under which an entry is registered: its own name in lower case, except for entries
  of type direct, whose object is called DIRECT.
\<close>

definition entry_key :: "config_proxy \<Rightarrow> string" where
  "entry_key pc =
     (if to_lower (pc_type pc) = ''direct'' then ''direct'' else to_lower (pc_name pc))"

definition made_by :: "(world \<Rightarrow> proxy_cfg \<Rightarrow> perr + obj) \<Rightarrow> bool" where
  "made_by mk \<longleftrightarrow> (\<forall>w c ob. mk w c = Inr ob \<longrightarrow>
     obj_name ob = (if to_lower (c_type c) = ''direct'' then ''DIRECT'' else c_name c))"

lemma made_byD: "made_by mk \<Longrightarrow> mk w c = Inr ob \<Longrightarrow>
  obj_name ob = (if to_lower (c_type c) = ''direct'' then ''DIRECT'' else c_name c)"
  unfolding made_by_def by blast

lemma made_by_new_proxy: "made_by (\<lambda>_. new_proxy)"
  by (auto simp: made_by_def new_proxy_def new_shadowsocks_def obj_name_def Let_def
      split: if_splits)

lemma made_by_new_group: "made_by new_group"
  by (auto simp: made_by_def new_group_def new_selector_def new_urltest_def new_round_robin_def
      new_chain_def new_failover_def new_load_balance_def obj_name_def Let_def
      split: if_splits sum.splits)

definition found_as :: "world \<Rightarrow> string \<Rightarrow> string \<Rightarrow> bool" where
  "found_as w k nm \<longleftrightarrow> (\<exists>i < length (heap w). names w k = Some (PObj i) \<and> obj_name (heap w ! i) = nm)"

lemma to_proxy_config_simps [simp]:
  "c_name (to_proxy_config pc) = pc_name pc" "c_type (to_proxy_config pc) = pc_type pc"
  "c_proxies (to_proxy_config pc) = pc_proxies pc"
  by (simp_all add: to_proxy_config_def)

lemma register_pass_step:
  assumes "register_pass mk grp w (pc # pcs) = Inr w'" "is_group (to_lower (pc_type pc)) = grp"
  shows "\<exists>ob. mk w (to_proxy_config (pc\<lparr>pc_type := to_lower (pc_type pc)\<rparr>)) = Inr ob \<and>
    register_pass mk grp (reg_register (w\<lparr>heap := heap w @ [ob]\<rparr>) (PObj (length (heap w)))) pcs = Inr w'"
  using assms by (auto simp: Let_def alloc_def split: sum.splits)

lemma lower_DIRECT [simp]: "to_lower ''DIRECT'' = ''direct''"
  by code_simp

lemma registered_key:
  assumes "made_by mk" "mk w (to_proxy_config (pc\<lparr>pc_type := to_lower (pc_type pc)\<rparr>)) = Inr ob"
  shows "to_lower (obj_name ob) = entry_key pc"
    and "to_lower (pc_type pc) \<noteq> ''direct'' \<Longrightarrow> obj_name ob = pc_name pc"
proof -
  have nm: "obj_name ob = (if to_lower (pc_type pc) = ''direct'' then ''DIRECT'' else pc_name pc)"
    using made_byD [OF assms] by simp
  then show "to_lower (obj_name ob) = entry_key pc"
    by (simp only: entry_key_def lower_DIRECT if_distrib [of to_lower])
  show "to_lower (pc_type pc) \<noteq> ''direct'' \<Longrightarrow> obj_name ob = pc_name pc"
    using nm by (simp only: if_False)
qed

text \<open>One registration: the new object is found under its key, the other keys are untouched.\<close>

lemma found_as_register:
  fixes w ob
  defines "w' \<equiv> reg_register (w\<lparr>heap := heap w @ [ob]\<rparr>) (PObj (length (heap w)))"
  shows "found_as w' (to_lower (obj_name ob)) (obj_name ob)"
    and "k \<noteq> to_lower (obj_name ob) \<Longrightarrow> found_as w k nm \<Longrightarrow> found_as w' k nm"
  by (auto simp: w'_def found_as_def reg_register_def pref_name_def nth_append)

lemma register_pass_frame:
  assumes "made_by mk"
  shows "register_pass mk grp w pcs = Inr w' \<Longrightarrow>
    \<forall>pc \<in> set pcs. is_group (to_lower (pc_type pc)) = grp \<longrightarrow> entry_key pc \<noteq> k \<Longrightarrow>
    found_as w k nm \<Longrightarrow> found_as w' k nm"
proof (induction pcs arbitrary: w)
  case (Cons pc pcs)
  show ?case
  proof (cases "is_group (to_lower (pc_type pc)) = grp")
    case True
    from register_pass_step [OF Cons.prems(1) True] obtain ob where
      ob: "mk w (to_proxy_config (pc\<lparr>pc_type := to_lower (pc_type pc)\<rparr>)) = Inr ob"
      and rest: "register_pass mk grp
        (reg_register (w\<lparr>heap := heap w @ [ob]\<rparr>) (PObj (length (heap w)))) pcs = Inr w'"
      by blast
    have "k \<noteq> to_lower (obj_name ob)"
      unfolding registered_key(1) [OF assms ob] using Cons.prems(2) True by auto
    from Cons.IH [OF rest _ found_as_register(2) [OF this Cons.prems(3)]] Cons.prems(2)
    show ?thesis by simp
  qed (use Cons in auto)
qed simp

text \<open>No later entry of the list is registered under the key of \<open>pc\<close>.\<close>

definition unshadowed :: "config_proxy \<Rightarrow> config_proxy list \<Rightarrow> bool" where
  "unshadowed pc pcs \<longleftrightarrow> (\<forall>x \<in> set pcs. x \<noteq> pc \<longrightarrow> entry_key x \<noteq> entry_key pc)"

lemma register_pass_found:
  assumes "made_by mk" "is_group (to_lower (pc_type pc)) = grp" "to_lower (pc_type pc) \<noteq> ''direct''"
  shows "register_pass mk grp w pcs = Inr w' \<Longrightarrow> unshadowed pc pcs \<Longrightarrow>
    pc \<in> set pcs \<or> found_as w (entry_key pc) (pc_name pc) \<Longrightarrow> found_as w' (entry_key pc) (pc_name pc)"
proof (induction pcs arbitrary: w)
  case (Cons q pcs)
  have un: "unshadowed pc pcs"
    using Cons.prems(2) by (simp add: unshadowed_def)
  show ?case
  proof (cases "is_group (to_lower (pc_type q)) = grp")
    case True
    from register_pass_step [OF Cons.prems(1) True] obtain ob where
      ob: "mk w (to_proxy_config (q\<lparr>pc_type := to_lower (pc_type q)\<rparr>)) = Inr ob"
      and rest: "register_pass mk grp
        (reg_register (w\<lparr>heap := heap w @ [ob]\<rparr>) (PObj (length (heap w)))) pcs = Inr w'"
      by blast
    note key = registered_key [OF assms(1) ob]
    show ?thesis
    proof (cases "q = pc")
      case eq: True
      have "found_as (reg_register (w\<lparr>heap := heap w @ [ob]\<rparr>) (PObj (length (heap w))))
          (entry_key pc) (pc_name pc)"
        using found_as_register(1) [of w ob] key(2) key(1) assms(3) eq by simp
      with Cons.IH [OF rest un] show ?thesis by blast
    next
      case False
      then have "entry_key pc \<noteq> to_lower (obj_name ob)"
        using Cons.prems(2) unfolding key(1) by (auto simp: unshadowed_def)
      from Cons.IH [OF rest un] found_as_register(2) [OF this] Cons.prems(3) False show ?thesis
        by auto
    qed
  next
    case False
    with assms(2) Cons un show ?thesis by auto
  qed
qed simp

lemma upper_lower_char [simp]: "upper_char (lower_char c) = upper_char c"
proof -
  have "upper_char (char_of (of_char c + (32 :: nat))) = c"
    if "65 \<le> (of_char c :: nat)" "of_char c \<le> (90 :: nat)"
    using that by (simp add: upper_char_def Let_def)
  then show ?thesis
    by (auto simp: lower_char_def upper_char_def [of c] Let_def)
qed

lemma to_upper_to_lower: "to_upper (to_lower s) = to_upper s"
  by simp

lemma direct_reserved: "to_lower s = ''direct'' \<Longrightarrow> reserved_name s"
proof -
  assume "to_lower s = ''direct''"
  then have "to_upper s = to_upper ''direct''"
    using to_upper_to_lower [of s] by metis
  also have "\<dots> = ''DIRECT''"
    by code_simp
  finally show ?thesis
    by (simp add: reserved_name_def)
qed

lemma unshadowed_distinct:
  assumes "distinct (map (\<lambda>pc. to_lower (pc_name pc)) (filter (\<lambda>pc. to_lower (pc_type pc) \<noteq> ''direct'') pcs))"
    and "pc \<in> set pcs" "to_lower (pc_type pc) \<noteq> ''direct''" "to_lower (pc_name pc) \<noteq> ''direct''"
  shows "unshadowed pc pcs"
proof -
  have inj: "inj_on (\<lambda>pc. to_lower (pc_name pc)) (set (filter (\<lambda>pc. to_lower (pc_type pc) \<noteq> ''direct'') pcs))"
    using assms(1) by (simp only: distinct_map)
  have "entry_key x \<noteq> entry_key pc" if x: "x \<in> set pcs" "x \<noteq> pc" for x
  proof (cases "to_lower (pc_type x) = ''direct''")
    case True
    then show ?thesis
      using assms(3,4) unfolding entry_key_def by argo
  next
    case False
    then have "to_lower (pc_name x) \<noteq> to_lower (pc_name pc)"
      using inj_onD [OF inj, of x pc] x assms(2,3) unfolding set_filter by blast
    then show ?thesis
      using False assms(3) unfolding entry_key_def by argo
  qed
  then show ?thesis
    unfolding unshadowed_def by blast
qed

text \<open>
  After a successful registration every entry is found under every spelling of its name:
  if the entries that are not of type direct have different names up to case, \<open>Get\<close> with a
  name that matches an entry's up to case returns an object with exactly that entry's name.
\<close>

theorem register_all_found:
  assumes "register_all cfgs = Inr w" and "pc \<in> set cfgs"
    and "to_lower (pc_type pc) \<noteq> ''direct''" and "\<not> reserved_name s"
    and "equal_fold s (pc_name pc)"
    and "distinct (map (\<lambda>pc. to_lower (pc_name pc)) (filter (\<lambda>pc. to_lower (pc_type pc) \<noteq> ''direct'') cfgs))"
  shows "\<exists>i < length (heap w). reg_get w s = Inr (PObj i) \<and> obj_name (heap w ! i) = pc_name pc"
proof -
  obtain w1 where pass1: "register_pass (\<lambda>_. new_proxy) False new_registry cfgs = Inr w1"
    and pass2: "register_pass new_group True w1 cfgs = Inr w"
    using assms(1) by (auto simp: register_all_def split: sum.splits)
  have key: "entry_key pc = to_lower s"
    using assms(3,5) by (simp add: entry_key_def equal_fold_def)
  have "to_lower (pc_name pc) \<noteq> ''direct''"
    using assms(4,5) direct_reserved [of s] unfolding equal_fold_def by argo
  with assms(2,3,6) have un: "unshadowed pc cfgs"
    by (intro unshadowed_distinct)
  have "found_as w (entry_key pc) (pc_name pc)"
  proof (cases "is_group (to_lower (pc_type pc))")
    case True
    then show ?thesis
      using register_pass_found [OF made_by_new_group _ assms(3) pass2 un] assms(2) by simp
  next
    case False
    then have "found_as w1 (entry_key pc) (pc_name pc)"
      using register_pass_found [OF made_by_new_proxy _ assms(3) pass1 un] assms(2) by simp
    then show ?thesis
      using register_pass_frame [OF made_by_new_group pass2] un False
      by (force simp: unshadowed_def)
  qed
  then have "found_as w (to_lower s) (pc_name pc)"
    by (simp only: key)
  then show ?thesis
    using assms(4) by (auto simp: found_as_def reg_get_def reserved_name_def)
qed


definition demo_entry :: "string \<Rightarrow> string \<Rightarrow> string list \<Rightarrow> config_proxy" where
  "demo_entry nm ty ms = \<lparr>pc_name = nm, pc_type = ty, pc_server = ''h'', pc_port = 1,
     pc_username = [], pc_password = [], pc_cipher = [], pc_sni = [], pc_alpn = [], pc_uuid = [],
     pc_alter_id = 0, pc_method = [], pc_proxies = ms, pc_url = [], pc_interval = 0,
     pc_default = [], pc_public_key = [], pc_short_id = [], pc_fingerprint = []\<rparr>"

definition demo_entries :: "config_proxy list" where
  "demo_entries = [demo_entry ''Hop'' ''HTTP'' [], demo_entry ''Auto'' ''chain'' [''hop'']]"

lemma demo_entries_registered:
  "case register_all demo_entries of Inl _ \<Rightarrow> False
   | Inr w \<Rightarrow> map obj_name (heap w) = [''Hop'', ''Auto''] \<and> names w ''auto'' = Some (PObj 1)"
  by code_simp

theorem register_all_found_witness:
  "\<exists>w. register_all demo_entries = Inr w \<and>
    (\<exists>i < length (heap w). reg_get w ''AUTO'' = Inr (PObj i) \<and> obj_name (heap w ! i) = ''Auto'')"
proof -
  obtain w where w: "register_all demo_entries = Inr w"
    using demo_entries_registered by (cases "register_all demo_entries") auto
  have "demo_entry ''Auto'' ''chain'' [''hop''] \<in> set demo_entries"
    by (simp add: demo_entries_def)
  moreover have "to_lower (pc_type (demo_entry ''Auto'' ''chain'' [''hop''])) \<noteq> ''direct''"
    "\<not> reserved_name ''AUTO''" "equal_fold ''AUTO'' (pc_name (demo_entry ''Auto'' ''chain'' [''hop'']))"
    "distinct (map (\<lambda>pc. to_lower (pc_name pc))
       (filter (\<lambda>pc. to_lower (pc_type pc) \<noteq> ''direct'') demo_entries))"
    by code_simp+
  ultimately have "\<exists>i < length (heap w). reg_get w ''AUTO'' = Inr (PObj i) \<and>
      obj_name (heap w ! i) = pc_name (demo_entry ''Auto'' ''chain'' [''hop''])"
    by (rule register_all_found [OF w])
  with w show ?thesis
    by (simp add: demo_entry_def)
qed

end
