(* ===== verification/Router.thy ===== *)
theory Router
  imports Proxy_Registry
begin

text \<open>
  Traffic routing (\<open>router/router.go\<close>): parsing of the raw rules, matching of a destination
  against a rule, \<open>Pick\<close>, the run-time mutations, and the allow list of the interception
  layer.

  Three things the machine decides are arguments: the regular-expression compiler
  (\<open>re\<close>: None is a pattern it rejects, otherwise the predicate on hosts), the resolver
  (\<open>lookup\<close>: None is an error), and the order in which \<open>Names\<close> happens to list the
  registry (\<open>order\<close>).
\<close>

section \<open>Rules\<close>

type_synonym regex = "string \<Rightarrow> (string \<Rightarrow> bool) option"
type_synonym resolver = "string \<Rightarrow> ip list option"

record rule =
  ru_type :: string
  ru_pattern :: string
  ru_target :: string
  ru_regex :: "(string \<Rightarrow> bool) option"

record router =
  r_mode :: string
  r_rules :: "rule list"

datatype router_err =
    BadRegex string
  | BadPortRange string

definition parse_port_range :: "string \<Rightarrow> (int \<times> int) option" where
  "parse_port_range s0 = (let s = trim_space s0 in
     case index_of s ''-'' of
       Some i \<Rightarrow> (case atoi (trim_space (take i s)) of
           None \<Rightarrow> None
         | Some a \<Rightarrow> (case atoi (trim_space (drop (i + 1) s)) of
             None \<Rightarrow> None
           | Some b \<Rightarrow> (let (lo, hi) = (if a > b then (b, a) else (a, b))
               in if lo < 0 \<or> lo > 65535 \<or> hi < 0 \<or> hi > 65535 then None else Some (lo, hi))))
     | None \<Rightarrow> (case atoi s of None \<Rightarrow> None | Some n \<Rightarrow> Some (n, n)))"

definition match_port_range :: "int \<Rightarrow> string \<Rightarrow> bool" where
  "match_port_range port pattern = (case parse_port_range pattern of
       None \<Rightarrow> False
     | Some (lo, hi) \<Rightarrow> (if port = 0 then True else lo \<le> port \<and> port \<le> hi))"

text \<open>The rule of a line that has at least three comma-separated fields.\<close>

definition mk_rule :: "string list \<Rightarrow> rule" where
  "mk_rule parts = \<lparr>
     ru_type = to_upper (trim_space (parts ! 0)),
     ru_pattern = trim_space (parts ! 1),
     ru_target = (if length parts < 3 then [] else trim_space (parts ! 2)),
     ru_regex = None\<rparr>"

fun parse_rules :: "regex \<Rightarrow> string list \<Rightarrow> router_err + rule list" where
  "parse_rules re [] = Inr []"
| "parse_rules re (raw # raws) =
     (let parts = split_n 3 CHR '','' raw in
      if length parts < 3 then parse_rules re raws
      else let ru = mk_rule parts; rx = re (ru_pattern ru) in
        if ru_type ru = ''REGEX'' \<and> rx = None then Inl (BadRegex (ru_pattern ru))
        else if ru_type ru = ''PORT-RANGE'' \<and> parse_port_range (ru_pattern ru) = None
        then Inl (BadPortRange (ru_pattern ru))
        else let ru' = (if ru_type ru = ''REGEX'' then ru\<lparr>ru_regex := rx\<rparr> else ru)
          in (case parse_rules re raws of Inl e \<Rightarrow> Inl e | Inr rs \<Rightarrow> Inr (ru' # rs)))"

definition new_router :: "regex \<Rightarrow> string \<Rightarrow> string list \<Rightarrow> router_err + router" where
  "new_router re mode raws = (case parse_rules re raws of
       Inl e \<Rightarrow> Inl e | Inr rs \<Rightarrow> Inr \<lparr>r_mode = mode, r_rules = rs\<rparr>)"

section \<open>Matching\<close>

definition in_cidr :: "string \<Rightarrow> string \<Rightarrow> bool" where
  "in_cidr host cidr = (case parse_ip host of
       None \<Rightarrow> False
     | Some a \<Rightarrow> (case parse_cidr cidr of None \<Rightarrow> False | Some n \<Rightarrow> net_contains n a))"

definition is_local_ip :: "ip \<Rightarrow> bool" where
  "is_local_ip a \<longleftrightarrow> is_loopback a \<or> is_private a \<or> is_link_local_unicast a"

definition geoip_match :: "resolver \<Rightarrow> string \<Rightarrow> bool" where
  "geoip_match lookup host = (case parse_ip host of
       Some a \<Rightarrow> is_local_ip a
     | None \<Rightarrow> (case lookup host of None \<Rightarrow> False | Some ips \<Rightarrow> list_ex is_local_ip ips))"

definition match_suffix :: "string \<Rightarrow> string \<Rightarrow> bool" where
  "match_suffix host pattern =
     (let suffix = (if has_prefix pattern ''.'' then pattern else CHR ''.'' # pattern)
      in has_suffix host suffix \<or> host = trim_prefix pattern ''.'')"

definition match_regex :: "string \<Rightarrow> rule \<Rightarrow> bool" where
  "match_regex host ru = (case ru_regex ru of None \<Rightarrow> False | Some f \<Rightarrow> f host)"

definition match_rule :: "resolver \<Rightarrow> string \<Rightarrow> int \<Rightarrow> rule \<Rightarrow> bool" where
  "match_rule lookup host port ru =
     (let t = ru_type ru; p = ru_pattern ru in
      if t = ''DOMAIN'' then host = p
      else if t = ''DOMAIN-SUFFIX'' then match_suffix host p
      else if t = ''DOMAIN-KEYWORD'' then contains host p
      else if t = ''REGEX'' then match_regex host ru
      else if t = ''IP-CIDR'' then in_cidr host p
      else if t = ''GEOIP'' then geoip_match lookup host
      else if t = ''PORT-RANGE'' then match_port_range port p
      else t = ''MATCH'')"

section \<open>Picking a proxy\<close>

definition parse_host_port :: "string \<Rightarrow> (string \<times> int) option" where
  "parse_host_port addr = (case split_host_port addr of
       None \<Rightarrow> None
     | Some (h, p) \<Rightarrow> (case atoi p of None \<Rightarrow> None | Some port \<Rightarrow> Some (h, port)))"

definition select_first :: "world \<Rightarrow> string list \<Rightarrow> perr + pref" where
  "select_first w order = (case order of [] \<Rightarrow> reg_get w ''DIRECT'' | nm # _ \<Rightarrow> reg_get w nm)"

definition pick :: "resolver \<Rightarrow> string list \<Rightarrow> world \<Rightarrow> router \<Rightarrow> string \<Rightarrow> perr + pref" where
  "pick lookup order w r addr =
     (if r_mode r = ''direct'' then reg_get w ''DIRECT''
      else if r_mode r = ''global'' then select_first w order
      else let (host, port) = (case parse_host_port addr of None \<Rightarrow> (addr, 0) | Some hp \<Rightarrow> hp)
        in (case find (match_rule lookup host port) (r_rules r) of
              Some ru \<Rightarrow> reg_get w (ru_target ru)
            | None \<Rightarrow> select_first w order))"

section \<open>Changes at run time\<close>

definition add_rule :: "regex \<Rightarrow> router \<Rightarrow> string \<Rightarrow> router" where
  "add_rule re r raw =
     (let parts = split_n 3 CHR '','' raw in
      if length parts < 3 then r
      else let ru = mk_rule parts; rx = re (ru_pattern ru) in
        if ru_type ru = ''REGEX'' then
          (if rx = None then r else r\<lparr>r_rules := ru\<lparr>ru_regex := rx\<rparr> # r_rules r\<rparr>)
        else r\<lparr>r_rules := ru # r_rules r\<rparr>)"

text \<open>\<open>AddProxy\<close>: True is success, False the error for a name that is already known.\<close>

definition add_proxy :: "world \<Rightarrow> pref \<Rightarrow> world \<times> bool" where
  "add_proxy w p = (case reg_get w (pref_name w p) of
       Inr q \<Rightarrow> (w, False) | Inl e \<Rightarrow> (reg_register w p, True))"

definition remove_proxy :: "world \<Rightarrow> string \<Rightarrow> world" where
  "remove_proxy w nm = reg_unregister w nm"

section \<open>The allow list\<close>

definition match_allow_rule :: "string \<Rightarrow> rule \<Rightarrow> bool" where
  "match_allow_rule host ru =
     (let t = ru_type ru; p = ru_pattern ru in
      if t = ''DOMAIN'' then host = p
      else if t = ''DOMAIN-SUFFIX'' then match_suffix host p
      else if t = ''DOMAIN-KEYWORD'' then contains host p
      else if t = ''REGEX'' then match_regex host ru
      else if t = ''IP-CIDR'' then in_cidr host p
      else t = ''MATCH'')"

fun match_allow :: "regex \<Rightarrow> string \<Rightarrow> string list \<Rightarrow> bool" where
  "match_allow re host [] = False"
| "match_allow re host (raw # raws) =
     (let parts = split_n 3 CHR '','' raw in
      if length parts < 2 then match_allow re host raws
      else let ru = (mk_rule parts)\<lparr>ru_target := []\<rparr>; rx = re (ru_pattern ru) in
        if ru_type ru = ''REGEX'' \<and> rx = None then match_allow re host raws
        else if match_allow_rule host (if ru_type ru = ''REGEX'' then ru\<lparr>ru_regex := rx\<rparr> else ru)
        then True else match_allow re host raws)"

section \<open>Lines and rules\<close>

text \<open>The rule that a line stands for; None is a line that contributes no rule.\<close>

definition rule_of :: "regex \<Rightarrow> string \<Rightarrow> rule option" where
  "rule_of re raw =
     (let parts = split_n 3 CHR '','' raw; ru = mk_rule parts; rx = re (ru_pattern ru) in
      if length parts < 3 then None
      else if ru_type ru = ''REGEX'' then (if rx = None then None else Some (ru\<lparr>ru_regex := rx\<rparr>))
      else Some ru)"

lemma parse_rules_map_filter:
  "parse_rules re raws = Inr rs \<Longrightarrow> rs = List.map_filter (rule_of re) raws"
proof (induction raws arbitrary: rs)
  case (Cons raw raws)
  then show ?case
    by (auto simp: Let_def rule_of_def List.map_filter_simps split: if_splits sum.splits)
qed (simp add: List.map_filter_simps)

lemma find_map_filter:
  "find P (List.map_filter f (pre @ x # post)) = Some y"
  if "f x = Some y" "P y" "\<forall>z \<in> set pre. \<forall>v. f z = Some v \<longrightarrow> \<not> P v"
  using that by (induction pre) (auto simp: List.map_filter_simps split: option.splits)

text \<open>
  C3: the first matching line decides. In rule mode, if a line of the configuration stands for
  a rule that matches the destination and no earlier line does, then \<open>Pick\<close> returns the
  proxy registered under that rule's target.
\<close>

theorem first_rule_wins:
  assumes "new_router re mode (pre @ raw # post) = Inr r" and "mode \<notin> {''direct'', ''global''}"
    and "parse_host_port addr = Some (host, port)"
    and "rule_of re raw = Some ru" and "match_rule lookup host port ru"
    and "\<forall>x \<in> set pre. \<forall>v. rule_of re x = Some v \<longrightarrow> \<not> match_rule lookup host port v"
  shows "pick lookup order w r addr = reg_get w (ru_target ru)"
proof -
  obtain rs where rs: "parse_rules re (pre @ raw # post) = Inr rs"
    and r: "r = \<lparr>r_mode = mode, r_rules = rs\<rparr>"
    using assms(1) by (auto simp: new_router_def split: sum.splits)
  have "find (match_rule lookup host port) rs = Some ru"
    unfolding parse_rules_map_filter [OF rs] using find_map_filter assms(4,5,6) by metis
  with r assms(2,3) show ?thesis
    by (simp add: pick_def)
qed

text \<open>
  A rule added at run time takes precedence over every rule the router has: once a line
  that stands for a matching rule has been added, \<open>Pick\<close> returns the proxy of its target.
\<close>

theorem add_rule_priority:
  assumes "r_mode r \<notin> {''direct'', ''global''}" and "parse_host_port addr = Some (host, port)"
    and "rule_of re raw = Some ru" and "match_rule lookup host port ru"
  shows "pick lookup order w (add_rule re r raw) addr = reg_get w (ru_target ru)"
proof -
  have "add_rule re r raw = r\<lparr>r_rules := ru # r_rules r\<rparr>"
    using assms(3) by (auto simp: rule_of_def add_rule_def Let_def split: if_splits)
  with assms show ?thesis
    by (simp add: pick_def)
qed

lemma index_byte_Some_drop:
  "index_byte s x = Some i \<Longrightarrow> count_list (drop (Suc i) s) x = count_list s x - 1 \<and> 0 < count_list s x"
proof (induction s arbitrary: i)
  case (Cons c s)
  show ?case
  proof (cases "c = x")
    case False
    with Cons.prems obtain j where "index_byte s x = Some j" "i = Suc j" by auto
    with Cons.IH [of j] False show ?thesis by simp
  qed (use Cons in auto)
qed simp

lemma length_split_n: "length (split_n (Suc n) x s) = min (Suc n) (Suc (count_list s x))"
proof (induction n arbitrary: s)
  case (Suc n)
  show ?case
  proof (cases "index_byte s x")
    case None
    then have "count_list s x = 0" by (simp add: index_byte_None_iff count_list_0_iff)
    with None show ?thesis by simp
  next
    case (Some i)
    with Suc [of "drop (Suc i) s"] index_byte_Some_drop [OF Some] show ?thesis by simp
  qed
qed simp

text \<open>
  A line with fewer than two commas is ignored silently, in a configuration and at run
  time: the router is the one built without it, and nothing is reported. The documented
  catch-all form \<open>MATCH,Auto\<close> is such a line.
\<close>

theorem short_rule_ignored:
  assumes "count_list raw CHR '','' < 2"
  shows "new_router re mode (pre @ raw # post) = new_router re mode (pre @ post) \<and> add_rule re r raw = r"
proof -
  have short: "length (split_n 3 CHR '','' raw) < 3"
    using assms length_split_n [of 2 "CHR '',''" raw] by (simp add: eval_nat_numeral)
  have "parse_rules re (pre @ raw # post) = parse_rules re (pre @ post)"
    using short by (induction pre) (simp_all add: Let_def)
  with short show ?thesis
    by (simp add: new_router_def add_rule_def Let_def)
qed

section \<open>Matching, by kind of rule\<close>

text \<open>
  A domain-suffix rule matches whole labels: written with or without the leading dot, it
  matches the domain itself and its subdomains, and nothing else. So \<open>example.com\<close> does not
  match \<open>notexample.com\<close>.
\<close>

theorem suffix_label_boundary:
  assumes "\<not> has_prefix domain ''.''"
  shows "match_suffix host domain = (host = domain \<or> (\<exists>sub. host = sub @ ''.'' @ domain)) \<and>
    match_suffix host (CHR ''.'' # domain) = match_suffix host domain"
  using assms by (auto simp: match_suffix_def has_suffix_iff trim_prefix_def has_prefix_def Let_def)


text \<open>
  An address rule is the comparison of the leading bits: for IPv4, the host written in
  dotted decimals matches the network \<open>b/n\<close> exactly when its first \<open>n\<close> bits are those of \<open>b\<close>.
\<close>

theorem cidr_rule_prefix:
  assumes "length a = 4" and "length b = 4" and "n \<le> 32"
  shows "in_cidr (ip_string a) (ip_string b @ ''/'' @ itoa n) \<longleftrightarrow>
    (\<forall>j < n. bit (a ! (j div 8)) (7 - j mod 8) = bit (b ! (j div 8)) (7 - j mod 8))"
  using assms by (simp only: in_cidr_def parse_ip_dotted ip_string_4 [OF assms(2)] parse_cidr_dotted
      option.case net_contains_4)

text \<open>Parsing of the two notations for ports.\<close>

lemma itoa_no_space: "c \<in> set (itoa n) \<Longrightarrow> \<not> is_space c \<and> c \<noteq> CHR ''-''"
  using itoa_digits [of n] by (auto simp: list_all_iff is_digit_def is_space_def)

lemma trim_space_none: "(\<And>c. c \<in> set s \<Longrightarrow> \<not> is_space c) \<Longrightarrow> trim_space s = s"
proof -
  assume none: "\<And>c. c \<in> set s \<Longrightarrow> \<not> is_space c"
  have "dropWhile is_space xs = xs" if "set xs \<subseteq> set s" for xs
    using that none by (cases xs) auto
  then show ?thesis by (simp add: trim_space_def trim_right_def)
qed

lemma trim_itoa [simp]: "trim_space (itoa n) = itoa n"
  using itoa_no_space by (intro trim_space_none) blast

text \<open>
  The port range written from \<open>lo\<close> to \<open>hi\<close>, in either order, matches the ports between
  them, bounds included, and the destination without a port; bounds beyond 65535 make the
  rule match nothing.
\<close>

theorem port_range_matches:
  assumes "int a < 2 ^ 63" and "int b < 2 ^ 63"
  shows "match_port_range port (itoa a @ ''-'' @ itoa b) \<longleftrightarrow>
    a \<le> 65535 \<and> b \<le> 65535 \<and> (port = 0 \<or> (int (min a b) \<le> port \<and> port \<le> int (max a b)))"
proof -
  let ?s = "itoa a @ ''-'' @ itoa b"
  have sp: "\<not> is_space CHR ''-''" by (simp add: is_space_def)
  have trim: "trim_space ?s = ?s"
    using itoa_no_space sp by (intro trim_space_none) auto
  have "CHR ''-'' \<notin> set (itoa a)"
    using itoa_no_space by blast
  then have idx: "index_of ?s ''-'' = Some (length (itoa a))"
    by (simp add: index_of_char)
  have "take (length (itoa a)) ?s = itoa a" "drop (length (itoa a) + 1) ?s = itoa b"
    by simp_all
  then have "parse_port_range ?s =
      (if 65535 < max a b then None else Some (int (min a b), int (max a b)))"
    unfolding parse_port_range_def Let_def trim idx option.case
    using atoi_itoa [OF assms(1)] atoi_itoa [OF assms(2)] by (simp add: max_def min_def)
  then show ?thesis
    by (auto simp: match_port_range_def)
qed

definition allow_rule_of :: "regex \<Rightarrow> string \<Rightarrow> rule option" where
  "allow_rule_of re raw =
     (let parts = split_n 3 CHR '','' raw; ru = (mk_rule parts)\<lparr>ru_target := []\<rparr>; rx = re (ru_pattern ru) in
      if length parts < 2 \<or> ru_type ru \<in> {''GEOIP'', ''PORT-RANGE''} then None
      else if ru_type ru = ''REGEX'' then (if rx = None then None else Some (ru\<lparr>ru_regex := rx\<rparr>))
      else Some ru)"

lemma match_allow_rule_eq:
  "ru_type ru \<notin> {''GEOIP'', ''PORT-RANGE''} \<Longrightarrow> match_allow_rule host ru = match_rule lookup host port ru"
  by (simp add: match_allow_rule_def match_rule_def Let_def)

lemma match_allow_rule_other:
  "ru_type ru \<in> {''GEOIP'', ''PORT-RANGE''} \<Longrightarrow> \<not> match_allow_rule host ru"
  by (auto simp: match_allow_rule_def Let_def)


lemma match_allow_step:
  "match_allow re host (raw # raws) \<longleftrightarrow>
     (\<exists>ru. allow_rule_of re raw = Some ru \<and> match_rule lookup host port ru) \<or> match_allow re host raws"
  using match_allow_rule_eq [of _ host lookup port] match_allow_rule_other [of _ host]
  by (auto simp: allow_rule_of_def Let_def)

text \<open>
  The allow list of the interception layer agrees with the router: \<open>MatchAllow\<close> answers
  yes exactly when some line with at least two fields stands for a rule that \<open>match\<close> would
  apply to the host, leaving out the two kinds that need more than a host, GEOIP and
  PORT-RANGE.
\<close>

theorem match_allow_iff:
  "match_allow re host raws \<longleftrightarrow>
     (\<exists>raw \<in> set raws. \<exists>ru. allow_rule_of re raw = Some ru \<and> match_rule lookup host port ru)"
proof (induction raws)
  case (Cons raw raws)
  then show ?case
    unfolding match_allow_step [of re host raw raws lookup port] by auto
qed simp

section \<open>Examples\<close>

definition rule_demo_re :: regex where
  "rule_demo_re p = Some (\<lambda>h. contains h p)"

lemma rule_demo_host_port: "parse_host_port ''www.example.com:443'' = Some (''www.example.com'', 443)"
  by code_simp

lemma rule_demo_rule_of:
  "rule_of rule_demo_re ''domain-suffix, example.com , Proxy'' =
     Some \<lparr>ru_type = ''DOMAIN-SUFFIX'', ru_pattern = ''example.com'', ru_target = ''Proxy'', ru_regex = None\<rparr>"
proof -
  have "split_n 3 CHR '','' ''domain-suffix, example.com , Proxy'' = [''domain-suffix'', '' example.com '', '' Proxy'']"
    "to_upper (trim_space ''domain-suffix'') = ''DOMAIN-SUFFIX''"
    "trim_space '' example.com '' = ''example.com''" "trim_space '' Proxy'' = ''Proxy''"
    by code_simp+
  then show ?thesis
    by (simp add: rule_of_def mk_rule_def)
qed

lemma rule_demo_matches:
  "match_rule lookup ''www.example.com'' port
     \<lparr>ru_type = ''DOMAIN-SUFFIX'', ru_pattern = ''example.com'', ru_target = ''Proxy'', ru_regex = None\<rparr>"
proof -
  have "match_suffix ''www.example.com'' ''example.com''"
    by code_simp
  then show ?thesis by (simp add: match_rule_def)
qed

theorem first_rule_wins_witness:
  "\<exists>r. new_router rule_demo_re ''rule'' ([''DOMAIN,example.com,DIRECT''] @
      ''domain-suffix, example.com , Proxy'' # [''GEOIP,CN,DIRECT'']) = Inr r \<and>
    pick (\<lambda>h. None) [] new_registry r ''www.example.com:443'' = reg_get new_registry ''Proxy''"
proof -
  have "case new_router rule_demo_re ''rule'' ([''DOMAIN,example.com,DIRECT''] @
      ''domain-suffix, example.com , Proxy'' # [''GEOIP,CN,DIRECT'']) of Inl _ \<Rightarrow> False | Inr _ \<Rightarrow> True"
    by code_simp
  then obtain r where r: "new_router rule_demo_re ''rule'' ([''DOMAIN,example.com,DIRECT''] @
      ''domain-suffix, example.com , Proxy'' # [''GEOIP,CN,DIRECT'']) = Inr r"
    by (auto split: sum.splits)
  have first: "rule_of rule_demo_re ''DOMAIN,example.com,DIRECT'' =
      Some \<lparr>ru_type = ''DOMAIN'', ru_pattern = ''example.com'', ru_target = ''DIRECT'', ru_regex = None\<rparr>"
  proof -
    have "split_n 3 CHR '','' ''DOMAIN,example.com,DIRECT'' = [''DOMAIN'', ''example.com'', ''DIRECT'']"
      "to_upper (trim_space ''DOMAIN'') = ''DOMAIN''"
      "trim_space ''example.com'' = ''example.com''" "trim_space ''DIRECT'' = ''DIRECT''"
      by code_simp+
    then show ?thesis
      by (simp add: rule_of_def mk_rule_def)
  qed
  have "\<forall>x \<in> set [''DOMAIN,example.com,DIRECT'']. \<forall>v. rule_of rule_demo_re x = Some v \<longrightarrow>
      \<not> match_rule (\<lambda>h. None) ''www.example.com'' 443 v"
    by (auto simp: first match_rule_def)
  from first_rule_wins [OF r _ rule_demo_host_port rule_demo_rule_of rule_demo_matches this] r show ?thesis
    by auto
qed

theorem add_rule_priority_witness:
  "pick (\<lambda>h. None) [] new_registry (add_rule rule_demo_re \<lparr>r_mode = ''rule'', r_rules = []\<rparr>
      ''domain-suffix, example.com , Proxy'') ''www.example.com:443'' = reg_get new_registry ''Proxy''"
  using add_rule_priority [OF _ rule_demo_host_port rule_demo_rule_of rule_demo_matches,
      of "\<lparr>r_mode = ''rule'', r_rules = []\<rparr>" "\<lambda>h. None" "[]" new_registry]
  by simp

theorem short_rule_ignored_witness:
  "count_list ''MATCH,Auto'' CHR '','' < 2 \<and>
   new_router rule_demo_re ''rule'' [''GEOIP,CN,DIRECT'', ''MATCH,Auto''] =
     new_router rule_demo_re ''rule'' [''GEOIP,CN,DIRECT'']"
  using short_rule_ignored [of "''MATCH,Auto''" rule_demo_re "''rule''" "[''GEOIP,CN,DIRECT'']" "[]"
      "\<lparr>r_mode = ''rule'', r_rules = []\<rparr>"]
  by simp

theorem suffix_label_boundary_witness:
  "\<not> has_prefix ''a.b'' ''.'' \<and> match_suffix ''x.a.b'' ''a.b'' \<and> \<not> match_suffix ''xa.b'' ''a.b''"
  using suffix_label_boundary [of "''a.b''" "''x.a.b''"] suffix_label_boundary [of "''a.b''" "''xa.b''"]
  by (auto simp: has_prefix_def append_eq_Cons_conv)

theorem cidr_rule_prefix_witness:
  "in_cidr (ip_string [10, 1, 2, 3]) (ip_string [10, 0, 0, 0] @ ''/'' @ itoa 8)"
  using cidr_rule_prefix [of "[10, 1, 2, 3]" "[10, 0, 0, 0]" 8]
  by (auto dest!: less_8_cases)

theorem port_range_matches_witness:
  "match_port_range 100 (itoa 443 @ ''-'' @ itoa 80) \<and> \<not> match_port_range 100 (itoa 80 @ ''-'' @ itoa 70000)"
  using port_range_matches [of 443 80 100] port_range_matches [of 80 70000 100] by simp

end
