(* ===== verification/Go_Io.thy ===== *)
theory Go_Io
  imports Go_Net
begin

text \<open>
  Reading from a connection. What a peer sends is the list of its bytes; the end of the list
  is the end of the stream (or the deadline), where a read fails. \<open>io.ReadFull\<close> on a list of
  bytes and the line reader of \<open>bufio\<close> on a string are what the sources use.
\<close>

abbreviation CR :: char where "CR \<equiv> CHR 0x0D"
abbreviation LF :: char where "LF \<equiv> CHR 0x0A"

definition crlf :: string where
  "crlf = [CR, LF]"

text \<open>\<open>io.ReadFull(conn, make([]byte, n))\<close>: exactly \<open>n\<close> bytes and the rest of the stream.\<close>

definition read_full :: "nat \<Rightarrow> 'a list \<Rightarrow> ('a list \<times> 'a list) option" where
  "read_full n s = (if n \<le> length s then Some (take n s, drop n s) else None)"

text \<open>\<open>ReadString\<close> and \<open>ReadBytes\<close> with a newline: the line with its newline and the rest;
  at the end of the stream None, the unfinished line being the stream itself.\<close>

definition read_line :: "string \<Rightarrow> (string \<times> string) option" where
  "read_line s = (case index_byte s LF of
       None \<Rightarrow> None | Some i \<Rightarrow> Some (take (Suc i) s, drop (Suc i) s))"

lemma read_full_append [simp]: "length xs = n \<Longrightarrow> read_full n (xs @ ys) = Some (xs, ys)"
  by (simp add: read_full_def)

lemma read_full_all [simp]: "length xs = n \<Longrightarrow> read_full n xs = Some (xs, [])"
  by (simp add: read_full_def)

lemma read_full_SomeD: "read_full n s = Some (xs, ys) \<Longrightarrow> s = xs @ ys \<and> length xs = n"
  by (auto simp: read_full_def split: if_splits)

lemma read_line_append: "LF \<notin> set l \<Longrightarrow> read_line (l @ LF # s) = Some (l @ [LF], s)"
  by (simp add: read_line_def index_byte_append)

lemma read_line_SomeD:
  assumes "read_line s = Some (l, r)"
  shows "s = l @ r" "l \<noteq> []"
  using assms by (auto simp: read_line_def split: option.splits dest: index_byte_Some_less)

lemma read_line_shorter: "read_line s = Some (l, r) \<Longrightarrow> length r < length s"
  using read_line_SomeD by fastforce

lemma read_line_None_iff: "read_line s = None \<longleftrightarrow> LF \<notin> set s"
  using index_byte_None_iff [of s LF] by (auto simp: read_line_def split: option.splits)

text \<open>\<open>strings.TrimRight(line, "\r\n")\<close>\<close>

definition trim_eol :: "string \<Rightarrow> string" where
  "trim_eol l = trim_right (\<lambda>c. c = CR \<or> c = LF) l"

lemma trim_right_id: "l = [] \<or> \<not> P (last l) \<Longrightarrow> trim_right P l = l"
  by (cases l rule: rev_cases) (auto simp: trim_right_def)

lemma trim_right_append: "list_all P e \<Longrightarrow> trim_right P (l @ e) = trim_right P l"
proof (induction e rule: rev_induct)
  case (snoc x e)
  then show ?case by (simp add: trim_right_def)
qed simp

lemma trim_eol_crlf: "LF \<notin> set l \<Longrightarrow> CR \<notin> set l \<Longrightarrow> trim_eol (l @ crlf) = l"
proof -
  assume "LF \<notin> set l" "CR \<notin> set l"
  then have "l = [] \<or> \<not> (last l = CR \<or> last l = LF)"
    using last_in_set by fastforce
  then have "trim_right (\<lambda>c. c = CR \<or> c = LF) l = l"
    by (intro trim_right_id) simp
  then show ?thesis
    by (simp add: trim_eol_def crlf_def trim_right_append)
qed

lemma set_trim_right: "set (trim_right P s) \<subseteq> set s"
  using set_dropWhileD [of _ P "rev s"] by (auto simp: trim_right_def)

lemma set_trim_space: "set (trim_space s) \<subseteq> set s"
  using set_trim_right [of is_space] set_dropWhileD [of _ is_space s]
  unfolding trim_space_def by blast

lemma contains_char: "contains s [x] \<longleftrightarrow> x \<in> set s"
  by (simp add: contains_iff in_set_conv_decomp)

end
