(* ===== verification/Mitm.thy ===== *)
theory Mitm
  imports Router Go_Io
begin

text \<open>
  HTTPS interception (\<open>listener/mitm.go\<close>): which connections are opened up, the rules that
  answer a request in place of the server, the responses they write, the rewriting of the
  relayed bytes, the audit log, and \<open>InterceptConnect\<close>.

  TLS and the certificate authority are not part of the sources: an \<open>mitm_env\<close> says which
  handshakes succeed and what plaintext the client sends.
\<close>

section \<open>The handler\<close>

record url_action =
  ua_match :: string
  ua_regex :: bool
  ua_action :: string
  ua_status :: int
  ua_body :: string
  ua_location :: string
  ua_headers :: "string list"

record url_result =
  ur_action :: string
  ur_status :: int
  ur_body :: string
  ur_location :: string
  ur_headers :: "string list"
  ur_match :: string

record rewrite_rule =
  rw_match :: string
  rw_replace :: string

record mitm_handler =
  mh_allow :: "string list"
  mh_egress :: "pref option"
  mh_verify :: bool
  mh_skip :: "string list"
  mh_rewrite :: "rewrite_rule list"
  mh_logging :: bool
  mh_actions :: "url_action list"
  mh_client_cert :: bool

text \<open>The host of a target with or without a port; handlers may be nil.\<close>

definition target_host :: "string \<Rightarrow> string" where
  "target_host target = (case split_host_port target of
       None \<Rightarrow> target | Some (h, p) \<Rightarrow> if h = [] then target else h)"

definition should_intercept :: "regex \<Rightarrow> mitm_handler option \<Rightarrow> string \<Rightarrow> bool" where
  "should_intercept re ho target = (case ho of None \<Rightarrow> False | Some h \<Rightarrow>
     if mh_allow h = [] then False
     else let host = target_host target
          in match_allow re host (mh_allow h) \<and> \<not> match_allow re host (mh_skip h))"

definition should_intercept_ip :: "regex \<Rightarrow> mitm_handler option \<Rightarrow> string \<Rightarrow> bool" where
  "should_intercept_ip re ho a = (case ho of None \<Rightarrow> False | Some h \<Rightarrow>
     if mh_allow h = [] then False
     else match_allow re a (mh_allow h) \<and> \<not> match_allow re a (mh_skip h))"

definition skip_host :: "regex \<Rightarrow> mitm_handler option \<Rightarrow> string \<Rightarrow> bool" where
  "skip_host re ho target = (case ho of None \<Rightarrow> False | Some h \<Rightarrow>
     if mh_skip h = [] then False else match_allow re (target_host target) (mh_skip h))"

section \<open>Rules that answer a request\<close>

definition no_result :: url_result where
  "no_result = \<lparr>ur_action = [], ur_status = 0, ur_body = [], ur_location = [],
     ur_headers = [], ur_match = []\<rparr>"

definition rule_hits :: "regex \<Rightarrow> url_action \<Rightarrow> string \<Rightarrow> string \<Rightarrow> bool" where
  "rule_hits re a line path \<longleftrightarrow> ua_match a \<noteq> [] \<and>
     (if ua_regex a then (case re (ua_match a) of None \<Rightarrow> False | Some f \<Rightarrow> f line)
      else path \<noteq> [] \<and> contains path (ua_match a))"

definition rule_action :: "url_action \<Rightarrow> string" where
  "rule_action a = (let x = to_lower (trim_space (ua_action a)) in if x = [] then ''block'' else x)"

definition status_or :: "url_action \<Rightarrow> int \<Rightarrow> int" where
  "status_or a d = (if ua_status a = 0 then d else ua_status a)"

text \<open>The answer of a rule that hits; None is the redirect without a target, which is skipped.\<close>

definition rule_result :: "url_action \<Rightarrow> url_result option" where
  "rule_result a = (let x = rule_action a in
     if x = ''redirect'' then
       (if ua_location a = [] then None
        else Some (no_result\<lparr>ur_action := ''redirect'', ur_status := status_or a 302,
          ur_location := ua_location a, ur_match := ua_match a\<rparr>))
     else if x = ''inject'' then
       Some (no_result\<lparr>ur_action := ''inject'', ur_status := status_or a 200, ur_body := ua_body a,
         ur_headers := ua_headers a, ur_match := ua_match a\<rparr>)
     else if x = ''block'' then
       Some (no_result\<lparr>ur_action := ''block'', ur_status := status_or a 403, ur_body := ua_body a,
         ur_match := ua_match a\<rparr>)
     else Some (no_result\<lparr>ur_action := ''block'', ur_status := 501,
         ur_body := ''unsupported action'', ur_match := ua_match a\<rparr>))"

fun match_url_actions :: "regex \<Rightarrow> url_action list \<Rightarrow> string \<Rightarrow> string \<Rightarrow> url_result" where
  "match_url_actions re [] line path = no_result"
| "match_url_actions re (a # as) line path =
     (if \<not> rule_hits re a line path then match_url_actions re as line path
      else case rule_result a of
        None \<Rightarrow> match_url_actions re as line path
      | Some r \<Rightarrow> r)"

section \<open>The response of a rule\<close>

definition http_status_text :: "int \<Rightarrow> string" where
  "http_status_text code = (case map_of
     [(200, ''OK''), (201, ''Created''), (204, ''No Content''), (301, ''Moved Permanently''),
      (302, ''Found''), (303, ''See Other''), (304, ''Not Modified''),
      (307, ''Temporary Redirect''), (308, ''Permanent Redirect''), (400, ''Bad Request''),
      (401, ''Unauthorized''), (403, ''Forbidden''), (404, ''Not Found''),
      (405, ''Method Not Allowed''), (408, ''Request Timeout''), (429, ''Too Many Requests''),
      (500, ''Internal Server Error''), (501, ''Not Implemented''), (502, ''Bad Gateway''),
      (503, ''Service Unavailable''), (504, ''Gateway Timeout'')] code of
     Some t \<Rightarrow> t | None \<Rightarrow> [])"

definition redirect_reason :: "int \<Rightarrow> string" where
  "redirect_reason st =
     (if st = 301 then ''Moved Permanently'' else if st = 303 then ''See Other''
      else if st = 307 then ''Temporary Redirect'' else if st = 308 then ''Permanent Redirect''
      else ''Found'')"

definition url_reason :: "url_result \<Rightarrow> string" where
  "url_reason r = (if ur_action r = ''redirect'' then redirect_reason (ur_status r)
                   else http_status_text (ur_status r))"

definition url_body :: "url_result \<Rightarrow> string" where
  "url_body r = (if ur_action r = ''redirect''
     then ''<!doctype html><meta http-equiv='refresh' content='0;url='' @ ur_location r @
          '''><a href='' @ CHR 0x27 # ur_location r @ CHR 0x27 # ''>Moved</a>''
     else ur_body r)"

definition injected_headers :: "string list \<Rightarrow> string list" where
  "injected_headers hs =
     filter (\<lambda>h. h \<noteq> [] \<and> \<not> contains h [LF] \<and> \<not> contains h [CR]) (map trim_space hs)"

definition status_line :: "url_result \<Rightarrow> string" where
  "status_line r = ''HTTP/1.1 '' @ itoa_int (ur_status r) @ '' '' @ url_reason r"

text \<open>The header lines of the response, without their line ends.\<close>

definition url_headers :: "url_result \<Rightarrow> string list" where
  "url_headers r =
     (if ur_action r = ''inject''
      then injected_headers (ur_headers r) @
        [''Content-Length: '' @ itoa (length (url_body r)), ''Connection: close'']
      else [''Content-Type: text/html; charset=utf-8'',
            ''Content-Length: '' @ itoa (length (url_body r)), ''Connection: close''] @
        (if ur_action r = ''redirect'' then [''Location: '' @ ur_location r] else []))"

definition url_head :: "url_result \<Rightarrow> string" where
  "url_head r = concat (map (\<lambda>l. l @ crlf) (status_line r # url_headers r)) @ crlf"

text \<open>\<open>WriteURLResponse\<close>: the writes to the connection, in order.\<close>

definition write_url_response :: "url_result \<Rightarrow> string list" where
  "write_url_response r =
     (if ur_action r = [] then []
      else url_head r # (if url_body r = [] then [] else [url_body r]))"

section \<open>Reading a request, rewriting, detection\<close>

function read_first_request :: "string \<Rightarrow> (string \<times> string) option" where
  "read_first_request s = (case read_line s of
       None \<Rightarrow> None
     | Some (l, rest) \<Rightarrow>
         (if l = crlf then Some (l, rest)
          else case read_first_request rest of
            None \<Rightarrow> None | Some (out, rest') \<Rightarrow> Some (l @ out, rest')))"
  by pat_completeness auto
termination
  by (relation "measure length") (auto dest: read_line_shorter)

declare read_first_request.simps [simp del]

fun rewrite_all :: "string \<Rightarrow> rewrite_rule list \<Rightarrow> string" where
  "rewrite_all s [] = s"
| "rewrite_all s (r # rs) =
     rewrite_all (if rw_match r = [] then s else replace_all (rw_match r) (rw_replace r) s) rs"

text \<open>\<open>applyRules\<close>: the copy that is avoided when nothing changes has the same bytes.\<close>

definition apply_rules :: "string \<Rightarrow> rewrite_rule list \<Rightarrow> string" where
  "apply_rules data rules = (if rules = [] then data else rewrite_all data rules)"

text \<open>What a reader with a buffer of \<open>n\<close> bytes gets for a chunk of the connection (the
  buffers of \<open>io.Copy\<close> have their length as capacity), and what a write sends on.\<close>

definition rewrite_read :: "rewrite_rule list \<Rightarrow> nat \<Rightarrow> string \<Rightarrow> string" where
  "rewrite_read rules n chunk = take n (if chunk = [] then [] else apply_rules chunk rules)"

definition rewrite_write :: "rewrite_rule list \<Rightarrow> string \<Rightarrow> string" where
  "rewrite_write rules b = apply_rules b rules"

definition is_ws_upgrade :: "string \<Rightarrow> bool" where
  "is_ws_upgrade line0 = (let line = trim_space line0 in case index_byte line CHR '':'' of
       None \<Rightarrow> False
     | Some i \<Rightarrow> 0 < i \<and> trim_space (take i line) = ''UPGRADE'' \<and>
         contains (trim_space (drop (i + 1) line)) ''WEBSOCKET'')"

function detect_lines :: "string \<Rightarrow> string" where
  "detect_lines s = (let (line, tail, more) = cut s crlf in
     if is_ws_upgrade line then ''ws''
     else if more then detect_lines tail else ''http'')"
  by pat_completeness auto
termination
proof (relation "measure length")
  fix s :: string and x y line tail more
  assume x: "x = cut s crlf" "(line, y) = x" "(tail, more) = y" and "\<not> is_ws_upgrade line" "more"
  then obtain i where i: "index_of s crlf = Some i" and t: "tail = drop (i + length crlf) s"
    by (auto simp: cut_def split: option.splits)
  from index_of_Some [OF i] have "s \<noteq> []"
    by (auto simp: crlf_def)
  with t show "(tail, s) \<in> measure length"
    by (simp add: crlf_def)
qed simp

declare detect_lines.simps [simp del]

definition detect_protocol :: "string \<Rightarrow> string" where
  "detect_protocol req = (if req = [] then ''http'' else detect_lines (to_upper req))"

section \<open>The audit log\<close>

record log_entry =
  le_time :: string
  le_method :: string
  le_path :: string
  le_proto :: string
  le_status :: string
  le_dir :: string
  le_protocol :: string

definition blank_entry :: "string \<Rightarrow> string \<Rightarrow> log_entry" where
  "blank_entry now dir = \<lparr>le_time = now, le_method = [], le_path = [], le_proto = [],
     le_status = [], le_dir = dir, le_protocol = []\<rparr>"

text \<open>\<open>logHTTPRequest\<close>; the JSON line that is written is the encoding of the entry.\<close>

definition log_http_request :: "mitm_handler \<Rightarrow> string \<Rightarrow> string \<Rightarrow> log_entry option" where
  "log_http_request h now req =
     (if \<not> mh_logging h \<or> req = [] then None
      else case index_of req crlf of None \<Rightarrow> None
      | Some i \<Rightarrow> (let parts = str_fields (take i req) in
          if length parts < 2 then None
          else Some ((blank_entry now ''client'')\<lparr>le_method := parts ! 0, le_path := parts ! 1,
            le_proto := (if 3 \<le> length parts then parts ! 2 else []),
            le_protocol := detect_protocol req\<rparr>)))"

record logging_conn =
  lc_dir :: string
  lc_requested :: bool
  lc_logged :: bool

definition log_first_line ::
  "logging_conn \<Rightarrow> string \<Rightarrow> string \<Rightarrow> bool \<Rightarrow> logging_conn \<times> log_entry option" where
  "log_first_line c now data request =
     (case index_of data crlf of
       None \<Rightarrow> (c, None)
     | Some i \<Rightarrow> (let parts = str_fields (take i data); e = blank_entry now (lc_dir c) in
         if request then
           (c\<lparr>lc_requested := True\<rparr>,
            Some (if length parts < 2 then e
                  else e\<lparr>le_method := parts ! 0, le_path := parts ! 1,
                    le_proto := (if 3 \<le> length parts then parts ! 2 else [])\<rparr>))
         else
           (c\<lparr>lc_logged := True\<rparr>,
            Some (if length parts < 2 then e
                  else e\<lparr>le_proto := parts ! 0, le_status := parts ! 1\<rparr>))))"

definition logging_read ::
  "logging_conn \<Rightarrow> string \<Rightarrow> string \<Rightarrow> logging_conn \<times> log_entry option" where
  "logging_read c now chunk =
     (if chunk \<noteq> [] \<and> lc_dir c = ''upstream'' \<and> \<not> lc_logged c
      then log_first_line c now chunk False else (c, None))"

definition logging_write ::
  "logging_conn \<Rightarrow> string \<Rightarrow> string \<Rightarrow> logging_conn \<times> log_entry option" where
  "logging_write c now b =
     (if lc_dir c = ''client'' \<and> \<not> lc_requested c then log_first_line c now b True else (c, None))"

section \<open>Opening a connection up\<close>

record mitm_env =
  me_cert :: "string \<Rightarrow> bool"
  me_dial :: "pref option \<Rightarrow> string \<Rightarrow> bool"
  me_up_tls :: "string \<Rightarrow> string \<Rightarrow> bool"
  me_client :: "string \<Rightarrow> string option"

datatype mitm_err = SignErr | DialErr | UpTlsErr | ClientTlsErr | ReadErr

text \<open>
  The effects in their order. A dial names the proxy (None is a direct dial) and says whether
  it succeeded; the handshake with the server has its name, whether certificates go
  unchecked and whether a client certificate is presented.
\<close>

datatype mitm_event =
    UpDial "pref option" string bool
  | UpTls string bool bool
  | UpClose
  | ClientTls string
  | Audit log_entry
  | ClientAnswer "string list"
  | ClientClose

datatype mitm_result =
    Refused mitm_err
  | Answered url_result
  | Opened string string

definition egress_of :: "world \<Rightarrow> mitm_handler \<Rightarrow> pref option" where
  "egress_of w h = (case mh_egress h of None \<Rightarrow> None
     | Some p \<Rightarrow> if pref_name w p = ''DIRECT'' then None else Some p)"

definition request_answer :: "regex \<Rightarrow> mitm_handler \<Rightarrow> string \<Rightarrow> url_result" where
  "request_answer re h req =
     (if mh_actions h = [] then no_result
      else let line = (case index_byte req LF of None \<Rightarrow> req
                       | Some i \<Rightarrow> if 0 < i then take i req else req);
               parts = str_fields line
           in match_url_actions re (mh_actions h) line (if 2 \<le> length parts then parts ! 1 else []))"

definition intercept_connect ::
  "regex \<Rightarrow> mitm_env \<Rightarrow> world \<Rightarrow> mitm_handler \<Rightarrow> string \<Rightarrow> string \<Rightarrow> mitm_event list \<times> mitm_result"
where
  "intercept_connect re env w h now target =
     (let host = (case split_host_port target of None \<Rightarrow> target | Some (x, p) \<Rightarrow> x);
          via = egress_of w h;
          e1 = [UpDial via target True, UpTls host (\<not> mh_verify h) (mh_client_cert h)];
          e2 = e1 @ [ClientTls host]
      in if \<not> me_cert env host then ([], Refused SignErr)
         else if \<not> me_dial env via target then ([UpDial via target False], Refused DialErr)
         else if \<not> me_up_tls env target host then (e1 @ [UpClose], Refused UpTlsErr)
         else case me_client env host of
           None \<Rightarrow> (e2 @ [UpClose], Refused ClientTlsErr)
         | Some plain \<Rightarrow> (case read_first_request plain of
             None \<Rightarrow> (e2 @ [UpClose], Refused ReadErr)
           | Some (req, rest) \<Rightarrow>
               (let e3 = e2 @ (case log_http_request h now req of None \<Rightarrow> [] | Some e \<Rightarrow> [Audit e]);
                    r = request_answer re h req
                in if ur_action r \<noteq> []
                   then (e3 @ [ClientAnswer (write_url_response r), ClientClose, UpClose], Answered r)
                   else (e3, Opened req rest))))"

text \<open>The relayed streams of an opened connection: the client side is rewritten in both
  directions when there are rules.\<close>

definition client_read :: "mitm_handler \<Rightarrow> nat \<Rightarrow> string \<Rightarrow> string" where
  "client_read h n chunk =
     (if mh_rewrite h = [] then take n chunk else rewrite_read (mh_rewrite h) n chunk)"

definition client_write :: "mitm_handler \<Rightarrow> string \<Rightarrow> string" where
  "client_write h b = (if mh_rewrite h = [] then b else rewrite_write (mh_rewrite h) b)"

section \<open>Properties\<close>

text \<open>Whether the upstream connection is open after a trace.\<close>

definition up_open :: "mitm_event list \<Rightarrow> bool" where
  "up_open evs = fold (\<lambda>e b. case e of UpDial v t ok \<Rightarrow> ok | UpClose \<Rightarrow> False | _ \<Rightarrow> b) evs False"

lemmas intercept_splits = option.splits prod.splits if_splits

text \<open>
  C17: \<open>InterceptConnect\<close> leaves the connection to the server open exactly when it hands it to
  its caller. When a rule answers the request, the server has been dialled all the same, before
  the rules were looked at.
\<close>

theorem intercept_upstream:
  assumes "intercept_connect re env w h now target = (evs, res)"
  shows "(up_open evs \<longleftrightarrow> (\<exists>req rest. res = Opened req rest)) \<and>
    (\<forall>r. res = Answered r \<longrightarrow> (\<exists>via. UpDial via target True \<in> set evs) \<and> ur_action r \<noteq> [])"
  using assms by (auto simp: intercept_connect_def Let_def up_open_def split: intercept_splits)

lemma match_url_actions_skip:
  "\<forall>a \<in> set pre. rule_hits re a line path \<longrightarrow> rule_result a = None \<Longrightarrow>
   match_url_actions re (pre @ as) line path = match_url_actions re as line path"
  by (induction pre) auto

text \<open>
  The first rule that matches the request and has an answer decides what the client gets;
  rules without a pattern, with a pattern that does not compile, and redirects without a target
  are passed over.
\<close>

theorem first_url_action_wins:
  assumes "rule_hits re a line path" and "rule_result a = Some r"
    and "\<forall>x \<in> set pre. rule_hits re x line path \<longrightarrow> rule_result x = None"
  shows "match_url_actions re (pre @ a # post) line path = r \<and> ur_action r \<noteq> []"
proof -
  have "match_url_actions re (pre @ a # post) line path = r"
    using match_url_actions_skip [OF assms(3)] assms(1,2) by simp
  moreover have "ur_action r \<noteq> []"
    using assms(2) by (auto simp: rule_result_def Let_def split: if_splits)
  ultimately show ?thesis ..
qed

text \<open>A block of lines that ends with an empty one is read back as it is, and no further.\<close>

lemma read_first_request_lines:
  "\<forall>l \<in> set ls. l \<noteq> [] \<and> LF \<notin> set l \<Longrightarrow>
   read_first_request (concat (map (\<lambda>l. l @ crlf) ls) @ crlf @ body) =
     Some (concat (map (\<lambda>l. l @ crlf) ls) @ crlf, body)"
proof (induction ls)
  case Nil
  have "read_line ([CR] @ LF # body) = Some ([CR] @ [LF], body)"
    by (rule read_line_append) simp
  then show ?case by (subst read_first_request.simps) (simp add: crlf_def)
next
  case (Cons l ls)
  let ?rest = "concat (map (\<lambda>l. l @ crlf) ls) @ crlf @ body"
  have "read_line ((l @ [CR]) @ LF # ?rest) = Some ((l @ [CR]) @ [LF], ?rest)"
    using Cons.prems by (intro read_line_append) simp
  then have "read_line (l @ crlf @ ?rest) = Some (l @ crlf, ?rest)"
    by (simp add: crlf_def)
  moreover have "l @ crlf \<noteq> crlf"
    using Cons.prems by simp
  ultimately show ?case
    using Cons by (subst read_first_request.simps) simp
qed

lemma digits_no_eol: "list_all is_digit s \<Longrightarrow> LF \<notin> set s"
  by (auto simp: list_all_iff is_digit_def)

lemma itoa_int_no_eol: "LF \<notin> set (itoa_int i)"
  using digits_no_eol [OF itoa_digits] by (simp add: itoa_int_def)

lemma url_reason_no_eol: "LF \<notin> set (url_reason r)"
  by (simp add: url_reason_def redirect_reason_def http_status_text_def)

lemma injected_header_ok: "l \<in> set (injected_headers hs) \<Longrightarrow> l \<noteq> [] \<and> LF \<notin> set l"
  by (auto simp: injected_headers_def contains_char)

lemma url_line_ok:
  assumes "ur_action r = ''redirect'' \<Longrightarrow> LF \<notin> set (ur_location r)"
    and "l \<in> set (status_line r # url_headers r)"
  shows "l \<noteq> [] \<and> LF \<notin> set l"
  using assms digits_no_eol [OF itoa_digits] itoa_int_no_eol url_reason_no_eol
  by (auto simp: status_line_def url_headers_def dest: injected_header_ok split: if_splits)

text \<open>
  The response of a rule is one well-formed HTTP message. Read back by the reader that
  the program applies to requests, its head ends where \<open>WriteURLResponse\<close> ends it, whatever
  the configured headers contain, and the rest is the body, whose length is the announced one;
  only the target of a redirect has to be free of line feeds.
\<close>

theorem url_response_framed:
  assumes "ur_action r \<noteq> []"
    and "ur_action r = ''redirect'' \<Longrightarrow> LF \<notin> set (ur_location r)"
  shows "read_first_request (concat (write_url_response r)) = Some (url_head r, url_body r) \<and>
    ''Content-Length: '' @ itoa (length (url_body r)) \<in> set (url_headers r) \<and>
    ''Connection: close'' \<in> set (url_headers r)"
proof -
  have "\<forall>l \<in> set (status_line r # url_headers r). l \<noteq> [] \<and> LF \<notin> set l"
    using url_line_ok assms(2) by blast
  from read_first_request_lines [OF this, of "url_body r"]
  have "read_first_request (concat (write_url_response r)) = Some (url_head r, url_body r)"
    using assms(1) by (cases "url_body r = []") (simp_all add: write_url_response_def url_head_def)
  then show ?thesis
    by (simp add: url_headers_def)
qed

text \<open>
  A redirect whose target contains a line break adds header lines of its own: the line that
  \<open>WriteURLResponse\<close> checks for in the injected headers is not checked here.
\<close>

lemma redirect_splits_headers:
  "\<exists>r. ur_action r = ''redirect'' \<and>
     (\<exists>s. read_first_request (concat (write_url_response r)) = Some (s, ''stolen'' @ crlf @ crlf @ url_body r))"
proof -
  let ?r = "no_result\<lparr>ur_action := ''redirect'', ur_status := 302, ur_location := ''/'' @ crlf @ crlf @ ''stolen''\<rparr>"
  let ?ls = "[status_line ?r, ''Content-Type: text/html; charset=utf-8'',
    ''Content-Length: '' @ itoa (length (url_body ?r)), ''Connection: close'', ''Location: /'']"
  have ok: "\<forall>l \<in> set ?ls. l \<noteq> [] \<and> LF \<notin> set l"
    using digits_no_eol [OF itoa_digits] itoa_int_no_eol url_reason_no_eol by (simp add: status_line_def)
  have body: "url_body ?r \<noteq> []"
    by (simp add: url_body_def)
  have "concat (write_url_response ?r) =
      concat (map (\<lambda>l. l @ crlf) ?ls) @ crlf @ (''stolen'' @ crlf @ crlf @ url_body ?r)"
    using body by (simp add: write_url_response_def url_head_def url_headers_def)
  then have "read_first_request (concat (write_url_response ?r)) =
      Some (concat (map (\<lambda>l. l @ crlf) ?ls) @ crlf, ''stolen'' @ crlf @ crlf @ url_body ?r)"
    by (simp only: read_first_request_lines [OF ok])
  moreover have "ur_action ?r = ''redirect''"
    by simp
  ultimately show ?thesis by blast
qed

section \<open>Rewriting\<close>

text \<open>A chunk that grows beyond the buffer of its reader loses its end, without an error.\<close>

lemma rewrite_read_loses:
  assumes "chunk \<noteq> []" "n < length (apply_rules chunk rules)"
  shows "rewrite_read rules n chunk = take n (apply_rules chunk rules)"
    and "rewrite_read rules n chunk \<noteq> apply_rules chunk rules"
proof -
  show eq: "rewrite_read rules n chunk = take n (apply_rules chunk rules)"
    using assms(1) by (simp add: rewrite_read_def)
  have "length (take n (apply_rules chunk rules)) \<noteq> length (apply_rules chunk rules)"
    using assms(2) by simp
  then show "rewrite_read rules n chunk \<noteq> apply_rules chunk rules"
    unfolding eq by metis
qed

lemma rewrite_demo:
  "apply_rules ''GET /old'' [\<lparr>rw_match = ''old'', rw_replace = ''newer''\<rparr>] = ''GET /newer''"
  by (simp add: apply_rules_def replace_all.simps has_prefix_def)

lemma detect_websocket_demo:
  "detect_protocol (''GET / HTTP/1.1'' @ crlf @ ''upgrade: WebSocket'' @ crlf @ crlf) = ''ws''"
  by code_simp

section \<open>Witnesses\<close>

definition mitm_demo_re :: regex where
  "mitm_demo_re p = None"

definition mitm_demo_rule :: url_action where
  "mitm_demo_rule = \<lparr>ua_match = ''/ads'', ua_regex = False, ua_action = ''Block'', ua_status = 0,
     ua_body = ''no'', ua_location = [], ua_headers = []\<rparr>"

definition mitm_demo_redirect :: url_action where
  "mitm_demo_redirect = mitm_demo_rule\<lparr>ua_action := ''redirect''\<rparr>"

definition mitm_demo_handler :: mitm_handler where
  "mitm_demo_handler = \<lparr>mh_allow = [''DOMAIN,a.com''], mh_egress = None, mh_verify = False,
     mh_skip = [''DOMAIN,b.com''], mh_rewrite = [], mh_logging = False,
     mh_actions = [mitm_demo_redirect, mitm_demo_rule], mh_client_cert = False\<rparr>"

definition mitm_demo_request :: string where
  "mitm_demo_request = ''GET /ads HTTP/1.1'' @ crlf @ crlf"

definition mitm_demo_env :: mitm_env where
  "mitm_demo_env = \<lparr>me_cert = (\<lambda>h. True), me_dial = (\<lambda>v t. True), me_up_tls = (\<lambda>t h. True),
     me_client = (\<lambda>h. Some mitm_demo_request)\<rparr>"

definition mitm_demo_answer :: url_result where
  "mitm_demo_answer = no_result\<lparr>ur_action := ''block'', ur_status := 403, ur_body := ''no'',
     ur_match := ''/ads''\<rparr>"

lemma mitm_demo_handler_fields:
  "mh_egress mitm_demo_handler = None" "\<not> mh_verify mitm_demo_handler"
  "\<not> mh_logging mitm_demo_handler" "\<not> mh_client_cert mitm_demo_handler"
  by (simp_all add: mitm_demo_handler_def)

lemma mitm_demo_read:
  "read_first_request mitm_demo_request = Some (mitm_demo_request, [])"
  using read_first_request_lines [of "[''GET /ads HTTP/1.1'']" "[]"] by (simp add: mitm_demo_request_def)

lemma mitm_demo_request_answer:
  "request_answer mitm_demo_re mitm_demo_handler mitm_demo_request = mitm_demo_answer"
  by code_simp

lemma mitm_demo_intercept:
  "intercept_connect mitm_demo_re mitm_demo_env new_registry mitm_demo_handler ''0'' ''a.com'' =
     ([UpDial None ''a.com'' True, UpTls ''a.com'' True False, ClientTls ''a.com'',
       ClientAnswer (write_url_response mitm_demo_answer), ClientClose, UpClose],
      Answered mitm_demo_answer)"
proof -
  have "split_host_port ''a.com'' = None"
    by code_simp
  moreover have "ur_action mitm_demo_answer \<noteq> []"
    by (simp add: mitm_demo_answer_def)
  ultimately show ?thesis
    by (simp add: intercept_connect_def Let_def mitm_demo_env_def egress_of_def log_http_request_def
        mitm_demo_read mitm_demo_request_answer mitm_demo_handler_fields)
qed

theorem intercept_upstream_witness:
  "(\<exists>via. UpDial via ''a.com'' True \<in> set (fst (intercept_connect mitm_demo_re mitm_demo_env new_registry
     mitm_demo_handler ''0'' ''a.com''))) \<and> ur_action mitm_demo_answer \<noteq> []"
  using intercept_upstream [OF mitm_demo_intercept] by (simp only: mitm_demo_intercept fst_conv) blast

theorem first_url_action_wins_witness:
  "match_url_actions mitm_demo_re [mitm_demo_redirect, mitm_demo_rule] ''GET /ads HTTP/1.1'' ''/ads'' =
     mitm_demo_answer"
proof -
  have "rule_hits mitm_demo_re mitm_demo_rule ''GET /ads HTTP/1.1'' ''/ads''"
    by code_simp
  moreover have "rule_result mitm_demo_rule = Some mitm_demo_answer"
    by code_simp
  moreover have "rule_result mitm_demo_redirect = None"
    by code_simp
  ultimately show ?thesis
    using first_url_action_wins [of mitm_demo_re mitm_demo_rule "''GET /ads HTTP/1.1''" "''/ads''"
        mitm_demo_answer "[mitm_demo_redirect]" "[]"]
    by simp
qed

theorem url_response_framed_witness:
  "read_first_request (concat (write_url_response mitm_demo_answer)) =
     Some (url_head mitm_demo_answer, ''no'')"
proof -
  have a: "ur_action mitm_demo_answer = ''block''" and b: "url_body mitm_demo_answer = ''no''"
    by (simp_all add: mitm_demo_answer_def url_body_def)
  show ?thesis
    using url_response_framed [of mitm_demo_answer] by (simp add: a b)
qed

end
