(* ===== verification/Go_Encoding.thy ===== *)
theory Go_Encoding
  imports Go_Net
begin

text \<open>
  Text encodings of bytes (\<open>encoding/base64\<close>) and byte slices read as numbers, shared by
  the components that build requests and hand out addresses.
\<close>

section \<open>Base64\<close>

definition b64_char :: "bool \<Rightarrow> nat \<Rightarrow> char" where
  "b64_char url d =
     (if d < 26 then char_of (65 + d) else if d < 52 then char_of (71 + d)
      else if d < 62 then char_of (d - 4)
      else if d = 62 then (if url then CHR ''-'' else CHR ''+'')
      else (if url then CHR ''_'' else CHR ''/''))"

text \<open>\<open>EncodeToString\<close>, with the URL alphabet or not, padded or not.\<close>

fun b64_encode :: "bool \<Rightarrow> bool \<Rightarrow> bytes \<Rightarrow> string" where
  "b64_encode url pad [] = []"
| "b64_encode url pad [a] =
     [b64_char url (unat a div 4), b64_char url (unat a mod 4 * 16)] @ (if pad then ''=='' else [])"
| "b64_encode url pad [a, b] =
     [b64_char url (unat a div 4), b64_char url (unat a mod 4 * 16 + unat b div 16),
      b64_char url (unat b mod 16 * 4)] @ (if pad then ''='' else [])"
| "b64_encode url pad (a # b # c # bs) =
     [b64_char url (unat a div 4), b64_char url (unat a mod 4 * 16 + unat b div 16),
      b64_char url (unat b mod 16 * 4 + unat c div 64), b64_char url (unat c mod 64)] @
     b64_encode url pad bs"

text \<open>\<open>DecodeString\<close>: line ends are skipped, the last quantum is padded or short.\<close>

definition b64_digit :: "bool \<Rightarrow> char \<Rightarrow> nat option" where
  "b64_digit url c = (let n = of_char c in
     if 65 \<le> n \<and> n \<le> 90 then Some (n - 65) else if 97 \<le> n \<and> n \<le> 122 then Some (n - 71)
     else if 48 \<le> n \<and> n \<le> 57 then Some (n + 4)
     else if c = (if url then CHR ''-'' else CHR ''+'') then Some 62
     else if c = (if url then CHR ''_'' else CHR ''/'') then Some 63 else None)"

definition b64_first :: "nat \<Rightarrow> nat \<Rightarrow> byte" where
  "b64_first a b = word_of_nat (a * 4 + b div 16)"

definition b64_second :: "nat \<Rightarrow> nat \<Rightarrow> byte" where
  "b64_second b c = word_of_nat (b * 16 + c div 4)"

definition b64_third :: "nat \<Rightarrow> nat \<Rightarrow> byte" where
  "b64_third c d = word_of_nat (c * 64 + d)"

definition b64_bytes :: "nat list \<Rightarrow> bytes" where
  "b64_bytes ds = (case ds of
       [a, b] \<Rightarrow> [b64_first a b]
     | [a, b, c] \<Rightarrow> [b64_first a b, b64_second b c]
     | [a, b, c, d] \<Rightarrow> [b64_first a b, b64_second b c, b64_third c d]
     | _ \<Rightarrow> [])"

definition b64_quantum :: "bool \<Rightarrow> string \<Rightarrow> bytes option" where
  "b64_quantum url q = map_option b64_bytes (those (map (b64_digit url) q))"

fun b64_quanta :: "bool \<Rightarrow> bool \<Rightarrow> string \<Rightarrow> bytes option" where
  "b64_quanta url pad [] = Some []"
| "b64_quanta url pad [a] = None"
| "b64_quanta url pad [a, b] = (if pad then None else b64_quantum url [a, b])"
| "b64_quanta url pad [a, b, c] = (if pad then None else b64_quantum url [a, b, c])"
| "b64_quanta url pad (a # b # c # d # r) =
     (if pad \<and> c = CHR ''='' \<and> d = CHR ''='' then (if r = [] then b64_quantum url [a, b] else None)
      else if pad \<and> d = CHR ''='' then (if r = [] then b64_quantum url [a, b, c] else None)
      else do { x \<leftarrow> b64_quantum url [a, b, c, d]; y \<leftarrow> b64_quanta url pad r; Some (x @ y) })"

definition b64_decode :: "bool \<Rightarrow> bool \<Rightarrow> string \<Rightarrow> bytes option" where
  "b64_decode url pad s = b64_quanta url pad (filter (\<lambda>c. c \<noteq> CHR 0x0A \<and> c \<noteq> CHR 0x0D) s)"

section \<open>Byte slices as numbers\<close>

fun val_le :: "bytes \<Rightarrow> nat" where
  "val_le [] = 0"
| "val_le (b # bs) = unat b + 256 * val_le bs"

definition val_be :: "bytes \<Rightarrow> nat" where
  "val_be bs = val_le (rev bs)"

text \<open>
  The loop that increments an address in place, from its last byte to its first, until a byte
  does not wrap to zero.
\<close>

fun incr_le :: "bytes \<Rightarrow> bytes" where
  "incr_le [] = []"
| "incr_le (b # bs) = (if b + 1 \<noteq> 0 then (b + 1) # bs else 0 # incr_le bs)"

definition incr_ip :: "ip \<Rightarrow> ip" where
  "incr_ip a = rev (incr_le (rev a))"

lemma val_le_less: "val_le bs < 256 ^ length bs"
proof (induction bs)
  case (Cons b bs)
  have "unat b + 256 * val_le bs < 256 + 256 * val_le bs"
    by simp
  also have "\<dots> = 256 * (val_le bs + 1)" by simp
  also have "\<dots> \<le> 256 * 256 ^ length bs"
    using Cons by (intro mult_le_mono2) simp
  finally show ?case by simp
qed simp

lemma val_be_less: "val_be bs < 256 ^ length bs"
  using val_le_less [of "rev bs"] by (simp add: val_be_def)

lemma val_le_inj: "length xs = length ys \<Longrightarrow> val_le xs = val_le ys \<Longrightarrow> xs = ys"
proof (induction xs ys rule: list_induct2)
  case (Cons x xs y ys)
  have "(unat x + 256 * val_le xs) mod 256 = (unat y + 256 * val_le ys) mod 256"
    using Cons.prems by simp
  then have "unat x = unat y" by simp
  with Cons show ?case by (simp add: word_unat_eq_iff)
qed simp

lemma val_be_inj: "length xs = length ys \<Longrightarrow> val_be xs = val_be ys \<Longrightarrow> xs = ys"
  using val_le_inj [of "rev xs" "rev ys"] by (simp add: val_be_def)

lemma length_incr_le [simp]: "length (incr_le bs) = length bs"
  by (induction bs) auto

lemma length_incr_ip [simp]: "length (incr_ip a) = length a"
  by (simp add: incr_ip_def)

lemma unat_byte_plus: "unat (b + 1 :: byte) = (if unat b = 255 then 0 else unat b + 1)"
proof -
  have "unat (b + 1) = (unat b + 1) mod 256"
    by (simp add: unat_word_ariths)
  moreover have "(x + 1) mod 256 = (if x = 255 then 0 else x + 1)" if "x < 256" for x :: nat
    using that by auto
  ultimately show ?thesis
    using unat_byte_less [of b] by (simp only:)
qed

lemma byte_plus_zero_iff: "b + 1 = (0 :: byte) \<longleftrightarrow> unat b = 255"
proof -
  have "b + 1 = 0 \<longleftrightarrow> unat (b + 1) = unat (0 :: byte)"
    by (rule word_unat_eq_iff)
  moreover have "(if x = 255 then 0 else x + 1) = (0 :: nat) \<longleftrightarrow> x = 255" for x :: nat
    by simp
  ultimately show ?thesis
    by (simp only: unat_byte_plus unat_0)
qed

lemma val_le_incr: "val_le bs + 1 < 256 ^ length bs \<Longrightarrow> val_le (incr_le bs) = val_le bs + 1"
proof (induction bs)
  case (Cons b bs)
  show ?case
  proof (cases "b + 1 = 0")
    case True
    then have b: "unat b = 255" by (simp only: byte_plus_zero_iff)
    with Cons.prems have "256 * (val_le bs + 1) < 256 * 256 ^ length bs" by simp
    then have "val_le bs + 1 < 256 ^ length bs" by simp
    from Cons.IH [OF this] b True show ?thesis by simp
  next
    case False
    then have "unat (b + 1) = unat b + 1"
      unfolding unat_byte_plus byte_plus_zero_iff by simp
    with False show ?thesis by simp
  qed
qed simp

lemma val_be_incr: "val_be a + 1 < 256 ^ length a \<Longrightarrow> val_be (incr_ip a) = val_be a + 1"
  using val_le_incr [of "rev a"] by (simp add: val_be_def incr_ip_def)

lemma bit_val_le:
  "i < length bs \<Longrightarrow> r < 8 \<Longrightarrow> bit (val_le bs) (8 * i + r) \<longleftrightarrow> bit (bs ! i) r"
proof (induction bs arbitrary: i)
  case (Cons b bs)
  show ?case
  proof (cases i)
    case 0
    have split: "2 ^ r * 2 ^ (8 - r) = (256 :: nat)"
      using Cons.prems(2) by (simp flip: power_add)
    have "(unat b + 256 * val_le bs) div 2 ^ r = unat b div 2 ^ r + 2 ^ (8 - r) * val_le bs"
      unfolding split [symmetric] by (simp add: mult.assoc)
    moreover have "even (2 ^ (8 - r) * val_le bs)"
      using Cons.prems(2) by simp
    ultimately have "odd ((unat b + 256 * val_le bs) div 2 ^ r) \<longleftrightarrow> odd (unat b div 2 ^ r)"
      by simp
    then have "bit (unat b + 256 * val_le bs) r \<longleftrightarrow> bit (unat b) r"
      by (simp add: bit_iff_odd)
    with 0 show ?thesis by (simp add: bit_unsigned_iff)
  next
    case (Suc j)
    have "2 ^ (8 * i + r) = (256 :: nat) * 2 ^ (8 * j + r)"
      using Suc by (simp add: power_add)
    then have "(unat b + 256 * val_le bs) div 2 ^ (8 * i + r) = val_le bs div 2 ^ (8 * j + r)"
      by (simp add: div_mult2_eq)
    then have "bit (val_le (b # bs)) (8 * i + r) \<longleftrightarrow> bit (val_le bs) (8 * j + r)"
      by (simp add: bit_iff_odd)
    with Cons Suc show ?thesis by simp
  qed
qed simp

lemma bit_val_be:
  assumes "i < length bs" "r < 8"
  shows "bit (val_be bs) (8 * (length bs - Suc i) + r) \<longleftrightarrow> bit (bs ! i) r"
  using bit_val_le [of "length bs - Suc i" "rev bs" r] assms by (simp add: val_be_def rev_nth)

section \<open>Base64 round trip\<close>

lemma b64_cases:
  fixes d :: nat
  assumes "d < 64"
  obtains "d < 26" | "26 \<le> d" "d < 52" | "52 \<le> d" "d < 62" | "d = 62" | "d = 63"
  using assms by linarith

lemma b64_code: "d < 64 \<Longrightarrow> (of_char (b64_char url d) :: nat) =
   (if d < 26 then 65 + d else if d < 52 then 71 + d else if d < 62 then d - 4
    else if d = 62 then (if url then 45 else 43) else (if url then 95 else 47))"
  by (simp add: b64_char_def)

lemma b64_digit_char:
  assumes "d < 64"
  shows "b64_digit url (b64_char url d) = Some d"
  using assms
proof (cases rule: b64_cases)
  case 4
  then show ?thesis by (cases url) (simp_all add: b64_digit_def b64_char_def)
next
  case 5
  then show ?thesis by (cases url) (simp_all add: b64_digit_def b64_char_def)
next
  case 3
  then have "48 \<le> d - 4" "d - 4 \<le> 57" by arith+
  with 3 show ?thesis by (simp add: b64_digit_def Let_def b64_code)
qed (simp_all add: b64_digit_def Let_def b64_code)

lemma b64_char_plain:
  assumes "d < 64"
  shows "b64_char url d \<notin> {CHR ''='', CHR 0x0A, CHR 0x0D}"
proof -
  have no: "b64_digit url x = None" if "x \<in> {CHR ''='', CHR 0x0A, CHR 0x0D}" for x
    using that by (auto simp: b64_digit_def)
  show ?thesis
    using b64_digit_char [OF assms, of url] no [of "b64_char url d"] by fastforce
qed

lemma b64_split:
  fixes a b c :: byte
  shows "unat a div 4 < 64" "unat a mod 4 * 16 + unat b div 16 < 64" "unat a mod 4 * 16 < 64"
    "unat b mod 16 * 4 + unat c div 64 < 64" "unat b mod 16 * 4 < 64" "unat c mod 64 < 64"
  using unat_byte_less [of a] unat_byte_less [of b] unat_byte_less [of c] by linarith+

lemma b64_join:
  fixes a b c :: byte
  shows "r < 16 \<Longrightarrow> b64_first (unat a div 4) (unat a mod 4 * 16 + r) = a"
    "q < 4 \<Longrightarrow> b64_second (k * 16 + unat b div 16) (unat b mod 16 * 4 + q) = b"
    "b64_third (m * 4 + unat c div 64) (unat c mod 64) = c"
proof -
  have w: "word_of_nat n = w" if "n mod 256 = unat w" for n and w :: byte
    using that by (simp add: word_unat_eq_iff unat_of_nat)
  show "b64_first (unat a div 4) (unat a mod 4 * 16 + r) = a" if "r < 16"
    unfolding b64_first_def using that unat_byte_less [of a]
    by (intro w) (simp add: div_mult_self3)
  have "(k * 16 + unat b div 16) * 16 + unat b mod 16 = k * 256 + unat b"
    using div_mult_mod_eq [of "unat b" 16] by (simp add: distrib_right)
  then show "b64_second (k * 16 + unat b div 16) (unat b mod 16 * 4 + q) = b" if "q < 4"
    unfolding b64_second_def using that unat_byte_less [of b]
    by (intro w) simp
  have "(m * 4 + unat c div 64) * 64 + unat c mod 64 = m * 256 + unat c"
    using div_mult_mod_eq [of "unat c" 64] by (simp add: distrib_right)
  then show "b64_third (m * 4 + unat c div 64) (unat c mod 64) = c"
    unfolding b64_third_def using unat_byte_less [of c] by (intro w) simp
qed

lemma b64_rest:
  fixes b c :: byte
  shows "unat b div 16 < 16" "unat c div 64 < 4"
  using unat_byte_less [of b] unat_byte_less [of c] by linarith+

lemmas b64_joined = b64_join(1) [of "unat b div 16" a for a b] b64_join(1) [of 0, simplified]
  b64_join(2) [of "unat c div 64" k b for k b c] b64_join(2) [of 0, simplified] b64_join(3)

text \<open>What is encoded is decoded again, with each alphabet, padded or not.\<close>

lemma b64_roundtrip: "b64_decode url pad (b64_encode url pad bs) = Some bs"
proof -
  have plain: "filter (\<lambda>c. c \<noteq> CHR 0x0A \<and> c \<noteq> CHR 0x0D) (b64_encode url pad bs) = b64_encode url pad bs"
  proof (induction url pad bs rule: b64_encode.induct)
    case (4 url pad a b c bs)
    with b64_char_plain b64_split show ?case by simp
  qed (use b64_char_plain b64_split in auto)
  have "b64_quanta url pad (b64_encode url pad bs) = Some bs"
  proof (induction url pad bs rule: b64_encode.induct)
    case (4 url pad a b c bs)
    have "b64_char url (unat c mod 64) \<noteq> CHR ''=''"
      using b64_char_plain [of "unat c mod 64" url] b64_split by simp
    with 4 show ?case
      by (simp add: b64_quantum_def b64_bytes_def b64_digit_char b64_split b64_rest b64_joined)
  next
    case (3 url pad a b)
    have "b64_char url (unat b mod 16 * 4) \<noteq> CHR ''=''"
      using b64_char_plain [of "unat b mod 16 * 4" url] b64_split by simp
    then show ?case
      by (simp add: b64_quantum_def b64_bytes_def b64_digit_char b64_split b64_rest b64_joined)
  qed (simp_all add: b64_quantum_def b64_bytes_def b64_digit_char b64_split b64_rest b64_joined)
  then show ?thesis
    by (simp add: b64_decode_def plain)
qed

end
