(* ===== verification/Dns.thy ===== *)
theory Dns
  imports Go_Encoding
begin

text \<open>
  Name resolution (\<open>dns/cache.go\<close>, \<open>fake.go\<close>, \<open>resolver.go\<close>, \<open>server.go\<close>): the cache with
  its expiry, the caching resolver, the allocator of fake addresses, and the handling of a
  query by the server.

  DNS messages are packed and unpacked by a third-party package; \<open>dns_lib\<close> holds its two
  operations, and \<open>dns_msg\<close> is the part of its message type that the sources touch. Times
  are nanoseconds and are arguments of the operations that call \<open>time.Now\<close>. The transports
  of the DoH and DoT resolvers are functions from the request to the reply.
\<close>

section \<open>Cache\<close>

record cache_entry =
  ce_ips :: "string list"
  ce_expires :: int

record cache =
  ca_entries :: "string \<rightharpoonup> cache_entry"
  ca_ttl :: int

definition new_cache :: "int \<Rightarrow> cache" where
  "new_cache ttl = \<lparr>ca_entries = Map.empty, ca_ttl = (if ttl \<le> 0 then 300000000000 else ttl)\<rparr>"

definition cache_set :: "int \<Rightarrow> string \<Rightarrow> string list \<Rightarrow> cache \<Rightarrow> cache" where
  "cache_set now k ips c =
     c\<lparr>ca_entries := (ca_entries c)(k \<mapsto> \<lparr>ce_ips = ips, ce_expires = now + ca_ttl c\<rparr>)\<rparr>"

definition cache_get :: "int \<Rightarrow> string \<Rightarrow> cache \<Rightarrow> string list option" where
  "cache_get now k c = (case ca_entries c k of
       None \<Rightarrow> None
     | Some e \<Rightarrow> (if ce_expires e < now then None else Some (ce_ips e)))"

definition cache_cleanup :: "int \<Rightarrow> cache \<Rightarrow> cache" where
  "cache_cleanup now c = c\<lparr>ca_entries := (\<lambda>k. case ca_entries c k of
       None \<Rightarrow> None
     | Some e \<Rightarrow> (if ce_expires e < now then None else Some e))\<rparr>"

section \<open>Resolvers\<close>

type_synonym dns_type = nat

definition type_A :: dns_type where "type_A = 1"
definition type_AAAA :: dns_type where "type_AAAA = 28"

record dns_question =
  q_name :: string
  q_type :: dns_type

datatype dns_body =
    BodyA bytes
  | BodyAAAA bytes
  | BodyOther

record dns_rr =
  rr_name :: string
  rr_type :: dns_type
  rr_ttl :: nat
  rr_body :: dns_body

record dns_msg =
  m_id :: nat
  m_response :: bool
  m_recursion :: bool
  m_rcode :: nat
  m_questions :: "dns_question list"
  m_answers :: "dns_rr list"

record dns_lib =
  unpack :: "bytes \<Rightarrow> dns_msg option"
  pack :: "dns_msg \<Rightarrow> bytes option"

datatype dns_err =
    PackError
  | UnpackError
  | LookupError
  | TransportError
  | ReadError

type_synonym resolve_result = "dns_err + ip list"

text \<open>The inner resolver: a function of the query that may panic.\<close>

type_synonym inner_resolver = "string \<Rightarrow> dns_type \<Rightarrow> resolve_result option"

definition direct_filter :: "dns_type \<Rightarrow> ip list \<Rightarrow> ip list" where
  "direct_filter qt ips = filter (\<lambda>a.
     \<not> (qt = type_A \<and> to4 a = None) \<and> \<not> (qt = type_AAAA \<and> to4 a \<noteq> None)) ips"

definition direct_resolve :: "(string \<Rightarrow> ip list option) \<Rightarrow> inner_resolver" where
  "direct_resolve lookup domain qt = Some (case lookup domain of
       None \<Rightarrow> Inl LookupError | Some ips \<Rightarrow> Inr (direct_filter qt ips))"

text \<open>\<open>parseDNSResponse\<close>: the addresses of the A and AAAA records whose body has that type.\<close>

definition rr_ips :: "dns_rr \<Rightarrow> ip list" where
  "rr_ips rr =
     (if rr_type rr = type_A then (case rr_body rr of BodyA b \<Rightarrow> [b] | _ \<Rightarrow> [])
      else if rr_type rr = type_AAAA then (case rr_body rr of BodyAAAA b \<Rightarrow> [b] | _ \<Rightarrow> [])
      else [])"

definition parse_dns_response :: "dns_lib \<Rightarrow> bytes \<Rightarrow> resolve_result" where
  "parse_dns_response lib data = (case unpack lib data of
       None \<Rightarrow> Inl UnpackError
     | Some m \<Rightarrow> Inr (concat (map rr_ips (m_answers m))))"

definition absolute_name :: "string \<Rightarrow> string" where
  "absolute_name domain = (if has_suffix domain ''.'' then domain else domain @ ''.'')"

text \<open>The query message of both encrypted resolvers; \<open>MustNewName\<close> panics beyond 255 bytes.\<close>

definition query_msg :: "string \<Rightarrow> dns_type \<Rightarrow> dns_msg option" where
  "query_msg domain qt =
     (let nm = absolute_name domain in
      if 255 < length nm then None
      else Some \<lparr>m_id = 0, m_response = False, m_recursion = True, m_rcode = 0,
             m_questions = [\<lparr>q_name = nm, q_type = qt\<rparr>], m_answers = []\<rparr>)"

definition new_doh :: "string \<Rightarrow> string" where
  "new_doh server = (if server = [] then ''https://cloudflare-dns.com/dns-query'' else server)"

definition doh_resolve :: "dns_lib \<Rightarrow> (string \<Rightarrow> bytes option) \<Rightarrow> string \<Rightarrow> inner_resolver" where
  "doh_resolve lib get server domain qt = do {
     m \<leftarrow> query_msg domain qt;
     Some (case pack lib m of
         None \<Rightarrow> Inl PackError
       | Some packed \<Rightarrow> (case get (server @ ''?dns='' @ b64_encode True False packed) of
           None \<Rightarrow> Inl TransportError
         | Some body \<Rightarrow> parse_dns_response lib body))
   }"

definition new_dot :: "string \<Rightarrow> string" where
  "new_dot server = (if server = [] then ''1.1.1.1:853'' else server)"

text \<open>Reading a message with a two-byte length from a stream, as DoT and TCP clients do.\<close>

definition read_framed :: "bytes \<Rightarrow> bytes option" where
  "read_framed s = (if length s < 2 then None
     else let n = get_u16 (s ! 0) (s ! 1) in if length s - 2 < n then None else Some (take n (drop 2 s)))"

definition frame :: "bytes \<Rightarrow> bytes" where
  "frame b = put_u16 (length b) @ b"

definition dot_resolve :: "dns_lib \<Rightarrow> (bytes \<Rightarrow> bytes option) \<Rightarrow> inner_resolver" where
  "dot_resolve lib exchange domain qt = do {
     m \<leftarrow> query_msg domain qt;
     Some (case pack lib m of
         None \<Rightarrow> Inl PackError
       | Some packed \<Rightarrow> (case exchange (frame packed) of
           None \<Rightarrow> Inl TransportError
         | Some reply \<Rightarrow> (case read_framed reply of
             None \<Rightarrow> Inl ReadError
           | Some body \<Rightarrow> parse_dns_response lib body)))
   }"

text \<open>
  \<open>CacheResolver.Resolve\<close>. A cached string that is no address becomes the nil IP (the empty
  list here).
\<close>

definition cache_key :: "string \<Rightarrow> dns_type \<Rightarrow> string" where
  "cache_key domain qt = domain @ '':'' @ itoa qt"

definition parse_ip_or_nil :: "string \<Rightarrow> ip" where
  "parse_ip_or_nil s = (case parse_ip s of None \<Rightarrow> [] | Some a \<Rightarrow> a)"

definition cr_resolve ::
    "inner_resolver \<Rightarrow> int \<Rightarrow> cache \<Rightarrow> string \<Rightarrow> dns_type \<Rightarrow> (cache \<times> resolve_result) option" where
  "cr_resolve inner now c domain qt = (case cache_get now (cache_key domain qt) c of
       Some ips \<Rightarrow> Some (c, Inr (map parse_ip_or_nil ips))
     | None \<Rightarrow> (case inner domain qt of
         None \<Rightarrow> None
       | Some (Inl e) \<Rightarrow> Some (c, Inl e)
       | Some (Inr ips) \<Rightarrow> Some (cache_set now (cache_key domain qt) (map ip_string ips) c, Inr ips)))"

section \<open>Fake addresses\<close>

record fake_dns =
  fd_forward :: "string \<rightharpoonup> ip"
  fd_reverse :: "string \<rightharpoonup> string"
  fd_next :: ip
  fd_network :: ip_net
  fd_gateway :: ip
  fd_dns :: ip

definition set_last :: "ip \<Rightarrow> byte \<Rightarrow> ip" where
  "set_last a b = a[length a - 1 := b]"

definition new_fake_dns :: "string \<Rightarrow> fake_dns option" where
  "new_fake_dns cidr = (case parse_cidr cidr of
       None \<Rightarrow> None
     | Some n \<Rightarrow>
         (let a = (case to4 (net_ip n) of Some b \<Rightarrow> b
                   | None \<Rightarrow> (case to16 (net_ip n) of Some b \<Rightarrow> b | None \<Rightarrow> []))
          in Some \<lparr>fd_forward = Map.empty, fd_reverse = Map.empty, fd_next = set_last a 3,
               fd_network = n, fd_gateway = set_last a 1, fd_dns = set_last a 2\<rparr>))"

definition fd_is_fake :: "fake_dns \<Rightarrow> ip \<Rightarrow> bool" where
  "fd_is_fake f a = net_contains (fd_network f) a"

definition fd_advance :: "fake_dns \<Rightarrow> ip" where
  "fd_advance f =
     (let a = incr_ip (fd_next f) in
      if net_contains (fd_network f) a then a else set_last (copy_at a 0 (net_ip (fd_network f))) 3)"

definition fd_allocate :: "string \<Rightarrow> fake_dns \<Rightarrow> fake_dns \<times> ip" where
  "fd_allocate domain f = (case fd_forward f domain of
       Some a \<Rightarrow> (f, a)
     | None \<Rightarrow> (f\<lparr>fd_next := fd_advance f, fd_forward := (fd_forward f)(domain \<mapsto> fd_next f),
           fd_reverse := (fd_reverse f)(ip_string (fd_next f) \<mapsto> domain)\<rparr>, fd_next f))"

definition fd_domain :: "fake_dns \<Rightarrow> ip \<Rightarrow> string option" where
  "fd_domain f a = fd_reverse f (ip_string a)"

definition fd_ip :: "fake_dns \<Rightarrow> string \<Rightarrow> ip option" where
  "fd_ip f domain = fd_forward f domain"

definition fd_add_static :: "string \<Rightarrow> string \<Rightarrow> fake_dns \<Rightarrow> fake_dns" where
  "fd_add_static domain ip_str f = (case parse_ip ip_str of
       None \<Rightarrow> f
     | Some a \<Rightarrow> f\<lparr>fd_forward := (fd_forward f)(to_lower domain \<mapsto> a),
           fd_reverse := (fd_reverse f)(ip_string a \<mapsto> to_lower domain)\<rparr>)"

definition fd_dump :: "fake_dns \<Rightarrow> string \<rightharpoonup> string" where
  "fd_dump f = map_option ip_string \<circ> fd_forward f"

section \<open>Server\<close>

record dns_config =
  dc_mode :: string
  dc_doh_server :: string
  dc_dot_server :: string
  dc_fake_cidr :: string

record dns_server =
  ds_mode :: string
  ds_doh :: string
  ds_dot :: string
  ds_cache :: cache
  ds_fake :: "fake_dns option"

definition new_dns_server :: "dns_config \<Rightarrow> dns_server option" where
  "new_dns_server cfg =
     (let srv = \<lparr>ds_mode = dc_mode cfg, ds_doh = new_doh (dc_doh_server cfg), ds_dot = new_dot (dc_dot_server cfg),
              ds_cache = new_cache 300000000000, ds_fake = None\<rparr>
      in if dc_fake_cidr cfg = [] then Some srv
         else case new_fake_dns (dc_fake_cidr cfg) of
           None \<Rightarrow> None | Some f \<Rightarrow> Some (srv\<lparr>ds_fake := Some f\<rparr>))"

text \<open>The resolver that the mode of the server selects, on its three transports.\<close>

definition server_resolver ::
    "dns_lib \<Rightarrow> (string \<Rightarrow> ip list option) \<Rightarrow> (string \<Rightarrow> bytes option) \<Rightarrow>
     (string \<Rightarrow> bytes \<Rightarrow> bytes option) \<Rightarrow> dns_server \<Rightarrow> inner_resolver" where
  "server_resolver lib lookup get tls srv =
     (if ds_mode srv = ''doh'' then doh_resolve lib get (ds_doh srv)
      else if ds_mode srv = ''dot'' then dot_resolve lib (tls (ds_dot srv))
      else direct_resolve lookup)"

definition answer_a :: "dns_question \<Rightarrow> bytes \<Rightarrow> dns_rr" where
  "answer_a q b = \<lparr>rr_name = q_name q, rr_type = type_A, rr_ttl = 300, rr_body = BodyA b\<rparr>"

definition answer_aaaa :: "dns_question \<Rightarrow> bytes \<Rightarrow> dns_rr" where
  "answer_aaaa q b = \<lparr>rr_name = q_name q, rr_type = type_AAAA, rr_ttl = 300, rr_body = BodyAAAA b\<rparr>"

text \<open>The loop that appends the answers; None is the panic of \<open>[16]byte\<close> of a nil slice.\<close>

fun answers_for :: "dns_question \<Rightarrow> ip list \<Rightarrow> dns_rr list option" where
  "answers_for q [] = Some []"
| "answers_for q (a # ips) = do {
     rest \<leftarrow> answers_for q ips;
     (case to4 a of
        Some b \<Rightarrow> (if q_type q = type_A then Some (answer_a q b # rest) else Some rest)
      | None \<Rightarrow> (if q_type q = type_AAAA then
            (case to16 a of None \<Rightarrow> None | Some b \<Rightarrow> Some (answer_aaaa q b # rest)) else Some rest))
   }"

text \<open>
  \<open>processQuery\<close>. The outer None is a panic (\<open>[4]byte\<close> of a nil slice, or the resolver's);
  a result None is no response.
\<close>

definition process_query ::
    "dns_lib \<Rightarrow> inner_resolver \<Rightarrow> int \<Rightarrow> dns_server \<Rightarrow> bytes \<Rightarrow> (dns_server \<times> bytes option) option" where
  "process_query lib inner now srv data = (case unpack lib data of
       None \<Rightarrow> Some (srv, None)
     | Some m \<Rightarrow> (case m_questions m of
         [] \<Rightarrow> Some (srv, None)
       | q # _ \<Rightarrow>
           (let domain = trim_suffix (q_name q) ''.'';
                fake = (case ds_fake srv of None \<Rightarrow> None | Some f \<Rightarrow> fd_ip f domain)
            in case (fake, q_type q = type_A) of
                 (Some a, True) \<Rightarrow> (case to4 a of
                     None \<Rightarrow> None
                   | Some b \<Rightarrow> Some (srv, pack lib (m\<lparr>m_response := True, m_answers := [answer_a q b]\<rparr>)))
               | _ \<Rightarrow> (case cr_resolve inner now (ds_cache srv) domain (q_type q) of
                     None \<Rightarrow> None
                   | Some (c, Inl e) \<Rightarrow>
                       Some (srv\<lparr>ds_cache := c\<rparr>, pack lib (m\<lparr>m_rcode := 2, m_response := True\<rparr>))
                   | Some (c, Inr ips) \<Rightarrow> (case answers_for q ips of
                       None \<Rightarrow> None
                     | Some rrs \<Rightarrow> Some (srv\<lparr>ds_cache := c\<rparr>,
                         pack lib (m\<lparr>m_response := True, m_answers := m_answers m @ rrs\<rparr>)))))))"

text \<open>\<open>handleUDPQuery\<close> and \<open>handleTCPQuery\<close>: what is written back.\<close>

definition handle_udp_query ::
    "dns_lib \<Rightarrow> inner_resolver \<Rightarrow> int \<Rightarrow> dns_server \<Rightarrow> bytes \<Rightarrow> (dns_server \<times> bytes list) option" where
  "handle_udp_query lib inner now srv data = (case process_query lib inner now srv data of
       None \<Rightarrow> None
     | Some (srv', None) \<Rightarrow> Some (srv', [])
     | Some (srv', Some r) \<Rightarrow> Some (srv', [r]))"

definition handle_tcp_query ::
    "dns_lib \<Rightarrow> inner_resolver \<Rightarrow> int \<Rightarrow> dns_server \<Rightarrow> bytes \<Rightarrow> (dns_server \<times> bytes) option" where
  "handle_tcp_query lib inner now srv stream = (case read_framed stream of
       None \<Rightarrow> Some (srv, [])
     | Some data \<Rightarrow> (case process_query lib inner now srv data of
         None \<Rightarrow> None
       | Some (srv', None) \<Rightarrow> Some (srv', [])
       | Some (srv', Some r) \<Rightarrow> Some (srv', frame r)))"

section \<open>The contract of the cache\<close>

text \<open>
  What a client of an expiring store relies on: a value is served until its time to live is
  over or its key is set again, and the clean-up of expired entries is never noticed.
\<close>

locale expiring_store =
  fixes get :: "int \<Rightarrow> string \<Rightarrow> 'c \<Rightarrow> 'v option"
    and put :: "int \<Rightarrow> string \<Rightarrow> 'v \<Rightarrow> 'c \<Rightarrow> 'c"
    and clean :: "int \<Rightarrow> 'c \<Rightarrow> 'c"
    and ttl :: "'c \<Rightarrow> int"
  assumes get_put: "get t' k' (put t k v c) =
      (if k' = k then (if t' \<le> t + ttl c then Some v else None) else get t' k' c)"
    and get_clean: "t \<le> t' \<Longrightarrow> get t' k (clean t c) = get t' k c"
begin

lemma fresh: "t' \<le> t + ttl c \<Longrightarrow> get t' k (put t k v c) = Some v"
  by (simp add: get_put)

lemma expired: "t + ttl c < t' \<Longrightarrow> get t' k (put t k v c) = None"
  by (simp add: get_put)

lemma kept:
  assumes "get t' k c = Some v"
    and "\<forall>s \<in> set steps. (\<exists>t k' v'. s = put t k' v' \<and> k' \<noteq> k) \<or> (\<exists>t. s = clean t \<and> t \<le> t')"
  shows "get t' k (fold (\<lambda>s. s) steps c) = Some v"
  using assms by (induction steps arbitrary: c) (auto simp: get_put get_clean)

end

interpretation dns_cache: expiring_store cache_get cache_set cache_cleanup ca_ttl
  by unfold_locales
    (auto simp: cache_get_def cache_set_def cache_cleanup_def split: option.splits)

lemma cache_key_inj: "cache_key d q = cache_key d' q' \<longleftrightarrow> d = d' \<and> q = q'"
proof
  assume eq: "cache_key d q = cache_key d' q'"
  have last: "last_index_byte (cache_key d q) CHR '':'' = Some (length d)" for d q
    using last_index_byte_append [of "CHR '':''" "itoa q" d] itoa_no_delims [of q]
    by (simp add: cache_key_def)
  then have "length d = length d'"
    using eq by (metis option.inject)
  with eq show "d = d' \<and> q = q'"
    by (auto simp: cache_key_def dest: itoa_inj)
qed simp

text \<open>The clients of the cache: other queries, and the clean-up that runs in between.\<close>

datatype cache_op =
    Query inner_resolver int string dns_type
  | Cleanup int

fun run_op :: "cache_op \<Rightarrow> cache \<Rightarrow> cache option" where
  "run_op (Query inner t d q) c = map_option fst (cr_resolve inner t c d q)"
| "run_op (Cleanup t) c = Some (cache_cleanup t c)"

fun run_ops :: "cache_op list \<Rightarrow> cache \<Rightarrow> cache option" where
  "run_ops [] c = Some c"
| "run_ops (x # xs) c = (case run_op x c of None \<Rightarrow> None | Some c' \<Rightarrow> run_ops xs c')"

definition undisturbed :: "int \<Rightarrow> string \<Rightarrow> dns_type \<Rightarrow> cache_op \<Rightarrow> bool" where
  "undisturbed t' domain qt x = (case x of
       Query inner t d q \<Rightarrow> (d, q) \<noteq> (domain, qt) | Cleanup t \<Rightarrow> t \<le> t')"

lemma run_ops_kept:
  assumes "\<forall>x \<in> set xs. undisturbed t' domain qt x" "cache_get t' (cache_key domain qt) c = Some v"
    and "run_ops xs c = Some c'"
  shows "cache_get t' (cache_key domain qt) c' = Some v"
  using assms
proof (induction xs arbitrary: c)
  case (Cons x xs)
  from Cons.prems(3) obtain c1 where c1: "run_op x c = Some c1" and rest: "run_ops xs c1 = Some c'"
    by (auto split: option.splits)
  have "cache_get t' (cache_key domain qt) c1 = Some v"
  proof (cases x)
    case (Query inner t d q)
    then have "cache_key d q \<noteq> cache_key domain qt"
      using Cons.prems(1) by (auto simp: undisturbed_def cache_key_inj)
    moreover have "c1 = c \<or> (\<exists>ips. c1 = cache_set t (cache_key d q) ips c)"
      using c1 Query by (auto simp: cr_resolve_def split: option.splits sum.splits)
    ultimately show ?thesis
      using Cons.prems(2) by (auto simp: dns_cache.get_put)
  next
    case (Cleanup t)
    with c1 Cons.prems(1,2) show ?thesis
      by (auto simp: undisturbed_def dns_cache.get_clean)
  qed
  with Cons.IH rest Cons.prems(1) show ?case by simp
qed simp

lemma ip_string_parse_to4:
  assumes "to4 a \<noteq> None"
  shows "ip_equal (parse_ip_or_nil (ip_string a)) a"
proof -
  obtain b where b: "to4 a = Some b" using assms by blast
  then have len: "length b = 4" by (rule to4_length)
  have "ip_string a = dotted b"
    using b by (auto simp: ip_string_def to4_def split: if_splits)
  then have "parse_ip_or_nil (ip_string a) = v4_in_v6_prefix @ b"
    using len by (simp add: parse_ip_or_nil_def parse_ip_def parse_addr_dotted)
  moreover have "a = b \<or> a = v4_in_v6_prefix @ b"
    using b by (auto simp: to4_def split: if_splits) (metis append_take_drop_id)
  ultimately show ?thesis
    using len by (auto simp: ip_equal_def v4_in_v6_prefix_def)
qed

text \<open>
  C13: the cache answers again. Once a query has been answered by the inner resolver with IPv4
  addresses at time \<open>t\<close>, the same query gets equal addresses up to \<open>t\<close> plus the time to live,
  from the cache, whatever the inner resolver would answer by then, and whatever other queries
  and clean-ups happen in between.
\<close>

theorem cache_answers_again:
  assumes "cache_get t (cache_key domain qt) c = None"
    and "cr_resolve inner t c domain qt = Some (c1, Inr ips)"
    and "\<forall>a \<in> set ips. to4 a \<noteq> None"
    and "\<forall>x \<in> set xs. undisturbed t' domain qt x" and "run_ops xs c1 = Some c2"
    and "t' \<le> t + ca_ttl c"
  shows "\<exists>ips'. cr_resolve inner' t' c2 domain qt = Some (c2, Inr ips') \<and> list_all2 ip_equal ips' ips"
proof -
  have "c1 = cache_set t (cache_key domain qt) (map ip_string ips) c"
    using assms(1,2) by (auto simp: cr_resolve_def split: option.splits sum.splits)
  then have "cache_get t' (cache_key domain qt) c1 = Some (map ip_string ips)"
    using assms(6) by (simp add: dns_cache.fresh)
  from run_ops_kept [OF assms(4) this assms(5)]
  have "cr_resolve inner' t' c2 domain qt = Some (c2, Inr (map parse_ip_or_nil (map ip_string ips)))"
    by (simp add: cr_resolve_def)
  moreover have "list_all2 ip_equal (map parse_ip_or_nil (map ip_string ips)) ips"
    using assms(3) ip_string_parse_to4 by (induction ips) auto
  ultimately show ?thesis by blast
qed

theorem cache_answers_again_witness:
  "\<exists>c1 c2 ips'.
    cr_resolve (\<lambda>d q. Some (Inr [[1, 2, 3, 4]])) 0 (new_cache 10) ''a'' type_A = Some (c1, Inr [[1, 2, 3, 4]]) \<and>
    run_ops [Query (\<lambda>d q. Some (Inl LookupError)) 3 ''b'' type_A, Cleanup 5] c1 = Some c2 \<and>
    cr_resolve (\<lambda>d q. Some (Inr [])) 10 c2 ''a'' type_A = Some (c2, Inr ips') \<and>
    list_all2 ip_equal ips' [[1, 2, 3, 4]]"
proof -
  let ?inner = "\<lambda>d q. Some (Inr [[1, 2, 3, 4 :: byte]]) :: resolve_result option"
  let ?ops = "[Query (\<lambda>d q. Some (Inl LookupError)) 3 ''b'' type_A, Cleanup 5]"
  have miss: "cache_get 0 (cache_key ''a'' type_A) (new_cache 10) = None"
    by (simp add: cache_get_def new_cache_def)
  then obtain c1 where c1: "cr_resolve ?inner 0 (new_cache 10) ''a'' type_A = Some (c1, Inr [[1, 2, 3, 4]])"
    by (simp add: cr_resolve_def)
  obtain c2 where c2: "run_ops ?ops c1 = Some c2"
    by (cases "cache_get 3 (cache_key ''b'' type_A) c1") (auto simp: cr_resolve_def)
  from cache_answers_again [OF miss c1 _ _ c2, of 10 "\<lambda>d q. Some (Inr [])"] c1 c2
  show ?thesis
    by (auto simp: undisturbed_def new_cache_def)
qed

section \<open>Fake addresses stand for one name each\<close>

text \<open>The network \<open>b/n\<close> of the pool, and the addresses that are handed out.\<close>

definition pool_net :: "bytes \<Rightarrow> nat \<Rightarrow> ip_net" where
  "pool_net b n = \<lparr>net_ip = and_bytes b (cidr_mask n 4), net_mask = cidr_mask n 4\<rparr>"

definition pool_start :: "bytes \<Rightarrow> nat \<Rightarrow> nat" where
  "pool_start b n = val_be (and_bytes b (cidr_mask n 4))"

definition pool_addr :: "bytes \<Rightarrow> nat \<Rightarrow> nat \<Rightarrow> ip" where
  "pool_addr b n i = (incr_ip ^^ i) (set_last (and_bytes b (cidr_mask n 4)) 3)"

lemma length_set_last [simp]: "length (set_last a x) = length a"
  by (simp add: set_last_def)

lemma length_pool_addr [simp]: "length b = 4 \<Longrightarrow> length (pool_addr b n i) = 4"
  by (induction i) (simp_all add: pool_addr_def)

lemma bit_pool_start:
  assumes "length b = 4" "n \<le> 32"
  shows "m < 32 - n \<Longrightarrow> \<not> bit (pool_start b n) m"
proof -
  assume m: "m < 32 - n"
  let ?a = "and_bytes b (cidr_mask n 4)"
  have i: "3 - m div 8 < 4" "m div 8 \<le> 3" using m by auto
  have idx: "8 * (length ?a - Suc (3 - m div 8)) + m mod 8 = m"
    using assms(1) i by simp
  have "bit (?a ! (3 - m div 8)) (m mod 8) \<longleftrightarrow>
      bit (b ! (3 - m div 8)) (m mod 8) \<and> 8 * (3 - m div 8) + (7 - m mod 8) < n"
    using assms(1) i by (simp add: nth_and_bytes bit_and_iff cidr_mask_def bit_mask_byte)
  moreover have "\<not> 8 * (3 - m div 8) + (7 - m mod 8) < n"
    using m i by (simp add: algebra_simps)
  ultimately show ?thesis
    using bit_val_be [of "3 - m div 8" ?a "m mod 8"] idx assms(1) i by (simp add: pool_start_def)
qed


lemma dvd_pool_start: "length b = 4 \<Longrightarrow> n \<le> 32 \<Longrightarrow> 2 ^ (32 - n) dvd pool_start b n"
proof -
  assume "length b = 4" "n \<le> 32"
  then have "take_bit (32 - n) (pool_start b n) = 0"
    using bit_pool_start by (intro bit_eqI) (auto simp: bit_take_bit_iff)
  then show ?thesis by (simp only: take_bit_eq_0_iff)
qed

lemma bit_add_multiple:
  assumes "2 ^ s dvd (q :: nat)" "k < 2 ^ s" "s \<le> m"
  shows "bit (q + k) m \<longleftrightarrow> bit q m"
proof -
  obtain c where c: "q = 2 ^ s * c" using assms(1) by (rule dvdE)
  have split: "(2 :: nat) ^ m = 2 ^ s * 2 ^ (m - s)"
    using assms(3) by (simp flip: power_add)
  have "(q + k) div 2 ^ m = c div 2 ^ (m - s)" "q div 2 ^ m = c div 2 ^ (m - s)"
    using assms(2) by (simp_all add: c split div_mult2_eq)
  then show ?thesis by (simp add: bit_iff_odd)
qed

lemma pool_contains:
  assumes "length b = 4" "n \<le> 32" "to4 x = Some a" "val_be a = pool_start b n + k" "k < 2 ^ (32 - n)"
  shows "net_contains (pool_net b n) x"
  unfolding pool_net_def net_contains_to4 [OF assms(3,1,2)]
proof (intro allI impI)
  fix j assume j: "j < n"
  let ?i = "j div 8" and ?r = "7 - j mod 8" and ?a = "and_bytes b (cidr_mask n 4)"
  have i: "?i < 4" using j assms(2) by simp
  have len: "length a = 4" using assms(3) by (rule to4_length)
  have "8 * (4 - Suc q) + (7 - r) = 31 - (8 * q + r)" if "q < 4" "r < 8" for q r :: nat
    using that by arith
  from this [OF i, of "j mod 8"] have pos: "8 * (4 - Suc ?i) + ?r = 31 - j"
    by simp
  have "bit (a ! ?i) ?r \<longleftrightarrow> bit (val_be a) (31 - j)"
    using bit_val_be [of ?i a ?r] i len pos by simp
  also have "\<dots> \<longleftrightarrow> bit (pool_start b n) (31 - j)"
    unfolding assms(4) using dvd_pool_start [OF assms(1,2)] assms(5) j
    by (intro bit_add_multiple) auto
  also have "\<dots> \<longleftrightarrow> bit (?a ! ?i) ?r"
    using bit_val_be [of ?i ?a ?r] i assms(1) pos by (simp add: pool_start_def)
  also have "\<dots> \<longleftrightarrow> bit (b ! ?i) ?r"
    using i j assms(1) by (simp add: nth_and_bytes bit_and_iff cidr_mask_def bit_mask_byte)
  finally show "bit (a ! ?i) ?r \<longleftrightarrow> bit (b ! ?i) ?r" .
qed

lemma val_set_last:
  assumes "length a = 4" "a ! 3 = 0"
  shows "val_be (set_last a x) = val_be a + unat x"
proof -
  obtain p q r s where a: "a = [p, q, r, s]" using length_4_cases [OF assms(1)] by blast
  with assms(2) show ?thesis by (simp add: set_last_def val_be_def)
qed

lemma last_pool_base: "length b = 4 \<Longrightarrow> n \<le> 24 \<Longrightarrow> and_bytes b (cidr_mask n 4) ! 3 = 0"
  by (simp add: nth_and_bytes cidr_mask_def mask_byte_def)

lemma pool_start_less: "length b = 4 \<Longrightarrow> n \<le> 32 \<Longrightarrow> pool_start b n + 2 ^ (32 - n) \<le> 2 ^ 32"
proof -
  assume b: "length b = 4" and n: "n \<le> 32"
  have less: "pool_start b n < 2 ^ 32"
    using val_be_less [of "and_bytes b (cidr_mask n 4)"] b by (simp add: pool_start_def)
  obtain c where c: "pool_start b n = 2 ^ (32 - n) * c"
    using dvd_pool_start [OF b n] by (rule dvdE)
  have split: "(2 :: nat) ^ 32 = 2 ^ (32 - n) * 2 ^ n"
    using n by (simp flip: power_add)
  have "c < 2 ^ n"
    using less unfolding c split by simp
  then have "2 ^ (32 - n) * (c + 1) \<le> (2 :: nat) ^ (32 - n) * 2 ^ n"
    by (intro mult_le_mono2) simp
  then show ?thesis
    unfolding c split by simp
qed

lemma val_pool_addr:
  assumes "length b = 4" "n \<le> 24"
  shows "i + 3 < 2 ^ (32 - n) \<Longrightarrow> val_be (pool_addr b n i) = pool_start b n + 3 + i"
proof (induction i)
  case 0
  then show ?case
    using assms val_set_last [of "and_bytes b (cidr_mask n 4)" 3] last_pool_base [OF assms]
    by (simp add: pool_addr_def pool_start_def)
next
  case (Suc i)
  have "pool_start b n + 3 + i + 1 < 2 ^ 32"
    using pool_start_less [of b n] assms Suc.prems by simp
  with Suc assms have "val_be (incr_ip (pool_addr b n i)) = pool_start b n + 3 + i + 1"
    using val_be_incr [of "pool_addr b n i"] by simp
  then show ?case by (simp add: pool_addr_def)
qed

lemma pool_addr_inj:
  assumes "length b = 4" "n \<le> 24" "i + 3 < 2 ^ (32 - n)" "j + 3 < 2 ^ (32 - n)"
    and "ip_string (pool_addr b n i) = ip_string (pool_addr b n j)"
  shows "i = j"
proof -
  have "pool_addr b n i = pool_addr b n j"
    using assms(5) by (rule ip_string_inj_4 [rotated 2]) (simp_all only: length_pool_addr [OF assms(1)])
  then have "val_be (pool_addr b n i) = val_be (pool_addr b n j)"
    by (rule arg_cong)
  then show ?thesis
    unfolding val_pool_addr [OF assms(1,2,3)] val_pool_addr [OF assms(1,2,4)] by (rule add_left_imp_eq)
qed


text \<open>
  The state after the pool has handed out addresses to the distinct names \<open>ds\<close>, in that order.
\<close>

definition fake_state :: "bytes \<Rightarrow> nat \<Rightarrow> string list \<Rightarrow> fake_dns \<Rightarrow> bool" where
  "fake_state b n ds f \<longleftrightarrow>
     fd_network f = pool_net b n \<and> distinct ds \<and> dom (fd_forward f) = set ds \<and>
     (\<forall>i < length ds. fd_forward f (ds ! i) = Some (pool_addr b n i) \<and>
        fd_reverse f (ip_string (pool_addr b n i)) = Some (ds ! i)) \<and>
     (length ds + 3 < 2 ^ (32 - n) \<longrightarrow> fd_next f = pool_addr b n (length ds))"

lemma fake_state_new:
  assumes "length b = 4" "n \<le> 24"
  shows "\<exists>f. new_fake_dns (dotted b @ ''/'' @ itoa n) = Some f \<and> fake_state b n [] f \<and>
    fd_gateway f = set_last (and_bytes b (cidr_mask n 4)) 1 \<and>
    fd_dns f = set_last (and_bytes b (cidr_mask n 4)) 2"
  using assms parse_cidr_dotted [of b n]
  by (simp add: new_fake_dns_def fake_state_def pool_net_def pool_addr_def Let_def)

lemma fake_state_allocate_new:
  assumes b: "length b = 4" and n: "n \<le> 24" and st: "fake_state b n ds f"
    and d: "d \<notin> set ds" and room: "length ds + 3 < 2 ^ (32 - n)"
  shows "fake_state b n (ds @ [d]) (fst (fd_allocate d f))"
proof -
  let ?k = "length ds" and ?f = "fst (fd_allocate d f)"
  have nxt: "fd_next f = pool_addr b n ?k"
    using st room by (simp add: fake_state_def)
  have none: "fd_forward f d = None"
    using st d by (auto simp: fake_state_def)
  have f': "?f = f\<lparr>fd_next := fd_advance f, fd_forward := (fd_forward f)(d \<mapsto> pool_addr b n ?k),
      fd_reverse := (fd_reverse f)(ip_string (pool_addr b n ?k) \<mapsto> d)\<rparr>"
    by (simp add: fd_allocate_def none nxt)
  have other: "ip_string (pool_addr b n i) \<noteq> ip_string (pool_addr b n ?k)" if "i < ?k" for i
    using pool_addr_inj [OF b n, of i ?k] that room by auto
  have entries: "fd_forward ?f ((ds @ [d]) ! i) = Some (pool_addr b n i) \<and>
      fd_reverse ?f (ip_string (pool_addr b n i)) = Some ((ds @ [d]) ! i)" if "i < length (ds @ [d])" for i
  proof (cases "i = ?k")
    case False
    with that have i: "i < ?k" by simp
    then have "ds ! i \<noteq> d" using d by auto
    with i st other [OF i] show ?thesis by (simp add: f' fake_state_def nth_append)
  qed (simp add: f')
  have "fd_next ?f = pool_addr b n (?k + 1)" if more: "?k + 1 + 3 < 2 ^ (32 - n)"
  proof -
    have "net_contains (pool_net b n) (pool_addr b n (?k + 1))"
      using b n more val_pool_addr [OF b n more]
      by (intro pool_contains [where k = "3 + (?k + 1)"]) (simp_all add: ac_simps)
    moreover have "incr_ip (fd_next f) = pool_addr b n (?k + 1)"
      by (simp add: nxt pool_addr_def)
    ultimately show ?thesis
      using st by (simp add: f' fd_advance_def fake_state_def)
  qed
  with entries st d show ?thesis
    unfolding fake_state_def by (auto simp: f')
qed

lemma fake_state_allocate_old:
  "fake_state b n ds f \<Longrightarrow> d \<in> set ds \<Longrightarrow> fst (fd_allocate d f) = f"
  by (auto simp: fake_state_def fd_allocate_def split: option.splits)

definition allocate_all :: "string list \<Rightarrow> fake_dns \<Rightarrow> fake_dns" where
  "allocate_all ds f = fold (\<lambda>d f. fst (fd_allocate d f)) ds f"

lemma fake_state_allocate_all:
  assumes "length b = 4" "n \<le> 24"
  shows "fake_state b n ds f \<Longrightarrow> card (set ds \<union> set xs) + 3 \<le> 2 ^ (32 - n) \<Longrightarrow>
    \<exists>ds'. fake_state b n ds' (allocate_all xs f) \<and> set ds' = set ds \<union> set xs"
proof (induction xs arbitrary: ds f)
  case (Cons x xs)
  show ?case
  proof (cases "x \<in> set ds")
    case True
    with Cons fake_state_allocate_old [OF Cons.prems(1) True] show ?thesis
      by (simp add: allocate_all_def insert_absorb)
  next
    case False
    have "distinct ds" using Cons.prems(1) by (simp add: fake_state_def)
    then have "length ds < card (set ds \<union> set (x # xs))"
      using False by (intro psubset_card_mono [of _ "set ds", unfolded distinct_card [OF \<open>distinct ds\<close>]]) auto
    with Cons.prems(2) have "length ds + 3 < 2 ^ (32 - n)" by linarith
    from Cons.IH [OF fake_state_allocate_new [OF assms Cons.prems(1) False this]] Cons.prems(2)
    show ?thesis by (simp add: allocate_all_def)
  qed
qed (auto simp: allocate_all_def)

text \<open>
  A pool over a longer prefix hands out addresses that are not of its network, and one address for
  every name: the last byte of the first address is 3, whatever the network is.
\<close>

lemma small_network_pool:
  "(case new_fake_dns ''10.0.0.128/25'' of
      None \<Rightarrow> False
    | Some f \<Rightarrow>
      (case fd_allocate ''a'' f of (f1, a) \<Rightarrow>
        (case fd_allocate ''b'' f1 of (f2, b) \<Rightarrow>
          a = b \<and> \<not> fd_is_fake f2 a \<and> fd_domain f2 a = Some ''b'')))"
  by code_simp

text \<open>
 C6: fake addresses are unambiguous. In a pool over an IPv4 network \<open>b/n\<close> with \<open>n \<le> 24\<close>, after
  \<open>Allocate\<close> has been called for any names, at most as many as the network has addresses beside its
  own, the gateway's and the resolver's, every one of the names has an address, inside the network
  and different from the gateway's and the resolver's, and that address leads back to the name.
\<close>

theorem fake_dns_roundtrip:
  assumes "length b = 4" and "n \<le> 24" and "card (set ds) + 3 \<le> 2 ^ (32 - n)" and "d \<in> set ds"
    and "new_fake_dns (dotted b @ ''/'' @ itoa n) = Some f"
  shows "\<exists>a. fd_ip (allocate_all ds f) d = Some a \<and> fd_domain (allocate_all ds f) a = Some d \<and>
    fd_is_fake (allocate_all ds f) a \<and> a \<noteq> fd_gateway f \<and> a \<noteq> fd_dns f"
proof -
  have st0: "fake_state b n [] f"
    and gw: "fd_gateway f = set_last (and_bytes b (cidr_mask n 4)) 1"
    and dns: "fd_dns f = set_last (and_bytes b (cidr_mask n 4)) 2"
    using fake_state_new [OF assms(1,2)] assms(5) by auto
  obtain ds' where st: "fake_state b n ds' (allocate_all ds f)" and set: "set ds' = set ds"
    using fake_state_allocate_all [OF assms(1,2) st0, of ds] assms(3) by auto
  then obtain i where i: "i < length ds'" "ds' ! i = d"
    using assms(4) by (metis in_set_conv_nth)
  have "length ds' = card (set ds)"
    using st set by (metis fake_state_def distinct_card)
  then have room: "i + 3 < 2 ^ (32 - n)"
    using i assms(3) by linarith
  let ?a = "pool_addr b n i"
  have val: "val_be ?a = pool_start b n + (3 + i)"
    using val_pool_addr [OF assms(1,2) room] by simp
  have "net_contains (pool_net b n) ?a"
    using assms(1,2) room by (intro pool_contains [OF _ _ _ val]) simp_all
  moreover have "val_be (fd_gateway f) = pool_start b n + 1" "val_be (fd_dns f) = pool_start b n + 2"
    using assms(1) val_set_last [OF _ last_pool_base [OF assms(1,2)]]
    by (simp_all add: gw dns pool_start_def)
  then have "?a \<noteq> fd_gateway f" "?a \<noteq> fd_dns f"
    using val by auto
  ultimately show ?thesis
    using st i by (auto simp: fake_state_def fd_ip_def fd_domain_def fd_is_fake_def)
qed

section \<open>Answering queries\<close>

lemma answers_for_A:
  "q_type q = type_A \<Longrightarrow> answers_for q ips = Some (map (answer_a q) (List.map_filter to4 ips))"
  by (induction ips) (auto simp: List.map_filter_simps type_A_def type_AAAA_def split: option.splits)

text \<open>
  What the server answers to an address query. A name with a fake IPv4 address is answered
  with that address and nothing else, without asking the resolver; any other name with the
  IPv4 addresses that the caching resolver has for it, in order, after the message's own
  answers; a resolver error with the code \<open>SERVFAIL\<close> and no new answers.
\<close>

theorem process_query_A:
  assumes "unpack lib data = Some m" and "m_questions m = q # qs" and "q_type q = type_A"
    and "domain = trim_suffix (q_name q) ''.''"
  shows "process_query lib inner now srv data =
    (case (case ds_fake srv of None \<Rightarrow> None | Some f \<Rightarrow> fd_ip f domain) of
       Some a \<Rightarrow> (case to4 a of
           None \<Rightarrow> None
         | Some b \<Rightarrow> Some (srv, pack lib (m\<lparr>m_response := True, m_answers := [answer_a q b]\<rparr>)))
     | None \<Rightarrow> (case cr_resolve inner now (ds_cache srv) domain type_A of
           None \<Rightarrow> None
         | Some (c, Inl e) \<Rightarrow> Some (srv\<lparr>ds_cache := c\<rparr>, pack lib (m\<lparr>m_rcode := 2, m_response := True\<rparr>))
         | Some (c, Inr ips) \<Rightarrow> Some (srv\<lparr>ds_cache := c\<rparr>, pack lib (m\<lparr>m_response := True,
             m_answers := m_answers m @ map (answer_a q) (List.map_filter to4 ips)\<rparr>))))"
  using assms answers_for_A [OF assms(3)]
  by (auto simp: process_query_def Let_def split: option.splits sum.splits)

text \<open>
  A static entry with an IPv6 address stops the server. Once \<open>AddStatic\<close> has stored such
  an address for a lower-case name, an A query for that name panics in the handling goroutine,
  which is not recovered: the slice that \<open>To4\<close> returns is nil and cannot become an array.
\<close>

theorem static_ipv6_panics:
  assumes "parse_ip s = Some a" and "to4 a = None" and "to_lower domain = domain"
    and "ds_fake srv = Some f" and "unpack lib data = Some m"
    and "m_questions m = \<lparr>q_name = domain @ ''.'', q_type = type_A\<rparr> # qs"
  shows "process_query lib inner now (srv\<lparr>ds_fake := Some (fd_add_static domain s f)\<rparr>) data = None"
proof -
  have "fd_ip (fd_add_static domain s f) domain = Some a"
    using assms(1,3) by (simp add: fd_ip_def fd_add_static_def)
  moreover have "trim_suffix (domain @ ''.'') ''.'' = domain"
    by (simp add: trim_suffix_def has_suffix_def)
  ultimately show ?thesis
    using assms by (simp add: process_query_def Let_def)
qed


lemma read_frame: "length b < 65536 \<Longrightarrow> read_framed (frame b @ rest) = Some b"
  by (simp add: read_framed_def frame_def put_u16_def)

text \<open>
  The two transports agree. A TCP client that sends a query with its length gets, with its
  length, what a UDP client gets for the same query; it reads exactly that response back when
  it has fewer than 65536 bytes.
\<close>

theorem tcp_udp_agree:
  assumes "length data < 65536" and "handle_udp_query lib inner now srv data = Some (srv', rs)"
  shows "handle_tcp_query lib inner now srv (frame data @ rest) = Some (srv', concat (map frame rs)) \<and>
    (\<forall>r \<in> set rs. length r < 65536 \<longrightarrow> read_framed (concat (map frame rs)) = Some r)"
proof (cases "process_query lib inner now srv data")
  case (Some x)
  obtain srv'' r where x: "x = (srv'', r)" by (cases x)
  from assms Some x show ?thesis
    using read_frame [of _ "[]"]
    by (cases r) (auto simp: handle_udp_query_def handle_tcp_query_def read_frame)
qed (use assms in \<open>simp add: handle_udp_query_def\<close>)

section \<open>Examples\<close>

definition dns_demo_msg :: dns_msg where
  "dns_demo_msg = \<lparr>m_id = 7, m_response = False, m_recursion = True, m_rcode = 0,
     m_questions = [\<lparr>q_name = ''a.'', q_type = type_A\<rparr>], m_answers = []\<rparr>"

definition dns_demo_lib :: dns_lib where
  "dns_demo_lib = \<lparr>unpack = (\<lambda>d. Some dns_demo_msg),
     pack = (\<lambda>m. Some (concat (map (\<lambda>rr. case rr_body rr of BodyA b \<Rightarrow> b | _ \<Rightarrow> []) (m_answers m))))\<rparr>"

definition dns_demo_fake :: fake_dns where
  "dns_demo_fake = \<lparr>fd_forward = Map.empty, fd_reverse = Map.empty, fd_next = [10, 0, 0, 3],
     fd_network = pool_net [10, 0, 0, 0] 24, fd_gateway = [10, 0, 0, 1], fd_dns = [10, 0, 0, 2]\<rparr>"

definition dns_demo_server :: dns_server where
  "dns_demo_server = \<lparr>ds_mode = [], ds_doh = [], ds_dot = [], ds_cache = new_cache 10, ds_fake = Some dns_demo_fake\<rparr>"

definition dns_demo_inner :: inner_resolver where
  "dns_demo_inner d q = Some (Inr [[1, 2, 3, 4], replicate 16 9, [5, 6, 7, 8]])"

theorem fake_dns_roundtrip_witness:
  "\<exists>f a. new_fake_dns (dotted [10, 0, 0, 0] @ ''/'' @ itoa 24) = Some f \<and>
    fd_ip (allocate_all [''a'', ''b''] f) ''b'' = Some a \<and>
    fd_domain (allocate_all [''a'', ''b''] f) a = Some ''b'' \<and>
    fd_is_fake (allocate_all [''a'', ''b''] f) a \<and> a \<noteq> fd_gateway f \<and> a \<noteq> fd_dns f"
proof -
  obtain f where "new_fake_dns (dotted [10, 0, 0, 0] @ ''/'' @ itoa 24) = Some f"
    using fake_state_new [of "[10, 0, 0, 0]" 24] by auto
  then show ?thesis
    using fake_dns_roundtrip [of "[10, 0, 0, 0]" 24 "[''a'', ''b'']" "''b''" f] by auto
qed

lemma dns_demo_name: "trim_suffix ''a.'' ''.'' = ''a''"
  by code_simp

theorem process_query_A_witness:
  "\<exists>c. process_query dns_demo_lib dns_demo_inner 0 dns_demo_server [] =
    Some (dns_demo_server\<lparr>ds_cache := c\<rparr>, Some [1, 2, 3, 4, 5, 6, 7, 8])"
proof -
  have "List.map_filter to4 [[1, 2, 3, 4], replicate 16 9, [5, 6, 7, 8]] = [[1, 2, 3, 4], [5, 6, 7, 8]]"
    by code_simp
  then show ?thesis
    using process_query_A [of dns_demo_lib "[]" dns_demo_msg "\<lparr>q_name = ''a.'', q_type = type_A\<rparr>" "[]"
        "''a''" dns_demo_inner 0 dns_demo_server] dns_demo_name
    by (simp add: dns_demo_lib_def dns_demo_msg_def dns_demo_server_def dns_demo_fake_def fd_ip_def cr_resolve_def
        dns_demo_inner_def cache_get_def new_cache_def answer_a_def)
qed

theorem static_ipv6_panics_witness:
  "process_query dns_demo_lib dns_demo_inner 0 (dns_demo_server\<lparr>ds_fake := Some (fd_add_static ''a'' ''::1'' dns_demo_fake)\<rparr>) [] = None"
proof -
  have "parse_ip ''::1'' = Some ipv6_loopback" "to4 ipv6_loopback = None"
    by code_simp+
  moreover have "to_lower ''a'' = ''a''"
    by code_simp
  ultimately show ?thesis
    using static_ipv6_panics [of "''::1''" ipv6_loopback "''a''" dns_demo_server dns_demo_fake dns_demo_lib "[]" dns_demo_msg "[]"]
    by (simp add: dns_demo_server_def dns_demo_lib_def dns_demo_msg_def)
qed

theorem tcp_udp_agree_witness:
  "\<exists>srv' rs. handle_udp_query dns_demo_lib dns_demo_inner 0 dns_demo_server [7] = Some (srv', rs) \<and>
    handle_tcp_query dns_demo_lib dns_demo_inner 0 dns_demo_server (frame [7] @ [1]) = Some (srv', concat (map frame rs))"
proof -
  have "process_query dns_demo_lib dns_demo_inner 0 dns_demo_server [7] \<noteq> None"
    by (simp add: process_query_def dns_demo_lib_def dns_demo_msg_def dns_demo_server_def dns_demo_fake_def fd_ip_def
        cr_resolve_def dns_demo_inner_def cache_get_def new_cache_def answers_for_A Let_def)
  then obtain s r where "process_query dns_demo_lib dns_demo_inner 0 dns_demo_server [7] = Some (s, r)"
    by auto
  then obtain srv' rs where "handle_udp_query dns_demo_lib dns_demo_inner 0 dns_demo_server [7] = Some (srv', rs)"
    by (cases r) (auto simp: handle_udp_query_def)
  then show ?thesis
    using tcp_udp_agree [of "[7]" dns_demo_lib dns_demo_inner 0 dns_demo_server srv' rs "[1]"] by auto
qed

end
