(* ===== verification/Config.thy ===== *)
theory Config
  imports Mitm Dns
begin

text \<open>
  The configuration file (\<open>config/config.go\<close>): its structure, the defaults that \<open>Load\<close> and
  \<open>LoadFromBytes\<close> fill in, \<open>Validate\<close>, and the overlay of additions made at run time.

  The YAML decoder is not part of the sources: it is a function from the text and the value it
  decodes into to an error or the decoded value.
\<close>

section \<open>The structure of the file\<close>

record n2n_config =
  nc_enable :: bool
  nc_mode :: string
  nc_listen :: string
  nc_supernode :: string
  nc_community :: string
  nc_password :: string
  nc_virtual_ip :: string
  nc_virtual_cidr :: string
  nc_mtu :: int
  nc_interval :: int

record stunvpn_config =
  sc_enable :: bool
  sc_mode :: string
  sc_listen :: string
  sc_turn_server :: string
  sc_realm :: string
  sc_username :: string
  sc_password :: string
  sc_virtual_cidr :: string
  sc_mtu :: int

record wireguard_config =
  wg_enable :: bool
  wg_private :: string
  wg_public :: string
  wg_preshared :: string
  wg_listen :: string
  wg_peer_addr :: string
  wg_virtual_ip :: string
  wg_keepalive :: int
  wg_handshake :: int

record listen_config =
  lc_http :: int
  lc_socks5 :: int
  lc_tproxy :: int
  lc_tproxy_mark :: int
  lc_tproxy_table :: int

record group_config =
  gc_name :: string
  gc_type :: string
  gc_proxies :: "string list"
  gc_url :: string
  gc_interval :: int
  gc_default :: string

record tun_config =
  tc_enable :: bool
  tc_device :: string
  tc_mtu :: int
  tc_gateway :: string
  tc_cidr :: string
  tc_dns :: string

text \<open>The section \<open>dns\<close> has two more fields than the configuration of the DNS server.\<close>

record dns_section = dns_config +
  dc_enable :: bool
  dc_listen :: string

record web_config =
  wc_enable :: bool
  wc_port :: int
  wc_username :: string
  wc_password :: string

record mitm_config =
  mc_enable :: bool
  mc_ca_path :: string
  mc_cert_dir :: string
  mc_http_port :: int
  mc_allow :: "string list"
  mc_skip :: "string list"
  mc_verify :: bool
  mc_rewrite :: "rewrite_rule list"
  mc_log_path :: string
  mc_actions :: "url_action list"
  mc_client_crt :: string
  mc_client_key :: string

record upstream_config =
  uc_url :: string
  uc_timeout :: int
  uc_client_crt :: string
  uc_client_key :: string

record flow_config =
  fc_enable :: bool
  fc_log_path :: string
  fc_db_path :: string
  fc_max_flows :: int

record agent_config =
  ac_enable :: bool
  ac_base_url :: string
  ac_api_key :: string
  ac_model :: string
  ac_system_prompt :: string
  ac_timeout :: int
  ac_max_retries :: int

record config =
  cf_listen :: listen_config
  cf_mode :: string
  cf_proxies :: "config_proxy list"
  cf_groups :: "group_config list"
  cf_rules :: "string list"
  cf_tun :: tun_config
  cf_dns :: dns_section
  cf_web :: web_config
  cf_mitm :: mitm_config
  cf_flow :: flow_config
  cf_upstream :: upstream_config
  cf_n2n :: n2n_config
  cf_stunvpn :: stunvpn_config
  cf_wireguard :: wireguard_config
  cf_agent :: agent_config

definition zero_config :: config where
  "zero_config = \<lparr>
     cf_listen = \<lparr>lc_http = 0, lc_socks5 = 0, lc_tproxy = 0, lc_tproxy_mark = 0, lc_tproxy_table = 0\<rparr>,
     cf_mode = [], cf_proxies = [], cf_groups = [], cf_rules = [],
     cf_tun = \<lparr>tc_enable = False, tc_device = [], tc_mtu = 0, tc_gateway = [], tc_cidr = [], tc_dns = []\<rparr>,
     cf_dns = \<lparr>dc_mode = [], dc_doh_server = [], dc_dot_server = [], dc_fake_cidr = [],
       dc_enable = False, dc_listen = []\<rparr>,
     cf_web = \<lparr>wc_enable = False, wc_port = 0, wc_username = [], wc_password = []\<rparr>,
     cf_mitm = \<lparr>mc_enable = False, mc_ca_path = [], mc_cert_dir = [], mc_http_port = 0, mc_allow = [],
       mc_skip = [], mc_verify = False, mc_rewrite = [], mc_log_path = [], mc_actions = [],
       mc_client_crt = [], mc_client_key = []\<rparr>,
     cf_flow = \<lparr>fc_enable = False, fc_log_path = [], fc_db_path = [], fc_max_flows = 0\<rparr>,
     cf_upstream = \<lparr>uc_url = [], uc_timeout = 0, uc_client_crt = [], uc_client_key = []\<rparr>,
     cf_n2n = \<lparr>nc_enable = False, nc_mode = [], nc_listen = [], nc_supernode = [], nc_community = [],
       nc_password = [], nc_virtual_ip = [], nc_virtual_cidr = [], nc_mtu = 0, nc_interval = 0\<rparr>,
     cf_stunvpn = \<lparr>sc_enable = False, sc_mode = [], sc_listen = [], sc_turn_server = [], sc_realm = [],
       sc_username = [], sc_password = [], sc_virtual_cidr = [], sc_mtu = 0\<rparr>,
     cf_wireguard = \<lparr>wg_enable = False, wg_private = [], wg_public = [], wg_preshared = [],
       wg_listen = [], wg_peer_addr = [], wg_virtual_ip = [], wg_keepalive = 0, wg_handshake = 0\<rparr>,
     cf_agent = \<lparr>ac_enable = False, ac_base_url = [], ac_api_key = [], ac_model = [],
       ac_system_prompt = [], ac_timeout = 0, ac_max_retries = 0\<rparr>\<rparr>"

section \<open>Defaults\<close>

definition or_int :: "int \<Rightarrow> int \<Rightarrow> int" where
  "or_int v d = (if v = 0 then d else v)"

definition or_str :: "string \<Rightarrow> string \<Rightarrow> string" where
  "or_str v d = (if v = [] then d else v)"

definition listen_defaults :: "listen_config \<Rightarrow> listen_config" where
  "listen_defaults l = l\<lparr>lc_http := or_int (lc_http l) 7890, lc_socks5 := or_int (lc_socks5 l) 7891,
     lc_tproxy_mark := or_int (lc_tproxy_mark l) 1, lc_tproxy_table := or_int (lc_tproxy_table l) 100\<rparr>"

definition mode_default :: "string \<Rightarrow> string" where
  "mode_default m = to_lower (or_str m ''rule'')"

definition tun_defaults :: "tun_config \<Rightarrow> tun_config" where
  "tun_defaults t = t\<lparr>tc_mtu := or_int (tc_mtu t) 1500, tc_gateway := or_str (tc_gateway t) ''198.18.0.1'',
     tc_cidr := or_str (tc_cidr t) ''198.18.0.0/16'', tc_dns := or_str (tc_dns t) ''198.18.0.2'',
     tc_device := or_str (tc_device t) ''net-redirect''\<rparr>"

definition dns_defaults :: "dns_section \<Rightarrow> dns_section" where
  "dns_defaults d = d\<lparr>dc_listen := or_str (dc_listen d) '':53'', dc_mode := or_str (dc_mode d) ''direct'',
     dc_fake_cidr := or_str (dc_fake_cidr d) ''198.18.0.0/15''\<rparr>"

text \<open>\<open>Load\<close> fills \<open>CAPath\<close> in twice, with different values: before the mode, and with the
  other fields of its section.\<close>

definition ca_default :: "mitm_config \<Rightarrow> mitm_config" where
  "ca_default m = m\<lparr>mc_ca_path := or_str (mc_ca_path m) ''ca''\<rparr>"

definition mitm_defaults :: "mitm_config \<Rightarrow> mitm_config" where
  "mitm_defaults m = m\<lparr>mc_http_port := or_int (mc_http_port m) 8081,
     mc_ca_path := or_str (mc_ca_path m) ''ca.crt'', mc_cert_dir := or_str (mc_cert_dir m) ''certs''\<rparr>"

definition n2n_defaults :: "n2n_config \<Rightarrow> n2n_config" where
  "n2n_defaults n = n\<lparr>nc_listen := or_str (nc_listen n) '':7654'',
     nc_community := or_str (nc_community n) ''net-redirect'',
     nc_virtual_cidr := or_str (nc_virtual_cidr n) ''10.200.0.0/16'',
     nc_mtu := or_int (nc_mtu n) 1400, nc_interval := or_int (nc_interval n) 30\<rparr>"

definition stunvpn_defaults :: "stunvpn_config \<Rightarrow> stunvpn_config" where
  "stunvpn_defaults s = s\<lparr>sc_listen := or_str (sc_listen s) '':3478'',
     sc_realm := or_str (sc_realm s) ''net-redirect'',
     sc_virtual_cidr := or_str (sc_virtual_cidr s) ''10.201.0.0/16'', sc_mtu := or_int (sc_mtu s) 1400\<rparr>"

text \<open>The part of the section \<open>agent\<close> that \<open>LoadFromBytes\<close> fills in too, and the rest; \<open>env\<close>
  is the variable \<open>AGENT_API_KEY\<close>.\<close>

definition agent_basics :: "agent_config \<Rightarrow> agent_config" where
  "agent_basics a = a\<lparr>ac_base_url := or_str (ac_base_url a) ''https://api.openai.com/v1'',
     ac_model := or_str (ac_model a) ''gpt-4o-mini''\<rparr>"

definition agent_defaults :: "string \<Rightarrow> agent_config \<Rightarrow> agent_config" where
  "agent_defaults env a = a\<lparr>ac_timeout := or_int (ac_timeout a) 120,
     ac_max_retries := or_int (ac_max_retries a) 3, ac_api_key := or_str (ac_api_key a) env\<rparr>"

definition wireguard_defaults :: "wireguard_config \<Rightarrow> wireguard_config" where
  "wireguard_defaults g = g\<lparr>wg_listen := or_str (wg_listen g) '':51820'',
     wg_keepalive := or_int (wg_keepalive g) 25, wg_handshake := or_int (wg_handshake g) 25,
     wg_virtual_ip := or_str (wg_virtual_ip g) ''10.0.0.2''\<rparr>"

text \<open>\<open>LoadFromBytes\<close> behind its decoder.\<close>

definition basic_defaults :: "config \<Rightarrow> config" where
  "basic_defaults c = c\<lparr>cf_listen := listen_defaults (cf_listen c), cf_mitm := ca_default (cf_mitm c),
     cf_mode := mode_default (cf_mode c), cf_agent := agent_basics (cf_agent c)\<rparr>"

text \<open>\<open>Load\<close> behind its decoder.\<close>

definition apply_defaults :: "string \<Rightarrow> config \<Rightarrow> config" where
  "apply_defaults env c = c\<lparr>cf_listen := listen_defaults (cf_listen c),
     cf_mode := mode_default (cf_mode c), cf_tun := tun_defaults (cf_tun c),
     cf_dns := dns_defaults (cf_dns c), cf_web := (cf_web c)\<lparr>wc_port := or_int (wc_port (cf_web c)) 9090\<rparr>,
     cf_mitm := mitm_defaults (ca_default (cf_mitm c)), cf_n2n := n2n_defaults (cf_n2n c),
     cf_stunvpn := stunvpn_defaults (cf_stunvpn c),
     cf_agent := agent_defaults env (agent_basics (cf_agent c)),
     cf_wireguard := wireguard_defaults (cf_wireguard c)\<rparr>"

datatype config_err =
    ReadError string
  | DecodeError string
  | NilConfig
  | BadMode string
  | BadPort string int
  | EmptyProxyName nat
  | DuplicateProxy string
  | UnknownType nat string
  | BadProxyPort nat int
  | EmptyGroupName nat
  | DuplicateGroup string
  | UnknownGroup nat string
  | BadDefault nat string
  | UnknownMember nat string
  | UnknownTarget nat string
  | BadTunCidr string
  | BadFakeCidr string

type_synonym decoder = "string \<Rightarrow> config \<Rightarrow> string + config"

definition first_config :: config where
  "first_config = zero_config\<lparr>cf_mode := ''rule''\<rparr>"

definition load :: "decoder \<Rightarrow> string \<Rightarrow> (string + string) \<Rightarrow> config_err + config" where
  "load dec env file = (case file of
       Inl e \<Rightarrow> Inl (ReadError e)
     | Inr data \<Rightarrow> (case dec data first_config of
         Inl e \<Rightarrow> Inl (DecodeError e) | Inr c \<Rightarrow> Inr (apply_defaults env c)))"

definition load_from_bytes :: "decoder \<Rightarrow> string \<Rightarrow> config_err + config" where
  "load_from_bytes dec data = (case dec data first_config of
       Inl e \<Rightarrow> Inl (DecodeError e) | Inr c \<Rightarrow> Inr (basic_defaults c))"

section \<open>Validation\<close>

definition allowed_proxy_types :: "string list" where
  "allowed_proxy_types = [''direct'', ''http'', ''https'', ''socks5'', ''ss'', ''shadowsocks'', ''trojan'',
     ''vmess'', ''vless'', ''forward'', ''http3'']"

definition allowed_group_types :: "string list" where
  "allowed_group_types = [''selector'', ''urltest'', ''url-test'', ''roundrobin'', ''round-robin'',
     ''chain'', ''failover'', ''load-balance'', ''loadbalance'']"

definition port_errors :: "(string \<times> int) list \<Rightarrow> config_err list" where
  "port_errors ps = map (\<lambda>(nm, p). BadPort nm p) (filter (\<lambda>(nm, p). p < 0 \<or> 65535 < p) ps)"

text \<open>One entry of the list of proxies and of groups, at its index; \<open>seen\<close> are the names in front of it.\<close>

definition proxy_errors :: "nat \<Rightarrow> string set \<Rightarrow> config_proxy \<Rightarrow> config_err list" where
  "proxy_errors i seen p =
     (if pc_name p = [] then [EmptyProxyName i] else if pc_name p \<in> seen then [DuplicateProxy (pc_name p)] else []) @
     (if pc_type p \<noteq> [] \<and> to_lower (pc_type p) \<notin> set allowed_proxy_types then [UnknownType i (pc_type p)] else []) @
     (if pc_port p < 0 \<or> 65535 < pc_port p then [BadProxyPort i (pc_port p)] else [])"

fun all_proxy_errors :: "nat \<Rightarrow> string set \<Rightarrow> config_proxy list \<Rightarrow> config_err list" where
  "all_proxy_errors i seen [] = []"
| "all_proxy_errors i seen (p # ps) =
     proxy_errors i seen p @ all_proxy_errors (i + 1) (insert (pc_name p) seen) ps"

definition group_errors :: "nat \<Rightarrow> string set \<Rightarrow> string set \<Rightarrow> group_config \<Rightarrow> config_err list" where
  "group_errors i seen known g =
     (if gc_name g = [] then [EmptyGroupName i] else if gc_name g \<in> seen then [DuplicateGroup (gc_name g)] else []) @
     (if gc_type g \<noteq> [] \<and> to_lower (gc_type g) \<notin> set allowed_group_types then [UnknownGroup i (gc_type g)] else []) @
     (if gc_default g \<noteq> [] \<and> gc_default g \<notin> known then [BadDefault i (gc_default g)] else []) @
     map (UnknownMember i) (filter (\<lambda>m. m \<noteq> ''DIRECT'' \<and> m \<notin> known) (gc_proxies g))"

fun all_group_errors :: "nat \<Rightarrow> string set \<Rightarrow> string set \<Rightarrow> group_config list \<Rightarrow> config_err list" where
  "all_group_errors i seen known [] = []"
| "all_group_errors i seen known (g # gs) =
     group_errors i seen known g @ all_group_errors (i + 1) (insert (gc_name g) seen) known gs"

text \<open>The comment of this part of \<open>Validate\<close> calls its findings warnings; they are errors.\<close>

definition rule_errors :: "nat \<Rightarrow> string set \<Rightarrow> string \<Rightarrow> config_err list" where
  "rule_errors i groups rl = (let parts = split_all CHR '','' rl in
     if length parts < 3 then []
     else let target = List.last parts in
       if target \<in> {''DIRECT'', ''REJECT'', ''PROXY''} \<or> target \<in> groups then []
       else [UnknownTarget i target])"

definition all_rule_errors :: "string set \<Rightarrow> string list \<Rightarrow> config_err list" where
  "all_rule_errors groups rls = concat (map (\<lambda>i. rule_errors i groups (rls ! i)) [0..<length rls])"

definition cidr_errors :: "(string \<Rightarrow> config_err) \<Rightarrow> string \<Rightarrow> config_err list" where
  "cidr_errors mk s = (if s \<noteq> [] \<and> parse_cidr s = None then [mk s] else [])"

text \<open>\<open>cfg.Validate\<close>; None is the nil pointer.\<close>

definition validate :: "config option \<Rightarrow> config_err list" where
  "validate co = (case co of None \<Rightarrow> [NilConfig] | Some c \<Rightarrow>
     (if cf_mode c \<in> {''global'', ''rule'', ''direct''} then [] else [BadMode (cf_mode c)]) @
     port_errors [(''listen.http'', lc_http (cf_listen c)), (''listen.socks5'', lc_socks5 (cf_listen c)),
       (''web.port'', wc_port (cf_web c)), (''mitm.http-port'', mc_http_port (cf_mitm c))] @
     all_proxy_errors 0 {} (cf_proxies c) @
     all_group_errors 0 {} (set (map pc_name (cf_proxies c))) (cf_groups c) @
     all_rule_errors (set (map gc_name (cf_groups c))) (cf_rules c) @
     cidr_errors BadTunCidr (tc_cidr (cf_tun c)) @ cidr_errors BadFakeCidr (dc_fake_cidr (cf_dns c)))"

definition validate_file :: "decoder \<Rightarrow> string \<Rightarrow> (string + string) \<Rightarrow> config_err list" where
  "validate_file dec env file = (case load dec env file of Inl e \<Rightarrow> [e] | Inr c \<Rightarrow> validate (Some c))"

section \<open>Additions at run time\<close>

record dynamic_spec =
  dy_proxies :: "config_proxy list"
  dy_rules :: "string list"

text \<open>The loop over the proxies of the overlay, and what \<open>MergeDynamic\<close> makes of a decoded overlay.\<close>

fun new_entries :: "string set \<Rightarrow> config_proxy list \<Rightarrow> config_proxy list" where
  "new_entries seen [] = []"
| "new_entries seen (p # ps) =
     (if pc_name p = [] \<or> pc_name p \<in> seen then new_entries seen ps
      else p # new_entries (insert (pc_name p) seen) ps)"

definition merge_spec :: "dynamic_spec \<Rightarrow> config \<Rightarrow> config" where
  "merge_spec s c = c\<lparr>cf_proxies := cf_proxies c @ new_entries (set (map pc_name (cf_proxies c))) (dy_proxies s),
     cf_rules := cf_rules c @ filter (\<lambda>r. r \<noteq> []) (dy_rules s)\<rparr>"

text \<open>
  The decoder is given the overlay by value: whatever it does, the caller's overlay stays
  empty. It can succeed, fail, or panic, since it cannot set the fields of a value.
\<close>

datatype by_value = ByValueOk | ByValueError string | ByValuePanic

datatype overlay_file = NoFile | Unreadable string | Contents string

definition merge_dynamic ::
  "(string \<Rightarrow> by_value) \<Rightarrow> string \<Rightarrow> overlay_file \<Rightarrow> config \<Rightarrow> (string + config) option" where
  "merge_dynamic dec path file c =
     (if path = [] then Some (Inr c)
      else case file of
        NoFile \<Rightarrow> Some (Inr c)
      | Unreadable e \<Rightarrow> Some (Inl e)
      | Contents b \<Rightarrow> (case dec b of
          ByValuePanic \<Rightarrow> None
        | ByValueError e \<Rightarrow> Some (Inl e)
        | ByValueOk \<Rightarrow> Some (Inr (merge_spec \<lparr>dy_proxies = [], dy_rules = []\<rparr> c))))"

section \<open>Defaults are settled by one pass\<close>

lemma or_int_idem [simp]: "or_int (or_int v d) e = (if v = 0 \<and> d = 0 then e else or_int v d)"
  by (simp add: or_int_def)

lemma or_str_idem [simp]: "or_str (or_str v d) e = (if v = [] \<and> d = [] then e else or_str v d)"
  by (simp add: or_str_def)

lemma or_str_nil [simp]: "or_str [] d = d"
  by (simp add: or_str_def)

lemma mode_default_idem [simp]: "mode_default (mode_default m) = mode_default m"
  by (simp add: mode_default_def or_str_def)

lemmas default_defs = listen_defaults_def tun_defaults_def dns_defaults_def ca_default_def
  mitm_defaults_def n2n_defaults_def stunvpn_defaults_def agent_basics_def agent_defaults_def
  wireguard_defaults_def

lemma section_defaults_idem [simp]:
  "listen_defaults (listen_defaults l) = listen_defaults l"
  "tun_defaults (tun_defaults t) = tun_defaults t"
  "dns_defaults (dns_defaults d) = dns_defaults d"
  "ca_default (ca_default m) = ca_default m"
  "mitm_defaults (ca_default (mitm_defaults (ca_default m))) = mitm_defaults (ca_default m)"
  "n2n_defaults (n2n_defaults n) = n2n_defaults n"
  "stunvpn_defaults (stunvpn_defaults s) = stunvpn_defaults s"
  "agent_basics (agent_basics a) = agent_basics a"
  "agent_defaults env (agent_basics (agent_defaults env (agent_basics a))) = agent_defaults env (agent_basics a)"
  "wireguard_defaults (wireguard_defaults g) = wireguard_defaults g"
  by (simp_all add: default_defs)

text \<open>
  Filling in the defaults is settled by one pass: a configuration that \<open>Load\<close> has completed,
  written out and loaded again, is the same; and the few defaults of \<open>LoadFromBytes\<close>, with
  which the agent checks a candidate text, never disagree with those of \<open>Load\<close>. The path of
  the certificate authority is \<open>ca\<close> when it is not configured: the second default for it,
  \<open>ca.crt\<close>, is never used.
\<close>

theorem defaults_settle:
  "apply_defaults env (apply_defaults env c) = apply_defaults env c \<and>
   apply_defaults env (basic_defaults c) = apply_defaults env c \<and>
   mc_ca_path (cf_mitm (apply_defaults env c)) = or_str (mc_ca_path (cf_mitm c)) ''ca''"
  by (simp add: apply_defaults_def basic_defaults_def) (simp add: mitm_defaults_def ca_default_def)

section \<open>What validation accepts\<close>

text \<open>The declarative reading of an accepted configuration.\<close>

definition proxies_ok :: "config_proxy list \<Rightarrow> bool" where
  "proxies_ok ps \<longleftrightarrow> distinct (map pc_name ps) \<and>
     (\<forall>p \<in> set ps. pc_name p \<noteq> [] \<and> 0 \<le> pc_port p \<and> pc_port p \<le> 65535 \<and>
        (pc_type p = [] \<or> to_lower (pc_type p) \<in> set allowed_proxy_types))"

definition groups_ok :: "string set \<Rightarrow> group_config list \<Rightarrow> bool" where
  "groups_ok known gs \<longleftrightarrow> distinct (map gc_name gs) \<and>
     (\<forall>g \<in> set gs. gc_name g \<noteq> [] \<and> (gc_default g = [] \<or> gc_default g \<in> known) \<and>
        set (gc_proxies g) \<subseteq> insert ''DIRECT'' known \<and>
        (gc_type g = [] \<or> to_lower (gc_type g) \<in> set allowed_group_types))"

definition rule_ok :: "string set \<Rightarrow> string \<Rightarrow> bool" where
  "rule_ok groups rl \<longleftrightarrow> length (split_all CHR '','' rl) < 3 \<or>
     List.last (split_all CHR '','' rl) \<in> {''DIRECT'', ''REJECT'', ''PROXY''} \<union> groups"

lemma all_proxy_errors_none:
  "all_proxy_errors i seen ps = [] \<longleftrightarrow> proxies_ok ps \<and> set (map pc_name ps) \<inter> seen = {}"
  by (induction ps arbitrary: i seen) (auto simp: proxies_ok_def proxy_errors_def)

lemma all_group_errors_none:
  "all_group_errors i seen known gs = [] \<longleftrightarrow> groups_ok known gs \<and> set (map gc_name gs) \<inter> seen = {}"
  by (induction gs arbitrary: i seen) (auto simp: groups_ok_def group_errors_def filter_empty_conv)

lemma rule_errors_none: "rule_errors i groups rl = [] \<longleftrightarrow> rule_ok groups rl"
  by (auto simp: rule_errors_def rule_ok_def Let_def)

lemma all_rule_errors_none:
  "all_rule_errors groups rls = [] \<longleftrightarrow> (\<forall>rl \<in> set rls. rule_ok groups rl)"
  by (auto simp: all_rule_errors_def rule_errors_none all_set_conv_all_nth)

lemma port_errors_none: "port_errors ps = [] \<longleftrightarrow> (\<forall>(nm, p) \<in> set ps. 0 \<le> p \<and> p \<le> 65535)"
  by (auto simp: port_errors_def filter_empty_conv)

lemma cidr_errors_none: "cidr_errors mk s = [] \<longleftrightarrow> s = [] \<or> parse_cidr s \<noteq> None"
  by (auto simp: cidr_errors_def)

text \<open>
  \<open>Validate\<close> finds no problem exactly when the mode is known, the ports are ports, the names
  of the proxies are non-empty and different and so are those of the groups, the types are
  known (or left out), the members and defaults of the groups are proxies, the targets of the
  rules are groups, \<open>DIRECT\<close>, \<open>REJECT\<close> or \<open>PROXY\<close>, and the networks can be parsed.
\<close>

theorem validate_accepts:
  "validate (Some c) = [] \<longleftrightarrow>
     cf_mode c \<in> {''global'', ''rule'', ''direct''} \<and>
     {lc_http (cf_listen c), lc_socks5 (cf_listen c), wc_port (cf_web c), mc_http_port (cf_mitm c)} \<subseteq> {0..65535} \<and>
     proxies_ok (cf_proxies c) \<and> groups_ok (set (map pc_name (cf_proxies c))) (cf_groups c) \<and>
     (\<forall>rl \<in> set (cf_rules c). rule_ok (set (map gc_name (cf_groups c))) rl) \<and>
     (tc_cidr (cf_tun c) = [] \<or> parse_cidr (tc_cidr (cf_tun c)) \<noteq> None) \<and>
     (dc_fake_cidr (cf_dns c) = [] \<or> parse_cidr (dc_fake_cidr (cf_dns c)) \<noteq> None)"
  by (simp add: validate_def all_proxy_errors_none all_group_errors_none all_rule_errors_none
      port_errors_none cidr_errors_none)

lemma validate_rules:
  "validate (Some c) = [] \<Longrightarrow> rl \<in> set (cf_rules c) \<Longrightarrow> rule_ok (set (map gc_name (cf_groups c))) rl"
  by (simp add: validate_def all_rule_errors_none)

section \<open>The overlay\<close>

lemma new_entries_names:
  "pc_name ` set (new_entries seen ps) \<inter> seen = {} \<and> distinct (map pc_name (new_entries seen ps))"
proof (induction ps arbitrary: seen)
  case (Cons p ps)
  show ?case
    using Cons.IH [of seen] Cons.IH [of "insert (pc_name p) seen"] by auto
qed simp

text \<open>Merging an overlay would keep the names of the proxies different, and the base first.\<close>

lemma merge_spec_distinct:
  "distinct (map pc_name (cf_proxies c)) \<Longrightarrow> distinct (map pc_name (cf_proxies (merge_spec s c)))"
  using new_entries_names [of "set (map pc_name (cf_proxies c))" "dy_proxies s"]
  by (simp add: merge_spec_def Int_commute)

lemma merge_empty: "merge_spec \<lparr>dy_proxies = [], dy_rules = []\<rparr> c = c"
  by (simp add: merge_spec_def)

text \<open>
  The overlay of additions made at run time never takes effect: whatever the file contains,
  \<open>MergeDynamic\<close> returns the configuration it was given, or an error, or panics.
\<close>

lemma overlay_ignored: "merge_dynamic dec path file c = Some (Inr c') \<Longrightarrow> c' = c"
  by (auto simp: merge_dynamic_def merge_empty split: if_splits overlay_file.splits by_value.splits)

section \<open>Witnesses\<close>

theorem validate_accepts_witness: "validate (Some (apply_defaults [] first_config)) = []"
proof -
  have "parse_cidr ''198.18.0.0/16'' \<noteq> None" "parse_cidr ''198.18.0.0/15'' \<noteq> None" "to_lower ''rule'' = ''rule''"
    by code_simp+
  then show ?thesis
    unfolding validate_accepts
    by (simp add: apply_defaults_def first_config_def zero_config_def default_defs or_int_def or_str_def
        mode_default_def proxies_ok_def groups_ok_def)
qed

end
