(* ===== verification/Flow.thy ===== *)
theory Flow
  imports Go_Io Go_Encoding
begin

text \<open>
  The record of one request (\<open>listener/flow.go\<close>): its identity, the readers of its headers,
  the hooks that may stop it, its error and duration, and the byte counters of its connection.
  Times are numbers; a hook may change the flow it is given.
\<close>

section \<open>The flow\<close>

record flow =
  fl_id :: string
  fl_time :: nat
  fl_protocol :: string
  fl_target :: string
  fl_host :: string
  fl_method :: string
  fl_path :: string
  fl_full_url :: string
  fl_client :: string
  fl_proxy :: string
  fl_status :: int
  fl_resp_proto :: string
  fl_error :: string
  fl_duration :: nat
  fl_req_bytes :: "64 word"
  fl_resp_bytes :: "64 word"
  fl_intercepted :: bool
  fl_req_proto :: string
  fl_req_body :: bytes
  fl_resp_body :: bytes
  fl_req_headers :: "string list"
  fl_resp_headers :: "string list"

text \<open>\<open>nextFlowID\<close> on the counter before the call: the identity and the counter after it.\<close>

definition be_bytes :: "64 word \<Rightarrow> bytes" where
  "be_bytes n = map (\<lambda>i. ucast (drop_bit (56 - i * 8) n)) [0..<8]"

definition next_flow_id :: "64 word \<Rightarrow> string \<times> 64 word" where
  "next_flow_id n = (hex_string (be_bytes (n + 1)), n + 1)"

definition new_flow ::
  "64 word \<Rightarrow> nat \<Rightarrow> string \<Rightarrow> string \<Rightarrow> string \<Rightarrow> flow \<times> 64 word" where
  "new_flow counter now protocol target client =
     (let (i, c) = next_flow_id counter in
      (\<lparr>fl_id = i, fl_time = now, fl_protocol = protocol, fl_target = target, fl_host = [],
        fl_method = [], fl_path = [], fl_full_url = [], fl_client = client, fl_proxy = [],
        fl_status = 0, fl_resp_proto = [], fl_error = [], fl_duration = 0, fl_req_bytes = 0,
        fl_resp_bytes = 0, fl_intercepted = False, fl_req_proto = [], fl_req_body = [],
        fl_resp_body = [], fl_req_headers = [], fl_resp_headers = []\<rparr>, c))"

definition mark_error :: "nat \<Rightarrow> string \<Rightarrow> flow \<Rightarrow> flow" where
  "mark_error now err f =
     (let f1 = (if fl_error f = [] then f\<lparr>fl_error := err\<rparr> else f)
      in if fl_duration f1 = 0 then f1\<lparr>fl_duration := now - fl_time f1\<rparr> else f1)"

definition finalize :: "nat \<Rightarrow> flow \<Rightarrow> flow" where
  "finalize now f = (if fl_duration f = 0 then f\<lparr>fl_duration := now - fl_time f\<rparr> else f)"

text \<open>\<open>HashForID\<close>; SHA-1 is the argument.\<close>

definition hash_for_id :: "(bytes \<Rightarrow> bytes) \<Rightarrow> string list \<Rightarrow> string option" where
  "hash_for_id sha1 parts =
     slice (hex_string (sha1 (concat (map (\<lambda>p. bytes_of_string p @ bytes_of_string ''|'') parts)))) 0 12"

section \<open>Headers\<close>

text \<open>The value of the first header of a name; the empty string without one.\<close>

fun header_value :: "string \<Rightarrow> string list \<Rightarrow> string" where
  "header_value target [] = []"
| "header_value target (h # hs) =
     (case index_byte h CHR '':'' of
        None \<Rightarrow> header_value target hs
      | Some i \<Rightarrow> (if 0 < i \<and> to_lower (trim_space (take i h)) = target
                  then trim_space (drop (i + 1) h) else header_value target hs))"

definition flow_cookie :: "flow option \<Rightarrow> string \<Rightarrow> string" where
  "flow_cookie fo nm = (case fo of None \<Rightarrow> [] | Some f \<Rightarrow> header_value (to_lower nm) (fl_req_headers f))"

definition response_cookie :: "flow option \<Rightarrow> string \<Rightarrow> string" where
  "response_cookie fo nm = (case fo of None \<Rightarrow> [] | Some f \<Rightarrow> header_value (to_lower nm) (fl_resp_headers f))"

definition cookie_pair :: "string \<Rightarrow> (string \<times> string) option" where
  "cookie_pair part = (let p = trim_space part in
     if p = [] then None
     else Some (case index_byte p CHR ''='' of
         None \<Rightarrow> (p, [])
       | Some i \<Rightarrow> if 0 < i then (trim_space (take i p), trim_space (drop (i + 1) p)) else (p, [])))"

definition cookies :: "flow option \<Rightarrow> (string \<times> string) list" where
  "cookies fo = (let raw = flow_cookie fo ''Cookie'' in
     if raw = [] then [] else List.map_filter cookie_pair (split_all CHR '';'' raw))"

section \<open>Hooks\<close>

type_synonym hook = "string \<Rightarrow> flow \<Rightarrow> flow \<times> bool"

fun emit :: "hook option list \<Rightarrow> string \<Rightarrow> flow \<Rightarrow> flow \<times> bool" where
  "emit [] phase f = (f, True)"
| "emit (None # hs) phase f = emit hs phase f"
| "emit (Some h # hs) phase f =
     (let (f', ok) = h phase f in if \<not> ok then (f', False) else emit hs phase f')"

section \<open>Counting connections\<close>

text \<open>The two counters a connection adds to, each of which may be absent.\<close>

record counters =
  ct_wrote :: "64 word option"
  ct_read :: "64 word option"

definition counting_write :: "counters \<Rightarrow> string \<Rightarrow> counters" where
  "counting_write c b = (if b = [] then c
     else c\<lparr>ct_wrote := map_option (\<lambda>n. n + of_nat (length b)) (ct_wrote c)\<rparr>)"

definition counting_read :: "counters \<Rightarrow> string \<Rightarrow> counters" where
  "counting_read c b = (if b = [] then c
     else c\<lparr>ct_read := map_option (\<lambda>n. n + of_nat (length b)) (ct_read c)\<rparr>)"

text \<open>The flow that a pair of connections carries: the client's, if it has one.\<close>

definition extract_flow :: "flow option \<Rightarrow> flow option \<Rightarrow> flow option" where
  "extract_flow client remote = (case client of Some f \<Rightarrow> Some f | None \<Rightarrow> remote)"

section \<open>Properties\<close>

lemma hex_char_inj: "a < 16 \<Longrightarrow> b < 16 \<Longrightarrow> hex_char a = hex_char b \<Longrightarrow> a = b"
proof -
  assume *: "a < 16" "b < 16" "hex_char a = hex_char b"
  have "(of_char (hex_char x) :: nat) = (if x < 10 then 48 + x else 87 + x)" if "x < 16" for x
    using that by (simp add: hex_char_def digit_char_def)
  then have "(if a < 10 then 48 + a else 87 + a) = (if b < 10 then 48 + b else 87 + b)"
    using * by metis
  then show ?thesis
    using *(1,2) by (auto split: if_splits)
qed

lemma hex_byte_inj: "hex_byte v = hex_byte w \<Longrightarrow> v = w"
proof -
  assume "hex_byte v = hex_byte w"
  then have "hex_char (unat v div 16) = hex_char (unat w div 16)"
    and "hex_char (unat v mod 16) = hex_char (unat w mod 16)"
    by (simp_all add: hex_byte_def)
  then have "unat v div 16 = unat w div 16" "unat v mod 16 = unat w mod 16"
    using hex_char_inj unat_byte_less [of v] unat_byte_less [of w] by (simp_all add: div_less_iff_less_mult)
  then have "unat v = unat w"
    by (metis div_mult_mod_eq)
  then show ?thesis
    by (rule word_unat_eq_iff [THEN iffD2])
qed

lemma length_hex_byte [simp]: "length (hex_byte w) = 2"
  by (simp add: hex_byte_def)

lemma hex_string_inj: "hex_string xs = hex_string ys \<Longrightarrow> xs = ys"
proof (induction xs arbitrary: ys)
  case Nil
  then show ?case by (cases ys) (auto simp: hex_byte_def)
next
  case (Cons x xs)
  then obtain y ys' where ys: "ys = y # ys'"
    by (cases ys) (auto simp: hex_byte_def)
  have "hex_byte x = hex_byte y \<and> hex_string xs = hex_string ys'"
    using Cons.prems length_hex_byte [of x] length_hex_byte [of y] by (simp add: ys)
  then show ?case
    using Cons.IH hex_byte_inj by (auto simp: ys)
qed

lemma be_bytes_inj: "be_bytes m = be_bytes n \<Longrightarrow> m = n"
proof (rule bit_word_eqI)
  fix k
  assume eq: "be_bytes m = be_bytes n" and k: "k < LENGTH(64)"
  let ?i = "7 - k div 8"
  have i: "?i < 8" by simp
  have pos: "56 - ?i * 8 + k mod 8 = k"
  proof -
    have "k div 8 \<le> 7" using k by simp
    then have "56 - ?i * 8 = 8 * (k div 8)" by (simp add: diff_mult_distrib)
    then show ?thesis by simp
  qed
  have "be_bytes m ! ?i = be_bytes n ! ?i"
    using eq by simp
  then have "ucast (drop_bit (56 - ?i * 8) m) = (ucast (drop_bit (56 - ?i * 8) n) :: byte)"
    using i by (simp add: be_bytes_def)
  then have "bit (ucast (drop_bit (56 - ?i * 8) m) :: byte) (k mod 8) =
      bit (ucast (drop_bit (56 - ?i * 8) n) :: byte) (k mod 8)"
    by simp
  then show "bit m k = bit n k"
    unfolding bit_ucast_iff bit_drop_bit_eq o_def pos by simp
qed

text \<open>The identities that the counter hands out in \<open>n\<close> calls.\<close>

fun flow_ids :: "nat \<Rightarrow> 64 word \<Rightarrow> string list" where
  "flow_ids 0 c = []"
| "flow_ids (Suc k) c = fst (next_flow_id c) # flow_ids k (snd (next_flow_id c))"

lemma flow_ids_nth: "i < k \<Longrightarrow> flow_ids k c ! i = hex_string (be_bytes (c + of_nat (i + 1)))"
proof (induction k arbitrary: c i)
  case (Suc k)
  then show ?case
    by (cases i) (simp_all add: next_flow_id_def add.assoc)
qed simp

lemma length_flow_ids [simp]: "length (flow_ids k c) = k"
  by (induction k arbitrary: c) simp_all

text \<open>
  The identities of flows are 16 hexadecimal digits and differ from each other for the
  first $2^{64}$ flows of the process.
\<close>

theorem flow_ids_distinct:
  assumes "k \<le> 2 ^ 64"
  shows "distinct (flow_ids k c)" and "\<forall>s \<in> set (flow_ids k c). length s = 16"
proof -
  show "distinct (flow_ids k c)"
  proof (unfold distinct_conv_nth length_flow_ids, intro allI impI)
    fix i j
    assume i: "i < k" and j: "j < k" and ne: "i \<noteq> j"
    have "(of_nat (i + 1) :: 64 word) \<noteq> of_nat (j + 1)"
    proof
      assume "(of_nat (i + 1) :: 64 word) = of_nat (j + 1)"
      then have "(of_nat i :: 64 word) = of_nat j" by simp
      then have "unat (of_nat i :: 64 word) = unat (of_nat j :: 64 word)" by simp
      then have "i mod 2 ^ 64 = j mod 2 ^ 64" by (simp only: unat_of_nat) simp
      with i j ne assms show False by simp
    qed
    then show "flow_ids k c ! i \<noteq> flow_ids k c ! j"
      using i j be_bytes_inj hex_string_inj unfolding flow_ids_nth [OF i] flow_ids_nth [OF j]
      by (metis add_left_cancel)
  qed
  have "length (hex_string bs) = 2 * length bs" for bs
    by (induction bs) (simp_all add: hex_byte_def)
  moreover have "length (be_bytes n) = 8" for n
    by (simp add: be_bytes_def)
  ultimately show "\<forall>s \<in> set (flow_ids k c). length s = 16"
    by (auto simp: in_set_conv_nth flow_ids_nth)
qed

theorem flow_ids_distinct_witness: "distinct (flow_ids 300 0)"
proof -
  have "(300 :: nat) \<le> 2 ^ 64" by simp
  then show ?thesis by (rule flow_ids_distinct(1))
qed

lemma emit_stops:
  "emit (hs @ Some h # hs') phase f =
     (let (f1, ok) = emit hs phase f in if \<not> ok then (f1, False)
      else let (f2, ok2) = h phase f1 in if \<not> ok2 then (f2, False) else emit hs' phase f2)"
  by (induction hs phase f rule: emit.induct) (auto simp: split: prod.splits)

lemma cookies_demo:
  "cookies (Some (fst (new_flow 0 1 ''http'' ''a:80'' ''c'')\<lparr>fl_req_headers := [''Host: a'', ''cookie:  x=1; y ; =z;; w=a=b '']\<rparr>)) =
     [(''x'', ''1''), (''y'', []), (''=z'', []), (''w'', ''a=b'')]"
  by code_simp

end
