(* ===== verification/Web.thy ===== *)
theory Web
  imports Go_Net
begin

text \<open>
  What the dashboard shows: the traffic counters (\<open>web/stats.go\<close>), the ring of recent log
  entries with its subscribers (\<open>web/logs.go\<close>) and the shared log file (\<open>web/logfile.go\<close>).
\<close>

section \<open>Traffic counters\<close>

record proxy_stat =
  ps_upload :: "64 word"
  ps_download :: "64 word"
  ps_connections :: "64 word"

type_synonym stats = "string \<rightharpoonup> proxy_stat"

definition new_stats :: stats where
  "new_stats = Map.empty"

definition zero_stat :: proxy_stat where
  "zero_stat = \<lparr>ps_upload = 0, ps_download = 0, ps_connections = 0\<rparr>"

definition get_or_create :: "stats \<Rightarrow> string \<Rightarrow> proxy_stat" where
  "get_or_create s nm = (case s nm of Some ps \<Rightarrow> ps | None \<Rightarrow> zero_stat)"

definition record_traffic :: "stats \<Rightarrow> string \<Rightarrow> 64 word \<Rightarrow> 64 word \<Rightarrow> stats" where
  "record_traffic s nm up down = (let ps = get_or_create s nm in
     s(nm \<mapsto> ps\<lparr>ps_upload := ps_upload ps + up, ps_download := ps_download ps + down\<rparr>))"

definition add_connection :: "stats \<Rightarrow> string \<Rightarrow> stats" where
  "add_connection s nm = (let ps = get_or_create s nm in
     s(nm \<mapsto> ps\<lparr>ps_connections := ps_connections ps + 1\<rparr>))"

definition remove_connection :: "stats \<Rightarrow> string \<Rightarrow> stats" where
  "remove_connection s nm = (let ps = get_or_create s nm in
     s(nm \<mapsto> ps\<lparr>ps_connections := ps_connections ps - 1\<rparr>))"

definition get_stats :: "stats \<Rightarrow> string \<rightharpoonup> (string \<times> proxy_stat)" where
  "get_stats s = (\<lambda>nm. map_option (Pair nm) (s nm))"

lemma record_traffic_other: "m \<noteq> nm \<Longrightarrow> record_traffic s nm u d m = s m"
  by (simp add: record_traffic_def Let_def)

lemma record_traffic_adds:
  "ps_upload (get_or_create (record_traffic s nm u d) nm) = ps_upload (get_or_create s nm) + u"
  "ps_download (get_or_create (record_traffic s nm u d) nm) = ps_download (get_or_create s nm) + d"
  "ps_connections (get_or_create (record_traffic s nm u d) nm) = ps_connections (get_or_create s nm)"
  by (simp_all add: record_traffic_def get_or_create_def Let_def)

lemma connection_counts:
  "ps_connections (get_or_create (add_connection s nm) nm) = ps_connections (get_or_create s nm) + 1"
  "ps_connections (get_or_create (remove_connection s nm) nm) = ps_connections (get_or_create s nm) - 1"
  "ps_upload (get_or_create (add_connection s nm) nm) = ps_upload (get_or_create s nm)"
  "ps_upload (get_or_create (remove_connection s nm) nm) = ps_upload (get_or_create s nm)"
  "ps_download (get_or_create (add_connection s nm) nm) = ps_download (get_or_create s nm)"
  "ps_download (get_or_create (remove_connection s nm) nm) = ps_download (get_or_create s nm)"
  by (simp_all add: add_connection_def remove_connection_def get_or_create_def Let_def)

section \<open>Log entries\<close>

datatype log_level = DEBUG | INFO | WARN | ERROR | OtherLevel int

definition level_string :: "log_level \<Rightarrow> string" where
  "level_string l = (case l of DEBUG \<Rightarrow> ''DEBUG'' | INFO \<Rightarrow> ''INFO'' | WARN \<Rightarrow> ''WARN''
     | ERROR \<Rightarrow> ''ERROR'' | OtherLevel i \<Rightarrow> ''UNKNOWN'')"

record web_entry =
  we_time :: string
  we_level :: string
  we_message :: string

section \<open>The ring\<close>

text \<open>Subscribers are numbered in the order of their subscription; a channel is known by that
  number. A closure that ends a subscription holds the position it had.\<close>

record log_ring =
  lr_entries :: "web_entry list"
  lr_max :: nat
  lr_listeners :: "nat list"

definition new_log_ring :: "int \<Rightarrow> log_ring" where
  "new_log_ring n = \<lparr>lr_entries = [], lr_max = (if n \<le> 0 then 1000 else nat n), lr_listeners = []\<rparr>"

definition ring_write :: "log_ring \<Rightarrow> web_entry \<Rightarrow> log_ring" where
  "ring_write r e =
     r\<lparr>lr_entries := (if lr_max r \<le> length (lr_entries r) then tl (lr_entries r) else lr_entries r) @ [e]\<rparr>"

definition ring_recent :: "log_ring \<Rightarrow> int \<Rightarrow> web_entry list" where
  "ring_recent r n = (let len = length (lr_entries r);
       m = (if n \<le> 0 \<or> int len < n then len else nat n)
     in drop (len - m) (lr_entries r))"

definition ring_subscribe :: "log_ring \<Rightarrow> nat \<Rightarrow> log_ring \<times> nat" where
  "ring_subscribe r ch = (r\<lparr>lr_listeners := lr_listeners r @ [ch]\<rparr>, length (lr_listeners r))"

text \<open>None is the panic of a slice out of bounds.\<close>

definition ring_unsubscribe :: "log_ring \<Rightarrow> nat \<Rightarrow> log_ring option" where
  "ring_unsubscribe r idx =
     (if length (lr_listeners r) \<le> idx then None
      else Some (r\<lparr>lr_listeners := take idx (lr_listeners r) @ drop (idx + 1) (lr_listeners r)\<rparr>))"

definition ring_of :: "int \<Rightarrow> web_entry list \<Rightarrow> log_ring" where
  "ring_of n es = foldl ring_write (new_log_ring n) es"

text \<open>The abstraction: the last \<open>m\<close> entries of everything that was ever written.\<close>

definition suffix_of :: "nat \<Rightarrow> 'a list \<Rightarrow> 'a list" where
  "suffix_of m xs = drop (length xs - m) xs"

lemma suffix_of_snoc:
  "0 < m \<Longrightarrow> suffix_of m (xs @ [x]) =
     (if m \<le> length (suffix_of m xs) then tl (suffix_of m xs) else suffix_of m xs) @ [x]"
  by (auto simp: suffix_of_def tl_drop drop_Suc [symmetric] Suc_diff_le)

lemma ring_of_entries:
  "lr_entries (ring_of n es) = suffix_of (lr_max (new_log_ring n)) es \<and>
   lr_max (ring_of n es) = lr_max (new_log_ring n)"
proof (induction es rule: rev_induct)
  case Nil
  then show ?case by (simp add: ring_of_def new_log_ring_def suffix_of_def)
next
  case (snoc e es)
  have "0 < lr_max (new_log_ring n)"
    by (simp add: new_log_ring_def)
  then show ?case
    using snoc suffix_of_snoc [of "lr_max (new_log_ring n)" es e]
    by (simp add: ring_of_def ring_write_def)
qed

text \<open>
  The ring implements the history of the log: after any number of writes it holds the last
  entries of everything that was written, as many as it has room for, and \<open>Recent\<close> returns the
  last \<open>n\<close> of them in the order of writing (all of them for \<open>n\<close> zero or negative).
\<close>

theorem log_ring_refines_history:
  "lr_entries (ring_of cap es) = suffix_of (lr_max (new_log_ring cap)) es \<and>
   ring_recent (ring_of cap es) n =
     suffix_of (if n \<le> 0 then lr_max (new_log_ring cap) else min (nat n) (lr_max (new_log_ring cap))) es"
  using ring_of_entries [of cap es] by (auto simp: ring_recent_def suffix_of_def Let_def min_def)

text \<open>A subscription that ends after an earlier one removes the wrong subscriber, or panics.\<close>

lemma stale_unsubscribe:
  "\<exists>r1 r2. ring_unsubscribe (new_log_ring 5 \<lparr>lr_listeners := [10, 11, 12]\<rparr>) 0 = Some r1 \<and>
     ring_unsubscribe r1 1 = Some r2 \<and> lr_listeners r2 = [11] \<and> ring_unsubscribe r1 2 = None"
  by (simp add: ring_unsubscribe_def)

section \<open>The log file\<close>

definition log_line :: "web_entry \<Rightarrow> string" where
  "log_line e = we_time e @ '' | '' @ we_level e @ '' | '' @ we_message e"

definition parse_log_line :: "string \<Rightarrow> web_entry option" where
  "parse_log_line line =
     (if length line < 23 then None
      else let rest = drop 23 line in case index_of rest '' | '' of
        None \<Rightarrow> None
      | Some i \<Rightarrow> Some \<lparr>we_time = take 23 line, we_level = trim_space (take i rest),
          we_message = drop (i + 3) rest\<rparr>)"

text \<open>\<open>ReadLogFile\<close> on the lines of the file; None is a missing file.\<close>

definition entry_of_level :: "string \<Rightarrow> string \<Rightarrow> web_entry option" where
  "entry_of_level lv line = (case parse_log_line line of None \<Rightarrow> None
     | Some e \<Rightarrow> (if lv \<noteq> ''all'' \<and> to_lower (we_level e) \<noteq> lv then None else Some e))"

definition read_log_file :: "string list option \<Rightarrow> int \<Rightarrow> string \<Rightarrow> web_entry list" where
  "read_log_file file n level = (case file of None \<Rightarrow> [] | Some lines \<Rightarrow>
     (let ls = (if 0 < n \<and> n < int (length lines) then drop (length lines - nat n) lines else lines)
      in List.map_filter (entry_of_level (to_lower (if level = [] then ''info'' else level))) ls))"

text \<open>
  The time format of the entries ends with the zone: \<open>Z\<close>, or an offset such as \<open>+08:00\<close>, after
  the 23 characters of date and time.
\<close>

definition zone_ok :: "string \<Rightarrow> bool" where
  "zone_ok z \<longleftrightarrow> z = ''Z'' \<or> (length z = 6 \<and> hd z \<in> {CHR ''+'', CHR ''-''} \<and>
     (\<forall>c \<in> set (tl z). is_digit c \<or> c = CHR '':''))"

lemma index_of_first:
  "p \<noteq> [] \<Longrightarrow> hd p \<notin> set s \<Longrightarrow> index_of (s @ p @ t) p = Some (length s)"
proof (induction s)
  case Nil
  have "has_prefix (p @ t) p"
    by (simp add: has_prefix_def)
  with Nil show ?case
    by (cases "p @ t") auto
next
  case (Cons c s)
  then have "\<not> has_prefix (c # s @ p @ t) p"
    by (cases p) (auto simp: has_prefix_def)
  with Cons show ?case by simp
qed

lemma digit_facts: "is_digit c \<Longrightarrow> c \<noteq> CHR '' '' \<and> \<not> is_space c \<and> lower_char c = c \<and> (of_char c :: nat) < 58"
  by (auto simp: is_digit_def is_space_def lower_char_def)

lemma zone_chars:
  assumes "zone_ok z" "c \<in> set z"
  shows "\<not> is_space c" and "c \<noteq> CHR '' ''"
proof -
  have "c = CHR ''Z'' \<or> c \<in> {CHR ''+'', CHR ''-'', CHR '':''} \<or> is_digit c"
    using assms by (cases z) (auto simp: zone_ok_def)
  then show "\<not> is_space c"
    by (auto simp: is_space_def is_digit_def)
  then show "c \<noteq> CHR '' ''"
    by (auto simp: is_space_def)
qed

lemma trim_space_id:
  assumes "\<And>c. c \<in> set s \<Longrightarrow> \<not> is_space c"
  shows "trim_space s = s"
proof -
  have "dropWhile is_space s = s"
    using assms by (cases s) auto
  moreover have "dropWhile is_space (rev s) = rev s"
    using assms by (cases s rule: rev_cases) auto
  ultimately show ?thesis
    by (simp add: trim_space_def trim_right_def)
qed

lemma parse_written_line:
  assumes "length stamp = 23" "zone_ok z"
  shows "parse_log_line (log_line \<lparr>we_time = stamp @ z, we_level = lv, we_message = m\<rparr>) =
     Some \<lparr>we_time = stamp, we_level = z, we_message = lv @ '' | '' @ m\<rparr>"
proof -
  have "index_of (z @ '' | '' @ lv @ '' | '' @ m) '' | '' = Some (length z)"
    using zone_chars [OF assms(2)] by (intro index_of_first) auto
  moreover have "trim_space z = z"
    using zone_chars [OF assms(2)] by (intro trim_space_id) auto
  ultimately show ?thesis
    using assms(1) by (simp add: parse_log_line_def log_line_def)
qed

text \<open>
  The level of a line of the log file is lost when the file is read. The time stamp is
  taken to be 23 characters long, without the zone that the writer appends, so that every line
  comes back with the zone as its level; filtering by any level but \<open>all\<close> (and the default
  is not all levels, but info) returns nothing.
\<close>

theorem log_file_level_lost:
  assumes "\<forall>e \<in> set es. \<exists>stamp z. we_time e = stamp @ z \<and> length stamp = 23 \<and> zone_ok z"
    and "to_lower level \<in> {[], ''debug'', ''info'', ''warn'', ''error''}"
  shows "read_log_file (Some (map log_line es)) n level = []"
proof -
  define lv where "lv = to_lower (if level = [] then ''info'' else level)"
  have lv: "lv \<in> {''debug'', ''info'', ''warn'', ''error''}"
    using assms(2) by (auto simp: lv_def lower_char_def)
  have no: "to_lower z \<noteq> lv" if "zone_ok z" for z
    using that lv by (cases z) (auto simp: zone_ok_def lower_char_def)
  have "entry_of_level lv (log_line e) = None" if e: "e \<in> set es" for e
  proof -
    obtain stamp z where s: "we_time e = stamp @ z" "length stamp = 23" "zone_ok z"
      using assms(1) e by blast
    have "e = \<lparr>we_time = stamp @ z, we_level = we_level e, we_message = we_message e\<rparr>"
      using s(1) by simp
    with parse_written_line [OF s(2,3), of "we_level e" "we_message e"]
    have "parse_log_line (log_line e) =
        Some \<lparr>we_time = stamp, we_level = z, we_message = we_level e @ '' | '' @ we_message e\<rparr>"
      by metis
    then show ?thesis
      using no [OF s(3)] lv by (auto simp: entry_of_level_def)
  qed
  then have all: "entry_of_level lv l = None" if "l \<in> set (map log_line es)" for l
    using that by auto
  have none: "List.map_filter (entry_of_level lv) ls = []" if "set ls \<subseteq> set (map log_line es)" for ls
    using that all by (auto simp: List.map_filter_def filter_empty_conv)
  show ?thesis
    unfolding read_log_file_def lv_def [symmetric] option.case Let_def
    by (intro none) (auto dest: in_set_dropD)
qed

definition web_demo_entry :: web_entry where
  "web_demo_entry = \<lparr>we_time = ''2024-01-02T03:04:05.678'' @ ''+08:00'', we_level = ''INFO'', we_message = ''up''\<rparr>"

theorem log_file_level_lost_witness: "read_log_file (Some [log_line web_demo_entry]) 10 ''info'' = []"
proof -
  have "zone_ok ''+08:00''"
    by code_simp
  moreover have "we_time web_demo_entry = ''2024-01-02T03:04:05.678'' @ ''+08:00''"
    by (simp add: web_demo_entry_def)
  moreover have "length ''2024-01-02T03:04:05.678'' = 23"
    by simp
  ultimately have "\<forall>e \<in> set [web_demo_entry]. \<exists>stamp z. we_time e = stamp @ z \<and> length stamp = 23 \<and> zone_ok z"
    by (metis empty_iff empty_set set_ConsD)
  from log_file_level_lost [OF this, of "''info''" 10] show ?thesis
    by (simp add: lower_char_def)
qed

end
