(* ===== verification/Tls_Sni.thy ===== *)
theory Tls_Sni
  imports Go_Io
begin

text \<open>
  Sniffing the server name of a transparent TLS connection (\<open>listener/http.go\<close>):
  \<open>parseSNI\<close>, \<open>peekClientHello\<close> and the connection that serves the sniffed bytes again.

  The parser indexes a byte slice the peer sent, so its model is an option: None is a run-time
  panic, Some of the empty string is the name it did not find.
\<close>

section \<open>The parser\<close>

text \<open>The body of a server-name extension at \<open>p\<close>; Some None means the scan goes on.\<close>

definition sni_name :: "bytes \<Rightarrow> nat \<Rightarrow> nat \<Rightarrow> nat \<Rightarrow> string option option" where
  "sni_name r p elen e = do {
     snl \<leftarrow> u16_at r p;
     let q = p + 2 in
     if snl \<noteq> elen - 2 \<or> e < q + 3 then Some None
     else do {
       t \<leftarrow> at_index r q;
       if t \<noteq> 0 then Some None
       else do {
         hn \<leftarrow> u16_at r (q + 1);
         if 0 < hn \<and> hn \<le> 255 \<and> q + 3 + hn \<le> e
         then map_option (\<lambda>b. Some (string_of_bytes b)) (slice r (q + 3) (q + 3 + hn))
         else Some None } } }"

function sni_loop :: "bytes \<Rightarrow> nat \<Rightarrow> nat \<Rightarrow> string option" where
  "sni_loop r p e =
     (if e < p + 4 then Some []
      else case u16_at r p of None \<Rightarrow> None
      | Some etype \<Rightarrow> (case u16_at r (p + 2) of None \<Rightarrow> None
        | Some elen \<Rightarrow>
            (if e < p + 4 + elen then Some []
             else if etype = 0 \<and> 5 \<le> elen then
               (case sni_name r (p + 4) elen e of
                 None \<Rightarrow> None
               | Some (Some n) \<Rightarrow> Some n
               | Some None \<Rightarrow> sni_loop r (p + 4 + elen) e)
             else sni_loop r (p + 4 + elen) e)))"
  by pat_completeness auto
termination
  by (relation "measure (\<lambda>(r, p, e). e - p)") auto

declare sni_loop.simps [simp del]

definition parse_sni :: "bytes \<Rightarrow> string option" where
  "parse_sni r =
     (let n = length r in
      if n < 5 then Some []
      else if n < 9 then Some []
      else do {
        t \<leftarrow> at_index r 5;
        if t \<noteq> 1 then Some []
        else if n < 11 then Some []
        else if n < 43 then Some []
        else if n < 44 then Some []
        else do {
          sid \<leftarrow> at_index r 43;
          let p = 44 + unat sid in
          if n < p + 2 then Some []
          else do {
            cs \<leftarrow> u16_at r p;
            let p = p + 2 + cs in
            if n < p + 1 then Some []
            else do {
              cc \<leftarrow> at_index r p;
              let p = p + 1 + unat cc in
              if n < p + 2 then Some []
              else do {
                ext \<leftarrow> u16_at r p;
                sni_loop r (p + 2) (min (p + 2 + ext) n) } } } } })"

section \<open>No input makes it panic\<close>

lemma sni_name_no_panic [no_panic]:
  assumes "p + elen \<le> e" "5 \<le> elen" "e \<le> length r"
  shows "sni_name r p elen e \<noteq> None"
  unfolding sni_name_def Let_def using assms by (intro no_panic; simp)

lemma sni_loop_no_panic [no_panic]: "e \<le> length r \<Longrightarrow> sni_loop r p e \<noteq> None"
proof (induction r p e rule: sni_loop.induct)
  case (1 r p e)
  show ?case
  proof (cases "p + 4 \<le> e")
    case True
    then obtain etype elen where t: "u16_at r p = Some etype" and l: "u16_at r (p + 2) = Some elen"
      using "1.prems" by (simp add: u16_at_in_bounds)
    note IH = "1.IH" [OF _ t l]
    have nm: "\<not> e < p + 4 + elen \<longrightarrow> 5 \<le> elen \<longrightarrow> sni_name r (p + 4) elen e \<noteq> None"
      using sni_name_no_panic [of "p + 4" elen e r] "1.prems" by simp
    show ?thesis
      using True IH "1.prems" t l nm
      by (subst sni_loop.simps) (auto split: option.splits)
  qed (subst sni_loop.simps; simp)
qed

text \<open>
  \<open>parseSNI\<close> accepts every byte sequence: none of its indices and slices is out of bounds,
  whatever lengths the record claims.
\<close>

theorem parse_sni_never_panics: "parse_sni r \<noteq> None"
  unfolding parse_sni_def Let_def by (intro no_panic; simp)

section \<open>Well-formed hellos\<close>

text \<open>A ClientHello record: its fields, and the extensions as type and contents.\<close>

record client_hello =
  ch_record :: bytes
  ch_length :: bytes
  ch_version :: bytes
  ch_random :: bytes
  ch_session :: bytes
  ch_ciphers :: bytes
  ch_compression :: bytes
  ch_extensions :: "(nat \<times> bytes) list"

definition ext_bytes :: "nat \<times> bytes \<Rightarrow> bytes" where
  "ext_bytes x = put_u16 (fst x) @ put_u16 (length (snd x)) @ snd x"

definition sni_ext :: "string \<Rightarrow> nat \<times> bytes" where
  "sni_ext name =
     (0, put_u16 (length name + 3) @ [0] @ put_u16 (length name) @ bytes_of_string name)"

definition hello_head :: "client_hello \<Rightarrow> bytes" where
  "hello_head h = ch_record h @ [1] @ ch_length h @ ch_version h @ ch_random h"

definition hello_bytes :: "client_hello \<Rightarrow> bytes" where
  "hello_bytes h = (let exts = concat (map ext_bytes (ch_extensions h)) in
     hello_head h @ [word_of_nat (length (ch_session h))] @ ch_session h @
     put_u16 (length (ch_ciphers h)) @ ch_ciphers h @
     [word_of_nat (length (ch_compression h))] @ ch_compression h @
     put_u16 (length exts) @ exts)"

definition hello_ok :: "client_hello \<Rightarrow> bool" where
  "hello_ok h \<longleftrightarrow> length (ch_record h) = 5 \<and> length (ch_length h) = 3 \<and> length (ch_version h) = 2 \<and>
     length (ch_random h) = 32 \<and> length (ch_session h) < 256 \<and> length (ch_ciphers h) < 65536 \<and>
     length (ch_compression h) < 256 \<and>
     length (concat (map ext_bytes (ch_extensions h))) < 65536"

lemma length_ext_bytes: "length (ext_bytes x) = 4 + length (snd x)"
  by (simp add: ext_bytes_def)

lemma u16_at_append: "length xs = i \<Longrightarrow> u16_at (xs @ put_u16 n @ ys) i = Some (n mod 65536)"
  by (rule u16_at_put)

lemma at_index_append: "length xs = i \<Longrightarrow> at_index (xs @ y # ys) i = Some y"
  by (auto simp: at_index_def nth_append)

text \<open>The two length fields of an extension.\<close>

lemma ext_fields:
  assumes "length xs = p" "fst x < 65536" "length (snd x) < 65536"
  shows "u16_at (xs @ ext_bytes x @ ys) p = Some (fst x)"
    and "u16_at (xs @ ext_bytes x @ ys) (p + 2) = Some (length (snd x))"
proof -
  show "u16_at (xs @ ext_bytes x @ ys) p = Some (fst x)"
    using u16_at_put [OF assms(1), of "fst x"] assms(2) by (simp add: ext_bytes_def)
  have "length (xs @ put_u16 (fst x)) = p + 2"
    using assms(1) by simp
  from u16_at_put [OF this, of "length (snd x)" "snd x @ ys"] assms(3)
  show "u16_at (xs @ ext_bytes x @ ys) (p + 2) = Some (length (snd x))"
    by (simp add: ext_bytes_def)
qed

lemma sni_loop_skip:
  assumes "length xs = p" "fst x < 65536" "fst x \<noteq> 0" "length (snd x) < 65536"
    and "p + length (ext_bytes x) \<le> e"
  shows "sni_loop (xs @ ext_bytes x @ ys) p e =
     sni_loop ((xs @ ext_bytes x) @ ys) (p + length (ext_bytes x)) e"
  using assms(3,5) ext_fields [OF assms(1,2,4), of ys]
  by (subst sni_loop.simps) (simp add: length_ext_bytes add.assoc)

lemma sni_name_found:
  assumes "length xs = p" "0 < length name" "length name \<le> 255" "p + length name + 5 \<le> e"
  shows "sni_name (xs @ snd (sni_ext name) @ ys) p (length name + 5) e = Some (Some name)"
proof -
  let ?b = "bytes_of_string name"
  let ?r = "xs @ snd (sni_ext name) @ ys"
  have "u16_at ?r p = Some (length name + 3)"
    using u16_at_put [OF assms(1), of "length name + 3"] assms(3) by (simp add: sni_ext_def)
  moreover have "at_index ?r (p + 2) = Some 0"
    using at_index_append [of "xs @ put_u16 (length name + 3)" "p + 2"] assms(1) by (simp add: sni_ext_def)
  moreover have "u16_at ?r (p + 2 + 1) = Some (length name)"
    using u16_at_put [of "xs @ put_u16 (length name + 3) @ [0]" "p + 2 + 1" "length name"] assms(1,3)
    by (simp add: sni_ext_def)
  moreover have "slice ?r (p + 2 + 3) (p + 2 + 3 + length name) = Some ?b"
    using slice_append [of "xs @ put_u16 (length name + 3) @ [0] @ put_u16 (length name)" "p + 2 + 3" ?b ys]
      assms(1) by (simp add: sni_ext_def)
  ultimately show ?thesis
    using assms(2-4) by (simp add: sni_name_def Let_def del: add_2_eq_Suc add_2_eq_Suc')
qed

lemma sni_loop_found:
  "\<forall>x \<in> set pre. 0 < fst x \<and> fst x < 65536 \<and> length (snd x) < 65536 \<Longrightarrow> length xs = p \<Longrightarrow>
   0 < length name \<Longrightarrow> length name \<le> 255 \<Longrightarrow>
   p + length (concat (map ext_bytes pre)) + length name + 9 \<le> e \<Longrightarrow>
   sni_loop (xs @ concat (map ext_bytes pre) @ ext_bytes (sni_ext name) @ ys) p e = Some name"
proof (induction pre arbitrary: xs p)
  case Nil
  let ?r = "xs @ ext_bytes (sni_ext name) @ ys"
  have sz: "fst (sni_ext name) = 0" "length (snd (sni_ext name)) = length name + 5"
    by (simp_all add: sni_ext_def)
  have f: "u16_at ?r p = Some 0" "u16_at ?r (p + 2) = Some (length name + 5)"
    using ext_fields [of xs p "sni_ext name" ys] Nil sz by simp_all
  have "sni_name ((xs @ put_u16 0 @ put_u16 (length name + 5)) @ snd (sni_ext name) @ ys) (p + 4)
      (length name + 5) e = Some (Some name)"
    by (rule sni_name_found) (use Nil in simp_all)
  then have "sni_name ?r (p + 4) (length name + 5) e = Some (Some name)"
    by (simp add: ext_bytes_def sz)
  with f Nil.prems show ?case
    by (subst sni_loop.simps) simp
next
  case (Cons x pre)
  let ?tl = "concat (map ext_bytes pre) @ ext_bytes (sni_ext name) @ ys"
  have "sni_loop (xs @ ext_bytes x @ ?tl) p e =
      sni_loop ((xs @ ext_bytes x) @ ?tl) (p + length (ext_bytes x)) e"
    by (rule sni_loop_skip) (use Cons.prems in auto)
  also have "\<dots> = Some name"
    by (rule Cons.IH) (use Cons.prems in auto)
  finally show ?case by simp
qed

text \<open>
  C12: \<open>parseSNI\<close> finds the server name of every well-formed ClientHello, whatever extensions
  precede or follow it, for names of up to 255 bytes.
\<close>

theorem parse_sni_finds:
  assumes "hello_ok h" and "ch_extensions h = pre @ sni_ext name # post"
    and "\<forall>x \<in> set pre. 0 < fst x \<and> fst x < 65536"
    and "0 < length name" and "length name \<le> 255"
  shows "parse_sni (hello_bytes h) = Some name"
proof -
  define exts where "exts = concat (map ext_bytes (ch_extensions h))"
  define r where "r = hello_bytes h"
  define a where "a = hello_head h"
  define p1 where "p1 = 44 + length (ch_session h)"
  define p2 where "p2 = p1 + 2 + length (ch_ciphers h)"
  define p3 where "p3 = p2 + 1 + length (ch_compression h)"
  note ok = assms(1) [unfolded hello_ok_def]
  have la: "length a = 43"
    using ok by (simp add: a_def hello_head_def)
  have r: "r = a @ [word_of_nat (length (ch_session h))] @ ch_session h @
     put_u16 (length (ch_ciphers h)) @ ch_ciphers h @
     [word_of_nat (length (ch_compression h))] @ ch_compression h @ put_u16 (length exts) @ exts"
    by (simp add: r_def hello_bytes_def Let_def a_def exts_def)
  have lr: "length r = p3 + 2 + length exts"
    by (simp add: r la p1_def p2_def p3_def)
  have "at_index r 5 = Some 1"
    using at_index_append [of "ch_record h" 5 1] ok by (simp add: r a_def hello_head_def)
  moreover have "at_index r 43 = Some (word_of_nat (length (ch_session h)))"
    using at_index_append [of a 43] la by (simp add: r)
  moreover have "unat (word_of_nat (length (ch_session h)) :: byte) = length (ch_session h)"
    using ok by (simp add: unat_of_nat)
  moreover have "u16_at r p1 = Some (length (ch_ciphers h))"
    using u16_at_put [of "a @ [word_of_nat (length (ch_session h))] @ ch_session h" p1
        "length (ch_ciphers h)"] la ok by (simp add: r p1_def)
  moreover have "at_index r p2 = Some (word_of_nat (length (ch_compression h)))"
    using at_index_append [of "a @ [word_of_nat (length (ch_session h))] @ ch_session h @
        put_u16 (length (ch_ciphers h)) @ ch_ciphers h" p2] la by (simp add: r p1_def p2_def)
  moreover have "unat (word_of_nat (length (ch_compression h)) :: byte) = length (ch_compression h)"
    using ok by (simp add: unat_of_nat)
  moreover have "u16_at r p3 = Some (length exts)"
    using u16_at_put [of "a @ [word_of_nat (length (ch_session h))] @ ch_session h @
        put_u16 (length (ch_ciphers h)) @ ch_ciphers h @
        [word_of_nat (length (ch_compression h))] @ ch_compression h" p3 "length exts" exts] la ok
    by (simp add: r p1_def p2_def p3_def exts_def)
  ultimately have eq: "parse_sni r = sni_loop r (p3 + 2) (min (p3 + 2 + length exts) (length r))"
    using lr by (simp add: parse_sni_def p1_def p2_def p3_def add.assoc)
  define head where "head = a @ [word_of_nat (length (ch_session h))] @ ch_session h @
     put_u16 (length (ch_ciphers h)) @ ch_ciphers h @
     [word_of_nat (length (ch_compression h))] @ ch_compression h @ put_u16 (length exts)"
  have lh: "length head = p3 + 2"
    by (simp add: head_def la p1_def p2_def p3_def)
  have ex: "exts = concat (map ext_bytes pre) @ ext_bytes (sni_ext name) @ concat (map ext_bytes post)"
    by (simp add: exts_def assms(2))
  have "length (ext_bytes x) \<le> length exts" if "x \<in> set pre" for x
    using that by (auto simp: ex dest: split_list)
  then have pre: "\<forall>x \<in> set pre. 0 < fst x \<and> fst x < 65536 \<and> length (snd x) < 65536"
    using assms(3) ok by (fastforce simp: length_ext_bytes exts_def [symmetric])
  have sni: "length (ext_bytes (sni_ext name)) = length name + 9"
    by (simp add: length_ext_bytes sni_ext_def)
  have "sni_loop (head @ concat (map ext_bytes pre) @ ext_bytes (sni_ext name) @ concat (map ext_bytes post))
     (p3 + 2) (p3 + 2 + length exts) = Some name"
    by (rule sni_loop_found [OF pre lh assms(4,5)]) (use sni in \<open>simp add: ex\<close>)
  moreover have "r = head @ exts"
    by (simp add: r head_def)
  ultimately show ?thesis
    using eq lr by (simp add: r_def [symmetric] ex)
qed

section \<open>Sniffing and serving again\<close>

text \<open>
  \<open>peekClientHello\<close> on what has arrived when its deadline fires; \<open>k\<close> is the number of bytes
  the first read happens to return, \<open>tcp\<close> whether the connection is a plain TCP connection
  whose deadline can be set. The result is the hello and how many bytes have been taken off
  the wire.
\<close>

definition peek_client_hello :: "bool \<Rightarrow> nat \<Rightarrow> bytes \<Rightarrow> bytes option \<times> nat" where
  "peek_client_hello tcp k arrived =
     (if \<not> tcp then (None, 0)
      else let n = min (min k 5) (length arrived) in
        if n < 5 then (None, n)
        else if arrived ! 0 \<noteq> 0x16 then (None, 5)
        else let rec_len = get_u16 (arrived ! 3) (arrived ! 4) in
          if 4096 < rec_len then (None, 5)
          else case read_full rec_len (drop 5 arrived) of
            None \<Rightarrow> (None, length arrived)
          | Some (b, rest) \<Rightarrow> (Some (take 5 arrived @ b), 5 + rec_len))"

text \<open>One \<open>Read\<close> of \<open>peerBufConn\<close> with a buffer of \<open>n\<close> bytes: the prefill first, then the
  connection, which returns at most \<open>k\<close> bytes.\<close>

definition peer_read :: "nat \<Rightarrow> nat \<Rightarrow> bytes \<times> bytes \<Rightarrow> bytes \<times> bytes \<times> bytes" where
  "peer_read n k c = (let (rest, inner) = c in
     if rest = [] then (take (min n k) inner, [], drop (min n k) inner)
     else (take n rest, drop n rest, inner))"

definition wrap_with_prefill :: "bytes \<Rightarrow> bytes \<Rightarrow> bytes \<times> bytes" where
  "wrap_with_prefill prefill inner = (prefill, inner)"

fun peer_reads :: "(nat \<times> nat) list \<Rightarrow> bytes \<times> bytes \<Rightarrow> bytes \<times> bytes \<times> bytes" where
  "peer_reads [] c = ([], fst c, snd c)"
| "peer_reads ((n, k) # ns) c =
     (let (b, rest, inner) = peer_read n k c; (bs, rest', inner') = peer_reads ns (rest, inner)
      in (b @ bs, rest', inner'))"

lemma peer_read_keeps: "peer_read n k c = (b, rest, inner) \<Longrightarrow> b @ rest @ inner = fst c @ snd c"
  by (cases c) (auto simp: peer_read_def split: if_splits)

lemma peer_reads_keep:
  "peer_reads ns c = (bs, rest, inner) \<Longrightarrow> bs @ rest @ inner = fst c @ snd c"
proof (induction ns c arbitrary: bs rest inner rule: peer_reads.induct)
  case (2 n k ns c)
  obtain b r u where r: "peer_read n k c = (b, r, u)" by (cases "peer_read n k c")
  obtain bs' r' u' where rs: "peer_reads ns (r, u) = (bs', r', u')" by (cases "peer_reads ns (r, u)")
  have "bs' @ r' @ u' = r @ u"
    using "2.IH" [OF r [symmetric] refl] rs by simp
  then have "b @ bs' @ r' @ u' = fst c @ snd c"
    using peer_read_keeps [OF r] by simp
  with "2.prems" show ?case by (auto simp: r rs)
qed simp

lemma peek_takes_prefix:
  "peek_client_hello tcp k arrived = (Some hello, c) \<Longrightarrow> hello = take c arrived \<and> c \<le> length arrived"
  by (auto simp: peek_client_hello_def Let_def take_add read_full_def split: if_splits option.splits)

text \<open>
  C11: Sniffing is invisible. When a hello has been taken off the wire, a reader of the wrapped
  connection gets, for whatever sizes of buffers and reads, exactly the bytes the client sent,
  in their order and without loss.
\<close>

theorem sniff_transparent:
  assumes "peek_client_hello tcp k arrived = (Some hello, c)"
    and "peer_reads ns (wrap_with_prefill hello (drop c arrived @ later)) = (out, rest, inner)"
  shows "out @ rest @ inner = arrived @ later"
  using peer_reads_keep [OF assms(2)] peek_takes_prefix [OF assms(1)]
  by (simp add: wrap_with_prefill_def)

text \<open>
  A sniff that fails after the first read has taken bytes that nobody serves again; a
  connection that is not a plain \<open>TCPConn\<close> is left alone.
\<close>

lemma failed_sniff_consumes:
  assumes "5 \<le> length arrived" "arrived ! 0 \<noteq> 0x16"
  shows "peek_client_hello True 5 arrived = (None, 5)"
  using assms by (simp add: peek_client_hello_def)

lemma wrapped_conn_not_sniffed: "peek_client_hello False k arrived = (None, 0)"
  by (simp add: peek_client_hello_def)

section \<open>Witnesses\<close>

definition sni_demo_hello :: client_hello where
  "sni_demo_hello = \<lparr>ch_record = [0x16, 3, 1, 0, 68], ch_length = [0, 0, 64], ch_version = [3, 3],
     ch_random = replicate 32 7, ch_session = [], ch_ciphers = [0x13, 1], ch_compression = [0],
     ch_extensions = [(10, [0, 2]), sni_ext ''a.io'']\<rparr>"

theorem parse_sni_finds_witness: "parse_sni (hello_bytes sni_demo_hello) = Some ''a.io''"
proof -
  have "hello_ok sni_demo_hello"
    by (simp add: hello_ok_def sni_demo_hello_def ext_bytes_def sni_ext_def)
  moreover have "ch_extensions sni_demo_hello = [(10, [0, 2])] @ sni_ext ''a.io'' # []"
    by (simp add: sni_demo_hello_def)
  ultimately show ?thesis
    by (rule parse_sni_finds) simp_all
qed

theorem sniff_transparent_witness:
  "fst (peer_reads [(4, 9), (9, 9)] (wrap_with_prefill [0x16, 3, 1, 0, 1, 1] [7, 8])) @ [7, 8] =
     [0x16, 3, 1, 0, 1, 1] @ ([7, 8] :: bytes)"
proof -
  have "peek_client_hello True 5 [0x16, 3, 1, 0, 1, 1] = (Some [0x16, 3, 1, 0, 1, 1], 6)"
    by (simp add: peek_client_hello_def get_u16_def read_full_def)
  moreover have "peer_reads [(4, 9), (9, 9)] (wrap_with_prefill [0x16, 3, 1, 0, 1, 1]
      (drop 6 [0x16, 3, 1, 0, 1, 1] @ [7, 8])) = ([0x16, 3, 1, 0, 1, 1], [], [7, 8])"
    by (simp add: peer_read_def wrap_with_prefill_def)
  ultimately show ?thesis
    using sniff_transparent [of True 5 "[0x16, 3, 1, 0, 1, 1]" "[0x16, 3, 1, 0, 1, 1]" 6 "[(4, 9), (9, 9)]" "[7, 8]"]
    by simp
qed

end
