(* ===== verification/Tproxy.thy ===== *)
theory Tproxy
  imports Go_Encoding "HOL-Library.AList"
begin

text \<open>
  Transparent proxying: how a redirected connection finds its original destination. On Linux
  the kernel reports it in a control message (\<open>listener/tproxy_linux.go\<close>), on Windows the
  program keeps its own table of connections and rewrites packets
  (\<open>listener/tproxy_windows.go\<close>).

  The packet parser of the capture library is a parameter of the program: a packet is given by
  the header fields it fills in, addresses and ports being the images of their bytes in the
  memory of a little-endian machine, as the constant \<open>loopbackIPv4\<close> has them.
\<close>

section \<open>Linux: control messages and routing rules\<close>

record tcp_addr =
  ta_ip :: ip
  ta_port :: nat

datatype sockaddr = SockInet4 bytes nat | SockInet6 bytes nat | SockOther

definition sock_to_tcp_addr :: "sockaddr \<Rightarrow> tcp_addr option" where
  "sock_to_tcp_addr sa = (case sa of
       SockInet4 a p \<Rightarrow> Some \<lparr>ta_ip = a, ta_port = p\<rparr>
     | SockInet6 a p \<Rightarrow> Some \<lparr>ta_ip = (case to4 a of Some b \<Rightarrow> b | None \<Rightarrow> a), ta_port = p\<rparr>
     | SockOther \<Rightarrow> None)"

text \<open>A control message: level, type and data.\<close>

type_synonym cmsg = "nat \<times> nat \<times> bytes"

text \<open>One message of the loop of \<open>origDst\<close>; None lets the loop go on.\<close>

definition orig_dst_of :: "cmsg \<Rightarrow> tcp_addr option" where
  "orig_dst_of m = (let (level, typ, d) = m in
     if level = 0 \<and> typ = 20 then
       (if length d < 8 then None
        else if get_u16 (d ! 3) (d ! 2) \<noteq> 2 then None
        else Some \<lparr>ta_ip = ipv4 (d ! 4) (d ! 5) (d ! 6) (d ! 7), ta_port = get_u16 (d ! 0) (d ! 1)\<rparr>)
     else if level = 41 \<and> typ = 74 then
       (if length d < 20 then None
        else if get_u16 (d ! 3) (d ! 2) \<noteq> 10 then None
        else Some \<lparr>ta_ip = take 16 (drop 4 d), ta_port = get_u16 (d ! 0) (d ! 1)\<rparr>)
     else None)"

fun first_some :: "('a \<Rightarrow> 'b option) \<Rightarrow> 'a list \<Rightarrow> 'b option" where
  "first_some f [] = None"
| "first_some f (x # xs) = (case f x of Some y \<Rightarrow> Some y | None \<Rightarrow> first_some f xs)"

text \<open>None of the argument is an error of \<open>Recvmsg\<close> or of the message parser.\<close>

definition orig_dst :: "cmsg list option \<Rightarrow> tcp_addr option" where
  "orig_dst ms = (case ms of None \<Rightarrow> None | Some xs \<Rightarrow> first_some orig_dst_of xs)"

text \<open>An accepted connection: its target and its client; None is a connection that is closed.\<close>

definition tproxy_accept :: "sockaddr \<Rightarrow> cmsg list option \<Rightarrow> (tcp_addr \<times> tcp_addr option) option" where
  "tproxy_accept peer ms = (case orig_dst ms of
       None \<Rightarrow> None | Some orig \<Rightarrow> Some (orig, sock_to_tcp_addr peer))"

text \<open>The address the kernel puts into the message is a \<open>struct sockaddr_in\<close>: the family in
  the order of the host, then the port and the address in network order.\<close>

definition sockaddr_in :: "bytes \<Rightarrow> nat \<Rightarrow> bytes" where
  "sockaddr_in a port = [2, 0] @ put_u16 port @ a @ replicate 8 0"

lemma orig_dst_misreads_sockaddr:
  assumes "length a = 4" "port < 65536" "port \<noteq> 512"
  shows "tproxy_accept peer (Some [(0, 20, sockaddr_in a port)]) = None"
proof -
  have "port mod 256 * 256 + port div 256 = 2 \<longleftrightarrow> port = 512"
  proof
    assume eq: "port mod 256 * 256 + port div 256 = 2"
    then have "port mod 256 = 0" by (cases "port mod 256") simp_all
    with eq have "port div 256 = 2" by simp
    with \<open>port mod 256 = 0\<close> show "port = 512"
      using div_mult_mod_eq [of port 256] by simp
  qed simp
  moreover have "port div 256 < 256"
    using assms(2) by (simp add: less_mult_imp_div_less)
  ultimately have "get_u16 (word_of_nat port) (word_of_nat (port div 256)) \<noteq> 2"
    using assms(3) by (simp add: get_u16_def unat_of_nat)
  then show ?thesis
    using assms(1) by (simp add: tproxy_accept_def orig_dst_def orig_dst_of_def sockaddr_in_def put_u16_def)
qed

text \<open>The routing commands: \<open>ip\<close> says which of them succeed. The result is what is run and
  whether the installation succeeded.\<close>

definition ip_rule :: "string \<Rightarrow> nat \<Rightarrow> nat \<Rightarrow> string list" where
  "ip_rule verb mark table =
     str_fields (''rule '' @ verb @ '' fwmark '' @ itoa mark @ '' lookup '' @ itoa table)"

definition install_routing :: "(string list \<Rightarrow> bool) \<Rightarrow> nat \<Rightarrow> nat \<Rightarrow> string list list \<times> bool" where
  "install_routing ip mark table =
     (if mark = 0 \<or> table = 0 then ([], True)
      else let r1 = ip_rule ''add'' mark table;
               r2 = str_fields (''route add local 0.0.0.0/0 dev lo table '' @ itoa table);
               r3 = str_fields (''route add local ::/0 dev lo table '' @ itoa table)
        in if \<not> ip r1 then ([r1], False)
           else if \<not> ip r2 then ([r1, r2, ip_rule ''del'' mark table], False)
           else ([r1, r2, r3], True))"

definition teardown_routing :: "nat \<Rightarrow> nat \<Rightarrow> string list list" where
  "teardown_routing mark table =
     (if mark = 0 \<or> table = 0 then []
      else [ip_rule ''del'' mark table,
            str_fields (''rule del local 0.0.0.0/0 dev lo table '' @ itoa table),
            str_fields (''route del local ::/0 dev lo table '' @ itoa table)])"

section \<open>Windows: the table of connections\<close>

definition be16 :: "16 word \<Rightarrow> 16 word" where
  "be16 v = drop_bit 8 v OR push_bit 8 v"

abbreviation h16 :: "16 word \<Rightarrow> 16 word" where
  "h16 \<equiv> be16"

definition v4_to16 :: "32 word \<Rightarrow> bytes" where
  "v4_to16 w = replicate 12 0 @
     [ucast (drop_bit 24 w), ucast (drop_bit 16 w), ucast (drop_bit 8 w), ucast w]"

definition flow_key :: "byte \<Rightarrow> bytes \<Rightarrow> 16 word \<Rightarrow> bytes" where
  "flow_key proto a port = [byte_of_char CHR ''v'', proto] @ take 16 a @ [ucast port]"

definition loopback_v4 :: "32 word" where
  "loopback_v4 = 0x0100007F"

record win_flow =
  wf_dst_ip :: bytes
  wf_dst_port :: "16 word"
  wf_client_ip :: bytes
  wf_client_port :: "16 word"
  wf_proto :: byte
  wf_fake :: nat
  wf_last :: nat

text \<open>Flows are shared by two maps: the maps hold positions in the list of flows. The fake
  ports stay below 60000, so that the 16-bit counter never wraps and is a number here.\<close>

record win_state =
  ws_flows :: "win_flow list"
  ws_real :: "(bytes \<times> nat) list"
  ws_fake :: "(nat \<times> nat) list"
  ws_next :: nat
  ws_port :: nat

definition fake_base :: nat where "fake_base = 40000"
definition fake_span :: nat where "fake_span = 20000"
definition idle_limit :: nat where "idle_limit = 600"

definition win_init :: "nat \<Rightarrow> win_state" where
  "win_init port = \<lparr>ws_flows = [], ws_real = [], ws_fake = [], ws_next = fake_base, ws_port = port\<rparr>"

definition next_fake :: "nat \<Rightarrow> nat" where
  "next_fake p = (if fake_base + fake_span \<le> p + 1 then fake_base else p + 1)"

fun alloc_fake :: "nat \<Rightarrow> (nat \<times> nat) list \<Rightarrow> nat \<Rightarrow> nat option \<times> nat" where
  "alloc_fake 0 taken p = (None, p)"
| "alloc_fake (Suc k) taken p =
     (if map_of taken p = None then (Some p, next_fake p) else alloc_fake k taken (next_fake p))"

definition is_stale :: "nat \<Rightarrow> win_flow \<Rightarrow> bool" where
  "is_stale now f \<longleftrightarrow> idle_limit < now - wf_last f"

definition gc_locked :: "nat \<Rightarrow> win_state \<Rightarrow> win_state" where
  "gc_locked now st = st\<lparr>
     ws_real := filter (\<lambda>e. \<not> is_stale now (ws_flows st ! snd e)) (ws_real st),
     ws_fake := fold (\<lambda>e fk. if is_stale now (ws_flows st ! snd e)
                             then AList.delete (wf_fake (ws_flows st ! snd e)) fk else fk)
       (ws_real st) (ws_fake st)\<rparr>"

text \<open>\<open>f.last = now\<close> through the pointer.\<close>

definition touch :: "nat \<Rightarrow> nat \<Rightarrow> win_state \<Rightarrow> win_state" where
  "touch now i st = st\<lparr>ws_flows := (ws_flows st)[i := (ws_flows st ! i)\<lparr>wf_last := now\<rparr>]\<rparr>"

text \<open>
  The flow of a key, made and entered when there is none: None is an exhausted pool, in which
  case the idle flows have been evicted.
\<close>

definition open_flow :: "nat \<Rightarrow> bytes \<Rightarrow> win_flow \<Rightarrow> win_state \<Rightarrow> win_state \<times> nat option" where
  "open_flow now key f st = (case alloc_fake fake_span (ws_fake st) (ws_next st) of
       (None, nx) \<Rightarrow> (gc_locked now (st\<lparr>ws_next := nx\<rparr>), None)
     | (Some p, nx) \<Rightarrow> (let i = length (ws_flows st) in
         (st\<lparr>ws_flows := ws_flows st @ [f\<lparr>wf_fake := p\<rparr>], ws_next := nx,
             ws_real := AList.update key i (ws_real st),
             ws_fake := AList.update p i (ws_fake st)\<rparr>, Some i)))"

record tcp_packet =
  tp_src :: "32 word"
  tp_dst :: "32 word"
  tp_sport :: "16 word"
  tp_dport :: "16 word"
  tp_syn :: bool
  tp_ack :: bool
  tp_outbound :: bool

text \<open>What becomes of the packet: None is dropped.\<close>

definition win_rewrite ::
  "nat \<Rightarrow> win_state \<Rightarrow> tcp_packet \<Rightarrow> win_state \<times> tcp_packet option" where
  "win_rewrite now st pk =
     (let client = v4_to16 (tp_src pk); orig = v4_to16 (tp_dst pk);
          key = flow_key 4 client (be16 (tp_sport pk));
          fresh = \<lparr>wf_dst_ip = orig, wf_dst_port = be16 (tp_dport pk), wf_client_ip = client,
            wf_client_port = be16 (tp_sport pk), wf_proto = 4, wf_fake = 0, wf_last = 0\<rparr>
      in case (case map_of (ws_real st) key of
           Some i \<Rightarrow> Inr (st, i)
         | None \<Rightarrow> (if \<not> tp_syn pk \<or> tp_ack pk then Inl (st, Some pk)
             else case open_flow now key fresh st of
               (st', None) \<Rightarrow> Inl (st', None)
             | (st', Some i) \<Rightarrow> Inr (st', i))) of
           Inl r \<Rightarrow> r
         | Inr (st', i) \<Rightarrow>
             (let st'' = touch now i st';
                  fake = word_of_nat (wf_fake (ws_flows st' ! i)) :: 16 word;
                  port = word_of_nat (ws_port st) :: 16 word
              in if tp_src pk = loopback_v4 \<and> tp_dst pk = loopback_v4 \<and> be16 (tp_dport pk) = port
                 then (st'', Some pk)
                 else (st'', Some (pk\<lparr>tp_src := loopback_v4, tp_dst := loopback_v4,
                        tp_sport := h16 fake, tp_dport := h16 port, tp_outbound := False\<rparr>))))"

text \<open>\<open>captureOnlyV6\<close> and the table part of \<open>rewriteUDP\<close>: the flow is recorded, the packet
  goes on unchanged.\<close>

definition record_flow ::
  "nat \<Rightarrow> byte \<Rightarrow> bytes \<Rightarrow> bytes \<Rightarrow> 16 word \<Rightarrow> 16 word \<Rightarrow> win_state \<Rightarrow> win_state" where
  "record_flow now proto client orig cport oport st =
     (let key = flow_key proto client cport;
          fresh = \<lparr>wf_dst_ip = orig, wf_dst_port = oport, wf_client_ip = client,
            wf_client_port = cport, wf_proto = proto, wf_fake = 0, wf_last = 0\<rparr>
      in case map_of (ws_real st) key of
           Some i \<Rightarrow> touch now i st
         | None \<Rightarrow> (case open_flow now key fresh st of
             (st', None) \<Rightarrow> st' | (st', Some i) \<Rightarrow> touch now i st'))"

definition capture_only_v6 ::
  "nat \<Rightarrow> byte \<Rightarrow> bytes \<Rightarrow> bytes \<Rightarrow> 16 word \<Rightarrow> 16 word \<Rightarrow> win_state \<Rightarrow> win_state" where
  "capture_only_v6 now proto client orig cport oport st = record_flow now proto client orig cport oport st"

text \<open>\<open>parseV6Flow\<close>: the outer option is a panic, the inner one the result \<open>ok\<close>. The loop is
  bounded by its eight hops.\<close>

type_synonym v6_flow = "bytes \<times> bytes \<times> 16 word \<times> 16 word"

definition v6_ports :: "bytes \<Rightarrow> nat \<Rightarrow> v6_flow option option" where
  "v6_ports pkt off =
     (if length pkt < off + 4 then Some None
      else do {
        sp \<leftarrow> u16_at pkt off;
        dp \<leftarrow> u16_at pkt (off + 2);
        src \<leftarrow> slice pkt 8 24;
        dst \<leftarrow> slice pkt 24 40;
        Some (Some (src, dst, word_of_nat sp, word_of_nat dp)) })"

fun v6_loop :: "nat \<Rightarrow> bytes \<Rightarrow> nat \<Rightarrow> byte \<Rightarrow> v6_flow option option" where
  "v6_loop k pkt off nh =
     (if nh = 6 \<or> nh = 17 then v6_ports pkt off
      else case k of 0 \<Rightarrow> Some None
      | Suc k' \<Rightarrow>
          (if length pkt < off + 2 then Some None
           else do {
             l \<leftarrow> at_index pkt (off + 1);
             (if nh \<in> {0, 43, 44, 51, 135} \<or> nh = 50 then
                (let off' = off + (if nh = 50 then unat l + 2 else unat l * 8 + 8) in
                 if length pkt \<le> off' then Some None
                 else do { nh' \<leftarrow> at_index pkt off'; v6_loop k' pkt off' nh' })
              else Some None) }))"

declare v6_loop.simps [simp del]

definition parse_v6_flow :: "bytes \<Rightarrow> v6_flow option option" where
  "parse_v6_flow pkt =
     (if length pkt < 40 then Some None
      else do {
        b \<leftarrow> at_index pkt 0;
        if drop_bit 4 b \<noteq> 6 then Some None
        else do { nh \<leftarrow> at_index pkt 6; v6_loop 8 pkt 40 nh } })"

text \<open>\<open>rewriteUDP\<close> for a packet with the IPv4 addresses or without; the packet itself is
  always sent on as it is.\<close>

definition rewrite_udp ::
  "nat \<Rightarrow> (32 word \<times> 32 word) option \<Rightarrow> 16 word \<Rightarrow> 16 word \<Rightarrow> bytes \<Rightarrow> win_state \<Rightarrow> win_state option" where
  "rewrite_udp now ip4 sport dport pkt st = (case ip4 of
       Some (s, d) \<Rightarrow> Some (record_flow now 4 (v4_to16 s) (v4_to16 d) (be16 sport) (be16 dport) st)
     | None \<Rightarrow> (case parse_v6_flow pkt of
         None \<Rightarrow> None
       | Some None \<Rightarrow> Some st
       | Some (Some (s, d, sp, dp)) \<Rightarrow> Some (record_flow now 6 s d sp dp st)))"

text \<open>\<open>Accept\<close> on a connection from \<open>port\<close> of the loopback address: the target and the
  client it reports; None is a connection that is closed.\<close>

definition lookup_fake :: "win_state \<Rightarrow> nat \<Rightarrow> win_flow option" where
  "lookup_fake st p = map_option (nth (ws_flows st)) (map_of (ws_fake st) p)"

definition last4 :: "bytes \<Rightarrow> ip" where
  "last4 a = ipv4 (a ! 12) (a ! 13) (a ! 14) (a ! 15)"

definition win_accept :: "win_state \<Rightarrow> ip \<Rightarrow> nat \<Rightarrow> (tcp_addr \<times> tcp_addr) option" where
  "win_accept st peer port =
     (if to4 peer = None \<or> \<not> is_loopback peer \<or> port < fake_base \<or> fake_base + fake_span \<le> port then None
      else case lookup_fake st port of
        None \<Rightarrow> None
      | Some f \<Rightarrow> (if wf_proto f \<noteq> 4 then None
          else Some (\<lparr>ta_ip = last4 (wf_dst_ip f), ta_port = unat (wf_dst_port f)\<rparr>,
                     \<lparr>ta_ip = last4 (wf_client_ip f), ta_port = unat (wf_client_port f)\<rparr>)))"

section \<open>The invariant of the table\<close>

definition key_of :: "win_flow \<Rightarrow> bytes" where
  "key_of f = flow_key (wf_proto f) (wf_client_ip f) (wf_client_port f)"

definition in_pool :: "nat \<Rightarrow> bool" where
  "in_pool p \<longleftrightarrow> fake_base \<le> p \<and> p < fake_base + fake_span"

text \<open>The two maps are inverse to each other on the flows they hold, which carry their keys.\<close>

definition win_inv :: "win_state \<Rightarrow> bool" where
  "win_inv st \<longleftrightarrow>
     (\<forall>k i. map_of (ws_real st) k = Some i \<longrightarrow> i < length (ws_flows st) \<and> k = key_of (ws_flows st ! i) \<and>
        map_of (ws_fake st) (wf_fake (ws_flows st ! i)) = Some i) \<and>
     (\<forall>p i. map_of (ws_fake st) p = Some i \<longrightarrow> i < length (ws_flows st) \<and> wf_fake (ws_flows st ! i) = p \<and>
        in_pool p \<and> map_of (ws_real st) (key_of (ws_flows st ! i)) = Some i) \<and>
     distinct (map fst (ws_real st)) \<and> in_pool (ws_next st)"

lemma win_inv_real:
  "win_inv st \<Longrightarrow> map_of (ws_real st) k = Some i \<Longrightarrow> i < length (ws_flows st) \<and>
   k = key_of (ws_flows st ! i) \<and> map_of (ws_fake st) (wf_fake (ws_flows st ! i)) = Some i"
  by (simp add: win_inv_def)

lemma win_inv_fake:
  "win_inv st \<Longrightarrow> map_of (ws_fake st) p = Some i \<Longrightarrow> i < length (ws_flows st) \<and>
   wf_fake (ws_flows st ! i) = p \<and> in_pool p \<and> map_of (ws_real st) (key_of (ws_flows st ! i)) = Some i"
  by (simp add: win_inv_def)

lemma in_pool_next: "in_pool p \<Longrightarrow> in_pool (next_fake p)"
  by (auto simp: in_pool_def next_fake_def fake_span_def)

lemma alloc_fake_inv:
  "alloc_fake k taken p = (r, nx) \<Longrightarrow> in_pool p \<Longrightarrow>
   in_pool nx \<and> (\<forall>q. r = Some q \<longrightarrow> map_of taken q = None \<and> in_pool q)"
  by (induction k taken p rule: alloc_fake.induct) (auto simp: in_pool_next split: if_splits)

lemma win_inv_init: "win_inv (win_init port)"
  by (simp add: win_inv_def win_init_def in_pool_def fake_span_def)

lemma touch_simps [simp]:
  "ws_real (touch now i st) = ws_real st" "ws_fake (touch now i st) = ws_fake st"
  "ws_next (touch now i st) = ws_next st" "ws_port (touch now i st) = ws_port st"
  "length (ws_flows (touch now i st)) = length (ws_flows st)"
  by (simp_all add: touch_def)

lemma touch_flow:
  "j < length (ws_flows st) \<Longrightarrow>
   wf_fake (ws_flows (touch now i st) ! j) = wf_fake (ws_flows st ! j) \<and>
   key_of (ws_flows (touch now i st) ! j) = key_of (ws_flows st ! j)"
  by (cases "i = j") (auto simp: touch_def key_of_def)

lemma win_inv_touch: "win_inv st \<Longrightarrow> win_inv (touch now i st)"
  unfolding win_inv_def by (simp add: touch_flow)

lemma map_of_fold_delete:
  "map_of (fold (\<lambda>e fk. if P e then AList.delete (g e) fk else fk) es fk) p =
     (if \<exists>e \<in> set es. P e \<and> g e = p then None else map_of fk p)"
  by (induction es arbitrary: fk) (auto simp: AList.delete_conv')

lemma map_of_filter_distinct:
  "distinct (map fst es) \<Longrightarrow>
   map_of (filter P es) k = (case map_of es k of None \<Rightarrow> None | Some v \<Rightarrow> if P (k, v) then Some v else None)"
  by (induction es) (auto simp: map_of_eq_None_iff rev_image_eqI split: option.splits)

lemma win_inv_gc:
  assumes "win_inv st"
  shows "win_inv (gc_locked now st)"
proof -
  note D = assms [unfolded win_inv_def]
  let ?stale = "\<lambda>i. is_stale now (ws_flows st ! i)"
  have real: "map_of (ws_real (gc_locked now st)) k = Some i \<longleftrightarrow>
      map_of (ws_real st) k = Some i \<and> \<not> ?stale i" for k i
  proof -
    have "distinct (map fst (ws_real st))" using D by blast
    from map_of_filter_distinct [OF this, of "\<lambda>e. \<not> ?stale (snd e)" k] show ?thesis
      by (cases "map_of (ws_real st) k") (auto simp: gc_locked_def)
  qed
  have fake: "map_of (ws_fake (gc_locked now st)) p = Some i \<longleftrightarrow>
      map_of (ws_fake st) p = Some i \<and> \<not> ?stale i" for p i
  proof -
    have "(\<exists>e \<in> set (ws_real st). ?stale (snd e) \<and> wf_fake (ws_flows st ! snd e) = p) \<longleftrightarrow> ?stale i"
      if i: "map_of (ws_fake st) p = Some i"
    proof
      assume "\<exists>e \<in> set (ws_real st). ?stale (snd e) \<and> wf_fake (ws_flows st ! snd e) = p"
      then obtain k j where j: "(k, j) \<in> set (ws_real st)" "?stale j" "wf_fake (ws_flows st ! j) = p"
        by auto
      then have "map_of (ws_real st) k = Some j"
        using D by simp
      then have "map_of (ws_fake st) p = Some j"
        using win_inv_real [OF assms] j(3) by blast
      with i j(2) show "?stale i" by simp
    next
      assume "?stale i"
      moreover have "(key_of (ws_flows st ! i), i) \<in> set (ws_real st)" "wf_fake (ws_flows st ! i) = p"
        using win_inv_fake [OF assms i] by (auto dest: map_of_SomeD)
      ultimately show "\<exists>e \<in> set (ws_real st). ?stale (snd e) \<and> wf_fake (ws_flows st ! snd e) = p"
        by force
    qed
    then show ?thesis
      by (auto simp: gc_locked_def map_of_fold_delete)
  qed
  have rest: "ws_flows (gc_locked now st) = ws_flows st" "ws_next (gc_locked now st) = ws_next st"
    "distinct (map fst (ws_real (gc_locked now st)))"
    using D by (simp_all add: gc_locked_def distinct_map_filter)
  show ?thesis
    unfolding win_inv_def rest(1,2) real fake using D rest(3) by blast
qed

text \<open>A flow that is entered has its key, and leaves the other flows alone.\<close>

lemma open_flow_inv:
  assumes "win_inv st" "map_of (ws_real st) (key_of f) = None"
    and "open_flow now (key_of f) f st = (st', r)"
  shows "win_inv st'"
    and "r = Some i \<Longrightarrow> map_of (ws_real st') (key_of f) = Some i \<and> i < length (ws_flows st') \<and>
      (\<exists>p. ws_flows st' ! i = f\<lparr>wf_fake := p\<rparr> \<and> map_of (ws_fake st') p = Some i)"
proof -
  obtain a nx where a: "alloc_fake fake_span (ws_fake st) (ws_next st) = (a, nx)"
    by (cases "alloc_fake fake_span (ws_fake st) (ws_next st)")
  have "in_pool (ws_next st)"
    using assms(1) by (simp add: win_inv_def)
  from alloc_fake_inv [OF a this]
  have nx: "in_pool nx" and free: "\<And>p. a = Some p \<Longrightarrow> map_of (ws_fake st) p = None \<and> in_pool p"
    by auto
  have key: "key_of (f\<lparr>wf_fake := p\<rparr>) = key_of f" for p
    by (simp add: key_of_def)
  show "win_inv st'"
  proof (cases a)
    case None
    have "win_inv (st\<lparr>ws_next := nx\<rparr>)"
      using assms(1) nx by (simp add: win_inv_def)
    then show ?thesis
      using assms(3) win_inv_gc by (auto simp: open_flow_def a None)
  next
    case (Some p)
    have D: "map_of (ws_fake st) p = None" "in_pool p"
      using free Some by auto
    have s: "ws_flows st' = ws_flows st @ [f\<lparr>wf_fake := p\<rparr>]" "ws_next st' = nx"
      "ws_real st' = AList.update (key_of f) (length (ws_flows st)) (ws_real st)"
      "ws_fake st' = AList.update p (length (ws_flows st)) (ws_fake st)"
      using assms(3) by (auto simp: open_flow_def a Some Let_def)
    show ?thesis
      unfolding win_inv_def s AList.update_conv'
    proof (intro conjI allI impI)
      fix k i
      assume k: "((map_of (ws_real st))(key_of f \<mapsto> length (ws_flows st))) k = Some i"
      show "i < length (ws_flows st @ [f\<lparr>wf_fake := p\<rparr>])"
        and "k = key_of ((ws_flows st @ [f\<lparr>wf_fake := p\<rparr>]) ! i)"
        and "((map_of (ws_fake st))(p \<mapsto> length (ws_flows st)))
          (wf_fake ((ws_flows st @ [f\<lparr>wf_fake := p\<rparr>]) ! i)) = Some i"
        using k win_inv_real [OF assms(1), of k i] D(1)
        by (auto simp: nth_append key split: if_splits)
    next
      fix q i
      assume q: "((map_of (ws_fake st))(p \<mapsto> length (ws_flows st))) q = Some i"
      show "i < length (ws_flows st @ [f\<lparr>wf_fake := p\<rparr>])"
        and "wf_fake ((ws_flows st @ [f\<lparr>wf_fake := p\<rparr>]) ! i) = q" and "in_pool q"
        and "((map_of (ws_real st))(key_of f \<mapsto> length (ws_flows st)))
          (key_of ((ws_flows st @ [f\<lparr>wf_fake := p\<rparr>]) ! i)) = Some i"
        using q win_inv_fake [OF assms(1), of q i] D(2) assms(2)
        by (auto simp: nth_append key split: if_splits)
    next
      show "distinct (map fst (AList.update (key_of f) (length (ws_flows st)) (ws_real st)))"
        using assms(1) by (simp add: win_inv_def distinct_update)
      show "in_pool nx" by (rule nx)
    qed
  qed
  assume "r = Some i"
  with assms(3) show "map_of (ws_real st') (key_of f) = Some i \<and> i < length (ws_flows st') \<and>
      (\<exists>p. ws_flows st' ! i = f\<lparr>wf_fake := p\<rparr> \<and> map_of (ws_fake st') p = Some i)"
    by (auto simp: open_flow_def a Let_def AList.update_conv' split: option.splits)
qed

section \<open>The runs of the table\<close>

inductive win_step :: "win_state \<Rightarrow> win_state \<Rightarrow> bool" where
  tcp: "win_rewrite now st pk = (st', v) \<Longrightarrow> win_step st st'"
| udp: "rewrite_udp now ip4 sport dport pkt st = Some st' \<Longrightarrow> win_step st st'"
| v6: "win_step st (capture_only_v6 now proto client orig cport oport st)"
| tick: "win_step st (gc_locked now st)"

inductive win_reachable :: "nat \<Rightarrow> win_state \<Rightarrow> bool" for port where
  start: "win_reachable port (win_init port)"
| step: "win_reachable port st \<Longrightarrow> win_step st st' \<Longrightarrow> win_reachable port st'"

inductive_cases win_stepE: "win_step st st'"

lemma record_flow_inv: "win_inv st \<Longrightarrow> win_inv (record_flow now proto client orig cport oport st)"
proof -
  assume inv: "win_inv st"
  let ?f = "\<lparr>wf_dst_ip = orig, wf_dst_port = oport, wf_client_ip = client,
    wf_client_port = cport, wf_proto = proto, wf_fake = 0, wf_last = 0\<rparr>"
  have key: "flow_key proto client cport = key_of ?f"
    by (simp add: key_of_def)
  show ?thesis
  proof (cases "map_of (ws_real st) (key_of ?f)")
    case None
    obtain st' r where o: "open_flow now (key_of ?f) ?f st = (st', r)"
      by (cases "open_flow now (key_of ?f) ?f st")
    show ?thesis
      using open_flow_inv(1) [OF inv None o] None o
      by (cases r) (simp_all add: record_flow_def key win_inv_touch)
  qed (simp add: record_flow_def key inv win_inv_touch)
qed

definition tcp_flow :: "tcp_packet \<Rightarrow> win_flow" where
  "tcp_flow pk = \<lparr>wf_dst_ip = v4_to16 (tp_dst pk), wf_dst_port = be16 (tp_dport pk),
     wf_client_ip = v4_to16 (tp_src pk), wf_client_port = be16 (tp_sport pk), wf_proto = 4,
     wf_fake = 0, wf_last = 0\<rparr>"

definition redirected :: "win_state \<Rightarrow> nat \<Rightarrow> tcp_packet \<Rightarrow> tcp_packet" where
  "redirected st i pk =
     (if tp_src pk = loopback_v4 \<and> tp_dst pk = loopback_v4 \<and> be16 (tp_dport pk) = word_of_nat (ws_port st)
      then pk
      else pk\<lparr>tp_src := loopback_v4, tp_dst := loopback_v4,
             tp_sport := h16 (word_of_nat (wf_fake (ws_flows st ! i))),
             tp_dport := h16 (word_of_nat (ws_port st)), tp_outbound := False\<rparr>)"

text \<open>The three things \<open>rewrite\<close> does with a packet.\<close>

lemma win_rewrite_known:
  "map_of (ws_real st) (key_of (tcp_flow pk)) = Some i \<Longrightarrow>
   win_rewrite now st pk = (touch now i st, Some (redirected st i pk))"
  by (simp add: win_rewrite_def redirected_def Let_def key_of_def tcp_flow_def)

lemma win_rewrite_other:
  "map_of (ws_real st) (key_of (tcp_flow pk)) = None \<Longrightarrow> \<not> tp_syn pk \<or> tp_ack pk \<Longrightarrow>
   win_rewrite now st pk = (st, Some pk)"
  by (auto simp: win_rewrite_def Let_def key_of_def tcp_flow_def)

lemma open_flow_port: "open_flow now key f st = (st', r) \<Longrightarrow> ws_port st' = ws_port st"
  by (auto simp: open_flow_def gc_locked_def Let_def split: prod.splits option.splits)

lemma win_rewrite_syn:
  assumes "map_of (ws_real st) (key_of (tcp_flow pk)) = None" "tp_syn pk" "\<not> tp_ack pk"
    and "open_flow now (key_of (tcp_flow pk)) (tcp_flow pk) st = (st', r)"
  shows "win_rewrite now st pk = (case r of None \<Rightarrow> (st', None)
     | Some i \<Rightarrow> (touch now i st', Some (redirected st' i pk)))"
  using assms(1-4) open_flow_port [OF assms(4)]
  by (cases r) (simp_all add: win_rewrite_def redirected_def Let_def key_of_def tcp_flow_def)

lemma win_rewrite_inv:
  assumes "win_inv st" "win_rewrite now st pk = (st', v)"
  shows "win_inv st'"
proof (cases "map_of (ws_real st) (key_of (tcp_flow pk))")
  case None
  obtain st1 r where o: "open_flow now (key_of (tcp_flow pk)) (tcp_flow pk) st = (st1, r)"
    by (cases "open_flow now (key_of (tcp_flow pk)) (tcp_flow pk) st")
  from open_flow_inv(1) [OF assms(1) None o] have "win_inv st1" .
  then show ?thesis
    using assms None o win_rewrite_other [OF None] win_rewrite_syn [OF None _ _ o]
    by (cases "tp_syn pk \<and> \<not> tp_ack pk"; cases r) (auto simp: win_inv_touch)
next
  case (Some i)
  then show ?thesis
    using assms win_inv_touch win_rewrite_known by auto
qed

lemma win_step_inv: "win_step st st' \<Longrightarrow> win_inv st \<Longrightarrow> win_inv st'"
  by (erule win_stepE)
    (auto simp: rewrite_udp_def capture_only_v6_def record_flow_inv win_inv_gc
      intro: win_rewrite_inv split: option.splits prod.splits)

lemma win_reachable_inv: "win_reachable port st \<Longrightarrow> win_inv st"
  by (induction rule: win_reachable.induct) (auto simp: win_inv_init win_step_inv)

text \<open>
 C7: fake ports are not shared by table entries. In every reachable state of the table, whatever
  packets and clean-ups led to it, the entries under different keys have fake ports of the pool
  that differ from each other, and the fake port of an entry leads back to it. (A key holds the
  client's address and the low byte of its port only: connections that agree in both share an entry.)
\<close>

theorem fake_ports_unique:
  assumes "win_reachable port st" and "map_of (ws_real st) k = Some i"
  shows "in_pool (wf_fake (ws_flows st ! i)) \<and>
    lookup_fake st (wf_fake (ws_flows st ! i)) = Some (ws_flows st ! i) \<and>
    (\<forall>k' j. map_of (ws_real st) k' = Some j \<longrightarrow> k \<noteq> k' \<longrightarrow>
      wf_fake (ws_flows st ! i) \<noteq> wf_fake (ws_flows st ! j))"
proof -
  have inv: "win_inv st"
    by (rule win_reachable_inv) (rule assms(1))
  note r = win_inv_real [OF inv assms(2)]
  have "wf_fake (ws_flows st ! i) \<noteq> wf_fake (ws_flows st ! j)"
    if "map_of (ws_real st) k' = Some j" "k \<noteq> k'" for k' j
    using win_inv_real [OF inv that(1)] r that by auto
  moreover have "in_pool (wf_fake (ws_flows st ! i))"
    using win_inv_fake [OF inv] r by blast
  ultimately show ?thesis
    using r by (simp add: lookup_fake_def)
qed

text \<open>The image of the address \<open>a.b.c.d\<close> in the memory of a little-endian machine.\<close>

definition addr_image :: "byte \<Rightarrow> byte \<Rightarrow> byte \<Rightarrow> byte \<Rightarrow> 32 word" where
  "addr_image a b c d =
     ucast a OR push_bit 8 (ucast b) OR push_bit 16 (ucast c) OR push_bit 24 (ucast d)"

lemma loopback_is_image: "loopback_v4 = addr_image 127 0 0 1"
  by (simp add: loopback_v4_def addr_image_def)

lemma byte_of_image:
  "ucast (drop_bit 24 (addr_image a b c d)) = d" "ucast (drop_bit 16 (addr_image a b c d)) = c"
  "ucast (drop_bit 8 (addr_image a b c d)) = b" "ucast (addr_image a b c d) = a"
  unfolding addr_image_def
  by (rule bit_word_eqI; auto simp: bit_simps dest: bit_imp_le_length)+

lemma last4_v4_to16: "last4 (v4_to16 (addr_image a b c d)) = ipv4 d c b a"
  by (simp add: last4_def v4_to16_def byte_of_image nth_append)

lemma is_loopback_v4: "is_loopback (ipv4 127 0 0 1)"
  by (simp add: is_loopback_def ipv4_def to4_def v4_in_v6_prefix_def)

text \<open>
  A connection that the table redirects is accepted with the ports of its two ends, but
  with both addresses reversed: \<open>v4To16\<close> takes the header words apart from the top, while they
  hold the first byte at the bottom, as in the constant for the loopback address. A client that
  opens a connection to \<open>e.f.g.h\<close> is connected to \<open>h.g.f.e\<close>.
\<close>

theorem accept_reverses_addresses:
  assumes "win_reachable port st"
    and "tp_src pk = addr_image a b c d" and "tp_dst pk = addr_image e f g h"
    and "tp_src pk \<noteq> loopback_v4" and "tp_syn pk" and "\<not> tp_ack pk"
    and "map_of (ws_real st) (flow_key 4 (v4_to16 (tp_src pk)) (be16 (tp_sport pk))) = None"
    and "win_rewrite now st pk = (st', Some pk')"
  shows "\<exists>p. tp_sport pk' = h16 (word_of_nat p) \<and> win_accept st' (ipv4 127 0 0 1) p =
     Some (\<lparr>ta_ip = ipv4 h g f e, ta_port = unat (be16 (tp_dport pk))\<rparr>,
           \<lparr>ta_ip = ipv4 d c b a, ta_port = unat (be16 (tp_sport pk))\<rparr>)"
proof -
  let ?f = "tcp_flow pk"
  have inv: "win_inv st" by (rule win_reachable_inv) (rule assms(1))
  have none: "map_of (ws_real st) (key_of ?f) = None"
    using assms(7) by (simp add: key_of_def tcp_flow_def)
  obtain st1 r where o: "open_flow now (key_of ?f) ?f st = (st1, r)"
    by (cases "open_flow now (key_of ?f) ?f st")
  note rw = win_rewrite_syn [OF none assms(5,6) o]
  then obtain i where r: "r = Some i" and st': "st' = touch now i st1" and pk': "pk' = redirected st1 i pk"
    using assms(8) by (cases r) auto
  obtain p where i: "i < length (ws_flows st1)" "ws_flows st1 ! i = ?f\<lparr>wf_fake := p\<rparr>"
    and p: "map_of (ws_fake st1) p = Some i"
    using open_flow_inv(2) [OF inv none o r] by blast
  have "win_inv st1" by (rule open_flow_inv(1) [OF inv none o])
  from win_inv_fake [OF this p] have pool: "in_pool p" by simp
  have "tp_sport pk' = h16 (word_of_nat p)"
    using assms(4) by (simp add: pk' redirected_def i(2))
  moreover have "lookup_fake st' p = Some (?f\<lparr>wf_fake := p, wf_last := now\<rparr>)"
    using p i by (simp add: lookup_fake_def st' touch_def)
  moreover have "to4 (ipv4 127 0 0 1) \<noteq> None"
    by (simp add: ipv4_def)
  ultimately show ?thesis
    using pool is_loopback_v4 last4_v4_to16
    by (intro exI [of _ p]) (simp add: win_accept_def in_pool_def tcp_flow_def assms(2,3))
qed

text \<open>
  Two connections of a client whose ports agree in their low byte are one connection for
  the table: the second is redirected with the fake port of the first, whatever its
  destination, so that the listener connects it to the destination of the first.
\<close>

theorem port_collision:
  assumes "tp_src p1 = tp_src p2" and "(ucast (be16 (tp_sport p1)) :: byte) = ucast (be16 (tp_sport p2))"
    and "tp_src p1 \<noteq> loopback_v4" and "tp_syn p1" and "\<not> tp_ack p1"
    and "win_reachable port st"
    and "win_rewrite now st p1 = (st1, Some q1)" and "win_rewrite now' st1 p2 = (st2, Some q2)"
  shows "tp_sport q2 = tp_sport q1 \<and> tp_dst q2 = tp_dst q1 \<and> tp_dport q2 = tp_dport q1"
proof -
  have inv: "win_inv st" by (rule win_reachable_inv) (rule assms(6))
  have key: "key_of (tcp_flow p2) = key_of (tcp_flow p1)"
    using assms(1,2) by (simp add: key_of_def tcp_flow_def flow_key_def)
  have "\<exists>i. map_of (ws_real st1) (key_of (tcp_flow p1)) = Some i \<and> q1 = redirected st1 i p1"
  proof (cases "map_of (ws_real st) (key_of (tcp_flow p1))")
    case None
    obtain s r where o: "open_flow now (key_of (tcp_flow p1)) (tcp_flow p1) st = (s, r)"
      by (cases "open_flow now (key_of (tcp_flow p1)) (tcp_flow p1) st")
    from win_rewrite_syn [OF None assms(4,5) o] assms(7) obtain i
      where r: "r = Some i" and st1: "st1 = touch now i s" and q1: "q1 = redirected s i p1"
      by (cases r) auto
    from open_flow_inv(2) [OF inv None o r] have "i < length (ws_flows s)"
      "map_of (ws_real s) (key_of (tcp_flow p1)) = Some i" by auto
    then show ?thesis
      using st1 q1 touch_flow by (auto simp: redirected_def)
  next
    case (Some i)
    then show ?thesis
      using win_rewrite_known [OF Some] assms(7) win_inv_real [OF inv Some] touch_flow
      by (auto simp: redirected_def)
  qed
  then obtain i where i: "map_of (ws_real st1) (key_of (tcp_flow p1)) = Some i"
    and q1: "q1 = redirected st1 i p1" by blast
  have q2: "q2 = redirected st1 i p2"
    using win_rewrite_known [of st1 p2 i now'] i key assms(8) by simp
  show ?thesis
    using assms(1,3) by (simp_all add: q1 q2 redirected_def)
qed

section \<open>Packets of IPv6\<close>

lemma v6_ports_no_panic [no_panic]: "40 \<le> length pkt \<Longrightarrow> v6_ports pkt off \<noteq> None"
  unfolding v6_ports_def by (intro no_panic; simp)

lemma v6_loop_no_panic [no_panic]: "40 \<le> length pkt \<Longrightarrow> v6_loop k pkt off nh \<noteq> None"
proof (induction k arbitrary: off nh)
  case 0
  then show ?case
    by (subst v6_loop.simps) (simp only: nat.case, intro no_panic; simp)
next
  case (Suc k)
  show ?case
    by (subst v6_loop.simps, simp only: nat.case Let_def, intro no_panic; use Suc in simp)
qed

text \<open>
  \<open>parseV6Flow\<close> accepts every byte sequence, and it returns after at most eight extension
  headers.
\<close>

theorem parse_v6_never_panics: "parse_v6_flow pkt \<noteq> None"
  unfolding parse_v6_flow_def by (intro no_panic; cases pkt; simp)

text \<open>
  Without extension headers the ports are read at their place. Behind one, the type of the
  next header is taken from the first byte after the extension header, which is the high byte
  of the source port, and not from its first byte: a TCP packet behind a hop-by-hop header is
  not recognised.
\<close>

definition v6_demo_head :: "byte \<Rightarrow> bytes" where
  "v6_demo_head nh = [0x60, 0, 0, 0, 0, 4, nh, 64] @ replicate 32 1"

lemma v6_plain_demo:
  "parse_v6_flow (v6_demo_head 6 @ [4, 210, 1, 187]) =
     Some (Some (replicate 16 1, replicate 16 1, 1234, 443))"
  by code_simp

lemma v6_extension_demo:
  "parse_v6_flow (v6_demo_head 0 @ [6, 0, 0, 0, 0, 0, 0, 0] @ [4, 210, 1, 187]) = Some None"
  by code_simp

section \<open>Witnesses\<close>

definition win_demo_syn :: "16 word \<Rightarrow> byte \<Rightarrow> tcp_packet" where
  "win_demo_syn sport x = \<lparr>tp_src = addr_image 10 0 0 5, tp_dst = addr_image 1 2 3 x,
     tp_sport = h16 sport, tp_dport = h16 443, tp_syn = True, tp_ack = False, tp_outbound = True\<rparr>"

definition win_demo_state :: win_state where
  "win_demo_state = fst (win_rewrite 5 (win_init 7893) (win_demo_syn 1000 4))"

lemma be16_be16 [simp]: "be16 (be16 v) = v"
proof (rule bit_word_eqI)
  fix n
  assume "n < LENGTH(16)"
  then show "bit (be16 (be16 v)) n = bit v n"
    by (cases "n < 8") (auto simp: be16_def bit_simps dest: bit_imp_le_length)
qed

lemma alloc_fake_free: "0 < k \<Longrightarrow> map_of taken p = None \<Longrightarrow> alloc_fake k taken p = (Some p, next_fake p)"
  by (cases k) auto

lemma win_demo_src: "tp_src (win_demo_syn sport x) = addr_image 10 0 0 5"
  "tp_dst (win_demo_syn sport x) = addr_image 1 2 3 x" "tp_src (win_demo_syn sport x) \<noteq> loopback_v4"
  "tp_syn (win_demo_syn sport x)" "\<not> tp_ack (win_demo_syn sport x)"
  by (simp_all add: win_demo_syn_def loopback_v4_def addr_image_def)

lemma win_demo_open:
  "open_flow 5 (key_of (tcp_flow pk)) (tcp_flow pk) (win_init 7893) =
     (\<lparr>ws_flows = [(tcp_flow pk)\<lparr>wf_fake := 40000\<rparr>], ws_real = [(key_of (tcp_flow pk), 0)],
       ws_fake = [(40000, 0)], ws_next = 40001, ws_port = 7893\<rparr>, Some 0)"
  by (simp add: open_flow_def win_init_def alloc_fake_free fake_span_def fake_base_def next_fake_def)

lemma win_demo_none: "map_of (ws_real (win_init 7893)) k = None"
  by (simp add: win_init_def)

lemma win_demo_rewrite:
  "\<exists>q. win_rewrite 5 (win_init 7893) (win_demo_syn 1000 4) = (win_demo_state, Some q)"
  using win_rewrite_syn [OF win_demo_none win_demo_src(4,5) win_demo_open]
  by (simp add: win_demo_state_def)

lemma win_demo_real:
  "map_of (ws_real win_demo_state) (key_of (tcp_flow (win_demo_syn 1000 4))) = Some 0"
  using win_rewrite_syn [OF win_demo_none win_demo_src(4,5) win_demo_open]
  by (simp add: win_demo_state_def)

theorem fake_ports_unique_witness:
  "in_pool (wf_fake (ws_flows win_demo_state ! 0))"
proof -
  obtain q where "win_rewrite 5 (win_init 7893) (win_demo_syn 1000 4) = (win_demo_state, Some q)"
    using win_demo_rewrite by blast
  then have "win_reachable 7893 win_demo_state"
    by (intro win_reachable.step [OF win_reachable.start] win_step.tcp)
  from fake_ports_unique [OF this win_demo_real] show ?thesis by blast
qed

theorem accept_reverses_addresses_witness:
  "\<exists>p. win_accept win_demo_state (ipv4 127 0 0 1) p =
     Some (\<lparr>ta_ip = ipv4 4 3 2 1, ta_port = 443\<rparr>, \<lparr>ta_ip = ipv4 5 0 0 10, ta_port = 1000\<rparr>)"
proof -
  obtain q where q: "win_rewrite 5 (win_init 7893) (win_demo_syn 1000 4) = (win_demo_state, Some q)"
    using win_demo_rewrite by blast
  have "unat (be16 (tp_dport (win_demo_syn 1000 4))) = 443" "unat (be16 (tp_sport (win_demo_syn 1000 4))) = 1000"
    by (simp_all add: win_demo_syn_def)
  then show ?thesis
    using accept_reverses_addresses [OF win_reachable.start win_demo_src(1,2,3,4,5) win_demo_none q]
    by auto
qed

theorem port_collision_witness:
  "\<exists>st q. win_rewrite 6 win_demo_state (win_demo_syn 1256 9) = (st, Some q) \<and>
     tp_sport q = tp_sport (the (snd (win_rewrite 5 (win_init 7893) (win_demo_syn 1000 4))))"
proof -
  obtain q where q: "win_rewrite 5 (win_init 7893) (win_demo_syn 1000 4) = (win_demo_state, Some q)"
    using win_demo_rewrite by blast
  have low: "(ucast (be16 (tp_sport (win_demo_syn 1000 4))) :: byte) = ucast (be16 (tp_sport (win_demo_syn 1256 9)))"
    by (simp add: win_demo_syn_def)
  have "key_of (tcp_flow (win_demo_syn 1256 9)) = key_of (tcp_flow (win_demo_syn 1000 4))"
    using low win_demo_src by (simp add: key_of_def tcp_flow_def flow_key_def)
  then have r: "win_rewrite 6 win_demo_state (win_demo_syn 1256 9) =
      (touch 6 0 win_demo_state, Some (redirected win_demo_state 0 (win_demo_syn 1256 9)))"
    using win_demo_real by (intro win_rewrite_known) simp
  have src: "tp_src (win_demo_syn 1000 4) = tp_src (win_demo_syn 1256 9)"
    by (simp add: win_demo_src)
  from port_collision [OF src low win_demo_src(3,4,5) win_reachable.start q r] q r show ?thesis
    by simp
qed

end
