(* ===== verification/Listener.thy ===== *)
theory Listener
  imports Mitm Flow Web Tls_Sni Tproxy
begin

text \<open>
  The inbound side (\<open>listener/http.go\<close>): starting and stopping the listeners, the handler of
  HTTP requests and CONNECT tunnels, the handler of transparent connections, the relay and the
  life cycle of a flow.

  A handler is a function from what the client sends and an environment (what the network, the
  clock and the parser of URLs answer) to the list of its effects in their order. The package
  \<open>net/url\<close> is the parameter \<open>en_url\<close>.
\<close>

section \<open>Options and environment\<close>

record url =
  u_scheme :: string
  u_host :: string
  u_path :: string
  u_request_uri :: string

record options =
  op_router :: router
  op_mitm :: "mitm_handler option"
  op_actions :: "url_action list"
  op_hooks :: "hook option list"
  op_sinks :: "bool list"
  op_upstream :: bool
  op_stats :: bool

text \<open>A dial is answered with an error or with what the peer is going to send.\<close>

record http_env =
  en_re :: regex
  en_lookup :: resolver
  en_order :: "string list"
  en_world :: world
  en_url :: "string \<Rightarrow> url option"
  en_dial :: "string \<Rightarrow> string + string"
  en_upstream :: "string \<Rightarrow> string + string"
  en_proxy :: "pref \<Rightarrow> string \<Rightarrow> string + string"
  en_mitm :: mitm_env
  en_origin :: "string \<Rightarrow> string"
  en_write_err :: "string option"
  en_leftover :: "mitm_err \<Rightarrow> string"
  en_chunks :: "string \<Rightarrow> string list"
  en_buffered :: nat
  en_client :: string
  en_now :: nat
  en_stamp :: string

datatype route = RawDial | UpstreamDial | ProxyDial pref

datatype lev =
    Say string
  | Mitm "mitm_event list"
  | Dialled route string bool
  | Forward string
  | HookRun string flow bool
  | SinkWrite nat flow
  | RelayUp "string list"
  | RelayDown "string list"
  | RemoteClose
  | HangUp

record lstate =
  ls_counter :: "64 word"
  ls_stats :: stats

definition established :: string where
  "established = ''HTTP/1.1 200 Connection Established'' @ crlf @ crlf"

section \<open>Reading requests\<close>

definition parse_request_line :: "string \<Rightarrow> (string \<times> string \<times> string) option" where
  "parse_request_line line = (let parts = str_fields line in
     if length parts < 2 then None
     else Some (parts ! 0, parts ! 1, if 3 \<le> length parts then parts ! 2 else []))"

text \<open>\<open>readRequestHeaders\<close> after \<open>n\<close> header lines: the further lines and the unread rest.\<close>

function read_request_headers :: "nat \<Rightarrow> string \<Rightarrow> string list \<times> string" where
  "read_request_headers n s = (case read_line s of
       None \<Rightarrow> (let l = trim_eol s in (if l = [] then [] else [l], []))
     | Some (l0, rest) \<Rightarrow> (let l = trim_eol l0 in
         if l = [] then ([], rest)
         else if 200 \<le> n + 1 \<or> 8192 < length l then ([l], rest)
         else (let (hs, rest') = read_request_headers (n + 1) rest in (l # hs, rest'))))"
  by pat_completeness auto
termination
  by (relation "measure (\<lambda>(n, s). length s)") (auto dest: read_line_shorter)

declare read_request_headers.simps [simp del]

text \<open>The lines of a request head up to the empty one.\<close>

function head_lines :: "string \<Rightarrow> string list" where
  "head_lines s = (case read_line s of
       None \<Rightarrow> []
     | Some (l0, rest) \<Rightarrow> (let l = trim_eol l0 in if l = [] then [] else l # head_lines rest))"
  by pat_completeness auto
termination
  by (relation "measure length") (auto dest: read_line_shorter)

declare head_lines.simps [simp del]

fun host_header :: "string list \<Rightarrow> string option" where
  "host_header [] = None"
| "host_header (h # hs) = (case index_byte h CHR '':'' of
       None \<Rightarrow> host_header hs
     | Some i \<Rightarrow> (if 0 < i \<and> equal_fold (trim_space (take i h)) ''host''
                 then Some (trim_space (drop (i + 1) h)) else host_header hs))"

definition parse_first_request :: "string \<Rightarrow> flow \<Rightarrow> flow" where
  "parse_first_request b f = (case head_lines b of
       [] \<Rightarrow> f
     | l # hs \<Rightarrow> (let parts = str_fields l in
         if length parts < 2 then f
         else (let f1 = f\<lparr>fl_method := parts ! 0, fl_path := parts ! 1,
                 fl_req_proto := (if 3 \<le> length parts then parts ! 2 else fl_req_proto f),
                 fl_req_headers := hs\<rparr>
           in case host_header hs of None \<Rightarrow> f1 | Some h \<Rightarrow> f1\<lparr>fl_host := h\<rparr>)))"

section \<open>The relay\<close>

text \<open>
  \<open>io.Copy\<close>: every chunk that is read is written; a write that reports another number of
  bytes than it was given ends the copying. The result is what has been written.
\<close>

fun io_copy :: "(string \<Rightarrow> string) \<Rightarrow> string list \<Rightarrow> string list" where
  "io_copy w [] = []"
| "io_copy w (b # bs) = (if b = [] then io_copy w bs
     else if length (w b) \<noteq> length b then [w b] else w b # io_copy w bs)"

definition total_length :: "string list \<Rightarrow> 64 word" where
  "total_length bs = of_nat (length (concat bs))"

definition emit_done :: "options \<Rightarrow> http_env \<Rightarrow> flow \<Rightarrow> lev list" where
  "emit_done op en f0 = (let f1 = finalize (en_now en) f0; (f2, ok) = emit (op_hooks op) ''done'' f1 in
     HookRun ''done'' f1 ok #
     (if ok then map (\<lambda>i. SinkWrite i f2) (filter (\<lambda>i. op_sinks op ! i) [0..<length (op_sinks op)]) else []))"

text \<open>
  \<open>statsConn\<close> wraps both ends: what one end reads counts as download, what it writes as
  upload. \<open>up\<close> is what is read from the client and written to the remote end, \<open>down\<close> what is
  read from the remote end, and \<open>down'\<close> what is written to the client for it.
\<close>

definition relay_stats ::
  "stats \<Rightarrow> string \<Rightarrow> string list \<Rightarrow> string list \<Rightarrow> string list \<Rightarrow> stats" where
  "relay_stats s nm up down down' = (let
     s1 = add_connection s nm;
     s2 = record_traffic s1 nm 0 (total_length up);
     s3 = record_traffic s2 nm (total_length up) 0;
     s4 = record_traffic s3 nm 0 (total_length down);
     s5 = record_traffic s4 nm (total_length down') 0
   in remove_connection s5 nm)"

text \<open>\<open>relay\<close>: both ends count into the same two counters of the flow. \<open>w\<close> is what a write to the client makes of a chunk.\<close>

definition relay ::
  "options \<Rightarrow> http_env \<Rightarrow> string \<Rightarrow> flow option \<Rightarrow> (string \<Rightarrow> string) \<Rightarrow> string list \<Rightarrow> string list \<Rightarrow>
   lstate \<Rightarrow> lev list \<times> lstate" where
  "relay op en nm fo w up down st = (let
     up' = io_copy id up; down' = io_copy w down;
     read = take (length down') (filter (\<lambda>b. b \<noteq> []) down);
     st' = (if op_stats op then st\<lparr>ls_stats := relay_stats (ls_stats st) nm up' read down'\<rparr> else st)
   in ([RelayUp up', RelayDown down'] @
       (case fo of None \<Rightarrow> []
        | Some f \<Rightarrow> emit_done op en (f\<lparr>fl_req_bytes := total_length up' + total_length up',
            fl_resp_bytes := total_length read + total_length down'\<rparr>)),
      st'))"

section \<open>Requests\<close>

definition connect_via :: "options \<Rightarrow> http_env \<Rightarrow> pref \<Rightarrow> string \<Rightarrow> lev \<times> (string + string)" where
  "connect_via op en p target =
     (let (r, res) = (if pref_name (en_world en) p = ''DIRECT''
            then (if op_upstream op then (UpstreamDial, en_upstream en target) else (RawDial, en_dial en target))
            else (ProxyDial p, en_proxy en p target))
      in (Dialled r target (\<exists>s. res = Inr s), res))"

definition pick_for :: "options \<Rightarrow> http_env \<Rightarrow> string \<Rightarrow> perr + pref" where
  "pick_for op en addr = pick (en_lookup en) (en_order en) (en_world en) (op_router op) addr"

text \<open>
  A request other than CONNECT: the flow is made, the hooks and the rules are asked, and the
  request is forwarded. \<open>unread\<close> is what the relay reads from the client: the connection behind
  the buffer of the request reader.
\<close>

definition plain_flow ::
  "options \<Rightarrow> http_env \<Rightarrow> string \<Rightarrow> flow \<Rightarrow> url \<Rightarrow> string \<Rightarrow> pref \<Rightarrow> string \<Rightarrow> lstate \<Rightarrow> lev list \<times> lstate"
where
  "plain_flow op en line fl u addr p unread st =
     (let (fl1, ok) = emit (op_hooks op) ''request'' fl;
          hook = HookRun ''request'' fl ok;
          r = match_url_actions (en_re en) (op_actions op) line (u_path u)
      in if \<not> ok then
           (hook # emit_done op en (fl1\<lparr>fl_error := ''hook rejected request'', fl_status := 403\<rparr>) @ [HangUp], st)
         else if ur_action r \<noteq> [] then
           (hook # map Say (write_url_response r) @ emit_done op en (fl1\<lparr>fl_status := ur_status r\<rparr>) @ [HangUp], st)
         else (case connect_via op en p addr of
             (dialled, Inl err) \<Rightarrow>
               (hook # dialled # emit_done op en
                  (mark_error (en_now en) (''connect '' @ addr @ '': '' @ err) fl1) @ [HangUp], st)
           | (dialled, Inr peer) \<Rightarrow>
               (let rq = fl_method fl @ '' '' @ u_request_uri u @ '' HTTP/1.1'' @ crlf @
                      ''Host: '' @ u_host u @ crlf @ crlf;
                    (evs, st') = relay op en (pref_name (en_world en) p) (Some fl1) id
                      (en_chunks en unread) (en_chunks en peer) st
                in ([hook, dialled, Forward rq] @ evs @ [RemoteClose, HangUp], st'))))"

definition plain_http ::
  "options \<Rightarrow> http_env \<Rightarrow> string \<Rightarrow> string \<times> string \<times> string \<Rightarrow> string list \<Rightarrow> string \<Rightarrow> lstate \<Rightarrow>
   lev list \<times> lstate" where
  "plain_http op en line rq headers unread st = (let (meth, target, proto) = rq in
     case en_url en target of None \<Rightarrow> ([HangUp], st)
     | Some u \<Rightarrow>
       (if u_scheme u = ''https'' then ([HangUp], st)
        else let addr = (if contains (u_host u) '':'' then u_host u else u_host u @ '':80'') in
        case pick_for op en addr of Inl e \<Rightarrow> ([HangUp], st)
        | Inr p \<Rightarrow>
          (let (fl0, c) = new_flow (ls_counter st) (en_now en) ''http'' addr (en_client en);
               fl = fl0\<lparr>fl_host := u_host u, fl_method := meth, fl_path := u_path u,
                 fl_full_url := target, fl_proxy := pref_name (en_world en) p,
                 fl_req_proto := proto, fl_req_headers := headers\<rparr>
           in plain_flow op en line fl u addr p unread (st\<lparr>ls_counter := c\<rparr>))))"

definition tunnel ::
  "options \<Rightarrow> http_env \<Rightarrow> pref \<Rightarrow> string \<Rightarrow> string \<Rightarrow> lstate \<Rightarrow> lev list \<times> lstate" where
  "tunnel op en p target unread st = (case connect_via op en p target of
       (dialled, Inl err) \<Rightarrow> ([dialled, HangUp], st)
     | (dialled, Inr peer) \<Rightarrow>
         (let (evs, st') = relay op en (pref_name (en_world en) p) None id (en_chunks en unread) (en_chunks en peer) st
          in ([dialled, Say established] @ evs @ [HangUp], st')))"

text \<open>The rest of an intercepted CONNECT: the request goes to the server; its status line and
  headers are read for the flow, and the relay goes on behind them.\<close>

definition stamp_response :: "string \<Rightarrow> string list \<Rightarrow> flow \<Rightarrow> flow" where
  "stamp_response line headers f = (let f1 = f\<lparr>fl_resp_headers := headers\<rparr>; parts = str_fields (trim_eol line) in
     if length parts < 2 then f1
     else (let f2 = f1\<lparr>fl_resp_proto := parts ! 0\<rparr>
       in case atoi (parts ! 1) of None \<Rightarrow> f2 | Some n \<Rightarrow> f2\<lparr>fl_status := n\<rparr>))"

definition intercepted ::
  "options \<Rightarrow> http_env \<Rightarrow> mitm_handler \<Rightarrow> string \<Rightarrow> string \<Rightarrow> string \<Rightarrow> string \<Rightarrow> lstate \<Rightarrow> lev list \<times> lstate"
where
  "intercepted op en h nm target rq plain st = (let
     (fl0, c) = new_flow (ls_counter st) (en_now en) ''https-mitm'' target (en_client en);
     fl = parse_first_request rq (fl0\<lparr>fl_intercepted := True\<rparr>);
     st1 = st\<lparr>ls_counter := c\<rparr>;
     (fl1, ok) = emit (op_hooks op) ''request'' fl;
     hook = HookRun ''request'' fl ok
   in if \<not> ok then
        (hook # emit_done op en (fl1\<lparr>fl_error := ''hook rejected request'', fl_status := 403\<rparr>) @ [RemoteClose, HangUp], st1)
      else if en_write_err en \<noteq> None then
        (hook # emit_done op en (mark_error (en_now en) (the (en_write_err en)) fl1) @ [RemoteClose, HangUp], st1)
      else (let origin = en_origin en target;
          (fl2, body) = (case read_line origin of
              None \<Rightarrow> (fl1, [])
            | Some (l, r1) \<Rightarrow> (let (hs, r2) = read_request_headers 0 r1 in (stamp_response l hs fl1, r2)));
          (evs, st2) = relay op en nm (Some fl2) (client_write h)
            (map (client_read h 32768) (en_chunks en plain)) (en_chunks en body) st1
        in ([hook, Forward rq] @ evs @ [RemoteClose, HangUp], st2)))"

definition connect_http ::
  "options \<Rightarrow> http_env \<Rightarrow> string \<Rightarrow> string \<Rightarrow> lstate \<Rightarrow> lev list \<times> lstate" where
  "connect_http op en target unread st = (case pick_for op en target of
       Inl e \<Rightarrow> ([HangUp], st)
     | Inr p \<Rightarrow>
       (case op_mitm op of
          None \<Rightarrow> tunnel op en p target unread st
        | Some h \<Rightarrow>
          (if should_intercept (en_re en) (Some h) target \<and> \<not> skip_host (en_re en) (Some h) target then
             (case intercept_connect (en_re en) (en_mitm en) (en_world en) h (en_stamp en) target of
                (mev, Refused err) \<Rightarrow>
                  (let (evs, st') = tunnel op en p target (en_leftover en err) st
                   in ([Say established, Mitm mev] @ evs, st'))
              | (mev, Answered r) \<Rightarrow> ([Say established, Mitm mev, HangUp], st)
              | (mev, Opened rq plain) \<Rightarrow>
                  (let (evs, st') = intercepted op en h (pref_name (en_world en) p) target rq plain st
                   in ([Say established, Mitm mev] @ evs, st')))
           else tunnel op en p target unread st)))"

definition handle_http :: "options \<Rightarrow> http_env \<Rightarrow> string \<Rightarrow> lstate \<Rightarrow> lev list \<times> lstate" where
  "handle_http op en inp st = (case read_line inp of
       None \<Rightarrow> ([HangUp], st)
     | Some (l, rest0) \<Rightarrow> (case parse_request_line (trim_space l) of
         None \<Rightarrow> ([HangUp], st)
       | Some (meth, target, proto) \<Rightarrow>
           (let (headers, rest) = read_request_headers 0 rest0; unread = drop (en_buffered en) rest
            in if meth \<noteq> ''CONNECT''
               then plain_http op en (trim_space l) (meth, target, proto) headers unread st
               else connect_http op en target unread st)))"

section \<open>Transparent connections\<close>

text \<open>
  The outcome of \<open>trySNIMITM\<close>; a connection that a rule has answered is reported as
  intercepted, although there are no connections to relay then.
\<close>

datatype sniff =
    NotSniffed
  | SniffRefused "mitm_event list" mitm_err
  | Sniffed "mitm_event list" mitm_result

definition try_sni_mitm ::
  "options \<Rightarrow> http_env \<Rightarrow> bool \<Rightarrow> nat \<Rightarrow> bytes \<Rightarrow> string \<Rightarrow> sniff option" where
  "try_sni_mitm op en tcp k arrived target = (case op_mitm op of
       None \<Rightarrow> Some NotSniffed
     | Some h \<Rightarrow> (case peek_client_hello tcp k arrived of
         (None, c) \<Rightarrow> Some NotSniffed
       | (Some hello, c) \<Rightarrow> do {
           sni \<leftarrow> parse_sni hello;
           if sni = [] then Some NotSniffed
           else if skip_host (en_re en) (Some h) sni \<or> \<not> should_intercept (en_re en) (Some h) sni
           then Some NotSniffed
           else (case intercept_connect (en_re en) (en_mitm en) (en_world en) h (en_stamp en) target of
               (mev, Refused err) \<Rightarrow> Some (SniffRefused mev err)
             | (mev, res) \<Rightarrow> Some (Sniffed mev res)) }))"

text \<open>What follows a successful interception: \<open>defer upstream.Close()\<close> is a panic when a rule
  has answered, since there is no upstream then.\<close>

definition tproxy_relay ::
  "options \<Rightarrow> http_env \<Rightarrow> mitm_handler \<Rightarrow> string \<Rightarrow> mitm_event list \<Rightarrow> mitm_result \<Rightarrow> lstate \<Rightarrow> (lev list \<times> lstate) option"
where
  "tproxy_relay op en h target mev res st = (case res of
       Opened rq plain \<Rightarrow>
         (let (evs, st') = relay op en ''TPROXY-MITM'' None (client_write h)
            (map (client_read h 32768) (en_chunks en plain)) (en_chunks en (en_origin en target)) st
          in Some ([Mitm mev, Forward rq] @ evs @ [RemoteClose, HangUp], st'))
     | _ \<Rightarrow> None)"

definition tproxy_target :: "tcp_addr \<Rightarrow> string" where
  "tproxy_target ta =
     join_host_port (if ta_ip ta = [] then [] else ip_string (ta_ip ta)) (itoa (if ta_port ta = 0 then 443 else ta_port ta))"

definition tproxy_direct :: "options \<Rightarrow> http_env \<Rightarrow> string \<Rightarrow> string \<Rightarrow> lstate \<Rightarrow> lev list \<times> lstate" where
  "tproxy_direct op en target unread st = (case pick_for op en target of
       Inl e \<Rightarrow> ([HangUp], st)
     | Inr p \<Rightarrow>
       (let (r, res) = (if pref_name (en_world en) p = ''DIRECT'' then (RawDial, en_dial en target)
                       else (ProxyDial p, en_proxy en p target))
        in case res of
             Inl err \<Rightarrow> ([Dialled r target False, HangUp], st)
           | Inr peer \<Rightarrow>
               (let (evs, st') = relay op en (pref_name (en_world en) p) None id (en_chunks en unread) (en_chunks en peer) st
                in ([Dialled r target True] @ evs @ [RemoteClose, HangUp], st'))))"

text \<open>The second chance of a connection, by its address; \<open>unread\<close> is what is left of it.\<close>

definition tproxy_by_ip ::
  "options \<Rightarrow> http_env \<Rightarrow> tcp_addr \<Rightarrow> string \<Rightarrow> lstate \<Rightarrow> (lev list \<times> lstate) option" where
  "tproxy_by_ip op en ta unread st = (let target = tproxy_target ta in case op_mitm op of
       None \<Rightarrow> Some (tproxy_direct op en target unread st)
     | Some h \<Rightarrow>
       (if should_intercept_ip (en_re en) (Some h) (ip_string (ta_ip ta)) \<and>
           \<not> skip_host (en_re en) (Some h) target then
          (case intercept_connect (en_re en) (en_mitm en) (en_world en) h (en_stamp en) target of
             (mev, Refused err) \<Rightarrow>
               (let (evs, st') = tproxy_direct op en target (en_leftover en err) st
                in Some (Mitm mev # evs, st'))
           | (mev, res) \<Rightarrow> tproxy_relay op en h target mev res st)
        else Some (tproxy_direct op en target unread st)))"

text \<open>\<open>handleTProxy\<close>: \<open>arrived\<close> has been received when the sniffing ends, \<open>later\<close> follows.
  None is a panic.\<close>

definition handle_tproxy ::
  "options \<Rightarrow> http_env \<Rightarrow> tcp_addr option \<Rightarrow> bool \<Rightarrow> nat \<Rightarrow> bytes \<Rightarrow> bytes \<Rightarrow> lstate \<Rightarrow> (lev list \<times> lstate) option"
where
  "handle_tproxy op en remote tcp k arrived later st = (case remote of
       None \<Rightarrow> Some ([HangUp], st)
     | Some ta \<Rightarrow>
       (let taken = (if op_mitm op = None then 0 else snd (peek_client_hello tcp k arrived));
            unread = string_of_bytes (drop taken arrived @ later)
        in case try_sni_mitm op en tcp k arrived (tproxy_target ta) of
             None \<Rightarrow> None
           | Some NotSniffed \<Rightarrow> tproxy_by_ip op en ta unread st
           | Some (SniffRefused mev err) \<Rightarrow>
               map_option (\<lambda>(evs, st'). (Mitm mev # evs, st')) (tproxy_by_ip op en ta (en_leftover en err) st)
           | Some (Sniffed mev res) \<Rightarrow> tproxy_relay op en (the (op_mitm op)) (tproxy_target ta) mev res st))"

section \<open>The life cycle of a flow\<close>

definition is_flow_event :: "lev \<Rightarrow> bool" where
  "is_flow_event e = (case e of HookRun ph f ok \<Rightarrow> True | SinkWrite i f \<Rightarrow> True | _ \<Rightarrow> False)"

abbreviation flow_events :: "lev list \<Rightarrow> lev list" where
  "flow_events evs \<equiv> filter is_flow_event evs"

lemma flow_events_simps [simp]:
  "is_flow_event (HookRun ph f ok)" "is_flow_event (SinkWrite i f)" "\<not> is_flow_event (Say s)"
  "\<not> is_flow_event (Mitm m)" "\<not> is_flow_event (Dialled r t b)" "\<not> is_flow_event (Forward s)"
  "\<not> is_flow_event (RelayUp bs)" "\<not> is_flow_event (RelayDown bs)" "\<not> is_flow_event RemoteClose"
  "\<not> is_flow_event HangUp"
  by (simp_all add: is_flow_event_def)

lemma flow_events_Say [simp]: "flow_events (map Say ws) = []"
  by (induction ws) auto

lemma flow_events_done [simp]: "flow_events (emit_done op en f) = emit_done op en f"
  by (auto simp: emit_done_def Let_def filter_id_conv split: prod.splits)

lemma connect_via_event:
  "connect_via op en p t = (e, res) \<Longrightarrow> \<exists>r. e = Dialled r t (\<exists>s. res = Inr s)"
  by (auto simp: connect_via_def split: prod.splits)

text \<open>The flow that a relay announces at its end.\<close>

definition counted :: "flow \<Rightarrow> (string \<Rightarrow> string) \<Rightarrow> string list \<Rightarrow> string list \<Rightarrow> flow" where
  "counted f w up down = (let up' = io_copy id up; down' = io_copy w down;
       read = take (length down') (filter (\<lambda>b. b \<noteq> []) down)
     in f\<lparr>fl_req_bytes := total_length up' + total_length up',
          fl_resp_bytes := total_length read + total_length down'\<rparr>)"

lemma relay_events:
  "fst (relay op en nm fo w up down st) = [RelayUp (io_copy id up), RelayDown (io_copy w down)] @
     (case fo of None \<Rightarrow> [] | Some f \<Rightarrow> emit_done op en (counted f w up down))"
  by (cases fo) (simp_all add: relay_def counted_def Let_def)

lemma flow_events_relay:
  assumes "relay op en nm fo w up down st = (evs, st')"
  shows "flow_events evs = (case fo of None \<Rightarrow> [] | Some f \<Rightarrow> emit_done op en (counted f w up down))"
proof -
  have "evs = fst (relay op en nm fo w up down st)"
    using assms by simp
  then show ?thesis
    by (simp add: relay_events split: option.split)
qed

lemma flow_events_tunnel: "tunnel op en p target unread st = (evs, st') \<Longrightarrow> flow_events evs = []"
  by (auto simp: tunnel_def split: prod.splits sum.splits dest!: flow_events_relay dest: connect_via_event)

text \<open>
  What a flow says about its request: everything but the fields that are filled in at its end.
\<close>

definition request_part :: "flow \<Rightarrow> flow" where
  "request_part f = f\<lparr>fl_status := 0, fl_resp_proto := [], fl_error := [], fl_duration := 0,
     fl_req_bytes := 0, fl_resp_bytes := 0, fl_resp_headers := []\<rparr>"

lemma request_part_simps [simp]:
  "request_part (f\<lparr>fl_status := s\<rparr>) = request_part f" "request_part (f\<lparr>fl_error := e\<rparr>) = request_part f"
  "request_part (f\<lparr>fl_error := e, fl_status := s\<rparr>) = request_part f"
  "request_part (mark_error now e f) = request_part f" "request_part (stamp_response l hs f) = request_part f"
  "request_part (counted f w up down) = request_part f"
  by (simp_all add: request_part_def mark_error_def stamp_response_def counted_def Let_def split: option.split)

text \<open>
  Either no flow, or one with the identity \<open>i\<close>: the flow \<open>f\<close> is announced, the hooks make \<open>f1\<close> of
  it, and a flow with the same request is done.
\<close>

definition flow_contract :: "options \<Rightarrow> http_env \<Rightarrow> string \<Rightarrow> lev list \<Rightarrow> bool" where
  "flow_contract op en i evs \<longleftrightarrow> evs = [] \<or>
     (\<exists>f ok f1 g. evs = HookRun ''request'' f ok # emit_done op en g \<and>
        fl_id f = i \<and> emit (op_hooks op) ''request'' f = (f1, ok) \<and> request_part g = request_part f1 \<and>
        (\<not> ok \<longrightarrow> fl_error g = ''hook rejected request'' \<and> fl_status g = 403))"

lemma flow_contractI:
  "flow_events evs = HookRun ''request'' f ok # emit_done op en g \<Longrightarrow>
   fl_id f = i \<Longrightarrow> emit (op_hooks op) ''request'' f = (f1, ok) \<Longrightarrow> request_part g = request_part f1 \<Longrightarrow>
   (\<not> ok \<Longrightarrow> fl_error g = ''hook rejected request'' \<and> fl_status g = 403) \<Longrightarrow>
   flow_contract op en i (flow_events evs)"
  unfolding flow_contract_def by blast

text \<open>The identity of the next flow.\<close>

abbreviation next_id :: "lstate \<Rightarrow> string" where
  "next_id st \<equiv> fst (next_flow_id (ls_counter st))"

lemma new_flow_id: "new_flow c now p t cl = (f, c') \<Longrightarrow> fl_id f = fst (next_flow_id c)"
  by (auto simp: new_flow_def split: prod.splits)

lemma parse_first_request_id [simp]: "fl_id (parse_first_request rq f) = fl_id f"
  by (simp add: parse_first_request_def Let_def split: list.split option.split)

lemma flow_contract_none: "flow_events evs = [] \<Longrightarrow> flow_contract op en i (flow_events evs)"
  by (simp add: flow_contract_def)

lemma plain_flow_contract:
  assumes "plain_flow op en line fl u addr p unread st = (evs, st')"
  shows "flow_contract op en (fl_id fl) (flow_events evs)"
proof -
  obtain fl1 ok where em: "emit (op_hooks op) ''request'' fl = (fl1, ok)"
    by (cases "emit (op_hooks op) ''request'' fl")
  obtain d res where cv: "connect_via op en p addr = (d, res)"
    by (cases "connect_via op en p addr")
  then have d: "\<not> is_flow_event d"
    using connect_via_event [OF cv] by auto
  note I = flow_contractI [OF _ refl em]
  show ?thesis
    using assms d
    by (cases res) (auto simp: plain_flow_def Let_def em cv split: if_splits prod.splits
      dest!: flow_events_relay intro!: I)
qed

lemma plain_http_contract:
  assumes "plain_http op en line rq headers unread st = (evs, st')"
  shows "flow_contract op en (next_id st) (flow_events evs)"
proof -
  obtain meth target proto where rq: "rq = (meth, target, proto)" by (cases rq) auto
  show ?thesis
  proof (cases "evs = [HangUp]")
    case True
    then show ?thesis by (simp add: flow_contract_def)
  next
    case False
    with assms obtain u where u: "en_url en target = Some u" "u_scheme u \<noteq> ''https''"
      by (auto simp: plain_http_def rq split: option.splits if_splits)
    let ?addr = "if contains (u_host u) '':'' then u_host u else u_host u @ '':80''"
    from assms u False obtain p where p: "pick_for op en ?addr = Inr p"
      by (cases "pick_for op en ?addr") (simp_all add: plain_http_def rq Let_def split del: if_split)
    obtain fl0 c where nf: "new_flow (ls_counter st) (en_now en) ''http'' ?addr (en_client en) = (fl0, c)"
      by fastforce
    let ?fl = "fl0\<lparr>fl_host := u_host u, fl_method := meth, fl_path := u_path u,
                 fl_full_url := target, fl_proxy := pref_name (en_world en) p,
                 fl_req_proto := proto, fl_req_headers := headers\<rparr>"
    have "plain_flow op en line ?fl u ?addr p unread (st\<lparr>ls_counter := c\<rparr>) = (evs, st')"
      using assms u p nf by (simp add: plain_http_def rq Let_def split del: if_split)
    from plain_flow_contract [OF this] new_flow_id [OF nf] show ?thesis by simp
  qed
qed

lemma intercepted_contract:
  assumes "intercepted op en h nm target rq plain st = (evs, st')"
  shows "flow_contract op en (next_id st) (flow_events evs)"
proof -
  obtain fl0 c where nf: "new_flow (ls_counter st) (en_now en) ''https-mitm'' target (en_client en) = (fl0, c)"
    by (cases "new_flow (ls_counter st) (en_now en) ''https-mitm'' target (en_client en)")
  define fl where "fl = parse_first_request rq (fl0\<lparr>fl_intercepted := True\<rparr>)"
  obtain fl1 ok where em: "emit (op_hooks op) ''request'' fl = (fl1, ok)"
    by (cases "emit (op_hooks op) ''request'' fl")
  have "fl_id fl = next_id st"
    using new_flow_id [OF nf] by (simp add: fl_def)
  note I = flow_contractI [OF _ this em]
  show ?thesis
    using assms
    by (auto simp: intercepted_def Let_def nf fl_def [symmetric] em split: if_splits prod.splits option.splits
      dest!: flow_events_relay intro!: I)
qed

text \<open>The ways a CONNECT request can go.\<close>

lemma connect_http_cases:
  assumes "connect_http op en target unread st = (evs, st')"
  obtains (refused) "evs = [HangUp]"
  | (tunnel) p where "pick_for op en target = Inr p" "tunnel op en p target unread st = (evs, st')"
  | (mitm) p h mev res e2 where "pick_for op en target = Inr p" "op_mitm op = Some h"
      "should_intercept (en_re en) (Some h) target" "\<not> skip_host (en_re en) (Some h) target"
      "intercept_connect (en_re en) (en_mitm en) (en_world en) h (en_stamp en) target = (mev, res)"
      "evs = [Say established, Mitm mev] @ e2"
      "case res of Refused err \<Rightarrow> tunnel op en p target (en_leftover en err) st = (e2, st')
       | Answered r \<Rightarrow> e2 = [HangUp]
       | Opened rq plain \<Rightarrow> intercepted op en h (pref_name (en_world en) p) target rq plain st = (e2, st')"
proof (cases "pick_for op en target")
  case (Inl e)
  with assms refused show thesis by (simp add: connect_http_def)
next
  case (Inr p)
  show thesis
  proof (cases "op_mitm op")
    case None
    with Inr assms tunnel show thesis by (simp add: connect_http_def)
  next
    case (Some h)
    show thesis
    proof (cases "should_intercept (en_re en) (Some h) target \<and> \<not> skip_host (en_re en) (Some h) target")
      case False
      with Inr Some assms tunnel show thesis by (auto simp: connect_http_def split: if_splits)
    next
      case True
      obtain mev res where i: "intercept_connect (en_re en) (en_mitm en) (en_world en) h (en_stamp en) target = (mev, res)"
        by (cases "intercept_connect (en_re en) (en_mitm en) (en_world en) h (en_stamp en) target")
      note run = assms [unfolded connect_http_def, simplified Inr Some True i sum.case option.case prod.case if_True simp_thms]
      show thesis
        using run mitm [OF Inr Some _ _ i] True
        by (cases res) (auto simp: Let_def split: prod.splits)
    qed
  qed
qed

lemma connect_http_contract:
  assumes "connect_http op en target unread st = (evs, st')"
  shows "flow_contract op en (next_id st) (flow_events evs)"
  using assms
proof (cases rule: connect_http_cases)
  case (mitm p h mev res e2)
  then show ?thesis
    using intercepted_contract [of op en h] flow_events_tunnel
    by (cases res) (auto simp: flow_contract_def)
qed (auto simp: flow_contract_def dest: flow_events_tunnel)

text \<open>A request that goes to the server has been accepted by the hooks.\<close>

lemma relay_no_forward: "relay op en nm fo w up down st = (evs, st') \<Longrightarrow> Forward rq \<notin> set evs"
proof -
  assume "relay op en nm fo w up down st = (evs, st')"
  then have "evs = fst (relay op en nm fo w up down st)" by simp
  moreover have "Forward rq \<notin> set (emit_done op en f)" for f
    by (auto simp: emit_done_def Let_def split: prod.splits)
  ultimately show ?thesis by (cases fo) (simp_all add: relay_events)
qed

lemma tunnel_no_forward: "tunnel op en p target unread st = (evs, st') \<Longrightarrow> Forward rq \<notin> set evs"
  by (auto simp: tunnel_def split: prod.splits sum.splits dest: relay_no_forward connect_via_event)

lemma plain_flow_accepted:
  assumes "plain_flow op en line fl u addr p unread st = (evs, st')" and "Forward rq \<in> set evs"
  shows "HookRun ''request'' fl True \<in> set evs"
proof (rule ccontr)
  assume no: "HookRun ''request'' fl True \<notin> set evs"
  obtain fl1 ok where em: "emit (op_hooks op) ''request'' fl = (fl1, ok)"
    by (cases "emit (op_hooks op) ''request'' fl")
  obtain d res where cv: "connect_via op en p addr = (d, res)"
    by (cases "connect_via op en p addr")
  have d: "d \<noteq> Forward rq" using connect_via_event [OF cv] by auto
  have quiet: "Forward rq \<notin> set (emit_done op en f)" for f
    by (auto simp: emit_done_def Let_def split: prod.splits)
  have ok using em assms no quiet
    by (auto simp: plain_flow_def Let_def split: if_splits)
  with em assms(1) no show False
    by (cases res) (auto simp: plain_flow_def Let_def cv split: if_splits prod.splits)
qed

lemma intercepted_accepted:
  assumes "intercepted op en h nm target rq0 plain st = (evs, st')" and "Forward rq \<in> set evs"
  shows "\<exists>f. HookRun ''request'' f True \<in> set evs"
proof (rule ccontr)
  assume no: "\<nexists>f. HookRun ''request'' f True \<in> set evs"
  have quiet: "Forward rq \<notin> set (emit_done op en f)" for f
    by (auto simp: emit_done_def Let_def split: prod.splits)
  obtain fl0 c where nf: "new_flow (ls_counter st) (en_now en) ''https-mitm'' target (en_client en) = (fl0, c)"
    by (cases "new_flow (ls_counter st) (en_now en) ''https-mitm'' target (en_client en)")
  obtain fl1 ok where em: "emit (op_hooks op) ''request'' (parse_first_request rq0 (fl0\<lparr>fl_intercepted := True\<rparr>)) = (fl1, ok)"
    by (cases "emit (op_hooks op) ''request'' (parse_first_request rq0 (fl0\<lparr>fl_intercepted := True\<rparr>))")
  show False
    using assms no quiet by (cases ok) (auto simp: intercepted_def Let_def nf em split: if_splits prod.splits option.splits)
qed

lemma forward_accepted:
  assumes "handle_http op en inp st = (evs, st')" and "Forward rq \<in> set evs"
  shows "\<exists>f. HookRun ''request'' f True \<in> set evs"
proof -
  have plain: "\<exists>f. HookRun ''request'' f True \<in> set evs"
    if "plain_http op en line (meth, target, proto) headers unread st = (evs, st')" for line meth target proto headers unread
    using that assms(2) plain_flow_accepted [of op en line _ _ _ _ unread _ evs st' rq]
    by (fastforce simp: plain_http_def Let_def split: option.splits if_splits sum.splits prod.splits)
  have connect: "\<exists>f. HookRun ''request'' f True \<in> set evs" if "connect_http op en target unread st = (evs, st')" for target unread
    using that
  proof (cases rule: connect_http_cases)
    case (mitm p h mev res e2)
    then show ?thesis
      using assms(2) tunnel_no_forward [of op en p target _ st e2 st' rq] intercepted_accepted [of op en h _ target _ _ st e2 st' rq]
      by (cases res) auto
  qed (use assms(2) tunnel_no_forward in auto)
  show ?thesis
    using assms plain connect by (auto simp: handle_http_def Let_def split: option.splits prod.splits if_splits)
qed


text \<open>Interceptions happen in \<open>connect_http\<close> only.\<close>

lemma emit_done_no_mitm: "Mitm m \<notin> set (emit_done op en f)"
  by (auto simp: emit_done_def Let_def split: prod.splits)

lemma relay_no_mitm: "relay op en nm fo w up down st = (evs, st') \<Longrightarrow> Mitm m \<notin> set evs"
proof -
  assume "relay op en nm fo w up down st = (evs, st')"
  then have "evs = fst (relay op en nm fo w up down st)" by simp
  then show ?thesis
    using emit_done_no_mitm by (cases fo) (simp_all add: relay_events)
qed

lemma tunnel_no_mitm: "tunnel op en p target unread st = (evs, st') \<Longrightarrow> Mitm m \<notin> set evs"
  by (auto simp: tunnel_def split: prod.splits sum.splits dest: relay_no_mitm connect_via_event)

lemma plain_flow_no_mitm:
  assumes "plain_flow op en line fl u addr p unread st = (evs, st')"
  shows "Mitm m \<notin> set evs"
proof -
  obtain d res where cv: "connect_via op en p addr = (d, res)"
    by (cases "connect_via op en p addr")
  then have "d \<noteq> Mitm m"
    using connect_via_event [OF cv] by auto
  then show ?thesis
    using assms relay_no_mitm emit_done_no_mitm
    by (cases res) (auto simp: plain_flow_def Let_def cv split: if_splits prod.splits)
qed

lemma plain_http_no_mitm:
  "plain_http op en line rq headers unread st = (evs, st') \<Longrightarrow> Mitm m \<notin> set evs"
  by (auto simp: plain_http_def Let_def dest: plain_flow_no_mitm
    split: prod.splits option.splits if_splits sum.splits)

lemma intercepted_no_mitm:
  "intercepted op en h nm target rq plain st = (evs, st') \<Longrightarrow> Mitm m \<notin> set evs"
  using emit_done_no_mitm relay_no_mitm
  by (auto simp: intercepted_def Let_def split: prod.splits if_splits)

text \<open>The decision of the allow list: on the list and not among the hosts to skip.\<close>

definition allowed :: "regex \<Rightarrow> mitm_handler \<Rightarrow> string \<Rightarrow> bool" where
  "allowed re h host \<longleftrightarrow> mh_allow h \<noteq> [] \<and> match_allow re host (mh_allow h) \<and> \<not> match_allow re host (mh_skip h)"

lemma should_intercept_allowed: "should_intercept re (Some h) t \<longleftrightarrow> allowed re h (target_host t)"
  by (simp add: should_intercept_def allowed_def Let_def)

lemma should_intercept_ip_allowed: "should_intercept_ip re (Some h) a \<longleftrightarrow> allowed re h a"
  by (simp add: should_intercept_ip_def allowed_def)

text \<open>
  No connection is opened up unless its host is on the allow list and not among the hosts
  to skip; in particular none is with an empty list, and none without a handler.
\<close>

text \<open>The destination of a CONNECT request, as the handler reads it.\<close>

definition connect_target :: "string \<Rightarrow> string option" where
  "connect_target inp = (case read_line inp of
       None \<Rightarrow> None
     | Some (l, rest) \<Rightarrow> (case parse_request_line (trim_space l) of
         None \<Rightarrow> None
       | Some (meth, target, proto) \<Rightarrow> (if meth = ''CONNECT'' then Some target else None)))"

lemma mitm_event_allowed:
  assumes "handle_http op en inp st = (evs, st')" and "Mitm m \<in> set evs"
  shows "\<exists>h target. op_mitm op = Some h \<and> connect_target inp = Some target \<and>
    allowed (en_re en) h (target_host target) \<and>
    m = fst (intercept_connect (en_re en) (en_mitm en) (en_world en) h (en_stamp en) target)"
proof -
  obtain target unread where c: "connect_http op en target unread st = (evs, st')"
    and t: "connect_target inp = Some target"
    using assms plain_http_no_mitm
    by (auto simp: handle_http_def connect_target_def Let_def split: option.splits prod.splits if_splits)
  from c show ?thesis
  proof (cases rule: connect_http_cases)
    case (mitm p h mev res e2)
    have "Mitm m \<notin> set e2"
      using mitm(7) tunnel_no_mitm intercepted_no_mitm by (cases res) auto
    then have "m = mev"
      using assms(2) mitm(6) by simp
    then show ?thesis
      using mitm t by (auto simp: should_intercept_allowed)
  qed (use assms(2) tunnel_no_mitm in auto)
qed

text \<open>
  The same for a transparent connection: it is the connection to the original destination that is
  opened up, because of the server name in the greeting or because of the address.
\<close>

definition sniffed_name :: "bool \<Rightarrow> nat \<Rightarrow> bytes \<Rightarrow> string option" where
  "sniffed_name tcp k arrived = (case peek_client_hello tcp k arrived of
       (None, c) \<Rightarrow> None | (Some hello, c) \<Rightarrow> parse_sni hello)"

lemma tproxy_direct_no_mitm: "tproxy_direct op en target unread st = (evs, st') \<Longrightarrow> Mitm m \<notin> set evs"
  by (auto simp: tproxy_direct_def Let_def split: prod.splits sum.splits if_splits dest: relay_no_mitm)

lemma tproxy_relay_mitm:
  "tproxy_relay op en h target mev res st = Some (evs, st') \<Longrightarrow> Mitm m \<in> set evs \<Longrightarrow> m = mev"
  by (auto simp: tproxy_relay_def Let_def split: mitm_result.splits prod.splits dest: relay_no_mitm)

lemma tproxy_by_ip_mitm:
  assumes "tproxy_by_ip op en ta unread st = Some (evs, st')" and "Mitm m \<in> set evs"
  shows "\<exists>h. op_mitm op = Some h \<and> allowed (en_re en) h (ip_string (ta_ip ta)) \<and>
    m = fst (intercept_connect (en_re en) (en_mitm en) (en_world en) h (en_stamp en) (tproxy_target ta))"
proof (cases "op_mitm op")
  case None
  with assms show ?thesis
    using tproxy_direct_no_mitm by (auto simp: tproxy_by_ip_def Let_def)
next
  case (Some h)
  obtain mev res where i: "intercept_connect (en_re en) (en_mitm en) (en_world en) h (en_stamp en) (tproxy_target ta) = (mev, res)"
    by fastforce
  show ?thesis
  proof (cases "should_intercept_ip (en_re en) (Some h) (ip_string (ta_ip ta)) \<and> \<not> skip_host (en_re en) (Some h) (tproxy_target ta)")
    case False
    then have "tproxy_by_ip op en ta unread st = Some (tproxy_direct op en (tproxy_target ta) unread st)"
      by (simp only: tproxy_by_ip_def Some Let_def option.case if_False)
    with assms show ?thesis
      using tproxy_direct_no_mitm by (metis option.inject)
  next
    case True
    have "m = mev"
      using assms True Some i tproxy_direct_no_mitm tproxy_relay_mitm
      by (cases res) (auto simp: tproxy_by_ip_def Let_def split: prod.splits)
    with True Some i show ?thesis by (auto simp: should_intercept_ip_allowed)
  qed
qed

lemma try_sni_mitm_name:
  assumes "try_sni_mitm op en tcp k arrived target = Some r" and "r \<noteq> NotSniffed"
  obtains h name where "op_mitm op = Some h" "sniffed_name tcp k arrived = Some name"
    "allowed (en_re en) h (target_host name)"
    "\<And>mev err. r = SniffRefused mev err \<Longrightarrow> mev = fst (intercept_connect (en_re en) (en_mitm en) (en_world en) h (en_stamp en) target)"
    "\<And>mev res. r = Sniffed mev res \<Longrightarrow> mev = fst (intercept_connect (en_re en) (en_mitm en) (en_world en) h (en_stamp en) target)"
proof -
  obtain h where h: "op_mitm op = Some h"
    using assms by (auto simp: try_sni_mitm_def split: option.splits)
  obtain hello c where p: "peek_client_hello tcp k arrived = (Some hello, c)"
    using assms h by (auto simp: try_sni_mitm_def split: option.splits prod.splits)
  obtain name where n: "parse_sni hello = Some name"
    using assms h p by (auto simp: try_sni_mitm_def split: bind_splits)
  have ok: "should_intercept (en_re en) (Some h) name"
    using assms h p n by (auto simp: try_sni_mitm_def split: if_splits)
  obtain mev res where i: "intercept_connect (en_re en) (en_mitm en) (en_world en) h (en_stamp en) target = (mev, res)"
    by fastforce
  have "r = (case res of Refused err \<Rightarrow> SniffRefused mev err | _ \<Rightarrow> Sniffed mev res)"
    using assms h p n i by (cases res) (auto simp: try_sni_mitm_def split: if_splits)
  with that [OF h] n p ok i show ?thesis
    by (cases res) (auto simp: sniffed_name_def should_intercept_allowed)
qed

lemma tproxy_mitm_allowed:
  assumes "handle_tproxy op en (Some ta) tcp k arrived later st = Some (evs, st')" and "Mitm m \<in> set evs"
  shows "\<exists>h host. op_mitm op = Some h \<and>
    (host = ip_string (ta_ip ta) \<or> (\<exists>name. sniffed_name tcp k arrived = Some name \<and> host = target_host name)) \<and>
    allowed (en_re en) h host \<and>
    m = fst (intercept_connect (en_re en) (en_mitm en) (en_world en) h (en_stamp en) (tproxy_target ta))"
proof -
  obtain r where r: "try_sni_mitm op en tcp k arrived (tproxy_target ta) = Some r"
    using assms(1) by (auto simp: handle_tproxy_def Let_def split: option.splits)
  show ?thesis
  proof (cases r)
    case NotSniffed
    with assms r have "\<exists>unread. tproxy_by_ip op en ta unread st = Some (evs, st')"
      by (auto simp: handle_tproxy_def Let_def)
    then show ?thesis using tproxy_by_ip_mitm assms(2) by blast
  next
    case (SniffRefused mev err)
    with assms r obtain e where e: "tproxy_by_ip op en ta (en_leftover en err) st = Some (e, st')" "evs = Mitm mev # e"
      by (auto simp: handle_tproxy_def Let_def)
    show ?thesis
    proof (cases "m = mev")
      case True
      obtain h name where "op_mitm op = Some h" "sniffed_name tcp k arrived = Some name"
        "allowed (en_re en) h (target_host name)"
        "mev = fst (intercept_connect (en_re en) (en_mitm en) (en_world en) h (en_stamp en) (tproxy_target ta))"
        by (rule try_sni_mitm_name [OF r]) (use SniffRefused in auto)
      with True show ?thesis by blast
    next
      case False
      with e assms(2) have "Mitm m \<in> set e" by simp
      with tproxy_by_ip_mitm [OF e(1)] show ?thesis by blast
    qed
  next
    case (Sniffed mev res)
    with assms r have "tproxy_relay op en (the (op_mitm op)) (tproxy_target ta) mev res st = Some (evs, st')"
      by (auto simp: handle_tproxy_def Let_def)
    with assms(2) have m: "m = mev" using tproxy_relay_mitm by blast
    obtain h name where "op_mitm op = Some h" "sniffed_name tcp k arrived = Some name"
      "allowed (en_re en) h (target_host name)"
      "mev = fst (intercept_connect (en_re en) (en_mitm en) (en_world en) h (en_stamp en) (tproxy_target ta))"
      by (rule try_sni_mitm_name [OF r]) (use Sniffed in auto)
    with m show ?thesis by blast
  qed
qed

section \<open>What the client gets\<close>

lemma read_request_headers_lines:
  "\<forall>l \<in> set ls. l \<noteq> [] \<and> LF \<notin> set l \<and> CR \<notin> set l \<and> length l \<le> 8192 \<Longrightarrow> n + length ls < 200 \<Longrightarrow>
   read_request_headers n (concat (map (\<lambda>l. l @ crlf) ls) @ crlf @ body) = (ls, body)"
proof (induction ls arbitrary: n)
  case Nil
  have "read_line ([CR] @ LF # body) = Some ([CR] @ [LF], body)"
    by (rule read_line_append) simp
  moreover have "trim_eol ([] @ crlf) = []"
    by (rule trim_eol_crlf) simp_all
  ultimately show ?case
    by (subst read_request_headers.simps) (simp add: crlf_def)
next
  case (Cons l ls)
  let ?rest = "concat (map (\<lambda>l. l @ crlf) ls) @ crlf @ body"
  have "read_line ((l @ [CR]) @ LF # ?rest) = Some ((l @ [CR]) @ [LF], ?rest)"
    using Cons.prems by (intro read_line_append) simp
  then have "read_line (l @ crlf @ ?rest) = Some (l @ crlf, ?rest)"
    by (simp add: crlf_def)
  moreover have "trim_eol (l @ crlf) = l"
    using Cons.prems by (intro trim_eol_crlf) simp_all
  moreover have "read_request_headers (n + 1) ?rest = (ls, body)"
    using Cons by simp
  ultimately show ?case
    using Cons.prems by (subst read_request_headers.simps) simp
qed

lemma io_copy_id: "io_copy id bs = filter (\<lambda>b. b \<noteq> []) bs"
  by (induction bs) auto

lemma concat_nonempty: "concat (filter (\<lambda>b. b \<noteq> []) bs) = concat bs"
  by (induction bs) auto

lemma client_write_plain: "mh_rewrite h = [] \<Longrightarrow> client_write h = id"
  by (simp add: client_write_def fun_eq_iff)

text \<open>Everything that the client is sent behind its TLS session or outside of it: what the handler
  says itself, and what the relay brings from the server.\<close>

definition sent_to_client :: "lev list \<Rightarrow> string" where
  "sent_to_client evs = concat (map (\<lambda>e. case e of Say s \<Rightarrow> s | RelayDown ds \<Rightarrow> concat ds | _ \<Rightarrow> []) evs)"

lemma sent_to_client_simps [simp]:
  "sent_to_client [] = []"
  "sent_to_client (e # evs) = (case e of Say s \<Rightarrow> s | RelayDown ds \<Rightarrow> concat ds | _ \<Rightarrow> []) @ sent_to_client evs"
  "sent_to_client (xs @ ys) = sent_to_client xs @ sent_to_client ys"
  by (simp_all add: sent_to_client_def)

lemma sent_to_client_done [simp]: "sent_to_client (emit_done op en f) = []"
  by (auto simp: sent_to_client_def emit_done_def Let_def split: prod.splits)

text \<open>
  C16: The client of an intercepted connection gets the body of the response without its head.
  The status line and the headers are read off the server for the record of the flow, and the
  relay starts behind them: all that the client is sent is the line that the tunnel is
  established and the body. (Without hooks and rewriting rules, for a response whose status
  line and fewer than 200 headers of at most 8192 bytes each end with CR LF.)
\<close>

theorem intercepted_response_headless:
  assumes "pick_for op en target = Inr p" and "op_mitm op = Some h"
    and "should_intercept (en_re en) (Some h) target" and "\<not> skip_host (en_re en) (Some h) target"
    and "intercept_connect (en_re en) (en_mitm en) (en_world en) h (en_stamp en) target = (mev, Opened rq plain)"
    and "op_hooks op = []" and "en_write_err en = None" and "mh_rewrite h = []"
    and "\<forall>s. concat (en_chunks en s) = s"
    and "en_origin en target = status @ crlf @ concat (map (\<lambda>l. l @ crlf) hs) @ crlf @ body"
    and "LF \<notin> set status"
    and "\<forall>l \<in> set hs. l \<noteq> [] \<and> LF \<notin> set l \<and> CR \<notin> set l \<and> length l \<le> 8192" and "length hs < 200"
  shows "sent_to_client (fst (connect_http op en target unread st)) = established @ body"
proof -
  have "read_line ((status @ [CR]) @ LF # concat (map (\<lambda>l. l @ crlf) hs) @ crlf @ body) =
      Some ((status @ [CR]) @ [LF], concat (map (\<lambda>l. l @ crlf) hs) @ crlf @ body)"
    using assms(11) by (intro read_line_append) simp
  then have line: "read_line (en_origin en target) =
      Some (status @ crlf, concat (map (\<lambda>l. l @ crlf) hs) @ crlf @ body)"
    by (simp add: assms(10) crlf_def)
  have heads: "read_request_headers 0 (concat (map (\<lambda>l. l @ crlf) hs) @ crlf @ body) = (hs, body)"
    using assms(12,13) by (intro read_request_headers_lines) simp_all
  obtain fl0 c where nf: "new_flow (ls_counter st) (en_now en) ''https-mitm'' target (en_client en) = (fl0, c)"
    by (cases "new_flow (ls_counter st) (en_now en) ''https-mitm'' target (en_client en)")
  have down: "sent_to_client (fst (relay op en nm (Some f) (client_write h) up (en_chunks en body) s)) = body" for nm f up s
    by (simp add: relay_events client_write_plain [OF assms(8)] io_copy_id concat_nonempty assms(9))
  then have "sent_to_client (fst (intercepted op en h (pref_name (en_world en) p) target rq plain st)) = body"
    by (simp add: intercepted_def Let_def nf assms(6,7) line heads split: prod.split) (metis fst_conv)
  then show ?thesis
    using assms(1-5) by (simp add: connect_http_def Let_def split: prod.split) (metis fst_conv)
qed

text \<open>
  When an interception is refused, the client is told twice that the tunnel is established:
  the second answer is data of the tunnel.
\<close>

lemma refused_interception_answers_twice:
  assumes "pick_for op en target = Inr p" "op_mitm op = Some h"
    and "should_intercept (en_re en) (Some h) target" "\<not> skip_host (en_re en) (Some h) target"
    and "intercept_connect (en_re en) (en_mitm en) (en_world en) h (en_stamp en) target = (mev, Refused err)"
    and "connect_via op en p target = (d, Inr peer)"
  shows "\<exists>evs. fst (connect_http op en target unread st) =
    [Say established, Mitm mev, d, Say established] @ evs"
  using assms by (auto simp: connect_http_def tunnel_def Let_def split: prod.split)

lemma emit_done_no_data: "Forward s \<notin> set (emit_done op en f)" "RelayUp ups \<notin> set (emit_done op en f)"
  by (auto simp: emit_done_def Let_def split: prod.splits)

lemma relay_data:
  assumes "relay op en nm fo w up down st = (evs, st')"
  shows "Forward s \<notin> set evs" and "RelayUp ups \<in> set evs \<Longrightarrow> ups = io_copy id up"
proof -
  from assms have "evs = fst (relay op en nm fo w up down st)" by simp
  then show "Forward s \<notin> set evs" and "RelayUp ups \<in> set evs \<Longrightarrow> ups = io_copy id up"
    using emit_done_no_data by (cases fo; simp add: relay_events)+
qed

lemma plain_flow_data:
  assumes "plain_flow op en line fl u addr p unread st = (evs, st')"
  shows "Forward s \<in> set evs \<Longrightarrow> s = fl_method fl @ '' '' @ u_request_uri u @ '' HTTP/1.1'' @ crlf @
      ''Host: '' @ u_host u @ crlf @ crlf"
    and "RelayUp ups \<in> set evs \<Longrightarrow> ups = io_copy id (en_chunks en unread)"
proof -
  obtain d res where cv: "connect_via op en p addr = (d, res)"
    by (cases "connect_via op en p addr")
  then have "d \<noteq> Forward s" "d \<noteq> RelayUp ups"
    using connect_via_event [OF cv] by auto
  then show "Forward s \<in> set evs \<Longrightarrow> s = fl_method fl @ '' '' @ u_request_uri u @ '' HTTP/1.1'' @ crlf @
      ''Host: '' @ u_host u @ crlf @ crlf"
    and "RelayUp ups \<in> set evs \<Longrightarrow> ups = io_copy id (en_chunks en unread)"
    using assms emit_done_no_data relay_data
    by (cases res; auto simp: plain_flow_def Let_def cv split: if_splits prod.splits)+
qed

text \<open>
  What a plain request becomes on its way. The request that is forwarded consists of the
  request line and the host: the headers of the client are not part of it, and a body that has
  arrived together with the head, in the buffer of the request reader, is not sent at all.
\<close>

theorem plain_request_stripped:
  assumes "handle_http op en (line @ crlf @ concat (map (\<lambda>l. l @ crlf) hs) @ crlf @ body) st = (evs, st')"
    and "parse_request_line (trim_space (line @ crlf)) = Some (meth, target, proto)" and "meth \<noteq> ''CONNECT''"
    and "LF \<notin> set line"
    and "\<forall>l \<in> set hs. l \<noteq> [] \<and> LF \<notin> set l \<and> CR \<notin> set l \<and> length l \<le> 8192" and "length hs < 200"
    and "length body \<le> en_buffered en" and "concat (en_chunks en []) = []"
  shows "(\<forall>s. Forward s \<in> set evs \<longrightarrow> (\<exists>u. en_url en target = Some u \<and>
      s = meth @ '' '' @ u_request_uri u @ '' HTTP/1.1'' @ crlf @ ''Host: '' @ u_host u @ crlf @ crlf)) \<and>
    (\<forall>ups. RelayUp ups \<in> set evs \<longrightarrow> concat ups = [])"
proof -
  let ?rest = "concat (map (\<lambda>l. l @ crlf) hs) @ crlf @ body"
  have "read_line ((line @ [CR]) @ LF # ?rest) = Some ((line @ [CR]) @ [LF], ?rest)"
    using assms(4) by (intro read_line_append) simp
  then have line: "read_line (line @ crlf @ ?rest) = Some (line @ crlf, ?rest)"
    by (simp add: crlf_def)
  have "read_request_headers 0 ?rest = (hs, body)"
    using assms(5,6) by (intro read_request_headers_lines) simp_all
  then have run: "plain_http op en (trim_space (line @ crlf)) (meth, target, proto) hs [] st = (evs, st')"
    using assms(1-3,7) line by (simp add: handle_http_def)
  have "\<exists>u. en_url en target = Some u \<and>
      s = meth @ '' '' @ u_request_uri u @ '' HTTP/1.1'' @ crlf @ ''Host: '' @ u_host u @ crlf @ crlf"
    if "Forward s \<in> set evs" for s
    using that run plain_flow_data(1)
    by (fastforce simp: plain_http_def Let_def split: option.splits if_splits sum.splits prod.splits)
  moreover have "concat ups = []" if "RelayUp ups \<in> set evs" for ups
    using that run plain_flow_data(2) assms(8)
    by (fastforce simp: plain_http_def Let_def io_copy_id concat_nonempty
        split: option.splits if_splits sum.splits prod.splits)
  ultimately show ?thesis by blast
qed

text \<open>
  A rewriting rule that changes the length of a chunk of the response ends the relay behind
  that chunk: the write reports another length than it was given.
\<close>

lemma rewriting_ends_relay:
  assumes "\<forall>b \<in> set pre. b \<noteq> [] \<and> length (w b) = length b" and "b \<noteq> []" and "length (w b) \<noteq> length b"
  shows "io_copy w (pre @ b # post) = map w pre @ [w b]"
  using assms by (induction pre) auto

lemma total_length_append: "total_length (xs @ ys) = total_length xs + total_length ys"
  by (simp add: total_length_def)

lemma total_length_nonempty: "total_length (filter (\<lambda>b. b \<noteq> []) bs) = total_length bs"
  by (simp add: total_length_def concat_nonempty)

text \<open>
  The counters of a relay count every byte twice. Both ends report what they read and what
  they write, so that the upload and the download of the proxy grow alike, each by the sum of
  the two directions, and the request and response bytes of the flow are twice what was
  relayed; the number of connections returns to what it was.
\<close>

theorem relay_counts_twice:
  "get_or_create (relay_stats s nm (io_copy id up) (io_copy id down) (io_copy id down)) nm =
     (get_or_create s nm)\<lparr>
       ps_upload := ps_upload (get_or_create s nm) + total_length up + total_length down,
       ps_download := ps_download (get_or_create s nm) + total_length up + total_length down\<rparr> \<and>
   fl_req_bytes (counted f id up down) = 2 * total_length up \<and>
   fl_resp_bytes (counted f id up down) = 2 * total_length down"
  by (simp add: relay_stats_def Let_def record_traffic_def add_connection_def remove_connection_def
      get_or_create_def io_copy_id total_length_nonempty counted_def split: option.split)

section \<open>Transparent connections\<close>

text \<open>The connections that the listeners of the two platforms accept are wrapped: they are not
  plain TCP connections, and the sniffing of server names never applies to them.\<close>

lemma wrapped_never_sniffed:
  "handle_tproxy op en (Some ta) False k arrived later st =
     tproxy_by_ip op en ta (string_of_bytes (arrived @ later)) st"
  by (simp add: handle_tproxy_def try_sni_mitm_def peek_client_hello_def split: option.split)

text \<open>
  A transparent connection whose request is answered by a rule panics: \<open>InterceptConnect\<close>
  returns no upstream connection then, and the handler closes it all the same.
\<close>

theorem tproxy_answer_panics:
  assumes "op_mitm op = Some h"
    and "should_intercept_ip (en_re en) (Some h) (ip_string (ta_ip ta))"
    and "\<not> skip_host (en_re en) (Some h) (tproxy_target ta)"
    and "intercept_connect (en_re en) (en_mitm en) (en_world en) h (en_stamp en) (tproxy_target ta) = (mev, Answered r)"
  shows "handle_tproxy op en (Some ta) False k arrived later st = None"
  using assms by (simp add: wrapped_never_sniffed tproxy_by_ip_def tproxy_relay_def)

section \<open>Starting and stopping\<close>

datatype lkind = HttpListener | SocksListener | TproxyListener

record listener =
  li_open :: "lkind list"
  li_closed :: bool

datatype start_result = StartFailed lkind | RoutingFailed | Serving | NothingToServe

definition new_listener :: listener where
  "new_listener = \<lparr>li_open = [], li_closed = False\<rparr>"

text \<open>\<open>Stop\<close>, and whether it takes the routing rules away.\<close>

definition stop_listener :: "listener \<Rightarrow> listener \<times> bool" where
  "stop_listener l = (if li_closed l then (l, False) else (\<lparr>li_open = [], li_closed = True\<rparr>, True))"

text \<open>
  \<open>Start\<close> up to the point where it waits: \<open>binds\<close> says which of the listeners can be bound,
  \<open>routing\<close> whether the routing rules can be installed. None is a panic: when the transparent
  listener cannot be bound, \<open>Start\<close> closes the listener that has not been made.
\<close>

definition start_listener ::
  "(lkind \<Rightarrow> bool) \<Rightarrow> bool \<Rightarrow> int \<Rightarrow> int \<Rightarrow> int \<Rightarrow> listener \<Rightarrow> (listener \<times> start_result) option" where
  "start_listener binds routing http socks tproxy l =
     (if 0 < http \<and> \<not> binds HttpListener then Some (l, StartFailed HttpListener)
      else let l1 = (if 0 < http then l\<lparr>li_open := li_open l @ [HttpListener]\<rparr> else l) in
      if 0 < socks \<and> \<not> binds SocksListener then Some (fst (stop_listener l1), StartFailed SocksListener)
      else let l2 = (if 0 < socks then l1\<lparr>li_open := li_open l1 @ [SocksListener]\<rparr> else l1) in
      if 0 < tproxy \<and> \<not> binds TproxyListener then
        (if TproxyListener \<in> set (li_open l2) then Some (l2, StartFailed TproxyListener) else None)
      else if 0 < tproxy \<and> \<not> routing then Some (l2, RoutingFailed)
      else let l3 = (if 0 < tproxy then l2\<lparr>li_open := li_open l2 @ [TproxyListener]\<rparr> else l2) in
      if http = 0 \<and> socks = 0 \<and> tproxy = 0 then Some (l3, NothingToServe) else Some (l3, Serving))"

lemma stop_idempotent: "stop_listener (fst (stop_listener l)) = (fst (stop_listener l), False)"
  by (simp add: stop_listener_def)

lemma stop_closes: "\<not> li_closed l \<Longrightarrow> li_open (fst (stop_listener l)) = []"
  by (simp add: stop_listener_def)

lemma start_tproxy_panics:
  "binds HttpListener \<Longrightarrow> binds SocksListener \<Longrightarrow> \<not> binds TproxyListener \<Longrightarrow> 0 < tproxy \<Longrightarrow>
   start_listener binds routing http socks tproxy new_listener = None"
  by (simp add: start_listener_def new_listener_def Let_def)

text \<open>A failure of the routing leaves the other listeners open and serving.\<close>

lemma start_routing_failure_leaks:
  "start_listener (\<lambda>k. True) False 7890 7891 7893 new_listener =
     Some (\<lparr>li_open = [HttpListener, SocksListener], li_closed = False\<rparr>, RoutingFailed)"
  by (simp add: start_listener_def new_listener_def)

section \<open>Witnesses\<close>

definition li_demo_url :: url where
  "li_demo_url = \<lparr>u_scheme = ''http'', u_host = ''a.com'', u_path = ''/x'', u_request_uri = ''/x''\<rparr>"

definition li_demo_hook :: hook where
  "li_demo_hook phase f = (f, True)"

definition li_demo_options :: options where
  "li_demo_options = \<lparr>op_router = \<lparr>r_mode = ''direct'', r_rules = []\<rparr>, op_mitm = None, op_actions = [],
     op_hooks = [Some li_demo_hook], op_sinks = [True], op_upstream = False, op_stats = True\<rparr>"

definition li_demo_mitm :: "mitm_env \<Rightarrow> http_env" where
  "li_demo_mitm me = \<lparr>en_re = mitm_demo_re, en_lookup = (\<lambda>h. None), en_order = [], en_world = new_registry,
     en_url = (\<lambda>t. Some li_demo_url), en_dial = (\<lambda>t. Inr ''pong''), en_upstream = (\<lambda>t. Inl ''no''),
     en_proxy = (\<lambda>p t. Inl ''no''), en_mitm = me,
     en_origin = (\<lambda>t. ''HTTP/1.1 200 OK'' @ crlf @ ''A: b'' @ crlf @ crlf @ ''hello''), en_write_err = None,
     en_leftover = (\<lambda>e. []), en_chunks = (\<lambda>s. [s]), en_buffered = 4096, en_client = ''c:1'',
     en_now = 5, en_stamp = ''now''\<rparr>"

abbreviation li_demo_env :: http_env where
  "li_demo_env \<equiv> li_demo_mitm mitm_demo_env"

definition li_demo_state :: lstate where
  "li_demo_state = \<lparr>ls_counter = 0, ls_stats = new_stats\<rparr>"

definition li_demo_line :: string where
  "li_demo_line = ''POST http://a.com/x HTTP/1.1''"

definition li_demo_input :: string where
  "li_demo_input = li_demo_line @ crlf @ concat (map (\<lambda>l. l @ crlf) [''B: c'']) @ crlf @ ''data''"

definition li_demo_forwarded :: string where
  "li_demo_forwarded = ''POST /x HTTP/1.1'' @ crlf @ ''Host: a.com'' @ crlf @ crlf"

lemma li_demo_fields [simp]:
  "en_re (li_demo_mitm me) = mitm_demo_re" "en_world (li_demo_mitm me) = new_registry"
  "en_url (li_demo_mitm me) t = Some li_demo_url" "en_dial (li_demo_mitm me) t = Inr ''pong''"
  "en_mitm (li_demo_mitm me) = me" "en_write_err (li_demo_mitm me) = None"
  "en_chunks (li_demo_mitm me) s = [s]" "en_buffered (li_demo_mitm me) = 4096"
  "en_origin (li_demo_mitm me) t = ''HTTP/1.1 200 OK'' @ crlf @ ''A: b'' @ crlf @ crlf @ ''hello''"
  "en_stamp (li_demo_mitm me) = ''now''"
  by (simp_all add: li_demo_mitm_def)

lemma li_demo_pick: "r_mode (op_router op) = ''direct'' \<Longrightarrow> pick_for op (li_demo_mitm me) t = Inr PDirect"
  by (simp add: pick_for_def pick_def reg_get_def upper_char_def)

lemma li_demo_request:
  "parse_request_line (trim_space (li_demo_line @ crlf)) = Some (''POST'', ''http://a.com/x'', ''HTTP/1.1'')"
  by code_simp

lemma li_demo_read:
  "read_line li_demo_input = Some (li_demo_line @ crlf, concat (map (\<lambda>l. l @ crlf) [''B: c'']) @ crlf @ ''data'')"
proof -
  have "LF \<notin> set (li_demo_line @ [CR])"
    by (simp add: li_demo_line_def)
  from read_line_append [OF this, of "concat (map (\<lambda>l. l @ crlf) [''B: c'']) @ crlf @ ''data''"]
  show ?thesis
    by (simp add: li_demo_input_def crlf_def)
qed

lemma li_demo_headers:
  "read_request_headers 0 (concat (map (\<lambda>l. l @ crlf) [''B: c'']) @ crlf @ ''data'') = ([''B: c''], ''data'')"
  by (rule read_request_headers_lines) simp_all

lemma li_demo_handle:
  "handle_http li_demo_options li_demo_env li_demo_input li_demo_state =
     plain_http li_demo_options li_demo_env (trim_space (li_demo_line @ crlf))
       (''POST'', ''http://a.com/x'', ''HTTP/1.1'') [''B: c''] [] li_demo_state"
  using li_demo_read li_demo_headers li_demo_request by (simp add: handle_http_def)

lemma li_demo_address: "contains ''a.com'' '':'' = False"
  by code_simp

lemma li_demo_plain:
  "\<exists>evs st'. handle_http li_demo_options li_demo_env li_demo_input li_demo_state = (evs, st') \<and>
     Forward li_demo_forwarded \<in> set evs"
proof -
  obtain fl0 c where nf: "new_flow (ls_counter li_demo_state) (en_now li_demo_env) ''http'' ''a.com:80''
      (en_client li_demo_env) = (fl0, c)"
    by (cases "new_flow (ls_counter li_demo_state) (en_now li_demo_env) ''http'' ''a.com:80'' (en_client li_demo_env)")
  have "r_mode (op_router li_demo_options) = ''direct''"
    by (simp add: li_demo_options_def)
  note pk = li_demo_pick [OF this]
  have via: "connect_via li_demo_options li_demo_env PDirect t = (Dialled RawDial t True, Inr ''pong'')" for t
    by (simp add: connect_via_def pref_name_def li_demo_options_def)
  have em: "emit (op_hooks li_demo_options) ph f = (f, True)" for ph f
    by (simp add: li_demo_options_def li_demo_hook_def)
  have "op_actions li_demo_options = []"
    by (simp add: li_demo_options_def)
  then show ?thesis
    unfolding li_demo_handle
    by (auto simp: plain_http_def plain_flow_def li_demo_url_def li_demo_address nf pk via em
        no_result_def li_demo_forwarded_def Let_def split: prod.split)
qed


theorem plain_request_stripped_witness:
  "\<exists>u. en_url li_demo_env ''http://a.com/x'' = Some u \<and>
     li_demo_forwarded = ''POST'' @ '' '' @ u_request_uri u @ '' HTTP/1.1'' @ crlf @ ''Host: '' @ u_host u @ crlf @ crlf"
proof -
  obtain evs st' where run: "handle_http li_demo_options li_demo_env li_demo_input li_demo_state = (evs, st')"
    and fw: "Forward li_demo_forwarded \<in> set evs"
    using li_demo_plain by blast
  have "LF \<notin> set li_demo_line"
    by (simp add: li_demo_line_def)
  then show ?thesis
    using plain_request_stripped [OF run [unfolded li_demo_input_def] li_demo_request] fw by simp
qed

definition li_demo_mitm_options :: options where
  "li_demo_mitm_options = li_demo_options\<lparr>op_mitm := Some mitm_demo_handler, op_hooks := [],
     op_actions := [mitm_demo_redirect, mitm_demo_rule]\<rparr>"

definition li_demo_rq :: string where
  "li_demo_rq = ''GET / HTTP/1.1'' @ crlf @ crlf"

definition li_demo_opening :: mitm_env where
  "li_demo_opening = mitm_demo_env\<lparr>me_client := (\<lambda>h. Some li_demo_rq)\<rparr>"

lemma li_demo_mitm_fields [simp]:
  "op_mitm li_demo_mitm_options = Some mitm_demo_handler" "op_hooks li_demo_mitm_options = []"
  "mh_rewrite mitm_demo_handler = []"
  by (simp_all add: li_demo_mitm_options_def mitm_demo_handler_def)

lemma li_demo_allowed:
  "should_intercept mitm_demo_re (Some mitm_demo_handler) ''a.com''"
  "\<not> skip_host mitm_demo_re (Some mitm_demo_handler) ''a.com''"
  by code_simp+

lemma li_demo_mitm_pick: "pick_for li_demo_mitm_options (li_demo_mitm me) t = Inr PDirect"
  by (rule li_demo_pick) (simp add: li_demo_mitm_options_def li_demo_options_def)

lemma li_demo_opened:
  "intercept_connect mitm_demo_re li_demo_opening new_registry mitm_demo_handler ''now'' ''a.com'' =
     ([UpDial None ''a.com'' True, UpTls ''a.com'' True False, ClientTls ''a.com''], Opened li_demo_rq [])"
proof -
  have "split_host_port ''a.com'' = None"
    by code_simp
  moreover have "read_first_request li_demo_rq = Some (li_demo_rq, [])"
    using read_first_request_lines [of "[''GET / HTTP/1.1'']" "[]"] by (simp add: li_demo_rq_def)
  moreover have "ur_action (request_answer mitm_demo_re mitm_demo_handler li_demo_rq) = []"
    by code_simp
  ultimately show ?thesis
    by (simp add: intercept_connect_def Let_def li_demo_opening_def mitm_demo_env_def egress_of_def
        log_http_request_def mitm_demo_handler_fields)
qed

theorem intercepted_response_headless_witness:
  "sent_to_client (fst (connect_http li_demo_mitm_options (li_demo_mitm li_demo_opening) ''a.com'' [] li_demo_state)) =
     established @ ''hello''"
proof -
  have op: "intercept_connect (en_re (li_demo_mitm li_demo_opening)) (en_mitm (li_demo_mitm li_demo_opening))
      (en_world (li_demo_mitm li_demo_opening)) mitm_demo_handler (en_stamp (li_demo_mitm li_demo_opening)) ''a.com'' =
     ([UpDial None ''a.com'' True, UpTls ''a.com'' True False, ClientTls ''a.com''], Opened li_demo_rq [])"
    using li_demo_opened by simp
  show ?thesis
    by (rule intercepted_response_headless [OF li_demo_mitm_pick li_demo_mitm_fields(1) _ _ op,
          where status = "''HTTP/1.1 200 OK''" and hs = "[''A: b'']"])
      (simp_all add: li_demo_allowed)
qed

lemma li_demo_connect:
  "\<exists>evs st'. handle_http li_demo_mitm_options (li_demo_mitm li_demo_opening) (''CONNECT a.com HTTP/1.1'' @ crlf @ crlf) li_demo_state =
     (evs, st') \<and> Mitm [UpDial None ''a.com'' True, UpTls ''a.com'' True False, ClientTls ''a.com''] \<in> set evs"
proof -
  have "LF \<notin> set (''CONNECT a.com HTTP/1.1'' @ [CR])"
    by simp
  from read_line_append [OF this, of crlf]
  have line: "read_line (''CONNECT a.com HTTP/1.1'' @ crlf @ crlf) = Some (''CONNECT a.com HTTP/1.1'' @ crlf, crlf)"
    by (simp add: crlf_def)
  have rq: "parse_request_line (trim_space (''CONNECT a.com HTTP/1.1'' @ crlf)) = Some (''CONNECT'', ''a.com'', ''HTTP/1.1'')"
    by code_simp
  have hd: "read_request_headers 0 crlf = ([], [])"
    using read_request_headers_lines [of "[]" 0 "[]"] by simp
  have "op_mitm li_demo_mitm_options = Some mitm_demo_handler"
    by (simp add: li_demo_mitm_options_def)
  then show ?thesis
    unfolding handle_http_def line option.case rq prod.case Let_def hd
    by (simp add: connect_http_def li_demo_mitm_pick li_demo_allowed li_demo_opened split: prod.split)
qed

definition li_demo_ip_handler :: mitm_handler where
  "li_demo_ip_handler = mitm_demo_handler\<lparr>mh_allow := [''IP-CIDR,1.2.3.0/24'']\<rparr>"

definition li_demo_ip_options :: options where
  "li_demo_ip_options = li_demo_options\<lparr>op_mitm := Some li_demo_ip_handler\<rparr>"

definition li_demo_target :: tcp_addr where
  "li_demo_target = \<lparr>ta_ip = [1, 2, 3, 4], ta_port = 443\<rparr>"

lemma li_demo_ip_allowed:
  "should_intercept_ip mitm_demo_re (Some li_demo_ip_handler) (ip_string (ta_ip li_demo_target))"
  "\<not> skip_host mitm_demo_re (Some li_demo_ip_handler) (tproxy_target li_demo_target)"
  by code_simp+

lemma li_demo_ip_answered:
  "\<exists>mev r. intercept_connect mitm_demo_re mitm_demo_env new_registry li_demo_ip_handler ''now''
     (tproxy_target li_demo_target) = (mev, Answered r)"
proof -
  have "split_host_port (tproxy_target li_demo_target) = Some (''1.2.3.4'', ''443'')"
    by code_simp
  moreover have "request_answer mitm_demo_re li_demo_ip_handler mitm_demo_request = mitm_demo_answer"
    by code_simp
  moreover have "ur_action mitm_demo_answer \<noteq> []"
    by (simp add: mitm_demo_answer_def)
  moreover have "\<not> mh_logging li_demo_ip_handler"
    by (simp add: li_demo_ip_handler_def mitm_demo_handler_def)
  ultimately show ?thesis
    by (auto simp: intercept_connect_def Let_def mitm_demo_env_def mitm_demo_read log_http_request_def)
qed

theorem tproxy_answer_panics_witness:
  "handle_tproxy li_demo_ip_options li_demo_env (Some li_demo_target) False 5 [1, 2, 3] [] li_demo_state = None"
proof -
  obtain mev r where i: "intercept_connect mitm_demo_re mitm_demo_env new_registry li_demo_ip_handler ''now''
      (tproxy_target li_demo_target) = (mev, Answered r)"
    using li_demo_ip_answered by blast
  show ?thesis
    by (rule tproxy_answer_panics [of _ li_demo_ip_handler _ _ mev r])
      (simp_all add: li_demo_ip_options_def li_demo_ip_allowed i)
qed

end
