(* ===== verification/Go_Stream.thy ===== *)
theory Go_Stream
  imports Go_Io
begin

text \<open>
  Handshakes over a connection. The peer's side of the connection is what it has sent and
  whether it keeps the connection open: a read that needs more than has been sent fails on a
  closed connection and waits for ever on an open one. A handshake is what it has written, and
  whether it waits, fails or goes on with a result.
\<close>

record inbound =
  in_data :: bytes
  in_open :: bool

datatype 'a io = Blocks | Fails | Gives 'a

type_synonym 'a talk = "bytes list \<times> 'a io"

definition fails :: "'a talk" where
  "fails = ([], Fails)"

definition gives :: "'a \<Rightarrow> 'a talk" where
  "gives x = ([], Gives x)"

text \<open>A write, and what follows it.\<close>

definition say_then :: "bytes \<Rightarrow> 'a talk \<Rightarrow> 'a talk" where
  "say_then b t = (b # fst t, snd t)"

text \<open>\<open>io.ReadFull\<close> whose error is returned.\<close>

definition read_then :: "nat \<Rightarrow> inbound \<Rightarrow> (bytes \<Rightarrow> inbound \<Rightarrow> 'a talk) \<Rightarrow> 'a talk" where
  "read_then n s k =
     (if n \<le> length (in_data s) then k (take n (in_data s)) (s\<lparr>in_data := drop n (in_data s)\<rparr>)
      else ([], if in_open s then Blocks else Fails))"

text \<open>\<open>io.ReadFull\<close> into a buffer of zeros whose error is ignored: at the end of the stream the
  rest of the buffer keeps its zeros.\<close>

definition pad_then :: "nat \<Rightarrow> inbound \<Rightarrow> (bytes \<Rightarrow> inbound \<Rightarrow> 'a talk) \<Rightarrow> 'a talk" where
  "pad_then n s k =
     (if n \<le> length (in_data s) then k (take n (in_data s)) (s\<lparr>in_data := drop n (in_data s)\<rparr>)
      else if in_open s then ([], Blocks)
      else k (in_data s @ replicate (n - length (in_data s)) 0) (s\<lparr>in_data := []\<rparr>))"

text \<open>One handshake after another.\<close>

definition and_then :: "'a talk \<Rightarrow> ('a \<Rightarrow> 'b talk) \<Rightarrow> 'b talk" where
  "and_then t k = (case snd t of
       Blocks \<Rightarrow> (fst t, Blocks) | Fails \<Rightarrow> (fst t, Fails)
     | Gives x \<Rightarrow> (fst t @ fst (k x), snd (k x)))"

abbreviation sent :: "bytes \<Rightarrow> inbound" where
  "sent b \<equiv> \<lparr>in_data = b, in_open = True\<rparr>"

lemma snd_say_then [simp]: "snd (say_then b t) = snd t" and fst_say_then [simp]: "fst (say_then b t) = b # fst t"
  by (simp_all add: say_then_def)

lemma outcome_simps [simp]: "snd fails = Fails" "fst fails = []" "snd (gives x) = Gives x" "fst (gives x) = []"
  by (simp_all add: fails_def gives_def)

lemma read_then_enough [simp]:
  "length b = n \<Longrightarrow> read_then n \<lparr>in_data = b @ r, in_open = op\<rparr> k = k b \<lparr>in_data = r, in_open = op\<rparr>"
  by (simp add: read_then_def)

lemma pad_then_enough [simp]:
  "length b = n \<Longrightarrow> pad_then n \<lparr>in_data = b @ r, in_open = op\<rparr> k = k b \<lparr>in_data = r, in_open = op\<rparr>"
  by (simp add: pad_then_def)

lemma and_then_Gives [simp]:
  "snd t = Gives x \<Longrightarrow> and_then t k = (fst t @ fst (k x), snd (k x))"
  by (simp add: and_then_def)

lemma and_then_GivesE:
  assumes "snd (and_then t k) = Gives y"
  obtains x where "snd t = Gives x" "snd (k x) = Gives y"
  using assms by (auto simp: and_then_def split: io.splits)

text \<open>A handshake on a closed connection never waits.\<close>

lemma read_then_closed: "\<not> in_open s \<Longrightarrow> (\<And>b s'. \<not> in_open s' \<Longrightarrow> snd (k b s') \<noteq> Blocks) \<Longrightarrow>
   snd (read_then n s k) \<noteq> Blocks"
  by (simp add: read_then_def)

lemma pad_then_closed: "\<not> in_open s \<Longrightarrow> (\<And>b s'. \<not> in_open s' \<Longrightarrow> snd (k b s') \<noteq> Blocks) \<Longrightarrow>
   snd (pad_then n s k) \<noteq> Blocks"
  by (simp add: pad_then_def)

end
