(* ===== verification/Socks.thy ===== *)
theory Socks
  imports Go_Stream Proxy_Registry
begin

text \<open>
  SOCKS5: the client (\<open>proxy/socks5.go\<close>), the framing of relayed datagrams
  (\<open>proxy/udp.go\<close>) and the server of \<open>forward dynamic\<close> (\<open>forward/forward.go\<close>).

  The network (\<open>net.DialTimeout\<close>) answers a dial with what the peer is going to send; the
  resolver (\<open>net.LookupIP\<close>) is a function.
\<close>

type_synonym lookup_ip = "string \<Rightarrow> ip list option"

type_synonym dialer = "string \<Rightarrow> inbound option"

section \<open>The client\<close>

definition length_byte :: "string \<Rightarrow> byte" where
  "length_byte s = word_of_nat (length s)"

definition socks_auth :: "proxy_cfg \<Rightarrow> inbound \<Rightarrow> inbound talk" where
  "socks_auth c s =
     say_then ([1, length_byte (c_username c)] @ bytes_of_string (c_username c) @
               [length_byte (c_password c)] @ bytes_of_string (c_password c))
       (read_then 2 s (\<lambda>r s1. if r ! 1 \<noteq> 0 then fails else gives s1))"

definition socks_greeting :: "proxy_cfg \<Rightarrow> bytes" where
  "socks_greeting c = (if c_username c = [] then [5, 1, 0] else [5, 2, 0, 2])"

definition socks_handshake :: "proxy_cfg \<Rightarrow> inbound \<Rightarrow> inbound talk" where
  "socks_handshake c s =
     say_then (socks_greeting c)
       (read_then 2 s (\<lambda>r s1. if r ! 1 = 2 then socks_auth c s1
                              else if r ! 1 \<noteq> 0 then fails else gives s1))"

text \<open>The address type and the address that the client asks for.\<close>

definition socks_target :: "lookup_ip \<Rightarrow> string \<Rightarrow> byte \<times> bytes" where
  "socks_target lookup host = (case lookup host of
       Some (a # _) \<Rightarrow> (case to4 a of
           Some b \<Rightarrow> (1, b)
         | None \<Rightarrow> (4, case to16 a of Some b \<Rightarrow> b | None \<Rightarrow> []))
     | _ \<Rightarrow> (3, length_byte host # bytes_of_string host))"

definition socks_request_bytes :: "lookup_ip \<Rightarrow> string \<Rightarrow> bytes option" where
  "socks_request_bytes lookup addr = map_option
     (\<lambda>(host, port). let (t, a) = socks_target lookup host
        in [5, 1, 0, t] @ a @ put_u16 (sscanf_uint 16 0 port)) (split_host_port addr)"

definition socks_request :: "lookup_ip \<Rightarrow> string \<Rightarrow> inbound \<Rightarrow> inbound talk" where
  "socks_request lookup addr s = (case socks_request_bytes lookup addr of
       None \<Rightarrow> fails
     | Some rq \<Rightarrow> say_then rq (read_then 5 s (\<lambda>r s1.
         if r ! 1 \<noteq> 0 then fails
         else if r ! 3 = 1 then pad_then 6 s1 (\<lambda>_. gives)
         else if r ! 3 = 4 then pad_then 18 s1 (\<lambda>_. gives)
         else if r ! 3 = 3 then pad_then 1 s1 (\<lambda>l s2. pad_then (unat (l ! 0) + 2) s2 (\<lambda>_. gives))
         else gives s1)))"

definition socks_connect :: "dialer \<Rightarrow> lookup_ip \<Rightarrow> proxy_cfg \<Rightarrow> string \<Rightarrow> inbound talk" where
  "socks_connect dial lookup c addr = (case dial (server_addr c) of
       None \<Rightarrow> fails
     | Some s \<Rightarrow> and_then (socks_handshake c s) (socks_request lookup addr))"

text \<open>UDP ASSOCIATE: the address of the relay.\<close>

definition bound_port :: "bytes \<Rightarrow> nat \<Rightarrow> nat" where
  "bound_port b i = get_u16 (b ! i) (b ! (i + 1))"

definition read_bound :: "byte \<Rightarrow> inbound \<Rightarrow> (string \<times> nat) talk" where
  "read_bound t s =
     (if t = 1 then read_then 6 s (\<lambda>b _. gives (ip_string (ipv4 (b ! 0) (b ! 1) (b ! 2) (b ! 3)), bound_port b 4))
      else if t = 4 then read_then 18 s (\<lambda>b _. gives (ip_string (take 16 b), bound_port b 16))
      else if t = 3 then read_then 1 s (\<lambda>l s1. let n = unat (l ! 0) in
          read_then (n + 2) s1 (\<lambda>b _. gives (string_of_bytes (take n b), bound_port b n)))
      else fails)"

definition udp_associate :: "proxy_cfg \<Rightarrow> inbound \<Rightarrow> string talk" where
  "udp_associate c s = say_then [5, 3, 0, 1, 0, 0, 0, 0, 0, 0] (read_then 5 s (\<lambda>r s1.
     if r ! 1 \<noteq> 0 then fails
     else and_then (read_bound (r ! 3) s1) (\<lambda>(host, port).
       let host' = (if host = ''0.0.0.0'' \<or> host = ''::'' then c_server c else host);
           port' = (if port = 0 then nat (c_port c mod 65536) else port)
       in gives (join_host_port host' (itoa port')))))"

definition connect_udp :: "dialer \<Rightarrow> proxy_cfg \<Rightarrow> string talk" where
  "connect_udp dial c = (case dial (server_addr c) of
       None \<Rightarrow> fails
     | Some s \<Rightarrow> and_then (socks_handshake c s) (udp_associate c))"

section \<open>Relayed datagrams\<close>

definition udp_header :: "string \<Rightarrow> bytes option" where
  "udp_header dst = map_option
     (\<lambda>(host, port). (case parse_ip host of
          Some a \<Rightarrow> (case to4 a of
              Some b \<Rightarrow> [0, 0, 1] @ b
            | None \<Rightarrow> [0, 0, 4] @ (case to16 a of Some b \<Rightarrow> b | None \<Rightarrow> []))
        | None \<Rightarrow> [0, 0, 3, length_byte host] @ bytes_of_string host)
        @ put_u16 (sscanf_uint 16 0 port)) (split_host_port dst)"

text \<open>\<open>ParseUDPHeader\<close>: the host from \<open>off\<close> on and the offset behind it; the outer option is a
  panic, the inner one the errors of the parser.\<close>

definition udp_host :: "byte \<Rightarrow> bytes \<Rightarrow> (string \<times> nat) option option" where
  "udp_host t b =
     (if t = 1 then
        (if length b < 9 then Some None
         else map_option (\<lambda>x. Some (ip_string x, 7)) (slice b 3 7))
      else if t = 4 then
        (if length b < 21 then Some None
         else map_option (\<lambda>x. Some (ip_string x, 19)) (slice b 3 19))
      else if t = 3 then
        (if length b < 4 then Some None
         else do {
           l \<leftarrow> at_index b 3;
           let n = unat l in
           if length b < 4 + n + 2 then Some None
           else map_option (\<lambda>x. Some (string_of_bytes x, 4 + n)) (slice b 4 (4 + n)) })
      else Some None)"

definition parse_udp_header :: "bytes \<Rightarrow> (string \<times> bytes) option option" where
  "parse_udp_header b =
     (if length b < 4 then Some None
      else do {
        t \<leftarrow> at_index b 2;
        h \<leftarrow> udp_host t b;
        (case h of
           None \<Rightarrow> Some None
         | Some (host, off) \<Rightarrow>
             (if length b < off + 2 then Some None
              else do {
                port \<leftarrow> u16_at b off;
                payload \<leftarrow> slice b (off + 2) (length b);
                Some (Some (join_host_port host (itoa port), payload)) })) })"

text \<open>\<open>socks5UDPConn\<close>: what a \<open>WriteTo\<close> sends to the relay, and what a received datagram
  gives to the reader.\<close>

definition relay_write :: "string \<Rightarrow> bytes \<Rightarrow> bytes option" where
  "relay_write addr p = map_option (\<lambda>h. h @ p) (udp_header addr)"

definition relay_read :: "bytes \<Rightarrow> (string \<times> bytes) option" where
  "relay_read d = (case parse_udp_header d of Some r \<Rightarrow> r | None \<Rightarrow> None)"

section \<open>The server of the dynamic forwarder\<close>

definition read_socks_addr :: "byte \<Rightarrow> inbound \<Rightarrow> (string \<Rightarrow> inbound \<Rightarrow> 'a talk) \<Rightarrow> 'a talk \<Rightarrow> 'a talk" where
  "read_socks_addr t s k bad = (let
     full = (\<lambda>n s k. if in_open s \<or> n \<le> length (in_data s) then read_then n s k else bad);
     port = (\<lambda>host s. full 2 s (\<lambda>p s'. k (join_host_port host (itoa (get_u16 (p ! 0) (p ! 1)))) s'))
   in if t = 1 then full 4 s (\<lambda>b. port (ip_string b))
      else if t = 3 then full 1 s (\<lambda>l s1. full (unat (l ! 0)) s1 (\<lambda>b. port (string_of_bytes b)))
      else if t = 4 then full 16 s (\<lambda>b. port (ip_string b))
      else bad)"

definition socks_reply :: "byte \<Rightarrow> bytes" where
  "socks_reply code = [5, code, 0, 1, 0, 0, 0, 0, 0, 0]"

text \<open>\<open>handleSOCKS5Connect\<close>: the destination that is dialled, what the client has sent behind
  its request, and the peer; a failure closes the connection.\<close>

definition forward_socks :: "dialer \<Rightarrow> inbound \<Rightarrow> (string \<times> inbound \<times> inbound) talk" where
  "forward_socks dial s = read_then 2 s (\<lambda>h s1.
     if h ! 0 \<noteq> 5 then fails
     else read_then (unat (h ! 1)) s1 (\<lambda>_ s2. say_then [5, 0] (read_then 4 s2 (\<lambda>rq s3.
       if rq ! 0 \<noteq> 5 \<or> rq ! 1 \<noteq> 1 then say_then (socks_reply 7) fails
       else read_socks_addr (rq ! 3) s3
         (\<lambda>dst s4. case dial dst of
            None \<Rightarrow> say_then (socks_reply 4) fails
          | Some peer \<Rightarrow> say_then (socks_reply 0) (gives (dst, s4, peer)))
         (say_then (socks_reply 1) fails)))))"

section \<open>Datagrams\<close>

lemma udp_host_no_panic [no_panic]: "4 \<le> length b \<Longrightarrow> udp_host t b \<noteq> None"
  unfolding udp_host_def Let_def by (intro no_panic; simp)

lemma udp_host_offset: "udp_host t b = Some (Some (host, off)) \<Longrightarrow> off \<le> length b"
  by (auto simp: udp_host_def Let_def split: if_splits option.splits Option.bind_splits)

text \<open>\<open>ParseUDPHeader\<close> accepts every datagram without a panic.\<close>

lemma parse_udp_never_panics: "parse_udp_header b \<noteq> None"
  unfolding parse_udp_header_def
  by (auto simp: at_index_in_bounds u16_at_in_bounds slice_def dest: udp_host_no_panic [THEN notE, rotated]
      split: option.split Option.bind_split)

text \<open>The host as the receiver of a header reads it.\<close>

definition canonical_host :: "string \<Rightarrow> string" where
  "canonical_host host = (case parse_ip host of None \<Rightarrow> host | Some a \<Rightarrow> ip_string a)"

lemma parse_udp_parts:
  assumes "udp_host t ([0, 0, t] @ a @ put_u16 port @ p) = Some (Some (host, 3 + length a))" and "port < 65536"
  shows "parse_udp_header ([0, 0, t] @ a @ put_u16 port @ p) = Some (Some (join_host_port host (itoa port), p))"
proof -
  let ?b = "[0, 0, t] @ a @ put_u16 port @ p"
  have "at_index ?b 2 = Some t"
    by (simp add: at_index_def)
  moreover have "u16_at ?b (3 + length a) = Some port"
    using u16_at_put [of "[0, 0, t] @ a" "3 + length a" port p] assms(2) by simp
  moreover have "slice ?b (3 + length a + 2) (length ?b) = Some p"
    using slice_append [of "[0, 0, t] @ a @ put_u16 port" "3 + length a + 2" p "[]"]
    by (simp add: eval_nat_numeral)
  moreover have "\<not> length ?b < 4" "\<not> length ?b < 3 + length a + 2"
    by simp_all
  ultimately show ?thesis
    unfolding parse_udp_header_def using assms(1) by simp
qed

text \<open>
  A datagram that one end frames is read back at the other end: the destination, an address
  in its canonical form, and the payload as it was.
\<close>

theorem udp_frame_roundtrip:
  assumes "CHR ''['' \<notin> set host" "CHR '']'' \<notin> set host" and "port < 65536"
    and "parse_ip host = None \<Longrightarrow> length host < 256"
  shows "\<exists>d. relay_write (join_host_port host (itoa port)) p = Some d \<and>
    relay_read d = Some (join_host_port (canonical_host host) (itoa port), p)"
proof -
  have split: "split_host_port (join_host_port host (itoa port)) = Some (host, itoa port)"
    using assms(1,2) by (rule split_join_itoa)
  have port: "sscanf_uint 16 0 (itoa port) = port"
    using assms(3) by (intro sscanf_uint_itoa) simp
  have framed: ?thesis
    if "udp_header (join_host_port host (itoa port)) = Some ([0, 0, t] @ a @ put_u16 port)"
      "udp_host t ([0, 0, t] @ a @ put_u16 port @ p) = Some (Some (canonical_host host, 3 + length a))" for t a
    using that(1) parse_udp_parts [OF that(2) assms(3)] by (simp add: relay_write_def relay_read_def)
  show ?thesis
  proof (cases "parse_ip host")
    case None
    then have "udp_host 3 ([0, 0, 3] @ (length_byte host # bytes_of_string host) @ put_u16 port @ p) =
        Some (Some (canonical_host host, 3 + length (length_byte host # bytes_of_string host)))"
      using assms(4) by (simp add: udp_host_def canonical_host_def at_index_def slice_def length_byte_def
          unat_of_nat Let_def)
    with None show ?thesis
      using split port by (intro framed [of 3 "length_byte host # bytes_of_string host"])
        (simp_all add: udp_header_def)
  next
    case (Some a)
    then have len: "length a = 16" by (rule parse_ip_length)
    show ?thesis
    proof (cases "to4 a")
      case None
      with Some len show ?thesis
        using split port by (intro framed [of 4 a])
          (simp_all add: udp_header_def udp_host_def canonical_host_def slice_def to16_16)
    next
      case b: (Some b)
      from to4_length [OF b] Some b show ?thesis
        using split port ip_string_to4 [OF b] by (intro framed [of 1 b])
          (simp_all add: udp_header_def udp_host_def canonical_host_def slice_def)
    qed
  qed
qed

text \<open>
  The address type is written into and read from the third byte, where RFC 1928 has the
  fragment number: every unfragmented datagram of a conforming peer is rejected.
\<close>

theorem rfc_datagram_dropped: "relay_read ([0, 0, 0] @ rest) = None"
  by (simp add: relay_read_def parse_udp_header_def at_index_def udp_host_def split: option.split)

section \<open>The client and its servers\<close>

text \<open>The host that a client asks its server for: the first address of the name, or the name.\<close>

definition asked_host :: "lookup_ip \<Rightarrow> string \<Rightarrow> string" where
  "asked_host lookup host = (case lookup host of Some (a # _) \<Rightarrow> ip_string a | _ \<Rightarrow> host)"

definition proper_lookup :: "lookup_ip \<Rightarrow> string \<Rightarrow> bool" where
  "proper_lookup lookup host \<longleftrightarrow> (case lookup host of
       Some (a # _) \<Rightarrow> length a \<in> {4, 16} | _ \<Rightarrow> length host < 256)"

lemma socks_target_cases:
  assumes "proper_lookup lookup host"
  obtains (ipv4) b where "socks_target lookup host = (1, b)" "length b = 4" "asked_host lookup host = ip_string b"
  | (ipv6) b where "socks_target lookup host = (4, b)" "length b = 16" "asked_host lookup host = ip_string b"
  | (name) "socks_target lookup host = (3, length_byte host # bytes_of_string host)"
      "length host < 256" "asked_host lookup host = host"
proof (cases "\<exists>a as. lookup host = Some (a # as)")
  case True
  then obtain a as where l: "lookup host = Some (a # as)" by blast
  then have len: "length a = 4 \<or> length a = 16"
    using assms by (simp add: proper_lookup_def)
  show thesis
  proof (cases "to4 a")
    case None
    then have "length a = 16"
      using len by (auto simp: to4_def split: if_splits)
    then show thesis
      using l None by (intro ipv6 [of a]) (simp_all add: socks_target_def asked_host_def to16_16)
  next
    case (Some b)
    then show thesis
      using l to4_length [OF Some] ip_string_to4 [OF Some]
      by (intro ipv4 [of b]) (simp_all add: socks_target_def asked_host_def)
  qed
next
  case False
  then consider "lookup host = None" | "lookup host = Some []"
    by (metis list.exhaust option.exhaust)
  then show thesis
    using assms by cases (intro name; simp add: socks_target_def asked_host_def proper_lookup_def)+
qed

text \<open>The forwarder's reader of addresses on what the client sends for one.\<close>

lemma read_socks_addr_target:
  assumes "proper_lookup lookup host" "socks_target lookup host = (t, a)" "port < 65536"
  shows "read_socks_addr t \<lparr>in_data = a @ put_u16 port @ r, in_open = op\<rparr> k bad =
    k (join_host_port (asked_host lookup host) (itoa port)) \<lparr>in_data = r, in_open = op\<rparr>"
  using assms(1)
proof (cases rule: socks_target_cases)
  case (ipv4 b)
  then show ?thesis
    using assms(2,3) by (simp add: read_socks_addr_def Let_def put_u16_def read_then_def)
next
  case (ipv6 b)
  then show ?thesis
    using assms(2,3) by (simp add: read_socks_addr_def Let_def put_u16_def read_then_def)
next
  case name
  then have "unat (length_byte host) = length host"
    by (simp add: length_byte_def unat_of_nat)
  with name show ?thesis
    using assms(2,3) by (simp add: read_socks_addr_def Let_def put_u16_def read_then_def)
qed

lemma socks_request_bytes_join:
  assumes "CHR ''['' \<notin> set host" "CHR '']'' \<notin> set host" "port < 65536" "socks_target lookup host = (t, a)"
  shows "socks_request_bytes lookup (join_host_port host (itoa port)) = Some ([5, 1, 0, t] @ a @ put_u16 port)"
  using assms by (simp add: socks_request_bytes_def split_join_itoa sscanf_uint_itoa)

text \<open>
  What the client makes of a reply with an IPv4 or IPv6 address, as RFC 1928 has it: the
  five bytes it reads first contain one byte of the address, and it reads a whole address
  behind them.
\<close>

lemma request_overreads:
  assumes "socks_request_bytes lookup addr = Some rq" and "(t, length bnd) \<in> {(1, 6), (4, 18)}"
  shows "socks_request lookup addr (sent ([5, 0, 0, t] @ bnd @ answer)) =
    ([rq], if answer = [] then Blocks else Gives (sent (tl answer)))"
proof -
  obtain x bs where bnd: "bnd = x # bs"
    using assms(2) by (cases bnd) auto
  have first: "read_then 5 (sent ([5, 0, 0, t] @ bnd @ answer)) k = k [5, 0, 0, t, x] (sent (bs @ answer))" for k
    using read_then_enough [of "[5, 0, 0, t, x]" 5 "bs @ answer" True k] by (simp add: bnd)
  have rest: "pad_then (Suc (length bs)) (sent (bs @ answer)) (\<lambda>_. gives) =
      ([], if answer = [] then Blocks else Gives (sent (tl answer)))"
    by (cases answer) (simp_all add: pad_then_def gives_def drop_Suc)
  show ?thesis
    using assms(2) rest by (auto simp: socks_request_def assms(1) bnd say_then_def first [unfolded bnd, simplified])
qed

text \<open>
  C25: The program's own SOCKS5 client behind its own SOCKS5 server. The server understands the
  request: it dials the first address that the client has found for the host (or the name, when
  it has found none) and accepts. But the client never comes back from its handshake when the
  destination waits for it to speak first, and it loses the first byte of a destination that
  speaks first.
\<close>

theorem own_socks_pair:
  assumes "c_username c = []" and "CHR ''['' \<notin> set host" "CHR '']'' \<notin> set host" and "port < 65536"
    and "proper_lookup lookup host"
    and "client = socks_connect (\<lambda>_. Some (sent ([5, 0] @ socks_reply 0 @ answer))) lookup c
           (join_host_port host (itoa port))"
    and "dial (join_host_port (asked_host lookup host) (itoa port)) = Some (sent answer)"
  shows "forward_socks dial (sent (concat (fst client))) =
      ([[5, 0], socks_reply 0],
       Gives (join_host_port (asked_host lookup host) (itoa port), sent [], sent answer)) \<and>
    snd client = (if answer = [] then Blocks else Gives (sent (tl answer)))"
proof -
  obtain t a where t: "socks_target lookup host = (t, a)"
    by (cases "socks_target lookup host")
  note rq = socks_request_bytes_join [OF assms(2,3,4) t]
  have hs: "socks_handshake c (sent ([5, 0] @ r)) = ([[5, 1, 0]], Gives (sent r))" for r
    by (simp add: socks_handshake_def socks_greeting_def assms(1) read_then_def say_then_def gives_def)
  have client: "client = ([[5, 1, 0], [5, 1, 0, t] @ a @ put_u16 port],
      if answer = [] then Blocks else Gives (sent (tl answer)))"
    using request_overreads [OF rq, of 1 "replicate 6 0" answer] hs
    by (simp add: assms(6) socks_connect_def and_then_def socks_reply_def eval_nat_numeral)
  have "forward_socks dial (sent ([5, 1, 0] @ [5, 1, 0, t] @ a @ put_u16 port)) =
      ([[5, 0], socks_reply 0],
       Gives (join_host_port (asked_host lookup host) (itoa port), sent [], sent answer))"
    by (simp add: forward_socks_def read_then_def say_then_def gives_def assms(7)
        read_socks_addr_target [OF assms(5) t assms(4), of "[]" True, simplified])
  then show ?thesis
    by (simp add: client)
qed

section \<open>Witnesses\<close>

definition socks_demo_cfg :: proxy_cfg where
  "socks_demo_cfg = to_proxy_config (demo_entry ''s'' ''socks5'' [])"

theorem udp_frame_roundtrip_witness:
  "\<exists>d. relay_write (join_host_port ''a.b'' (itoa 53)) [1, 2] = Some d \<and>
    relay_read d = Some (join_host_port (canonical_host ''a.b'') (itoa 53), [1, 2])"
  by (rule udp_frame_roundtrip) simp_all

theorem own_socks_pair_witness:
  "snd (socks_connect (\<lambda>_. Some (sent ([5, 0] @ socks_reply 0 @ [83, 83, 72]))) (\<lambda>_. None) socks_demo_cfg
     (join_host_port ''a.b'' (itoa 22))) = Gives (sent [83, 72])"
proof -
  have "c_username socks_demo_cfg = []"
    by (simp add: socks_demo_cfg_def to_proxy_config_def demo_entry_def)
  moreover have "proper_lookup (\<lambda>_. None) ''a.b''"
    by (simp add: proper_lookup_def)
  ultimately show ?thesis
    using own_socks_pair [of socks_demo_cfg "''a.b''" 22 "\<lambda>_. None" _ "[83, 83, 72]" "\<lambda>_. Some (sent [83, 83, 72])"]
    by simp
qed

end
