(* ===== verification/Http_Connect.thy ===== *)
theory Http_Connect
  imports Socks Go_Encoding
begin

text \<open>
  Tunnels through an HTTP proxy: the HTTP and HTTPS proxies (\<open>proxy/http.go\<close>,
  \<open>proxy/https.go\<close>) and the upstream proxy (\<open>proxy/upstream.go\<close>), with what becomes of the
  connection: it may not come up, wait for the peer, be given up (closed or not), or carry on as
  a tunnel.

  TLS and the network are parameters: a handshake is a function from what the peer sends on the
  raw connection to the plaintext it carries. What has been received arrives in the pieces of
  \<open>de_chunks\<close>, one per read. Writes succeed.
\<close>

section \<open>Connections\<close>

datatype outcome = Undialled | Stuck | Lost bool | Tunnel inbound | Crash

type_synonym attempt = "bytes list \<times> outcome"

record dial_env =
  de_dial :: dialer
  de_tls :: "string \<Rightarrow> string list \<Rightarrow> inbound \<Rightarrow> inbound option"
  de_utls :: "string \<Rightarrow> string \<Rightarrow> string list \<Rightarrow> inbound \<Rightarrow> inbound option"
  de_lookup :: lookup_ip
  de_chunks :: "string \<Rightarrow> string list"

text \<open>A dialler that closes the connection when its handshake fails.\<close>

definition or_close :: "inbound talk \<Rightarrow> attempt" where
  "or_close t = (fst t, case snd t of Blocks \<Rightarrow> Stuck | Fails \<Rightarrow> Lost True | Gives s \<Rightarrow> Tunnel s)"

definition dialled :: "dial_env \<Rightarrow> string \<Rightarrow> (inbound \<Rightarrow> attempt) \<Rightarrow> attempt" where
  "dialled env addr k = (case de_dial env addr of None \<Rightarrow> ([], Undialled) | Some s \<Rightarrow> k s)"

definition via_tls :: "dial_env \<Rightarrow> string \<Rightarrow> string list \<Rightarrow> inbound \<Rightarrow> (inbound \<Rightarrow> attempt) \<Rightarrow> attempt" where
  "via_tls env sni alpn s k = (case de_tls env sni alpn s of None \<Rightarrow> ([], Lost True) | Some p \<Rightarrow> k p)"

text \<open>The server name of a TLS handshake when none is configured.\<close>

definition sni_or_server :: "proxy_cfg \<Rightarrow> string" where
  "sni_or_server c = (if c_sni c \<noteq> [] then c_sni c
     else case split_host_port (server_addr c) of Some (h, _) \<Rightarrow> h | None \<Rightarrow> [])"

section \<open>Reading a response\<close>

text \<open>\<open>ReadString\<close> of a buffered reader: the line, what stays in the buffer, the pieces that
  have not been read.\<close>

fun bufio_line :: "string \<Rightarrow> string list \<Rightarrow> (string \<times> string \<times> string list) option" where
  "bufio_line buf cs = (case read_line buf of
       Some (l, r) \<Rightarrow> Some (l, r, cs)
     | None \<Rightarrow> (case cs of [] \<Rightarrow> None | c # cs' \<Rightarrow> bufio_line (buf @ c) cs'))"

declare bufio_line.simps [simp del]

lemma bufio_line_Some:
  "bufio_line buf cs = Some (l, r, cs') \<Longrightarrow> buf @ concat cs = l @ r @ concat cs' \<and> l \<noteq> []"
proof (induction buf cs rule: bufio_line.induct)
  case (1 buf cs)
  then show ?case
    by (subst (asm) (2) bufio_line.simps)
      (auto split: option.splits list.splits dest: read_line_SomeD)
qed

function drain_headers :: "string \<Rightarrow> string list \<Rightarrow> string list option" where
  "drain_headers buf cs = (case bufio_line buf cs of
       None \<Rightarrow> None
     | Some (l, r, cs') \<Rightarrow> if trim_space l = [] then Some cs' else drain_headers r cs')"
  by pat_completeness auto
termination
proof (relation "measure (\<lambda>(buf, cs). length buf + length (concat cs))", simp, clarify)
  fix buf :: string and cs l r cs'
  assume "bufio_line buf cs = Some (l, r, cs')"
  then have "buf @ concat cs = l @ r @ concat cs'" "l \<noteq> []"
    using bufio_line_Some by blast+
  then have "length (buf @ concat cs) = length (l @ r @ concat cs')" "0 < length l"
    by simp_all
  then show "((r, cs'), buf, cs) \<in> measure (\<lambda>(buf, cs). length buf + length (concat cs))"
    by simp
qed

declare drain_headers.simps [simp del]

text \<open>\<open>Sscanf\<close> with \<open>%d\<close> into a zero \<open>int\<close>.\<close>

definition sscanf_int :: "string \<Rightarrow> int" where
  "sscanf_int s0 = (let s = dropWhile (\<lambda>c. c = CHR '' '') s0 in case s of
       [] \<Rightarrow> 0
     | c # r \<Rightarrow> (let neg = (c = CHR ''-''); t = (if c = CHR ''-'' \<or> c = CHR ''+'' then r else s);
           ds = takeWhile is_digit t; n = int (num_of_digits 0 ds)
         in if ds = [] \<or> 2 ^ 63 \<le> n then 0 else if neg then - n else n))"

definition http_read_response :: "string list \<Rightarrow> bool \<Rightarrow> (int \<times> string \<times> string list) io" where
  "http_read_response cs op = (case bufio_line [] cs of
       None \<Rightarrow> if op then Blocks else Fails
     | Some (line, r, cs1) \<Rightarrow> (let parts = split_n 3 CHR '' '' (trim_space line) in
         if length parts < 2 then Fails
         else let status = sscanf_int (parts ! 1); reason = (if length parts < 3 then [] else parts ! 2)
           in case drain_headers r cs1 of
                Some cs2 \<Rightarrow> Gives (status, reason, cs2)
              | None \<Rightarrow> if op then Blocks else Gives (status, reason, [])))"

section \<open>HTTP and HTTPS proxies\<close>

definition connect_request :: "string \<Rightarrow> string \<Rightarrow> string" where
  "connect_request addr token =
     ''CONNECT '' @ addr @ '' HTTP/1.1'' @ crlf @ ''Host: '' @ addr @ crlf @
     (if token = [] then [] else ''Proxy-Authorization: Basic '' @ token @ crlf) @ crlf"

definition basic_token :: "string \<Rightarrow> string \<Rightarrow> string" where
  "basic_token user pass =
     (if user = [] then [] else b64_encode False True (bytes_of_string (user @ '':'' @ pass)))"

text \<open>The reader of the response is dropped with what it has buffered.\<close>

definition send_connect :: "dial_env \<Rightarrow> string \<Rightarrow> string \<Rightarrow> inbound \<Rightarrow> inbound talk" where
  "send_connect env addr token s = say_then (bytes_of_string (connect_request addr token))
     (case http_read_response (de_chunks env (string_of_bytes (in_data s))) (in_open s) of
        Blocks \<Rightarrow> ([], Blocks)
      | Fails \<Rightarrow> fails
      | Gives (status, reason, cs) \<Rightarrow>
          if status \<noteq> 200 then fails else gives (s\<lparr>in_data := bytes_of_string (concat cs)\<rparr>))"

definition http_connect :: "dial_env \<Rightarrow> proxy_cfg \<Rightarrow> string \<Rightarrow> attempt" where
  "http_connect env c addr = dialled env (server_addr c) (\<lambda>s.
     let go = (\<lambda>p. or_close (send_connect env addr (basic_token (c_username c) (c_password c)) p))
     in if c_sni c \<noteq> [] then via_tls env (c_sni c) (c_alpn c) s go else go s)"

definition https_connect :: "dial_env \<Rightarrow> proxy_cfg \<Rightarrow> string \<Rightarrow> attempt" where
  "https_connect env c addr = dialled env (server_addr c) (\<lambda>s.
     via_tls env (sni_or_server c) (c_alpn c) s (\<lambda>p.
       or_close (send_connect env addr (basic_token (c_username c) (c_password c)) p)))"

section \<open>The upstream proxy\<close>

text \<open>What \<open>net/url\<close> makes of the configured URL: \<open>Host\<close>, \<open>Hostname()\<close>, \<open>Port()\<close> and the
  user with its password.\<close>

record upstream_url =
  uu_scheme :: string
  uu_host :: string
  uu_hostname :: string
  uu_port :: string
  uu_user :: "(string \<times> string) option"

record upstream_proxy =
  up_scheme :: string
  up_host :: string
  up_port :: int
  up_username :: string
  up_password :: string
  up_timeout :: int
  up_tls :: bool
  up_name :: string
  up_cert :: bool

datatype upstream_err = BadUrl | MissingHost | BadScheme string | BadUpstreamPort string

text \<open>\<open>NewUpstreamProxy\<close>: the inner None is the nil proxy of an empty URL; times are in
  nanoseconds.\<close>

definition new_upstream ::
  "(string \<Rightarrow> upstream_url option) \<Rightarrow> string \<Rightarrow> int \<Rightarrow> upstream_err + upstream_proxy option" where
  "new_upstream parse raw timeout =
     (if raw = [] then Inr None
      else case parse raw of
        None \<Rightarrow> Inl BadUrl
      | Some u \<Rightarrow>
        (if uu_host u = [] then Inl MissingHost
         else if uu_scheme u \<notin> {''http'', ''https'', ''socks5''} then Inl (BadScheme (uu_scheme u))
         else let port = (if uu_port u \<noteq> [] then uu_port u
                          else if uu_scheme u = ''socks5'' then ''1080'' else ''3128'')
           in case atoi port of
             None \<Rightarrow> Inl (BadUpstreamPort port)
           | Some n \<Rightarrow> Inr (Some \<lparr>up_scheme = uu_scheme u, up_host = uu_hostname u, up_port = n,
               up_username = (case uu_user u of None \<Rightarrow> [] | Some (a, _) \<Rightarrow> a),
               up_password = (case uu_user u of None \<Rightarrow> [] | Some (_, b) \<Rightarrow> b),
               up_timeout = (if timeout \<le> 0 then 30000000000 else timeout),
               up_tls = (uu_scheme u = ''https''), up_name = ''UPSTREAM:'' @ uu_scheme u, up_cert = False\<rparr>)))"

definition set_client_cert :: "upstream_proxy \<Rightarrow> upstream_proxy" where
  "set_client_cert u = u\<lparr>up_cert := True\<rparr>"

text \<open>\<open>doneHTTPResponse\<close>, \<open>isHTTPOk\<close> and the loop between them.\<close>

definition done_response :: "string \<Rightarrow> bool" where
  "done_response s \<longleftrightarrow> has_suffix s (crlf @ crlf)"

definition is_http_ok :: "string \<Rightarrow> bool" where
  "is_http_ok s = (if length s < 12 then False
     else case index_byte s CHR '' '' of
       None \<Rightarrow> False
     | Some i \<Rightarrow> if length s < i + 4 then False else s ! (i + 1) = CHR ''2'')"

fun read_response :: "string \<Rightarrow> string list \<Rightarrow> (string \<times> string list) option" where
  "read_response got cs =
     (if done_response got then Some (got, cs)
      else case cs of
        [] \<Rightarrow> None
      | c # cs' \<Rightarrow> if 8192 < length (got @ c) then None else read_response (got @ c) cs')"

declare read_response.simps [simp del]

text \<open>The handshakes have a deadline: a read that waits is a failure.\<close>

definition upstream_http :: "dial_env \<Rightarrow> upstream_proxy \<Rightarrow> string \<Rightarrow> inbound \<Rightarrow> inbound talk" where
  "upstream_http env u addr s = (case split_host_port addr of
       None \<Rightarrow> fails
     | Some (host, port) \<Rightarrow>
       say_then (bytes_of_string (connect_request (host @ '':'' @ port) (basic_token (up_username u) (up_password u))))
         (case read_response [] (de_chunks env (string_of_bytes (in_data s))) of
            None \<Rightarrow> fails
          | Some (got, cs) \<Rightarrow>
              if is_http_ok got then gives (s\<lparr>in_data := bytes_of_string (concat cs)\<rparr>) else fails))"

definition upstream_auth :: "upstream_proxy \<Rightarrow> inbound \<Rightarrow> inbound talk" where
  "upstream_auth u s =
     say_then ([1, length_byte (up_username u)] @ bytes_of_string (up_username u) @
               [length_byte (up_password u)] @ bytes_of_string (up_password u))
       (read_then 2 s (\<lambda>r s1. if r ! 1 \<noteq> 0 then fails else gives s1))"

definition upstream_request :: "string \<Rightarrow> inbound \<Rightarrow> inbound talk" where
  "upstream_request addr s = (case split_host_port addr of
       None \<Rightarrow> fails
     | Some (host, port) \<Rightarrow> (case atoi port of
         None \<Rightarrow> fails
       | Some p \<Rightarrow>
         say_then ([5, 1, 0, 3, length_byte host] @ bytes_of_string host @ put_u16 (nat (p mod 65536)))
           (read_then 4 s (\<lambda>r s1.
              if r ! 1 \<noteq> 0 then fails
              else if r ! 3 = 1 then pad_then 6 s1 (\<lambda>_. gives)
              else if r ! 3 = 3 then pad_then 1 s1 (\<lambda>l s2. pad_then (unat (l ! 0) + 2) s2 (\<lambda>_. gives))
              else if r ! 3 = 4 then pad_then 18 s1 (\<lambda>_. gives)
              else fails))))"

definition upstream_socks :: "upstream_proxy \<Rightarrow> string \<Rightarrow> inbound \<Rightarrow> inbound talk" where
  "upstream_socks u addr s = and_then
     (say_then (if up_username u = [] then [5, 1, 0] else [5, 2, 0, 2]) (read_then 2 s (\<lambda>r s1.
        if r ! 0 \<noteq> 5 then fails
        else if r ! 1 = 2 then upstream_auth u s1
        else if r ! 1 \<noteq> 0 then fails else gives s1)))
     (upstream_request addr)"

definition reopened :: "bool \<Rightarrow> inbound talk \<Rightarrow> inbound talk" where
  "reopened op t = (fst t, case snd t of Gives s \<Rightarrow> Gives (s\<lparr>in_open := op\<rparr>) | Blocks \<Rightarrow> Fails | Fails \<Rightarrow> Fails)"

text \<open>\<open>Connect\<close>: after a failed TLS handshake it closes the nil connection that \<open>wrapTLS\<close>
  returned, which is a panic.\<close>

definition upstream_connect :: "dial_env \<Rightarrow> upstream_proxy \<Rightarrow> string \<Rightarrow> attempt" where
  "upstream_connect env u addr = dialled env (join_host_port (up_host u) (itoa_int (up_port u))) (\<lambda>s.
     let go = (\<lambda>p.
       if up_scheme u = ''http'' \<or> up_scheme u = ''https'' then or_close (upstream_http env u addr p)
       else if up_scheme u = ''socks5'' then or_close (reopened (in_open p) (upstream_socks u addr (p\<lparr>in_open := False\<rparr>)))
       else ([], Lost True))
     in if up_tls u then (case de_tls env (up_host u) [] s of None \<Rightarrow> ([], Crash) | Some p \<Rightarrow> go p) else go s)"

section \<open>Which bytes reach the tunnel\<close>

text \<open>
  The pieces \<open>cs @ (e @ early) # later\<close> carry a head that ends inside a piece, in front of
  \<open>early\<close>: \<open>splits z\<close> says that the head has \<open>z\<close> left to be read, in the buffer or in pieces.
\<close>

definition splits :: "string \<Rightarrow> string list \<Rightarrow> string \<Rightarrow> string list \<Rightarrow> string \<Rightarrow> bool" where
  "splits early later z cs buf \<longleftrightarrow>
     (\<exists>cs0 e. cs = cs0 @ (e @ early) # later \<and> buf @ concat cs0 @ e = z \<and> e \<noteq> []) \<or>
     (cs = later \<and> buf = z @ early)"

lemma index_byte_take: "index_byte s x = Some i \<Longrightarrow> x \<notin> set (take i s)"
  by (induction s arbitrary: i) (auto split: if_splits)

lemma read_line_prefix:
  assumes "read_line buf = Some (l', r)" "buf @ x = l @ LF # z" "LF \<notin> set l"
  shows "l' = l @ [LF] \<and> r @ x = z"
proof -
  obtain i where i: "index_byte buf LF = Some i" "l' = take (Suc i) buf" "r = drop (Suc i) buf"
    using assms(1) by (auto simp: read_line_def split: option.splits)
  have b: "buf = take i buf @ LF # drop (Suc i) buf"
    using index_byte_Some_less [OF i(1)] id_take_nth_drop by metis
  have no: "LF \<notin> set (take i buf)"
    using i(1) by (rule index_byte_take)
  have "(take i buf @ LF # drop (Suc i) buf) @ x = l @ LF # z"
    using assms(2) b by simp
  then have eq: "take i buf @ LF # (drop (Suc i) buf @ x) = l @ LF # z"
    by simp
  have "index_byte (take i buf @ LF # (drop (Suc i) buf @ x)) LF = index_byte (l @ LF # z) LF"
    by (simp only: eq)
  then have "length (take i buf) = length l"
    by (simp only: index_byte_append [OF no] index_byte_append [OF assms(3)] option.inject)
  with eq have "take i buf = l \<and> drop (Suc i) buf @ x = z"
    by (simp only: append_eq_append_conv list.inject simp_thms)
  moreover have "take (Suc i) buf = take i buf @ [LF]"
    using index_byte_Some_less [OF i(1)] by (simp add: take_Suc_conv_app_nth)
  ultimately show ?thesis
    using i by simp
qed

lemma bufio_line_splits:
  assumes "splits early later (l @ LF # z) cs buf" "LF \<notin> set l"
  shows "\<exists>r cs'. bufio_line buf cs = Some (l @ [LF], r, cs') \<and> splits early later z cs' r"
  using assms
proof (induction buf cs rule: bufio_line.induct)
  case (1 buf cs)
  show ?case
  proof (cases "read_line buf")
    case (Some p)
    obtain l' r where p: "p = (l', r)" by (cases p)
    from 1(2) consider (inside) cs0 e where "cs = cs0 @ (e @ early) # later" "e \<noteq> []"
        "buf @ concat cs0 @ e = l @ LF # z"
      | (read) "cs = later" "buf = (l @ LF # z) @ early"
      by (auto simp: splits_def)
    then show ?thesis
    proof cases
      case inside
      note cs = inside(1,2) and b = inside(3)
      from read_line_prefix [OF Some [unfolded p] b 1(3)]
      have "l' = l @ [LF]" "r @ concat cs0 @ e = z" by auto
      then show ?thesis
        using cs Some p by (subst bufio_line.simps) (auto simp: splits_def)
    next
      case read
      then have "read_line buf = Some (l @ [LF], z @ early)"
        using 1(3) by (simp add: read_line_append)
      with read show ?thesis
        by (subst bufio_line.simps) (auto simp: splits_def)
    qed
  next
    case None
    then have no: "LF \<notin> set buf" by (simp add: read_line_None_iff)
    with 1(2) obtain cs0 e where cs: "cs = cs0 @ (e @ early) # later" "e \<noteq> []" "buf @ concat cs0 @ e = l @ LF # z"
      by (auto simp: splits_def)
    show ?thesis
    proof (cases cs0)
      case Nil
      then have "splits early later (l @ LF # z) later (buf @ e @ early)"
        using cs by (simp add: splits_def)
      then show ?thesis
        using 1(1) [OF None, of "e @ early" later] 1(3) None cs Nil by (subst bufio_line.simps) simp
    next
      case (Cons c cs1)
      then have "splits early later (l @ LF # z) (cs1 @ (e @ early) # later) (buf @ c)"
        using cs by (auto simp: splits_def)
      then show ?thesis
        using 1(1) [OF None, of c "cs1 @ (e @ early) # later"] 1(3) None cs Cons by (subst bufio_line.simps) simp
    qed
  qed
qed

definition header_block :: "string list \<Rightarrow> string" where
  "header_block hs = concat (map (\<lambda>l. l @ crlf) hs) @ crlf"

lemma drain_headers_splits:
  "\<forall>h \<in> set hs. LF \<notin> set h \<and> trim_space (h @ crlf) \<noteq> [] \<Longrightarrow>
   splits early later (header_block hs) cs buf \<Longrightarrow> drain_headers buf cs = Some later"
proof (induction hs arbitrary: buf cs)
  case Nil
  then have "splits early later ([CR] @ LF # []) cs buf"
    by (simp add: header_block_def crlf_def)
  from bufio_line_splits [OF this] obtain r cs' where
    l: "bufio_line buf cs = Some (crlf, r, cs')" "splits early later [] cs' r"
    by (auto simp: crlf_def)
  moreover have "trim_space crlf = []"
    by code_simp
  ultimately show ?case
    by (subst drain_headers.simps) (auto simp: splits_def)
next
  case (Cons h hs)
  then have "splits early later ((h @ [CR]) @ LF # header_block hs) cs buf"
    by (simp add: header_block_def crlf_def)
  from bufio_line_splits [OF this] Cons.prems(1) obtain r cs' where
    "bufio_line buf cs = Some (h @ crlf, r, cs')" "splits early later (header_block hs) cs' r"
    by (auto simp: crlf_def)
  with Cons show ?case
    by (subst drain_headers.simps) simp
qed

lemma http_read_response_head:
  assumes "cs = cs0 @ (e @ early) # later" "e \<noteq> []" "concat cs0 @ e = status @ crlf @ header_block hs"
    and "LF \<notin> set status" "split_n 3 CHR '' '' (trim_space (status @ crlf)) = [v, code, reason]"
    and "\<forall>h \<in> set hs. LF \<notin> set h \<and> trim_space (h @ crlf) \<noteq> []"
  shows "http_read_response cs op = Gives (sscanf_int code, reason, later)"
proof -
  have "splits early later ((status @ [CR]) @ LF # header_block hs) cs []"
    using assms(1-3) by (auto simp: splits_def crlf_def)
  from bufio_line_splits [OF this] assms(4) obtain r cs' where
    "bufio_line [] cs = Some (status @ crlf, r, cs')" "splits early later (header_block hs) cs' r"
    by (auto simp: crlf_def)
  then show ?thesis
    using drain_headers_splits [OF assms(6)] assms(5) by (simp add: http_read_response_def)
qed

text \<open>
  C27: A tunnel through an HTTP proxy starts behind the piece in which the head of the response ends:
  what arrived in that piece behind the head never reaches the tunnel.
\<close>

theorem http_tunnel_loses:
  assumes "de_chunks env (string_of_bytes (in_data s)) = cs @ (e @ early) # later" "e \<noteq> []"
    and "concat cs @ e = status @ crlf @ header_block hs" "LF \<notin> set status"
    and "split_n 3 CHR '' '' (trim_space (status @ crlf)) = [v, code, reason]"
    and "\<forall>h \<in> set hs. LF \<notin> set h \<and> trim_space (h @ crlf) \<noteq> []"
    and "c_sni c = []" and "de_dial env (server_addr c) = Some s"
  shows "http_connect env c addr =
    ([bytes_of_string (connect_request addr (basic_token (c_username c) (c_password c)))],
     if sscanf_int code = 200 then Tunnel (s\<lparr>in_data := bytes_of_string (concat later)\<rparr>) else Lost True)"
  using http_read_response_head [OF assms(1-6)] assms(7,8)
  by (simp add: http_connect_def dialled_def send_connect_def or_close_def say_then_def fails_def gives_def)

section \<open>The upstream proxy leaves the tunnel intact\<close>

lemma read_response_exact:
  "done_response (got @ concat cs) \<Longrightarrow> length (got @ concat cs) \<le> 8192 \<Longrightarrow>
   \<forall>k < length cs. \<not> done_response (got @ concat (take k cs)) \<Longrightarrow>
   read_response got (cs @ later) = Some (got @ concat cs, later)"
proof (induction cs arbitrary: got)
  case Nil
  then show ?case
    by (subst read_response.simps) simp
next
  case (Cons c cs)
  have "\<not> done_response got"
    using Cons.prems(3) by force
  moreover have "\<forall>k < length cs. \<not> done_response ((got @ c) @ concat (take k cs))"
    using Cons.prems(3) by force
  ultimately show ?case
    using Cons.IH [of "got @ c"] Cons.prems by (subst read_response.simps) simp
qed

text \<open>
  A tunnel through an HTTP upstream starts right behind the head of its response when the head
  ends with a piece, whatever pieces it comes in.
\<close>

theorem upstream_http_exact:
  assumes "up_scheme u = ''http''" "\<not> up_tls u" "split_host_port addr = Some (host, port)"
    and "de_dial env (join_host_port (up_host u) (itoa_int (up_port u))) = Some s"
    and "de_chunks env (string_of_bytes (in_data s)) = cs @ later"
    and "done_response (concat cs)" "length (concat cs) \<le> 8192"
    and "\<forall>k < length cs. \<not> done_response (concat (take k cs))"
  shows "upstream_connect env u addr =
    ([bytes_of_string (connect_request (host @ '':'' @ port) (basic_token (up_username u) (up_password u)))],
     if is_http_ok (concat cs) then Tunnel (s\<lparr>in_data := bytes_of_string (concat later)\<rparr>) else Lost True)"
  using read_response_exact [of "[]" cs later] assms
  by (simp add: upstream_connect_def dialled_def upstream_http_def or_close_def say_then_def fails_def gives_def)

text \<open>When the server behind it speaks before the head has been read, the response never seems
  to end and the connection is given up at the deadline.\<close>

lemma upstream_early_lost:
  assumes "up_scheme u = ''http''" "\<not> up_tls u" "split_host_port addr = Some (host, port)"
    and "de_dial env (join_host_port (up_host u) (itoa_int (up_port u))) = Some s"
    and "de_chunks env (string_of_bytes (in_data s)) = [head @ early]"
    and "\<not> done_response (head @ early)"
  shows "snd (upstream_connect env u addr) = Lost True"
proof -
  have "\<not> done_response []"
    by (simp add: done_response_def has_suffix_def crlf_def)
  then have "read_response [] [head @ early] = None"
    using assms(6) by (subst read_response.simps, simp, subst read_response.simps, simp)
  then show ?thesis
    using assms(1-5)
    by (simp add: upstream_connect_def dialled_def upstream_http_def or_close_def say_then_def fails_def)
qed

text \<open>
  The SOCKS5 client of the upstream proxy against the program's own SOCKS5 server: the server
  dials the host and port that were asked for, and the tunnel starts with the first byte of the
  destination.
\<close>

theorem upstream_socks_pair:
  assumes "up_scheme u = ''socks5''" "\<not> up_tls u" "up_username u = []"
    and "CHR ''['' \<notin> set host" "CHR '']'' \<notin> set host" "port < 65536" "length host < 256"
    and "addr = join_host_port host (itoa port)" "dial addr = Some (sent answer)"
    and "de_dial env (join_host_port (up_host u) (itoa_int (up_port u))) =
         Some (sent ([5, 0] @ socks_reply 0 @ answer))"
  shows "\<exists>ws. upstream_connect env u addr = (ws, Tunnel (sent answer)) \<and>
    forward_socks dial (sent (concat ws)) =
      ([[5, 0], socks_reply 0], Gives (addr, sent [], sent answer))"
proof -
  define rq where "rq = [5, 1, 0, 3, length_byte host] @ bytes_of_string host @ put_u16 port"
  have addr: "split_host_port addr = Some (host, itoa port)" "atoi (itoa port) = Some (int port)"
    "nat (int port mod 65536) = port"
    using assms(4-6,8) by (simp_all add: split_join_itoa atoi_itoa)
  have first: "read_then 4 \<lparr>in_data = [5, 0, 0, 1] @ r, in_open = op\<rparr> k = k [5, 0, 0, 1] \<lparr>in_data = r, in_open = op\<rparr>"
    for r op and k :: "bytes \<Rightarrow> inbound \<Rightarrow> inbound talk"
    by (rule read_then_enough) simp
  have bnd: "pad_then 6 \<lparr>in_data = replicate 6 0 @ r, in_open = op\<rparr> k = k (replicate 6 0) \<lparr>in_data = r, in_open = op\<rparr>"
    for r op and k :: "bytes \<Rightarrow> inbound \<Rightarrow> inbound talk"
    by (rule pad_then_enough) simp
  have reply: "socks_reply 0 @ answer = [5, 0, 0, 1] @ replicate 6 0 @ answer"
    by (simp add: socks_reply_def eval_nat_numeral)
  have request: "upstream_request addr \<lparr>in_data = socks_reply 0 @ answer, in_open = op\<rparr> =
      ([rq], Gives \<lparr>in_data = answer, in_open = op\<rparr>)" for op
    unfolding reply upstream_request_def addr option.case prod.case first
    by (simp add: bnd say_then_def gives_def rq_def)
  have "upstream_socks u addr \<lparr>in_data = [5, 0] @ socks_reply 0 @ answer, in_open = op\<rparr> =
      ([[5, 1, 0], rq], Gives \<lparr>in_data = answer, in_open = op\<rparr>)" for op
    unfolding upstream_socks_def by (simp add: assms(3) request and_then_def say_then_def read_then_def gives_def)
  then have client: "upstream_connect env u addr = ([[5, 1, 0], rq], Tunnel (sent answer))"
    using assms(1,2,10) by (simp add: upstream_connect_def dialled_def reopened_def or_close_def)
  have t: "socks_target (\<lambda>_. None) host = (3, length_byte host # bytes_of_string host)"
    and h: "asked_host (\<lambda>_. None) host = host" and l: "proper_lookup (\<lambda>_. None) host"
    using assms(7) by (simp_all add: socks_target_def asked_host_def proper_lookup_def)
  note read = read_socks_addr_target [OF l t assms(6), of "[]" True, unfolded h, simplified]
  have "forward_socks dial (sent ([5, 1, 0] @ rq)) =
      ([[5, 0], socks_reply 0], Gives (addr, sent [], sent answer))"
    by (simp add: forward_socks_def read_then_def say_then_def gives_def rq_def read assms(9) flip: assms(8))
  with client show ?thesis
    by (intro exI [of _ "[[5, 1, 0], rq]"]) simp
qed

section \<open>Witnesses\<close>

definition hc_demo_env :: "string list \<Rightarrow> bytes \<Rightarrow> dial_env" where
  "hc_demo_env cs b = \<lparr>de_dial = (\<lambda>_. Some (sent b)), de_tls = (\<lambda>_ _ _. None), de_utls = (\<lambda>_ _ _ _. None),
     de_lookup = (\<lambda>_. None), de_chunks = (\<lambda>_. cs)\<rparr>"

definition hc_demo_cfg :: proxy_cfg where
  "hc_demo_cfg = to_proxy_config (demo_entry ''h'' ''http'' [])"

definition hc_demo_upstream :: "string \<Rightarrow> upstream_proxy" where
  "hc_demo_upstream scheme = \<lparr>up_scheme = scheme, up_host = ''u'', up_port = 3128, up_username = [], up_password = [],
     up_timeout = 1, up_tls = False, up_name = [], up_cert = False\<rparr>"

theorem http_tunnel_loses_witness:
  "\<exists>ws. http_connect (hc_demo_env [''HTTP/1.1 200 OK'' @ [CR], [LF, CR, LF] @ ''SSH'', ''-2.0''] []) hc_demo_cfg ''a:22'' =
     (ws, Tunnel (sent (bytes_of_string ''-2.0'')))"
proof -
  have split: "split_n 3 CHR '' '' (trim_space (''HTTP/1.1 200 OK'' @ crlf)) = [''HTTP/1.1'', ''200'', ''OK'']"
    and code: "sscanf_int ''200'' = 200"
    by code_simp+
  show ?thesis
    using http_tunnel_loses [of "hc_demo_env [''HTTP/1.1 200 OK'' @ [CR], [LF, CR, LF] @ ''SSH'', ''-2.0''] []" "sent []"
        "[''HTTP/1.1 200 OK'' @ [CR]]" "[LF, CR, LF]" "''SSH''" "[''-2.0'']" "''HTTP/1.1 200 OK''" "[]" _ "''200''" _ hc_demo_cfg "''a:22''",
        OF _ _ _ _ split]
    by (simp add: hc_demo_env_def header_block_def crlf_def hc_demo_cfg_def to_proxy_config_def demo_entry_def code)
qed

theorem upstream_http_exact_witness:
  "snd (upstream_connect (hc_demo_env [''HTTP/1.1 200 OK'' @ crlf, crlf, ''SSH''] []) (hc_demo_upstream ''http'') ''a:22'') =
     Tunnel (sent (bytes_of_string ''SSH''))"
proof -
  have "split_host_port ''a:22'' = Some (''a'', ''22'')" "done_response (concat [''HTTP/1.1 200 OK'' @ crlf, crlf])"
    "is_http_ok (concat [''HTTP/1.1 200 OK'' @ crlf, crlf])"
    "\<not> done_response (concat (take 0 [''HTTP/1.1 200 OK'' @ crlf, crlf]))"
    "\<not> done_response (concat (take 1 [''HTTP/1.1 200 OK'' @ crlf, crlf]))"
    by code_simp+
  then show ?thesis
    using upstream_http_exact [of "hc_demo_upstream ''http''" "''a:22''" "''a''" "''22''"
        "hc_demo_env [''HTTP/1.1 200 OK'' @ crlf, crlf, ''SSH''] []" "sent []" "[''HTTP/1.1 200 OK'' @ crlf, crlf]" "[''SSH'']"]
    by (simp add: hc_demo_env_def hc_demo_upstream_def All_less_Suc crlf_def)
qed

theorem upstream_socks_pair_witness:
  "\<exists>ws. upstream_connect (hc_demo_env [] ([5, 0] @ socks_reply 0 @ [83])) (hc_demo_upstream ''socks5'')
      (join_host_port ''a'' (itoa 22)) = (ws, Tunnel (sent [83]))"
  using upstream_socks_pair [of "hc_demo_upstream ''socks5''" "''a''" 22 "join_host_port ''a'' (itoa 22)"
      "\<lambda>_. Some (sent [83])" "[83]" "hc_demo_env [] ([5, 0] @ socks_reply 0 @ [83])"]
  by (auto simp: hc_demo_env_def hc_demo_upstream_def)

end
