(* ===== verification/Dialers.thy ===== *)
theory Dialers
  imports Http_Connect
begin

text \<open>
  The remaining remote proxies: Trojan, VMess, VLESS, Forward and Shadowsocks
  (\<open>proxy/trojan.go\<close>, \<open>vmess.go\<close>, \<open>vless.go\<close>, \<open>forward.go\<close>, \<open>shadowsocks.go\<close>), and both
  ends of the reverse proxy (\<open>proxy/frp.go\<close>). The ciphers and the curve are parameters: AES in
  CFB mode is a function of key, initial vector and text, an AEAD one of key, nonce and text.
\<close>

section \<open>Destinations\<close>

text \<open>The host and port of a destination whose errors are ignored; the port is 80 without one.\<close>

definition loose_host_port :: "string \<Rightarrow> string \<times> nat" where
  "loose_host_port addr = (case split_host_port addr of
       None \<Rightarrow> ([], 80) | Some (host, port) \<Rightarrow> (host, sscanf_uint 16 80 port))"

definition name_bytes :: "string \<Rightarrow> bytes" where
  "name_bytes host = length_byte host # bytes_of_string host"

section \<open>Trojan and VMess\<close>

definition trojan_head :: "proxy_cfg \<Rightarrow> string \<Rightarrow> bytes" where
  "trojan_head c addr = (let (host, port) = loose_host_port addr in
     [4, 0, 3] @ name_bytes host @ put_u16 port @ [0x0D, 0x0A] @ bytes_of_string (c_password c) @ [0x0D, 0x0A])"

text \<open>A failure to read the answer leaves the connection open.\<close>

definition trojan_connect :: "dial_env \<Rightarrow> proxy_cfg \<Rightarrow> string \<Rightarrow> attempt" where
  "trojan_connect env c addr = dialled env (server_addr c) (\<lambda>s.
     via_tls env (sni_or_server c) (c_alpn c) s (\<lambda>p. ([trojan_head c addr],
       case in_data p of
         [] \<Rightarrow> if in_open p then Stuck else Lost False
       | b # r \<Rightarrow> if b \<noteq> 0 then Lost True else Tunnel (p\<lparr>in_data := r\<rparr>))))"

definition vmess_target :: "lookup_ip \<Rightarrow> string \<Rightarrow> bytes" where
  "vmess_target lookup addr = (let (host, port) = loose_host_port addr in
     (case lookup host of
        Some (a # _) \<Rightarrow> (case to4 a of Some b \<Rightarrow> 1 # b | None \<Rightarrow> 3 # name_bytes host)
      | _ \<Rightarrow> 3 # name_bytes host) @ put_u16 port)"

definition vmess_secret :: "proxy_cfg \<Rightarrow> bytes" where
  "vmess_secret c = copy_at (replicate 32 0) 0 (take 32 (bytes_of_string (c_uuid c)))"

type_synonym stream_cipher = "bytes \<Rightarrow> bytes \<Rightarrow> bytes \<Rightarrow> bytes"

definition vmess_connect :: "dial_env \<Rightarrow> stream_cipher \<Rightarrow> proxy_cfg \<Rightarrow> string \<Rightarrow> attempt" where
  "vmess_connect env cfb c addr = dialled env (server_addr c) (\<lambda>s. let secret = vmess_secret c in
     or_close (say_then (cfb (take 16 secret) (drop 16 secret) ([1, 0] @ vmess_target (de_lookup env) addr))
       (read_then 2 s (\<lambda>_. gives))))"

section \<open>VLESS\<close>

fun hex_pairs :: "string \<Rightarrow> bytes option" where
  "hex_pairs (h # l # r) = do {
     x \<leftarrow> hex_val h; y \<leftarrow> hex_val l; bs \<leftarrow> hex_pairs r; Some (word_of_nat (x * 16 + y) # bs) }"
| "hex_pairs _ = Some []"

definition parse_uuid :: "string \<Rightarrow> bytes option" where
  "parse_uuid s = (let t = replace_all ''-'' [] s in if length t \<noteq> 32 then None else hex_pairs t)"

definition vless_address :: "string \<Rightarrow> bytes" where
  "vless_address host = (case parse_ip host of
       Some a \<Rightarrow> (case to4 a of Some b \<Rightarrow> 1 # b | None \<Rightarrow> 3 # (case to16 a of Some b \<Rightarrow> b | None \<Rightarrow> []))
     | None \<Rightarrow> 2 # name_bytes host)"

definition vless_head :: "proxy_cfg \<Rightarrow> string \<Rightarrow> bytes option" where
  "vless_head c addr = (let (host, port) = loose_host_port addr in
     map_option (\<lambda>u. [0] @ u @ [0, 1] @ put_u16 port @ vless_address host) (parse_uuid (c_uuid c)))"

definition pick_fingerprint :: "string \<Rightarrow> string" where
  "pick_fingerprint nm = (let t = to_lower nm in
     if t = ''firefox'' then ''Firefox_Auto'' else if t = ''safari'' then ''IOS_Auto''
     else if t = ''edge'' then ''Edge_Auto''
     else if t = ''random'' \<or> t = ''randomized'' then ''Randomized'' else ''Chrome_Auto'')"

text \<open>Whether \<open>deriveRealityKey\<close> succeeds; \<open>curve\<close> says which public keys X25519 takes.\<close>

definition reality_key_ok :: "(bytes \<Rightarrow> bool) \<Rightarrow> string \<Rightarrow> bool" where
  "reality_key_ok curve pub =
     (case (case b64_decode True False pub of Some k \<Rightarrow> Some k | None \<Rightarrow> b64_decode False True pub) of
        None \<Rightarrow> False | Some k \<Rightarrow> length k = 32 \<and> curve k)"

definition reality_handshake :: "dial_env \<Rightarrow> (bytes \<Rightarrow> bool) \<Rightarrow> proxy_cfg \<Rightarrow> inbound \<Rightarrow> inbound option" where
  "reality_handshake env curve c s =
     (if c_public_key c \<noteq> [] \<and> \<not> reality_key_ok curve (c_public_key c) then None
      else de_utls env (pick_fingerprint (c_fingerprint c)) (sni_or_server c) (c_alpn c) s)"

definition vless_talk :: "proxy_cfg \<Rightarrow> string \<Rightarrow> inbound \<Rightarrow> inbound talk" where
  "vless_talk c addr p = (case vless_head c addr of
       None \<Rightarrow> fails
     | Some h \<Rightarrow> say_then h (read_then 1 p (\<lambda>r s. if r ! 0 \<noteq> 0 then fails else gives s)))"

definition vless_connect :: "dial_env \<Rightarrow> (bytes \<Rightarrow> bool) \<Rightarrow> proxy_cfg \<Rightarrow> string \<Rightarrow> attempt" where
  "vless_connect env curve c addr = dialled env (server_addr c) (\<lambda>s.
     case (if c_fingerprint c \<noteq> [] then reality_handshake env curve c s
           else de_tls env (sni_or_server c) (c_alpn c) s) of
       None \<Rightarrow> ([], Lost True) | Some p \<Rightarrow> or_close (vless_talk c addr p))"

section \<open>Forward\<close>

definition forward_connect :: "dial_env \<Rightarrow> proxy_cfg \<Rightarrow> string \<Rightarrow> attempt" where
  "forward_connect env c addr = dialled env (server_addr c) (\<lambda>s. let sni = trim_space (c_sni c) in
     if sni = [] then ([], Tunnel s) else via_tls env sni [] s (\<lambda>p. ([], Tunnel p)))"

section \<open>Shadowsocks\<close>

definition ss_port :: "string \<Rightarrow> int" where
  "ss_port addr = (case split_host_port addr of None \<Rightarrow> 0 | Some (_, p) \<Rightarrow> sscanf_int p)"

definition ss_target :: "lookup_ip \<Rightarrow> string \<Rightarrow> bytes" where
  "ss_target lookup addr = (let host = fst (loose_host_port addr) in
     (case lookup host of
        Some (a # _) \<Rightarrow> (case to4 a of Some b \<Rightarrow> 1 # b | None \<Rightarrow> 4 # (case to16 a of Some b \<Rightarrow> b | None \<Rightarrow> []))
      | _ \<Rightarrow> 3 # name_bytes host) @ put_u16 (nat (ss_port addr mod 65536)))"

definition ss_aead :: "proxy_cfg \<Rightarrow> bool" where
  "ss_aead c \<longleftrightarrow> to_lower (c_cipher c) \<in> {''aes-128-gcm'', ''aes-256-gcm'', ''chacha20-ietf-poly1305''}"

text \<open>
  \<open>seal\<close> is the AEAD under the key of the configuration, \<open>key\<close> the stream cipher: in CFB mode
  it is the decrypter that encrypts. The stream ciphers send an encrypted initial vector and no
  destination.
\<close>

definition ss_connect ::
  "dial_env \<Rightarrow> (bytes \<Rightarrow> bytes \<Rightarrow> bytes) \<Rightarrow> (bytes \<Rightarrow> bytes \<Rightarrow> bytes) \<Rightarrow> proxy_cfg \<Rightarrow> string \<Rightarrow> attempt" where
  "ss_connect env seal key c addr = dialled env (server_addr c) (\<lambda>s.
     if ss_aead c then (let nonce = replicate 12 0 in
       ([nonce @ seal nonce (ss_target (de_lookup env) addr)], Tunnel s))
     else ([key (replicate 16 0) (replicate 16 0)], Tunnel s))"

text \<open>\<open>ssAEADConn\<close>: the frames of a write, and one read into a buffer that is large enough (a
  12-byte nonce, a 16-byte tag).\<close>

function ss_frames :: "(bytes \<Rightarrow> bytes \<Rightarrow> bytes) \<Rightarrow> bytes \<Rightarrow> bytes list" where
  "ss_frames seal b = (if b = [] then []
     else let chunk = take 16368 b; nonce = replicate 12 0
       in (seal nonce (put_u16 (length chunk)) @ seal nonce chunk) # ss_frames seal (drop 16368 b))"
  by pat_completeness auto
termination by (relation "measure (\<lambda>(_, b). length b)") auto

declare ss_frames.simps [simp del]

definition ss_read :: "(bytes \<Rightarrow> bytes \<Rightarrow> bytes option) \<Rightarrow> inbound \<Rightarrow> (bytes \<times> inbound) talk" where
  "ss_read unseal s = read_then 12 s (\<lambda>nonce s1. read_then 18 s1 (\<lambda>l s2.
     case unseal nonce l of
       None \<Rightarrow> fails
     | Some p \<Rightarrow> if length p \<noteq> 2 then fails
         else read_then (min 16384 (get_u16 (p ! 0) (p ! 1)) + 16) s2 (\<lambda>b s3.
           case unseal (replicate 12 0) b of None \<Rightarrow> fails | Some d \<Rightarrow> gives (d, s3))))"

section \<open>The reverse proxy\<close>

definition parse_port_or :: "string \<Rightarrow> int \<Rightarrow> int" where
  "parse_port_or addr dflt = (case last_index_byte addr CHR '':'' of
       None \<Rightarrow> dflt
     | Some i \<Rightarrow> (case atoi (drop (Suc i) addr) of None \<Rightarrow> dflt | Some p \<Rightarrow> p))"

definition frp_header :: "string \<Rightarrow> int \<Rightarrow> bytes" where
  "frp_header secret port =
     [0, 0, 0, length_byte secret] @ bytes_of_string secret @ [1] @ put_u16 (nat (port mod 65536))"

definition frp_server_addr :: "proxy_cfg \<Rightarrow> string" where
  "frp_server_addr c = join_host_port (c_server c) (itoa_int (if c_port c = 0 then 7000 else c_port c))"

definition frp_talk :: "string \<Rightarrow> int \<Rightarrow> inbound \<Rightarrow> inbound talk" where
  "frp_talk secret port s = say_then (frp_header secret port)
     (read_then 1 s (\<lambda>r s1. if r ! 0 \<noteq> 1 then fails else gives s1))"

definition frp_connect :: "dial_env \<Rightarrow> proxy_cfg \<Rightarrow> string \<Rightarrow> attempt" where
  "frp_connect env c addr = dialled env (frp_server_addr c) (\<lambda>s.
     or_close (frp_talk (c_password c) (parse_port_or addr 80) s))"

text \<open>One connection of \<open>RunClient\<close>; every end of it closes the connection.\<close>

definition frp_client :: "dialer \<Rightarrow> string \<Rightarrow> string \<Rightarrow> int \<Rightarrow> inbound talk" where
  "frp_client dial server secret port = (case dial server of None \<Rightarrow> fails | Some s \<Rightarrow> frp_talk secret port s)"

definition read_frp_header :: "inbound \<Rightarrow> (string \<times> nat \<times> inbound) talk" where
  "read_frp_header s = read_then 4 s (\<lambda>l s1. let n = val_be l in
     if 1024 < n then fails
     else read_then n s1 (\<lambda>secret s2. read_then 3 s2 (\<lambda>t s3.
       if t ! 0 \<noteq> 1 then fails else gives (string_of_bytes secret, get_u16 (t ! 1) (t ! 2), s3))))"

text \<open>\<open>handleFRPClient\<close>: the target that is dialled, what the client has sent behind its
  header, and the peer.\<close>

definition frp_handle :: "dialer \<Rightarrow> string \<Rightarrow> string \<Rightarrow> inbound \<Rightarrow> (string \<times> inbound \<times> inbound) talk" where
  "frp_handle dial secret host s = (case read_frp_header s of
       (ws, Blocks) \<Rightarrow> (ws, Blocks)
     | (ws, Fails) \<Rightarrow> (ws @ [[2]], Fails)
     | (ws, Gives (sec, port, rest)) \<Rightarrow>
         (if sec \<noteq> secret then (ws @ [[2]], Fails)
          else let target = host @ '':'' @ itoa port in
            case dial target of
              None \<Rightarrow> (ws @ [[2]], Fails)
            | Some peer \<Rightarrow> (ws @ [[1]], Gives (target, rest, peer))))"

section \<open>Which failures close the connection\<close>

record leaf_ciphers =
  lc_cfb :: stream_cipher
  lc_curve :: "bytes \<Rightarrow> bool"
  lc_seal :: "bytes \<Rightarrow> bytes \<Rightarrow> bytes"
  lc_key :: "bytes \<Rightarrow> bytes \<Rightarrow> bytes"

text \<open>\<open>Connect\<close> of a remote proxy; the HTTP/3 proxy is a call of the QUIC library.\<close>

definition leaf_attempt ::
  "dial_env \<Rightarrow> leaf_ciphers \<Rightarrow> leaf_kind \<Rightarrow> proxy_cfg \<Rightarrow> string \<Rightarrow> attempt option" where
  "leaf_attempt env lc k c addr = (case k of
       KHTTP \<Rightarrow> Some (http_connect env c addr)
     | KHTTPS \<Rightarrow> Some (https_connect env c addr)
     | KSOCKS5 \<Rightarrow> Some (dialled env (server_addr c) (\<lambda>s.
         or_close (and_then (socks_handshake c s) (socks_request (de_lookup env) addr))))
     | KShadowsocks \<Rightarrow> Some (ss_connect env (lc_seal lc) (lc_key lc) c addr)
     | KTrojan \<Rightarrow> Some (trojan_connect env c addr)
     | KVMess \<Rightarrow> Some (vmess_connect env (lc_cfb lc) c addr)
     | KVLESS \<Rightarrow> Some (vless_connect env (lc_curve lc) c addr)
     | KForward \<Rightarrow> Some (forward_connect env c addr)
     | KHTTP3 \<Rightarrow> None)"

lemma or_close_closes: "snd (or_close t) \<noteq> Lost False"
  by (simp add: or_close_def split: io.splits)

text \<open>
  A proxy that gives up during its handshake has closed the connection that it opened, except
  for Trojan: when its server closes the connection without an answer, the descriptor is lost.
\<close>

theorem failed_handshake_closes:
  "(\<exists>ws. leaf_attempt env lc k c addr = Some (ws, Lost False)) \<longleftrightarrow>
   k = KTrojan \<and> (\<exists>s p. de_dial env (server_addr c) = Some s \<and>
     de_tls env (sni_or_server c) (c_alpn c) s = Some p \<and> in_data p = [] \<and> \<not> in_open p)"
proof (cases "k = KTrojan")
  case True
  then show ?thesis
    by (auto simp: leaf_attempt_def trojan_connect_def dialled_def via_tls_def split: option.splits list.splits)
next
  case False
  have "snd a \<noteq> Lost False" if "leaf_attempt env lc k c addr = Some a" for a
    using that False
    by (cases k) (auto simp: leaf_attempt_def http_connect_def https_connect_def vmess_connect_def vless_connect_def
        forward_connect_def ss_connect_def Let_def or_close_closes dialled_def via_tls_def split: option.splits if_splits)
  with False show ?thesis by fastforce
qed

section \<open>VLESS\<close>

lemma replace_all_char: "replace_all [x] [] s = filter (\<lambda>c. c \<noteq> x) s"
proof (induction s)
  case Nil
  show ?case by (subst replace_all.simps) (simp del: replace_all.simps)
next
  case (Cons c s)
  then show ?case by (subst replace_all.simps) (simp add: has_prefix_def del: replace_all.simps)
qed

lemma hex_val_char:
  assumes "d < 16"
  shows "hex_val (hex_char d) = Some d"
proof (cases "d < 10")
  case True
  then show ?thesis by (simp add: hex_val_def hex_char_def Let_def of_digit_char)
next
  case False
  then have "97 \<le> 87 + d" "87 + d \<le> 102" using assms by arith+
  with False show ?thesis by (simp add: hex_val_def hex_char_def Let_def)
qed

lemma hex_pairs_hex: "hex_pairs (hex_string bs) = Some bs"
proof (induction bs)
  case (Cons b bs)
  have "word_of_nat (unat b div 16 * 16 + unat b mod 16) = b"
    by (simp only: div_mult_mod_eq) simp
  then have "word_of_nat (unat b div 16) * 16 + word_of_nat (unat b mod 16) = b"
    by (simp only: of_nat_add of_nat_mult of_nat_numeral)
  moreover have "unat b div 16 < 16"
    using unat_byte_less [of b] by linarith
  ultimately show ?case
    using Cons by (simp add: hex_byte_def hex_val_char)
qed simp

text \<open>The textual form: 8, 4, 4, 4 and 12 hexadecimal digits between dashes.\<close>

definition uuid_text :: "bytes \<Rightarrow> string" where
  "uuid_text u = (let h = hex_string u in take 8 h @ ''-'' @ take 4 (drop 8 h) @ ''-'' @
     take 4 (drop 12 h) @ ''-'' @ take 4 (drop 16 h) @ ''-'' @ drop 20 h)"

lemma hex_char_no_dash: "d < 16 \<Longrightarrow> hex_char d \<noteq> CHR ''-''"
  using hex_val_char [of d] by (auto simp: hex_val_def Let_def split: if_splits)

lemma hex_string_no_dash: "filter (\<lambda>c. c \<noteq> CHR ''-'') (hex_string bs) = hex_string bs"
proof (induction bs)
  case (Cons b bs)
  have "unat b div 16 < 16"
    using unat_byte_less [of b] by linarith
  with Cons show ?case
    by (simp add: hex_byte_def hex_char_no_dash)
qed simp

lemma filter_take_drop: "filter P (take n xs) @ filter P (drop n xs) = filter P xs"
  by (metis append_take_drop_id filter_append)

lemma filter_slices: "filter P (take n (drop k xs)) @ filter P (drop (k + n) xs) = filter P (drop k xs)"
  using filter_take_drop [of P n "drop k xs"] by (simp add: add.commute)

text \<open>Sixteen bytes are read back from their textual form.\<close>

theorem uuid_roundtrip:
  assumes "length u = 16"
  shows "parse_uuid (uuid_text u) = Some u"
proof -
  have "filter (\<lambda>c. c \<noteq> CHR ''-'') (uuid_text u) = hex_string u"
    using filter_slices [of _ 4 16 "hex_string u"] filter_slices [of _ 4 12 "hex_string u"]
      filter_slices [of _ 4 8 "hex_string u"] filter_take_drop [of _ 8 "hex_string u"]
    by (simp add: uuid_text_def Let_def hex_string_no_dash)
  moreover have "length (hex_string u) = 2 * length u"
    by (induction u) (simp_all add: hex_byte_def)
  ultimately show ?thesis
    using assms by (simp add: parse_uuid_def replace_all_char hex_pairs_hex)
qed

text \<open>
  The request as the comment on \<open>VLESS\<close> describes it: version, UUID, length of the addons,
  command, port, type of address, address. \<open>vless_read\<close> is a reader of that format.
\<close>

definition vless_read :: "bytes \<Rightarrow> (bytes \<times> byte \<times> nat \<times> string \<times> bytes) option" where
  "vless_read b = (if length b < 22 \<or> b ! 0 \<noteq> 0 \<or> b ! 17 \<noteq> 0 then None
     else let u = take 16 (drop 1 b); cmd = b ! 18; port = get_u16 (b ! 19) (b ! 20); r = drop 22 b in
       if b ! 21 = 1 then (if length r < 4 then None else Some (u, cmd, port, ip_string (take 4 r), drop 4 r))
       else if b ! 21 = 3 then (if length r < 16 then None else Some (u, cmd, port, ip_string (take 16 r), drop 16 r))
       else if b ! 21 = 2 then (case r of
           [] \<Rightarrow> None
         | l # t \<Rightarrow> if length t < unat l then None
                    else Some (u, cmd, port, string_of_bytes (take (unat l) t), drop (unat l) t))
       else None)"

lemma hex_pairs_length: "hex_pairs s = Some bs \<Longrightarrow> length bs = length s div 2"
  by (induction s arbitrary: bs rule: hex_pairs.induct) (auto split: bind_splits)

lemma parse_uuid_length: "parse_uuid s = Some u \<Longrightarrow> length u = 16"
  by (auto simp: parse_uuid_def Let_def dest: hex_pairs_length split: if_splits)

lemma vless_read_head:
  fixes u a r :: bytes and t :: byte
  assumes "length u = 16" "port < 65536"
  defines "b \<equiv> [0] @ u @ [0, 1] @ put_u16 port @ t # a @ r"
  shows "22 \<le> length b" "b ! 0 = 0" "b ! 17 = 0" "take 16 (drop 1 b) = u" "b ! 18 = 1"
    "get_u16 (b ! 19) (b ! 20) = port" "b ! 21 = t" "drop 22 b = a @ r"
  using assms(1,2) unfolding b_def by (simp_all add: nth_append nth_Cons' put_u16_def)

text \<open>
  Whatever host and port are asked for, a reader of the documented format finds the UUID of the
  configuration, the TCP command, the port and the host (an address in its canonical form) in
  the request, and what follows it.
\<close>

theorem vless_request_read:
  assumes "parse_uuid (c_uuid c) = Some u" and "CHR ''['' \<notin> set host" "CHR '']'' \<notin> set host"
    and "port < 65536" and "parse_ip host = None \<Longrightarrow> length host < 256"
  shows "\<exists>h. vless_head c (join_host_port host (itoa port)) = Some h \<and>
    vless_read (h @ rest) = Some (u, 1, port, canonical_host host, rest)"
proof -
  have split: "loose_host_port (join_host_port host (itoa port)) = (host, port)"
    using assms(2-4) by (simp add: loose_host_port_def split_join_itoa sscanf_uint_itoa)
  have head: ?thesis if "vless_address host = t # a"
    "vless_read ([0] @ u @ [0, 1] @ put_u16 port @ t # a @ rest) = Some (u, 1, port, canonical_host host, rest)" for t a
    using that by (simp add: vless_head_def split assms(1))
  note read = vless_read_head [OF parse_uuid_length [OF assms(1)] assms(4)]
  show ?thesis
  proof (cases "parse_ip host")
    case None
    have "vless_read ([0] @ u @ [0, 1] @ put_u16 port @ 2 # name_bytes host @ rest) =
        Some (u, 1, port, host, rest)"
      using assms(5) [OF None] unfolding vless_read_def Let_def read
      by (simp add: parse_uuid_length [OF assms(1)] name_bytes_def length_byte_def unat_of_nat)
    with None show ?thesis
      by (intro head [of 2 "name_bytes host"]) (simp_all add: vless_address_def canonical_host_def)
  next
    case (Some x)
    show ?thesis
    proof (cases "to4 x")
      case (Some b)
      have "vless_read ([0] @ u @ [0, 1] @ put_u16 port @ 1 # b @ rest) = Some (u, 1, port, ip_string b, rest)"
        using to4_length [OF Some] unfolding vless_read_def Let_def read by (simp add: parse_uuid_length [OF assms(1)])
      with Some \<open>parse_ip host = Some x\<close> show ?thesis
        by (intro head [of 1 b]) (simp_all add: vless_address_def canonical_host_def ip_string_to4)
    next
      case None
      have l: "length x = 16"
        using parse_ip_length [OF \<open>parse_ip host = Some x\<close>] .
      have "vless_read ([0] @ u @ [0, 1] @ put_u16 port @ 3 # x @ rest) = Some (u, 1, port, ip_string x, rest)"
        using l unfolding vless_read_def Let_def read by (simp add: parse_uuid_length [OF assms(1)])
      with None l \<open>parse_ip host = Some x\<close> show ?thesis
        by (intro head [of 3 x]) (simp_all add: vless_address_def canonical_host_def to16_16)
    qed
  qed
qed

text \<open>
  The answer is read as one byte. A server that answers as the protocol has it, with a version
  and a length of addons, leaves the second byte to the application.
\<close>

lemma vless_answer_leaks:
  assumes "vless_head c addr = Some h"
  shows "vless_talk c addr (sent ([0, 0] @ answer)) = ([h], Gives (sent (0 # answer)))"
  using assms by (simp add: vless_talk_def say_then_def read_then_def gives_def)

text \<open>With a stream cipher Shadowsocks sends the same bytes whatever the destination is.\<close>

lemma ss_stream_no_destination:
  "\<not> ss_aead c \<Longrightarrow> ss_connect env seal key c addr = ss_connect env seal key c addr'"
  by (simp add: ss_connect_def)

section \<open>The reverse proxy\<close>

lemma val_be_small: "val_be [0, 0, 0, b] = unat b"
  by (simp add: val_be_def)

lemma read_frp_header_write:
  assumes "length secret < 256" "0 \<le> port" "port < 65536"
  shows "read_frp_header \<lparr>in_data = frp_header secret port @ rest, in_open = op\<rparr> =
    ([], Gives (secret, nat port, \<lparr>in_data = rest, in_open = op\<rparr>))"
proof -
  have n: "val_be [0, 0, 0, length_byte secret] = length secret"
    using assms(1) by (simp add: val_be_small length_byte_def unat_of_nat)
  have first: "read_then 4 \<lparr>in_data = [0, 0, 0, length_byte secret] @ r, in_open = op\<rparr> k =
      k [0, 0, 0, length_byte secret] \<lparr>in_data = r, in_open = op\<rparr>" for r and k :: "bytes \<Rightarrow> inbound \<Rightarrow> (string \<times> nat \<times> inbound) talk"
    by (rule read_then_enough) simp
  have tl: "read_then 3 \<lparr>in_data = [1] @ put_u16 p @ r, in_open = op\<rparr> k =
      k ([1] @ put_u16 p) \<lparr>in_data = r, in_open = op\<rparr>" for p r and k :: "bytes \<Rightarrow> inbound \<Rightarrow> (string \<times> nat \<times> inbound) talk"
    using read_then_enough [of "[1] @ put_u16 p" 3 r op k] by (simp add: put_u16_def)
  have p: "nat (port mod 65536) = nat port"
    using assms(2,3) by simp
  show ?thesis
    unfolding read_frp_header_def frp_header_def append_assoc first Let_def n p
    using assms(1,3) by (simp add: tl [simplified] gives_def nat_less_iff [OF assms(2)]) (simp add: put_u16_def nat_less_iff [OF assms(2)])
qed

text \<open>
  Client and server of the reverse proxy with a secret of at most 255 bytes: the server dials
  the port that the client names at its own target host when the secrets agree, and rejects the
  client otherwise; behind the answer the tunnel is intact in both directions.
\<close>

theorem frp_pair:
  assumes "length secret < 256" "0 \<le> port" "port < 65536"
    and "dial (host @ '':'' @ itoa (nat port)) = Some (sent answer)"
  shows "frp_handle dial secret' host (sent (concat (fst (frp_talk secret port s)) @ data)) =
      (if secret = secret' then ([[1]], Gives (host @ '':'' @ itoa (nat port), sent data, sent answer)) else ([[2]], Fails)) \<and>
    snd (frp_talk secret port (sent ((if secret = secret' then 1 else 2) # answer))) =
      (if secret = secret' then Gives (sent answer) else Fails)"
proof -
  have "fst (read_then 1 s (\<lambda>r s1. if r ! 0 \<noteq> 1 then fails else gives s1)) = []"
    by (simp add: read_then_def fails_def gives_def)
  then have "concat (fst (frp_talk secret port s)) = frp_header secret port"
    by (simp add: frp_talk_def)
  then show ?thesis
    using read_frp_header_write [OF assms(1-3)] assms(4)
    by (simp add: frp_handle_def) (simp add: frp_talk_def read_then_def fails_def gives_def)
qed

section \<open>Witnesses\<close>

definition dl_demo_uuid :: bytes where
  "dl_demo_uuid = [0, 1, 2, 3, 4, 5, 6, 7, 8, 9, 10, 11, 12, 13, 14, 255]"

theorem uuid_roundtrip_witness: "parse_uuid (uuid_text dl_demo_uuid) = Some dl_demo_uuid"
  by (rule uuid_roundtrip) (simp add: dl_demo_uuid_def)

definition dl_demo_cfg :: proxy_cfg where
  "dl_demo_cfg = hc_demo_cfg\<lparr>c_uuid := ''00010203-0405-0607-0809-0a0b0c0d0eff''\<rparr>"

theorem vless_request_read_witness:
  "\<exists>h. vless_head dl_demo_cfg (join_host_port ''a.b'' (itoa 443)) = Some h \<and>
    vless_read (h @ [1, 2]) = Some (dl_demo_uuid, 1, 443, canonical_host ''a.b'', [1, 2])"
proof -
  have "parse_uuid ''00010203-0405-0607-0809-0a0b0c0d0eff'' = Some dl_demo_uuid"
    by code_simp
  then show ?thesis
    by (intro vless_request_read) (simp_all add: dl_demo_cfg_def)
qed

theorem frp_pair_witness:
  "frp_handle (\<lambda>_. Some (sent [9])) ''k'' ''t'' (sent (concat (fst (frp_talk ''k'' 80 (sent []))) @ [7])) =
     ([[1]], Gives (''t:'' @ itoa 80, sent [7], sent [9]))"
  using frp_pair [of "''k''" 80 "\<lambda>_. Some (sent [9])" "''t''" "[9]" "''k''" "sent []" "[7]"] by simp

end
