(* ===== verification/Proxy_Groups.thy ===== *)
theory Proxy_Groups
  imports Proxy_Registry
begin

text \<open>
  \<open>Connect\<close> and \<open>Latency\<close> of the direct proxy and of the groups (\<open>proxy/direct.go\<close>,
  \<open>selector.go\<close>, \<open>urltest.go\<close>, \<open>round_robin.go\<close>, \<open>chain.go\<close>, \<open>failover_group.go\<close>,
  \<open>load_balance.go\<close>).

  The network is the parameter \<open>net\<close>: the answers of the resolver, of TCP dials, of dials
  to the server of a remote proxy, of each stage of the handshake behind such a dial and of the
  random generator, each a function of the number of questions asked so far, so that it may
  answer differently every time. A connection is the number of the dial that made it. What the
  stages write and read is in the theories of the protocols; here a stage is passed, fails or
  waits for ever, and what counts is which connections \<open>Connect\<close> closes then.

  A group calls \<open>Connect\<close> of its members, which may be groups again: nothing in the source
  stops a cycle, on which the Go call does not return. The model has fuel, and None is
  the call that has not returned, because of a cycle or because a stage waits; the lemmas say
  when it returns and which fuel suffices.
\<close>

datatype stage_result = Passed | Broke string | Waits

record net =
  lookup_ip :: "nat \<Rightarrow> string \<Rightarrow> string + ip list"
  tcp_dial :: "nat \<Rightarrow> string \<Rightarrow> string + unit"
  leaf_dial :: "nat \<Rightarrow> leaf_kind \<Rightarrow> proxy_cfg \<Rightarrow> string \<Rightarrow> string + unit"
  leaf_stage :: "nat \<Rightarrow> leaf_kind \<Rightarrow> proxy_cfg \<Rightarrow> string \<Rightarrow> string \<Rightarrow> stage_result"
  leaf_latency :: "nat \<Rightarrow> leaf_kind \<Rightarrow> proxy_cfg \<Rightarrow> string \<Rightarrow> string + int"
  elapsed :: "nat \<Rightarrow> int"
  rand_int :: "nat \<Rightarrow> nat"

type_synonym conn_result = "world \<times> (perr + nat)"

definition bump :: "world \<Rightarrow> world" where
  "bump w = w\<lparr>tick := Suc (tick w)\<rparr>"

definition note_event :: "event \<Rightarrow> world \<Rightarrow> world" where
  "note_event e w = w\<lparr>trace := trace w @ [e]\<rparr>"

definition set_obj :: "nat \<Rightarrow> obj \<Rightarrow> world \<Rightarrow> world" where
  "set_obj i ob w = w\<lparr>heap := (heap w)[i := ob]\<rparr>"

section \<open>The direct proxy\<close>

fun direct_try :: "net \<Rightarrow> string \<Rightarrow> string \<Rightarrow> ip list \<Rightarrow> world \<Rightarrow> conn_result" where
  "direct_try net addr port [] w = (w, Inl (NetError addr))"
| "direct_try net addr port (a # ips) w =
     (let t = join_host_port (ip_string a) port in
      case tcp_dial net (tick w) t of
        Inr _ \<Rightarrow> (note_event (Dial ''DIRECT'' t (tick w) True) (bump w), Inr (tick w))
      | Inl _ \<Rightarrow> direct_try net addr port ips (note_event (Dial ''DIRECT'' t (tick w) False) (bump w)))"

definition direct_connect :: "net \<Rightarrow> string \<Rightarrow> world \<Rightarrow> conn_result" where
  "direct_connect net addr w = (case split_host_port addr of
       None \<Rightarrow> (w, Inl (NetError addr))
     | Some (host, port) \<Rightarrow> (case lookup_ip net (tick w) host of
         Inl e \<Rightarrow> (bump w, Inl (NetError e))
       | Inr ips \<Rightarrow> direct_try net addr port ips (bump w)))"

section \<open>Connecting\<close>

text \<open>
  The stages of \<open>Connect\<close> of the remote proxies behind the dial of the server, each with
  whether its failure closes the connection. \<open>Trojan.Connect\<close> returns from a failed read of the
  reply without closing it; the connection that \<open>HTTP3Proxy.Connect\<close> has made belongs to a
  transport that it drops unclosed on every error. There is no deadline for any of the stages.
\<close>

type_synonym stage = "string \<times> bool"

definition http_stages :: "proxy_cfg \<Rightarrow> stage list" where
  "http_stages c = (if c_sni c \<noteq> [] then [(''tls'', True)] else []) @ [(''connect'', True)]"

definition https_stages :: "stage list" where
  "https_stages = [(''tls'', True), (''connect'', True)]"

definition socks5_stages :: "stage list" where
  "socks5_stages = [(''handshake'', True), (''request'', True)]"

definition shadowsocks_stages :: "stage list" where
  "shadowsocks_stages = [(''write'', True)]"

definition trojan_stages :: "stage list" where
  "trojan_stages = [(''tls'', True), (''write'', True), (''read reply'', False), (''reply'', True)]"

definition vmess_stages :: "stage list" where
  "vmess_stages = [(''write'', True), (''read reply'', True)]"

definition vless_stages :: "stage list" where
  "vless_stages = [(''tls'', True), (''write'', True), (''read reply'', True), (''reply'', True)]"

definition forward_stages :: "proxy_cfg \<Rightarrow> stage list" where
  "forward_stages c = (if trim_space (c_sni c) = [] then [] else [(''tls'', True)])"

definition http3_stages :: "stage list" where
  "http3_stages = [(''round trip'', False), (''status'', False), (''stream'', False)]"

definition leaf_stages :: "leaf_kind \<Rightarrow> proxy_cfg \<Rightarrow> stage list" where
  "leaf_stages k c = (case k of
       KHTTP \<Rightarrow> http_stages c | KHTTPS \<Rightarrow> https_stages | KSOCKS5 \<Rightarrow> socks5_stages
     | KShadowsocks \<Rightarrow> shadowsocks_stages | KTrojan \<Rightarrow> trojan_stages | KVMess \<Rightarrow> vmess_stages
     | KVLESS \<Rightarrow> vless_stages | KForward \<Rightarrow> forward_stages c | KHTTP3 \<Rightarrow> http3_stages)"

datatype leaf_end = Established | FailedClosed string | FailedOpen string | Stuck

fun run_stages :: "(string \<Rightarrow> stage_result) \<Rightarrow> stage list \<Rightarrow> leaf_end" where
  "run_stages f [] = Established"
| "run_stages f ((s, closes) # ss) = (case f s of
       Passed \<Rightarrow> run_stages f ss
     | Broke e \<Rightarrow> (if closes then FailedClosed e else FailedOpen e)
     | Waits \<Rightarrow> Stuck)"

definition leaf_connect :: "net \<Rightarrow> leaf_kind \<Rightarrow> proxy_cfg \<Rightarrow> string \<Rightarrow> world \<Rightarrow> conn_result option" where
  "leaf_connect net k c addr w = (case leaf_dial net (tick w) k c addr of
       Inl e \<Rightarrow> Some (note_event (Dial (c_name c) addr (tick w) False) (bump w), Inl (NetError e))
     | Inr _ \<Rightarrow>
       (let w1 = note_event (Dial (c_name c) addr (tick w) True) (bump w) in
        case run_stages (leaf_stage net (tick w) k c addr) (leaf_stages k c) of
          Established \<Rightarrow> Some (w1, Inr (tick w))
        | FailedClosed e \<Rightarrow> Some (note_event (Close (tick w)) w1, Inl (NetError e))
        | FailedOpen e \<Rightarrow> Some (w1, Inl (NetError e))
        | Stuck \<Rightarrow> None))"

type_synonym connector = "pref \<Rightarrow> string \<Rightarrow> world \<Rightarrow> conn_result option"

text \<open>The loop of \<open>Chain.Connect\<close> from hop number \<open>i\<close> on.\<close>

fun chain_loop :: "connector \<Rightarrow> string \<Rightarrow> nat \<Rightarrow> pref list \<Rightarrow> string \<Rightarrow> world \<Rightarrow> conn_result option" where
  "chain_loop k nm i [] addr w = Some (w, Inl (EmptyChain nm))"
| "chain_loop k nm i (h # rest) addr w =
     (let target = (case rest of [] \<Rightarrow> addr | nx # _ \<Rightarrow> server_addr_of w nx) in
      if rest \<noteq> [] \<and> target = [] then Some (w, Inl (NoServerAddress nm (i + 1)))
      else case k h target w of
        None \<Rightarrow> None
      | Some (w', Inl e) \<Rightarrow> Some (w', Inl (InHop nm (i + 1) e))
      | Some (w', Inr c) \<Rightarrow>
          (if rest = [] then Some (w', Inr c)
           else chain_loop k nm (i + 1) rest addr (note_event (Close c) w')))"

text \<open>The loop of \<open>FailoverGroup.Connect\<close>; \<open>err\<close> is \<open>lastErr\<close>.\<close>

fun failover_loop ::
    "connector \<Rightarrow> string \<Rightarrow> string list \<Rightarrow> string \<Rightarrow> perr option \<Rightarrow> world \<Rightarrow> conn_result option" where
  "failover_loop k nm [] addr err w =
     Some (w, Inl (case err of None \<Rightarrow> NoProxies nm | Some e \<Rightarrow> AllFailed nm e))"
| "failover_loop k nm (m # ms) addr err w = (case reg_get w m of
       Inl e \<Rightarrow> failover_loop k nm ms addr (Some e) w
     | Inr p \<Rightarrow> (case k p addr w of
         None \<Rightarrow> None
       | Some (w', Inr c) \<Rightarrow> Some (w', Inr c)
       | Some (w', Inl e) \<Rightarrow> failover_loop k nm ms addr (Some e) w'))"

text \<open>Looking a member up and connecting through it, with the group's error wrapping.\<close>

definition via_member ::
    "connector \<Rightarrow> (perr \<Rightarrow> perr) \<Rightarrow> string \<Rightarrow> string \<Rightarrow> world \<Rightarrow> conn_result option" where
  "via_member k wrap m addr w = (case reg_get w m of
       Inl e \<Rightarrow> Some (w, Inl (wrap e)) | Inr p \<Rightarrow> k p addr w)"

text \<open>\<open>markFailed\<close> on the object at \<open>i\<close>.\<close>

definition mark_failed :: "nat \<Rightarrow> string \<Rightarrow> world \<Rightarrow> world" where
  "mark_failed i nm w = (case heap w ! i of
       OURLTest c best lat failed \<Rightarrow> set_obj i (OURLTest c best lat (failed(nm \<mapsto> True))) w
     | _ \<Rightarrow> w)"

definition urltest_connect ::
    "connector \<Rightarrow> nat \<Rightarrow> string \<Rightarrow> string \<Rightarrow> world \<Rightarrow> conn_result option" where
  "urltest_connect k i best addr w = (case reg_get w best of
       Inl e \<Rightarrow> Some (w, Inl e)
     | Inr p \<Rightarrow> (case k p addr w of
         None \<Rightarrow> None
       | Some (w', Inr c) \<Rightarrow> Some (w', Inr c)
       | Some (w', Inl e) \<Rightarrow> Some (mark_failed i best w', Inl e)))"

text \<open>
  \<open>idx.Add(1) - 1\<close> is the old value of the counter, in two's complement; a negative one
  counts as zero.
\<close>

definition rr_index :: "64 word \<Rightarrow> nat \<Rightarrow> nat" where
  "rr_index idx n = (let i = sint ((idx + 1) - 1) in if i < 0 then 0 else nat i) mod n"

definition round_robin_connect ::
    "connector \<Rightarrow> nat \<Rightarrow> proxy_cfg \<Rightarrow> 64 word \<Rightarrow> string \<Rightarrow> world \<Rightarrow> conn_result option" where
  "round_robin_connect k i c idx addr w =
     (if c_proxies c = [] then Some (w, Inl (NoProxies (c_name c)))
      else via_member k (InGroup (c_name c))
             (c_proxies c ! rr_index idx (length (c_proxies c))) addr
             (set_obj i (ORoundRobin c (idx + 1)) w))"

definition load_balance_connect ::
    "net \<Rightarrow> connector \<Rightarrow> proxy_cfg \<Rightarrow> string \<Rightarrow> world \<Rightarrow> conn_result option" where
  "load_balance_connect net k c addr w =
     (if c_proxies c = [] then Some (w, Inl (NoProxies (c_name c)))
      else via_member k (InGroup (c_name c))
             (c_proxies c ! (rand_int net (tick w) mod length (c_proxies c))) addr (bump w))"

fun connect :: "net \<Rightarrow> nat \<Rightarrow> pref \<Rightarrow> string \<Rightarrow> world \<Rightarrow> conn_result option" where
  "connect net 0 p addr w = None"
| "connect net (Suc n) PDirect addr w = Some (direct_connect net addr w)"
| "connect net (Suc n) PReject addr w = Some (w, Inl Rejected)"
| "connect net (Suc n) (PObj i) addr w =
     (if length (heap w) \<le> i then Some (w, Inl (NotFound []))
      else case heap w ! i of
        ODirect \<Rightarrow> Some (direct_connect net addr w)
      | OLeaf k c \<Rightarrow> leaf_connect net k c addr w
      | OSelector c ch \<Rightarrow> via_member (connect net n) (InGroup (c_name c)) ch addr w
      | OURLTest c best lat failed \<Rightarrow> urltest_connect (connect net n) i best addr w
      | ORoundRobin c idx \<Rightarrow> round_robin_connect (connect net n) i c idx addr w
      | OChain c hops \<Rightarrow> chain_loop (connect net n) (c_name c) 0 hops addr w
      | OFailover c \<Rightarrow> failover_loop (connect net n) (c_name c) (c_proxies c) addr None w
      | OLoadBalance c \<Rightarrow> load_balance_connect net (connect net n) c addr w)"

section \<open>A small configuration\<close>

text \<open>
  Two remote proxies, and over them a chain, a failover group, a round-robin group, a URL-test
  group, a selector and a selector that chooses itself; on this network every dial succeeds.
  The examples of the theorems below run on it.
\<close>

definition demo_cfg :: "string \<Rightarrow> string list \<Rightarrow> proxy_cfg" where
  "demo_cfg nm ms = \<lparr>c_name = nm, c_type = [], c_server = nm, c_port = 1, c_username = [],
     c_password = [], c_cipher = [], c_sni = [], c_alpn = [], c_uuid = [], c_alter_id = 0,
     c_network = [], c_method = [], c_proxies = ms, c_url = [], c_interval = 0, c_default = [],
     c_public_key = [], c_short_id = [], c_fingerprint = []\<rparr>"

definition demo_world :: world where
  "demo_world = \<lparr>
     heap = [OLeaf KSOCKS5 (demo_cfg ''a'' []), OLeaf KHTTP (demo_cfg ''b'' []),
       OChain (demo_cfg ''c'' [''a'', ''b'']) [PObj 0, PObj 1], OFailover (demo_cfg ''f'' [''a'', ''b'']),
       ORoundRobin (demo_cfg ''r'' [''a'', ''b'']) 0,
       OURLTest (demo_cfg ''u'' [''a'', ''b'']) ''a'' Map.empty Map.empty,
       OSelector (demo_cfg ''s'' [''a'']) ''a'', OSelector (demo_cfg ''x'' [''x'']) ''x''],
     names = [''a'' \<mapsto> PObj 0, ''b'' \<mapsto> PObj 1, ''x'' \<mapsto> PObj 7], tick = 0, trace = []\<rparr>"

definition demo_net :: net where
  "demo_net = \<lparr>lookup_ip = (\<lambda>t h. Inr []), tcp_dial = (\<lambda>t a. Inr ()), leaf_dial = (\<lambda>t k c a. Inr ()),
     leaf_stage = (\<lambda>t k c a s. Passed), leaf_latency = (\<lambda>t k c u. Inr (if c_name c = ''a'' then 20 else 10)), elapsed = (\<lambda>t. 5),
     rand_int = (\<lambda>t. 0)\<rparr>"

lemma demo_get [simp]:
  "names w = names demo_world \<Longrightarrow> reg_get w ''a'' = Inr (PObj 0)"
  "names w = names demo_world \<Longrightarrow> reg_get w ''b'' = Inr (PObj 1)"
  "names w = names demo_world \<Longrightarrow> reg_get w ''x'' = Inr (PObj 7)"
  by (simp_all add: reg_get_def demo_world_def upper_char_def lower_char_def Let_def)

lemma demo_cfg_simps [simp]:
  "c_name (demo_cfg nm ms) = nm" "c_proxies (demo_cfg nm ms) = ms"
  "c_server (demo_cfg nm ms) = nm" "c_port (demo_cfg nm ms) = 1" "c_url (demo_cfg nm ms) = []"
  by (simp_all add: demo_cfg_def)

lemma demo_port [simp]: "itoa_int 1 = ''1''"
  by code_simp

lemma demo_leaf_dial [simp]: "leaf_dial demo_net t k c a = Inr ()" "leaf_stage demo_net t k c a s = Passed"
  by (simp_all add: demo_net_def)

lemma all_passed [simp]: "(\<And>s. f s = Passed) \<Longrightarrow> run_stages f ss = Established"
  by (induction ss) auto

lemma demo_trace [simp]: "trace demo_world = []" and demo_tick [simp]: "tick demo_world = 0"
  and demo_length [simp]: "length (heap demo_world) = 8"
  by (simp_all add: demo_world_def)

lemma demo_heap [simp]:
  "heap demo_world ! 0 = OLeaf KSOCKS5 (demo_cfg ''a'' [])"
  "heap demo_world ! Suc 0 = OLeaf KHTTP (demo_cfg ''b'' [])"
  "heap demo_world ! 2 = OChain (demo_cfg ''c'' [''a'', ''b'']) [PObj 0, PObj 1]"
  "heap demo_world ! 3 = OFailover (demo_cfg ''f'' [''a'', ''b''])"
  "heap demo_world ! 4 = ORoundRobin (demo_cfg ''r'' [''a'', ''b'']) 0"
  "heap demo_world ! 5 = OURLTest (demo_cfg ''u'' [''a'', ''b'']) ''a'' Map.empty Map.empty"
  "heap demo_world ! 6 = OSelector (demo_cfg ''s'' [''a'']) ''a''"
  "heap demo_world ! 7 = OSelector (demo_cfg ''x'' [''x'']) ''x''"
  by (simp_all add: demo_world_def)

section \<open>No connection leaks\<close>

text \<open>
  The connections that are open after a trace, and the discipline of the worlds: every
  open connection has a number below the counter.
\<close>

definition live_step :: "nat set \<Rightarrow> event \<Rightarrow> nat set" where
  "live_step open e = (case e of
       Dial who target c ok \<Rightarrow> (if ok then insert c open else open)
     | Close c \<Rightarrow> open - {c})"

definition live :: "event list \<Rightarrow> nat set" where
  "live es = foldl live_step {} es"

definition live_below :: "world \<Rightarrow> bool" where
  "live_below w \<longleftrightarrow> (\<forall>c \<in> live (trace w). c < tick w)"

text \<open>
  The proxies whose \<open>Connect\<close> may fail without closing its connection, and the connections
  that one of them dialled.
\<close>

definition leaves :: "world \<Rightarrow> (leaf_kind \<times> proxy_cfg) set" where
  "leaves w = {(k, c). OLeaf k c \<in> set (heap w)}"

definition careless :: "leaf_kind \<Rightarrow> bool" where
  "careless k \<longleftrightarrow> k \<in> {KTrojan, KHTTP3}"

definition dropped :: "world \<Rightarrow> event list \<Rightarrow> nat \<Rightarrow> bool" where
  "dropped w es c \<longleftrightarrow> (\<exists>k cfg target. (k, cfg) \<in> leaves w \<and> careless k \<and> Dial (c_name cfg) target c True \<in> set es)"

text \<open>
  The outcome of one call of \<open>Connect\<close>: the connections that were open before stay open, and
  each new one is either the result or was dialled by a careless proxy.
\<close>

definition clean :: "world \<Rightarrow> conn_result \<Rightarrow> bool" where
  "clean w r = (case r of (w', res) \<Rightarrow>
     tick w \<le> tick w' \<and> set (trace w) \<subseteq> set (trace w') \<and> leaves w' = leaves w \<and>
     live (trace w) \<subseteq> live (trace w') \<and>
     (\<forall>c \<in> live (trace w') - live (trace w).
        tick w \<le> c \<and> c < tick w' \<and> (res = Inr c \<or> dropped w (trace w') c)) \<and>
     (\<forall>c. res = Inr c \<longrightarrow> tick w \<le> c \<and> c < tick w' \<and> c \<in> live (trace w')))"

lemma leaves_cong: "heap w' = heap w \<Longrightarrow> leaves w' = leaves w"
  by (simp add: leaves_def)

lemma leaves_set_obj:
  assumes "i < length (heap w)" "\<And>k c. heap w ! i \<noteq> OLeaf k c" "\<And>k c. ob \<noteq> OLeaf k c"
  shows "leaves (w\<lparr>heap := (heap w)[i := ob]\<rparr>) = leaves w"
proof -
  have "OLeaf k c \<in> set ((heap w)[i := ob]) \<longleftrightarrow> OLeaf k c \<in> set (heap w)" for k c
    using assms by (metis in_set_conv_nth length_list_update nth_list_update_eq nth_list_update_neq)
  then show ?thesis by (simp add: leaves_def)
qed

lemma live_snoc [simp]: "live (es @ [e]) = live_step (live es) e"
  by (simp add: live_def)

lemma live_snoc2: "live (es @ [a, b]) = live_step (live_step (live es) a) b"
  by (simp add: live_def)

lemma note_event_simps [simp]:
  "trace (note_event e w) = trace w @ [e]" "tick (note_event e w) = tick w"
  "heap (note_event e w) = heap w" "names (note_event e w) = names w"
  by (simp_all add: note_event_def)

lemma bump_simps [simp]:
  "trace (bump w) = trace w" "tick (bump w) = Suc (tick w)"
  "heap (bump w) = heap w" "names (bump w) = names w"
  by (simp_all add: bump_def)

lemma set_obj_simps [simp]:
  "trace (set_obj i ob w) = trace w" "tick (set_obj i ob w) = tick w"
  "names (set_obj i ob w) = names w" "heap (set_obj i ob w) = (heap w)[i := ob]"
  by (simp_all add: set_obj_def)

lemma mark_failed_simps [simp]:
  "trace (mark_failed i nm w) = trace w" "tick (mark_failed i nm w) = tick w"
  "names (mark_failed i nm w) = names w" "length (heap (mark_failed i nm w)) = length (heap w)"
  by (simp_all add: mark_failed_def split: obj.splits)

lemma leaves_simps [simp]:
  "leaves (note_event e w) = leaves w" "leaves (bump w) = leaves w" "leaves (mark_failed i nm w) = leaves w"
proof -
  show "leaves (mark_failed i nm w) = leaves w"
  proof (cases "i < length (heap w)")
    case True
    then show ?thesis
      using leaves_set_obj [OF True] by (cases "heap w ! i") (simp_all add: mark_failed_def set_obj_def)
  next
    case False
    then have "(heap w)[i := ob] = heap w" for ob by (simp add: list_update_beyond)
    then show ?thesis by (cases "heap w ! i") (simp_all add: mark_failed_def set_obj_def)
  qed
qed (rule leaves_cong, simp)+

lemma dropped_mono: "dropped w es c \<Longrightarrow> set es \<subseteq> set es' \<Longrightarrow> dropped w es' c"
  unfolding dropped_def by blast

lemma dropped_cong: "leaves w' = leaves w \<Longrightarrow> dropped w' es c = dropped w es c"
  by (simp add: dropped_def)

lemma clean_refl [simp]: "clean w (w, Inl e)"
  by (simp add: clean_def)

lemma cleanI:
  assumes "tick w \<le> tick w'" "set (trace w) \<subseteq> set (trace w')" "leaves w' = leaves w"
    and "live (trace w) \<subseteq> live (trace w')"
    and "\<And>c. c \<in> live (trace w') \<Longrightarrow> c \<notin> live (trace w) \<Longrightarrow>
      tick w \<le> c \<and> c < tick w' \<and> (res = Inr c \<or> dropped w (trace w') c)"
    and "\<And>c. res = Inr c \<Longrightarrow> tick w \<le> c \<and> c < tick w' \<and> c \<in> live (trace w')"
  shows "clean w (w', res)"
  using assms unfolding clean_def by blast

lemma cleanD:
  assumes "clean w (w', res)"
  shows "tick w \<le> tick w'" "set (trace w) \<subseteq> set (trace w')" "leaves w' = leaves w"
    and "live (trace w) \<subseteq> live (trace w')"
    and "c \<in> live (trace w') \<Longrightarrow> c \<notin> live (trace w) \<Longrightarrow>
      tick w \<le> c \<and> c < tick w' \<and> (res = Inr c \<or> dropped w (trace w') c)"
    and "res = Inr c \<Longrightarrow> tick w \<le> c \<and> c < tick w' \<and> c \<in> live (trace w')"
  using assms unfolding clean_def by blast+

lemma clean_trans_Inl:
  assumes "clean w (w', Inl e)" "clean w' r"
  shows "clean w r"
proof -
  obtain w'' res where r: "r = (w'', res)" by (cases r)
  note a = cleanD [OF assms(1)] and b = cleanD [OF assms(2) [unfolded r]]
  show ?thesis
    unfolding r
  proof (rule cleanI)
    show "tick w \<le> c \<and> c < tick w'' \<and> (res = Inr c \<or> dropped w (trace w'') c)"
      if "c \<in> live (trace w'')" "c \<notin> live (trace w)" for c
    proof (cases "c \<in> live (trace w')")
      case True
      then have "dropped w (trace w'') c" "tick w \<le> c" "c < tick w'"
        using a(5) [OF True that(2)] dropped_mono [OF _ b(2)] by auto
      then show ?thesis using b(1) by simp
    next
      case False
      then show ?thesis
        using b(5) [OF that(1)] a(1) dropped_cong [OF a(3)] by auto
    qed
    show "tick w \<le> c \<and> c < tick w'' \<and> c \<in> live (trace w'')" if "res = Inr c" for c
      using b(6) [OF that] a(1) by simp
  qed (use a b in auto)
qed

lemma clean_below: "live_below w \<Longrightarrow> clean w (w', r) \<Longrightarrow> live_below w'"
  unfolding live_below_def by (metis cleanD(1,5) order_less_le_trans)

lemma clean_same_trace:
  assumes "trace w' = trace w" "leaves w' = leaves w" "tick w \<le> tick w'" "clean w' r"
  shows "clean w r"
proof -
  have "clean w (w', Inl Rejected)"
    using assms(1-3) by (intro cleanI) simp_all
  then show ?thesis
    using assms(4) by (rule clean_trans_Inl)
qed

lemma clean_same_frame:
  "trace w' = trace w \<Longrightarrow> leaves w' = leaves w \<Longrightarrow> tick w \<le> tick w' \<Longrightarrow> clean w (w', Inl e)"
  by (rule clean_same_trace [OF _ _ _ clean_refl]) simp_all

lemma clean_end: "clean w (w', Inl e) \<Longrightarrow> clean w (w', Inl e')"
  unfolding clean_def by simp

lemma live_below_same: "trace w' = trace w \<Longrightarrow> tick w \<le> tick w' \<Longrightarrow> live_below w \<Longrightarrow> live_below w'"
  by (force simp: live_below_def)

lemma clean_dial:
  "clean w (note_event (Dial nm t (tick w) False) (bump w), Inl e)"
  "clean w (note_event (Dial nm t (tick w) True) (bump w), Inr (tick w))"
  by (auto simp: clean_def live_step_def)

lemma clean_direct_try: "clean w (direct_try net addr port ips w)"
proof (induction ips arbitrary: w)
  case Nil
  then show ?case by simp
next
  case (Cons a ips)
  show ?case
  proof (cases "tcp_dial net (tick w) (join_host_port (ip_string a) port)")
    case (Inl e)
    then show ?thesis
      using clean_trans_Inl [OF clean_dial(1) [of w "''DIRECT''"] Cons] by (simp add: Let_def)
  qed (simp add: clean_dial Let_def)
qed

lemma clean_direct_connect: "clean w (direct_connect net addr w)"
proof -
  have "clean w (direct_try net a p ips (bump w))" for a p ips
    by (rule clean_same_trace [OF _ _ _ clean_direct_try]) simp_all
  then show ?thesis
    by (auto simp: direct_connect_def clean_same_frame split: option.splits sum.splits)
qed

lemma stages_open: "run_stages f (leaf_stages k c) = FailedOpen e \<Longrightarrow> careless k"
  by (cases k) (auto simp: leaf_stages_def careless_def http_stages_def https_stages_def socks5_stages_def
      shadowsocks_stages_def vmess_stages_def vless_stages_def forward_stages_def
      split: stage_result.splits if_splits)

lemma clean_leaf_connect:
  assumes "live_below w" "(k, c) \<in> leaves w" "leaf_connect net k c addr w = Some r"
  shows "clean w r"
proof (cases "leaf_dial net (tick w) k c addr")
  case (Inl e)
  with assms(3) show ?thesis by (auto simp: leaf_connect_def clean_dial)
next
  case (Inr u)
  let ?w = "note_event (Dial (c_name c) addr (tick w) True) (bump w)"
  have new: "tick w \<notin> live (trace w)"
    using assms(1) by (auto simp: live_below_def)
  show ?thesis
  proof (cases "run_stages (leaf_stage net (tick w) k c addr) (leaf_stages k c)")
    case (FailedClosed e)
    with Inr assms(3) new show ?thesis
      by (auto simp: leaf_connect_def Let_def clean_def live_step_def live_snoc2)
  next
    case (FailedOpen e)
    then have "careless k" by (rule stages_open)
    with assms(2) have "dropped w (trace ?w) (tick w)"
      unfolding dropped_def by fastforce
    with Inr FailedOpen assms(3) show ?thesis
      by (auto simp: leaf_connect_def Let_def clean_def live_step_def)
  qed (use Inr assms(3) clean_dial(2) in \<open>auto simp: leaf_connect_def Let_def\<close>)
qed

text \<open>A connector is clean when every call of it is.\<close>

definition clean_connector :: "connector \<Rightarrow> bool" where
  "clean_connector k \<longleftrightarrow> (\<forall>p addr w r. live_below w \<longrightarrow> k p addr w = Some r \<longrightarrow> clean w r)"

lemma clean_connectorD: "clean_connector k \<Longrightarrow> live_below w \<Longrightarrow> k p addr w = Some r \<Longrightarrow> clean w r"
  unfolding clean_connector_def by blast

lemma clean_via_member:
  "clean_connector k \<Longrightarrow> live_below w \<Longrightarrow> via_member k wrap m addr w = Some r \<Longrightarrow> clean w r"
  by (auto simp: via_member_def split: sum.splits intro: clean_connectorD)

lemma clean_failover:
  "clean_connector k \<Longrightarrow> live_below w \<Longrightarrow> failover_loop k nm ms addr err w = Some r \<Longrightarrow> clean w r"
proof (induction ms arbitrary: err w)
  case Nil
  then show ?case by auto
next
  case (Cons m ms)
  show ?case
  proof (cases "reg_get w m")
    case (Inl e)
    with Cons show ?thesis by auto
  next
    case (Inr p)
    with Cons.prems(3) obtain w' res where k: "k p addr w = Some (w', res)"
      by (auto split: option.splits prod.splits)
    have c: "clean w (w', res)"
      using Cons.prems(1,2) k by (rule clean_connectorD)
    show ?thesis
    proof (cases res)
      case Fail: (Inl e)
      have "clean w' r"
        using Cons.prems(3) Inr k Fail Cons.IH [OF Cons.prems(1) clean_below [OF Cons.prems(2) c]]
        by simp
      with c Fail show ?thesis by (auto intro: clean_trans_Inl)
    next
      case Ok: (Inr x)
      with Cons.prems(3) Inr k c show ?thesis by simp
    qed
  qed
qed

lemma clean_close:
  assumes "live_below w" "clean w (w', Inr c)"
  shows "clean w (note_event (Close c) w', Inl e)"
proof -
  have "c \<notin> live (trace w)"
    using assms cleanD(6) [OF assms(2) refl] by (auto simp: live_below_def)
  with assms(2) show ?thesis
    unfolding clean_def by (auto simp: live_step_def dropped_def)
qed

lemma clean_chain:
  "clean_connector k \<Longrightarrow> live_below w \<Longrightarrow> chain_loop k nm i hops addr w = Some r \<Longrightarrow> clean w r"
proof (induction hops arbitrary: i w)
  case Nil
  then show ?case by auto
next
  case (Cons h rest)
  define target where "target = (case rest of [] \<Rightarrow> addr | nx # _ \<Rightarrow> server_addr_of w nx)"
  show ?case
  proof (cases "rest \<noteq> [] \<and> target = []")
    case True
    with Cons.prems(3) show ?thesis by (auto simp: target_def Let_def)
  next
    case False
    with Cons.prems(3) obtain w' res where k: "k h target w = Some (w', res)"
      unfolding target_def by (auto simp: Let_def split: option.splits)
    have c: "clean w (w', res)"
      using Cons.prems(1,2) k by (rule clean_connectorD)
    have step: "chain_loop k nm i (h # rest) addr w =
        (case res of Inl e \<Rightarrow> Some (w', Inl (InHop nm (i + 1) e))
         | Inr c \<Rightarrow> (if rest = [] then Some (w', Inr c)
                   else chain_loop k nm (i + 1) rest addr (note_event (Close c) w')))"
      using False k unfolding target_def by (auto simp: Let_def split: sum.splits)
    show ?thesis
    proof (cases res)
      case Fail: (Inl e)
      with Cons.prems(3) [unfolded step] c show ?thesis by (auto intro: clean_end)
    next
      case Ok: (Inr x)
      show ?thesis
      proof (cases "rest = []")
        case True
        with Cons.prems(3) [unfolded step] Ok c show ?thesis by auto
      next
        case nonempty: False
        let ?w = "note_event (Close x) w'"
        have e: "chain_loop k nm (i + 1) rest addr ?w = Some r"
          using Cons.prems(3) [unfolded step] Ok nonempty by simp
        have cl: "clean w (?w, Inl Rejected)"
          using clean_close [OF Cons.prems(2)] c Ok by blast
        have "clean ?w r"
          using Cons.IH [OF Cons.prems(1) clean_below [OF Cons.prems(2) cl] e] .
        with cl show ?thesis by (rule clean_trans_Inl)
      qed
    qed
  qed
qed

lemma clean_mark: "clean w (w', Inl e) \<Longrightarrow> clean w (mark_failed i nm w', Inl e')"
  by (rule clean_trans_Inl) (auto intro: clean_same_frame)

lemma clean_urltest:
  "clean_connector k \<Longrightarrow> live_below w \<Longrightarrow> urltest_connect k i best addr w = Some r \<Longrightarrow> clean w r"
  by (auto simp: urltest_connect_def split: sum.splits option.splits prod.splits
      intro: clean_mark dest: clean_connectorD)

lemma clean_round_robin:
  assumes "clean_connector k" "live_below w" "i < length (heap w)" "heap w ! i = ORoundRobin c idx"
    and "round_robin_connect k i c idx addr w = Some r"
  shows "clean w r"
proof (cases "c_proxies c = []")
  case True
  with assms(5) show ?thesis by (auto simp: round_robin_connect_def)
next
  case False
  let ?w = "set_obj i (ORoundRobin c (idx + 1)) w"
  have "live_below ?w"
    by (rule live_below_same [OF _ _ assms(2)]) simp_all
  with assms(1,5) False have "clean ?w r"
    by (auto simp: round_robin_connect_def intro: clean_via_member)
  moreover have "leaves ?w = leaves w"
    using assms(3,4) by (simp add: set_obj_def leaves_set_obj)
  ultimately show ?thesis by (metis clean_same_trace order_refl set_obj_simps(1,2))
qed

lemma clean_load_balance:
  assumes "clean_connector k" "live_below w" "load_balance_connect net k c addr w = Some r"
  shows "clean w r"
proof (cases "c_proxies c = []")
  case True
  with assms(3) show ?thesis by (auto simp: load_balance_connect_def)
next
  case False
  have "live_below (bump w)"
    by (rule live_below_same [OF _ _ assms(2)]) simp_all
  with assms(1,3) False have "clean (bump w) r"
    by (auto simp: load_balance_connect_def intro: clean_via_member)
  then show ?thesis by (rule clean_same_trace [OF _ _ _, rotated -1]) simp_all
qed

lemmas clean_groups =
  clean_via_member clean_failover clean_chain clean_urltest clean_load_balance

lemma clean_connector_connect: "clean_connector (connect net n)"
proof (induction n)
  case 0
  then show ?case by (simp add: clean_connector_def)
next
  case (Suc n)
  have "clean w r" if below: "live_below w" and r: "connect net (Suc n) p addr w = Some r" for p addr w r
  proof (cases p)
    case (PObj i)
    show ?thesis
    proof (cases "length (heap w) \<le> i")
      case True
      with r PObj show ?thesis by auto
    next
      case False
      then have at: "heap w ! i \<in> set (heap w)" by simp
      show ?thesis
      proof (cases "heap w ! i")
        case (OLeaf k c)
        with r PObj False show ?thesis
          using clean_leaf_connect [OF below, of k c] at by (auto simp: leaves_def)
      next
        case (ORoundRobin c idx)
        with r PObj False show ?thesis
          using clean_round_robin [OF Suc below _ ORoundRobin] by auto
      qed (use r PObj False in \<open>auto simp: clean_direct_connect intro: clean_groups [OF Suc below]\<close>)
    qed
  next
    case PDirect
    with r show ?thesis by (auto simp: clean_direct_connect)
  next
    case PReject
    with r show ?thesis by auto
  qed
  then show ?case by (simp add: clean_connector_def)
qed

text \<open>
  C1: what stays open. Whatever the group structure and whatever the network answers, a call of
  \<open>Connect\<close> that returns leaves the connections open that were open before, hands a new one to
  the caller if it succeeds, and of the others that it has made it leaves open at most those to
  the server of a Trojan or an HTTP/3 proxy, whose own \<open>Connect\<close> drops them when it fails: the
  groups close every connection that a member returns to them and that they do not return.
\<close>

theorem connect_no_leak:
  assumes "live_below w" and "connect net n p addr w = Some (w', res)"
  shows "live (trace w) \<subseteq> live (trace w') \<and>
    (\<forall>c. res = Inr c \<longrightarrow> c \<notin> live (trace w) \<and> c \<in> live (trace w')) \<and>
    (\<forall>c \<in> live (trace w') - live (trace w). res = Inr c \<or>
       (\<exists>k cfg target. OLeaf k cfg \<in> set (heap w) \<and> k \<in> {KTrojan, KHTTP3} \<and>
          Dial (c_name cfg) target c True \<in> set (trace w')))"
proof -
  have "clean w (w', res)"
    using clean_connectorD [OF clean_connector_connect assms] .
  note c = cleanD [OF this]
  have "c \<notin> live (trace w)" if "res = Inr c" for c
    using c(6) [OF that] assms(1) by (auto simp: live_below_def)
  with c(4,6) show ?thesis
    using c(5) by (auto simp: dropped_def leaves_def careless_def)
qed

text \<open>A Trojan server that does not send the byte of its reply costs a connection at each call.\<close>

lemma trojan_drops:
  assumes "leaf_dial net (tick w) KTrojan c addr = Inr ()"
    and "leaf_stage net (tick w) KTrojan c addr = (\<lambda>s. if s = ''read reply'' then Broke e else Passed)"
  shows "leaf_connect net KTrojan c addr w =
    Some (note_event (Dial (c_name c) addr (tick w) True) (bump w), Inl (NetError e))"
  using assms by (simp add: leaf_connect_def leaf_stages_def trojan_stages_def Let_def)

lemma demo_chain_run:
  "\<exists>w'. connect demo_net (Suc (Suc 0)) (PObj 2) ''h:80'' demo_world = Some (w', Inr 1) \<and>
     trace w' = [Dial ''a'' ''b:1'' 0 True, Close 0, Dial ''b'' ''h:80'' 1 True]"
  by (simp add: leaf_connect_def server_addr_of_def server_addr_def join_host_port_def Let_def)

theorem connect_no_leak_witness:
  "\<exists>w'. connect demo_net (Suc (Suc 0)) (PObj 2) ''h:80'' demo_world = Some (w', Inr 1) \<and>
    live_below demo_world \<and> live (trace w') = {1}"
proof -
  obtain w' where run: "connect demo_net (Suc (Suc 0)) (PObj 2) ''h:80'' demo_world = Some (w', Inr 1)"
    using demo_chain_run by blast
  have below: "live_below demo_world"
    by (simp add: live_below_def live_def)
  have "OLeaf k cfg \<notin> set (heap demo_world)" if "k \<in> {KTrojan, KHTTP3}" for k cfg
    using that by (auto simp: demo_world_def)
  moreover have "live (trace demo_world) = {}"
    by (simp add: live_def)
  ultimately have "live (trace w') = {1}"
    using connect_no_leak [OF below run] by (auto simp del: connect.simps)
  with run below show ?thesis by blast
qed

section \<open>Calls that return\<close>

text \<open>
  The pointers a group may call, and a ranking of the heap on which every group is above
  its members. A configuration without cyclic groups has such a ranking.
\<close>

definition obj_names :: "obj \<Rightarrow> string list" where
  "obj_names ob = (case ob of
       OSelector c ch \<Rightarrow> [ch] | OURLTest c b l f \<Rightarrow> [b] | ORoundRobin c i \<Rightarrow> c_proxies c
     | OFailover c \<Rightarrow> c_proxies c | OLoadBalance c \<Rightarrow> c_proxies c | _ \<Rightarrow> [])"

definition obj_hops :: "obj \<Rightarrow> pref list" where
  "obj_hops ob = (case ob of OChain c hs \<Rightarrow> hs | _ \<Rightarrow> [])"

definition rank_of :: "(nat \<Rightarrow> nat) \<Rightarrow> pref \<Rightarrow> nat" where
  "rank_of r p = (case p of PObj i \<Rightarrow> r i | _ \<Rightarrow> 0)"

definition ranked :: "(nat \<Rightarrow> nat) \<Rightarrow> world \<Rightarrow> bool" where
  "ranked r w \<longleftrightarrow> (\<forall>i < length (heap w).
     (\<forall>h \<in> set (obj_hops (heap w ! i)). rank_of r h < r i) \<and>
     (\<forall>m \<in> set (obj_names (heap w ! i)). \<forall>p. reg_get w m = Inr p \<longrightarrow> rank_of r p < r i))"

text \<open>
  Two worlds have the same shape when they differ in the mutable fields only that
  \<open>Connect\<close> writes: counters, failure marks, the trace.
\<close>

definition same_shape :: "world \<Rightarrow> world \<Rightarrow> bool" where
  "same_shape w w' \<longleftrightarrow> names w' = names w \<and> length (heap w') = length (heap w) \<and>
     (\<forall>i < length (heap w). obj_names (heap w' ! i) = obj_names (heap w ! i) \<and>
        obj_hops (heap w' ! i) = obj_hops (heap w ! i))"

lemma same_shape_refl [simp]: "same_shape w w"
  by (simp add: same_shape_def)

lemma same_shape_trans: "same_shape w w' \<Longrightarrow> same_shape w' w'' \<Longrightarrow> same_shape w w''"
  by (auto simp: same_shape_def)

lemma same_shape_ranked: "same_shape w w' \<Longrightarrow> ranked r w \<Longrightarrow> ranked r w'"
  unfolding ranked_def same_shape_def by (metis reg_get_cong)

lemma same_shape_frame:
  "heap w' = heap w \<Longrightarrow> names w' = names w \<Longrightarrow> same_shape w w'"
  by (simp add: same_shape_def)

lemma same_shape_set_obj:
  "obj_names ob = obj_names (heap w ! i) \<Longrightarrow> obj_hops ob = obj_hops (heap w ! i) \<Longrightarrow>
   same_shape w (set_obj i ob w)"
  by (cases "i < length (heap w)") (auto simp: same_shape_def nth_list_update)

lemma same_shape_mark_failed: "same_shape w (mark_failed i nm w)"
  by (auto simp: mark_failed_def obj_names_def obj_hops_def intro!: same_shape_set_obj split: obj.splits)

definition returns :: "world \<Rightarrow> conn_result option \<Rightarrow> bool" where
  "returns w r \<longleftrightarrow> (\<exists>w' res. r = Some (w', res) \<and> same_shape w w')"

lemma returns_Some [simp]: "returns w (Some (w', res)) \<longleftrightarrow> same_shape w w'"
  by (simp add: returns_def)

lemma returns_trans: "same_shape w w' \<Longrightarrow> returns w' r \<Longrightarrow> returns w r"
  unfolding returns_def using same_shape_trans by blast

lemma returnsE:
  assumes "returns w r" "ranked rk w"
  obtains w' res where "r = Some (w', res)" "same_shape w w'" "ranked rk w'"
  using assms same_shape_ranked unfolding returns_def by blast

text \<open>
  A connector returns below rank \<open>b\<close> when, in every world with the given ranking, a call on a
  pointer of smaller rank returns and keeps the shape of the world.
\<close>

definition returns_below :: "(nat \<Rightarrow> nat) \<Rightarrow> nat \<Rightarrow> connector \<Rightarrow> bool" where
  "returns_below r b k \<longleftrightarrow>
     (\<forall>p addr w. ranked r w \<longrightarrow> rank_of r p < b \<longrightarrow> returns w (k p addr w))"

lemma returns_belowD:
  "returns_below r b k \<Longrightarrow> ranked r w \<Longrightarrow> rank_of r p < b \<Longrightarrow> returns w (k p addr w)"
  unfolding returns_below_def by blast

lemma returns_via_member:
  assumes "returns_below r b k" "ranked r w" "\<forall>p. reg_get w m = Inr p \<longrightarrow> rank_of r p < b"
  shows "returns w (via_member k wrap m addr w)"
  using assms by (auto simp: via_member_def intro: returns_belowD split: sum.splits)

lemma returns_failover:
  assumes "returns_below r b k"
  shows "ranked r w \<Longrightarrow> \<forall>m \<in> set ms. \<forall>p. reg_get w m = Inr p \<longrightarrow> rank_of r p < b \<Longrightarrow>
    returns w (failover_loop k nm ms addr err w)"
proof (induction ms arbitrary: w err)
  case (Cons m ms)
  show ?case
  proof (cases "reg_get w m")
    case (Inr p)
    with Cons.prems have "returns w (k p addr w)"
      by (intro returns_belowD [OF assms]) auto
    then obtain w' res where k: "k p addr w = Some (w', res)"
      and shape: "same_shape w w'" and rk: "ranked r w'"
      using Cons.prems(1) by (rule returnsE)
    have "\<forall>m \<in> set ms. \<forall>p. reg_get w' m = Inr p \<longrightarrow> rank_of r p < b"
      using Cons.prems(2) shape reg_get_cong [of w' w] by (simp add: same_shape_def)
    then have "returns w' (failover_loop k nm ms addr e w')" for e
      using Cons.IH [OF rk] by blast
    with Inr k shape show ?thesis
      by (cases res) (auto intro: returns_trans)
  qed (use Cons in auto)
qed simp

lemma returns_chain:
  assumes "returns_below r b k"
  shows "ranked r w \<Longrightarrow> \<forall>h \<in> set hops. rank_of r h < b \<Longrightarrow>
    returns w (chain_loop k nm i hops addr w)"
proof (induction hops arbitrary: w i)
  case (Cons h rest)
  define target where "target = (case rest of [] \<Rightarrow> addr | nx # _ \<Rightarrow> server_addr_of w nx)"
  from Cons.prems have "returns w (k h target w)"
    by (intro returns_belowD [OF assms]) auto
  then obtain w' res where k: "k h target w = Some (w', res)"
    and shape: "same_shape w w'" and rk: "ranked r w'"
    using Cons.prems(1) by (rule returnsE)
  have close: "same_shape w' (note_event (Close c) w')" for c
    by (rule same_shape_frame) simp_all
  have "returns (note_event (Close c) w') (chain_loop k nm (i + 1) rest addr (note_event (Close c) w'))" for c
    using Cons.IH [OF same_shape_ranked [OF close rk]] Cons.prems(2) by simp
  then have "returns w (chain_loop k nm (i + 1) rest addr (note_event (Close c) w'))" for c
    using shape close by (blast intro: returns_trans)
  with k shape show ?case
    unfolding target_def by (cases res) (auto simp: Let_def)
qed simp

lemma returns_urltest:
  assumes "returns_below r b k" "ranked r w" "\<forall>p. reg_get w best = Inr p \<longrightarrow> rank_of r p < b"
  shows "returns w (urltest_connect k i best addr w)"
proof (cases "reg_get w best")
  case (Inr p)
  with assms have "returns w (k p addr w)" by (intro returns_belowD) auto
  then obtain w' res where "k p addr w = Some (w', res)" "same_shape w w'"
    unfolding returns_def by blast
  with Inr show ?thesis
    by (cases res) (auto simp: urltest_connect_def intro: same_shape_trans same_shape_mark_failed)
qed (simp add: urltest_connect_def)

lemma returns_round_robin:
  assumes "returns_below r b k" "ranked r w" "heap w ! i = ORoundRobin c idx"
    and "\<forall>m \<in> set (c_proxies c). \<forall>p. reg_get w m = Inr p \<longrightarrow> rank_of r p < b"
  shows "returns w (round_robin_connect k i c idx addr w)"
proof (cases "c_proxies c = []")
  case False
  let ?w = "set_obj i (ORoundRobin c (idx + 1)) w"
  let ?m = "c_proxies c ! rr_index idx (length (c_proxies c))"
  have shape: "same_shape w ?w"
    by (rule same_shape_set_obj) (simp_all add: assms(3) obj_names_def obj_hops_def)
  have "?m \<in> set (c_proxies c)"
    using False by (simp add: rr_index_def)
  moreover have "reg_get ?w = reg_get w"
    by (rule reg_get_cong) simp
  ultimately have "returns ?w (via_member k (InGroup (c_name c)) ?m addr ?w)"
    using assms(4) by (intro returns_via_member [OF assms(1) same_shape_ranked [OF shape assms(2)]]) simp
  with False shape show ?thesis
    by (simp add: round_robin_connect_def returns_trans)
qed (simp add: round_robin_connect_def)

lemma returns_load_balance:
  assumes "returns_below r b k" "ranked r w"
    and "\<forall>m \<in> set (c_proxies c). \<forall>p. reg_get w m = Inr p \<longrightarrow> rank_of r p < b"
  shows "returns w (load_balance_connect net k c addr w)"
proof (cases "c_proxies c = []")
  case False
  let ?m = "c_proxies c ! (rand_int net (tick w) mod length (c_proxies c))"
  have shape: "same_shape w (bump w)"
    by (rule same_shape_frame) simp_all
  have "?m \<in> set (c_proxies c)"
    using False by simp
  moreover have "reg_get (bump w) = reg_get w"
    by (rule reg_get_cong) simp
  ultimately have "returns (bump w) (via_member k (InGroup (c_name c)) ?m addr (bump w))"
    using assms(3) by (intro returns_via_member [OF assms(1) same_shape_ranked [OF shape assms(2)]]) simp
  with False shape show ?thesis
    by (simp add: load_balance_connect_def returns_trans)
qed (simp add: load_balance_connect_def)

lemma same_shape_direct: "same_shape w (fst (direct_connect net addr w))"
proof -
  have "heap (fst (direct_try net a p ips v)) = heap v \<and> names (fst (direct_try net a p ips v)) = names v"
    for a p ips v
    by (induction net a p ips v rule: direct_try.induct) (auto simp: Let_def split: sum.splits)
  then show ?thesis
    by (auto simp: direct_connect_def intro!: same_shape_frame split: option.splits sum.splits)
qed

lemma returns_direct: "returns w (Some (direct_connect net addr w))"
  using same_shape_direct [of w net addr] by (cases "direct_connect net addr w") simp

text \<open>No stage of a handshake waits for ever: the servers of the remote proxies answer or hang up.\<close>

definition responsive :: "net \<Rightarrow> bool" where
  "responsive net \<longleftrightarrow> (\<forall>t k c addr s. leaf_stage net t k c addr s \<noteq> Waits)"

lemma stages_end: "(\<And>s. f s \<noteq> Waits) \<Longrightarrow> run_stages f ss \<noteq> Stuck"
  by (induction ss) (auto split: stage_result.splits if_splits)

lemma returns_leaf:
  assumes "responsive net"
  shows "returns w (leaf_connect net k c addr w)"
proof -
  have "run_stages (leaf_stage net (tick w) k c addr) (leaf_stages k c) \<noteq> Stuck"
    using assms by (intro stages_end) (simp add: responsive_def)
  then show ?thesis
    by (auto simp: leaf_connect_def Let_def intro!: same_shape_frame split: sum.splits leaf_end.splits)
qed

lemma returns_below_connect:
  assumes resp: "responsive net"
  shows "returns_below r n (connect net n)"
proof (induction n)
  case (Suc n)
  have "returns w (connect net (Suc n) p addr w)" if rk: "ranked r w" and less: "rank_of r p < Suc n" for p addr w
  proof (cases p)
    case (PObj i)
    show ?thesis
    proof (cases "i < length (heap w)")
      case True
      have below: "returns_below r (r i) (connect net n)"
        using Suc less PObj by (auto simp: returns_below_def rank_of_def)
      have hops: "\<forall>h \<in> set (obj_hops (heap w ! i)). rank_of r h < r i"
        and members: "\<forall>m \<in> set (obj_names (heap w ! i)). \<forall>p. reg_get w m = Inr p \<longrightarrow> rank_of r p < r i"
        using rk True by (auto simp: ranked_def)
      note rules = returns_via_member [OF below rk] returns_urltest [OF below rk]
        returns_failover [OF below rk] returns_chain [OF below rk] returns_load_balance [OF below rk]
      show ?thesis
        using PObj True hops members
        by (cases "heap w ! i")
          (auto simp: obj_names_def obj_hops_def returns_direct returns_leaf [OF resp]
            intro!: rules returns_round_robin [OF below rk])
    qed (simp add: PObj)
  qed (simp_all add: returns_direct)
  then show ?case by (simp add: returns_below_def)
qed (simp add: returns_below_def)

text \<open>
  C8: a configuration without cyclic groups always answers, if the servers of its remote proxies
  do. If the heap has a ranking, and no stage of a handshake waits for ever, a call of \<open>Connect\<close>
  returns, with as much fuel as the rank of the object.
\<close>

theorem connect_returns:
  assumes "ranked r w" and "rank_of r p < n" and "responsive net"
  shows "\<exists>w' res. connect net n p addr w = Some (w', res) \<and> ranked r w'"
proof -
  have "returns w (connect net n p addr w)"
    by (rule returns_belowD [OF returns_below_connect [OF assms(3)] assms(1,2)])
  then show ?thesis
    using assms(1) by (elim returnsE) auto
qed

theorem connect_returns_witness:
  "let w = demo_world\<lparr>heap := take 7 (heap demo_world)\<rparr>; r = (\<lambda>i. if i < 2 then 0 else 1 :: nat) in
   ranked r w \<and> rank_of r (PObj 3) < 2 \<and>
   (\<exists>w' res. connect demo_net 2 (PObj 3) ''h:80'' w = Some (w', res) \<and> ranked r w')"
proof -
  let ?w = "demo_world\<lparr>heap := take 7 (heap demo_world)\<rparr>"
  let ?r = "\<lambda>i. if i < 2 then 0 else 1 :: nat"
  have heap: "heap ?w = [OLeaf KSOCKS5 (demo_cfg ''a'' []), OLeaf KHTTP (demo_cfg ''b'' []),
       OChain (demo_cfg ''c'' [''a'', ''b'']) [PObj 0, PObj 1], OFailover (demo_cfg ''f'' [''a'', ''b'']),
       ORoundRobin (demo_cfg ''r'' [''a'', ''b'']) 0,
       OURLTest (demo_cfg ''u'' [''a'', ''b'']) ''a'' Map.empty Map.empty,
       OSelector (demo_cfg ''s'' [''a'']) ''a'']"
    by (simp add: demo_world_def)
  have "ranked ?r ?w"
    unfolding ranked_def heap
    by (simp add: All_less_Suc obj_hops_def obj_names_def rank_of_def)
  moreover have "rank_of ?r (PObj 3) < 2"
    by (simp add: rank_of_def)
  moreover have "responsive demo_net"
    by (simp add: responsive_def)
  ultimately show ?thesis
    using connect_returns [of ?r ?w "PObj 3" 2 demo_net "''h:80''"] by (simp add: Let_def)
qed

text \<open>
  A remote proxy whose server takes the connection and says nothing: a failover group over it
  never comes to its second member.
\<close>

lemma silent_member_blocks:
  assumes "i < length (heap w)" and "heap w ! i = OFailover c" and "c_proxies c = m # ms"
    and "reg_get w m = Inr (PObj j)" and "j < length (heap w)" and "heap w ! j = OLeaf KSOCKS5 d"
    and "leaf_dial net (tick w) KSOCKS5 d addr = Inr ()"
    and "leaf_stage net (tick w) KSOCKS5 d addr ''handshake'' = Waits"
  shows "connect net n (PObj i) addr w = None"
proof (cases n)
  case (Suc k)
  have "connect net k (PObj j) addr w = None"
    using assms(5-8) by (cases k) (simp_all add: leaf_connect_def leaf_stages_def socks5_stages_def Let_def)
  with Suc assms(1-4) show ?thesis by simp
qed simp

text \<open>
  A selector whose choice is its own name calls itself: \<open>Connect\<close> does not return, with any
  amount of fuel, for any target and any network. Nothing in the construction of the groups
  rejects such a configuration.
\<close>

theorem self_selector_diverges:
  assumes "i < length (heap w)" and "heap w ! i = OSelector c ch" and "reg_get w ch = Inr (PObj i)"
  shows "connect net n (PObj i) addr w = None"
proof (induction n)
  case (Suc n)
  with assms show ?case by (simp add: via_member_def)
qed simp

theorem self_selector_diverges_witness:
  "7 < length (heap demo_world) \<and> connect demo_net 1000 (PObj 7) ''h:80'' demo_world = None"
  using self_selector_diverges [of 7 demo_world "demo_cfg ''x'' [''x'']" "''x''" demo_net 1000 "''h:80''"]
  by simp

section \<open>Members that are remote proxies\<close>

text \<open>The common case: every member or hop is a remote proxy on the heap.\<close>

definition leaf_at :: "world \<Rightarrow> pref \<Rightarrow> (leaf_kind \<times> proxy_cfg) option" where
  "leaf_at w p = (case p of
       PObj i \<Rightarrow> (if i < length (heap w) then
                   (case heap w ! i of OLeaf k c \<Rightarrow> Some (k, c) | _ \<Rightarrow> None) else None)
     | _ \<Rightarrow> None)"

lemma leaf_at_frame: "heap w' = heap w \<Longrightarrow> leaf_at w' p = leaf_at w p"
  by (simp add: leaf_at_def split: pref.splits)

lemma connect_leaf:
  "leaf_at w p = Some (k, c) \<Longrightarrow> connect net (Suc n) p addr w = leaf_connect net k c addr w"
  by (cases p) (auto simp: leaf_at_def split: if_splits obj.splits)

lemma server_addr_leaf: "leaf_at w p = Some (k, c) \<Longrightarrow> server_addr_of w p = server_addr c"
  by (auto simp: leaf_at_def server_addr_of_def split: pref.splits if_splits obj.splits)

lemma server_addr_nonempty: "server_addr c \<noteq> []"
  by (simp add: server_addr_def join_host_port_def)

text \<open>One call of a remote proxy: what the network sees of it, and how it ends.\<close>

definition hop_attempt :: "net \<Rightarrow> nat \<Rightarrow> leaf_kind \<times> proxy_cfg \<Rightarrow> string \<Rightarrow> event list \<times> bool option" where
  "hop_attempt net t l addr = (case l of (k, c) \<Rightarrow>
     (case leaf_dial net t k c addr of
        Inl e \<Rightarrow> ([Dial (c_name c) addr t False], Some False)
      | Inr _ \<Rightarrow> (case run_stages (leaf_stage net t k c addr) (leaf_stages k c) of
            Established \<Rightarrow> ([Dial (c_name c) addr t True], Some True)
          | FailedClosed e \<Rightarrow> ([Dial (c_name c) addr t True, Close t], Some False)
          | FailedOpen e \<Rightarrow> ([Dial (c_name c) addr t True], Some False)
          | Stuck \<Rightarrow> ([Dial (c_name c) addr t True], None))))"

lemma attempt_up: "hop_attempt net t l addr = (es, Some True) \<Longrightarrow> es = [Dial (c_name (snd l)) addr t True]"
  by (auto simp: hop_attempt_def split: prod.splits sum.splits leaf_end.splits)

lemma leaf_hop_attempt:
  assumes "hop_attempt net (tick w) (k, c) addr = (es, r)"
  shows "case r of
      None \<Rightarrow> leaf_connect net k c addr w = None
    | Some up \<Rightarrow> (\<exists>w' res. leaf_connect net k c addr w = Some (w', res) \<and> trace w' = trace w @ es \<and>
        tick w' = Suc (tick w) \<and> heap w' = heap w \<and> names w' = names w \<and>
        (if up then res = Inr (tick w) else \<exists>e. res = Inl e))"
  using assms
  by (auto simp: hop_attempt_def leaf_connect_def Let_def split: sum.splits leaf_end.splits)

text \<open>
  What a chain does, from the hops as the chain sees them: None is a hop without a server
  address, which only a remote proxy has. A hop is asked for the server of the next one, the
  last for the destination; a hop before one without an address is not asked at all. The result
  is None when a hop waits for ever, else the events and the connection, if there is one.
\<close>

fun chain_run ::
    "net \<Rightarrow> (leaf_kind \<times> proxy_cfg) option list \<Rightarrow> string \<Rightarrow> nat \<Rightarrow> (event list \<times> nat option) option" where
  "chain_run net (Some l # Some d # ls) addr t = (case hop_attempt net t l (server_addr (snd d)) of
       (es, None) \<Rightarrow> None
     | (es, Some False) \<Rightarrow> Some (es, None)
     | (es, Some True) \<Rightarrow> (case chain_run net (Some d # ls) addr (Suc t) of
           None \<Rightarrow> None
         | Some (es', r) \<Rightarrow> Some (es @ Close t # es', r)))"
| "chain_run net [Some l] addr t = (case hop_attempt net t l addr of
       (es, None) \<Rightarrow> None
     | (es, Some up) \<Rightarrow> Some (es, if up then Some t else None))"
| "chain_run net _ addr t = Some ([], None)"

definition hop_of :: "world \<Rightarrow> pref \<Rightarrow> (leaf_kind \<times> proxy_cfg) option \<Rightarrow> bool" where
  "hop_of w p l \<longleftrightarrow> leaf_at w p = l \<and> (l = None \<longrightarrow> server_addr_of w p = [])"

lemma hop_of_cong: "heap w' = heap w \<Longrightarrow> hop_of w' = hop_of w"
  by (auto simp: hop_of_def leaf_at_def server_addr_of_def fun_eq_iff split: pref.splits)

lemma hop_address: "hop_of w p l \<Longrightarrow> server_addr_of w p = (case l of None \<Rightarrow> [] | Some (k, c) \<Rightarrow> server_addr c)"
  using server_addr_leaf by (auto simp: hop_of_def split: option.splits)

lemma chain_loop_run:
  assumes "list_all2 (hop_of w) hops ls" "ls \<noteq> []" "hd ls \<noteq> None"
  shows "case chain_run net ls addr (tick w) of
      None \<Rightarrow> chain_loop (connect net (Suc n)) nm i hops addr w = None
    | Some (es, r) \<Rightarrow> (\<exists>w' res. chain_loop (connect net (Suc n)) nm i hops addr w = Some (w', res) \<and>
        trace w' = trace w @ es \<and> (case r of None \<Rightarrow> \<exists>e. res = Inl e | Some c \<Rightarrow> res = Inr c))"
  using assms
proof (induction hops arbitrary: w i ls)
  case (Cons h rest)
  from Cons.prems obtain k c ls' where ls: "ls = Some (k, c) # ls'"
    by (cases ls; cases "hd ls") auto
  have h: "leaf_at w h = Some (k, c)" and rest: "list_all2 (hop_of w) rest ls'"
    using Cons.prems(1) by (simp_all add: ls hop_of_def [of w h])
  note run = connect_leaf [OF h, where net = net and n = n]
  show ?case
  proof (cases rest)
    case Nil
    then have "ls' = []" using rest by simp
    obtain es r where att: "hop_attempt net (tick w) (k, c) addr = (es, r)" by fastforce
    from leaf_hop_attempt [OF att] Nil \<open>ls' = []\<close> show ?thesis
      by (cases r) (auto simp: ls run att simp del: connect.simps split: sum.splits)
  next
    case (Cons nx rest')
    then obtain d ls'' where ls': "ls' = d # ls''" and nx: "hop_of w nx d"
      using rest by (auto simp: list_all2_Cons1)
    show ?thesis
    proof (cases d)
      case None
      with Cons nx show ?thesis by (simp add: ls ls' hop_address)
    next
      case (Some kd)
      let ?tgt = "server_addr (snd kd)"
      have tgt: "server_addr_of w nx = ?tgt" using nx Some by (auto simp: hop_address split: prod.splits)
      obtain es r where att: "hop_attempt net (tick w) (k, c) ?tgt = (es, r)" by fastforce
      note la = leaf_hop_attempt [OF att]
      show ?thesis
      proof (cases r)
        case None
        with la Cons tgt Some show ?thesis
          by (simp add: ls ls' att run server_addr_nonempty del: connect.simps)
      next
        case up: (Some up)
        from la [unfolded up option.case] obtain w1 res1 where w1: "leaf_connect net k c ?tgt w = Some (w1, res1)"
          "trace w1 = trace w @ es" "tick w1 = Suc (tick w)" "heap w1 = heap w"
          "if up then res1 = Inr (tick w) else \<exists>e. res1 = Inl e" by blast
        show ?thesis
        proof (cases up)
          case False
          with w1 Cons tgt Some up show ?thesis
            by (auto simp: ls ls' att run server_addr_nonempty simp del: connect.simps)
        next
          case True
          let ?w = "note_event (Close (tick w)) w1"
          have "list_all2 (hop_of ?w) rest ls'"
            using rest hop_of_cong [of ?w w] w1(4) by simp
          from Cons.IH [OF this, of "i + 1"] ls' Some have ih: "case chain_run net ls' addr (Suc (tick w)) of
              None \<Rightarrow> chain_loop (connect net (Suc n)) nm (i + 1) rest addr ?w = None
            | Some (es, r) \<Rightarrow> (\<exists>w' res. chain_loop (connect net (Suc n)) nm (i + 1) rest addr ?w = Some (w', res) \<and>
                trace w' = trace ?w @ es \<and> (case r of None \<Rightarrow> \<exists>e. res = Inl e | Some c \<Rightarrow> res = Inr c))"
            by (simp add: w1(3))
          have step: "chain_loop (connect net (Suc n)) nm i (h # rest) addr w =
              chain_loop (connect net (Suc n)) nm (i + 1) rest addr ?w"
            using w1(1,5) True Cons tgt by (simp add: run server_addr_nonempty del: connect.simps)
          show ?thesis
            unfolding step using ih w1(2) att up True Some
            by (cases "chain_run net ls' addr (Suc (tick w))") (auto simp: ls ls')
        qed
      qed
    qed
  qed
qed simp

text \<open>
  C14: what a chain does whose first hop is a remote proxy and whose other hops are remote
  proxies or have no server address. It asks the hops left to right, each for the server of the
  next and the last for the destination, and closes every intermediate connection before the next
  dial; a hop that fails ends it with an error, a hop whose successor has no address is not
  asked, and a hop that waits keeps it waiting.
\<close>

theorem chain_connect_order:
  assumes "i < length (heap w)" and "heap w ! i = OChain c hops"
    and "list_all2 (hop_of w) hops ls" and "ls \<noteq> []" and "hd ls \<noteq> None"
  shows "case chain_run net ls addr (tick w) of
      None \<Rightarrow> connect net (Suc (Suc n)) (PObj i) addr w = None
    | Some (es, r) \<Rightarrow> (\<exists>w' res. connect net (Suc (Suc n)) (PObj i) addr w = Some (w', res) \<and>
        trace w' = trace w @ es \<and> (case r of None \<Rightarrow> \<exists>e. res = Inl e | Some x \<Rightarrow> res = Inr x))"
proof -
  have "connect net (Suc (Suc n)) (PObj i) addr w = chain_loop (connect net (Suc n)) (c_name c) 0 hops addr w"
    using assms(1,2) by (simp del: chain_loop.simps)
  then show ?thesis
    using chain_loop_run [OF assms(3-5), where net = net and addr = addr and n = n and nm = "c_name c" and i = 0] by (simp only:)
qed

lemma demo_attempt [simp]: "hop_attempt demo_net t l addr = ([Dial (c_name (snd l)) addr t True], Some True)"
  by (cases l) (simp add: hop_attempt_def)

theorem chain_connect_order_witness:
  "\<exists>w'. connect demo_net (Suc (Suc 0)) (PObj 2) ''h:80'' demo_world = Some (w', Inr 1) \<and>
    trace w' = [Dial ''a'' ''b:1'' 0 True, Close 0, Dial ''b'' ''h:80'' 1 True]"
  using chain_connect_order [of 2 demo_world "demo_cfg ''c'' [''a'', ''b'']" "[PObj 0, PObj 1]"
      "[Some (KSOCKS5, demo_cfg ''a'' []), Some (KHTTP, demo_cfg ''b'' [])]"
      , where net = demo_net and addr = "''h:80''" and n = 0]
  by (simp add: hop_of_def leaf_at_def server_addr_def join_host_port_def del: connect.simps)

text \<open>
  What a failover group does: None is a member that is not registered, or the name \<open>REJECT\<close>,
  for which nothing is dialled. The members are tried in order up to the first that answers;
  one that waits keeps the group waiting.
\<close>

fun failover_run ::
    "net \<Rightarrow> (leaf_kind \<times> proxy_cfg) option list \<Rightarrow> string \<Rightarrow> nat \<Rightarrow> (event list \<times> nat option) option" where
  "failover_run net [] addr t = Some ([], None)"
| "failover_run net (None # ls) addr t = failover_run net ls addr t"
| "failover_run net (Some l # ls) addr t = (case hop_attempt net t l addr of
       (es, None) \<Rightarrow> None
     | (es, Some True) \<Rightarrow> Some (es, Some t)
     | (es, Some False) \<Rightarrow> (case failover_run net ls addr (Suc t) of
           None \<Rightarrow> None | Some (es', r) \<Rightarrow> Some (es @ es', r)))"

definition member_of :: "world \<Rightarrow> string \<Rightarrow> (leaf_kind \<times> proxy_cfg) option \<Rightarrow> bool" where
  "member_of w m l \<longleftrightarrow> (case l of
       None \<Rightarrow> (\<exists>e. reg_get w m = Inl e) \<or> reg_get w m = Inr PReject
     | Some kc \<Rightarrow> (\<exists>p. reg_get w m = Inr p \<and> leaf_at w p = Some kc))"

lemma member_of_cong:
  assumes "heap w' = heap w" "names w' = names w"
  shows "member_of w' = member_of w"
proof -
  have "reg_get w' = reg_get w" by (rule reg_get_cong) (rule assms(2))
  moreover have "leaf_at w' = leaf_at w" using leaf_at_frame [OF assms(1)] by auto
  ultimately show ?thesis by (intro ext) (simp add: member_of_def split: option.split)
qed

lemma failover_loop_run:
  assumes "list_all2 (member_of w) ms ls"
  shows "case failover_run net ls addr (tick w) of
      None \<Rightarrow> failover_loop (connect net (Suc n)) nm ms addr err w = None
    | Some (es, r) \<Rightarrow> (\<exists>w' res. failover_loop (connect net (Suc n)) nm ms addr err w = Some (w', res) \<and>
        trace w' = trace w @ es \<and> (case r of None \<Rightarrow> \<exists>e. res = Inl e | Some c \<Rightarrow> res = Inr c))"
  using assms
proof (induction ms arbitrary: w ls err)
  case (Cons m ms)
  then obtain l ls' where ls: "ls = l # ls'" and l: "member_of w m l" and rest: "list_all2 (member_of w) ms ls'"
    by (auto simp: list_all2_Cons1)
  show ?case
  proof (cases l)
    case None
    then obtain e where "failover_loop (connect net (Suc n)) nm (m # ms) addr err w =
        failover_loop (connect net (Suc n)) nm ms addr (Some e) w"
      using l by (auto simp: member_of_def)
    moreover have "failover_run net ls addr (tick w) = failover_run net ls' addr (tick w)"
      by (simp add: ls None)
    ultimately show ?thesis using Cons.IH [OF rest, of "Some e"] by (simp only:)
  next
    case (Some kc)
    obtain k c where kc: "kc = (k, c)" by (cases kc)
    from l Some kc obtain p where p: "reg_get w m = Inr p" "leaf_at w p = Some (k, c)"
      by (auto simp: member_of_def)
    obtain es r where att: "hop_attempt net (tick w) (k, c) addr = (es, r)" by fastforce
    note la = leaf_hop_attempt [OF att] and run = connect_leaf [OF p(2), where net = net and n = n]
    show ?thesis
    proof (cases r)
      case None
      with la show ?thesis by (simp add: ls Some kc att p(1) run del: connect.simps)
    next
      case up: (Some up)
      from la [unfolded up option.case] obtain w1 res1 where w1: "leaf_connect net k c addr w = Some (w1, res1)"
        "trace w1 = trace w @ es" "tick w1 = Suc (tick w)" "heap w1 = heap w" "names w1 = names w"
        "if up then res1 = Inr (tick w) else \<exists>e. res1 = Inl e" by blast
      show ?thesis
      proof (cases up)
        case True
        with w1 up show ?thesis by (simp add: ls Some kc att p(1) run del: connect.simps)
      next
        case False
        with w1(6) obtain e where e: "res1 = Inl e" by auto
        have "list_all2 (member_of w1) ms ls'"
          using rest member_of_cong [OF w1(4,5)] by simp
        note ih = Cons.IH [OF this, of "Some e", unfolded w1(3)]
        have step: "failover_loop (connect net (Suc n)) nm (m # ms) addr err w =
            failover_loop (connect net (Suc n)) nm ms addr (Some e) w1"
          using w1(1) e p(1) by (simp add: run del: connect.simps)
        show ?thesis
          unfolding step using ih w1(2) att up False
          by (cases "failover_run net ls' addr (Suc (tick w))") (auto simp: ls Some kc)
      qed
    qed
  qed
qed simp

text \<open>
  C9: what a failover group does whose members are remote proxies, \<open>REJECT\<close> or names that are
  not registered. It tries its members in the configured order, each at most once, passing over
  those that it does not find and the rejecting one without a dial, stops at the first one that
  answers and returns its connection; it fails only when every member has failed, and waits as
  long as a member waits.
\<close>

theorem failover_connect_order:
  assumes "i < length (heap w)" and "heap w ! i = OFailover c"
    and "list_all2 (member_of w) (c_proxies c) ls"
  shows "case failover_run net ls addr (tick w) of
      None \<Rightarrow> connect net (Suc (Suc n)) (PObj i) addr w = None
    | Some (es, r) \<Rightarrow> (\<exists>w' res. connect net (Suc (Suc n)) (PObj i) addr w = Some (w', res) \<and>
        trace w' = trace w @ es \<and> (case r of None \<Rightarrow> \<exists>e. res = Inl e | Some x \<Rightarrow> res = Inr x))"
proof -
  have "connect net (Suc (Suc n)) (PObj i) addr w =
      failover_loop (connect net (Suc n)) (c_name c) (c_proxies c) addr None w"
    using assms(1,2) by (simp del: failover_loop.simps)
  then show ?thesis
    using failover_loop_run [OF assms(3), where net = net and addr = addr and n = n and nm = "c_name c" and err = None] by (simp only:)
qed

theorem failover_connect_order_witness:
  "\<exists>w' res. connect demo_net (Suc (Suc 0)) (PObj 3) ''h:80'' demo_world = Some (w', res) \<and>
     trace w' = [Dial ''a'' ''h:80'' 0 True] \<and> res = Inr 0"
  using failover_connect_order [of 3 demo_world "demo_cfg ''f'' [''a'', ''b'']"
      "[Some (KSOCKS5, demo_cfg ''a'' []), Some (KHTTP, demo_cfg ''b'' [])]"
      , where net = demo_net and addr = "''h:80''" and n = 0]
  by (simp add: member_of_def leaf_at_def del: connect.simps)

end
