(* ===== verification/Proxy_Probe.thy ===== *)
theory Proxy_Probe
  imports Proxy_Groups "HOL-Library.Multiset"
begin

text \<open>
  The operations that measure and select: \<open>SetChoice\<close> of a selector, \<open>Latency\<close> of every
  proxy, \<open>PickBest\<close> and \<open>Probe\<close> of a URL-test group, and the \<open>FailoverProxy\<close> of
  \<open>proxy/failover.go\<close>; then what one call after another of a round-robin group dials.
\<close>

section \<open>Selector\<close>

text \<open>\<open>SetChoice\<close>: the name has to be known, and is stored in lower case.\<close>

definition set_choice :: "nat \<Rightarrow> string \<Rightarrow> world \<Rightarrow> world \<times> perr option" where
  "set_choice i nm w = (case heap w ! i of
       OSelector c ch \<Rightarrow> (case reg_get w nm of
           Inl e \<Rightarrow> (w, Some (InGroup nm e))
         | Inr p \<Rightarrow> (set_obj i (OSelector c (to_lower nm)) w, None))
     | _ \<Rightarrow> (w, None))"

section \<open>Latency\<close>

type_synonym lat_result = "world \<times> (perr + int)"

text \<open>\<open>Direct.Latency\<close>: a URL without a colon gets port 443; the connection is closed at once.\<close>

definition direct_latency :: "net \<Rightarrow> string \<Rightarrow> world \<Rightarrow> lat_result" where
  "direct_latency net url w =
     (case direct_connect net (if contains url '':'' then url else url @ '':443'') w of
        (w', Inl e) \<Rightarrow> (w', Inl e)
      | (w', Inr c) \<Rightarrow> (note_event (Close c) w', Inr (elapsed net (tick w'))))"

type_synonym meter = "pref \<Rightarrow> string \<Rightarrow> world \<Rightarrow> lat_result option"

fun chain_latency :: "meter \<Rightarrow> string \<Rightarrow> int \<Rightarrow> pref list \<Rightarrow> string \<Rightarrow> world \<Rightarrow> lat_result option" where
  "chain_latency k nm acc [] url w = Some (w, Inr acc)"
| "chain_latency k nm acc (h # hs) url w = (case k h url w of
       None \<Rightarrow> None
     | Some (w', Inl e) \<Rightarrow> Some (w', Inl (InGroup nm e))
     | Some (w', Inr l) \<Rightarrow> chain_latency k nm (acc + l) hs url w')"

definition member_latency :: "meter \<Rightarrow> string \<Rightarrow> string \<Rightarrow> world \<Rightarrow> lat_result option" where
  "member_latency k m url w =
     (case reg_get w m of Inl e \<Rightarrow> Some (w, Inl e) | Inr p \<Rightarrow> k p url w)"

text \<open>Round-robin, failover and load-balance groups measure their first member.\<close>

definition first_latency :: "meter \<Rightarrow> proxy_cfg \<Rightarrow> string \<Rightarrow> world \<Rightarrow> lat_result option" where
  "first_latency k c url w =
     (case c_proxies c of [] \<Rightarrow> Some (w, Inl (NoProxies [])) | m # _ \<Rightarrow> member_latency k m url w)"

definition urltest_latency :: "meter \<Rightarrow> nat \<Rightarrow> string \<Rightarrow> string \<Rightarrow> world \<Rightarrow> lat_result option" where
  "urltest_latency k i best url w = (case reg_get w best of
       Inl e \<Rightarrow> Some (w, Inl e)
     | Inr p \<Rightarrow> (case k p url w of
         None \<Rightarrow> None
       | Some (w', Inr l) \<Rightarrow> Some (w', Inr l)
       | Some (w', Inl e) \<Rightarrow> Some (mark_failed i best w', Inl e)))"

fun latency :: "net \<Rightarrow> nat \<Rightarrow> pref \<Rightarrow> string \<Rightarrow> world \<Rightarrow> lat_result option" where
  "latency net 0 p url w = None"
| "latency net (Suc n) PDirect url w = Some (direct_latency net url w)"
| "latency net (Suc n) PReject url w = Some (w, Inl Rejected)"
| "latency net (Suc n) (PObj i) url w =
     (if length (heap w) \<le> i then Some (w, Inl (NotFound []))
      else case heap w ! i of
        ODirect \<Rightarrow> Some (direct_latency net url w)
      | OLeaf k c \<Rightarrow> Some (bump w, (case leaf_latency net (tick w) k c url of
            Inl e \<Rightarrow> Inl (NetError e) | Inr l \<Rightarrow> Inr l))
      | OSelector c ch \<Rightarrow> member_latency (latency net n) ch url w
      | OURLTest c best lat failed \<Rightarrow> urltest_latency (latency net n) i best url w
      | ORoundRobin c idx \<Rightarrow> first_latency (latency net n) c url w
      | OChain c hops \<Rightarrow> chain_latency (latency net n) (c_name c) 0 hops url w
      | OFailover c \<Rightarrow> first_latency (latency net n) c url w
      | OLoadBalance c \<Rightarrow> first_latency (latency net n) c url w)"

section \<open>URL-test groups\<close>

text \<open>\<open>PickBest\<close>: the current choice unless it is marked, else the first unmarked member.\<close>

definition is_failed :: "(string \<rightharpoonup> bool) \<Rightarrow> string \<Rightarrow> bool" where
  "is_failed failed nm \<longleftrightarrow> failed nm = Some True"

definition pick_best :: "nat \<Rightarrow> world \<Rightarrow> world \<times> (perr + string)" where
  "pick_best i w = (case heap w ! i of
       OURLTest c best lat failed \<Rightarrow>
         (if best \<noteq> [] \<and> \<not> is_failed failed best then (w, Inr best)
          else case filter (\<lambda>m. \<not> is_failed failed m) (c_proxies c) of
            [] \<Rightarrow> (w, Inl (NoProxies (c_name c)))
          | m # _ \<Rightarrow> (set_obj i (OURLTest c m lat failed) w, Inr m))
     | _ \<Rightarrow> (w, Inl (NotFound [])))"

text \<open>
  One round of \<open>Probe\<close>. The goroutines measure the members in some order, the argument
  \<open>order\<close> (a permutation of the members), and a result is a name, a latency and whether there
  was an error. They append to the slice \<open>results\<close> without a lock: two appends that read the same
  slice leave one result of the two, or an append that has read it early takes later ones away
  again. Each result is appended once, so that what the slice holds at the end is some of the
  results, each at most once, in some order: the results at the positions \<open>keep\<close>. A slice whose
  pointer and length come from two different appends is outside of the model.
\<close>

type_synonym probe_result = "string \<times> int \<times> bool"

fun probe_members :: "meter \<Rightarrow> string list \<Rightarrow> string \<Rightarrow> world \<Rightarrow> (world \<times> probe_result list) option" where
  "probe_members k [] url w = Some (w, [])"
| "probe_members k (m # ms) url w = (case member_latency k m url w of
       None \<Rightarrow> None
     | Some (w', r) \<Rightarrow> (case probe_members k ms url w' of
         None \<Rightarrow> None
       | Some (w'', rs) \<Rightarrow>
           Some (w'', (m, (case r of Inl _ \<Rightarrow> 0 | Inr l \<Rightarrow> l), (case r of Inl _ \<Rightarrow> True | Inr _ \<Rightarrow> False)) # rs)))"

text \<open>
  The comparison given to \<open>sort.Slice\<close>, and the insertion sort that it is for up to twelve
  elements. Nothing below rests on the sort being stable.
\<close>

definition probe_less :: "probe_result \<Rightarrow> probe_result \<Rightarrow> bool" where
  "probe_less a b = (case (a, b) of ((_, la, ea), (_, lb, eb)) \<Rightarrow>
     (if ea then False else if eb then True else la < lb))"

fun insert_result :: "probe_result \<Rightarrow> probe_result list \<Rightarrow> probe_result list" where
  "insert_result r [] = [r]"
| "insert_result r (s # rs) = (if probe_less s r then s # insert_result r rs else r # s # rs)"

definition sort_results :: "probe_result list \<Rightarrow> probe_result list" where
  "sort_results rs = foldr insert_result rs []"

fun record_results ::
    "probe_result list \<Rightarrow> (string \<rightharpoonup> int) \<times> (string \<rightharpoonup> bool) \<Rightarrow> (string \<rightharpoonup> int) \<times> (string \<rightharpoonup> bool)" where
  "record_results [] m = m"
| "record_results ((nm, l, e) # rs) (lat, failed) =
     record_results rs (lat(nm \<mapsto> l), failed(nm \<mapsto> e))"

definition apply_results :: "nat \<Rightarrow> probe_result list \<Rightarrow> world \<Rightarrow> world" where
  "apply_results i rs w = (case heap w ! i of
       OURLTest c best lat failed \<Rightarrow>
         (let (lat', failed') = record_results rs (lat, failed);
              best' = (case filter (\<lambda>(_, _, e). \<not> e) rs of [] \<Rightarrow> best | (nm, _, _) # _ \<Rightarrow> nm)
          in set_obj i (OURLTest c best' lat' failed') w)
     | _ \<Rightarrow> w)"

definition kept_results :: "nat list \<Rightarrow> 'a list \<Rightarrow> 'a list" where
  "kept_results keep rs = map ((!) rs) (filter (\<lambda>j. j < length rs) keep)"

definition probe_url :: "proxy_cfg \<Rightarrow> string" where
  "probe_url c = (if c_url c = [] then ''https://www.gstatic.com/generate_204'' else c_url c)"

definition probe_round :: "net \<Rightarrow> nat \<Rightarrow> nat \<Rightarrow> string list \<Rightarrow> nat list \<Rightarrow> world \<Rightarrow> world option" where
  "probe_round net n i order keep w = (case heap w ! i of
       OURLTest c best lat failed \<Rightarrow>
         (case probe_members (latency net n) order (probe_url c) w of
            None \<Rightarrow> None
          | Some (w', rs) \<Rightarrow> Some (apply_results i (sort_results (kept_results keep rs)) w'))
     | _ \<Rightarrow> None)"

section \<open>FailoverProxy\<close>

text \<open>\<open>proxy/failover.go\<close>: a primary proxy, if there is one, and its fallbacks.\<close>

record failover_proxy =
  fp_name :: string
  fp_primary :: "pref option"
  fp_fallback :: "pref list"

definition fp_members :: "failover_proxy \<Rightarrow> pref list" where
  "fp_members f = (case fp_primary f of None \<Rightarrow> [] | Some p \<Rightarrow> [p]) @ fp_fallback f"

fun fp_loop :: "connector \<Rightarrow> string \<Rightarrow> pref list \<Rightarrow> string \<Rightarrow> perr option \<Rightarrow> world \<Rightarrow> conn_result option" where
  "fp_loop k nm [] addr err w =
     Some (w, Inl (case err of None \<Rightarrow> NoProxies nm | Some e \<Rightarrow> AllFailed nm e))"
| "fp_loop k nm (p # ps) addr err w = (case k p addr w of
       None \<Rightarrow> None
     | Some (w', Inr c) \<Rightarrow> Some (w', Inr c)
     | Some (w', Inl e) \<Rightarrow> fp_loop k nm ps addr (Some e) w')"

definition fp_connect :: "connector \<Rightarrow> failover_proxy \<Rightarrow> string \<Rightarrow> world \<Rightarrow> conn_result option" where
  "fp_connect k f addr w = fp_loop k (fp_name f) (fp_members f) addr None w"

definition fp_latency :: "meter \<Rightarrow> failover_proxy \<Rightarrow> string \<Rightarrow> world \<Rightarrow> lat_result option" where
  "fp_latency k f url w = (case fp_primary f of
       None \<Rightarrow> Some (w, Inl (NoProxies [])) | Some p \<Rightarrow> k p url w)"

definition fp_set_fallback :: "failover_proxy \<Rightarrow> pref list \<Rightarrow> failover_proxy" where
  "fp_set_fallback f ps = f\<lparr>fp_fallback := ps\<rparr>"

section \<open>What a probe leaves\<close>

text \<open>Measuring writes failure marks only: the objects stay the same but for those.\<close>

definition same_but_marks :: "obj \<Rightarrow> obj \<Rightarrow> bool" where
  "same_but_marks a b = (case a of
       OURLTest c best lat f \<Rightarrow> (case b of
           OURLTest c' best' lat' f' \<Rightarrow> c' = c \<and> best' = best \<and> lat' = lat | _ \<Rightarrow> False)
     | _ \<Rightarrow> b = a)"

definition marks_only :: "world \<Rightarrow> world \<Rightarrow> bool" where
  "marks_only w w' \<longleftrightarrow> names w' = names w \<and> length (heap w') = length (heap w) \<and>
     (\<forall>i < length (heap w). same_but_marks (heap w ! i) (heap w' ! i))"

lemma same_but_marks_refl [simp]: "same_but_marks a a"
  by (simp add: same_but_marks_def split: obj.splits)

lemma same_but_marks_urltest:
  "same_but_marks (OURLTest c best lat f) b \<Longrightarrow> \<exists>f'. b = OURLTest c best lat f'"
  by (simp add: same_but_marks_def split: obj.splits)

lemma same_but_marks_trans: "same_but_marks a b \<Longrightarrow> same_but_marks b c \<Longrightarrow> same_but_marks a c"
  by (auto simp: same_but_marks_def split: obj.splits)

lemma marks_only_frame: "heap w' = heap w \<Longrightarrow> names w' = names w \<Longrightarrow> marks_only w w'"
  by (simp add: marks_only_def)

lemma marks_only_refl [simp]: "marks_only w w"
  by (simp add: marks_only_frame)

lemma marks_only_trans: "marks_only w w' \<Longrightarrow> marks_only w' w'' \<Longrightarrow> marks_only w w''"
  using same_but_marks_trans by (fastforce simp: marks_only_def)

lemma marks_only_mark_failed: "marks_only w (mark_failed i nm w)"
  by (cases "i < length (heap w)")
    (auto simp: marks_only_def mark_failed_def same_but_marks_def nth_list_update split: obj.splits)

definition marks_only_meter :: "meter \<Rightarrow> bool" where
  "marks_only_meter k \<longleftrightarrow> (\<forall>p url w w' r. k p url w = Some (w', r) \<longrightarrow> marks_only w w')"

lemma marks_only_meterD: "marks_only_meter k \<Longrightarrow> k p url w = Some (w', r) \<Longrightarrow> marks_only w w'"
  unfolding marks_only_meter_def by blast

lemma marks_only_chain:
  "marks_only_meter k \<Longrightarrow> chain_latency k nm acc hs url w = Some (w', r) \<Longrightarrow> marks_only w w'"
proof (induction hs arbitrary: acc w)
  case (Cons h hs)
  then show ?case
    by (auto split: option.splits prod.splits sum.splits dest: marks_only_meterD
        intro: marks_only_trans)
qed simp

lemma marks_only_member:
  "marks_only_meter k \<Longrightarrow> member_latency k m url w = Some (w', r) \<Longrightarrow> marks_only w w'"
  by (auto simp: member_latency_def split: sum.splits dest: marks_only_meterD)

lemma marks_only_first:
  "marks_only_meter k \<Longrightarrow> first_latency k c url w = Some (w', r) \<Longrightarrow> marks_only w w'"
  by (auto simp: first_latency_def split: list.splits dest: marks_only_member)

lemma marks_only_urltest:
  "marks_only_meter k \<Longrightarrow> urltest_latency k i best url w = Some (w', r) \<Longrightarrow> marks_only w w'"
  by (auto simp: urltest_latency_def split: sum.splits option.splits prod.splits
      dest: marks_only_meterD intro: marks_only_trans marks_only_mark_failed)

lemma direct_try_frame:
  "heap (fst (direct_try net a p ips w)) = heap w \<and> names (fst (direct_try net a p ips w)) = names w"
  by (induction net a p ips w rule: direct_try.induct) (auto simp: Let_def split: sum.splits)

lemma direct_connect_frame:
  "direct_connect net addr w = (w', r) \<Longrightarrow> heap w' = heap w \<and> names w' = names w"
  using direct_try_frame
  by (auto simp: direct_connect_def split: option.splits sum.splits) (metis fst_conv bump_simps(3,4))+

lemma marks_only_direct: "direct_latency net url w = (w', r) \<Longrightarrow> marks_only w w'"
  by (auto simp: direct_latency_def split: prod.splits sum.splits if_splits
      dest!: direct_connect_frame intro!: marks_only_frame)

lemma marks_only_latency: "marks_only_meter (latency net n)"
proof (induction n)
  case 0
  then show ?case by (simp add: marks_only_meter_def)
next
  case (Suc n)
  note rules = marks_only_chain [OF Suc] marks_only_member [OF Suc] marks_only_first [OF Suc]
    marks_only_urltest [OF Suc]
  have "marks_only w w'" if "latency net (Suc n) p url w = Some (w', r)" for p url w w' r
    using that
    by (cases p) (auto split: if_splits obj.splits dest: rules marks_only_direct
        intro: marks_only_frame)
  then show ?case by (simp add: marks_only_meter_def)
qed

lemma marks_only_probe_members:
  "probe_members (latency net n) ms url w = Some (w', rs) \<Longrightarrow> marks_only w w'"
proof (induction ms arbitrary: w rs)
  case (Cons m ms)
  then obtain v r rs' where "member_latency (latency net n) m url w = Some (v, r)"
    and "probe_members (latency net n) ms url v = Some (w', rs')"
    by (auto split: option.splits)
  then show ?case
    using marks_only_member [OF marks_only_latency] Cons.IH marks_only_trans by blast
qed simp

lemma probe_members_names:
  "probe_members k ms url w = Some (w', rs) \<Longrightarrow> map fst rs = ms"
  by (induction ms arbitrary: w rs) (auto split: option.splits)

lemma set_insert_result [simp]: "set (insert_result r rs) = insert r (set rs)"
  by (induction rs) auto

lemma set_sort_results [simp]: "set (sort_results rs) = set rs"
  by (induction rs) (simp_all add: sort_results_def)

lemma probe_less_trans2: "\<not> probe_less b a \<Longrightarrow> \<not> probe_less c b \<Longrightarrow> \<not> probe_less c a"
  by (auto simp: probe_less_def split: if_splits prod.splits)

lemma sorted_insert_result:
  "sorted_wrt (\<lambda>a b. \<not> probe_less b a) rs \<Longrightarrow> sorted_wrt (\<lambda>a b. \<not> probe_less b a) (insert_result r rs)"
proof (induction rs)
  case (Cons s rs)
  have "\<not> probe_less r s" if "probe_less s r"
    using that by (auto simp: probe_less_def split: if_splits prod.splits)
  moreover have "\<not> probe_less x r" if "\<not> probe_less s r" "\<not> probe_less x s" for x
    using that probe_less_trans2 by blast
  ultimately show ?case
    using Cons by auto
qed simp

lemma sorted_sort_results: "sorted_wrt (\<lambda>a b. \<not> probe_less b a) (sort_results rs)"
  by (induction rs) (simp_all add: sort_results_def sorted_insert_result)

text \<open>The first success of a sorted list is a fastest one.\<close>

lemma first_success_fastest:
  assumes "sorted_wrt (\<lambda>a b. \<not> probe_less b a) rs" "filter (\<lambda>(_, _, e). \<not> e) rs = (nm, l, e) # rest"
  shows "(nm, l, False) \<in> set rs \<and> (\<forall>m l'. (m, l', False) \<in> set rs \<longrightarrow> l \<le> l')"
  using assms
proof (induction rs)
  case (Cons r rs)
  show ?case
  proof (cases "snd (snd r)")
    case True
    with Cons show ?thesis by (cases r) auto
  next
    case False
    with Cons.prems have r: "r = (nm, l, False)" by (cases r) auto
    have "l \<le> l'" if "(m, l', False) \<in> set rs" for m l'
      using Cons.prems(1) r that by (force simp: probe_less_def)
    with r show ?thesis by auto
  qed
qed simp

lemma record_results_eq:
  "record_results rs (lat, failed) =
     (lat ++ map_of (rev (map (\<lambda>(m, l, e). (m, l)) rs)),
      failed ++ map_of (rev (map (\<lambda>(m, l, e). (m, e)) rs)))"
  by (induction rs arbitrary: lat failed) (auto simp: map_add_def fun_eq_iff split: option.splits)

lemma map_of_rev_results:
  assumes "distinct (map fst rs)" "(m, l, e) \<in> set rs"
  shows "map_of (rev (map (\<lambda>(m, l, e). (m, e)) rs)) m = Some e"
proof -
  let ?f = "\<lambda>(m, l, e). (m, e)"
  have "map fst (map ?f rs) = map fst rs" by auto
  then have "distinct (map fst (rev (map ?f rs)))"
    using assms(1) by (simp only: rev_map [symmetric] distinct_rev)
  moreover have "(m, e) \<in> set (rev (map ?f rs))"
    using assms(2) by force
  ultimately show ?thesis by simp
qed

lemma mset_sort_results: "mset (sort_results rs) = mset rs"
proof -
  have "mset (insert_result r xs) = mset (r # xs)" for r xs
    by (induction xs) auto
  then show ?thesis
    by (induction rs) (simp_all add: sort_results_def)
qed

lemma distinct_sort_results: "distinct (map fst rs) \<Longrightarrow> distinct (map fst (sort_results rs))"
  using mset_eq_imp_distinct_iff [of "map fst (sort_results rs)" "map fst rs"]
  by (simp add: mset_sort_results)

text \<open>
  The right choice after a round, and the right marks: the fastest member that answered, the
  old choice when none did; a mark on exactly those that did not answer.
\<close>

definition right_choice :: "probe_result list \<Rightarrow> string \<Rightarrow> string \<Rightarrow> bool" where
  "right_choice rs old best \<longleftrightarrow>
     (if \<forall>r \<in> set rs. snd (snd r) then best = old
      else \<exists>l. (best, l, False) \<in> set rs \<and> (\<forall>m l'. (m, l', False) \<in> set rs \<longrightarrow> l \<le> l'))"

definition right_marks :: "probe_result list \<Rightarrow> (string \<rightharpoonup> bool) \<Rightarrow> bool" where
  "right_marks rs failed \<longleftrightarrow> (\<forall>r \<in> set rs. is_failed failed (fst r) = snd (snd r))"

lemma apply_results_best:
  assumes "i < length (heap w)" "heap w ! i = OURLTest c old lat failed" "distinct (map fst rs)"
  shows "\<exists>best lat' failed'.
    heap (apply_results i (sort_results rs) w) ! i = OURLTest c best lat' failed' \<and>
    right_choice rs old best \<and> right_marks rs failed' \<and>
    (\<forall>m. m \<notin> fst ` set rs \<longrightarrow> is_failed failed' m = is_failed failed m)"
proof -
  let ?rs = "sort_results rs"
  obtain lat' failed' where rec: "record_results ?rs (lat, failed) = (lat', failed')"
    by (cases "record_results ?rs (lat, failed)")
  have "is_failed failed' m = e" if "(m, l, e) \<in> set rs" for m l e
    using map_of_rev_results [OF distinct_sort_results [OF assms(3)], of m l e] that rec
    by (auto simp: record_results_eq is_failed_def map_add_def)
  then have marks: "right_marks rs failed'"
    by (auto simp: right_marks_def)
  have others: "is_failed failed' m = is_failed failed m" if "m \<notin> fst ` set rs" for m
  proof -
    have "m \<notin> fst ` set (rev (map (\<lambda>(m, l, e). (m, e)) ?rs))"
      using that by force
    then have "map_of (rev (map (\<lambda>(m, l, e). (m, e)) ?rs)) m = None"
      by (simp only: map_of_eq_None_iff not_False_eq_True)
    with rec show ?thesis
      by (auto simp: record_results_eq is_failed_def map_add_def)
  qed
  show ?thesis
  proof (cases "filter (\<lambda>(_, _, e). \<not> e) ?rs")
    case Nil
    then have "\<forall>r \<in> set rs. snd (snd r)"
      by (auto simp: filter_empty_conv split: prod.splits)
    with Nil assms(1,2) rec marks others show ?thesis
      by (simp add: apply_results_def right_choice_def)
  next
    case (Cons r rest)
    obtain nm l e where r: "r = (nm, l, e)" by (cases r)
    have first: "(nm, l, False) \<in> set rs \<and> (\<forall>m l'. (m, l', False) \<in> set rs \<longrightarrow> l \<le> l')"
      using first_success_fastest [OF sorted_sort_results Cons [unfolded r]] by simp
    then have "right_choice rs old nm"
      unfolding right_choice_def by force
    with Cons r assms(1,2) rec marks others show ?thesis
      by (simp add: apply_results_def)
  qed
qed

lemma kept_names:
  assumes "map fst rs = order" "distinct order" "distinct keep" "set keep \<subseteq> {..<length order}"
  shows "map fst (kept_results keep rs) = kept_results keep order" "distinct (map fst (kept_results keep rs))"
proof -
  have len: "length order = length rs" using assms(1) by auto
  have "filter (\<lambda>j. j < length rs) keep = keep"
    using assms(4) len by (auto simp: filter_id_conv)
  then have k: "kept_results keep rs = map ((!) rs) keep" "kept_results keep order = map ((!) order) keep"
    by (simp_all add: kept_results_def len)
  show names: "map fst (kept_results keep rs) = kept_results keep order"
    using assms(4) len unfolding k unfolding assms(1) [symmetric] by (auto simp: nth_map)
  show "distinct (map fst (kept_results keep rs))"
    unfolding names k(2) distinct_map using assms(2-4) by (auto simp: inj_on_def nth_eq_iff_index_eq subset_iff)
qed


lemma demo_probe_members:
  "probe_members (latency demo_net (Suc 0)) [''b'', ''a''] (probe_url (demo_cfg ''u'' [''a'', ''b''])) demo_world =
    Some (bump (bump demo_world), [(''b'', 10, False), (''a'', 20, False)])"
  by (simp add: member_latency_def demo_net_def bump_def)


text \<open>
  Two members of which one does not answer, and the appends of the two have met: the mark of
  the failed one is lost with its result.
\<close>

lemma lost_result_unmarked:
  "kept_results [0] [(''b'', 10, False), (''a'', 0, True)] = [(''b'', 10 :: int, False)]"
  by (simp add: kept_results_def)

text \<open>
  \<open>PickBest\<close> answers with an unmarked name and remembers it, and it fails exactly when
  the current choice and all members are marked.
\<close>

theorem pick_best_correct:
  assumes "i < length (heap w)" and "heap w ! i = OURLTest c best lat failed"
  shows "case pick_best i w of
      (w', Inr m) \<Rightarrow> \<not> is_failed failed m \<and> heap w' ! i = OURLTest c m lat failed
    | (w', Inl e) \<Rightarrow> w' = w \<and> (best = [] \<or> is_failed failed best) \<and>
        (\<forall>m \<in> set (c_proxies c). is_failed failed m)"
proof (cases "best \<noteq> [] \<and> \<not> is_failed failed best")
  case True
  with assms show ?thesis by (simp add: pick_best_def)
next
  case False
  show ?thesis
  proof (cases "filter (\<lambda>m. \<not> is_failed failed m) (c_proxies c)")
    case Nil
    with False assms show ?thesis by (auto simp: pick_best_def filter_empty_conv)
  next
    case (Cons m ms)
    then have "\<not> is_failed failed m"
      by (auto simp: filter_eq_Cons_iff)
    with False Cons assms show ?thesis by (auto simp: pick_best_def)
  qed
qed

theorem pick_best_correct_witness:
  "\<exists>w' m. pick_best 5 demo_world = (w', Inr m) \<and> \<not> is_failed Map.empty m \<and>
    heap w' ! 5 = OURLTest (demo_cfg ''u'' [''a'', ''b'']) m Map.empty Map.empty"
  using pick_best_correct [of 5 demo_world "demo_cfg ''u'' [''a'', ''b'']" "''a''" Map.empty Map.empty]
  by (auto simp: is_failed_def split: prod.splits sum.splits)

section \<open>Choosing in a selector\<close>

lemma reg_get_lower: "reg_get w s = Inr p \<Longrightarrow> reg_get w (to_lower s) = Inr p"
  by (simp add: reg_get_def comp_def split: if_splits option.splits)

text \<open>
  A choice takes effect. \<open>SetChoice\<close> with a known name makes every later \<open>Connect\<close> of the
  selector the \<open>Connect\<close> of that proxy, under any spelling of the name; with an unknown name
  it reports an error and changes nothing.
\<close>

theorem set_choice_connect:
  assumes "i < length (heap w)" and "heap w ! i = OSelector c ch"
  shows "case reg_get w nm of
      Inl e \<Rightarrow> set_choice i nm w = (w, Some (InGroup nm e))
    | Inr p \<Rightarrow> (\<exists>w'. set_choice i nm w = (w', None) \<and> trace w' = trace w \<and>
        connect net (Suc n) (PObj i) addr w' = connect net n p addr w')"
proof (cases "reg_get w nm")
  case (Inr p)
  let ?w = "set_obj i (OSelector c (to_lower nm)) w"
  have "reg_get ?w (to_lower nm) = Inr p"
    using reg_get_lower [OF Inr] reg_get_cong [of ?w w] by simp
  with assms Inr show ?thesis
    by (simp add: set_choice_def via_member_def)
qed (use assms in \<open>simp add: set_choice_def\<close>)

theorem set_choice_connect_witness:
  "\<exists>w'. set_choice 6 ''b'' demo_world = (w', None) \<and> trace w' = [] \<and>
    connect demo_net 2 (PObj 6) ''h:80'' w' = connect demo_net 1 (PObj 1) ''h:80'' w'"
  using set_choice_connect [of 6 demo_world "demo_cfg ''s'' [''a'']" "''a''" "''b''" demo_net 1 "''h:80''"]
  by (simp add: numeral_2_eq_2 del: connect.simps)

section \<open>Round robin over many calls\<close>

fun connect_times :: "net \<Rightarrow> nat \<Rightarrow> pref \<Rightarrow> string \<Rightarrow> nat \<Rightarrow> world \<Rightarrow> world option" where
  "connect_times net n p addr 0 w = Some w"
| "connect_times net n p addr (Suc m) w = (case connect net n p addr w of
       None \<Rightarrow> None | Some (w', r) \<Rightarrow> connect_times net n p addr m w')"

definition dialler :: "event \<Rightarrow> string" where
  "dialler e = (case e of Dial who target c ok \<Rightarrow> who | Close c \<Rightarrow> [])"

definition is_dial :: "event \<Rightarrow> bool" where
  "is_dial e = (case e of Dial who target c ok \<Rightarrow> True | Close c \<Rightarrow> False)"

text \<open>The proxies that are dialled, in order.\<close>

definition diallers :: "event list \<Rightarrow> string list" where
  "diallers es = map dialler (filter is_dial es)"

lemma diallers_append: "diallers (es @ es') = diallers es @ diallers es'"
  by (simp add: diallers_def)

lemma attempt_diallers: "hop_attempt net t l addr = (es, r) \<Longrightarrow> diallers es = [c_name (snd l)]"
  by (auto simp: hop_attempt_def diallers_def dialler_def is_dial_def split: prod.splits sum.splits leaf_end.splits)

lemma responsive_attempt: "responsive net \<Longrightarrow> snd (hop_attempt net t l addr) \<noteq> None"
  using stages_end by (auto simp: hop_attempt_def responsive_def split: prod.splits sum.splits leaf_end.splits)

lemma rr_index_small:
  assumes "unat idx < 2 ^ 63"
  shows "rr_index idx n = unat idx mod n"
proof -
  have "sint idx = int (unat idx)"
  proof -
    have "int (unat idx) < int (2 ^ 63)"
      using assms by (simp only: of_nat_less_iff)
    then have "uint idx < 2 ^ 63" by simp
    then have "signed_take_bit 63 (uint idx) = uint idx"
      by (intro signed_take_bit_int_eq_self) (auto intro: order_trans [OF _ uint_ge_0])
    then show ?thesis by (simp add: sint_uint)
  qed
  then show ?thesis by (simp add: rr_index_def Let_def)
qed


lemma unat_plus_one: "unat idx < 2 ^ 63 \<Longrightarrow> unat (idx + 1 :: 64 word) = unat idx + 1"
  by (simp add: unat_word_ariths)

lemma leaf_at_set_obj:
  assumes "\<And>k c. heap w ! i \<noteq> OLeaf k c" "leaf_at w p = Some l"
  shows "leaf_at (set_obj i ob w) p = Some l"
proof (cases p)
  case (PObj j)
  with assms have "j \<noteq> i"
    by (auto simp: leaf_at_def split: if_splits obj.splits)
  with assms(2) PObj show ?thesis by (auto simp: leaf_at_def split: if_splits)
qed (use assms in \<open>simp_all add: leaf_at_def\<close>)

text \<open>One call, when the members are remote proxies.\<close>

lemma round_robin_step:
  assumes "i < length (heap w)" "heap w ! i = ORoundRobin c idx" "unat idx < 2 ^ 63"
    and "list_all2 (\<lambda>m l. \<exists>p. reg_get w m = Inr p \<and> leaf_at w p = Some l) (c_proxies c) ls"
    and "c_proxies c \<noteq> []" and "responsive net"
  shows "\<exists>w' r es. connect net (Suc (Suc n)) (PObj i) addr w = Some (w', r) \<and>
    trace w' = trace w @ es \<and>
    diallers es = [c_name (snd (ls ! (unat idx mod length ls)))] \<and>
    heap w' = (heap w)[i := ORoundRobin c (idx + 1)] \<and> names w' = names w"
proof -
  let ?n = "length (c_proxies c)" and ?w = "set_obj i (ORoundRobin c (idx + 1)) w"
  have len: "length ls = ?n"
    using assms(4) by (simp add: list_all2_lengthD)
  have small: "unat idx mod ?n < ?n"
    using assms(5) by simp
  obtain p where p: "reg_get w (c_proxies c ! (unat idx mod ?n)) = Inr p"
    and l: "leaf_at w p = Some (ls ! (unat idx mod ?n))"
    using assms(4) small by (auto simp: list_all2_conv_all_nth)
  obtain k d where kd: "ls ! (unat idx mod ?n) = (k, d)"
    by (cases "ls ! (unat idx mod ?n)")
  have "leaf_at ?w p = Some (k, d)"
    using l kd assms(2) by (intro leaf_at_set_obj) auto
  from connect_leaf [OF this] have
    "connect net (Suc n) p addr ?w = leaf_connect net k d addr ?w" .
  moreover have "reg_get ?w = reg_get w"
    by (rule reg_get_cong) simp
  ultimately have run: "connect net (Suc (Suc n)) (PObj i) addr w = leaf_connect net k d addr ?w"
    using assms(1,2,3,5) p
    by (simp add: round_robin_connect_def via_member_def rr_index_small)
  obtain es r where att: "hop_attempt net (tick ?w) (k, d) addr = (es, r)" by fastforce
  with responsive_attempt [OF assms(6)] obtain up where up: "r = Some up"
    by (cases r) (metis snd_conv)+
  from leaf_hop_attempt [OF att] up obtain w' res where "leaf_connect net k d addr ?w = Some (w', res)"
    "trace w' = trace w @ es" "heap w' = heap ?w" "names w' = names w" by auto
  with run attempt_diallers [OF att] kd len show ?thesis by auto
qed

text \<open>
  A round-robin group is fair. From a counter \<open>idx\<close> on, the calls of \<open>Connect\<close> dial the
  members cyclically, one each call, whether or not they answer, if none of them waits for ever:
  call \<open>j\<close> goes to member \<open>(idx + j) mod n\<close>, as long as the 64-bit counter stays non-negative.
\<close>

theorem round_robin_fair:
  assumes "i < length (heap w)" and "heap w ! i = ORoundRobin c idx"
    and "unat idx + m \<le> 2 ^ 63" and "c_proxies c \<noteq> []"
    and "list_all2 (\<lambda>m l. \<exists>p. reg_get w m = Inr p \<and> leaf_at w p = Some l) (c_proxies c) ls"
    and "responsive net"
  shows "\<exists>w' es. connect_times net (Suc (Suc n)) (PObj i) addr m w = Some w' \<and>
    trace w' = trace w @ es \<and>
    diallers es = map (\<lambda>j. c_name (snd (ls ! ((unat idx + j) mod length ls)))) [0..<m]"
  using assms(1-5)
proof (induction m arbitrary: w idx)
  case 0
  then show ?case by (simp add: diallers_def)
next
  case (Suc m)
  from round_robin_step [OF Suc.prems(1,2) _ Suc.prems(5,4) assms(6), of n addr] Suc.prems(3)
  obtain w1 r e where c: "connect net (Suc (Suc n)) (PObj i) addr w = Some (w1, r)"
    and tr: "trace w1 = trace w @ e"
    and e: "diallers e = [c_name (snd (ls ! (unat idx mod length ls)))]"
    and heap: "heap w1 = (heap w)[i := ORoundRobin c (idx + 1)]" and names: "names w1 = names w"
    by auto
  have get: "reg_get w1 = reg_get w"
    using names by (rule reg_get_cong)
  have leaf: "leaf_at w1 p = Some l" if "leaf_at w p = Some l" for p l
  proof -
    have "leaf_at w1 p = leaf_at (set_obj i (ORoundRobin c (idx + 1)) w) p"
      by (rule leaf_at_frame) (simp add: heap)
    with that Suc.prems(2) show ?thesis
      by (simp add: leaf_at_set_obj)
  qed
  have "list_all2 (\<lambda>m l. \<exists>p. reg_get w1 m = Inr p \<and> leaf_at w1 p = Some l) (c_proxies c) ls"
    using Suc.prems(5) by (rule list_all2_mono) (use get leaf in auto)
  moreover have plus: "unat (idx + 1) = unat idx + 1"
    using Suc.prems(3) by (intro unat_plus_one) simp
  ultimately obtain w2 es where "connect_times net (Suc (Suc n)) (PObj i) addr m w1 = Some w2"
    and "trace w2 = trace w1 @ es"
    and "diallers es = map (\<lambda>j. c_name (snd (ls ! ((unat idx + 1 + j) mod length ls)))) [0..<m]"
    using Suc.IH [of w1 "idx + 1"] Suc.prems(1,3,4) heap by auto
  moreover have "[0..<Suc m] = 0 # map Suc [0..<m]"
    by (simp add: upt_conv_Cons map_Suc_upt)
  ultimately show ?case
    using c tr e by (auto simp: diallers_append simp del: connect.simps upt_Suc)
qed

theorem round_robin_fair_witness:
  "\<exists>w' es. connect_times demo_net (Suc (Suc 0)) (PObj 4) ''h:80'' 3 demo_world = Some w' \<and>
    trace w' = es \<and> diallers es = [''a'', ''b'', ''a'']"
proof -
  have "[0..<3] = [0, 1, 2 :: nat]" "2 mod Suc (Suc 0) = 0"
    by (simp_all add: upt_rec numeral_2_eq_2)
  moreover have "responsive demo_net" by (simp add: responsive_def)
  ultimately show ?thesis
    using round_robin_fair [of 4 demo_world "demo_cfg ''r'' [''a'', ''b'']" 0 3
        "[(KSOCKS5, demo_cfg ''a'' []), (KHTTP, demo_cfg ''b'' [])]" demo_net 0 "''h:80''"]
    by (simp add: leaf_at_def del: connect_times.simps)
qed

end
