(* ===== verification/Overlay_Pool.thy ===== *)
theory Overlay_Pool
  imports Go_Encoding
begin

text \<open>
  The allocator of virtual addresses that both overlay networks use (\<open>newIPAllocator\<close>,
  \<open>allocate\<close>, \<open>release\<close>, with the same text in \<open>n2n/supernode.go\<close> and
  \<open>stunvpv/server.go\<close>), and the contract that the servers rely on.
\<close>

record ip_pool =
  pool_network :: ip_net
  pool_base :: ip
  pool_used :: "string set"

definition with_last :: "ip \<Rightarrow> nat \<Rightarrow> ip" where
  "with_last a i = a[length a - 1 := word_of_nat i]"

definition new_pool :: "string \<Rightarrow> ip_pool option" where
  "new_pool cidr = (case parse_cidr cidr of
       None \<Rightarrow> None
     | Some n \<Rightarrow> Some \<lparr>pool_network = n, pool_base = with_last (net_ip n) 10, pool_used = {}\<rparr>)"

fun pool_scan :: "ip \<Rightarrow> string set \<Rightarrow> nat list \<Rightarrow> ip option" where
  "pool_scan base used [] = None"
| "pool_scan base used (i # is) =
     (let a = with_last base i in if ip_string a \<in> used then pool_scan base used is else Some a)"

definition pool_hosts :: "nat list" where
  "pool_hosts = [10..<255]"

definition pool_allocate :: "ip_pool \<Rightarrow> ip_pool \<times> ip option" where
  "pool_allocate p = (case pool_scan (pool_base p) (pool_used p) pool_hosts of
       None \<Rightarrow> (p, None)
     | Some a \<Rightarrow> (p\<lparr>pool_used := insert (ip_string a) (pool_used p)\<rparr>, Some a))"

definition pool_release :: "ip_pool \<Rightarrow> ip \<Rightarrow> ip_pool" where
  "pool_release p a = p\<lparr>pool_used := pool_used p - {ip_string a}\<rparr>"

section \<open>The contract\<close>

locale address_pool =
  fixes alloc :: "'p \<Rightarrow> 'p \<times> ip option"
    and release :: "'p \<Rightarrow> ip \<Rightarrow> 'p"
    and used :: "'p \<Rightarrow> string set"
  assumes alloc_Some: "alloc p = (p', Some a) \<Longrightarrow>
      ip_string a \<notin> used p \<and> used p' = insert (ip_string a) (used p)"
    and alloc_None: "alloc p = (p', None) \<Longrightarrow> p' = p"
    and used_release: "used (release p a) = used p - {ip_string a}"
begin

text \<open>A table of peers is tracked when each of its keys is an address in use.\<close>

definition tracks :: "'p \<Rightarrow> (string \<rightharpoonup> 'e) \<Rightarrow> bool" where
  "tracks p m \<longleftrightarrow> dom m \<subseteq> used p"

lemma tracks_empty: "tracks p Map.empty"
  by (simp add: tracks_def)

lemma alloc_fresh: "tracks p m \<Longrightarrow> alloc p = (p', Some a) \<Longrightarrow> m (ip_string a) = None"
  unfolding tracks_def by (metis alloc_Some domIff in_mono)

lemma tracks_alloc: "tracks p m \<Longrightarrow> alloc p = (p', Some a) \<Longrightarrow> tracks p' (m(ip_string a \<mapsto> e))"
  using alloc_Some [of p p' a] by (auto simp: tracks_def)

lemma tracks_release: "tracks p m \<Longrightarrow> tracks (release p a) (m(ip_string a := None))"
  by (auto simp: tracks_def used_release)

lemma tracks_update: "tracks p m \<Longrightarrow> m k = Some e \<Longrightarrow> tracks p (m(k \<mapsto> e'))"
  by (auto simp: tracks_def)

lemma two_allocs_differ:
  "alloc p = (p', Some a) \<Longrightarrow> alloc p' = (p'', Some b) \<Longrightarrow> ip_string a \<noteq> ip_string b"
  by (metis alloc_Some insertI1)

lemma alloc_after_release:
  "alloc p = (p', Some a) \<Longrightarrow> used (release p' a) = used p"
  by (metis Diff_insert_absorb alloc_Some used_release)

end

lemma pool_scan_Some:
  "pool_scan base used is = Some a \<Longrightarrow> ip_string a \<notin> used \<and> (\<exists>i \<in> set is. a = with_last base i)"
  by (induction base used "is" rule: pool_scan.induct) (auto simp: Let_def split: if_splits)

lemma pool_scan_None:
  "pool_scan base used is = None \<longleftrightarrow> (\<forall>i \<in> set is. ip_string (with_last base i) \<in> used)"
  by (induction base used "is" rule: pool_scan.induct) (auto simp: Let_def)

interpretation vip_pool: address_pool pool_allocate pool_release pool_used
  by unfold_locales
    (auto simp: pool_allocate_def pool_release_def dest: pool_scan_Some split: option.splits)

text \<open>A pool answers nothing only when the 245 addresses it can give are all in use.\<close>

lemma set_pool_hosts: "i \<in> set pool_hosts \<longleftrightarrow> 10 \<le> i \<and> i < 255"
  by (simp only: pool_hosts_def set_upt atLeastLessThan_iff)

lemma pool_exhausted:
  "snd (pool_allocate p) = None \<longleftrightarrow> (\<forall>i. 10 \<le> i \<and> i < 255 \<longrightarrow> ip_string (with_last (pool_base p) i) \<in> pool_used p)"
proof -
  have "snd (pool_allocate p) = None \<longleftrightarrow> pool_scan (pool_base p) (pool_used p) pool_hosts = None"
    by (simp add: pool_allocate_def split: option.splits)
  then show ?thesis
    unfolding pool_scan_None Ball_def set_pool_hosts .
qed

end
