(* ===== verification/Overlay_Codec.thy ===== *)
theory Overlay_Codec
  imports Overlay_Pool
begin

text \<open>
  The wire format of a peer list, the same in \<open>n2n/protocol.go\<close> and \<open>stunvpv/server.go\<close>: a
  two-byte count, then for every peer its virtual address and its real address as text, each
  with a two-byte length.
\<close>

text \<open>\<open>To4\<close>, else \<open>To16\<close>: the bytes of an address as they go on the wire.\<close>

definition ip_bytes :: "ip \<Rightarrow> bytes" where
  "ip_bytes a = (case to4 a of Some b \<Rightarrow> b | None \<Rightarrow> (case to16 a of Some b \<Rightarrow> b | None \<Rightarrow> []))"

type_synonym wire_peer = "ip \<times> string"

definition entry_bytes :: "wire_peer \<Rightarrow> bytes" where
  "entry_bytes p = (case p of (vip, addr) \<Rightarrow>
     put_u16 (length (ip_bytes vip)) @ ip_bytes vip @ put_u16 (length addr) @ bytes_of_string addr)"

definition peer_list_bytes :: "wire_peer list \<Rightarrow> bytes" where
  "peer_list_bytes ps = put_u16 (length ps) @ concat (map entry_bytes ps)"

text \<open>
  One turn of the loop of \<open>unmarshalPeerList\<close> at an offset: None is a panic, Some None the
  \<open>break\<close>, otherwise the peer and the next offset.
\<close>

definition entry_at :: "bytes \<Rightarrow> nat \<Rightarrow> (wire_peer \<times> nat) option option" where
  "entry_at data off =
     (if length data < off + 2 then Some None
      else do {
        alen \<leftarrow> u16_at data off;
        (if length data < off + 2 + alen + 2 then Some None
         else do {
           vip \<leftarrow> slice data (off + 2) (off + 2 + alen);
           slen \<leftarrow> u16_at data (off + 2 + alen);
           (if length data < off + 4 + alen + slen then Some None
            else do {
              s \<leftarrow> slice data (off + 4 + alen) (off + 4 + alen + slen);
              Some (Some ((vip, string_of_bytes s), off + 4 + alen + slen))
            })
         })
      })"

text \<open>The loop itself, over the remaining number of entries.\<close>

fun scan_entries :: "(nat \<Rightarrow> ('a \<times> nat) option option) \<Rightarrow> nat \<Rightarrow> nat \<Rightarrow> 'a list option" where
  "scan_entries f 0 off = Some []"
| "scan_entries f (Suc n) off = (case f off of
       None \<Rightarrow> None
     | Some None \<Rightarrow> Some []
     | Some (Some (x, off')) \<Rightarrow> map_option (Cons x) (scan_entries f n off'))"

text \<open>\<open>unmarshalPeerList\<close>: None is a panic, Some None the error.\<close>

definition parse_peer_list :: "bytes \<Rightarrow> wire_peer list option option" where
  "parse_peer_list data =
     (if length data < 2 then Some None
      else do {
        count \<leftarrow> u16_at data 0;
        ps \<leftarrow> scan_entries (entry_at data) count 2;
        Some (Some ps)
      })"

section \<open>The contract of an entry format\<close>

locale entry_codec =
  fixes enc :: "'a \<Rightarrow> bytes"
    and dec :: "bytes \<Rightarrow> nat \<Rightarrow> ('b \<times> nat) option option"
    and view :: "'a \<Rightarrow> 'b"
    and ok :: "'a \<Rightarrow> bool"
  assumes dec_enc: "ok x \<Longrightarrow> dec (pre @ enc x @ post) (length pre) = Some (Some (view x, length pre + length (enc x)))"
    and dec_total: "dec data off \<noteq> None"
begin

lemma scan_enc:
  "\<forall>x \<in> set xs. ok x \<Longrightarrow>
   scan_entries (dec (pre @ concat (map enc xs) @ post)) (length xs) (length pre) = Some (map view xs)"
proof (induction xs arbitrary: pre)
  case (Cons x xs)
  have "dec (pre @ enc x @ concat (map enc xs) @ post) (length pre) =
      Some (Some (view x, length (pre @ enc x)))"
    using Cons.prems dec_enc by simp
  moreover have "scan_entries (dec ((pre @ enc x) @ concat (map enc xs) @ post)) (length xs) (length (pre @ enc x)) =
      Some (map view xs)"
    using Cons.prems by (intro Cons.IH) simp
  ultimately show ?case by simp
qed simp

lemma scan_total: "scan_entries (dec data) n off \<noteq> None"
proof (induction n arbitrary: off)
  case (Suc n)
  then show ?case
    using dec_total [of data off] by (auto split: option.splits)
qed simp

end

definition wire_ok :: "wire_peer \<Rightarrow> bool" where
  "wire_ok p \<longleftrightarrow> length (snd p) < 65536"

definition wire_view :: "wire_peer \<Rightarrow> wire_peer" where
  "wire_view p = (ip_bytes (fst p), snd p)"

lemma length_ip_bytes: "length (ip_bytes a) \<le> 16"
  using to4_length [of a] to16_length [of a] by (auto simp: ip_bytes_def split: option.splits)

lemma ip_bytes_4 [simp]: "length a = 4 \<Longrightarrow> ip_bytes a = a"
  by (simp add: ip_bytes_def)

lemma slice_at: "length pre = lo \<Longrightarrow> hi = lo + length xs \<Longrightarrow> slice (pre @ xs @ post) lo hi = Some xs"
  by (simp add: slice_def)

lemma entry_at_total: "entry_at data off \<noteq> None"
  by (auto simp: entry_at_def u16_at_def at_index_def slice_def)

lemma entry_at_enc:
  assumes "length s < 65536"
  shows "entry_at (pre @ entry_bytes (vip, s) @ post) (length pre) =
    Some (Some ((ip_bytes vip, s), length pre + length (entry_bytes (vip, s))))"
proof -
  let ?v = "ip_bytes vip" and ?o = "length pre"
  let ?d = "pre @ put_u16 (length ?v) @ ?v @ put_u16 (length s) @ bytes_of_string s @ post"
  have small: "length ?v < 65536"
    using length_ip_bytes [of vip] by simp
  have a: "u16_at ?d ?o = Some (length ?v)"
    using u16_at_put [of pre ?o "length ?v"] small by simp
  have b: "slice ?d (?o + 2) (?o + 2 + length ?v) = Some ?v"
    using slice_at [of "pre @ put_u16 (length ?v)" "?o + 2" "?o + 2 + length ?v" ?v
        "put_u16 (length s) @ bytes_of_string s @ post"] by simp
  have c: "u16_at ?d (?o + 2 + length ?v) = Some (length s)"
    using u16_at_put [of "pre @ put_u16 (length ?v) @ ?v" "?o + 2 + length ?v" "length s"] assms by simp
  have d: "slice ?d (?o + 4 + length ?v) (?o + 4 + length ?v + length s) = Some (bytes_of_string s)"
    using slice_at [of "pre @ put_u16 (length ?v) @ ?v @ put_u16 (length s)"
        "?o + 4 + length ?v" "?o + 4 + length ?v + length s" "bytes_of_string s" post]
    by simp
  have len: "length ?d = ?o + 4 + length ?v + length s + length post"
    by simp
  have eq: "pre @ entry_bytes (vip, s) @ post = ?d"
    by (simp add: entry_bytes_def)
  show ?thesis
    unfolding eq entry_at_def len using a b c d by (simp add: entry_bytes_def)
qed

interpretation peer_entry: entry_codec entry_bytes entry_at wire_view wire_ok
proof unfold_locales
  show "wire_ok x \<Longrightarrow> entry_at (pre @ entry_bytes x @ post) (length pre) =
      Some (Some (wire_view x, length pre + length (entry_bytes x)))" for x pre post
    by (cases x) (simp add: wire_ok_def wire_view_def entry_at_enc)
qed (rule entry_at_total)

text \<open>A list is read back, and no input makes the reader panic.\<close>

lemma parse_peer_list_bytes:
  assumes "length ps < 65536" "\<forall>p \<in> set ps. wire_ok p"
  shows "parse_peer_list (peer_list_bytes ps @ post) = Some (Some (map wire_view ps))"
proof -
  have "u16_at (put_u16 (length ps) @ concat (map entry_bytes ps) @ post) 0 = Some (length ps)"
    using u16_at_put [of "[]" 0 "length ps"] assms(1) by simp
  moreover have "scan_entries (entry_at (put_u16 (length ps) @ concat (map entry_bytes ps) @ post)) (length ps) 2 =
      Some (map wire_view ps)"
    using peer_entry.scan_enc [OF assms(2), of "put_u16 (length ps)" post] by simp
  ultimately show ?thesis
    by (simp add: parse_peer_list_def peer_list_bytes_def)
qed

lemma parse_peer_list_total: "parse_peer_list data \<noteq> None"
proof (cases "length data < 2")
  case False
  let ?n = "get_u16 (data ! 0) (data ! 1)"
  obtain ps where "scan_entries (entry_at data) ?n 2 = Some ps"
    using peer_entry.scan_total [of data ?n 2] by blast
  moreover have "u16_at data 0 = Some ?n"
    using False u16_at_in_bounds [of 0 data] by simp
  ultimately show ?thesis
    using False by (simp add: parse_peer_list_def)
qed (simp add: parse_peer_list_def)

end
