(* ===== verification/N2n.thy ===== *)
theory N2n
  imports Overlay_Codec
begin

text \<open>
  The n2n-style overlay network (\<open>n2n/protocol.go\<close>, \<open>supernode.go\<close>, \<open>edge.go\<close>): the packet
  formats, the supernode with its peer table, and the edge.

  Conventions: the outer option of an operation is the panic of the Go run time; datagrams
  that an operation sends are returned as pairs of bytes and destination. Resolving a
  textual address is the argument \<open>resolve\<close>, the AES-GCM cipher a pair of functions; the
  order in which Go ranges over the peer map is the argument \<open>order\<close>, a listing of its keys.
\<close>

section \<open>Packets\<close>

definition TypeRegister :: byte where "TypeRegister = 1"
definition TypeRegisterAck :: byte where "TypeRegisterAck = 2"
definition TypeHeartbeat :: byte where "TypeHeartbeat = 3"
definition TypeHeartbeatAck :: byte where "TypeHeartbeatAck = 4"
definition TypeData :: byte where "TypeData = 5"
definition TypeP2PConnect :: byte where "TypeP2PConnect = 6"
definition TypeP2PConnectAck :: byte where "TypeP2PConnectAck = 7"
definition TypePeerList :: byte where "TypePeerList = 8"
definition TypeBye :: byte where "TypeBye = 9"

lemmas packet_types = TypeRegister_def TypeRegisterAck_def TypeHeartbeat_def TypeHeartbeatAck_def
  TypeData_def TypeP2PConnect_def TypeP2PConnectAck_def TypePeerList_def TypeBye_def

record packet =
  p_type :: byte
  p_src :: ip
  p_dst :: ip
  p_payload :: bytes

datatype n2n_err =
    TooShort
  | BadAddrLen nat
  | ShortHeader
  | ShortPayload
  | DecryptFailed

definition marshal_packet :: "packet \<Rightarrow> bytes" where
  "marshal_packet p =
     (let src = ip_bytes (p_src p); dst = ip_bytes (p_dst p);
          addr_len = (if length src = 0 then 4 else length src);
          src' = (if src = [] then replicate addr_len 0 else src);
          dst' = (if length dst \<noteq> addr_len then replicate addr_len 0 else dst)
      in [p_type p, word_of_nat addr_len] @ src' @ dst' @ put_u16 (length (p_payload p)) @ p_payload p)"

definition unmarshal_packet :: "bytes \<Rightarrow> (n2n_err + packet) option" where
  "unmarshal_packet data =
     (if length data < 4 then Some (Inl TooShort)
      else do {
        t \<leftarrow> at_index data 0;
        al \<leftarrow> at_index data 1;
        let addr_len = unat al;
        let header_len = 2 + addr_len * 2 + 2;
        (if addr_len \<noteq> 4 \<and> addr_len \<noteq> 16 then Some (Inl (BadAddrLen addr_len))
         else if length data < header_len then Some (Inl ShortHeader)
         else do {
           src \<leftarrow> slice data 2 (2 + addr_len);
           dst \<leftarrow> slice data (2 + addr_len) (2 + addr_len * 2);
           n \<leftarrow> u16_at data (2 + addr_len * 2);
           (if length data < header_len + n then Some (Inl ShortPayload)
            else do {
              payload \<leftarrow> slice data header_len (header_len + n);
              Some (Inr \<lparr>p_type = t, p_src = src, p_dst = dst, p_payload = payload\<rparr>)
            })
         })
      })"

record register_payload =
  rp_community :: string
  rp_hostname :: string
  rp_port :: nat

definition marshal_register_payload :: "string \<Rightarrow> string \<Rightarrow> nat \<Rightarrow> bytes" where
  "marshal_register_payload community hostname port =
     put_u16 (length community) @ bytes_of_string community @
     put_u16 (length hostname) @ bytes_of_string hostname @ put_u16 port"

definition unmarshal_register_payload :: "bytes \<Rightarrow> (n2n_err + register_payload) option" where
  "unmarshal_register_payload data =
     (if length data < 6 then Some (Inl TooShort)
      else do {
        com_len \<leftarrow> u16_at data 0;
        community \<leftarrow> slice data 2 (2 + com_len);
        hb \<leftarrow> slice data (2 + com_len) (2 + com_len + 2);
        host_len \<leftarrow> u16_at hb 0;
        hostname \<leftarrow> slice data (4 + com_len) (4 + com_len + host_len);
        pb \<leftarrow> slice data (4 + com_len + host_len) (4 + com_len + host_len + 2);
        port \<leftarrow> u16_at pb 0;
        Some (Inr \<lparr>rp_community = string_of_bytes community, rp_hostname = string_of_bytes hostname,
                 rp_port = port\<rparr>)
      })"

record peer_info =
  pi_vip :: ip
  pi_real :: string
  pi_local :: bool
  pi_latency :: int
  pi_last_seen :: int

definition wire_of :: "peer_info \<Rightarrow> wire_peer" where
  "wire_of p = (pi_vip p, pi_real p)"

definition of_wire :: "wire_peer \<Rightarrow> peer_info" where
  "of_wire p = \<lparr>pi_vip = fst p, pi_real = snd p, pi_local = False, pi_latency = 0, pi_last_seen = 0\<rparr>"

definition marshal_peer_list :: "peer_info list \<Rightarrow> bytes" where
  "marshal_peer_list ps = peer_list_bytes (map wire_of ps)"

definition unmarshal_peer_list :: "bytes \<Rightarrow> peer_info list option option" where
  "unmarshal_peer_list data = map_option (map_option (map of_wire)) (parse_peer_list data)"

section \<open>Encryption\<close>

text \<open>\<open>Crypto\<close>: AES-GCM under the hash of the password. No password is no encryption.\<close>

record crypto =
  encrypt :: "bytes \<Rightarrow> bytes"
  decrypt :: "bytes \<Rightarrow> bytes option"

definition seal :: "crypto option \<Rightarrow> bytes \<Rightarrow> bytes" where
  "seal cr data = (case cr of None \<Rightarrow> data | Some c \<Rightarrow> encrypt c data)"

definition decrypt_and_unmarshal :: "crypto option \<Rightarrow> bytes \<Rightarrow> (n2n_err + packet) option" where
  "decrypt_and_unmarshal cr data = (case cr of
       None \<Rightarrow> unmarshal_packet data
     | Some c \<Rightarrow> (case decrypt c data of
         None \<Rightarrow> Some (Inl DecryptFailed) | Some d \<Rightarrow> unmarshal_packet d))"

section \<open>Supernode\<close>

record peer_entry =
  pe_info :: peer_info
  pe_last_seen :: int
  pe_community :: string
  pe_hostname :: string

record supernode =
  sn_community :: string
  sn_crypto :: "crypto option"
  sn_peers :: "string \<rightharpoonup> peer_entry"
  sn_addr_index :: "string \<rightharpoonup> string"
  sn_pool :: ip_pool

type_synonym datagram = "bytes \<times> udp_addr"
type_synonym udp_resolver = "string \<Rightarrow> udp_addr option"

definition new_supernode :: "string \<Rightarrow> string \<Rightarrow> crypto option \<Rightarrow> supernode option" where
  "new_supernode cidr community cr = (case new_pool cidr of
       None \<Rightarrow> None
     | Some p \<Rightarrow> Some \<lparr>sn_community = community, sn_crypto = cr, sn_peers = Map.empty,
         sn_addr_index = Map.empty, sn_pool = p\<rparr>)"

definition sn_send :: "supernode \<Rightarrow> packet \<Rightarrow> udp_addr \<Rightarrow> datagram" where
  "sn_send s p addr = (seal (sn_crypto s) (marshal_packet p), addr)"

text \<open>The peers in the order in which the range loop happens to meet them.\<close>

definition peers_in :: "supernode \<Rightarrow> string list \<Rightarrow> peer_info list" where
  "peers_in s order = List.map_filter (\<lambda>k. map_option pe_info (sn_peers s k)) order"

definition real_addr_string :: "udp_addr \<Rightarrow> string" where
  "real_addr_string a = join_host_port (ip_string (ua_ip a)) (itoa (ua_port a))"

definition broadcast_peer_update ::
    "udp_resolver \<Rightarrow> int \<Rightarrow> string list \<Rightarrow> supernode \<Rightarrow> ip \<Rightarrow> string \<Rightarrow> datagram list" where
  "broadcast_peer_update resolve now order s vip real =
     List.map_filter (\<lambda>i. if pi_real i = real then None
         else map_option (\<lambda>a. sn_send s \<lparr>p_type = TypePeerList, p_src = vip, p_dst = [],
             p_payload = marshal_peer_list [\<lparr>pi_vip = vip, pi_real = real, pi_local = False,
                 pi_latency = 0, pi_last_seen = now div 1000000000\<rparr>]\<rparr> a) (resolve (pi_real i)))
       (peers_in s order)"

text \<open>The acknowledgement of a registration.\<close>

definition ack_payload :: "ip \<Rightarrow> peer_info list \<Rightarrow> bytes" where
  "ack_payload vip ps =
     (let pl = marshal_peer_list ps
      in [word_of_nat (length vip)] @ vip @ put_u16 (length pl) @ pl)"

definition sn_handle_register ::
    "udp_resolver \<Rightarrow> int \<Rightarrow> string list \<Rightarrow> supernode \<Rightarrow> packet \<Rightarrow> udp_addr \<Rightarrow>
     (supernode \<times> datagram list) option" where
  "sn_handle_register resolve now order s pkt remote = do {
     r \<leftarrow> unmarshal_register_payload (p_payload pkt);
     Some (case r of
         Inl e \<Rightarrow> (s, [])
       | Inr pl \<Rightarrow>
           (if rp_community pl \<noteq> sn_community s then (s, [])
            else case pool_allocate (sn_pool s) of
              (p', None) \<Rightarrow> (s\<lparr>sn_pool := p'\<rparr>, [])
            | (p', Some vip) \<Rightarrow>
                (let real = real_addr_string remote;
                     e = \<lparr>pe_info = \<lparr>pi_vip = vip, pi_real = real, pi_local = False, pi_latency = 0,
                              pi_last_seen = now div 1000000000\<rparr>,
                          pe_last_seen = now, pe_community = rp_community pl, pe_hostname = rp_hostname pl\<rparr>;
                     s' = s\<lparr>sn_pool := p', sn_peers := (sn_peers s)(ip_string vip \<mapsto> e),
                            sn_addr_index := (sn_addr_index s)(real \<mapsto> ip_string vip)\<rparr>;
                     ack = pkt\<lparr>p_src := vip, p_dst := vip, p_type := TypeRegisterAck,
                               p_payload := ack_payload vip (peers_in s' order)\<rparr>
                 in (s', sn_send s' ack remote # broadcast_peer_update resolve now order s' vip real))))
   }"

definition sn_handle_heartbeat ::
    "int \<Rightarrow> string list \<Rightarrow> supernode \<Rightarrow> packet \<Rightarrow> udp_addr \<Rightarrow> supernode \<times> datagram list" where
  "sn_handle_heartbeat now order s pkt remote =
     (let k = ip_string (p_src pkt);
          s' = (case sn_peers s k of
              None \<Rightarrow> s
            | Some e \<Rightarrow> s\<lparr>sn_peers := (sn_peers s)(k \<mapsto> e\<lparr>pe_last_seen := now,
                pe_info := (pe_info e)\<lparr>pi_last_seen := now div 1000000000\<rparr>\<rparr>)\<rparr>)
      in (s', [sn_send s' (pkt\<lparr>p_type := TypeHeartbeatAck,
                               p_payload := marshal_peer_list (peers_in s' order)\<rparr>) remote]))"

definition sn_handle_p2p_connect ::
    "udp_resolver \<Rightarrow> supernode \<Rightarrow> packet \<Rightarrow> udp_addr \<Rightarrow> datagram list" where
  "sn_handle_p2p_connect resolve s pkt remote = (case sn_peers s (ip_string (p_dst pkt)) of
       None \<Rightarrow> []
     | Some e \<Rightarrow>
         (let ack = pkt\<lparr>p_type := TypeP2PConnectAck, p_payload := bytes_of_string (pi_real (pe_info e))\<rparr>;
              rev_pkt = \<lparr>p_type = TypeP2PConnect, p_src = p_dst pkt, p_dst = p_src pkt,
                         p_payload = bytes_of_string (udp_string remote)\<rparr>
          in sn_send s ack remote #
             (case resolve (pi_real (pe_info e)) of None \<Rightarrow> [] | Some a \<Rightarrow> [sn_send s rev_pkt a])))"

text \<open>Forgetting a peer, as \<open>handleBye\<close> and \<open>cleanup\<close> do.\<close>

definition sn_drop :: "supernode \<Rightarrow> string \<Rightarrow> peer_entry \<Rightarrow> supernode" where
  "sn_drop s k e = s\<lparr>sn_pool := pool_release (sn_pool s) (pi_vip (pe_info e)),
     sn_addr_index := (sn_addr_index s)(pi_real (pe_info e) := None),
     sn_peers := (sn_peers s)(k := None)\<rparr>"

definition sn_handle_bye :: "supernode \<Rightarrow> packet \<Rightarrow> supernode" where
  "sn_handle_bye s pkt = (case sn_peers s (ip_string (p_src pkt)) of
       None \<Rightarrow> s | Some e \<Rightarrow> sn_drop s (ip_string (p_src pkt)) e)"

definition sn_handle_packet ::
    "udp_resolver \<Rightarrow> int \<Rightarrow> string list \<Rightarrow> supernode \<Rightarrow> bytes \<Rightarrow> udp_addr \<Rightarrow>
     (supernode \<times> datagram list) option" where
  "sn_handle_packet resolve now order s data remote = do {
     r \<leftarrow> decrypt_and_unmarshal (sn_crypto s) data;
     (case r of
        Inl e \<Rightarrow> Some (s, [])
      | Inr pkt \<Rightarrow>
          (if p_type pkt = TypeRegister then sn_handle_register resolve now order s pkt remote
           else if p_type pkt = TypeHeartbeat then Some (sn_handle_heartbeat now order s pkt remote)
           else if p_type pkt = TypeP2PConnect then Some (s, sn_handle_p2p_connect resolve s pkt remote)
           else if p_type pkt = TypeBye then Some (sn_handle_bye s pkt, [])
           else Some (s, [])))
   }"

definition peer_timeout :: int where
  "peer_timeout = 300000000000"

text \<open>\<open>cleanup\<close>, over the keys in the order of the range loop.\<close>

fun sn_cleanup :: "int \<Rightarrow> string list \<Rightarrow> supernode \<Rightarrow> supernode" where
  "sn_cleanup now [] s = s"
| "sn_cleanup now (k # ks) s = (case sn_peers s k of
       None \<Rightarrow> sn_cleanup now ks s
     | Some e \<Rightarrow> sn_cleanup now ks (if peer_timeout < now - pe_last_seen e then sn_drop s k e else s))"


section \<open>Edge\<close>

record edge =
  ed_community :: string
  ed_hostname :: string
  ed_crypto :: "crypto option"
  ed_super :: udp_addr
  ed_local :: string
  ed_vip :: ip
  ed_peers :: "string \<rightharpoonup> peer_info"

definition new_edge ::
    "udp_resolver \<Rightarrow> string \<Rightarrow> string \<Rightarrow> crypto option \<Rightarrow> string \<Rightarrow> string \<Rightarrow> edge option" where
  "new_edge resolve super community cr hostname local =
     (if super = [] then None
      else case resolve super of
        None \<Rightarrow> None
      | Some a \<Rightarrow> Some \<lparr>ed_community = community, ed_hostname = hostname, ed_crypto = cr, ed_super = a,
          ed_local = local, ed_vip = [], ed_peers = Map.empty\<rparr>)"

definition ed_send :: "edge \<Rightarrow> packet \<Rightarrow> udp_addr \<Rightarrow> datagram" where
  "ed_send e p addr = (seal (ed_crypto e) (marshal_packet p), addr)"

definition bare_packet :: "byte \<Rightarrow> ip \<Rightarrow> packet" where
  "bare_packet t src = \<lparr>p_type = t, p_src = src, p_dst = [], p_payload = []\<rparr>"

text \<open>The two halves of \<open>register\<close>: the request, and what is done with the reply.\<close>

definition ed_register_request :: "edge \<Rightarrow> datagram" where
  "ed_register_request e = ed_send e
     ((bare_packet TypeRegister [])\<lparr>p_payload := marshal_register_payload (ed_community e) (ed_hostname e) 0\<rparr>)
     (ed_super e)"

datatype register_err =
    BadReply n2n_err
  | UnexpectedType byte

definition learn_all :: "(string \<rightharpoonup> peer_info) \<Rightarrow> peer_info list \<Rightarrow> (string \<rightharpoonup> peer_info)" where
  "learn_all m ps = fold (\<lambda>p m. m(ip_string (pi_vip p) \<mapsto> p)) ps m"

definition ed_register_reply :: "edge \<Rightarrow> bytes \<Rightarrow> (edge \<times> register_err option) option" where
  "ed_register_reply e data = do {
     r \<leftarrow> decrypt_and_unmarshal (ed_crypto e) data;
     (case r of
        Inl err \<Rightarrow> Some (e, Some (BadReply err))
      | Inr pkt \<Rightarrow>
          (if p_type pkt \<noteq> TypeRegisterAck then Some (e, Some (UnexpectedType (p_type pkt)))
           else do {
             let pl = p_payload pkt;
             al \<leftarrow> at_index pl 0;
             let addr_len = unat al;
             vip \<leftarrow> slice pl 1 (1 + addr_len);
             ll \<leftarrow> at_index pl (1 + addr_len);
             let off = 2 + addr_len;
             let list_len = unat ll;
             ps \<leftarrow> (if 0 < list_len \<and> off + list_len \<le> length pl
                  then do { part \<leftarrow> slice pl off (off + list_len); unmarshal_peer_list part }
                  else Some None);
             Some (e\<lparr>ed_vip := vip,
                     ed_peers := (case ps of None \<Rightarrow> ed_peers e | Some l \<Rightarrow> learn_all (ed_peers e) l)\<rparr>, None)
           }))
   }"

text \<open>\<open>handleHeartbeatAck\<close> and \<open>handlePeerList\<close>: every peer but the edge itself is learnt.\<close>

definition ed_handle_peers :: "edge \<Rightarrow> packet \<Rightarrow> edge option" where
  "ed_handle_peers e pkt = map_option (\<lambda>r. case r of
       None \<Rightarrow> e
     | Some ps \<Rightarrow> e\<lparr>ed_peers :=
         learn_all (ed_peers e) (filter (\<lambda>p. ip_string (pi_vip p) \<noteq> ip_string (ed_vip e)) ps)\<rparr>)
     (unmarshal_peer_list (p_payload pkt))"

definition ed_handle_p2p_connect :: "udp_resolver \<Rightarrow> edge \<Rightarrow> packet \<Rightarrow> datagram list" where
  "ed_handle_p2p_connect resolve e pkt = (case resolve (string_of_bytes (p_payload pkt)) of
       None \<Rightarrow> []
     | Some a \<Rightarrow> [ed_send e \<lparr>p_type = TypeP2PConnectAck, p_src = ed_vip e, p_dst = p_src pkt,
         p_payload = bytes_of_string (ed_local e)\<rparr> a])"

definition ed_handle_p2p_ack :: "edge \<Rightarrow> packet \<Rightarrow> edge" where
  "ed_handle_p2p_ack e pkt = (case ed_peers e (ip_string (p_src pkt)) of
       None \<Rightarrow> e
     | Some p \<Rightarrow> e\<lparr>ed_peers := (ed_peers e)(ip_string (p_src pkt) \<mapsto>
         p\<lparr>pi_real := string_of_bytes (p_payload pkt)\<rparr>)\<rparr>)"

text \<open>The result of a packet: the edge, what it sends, and what it gives to \<open>onData\<close>.\<close>

definition ed_handle_packet ::
    "udp_resolver \<Rightarrow> edge \<Rightarrow> bytes \<Rightarrow> (edge \<times> datagram list \<times> (ip \<times> bytes) list) option" where
  "ed_handle_packet resolve e data = do {
     r \<leftarrow> decrypt_and_unmarshal (ed_crypto e) data;
     (case r of
        Inl err \<Rightarrow> Some (e, [], [])
      | Inr pkt \<Rightarrow>
          (if p_type pkt = TypeHeartbeatAck \<or> p_type pkt = TypePeerList
           then map_option (\<lambda>e'. (e', [], [])) (ed_handle_peers e pkt)
           else if p_type pkt = TypeP2PConnect then Some (e, ed_handle_p2p_connect resolve e pkt, [])
           else if p_type pkt = TypeP2PConnectAck then Some (ed_handle_p2p_ack e pkt, [], [])
           else if p_type pkt = TypeData then Some (e, [], [(p_src pkt, p_payload pkt)])
           else Some (e, [], [])))
   }"

definition ed_send_to :: "udp_resolver \<Rightarrow> edge \<Rightarrow> ip \<Rightarrow> bytes \<Rightarrow> datagram" where
  "ed_send_to resolve e dst data =
     (let pkt = \<lparr>p_type = TypeData, p_src = ed_vip e, p_dst = dst, p_payload = data\<rparr>
      in ed_send e pkt (case ed_peers e (ip_string dst) of
           None \<Rightarrow> ed_super e
         | Some p \<Rightarrow> (case resolve (pi_real p) of None \<Rightarrow> ed_super e | Some a \<Rightarrow> a)))"

definition ed_bye :: "edge \<Rightarrow> datagram" where
  "ed_bye e = ed_send e (bare_packet TypeBye (ed_vip e)) (ed_super e)"

definition ed_heartbeat :: "edge \<Rightarrow> datagram" where
  "ed_heartbeat e = ed_send e (bare_packet TypeHeartbeat (ed_vip e)) (ed_super e)"

section \<open>Formats\<close>

lemma length_ip_bytes_4_16: "length (ip_bytes a) \<in> {0, 4, 16}"
  using to4_length [of a] to16_length [of a] by (auto simp: ip_bytes_def split: option.splits)

lemma unat_word_of_nat_byte: "n < 256 \<Longrightarrow> unat (word_of_nat n :: byte) = n"
  by (simp add: unat_of_nat)

text \<open>The addresses that the wire format carries: \<open>pad\<close> is what becomes of a missing one.\<close>

definition wire_src :: "packet \<Rightarrow> bytes" where
  "wire_src p = (if ip_bytes (p_src p) = [] then replicate 4 0 else ip_bytes (p_src p))"

definition wire_dst :: "packet \<Rightarrow> bytes" where
  "wire_dst p = (if length (ip_bytes (p_dst p)) \<noteq> length (wire_src p)
     then replicate (length (wire_src p)) 0 else ip_bytes (p_dst p))"

lemma length_wire_src: "length (wire_src p) = 4 \<or> length (wire_src p) = 16"
  using length_ip_bytes_4_16 [of "p_src p"] by (auto simp: wire_src_def)

lemma length_wire_dst [simp]: "length (wire_dst p) = length (wire_src p)"
  by (simp add: wire_dst_def)

lemma marshal_packet_wire:
  "marshal_packet p = [p_type p, word_of_nat (length (wire_src p))] @ wire_src p @ wire_dst p @
     put_u16 (length (p_payload p)) @ p_payload p"
  by (auto simp: marshal_packet_def wire_src_def wire_dst_def Let_def)

lemma packet_read:
  assumes "length (p_payload p) < 65536"
  shows "unmarshal_packet (marshal_packet p @ rest) =
    Some (Inr \<lparr>p_type = p_type p, p_src = wire_src p, p_dst = wire_dst p, p_payload = p_payload p\<rparr>)"
proof -
  let ?n = "length (wire_src p)" and ?k = "length (p_payload p)"
  let ?d = "[p_type p, word_of_nat ?n] @ wire_src p @ wire_dst p @ put_u16 ?k @ p_payload p @ rest"
  have n: "?n = 4 \<or> ?n = 16" by (rule length_wire_src)
  then have al: "unat (word_of_nat ?n :: byte) = ?n"
    by (intro unat_word_of_nat_byte) auto
  have src: "slice ?d 2 (2 + ?n) = Some (wire_src p)"
    using slice_at [of "[p_type p, word_of_nat ?n]" 2 "2 + ?n" "wire_src p"] by simp
  have dst: "slice ?d (2 + ?n) (2 + ?n * 2) = Some (wire_dst p)"
    using slice_at [of "[p_type p, word_of_nat ?n] @ wire_src p" "2 + ?n" "2 + ?n * 2" "wire_dst p"] by simp
  have len: "u16_at ?d (2 + ?n * 2) = Some ?k"
    using u16_at_put [of "[p_type p, word_of_nat ?n] @ wire_src p @ wire_dst p" "2 + ?n * 2" ?k] assms
    by (simp add: mult_2_right)
  have payload: "slice ?d (2 + ?n * 2 + 2) (2 + ?n * 2 + 2 + ?k) = Some (p_payload p)"
    using slice_at [of "[p_type p, word_of_nat ?n] @ wire_src p @ wire_dst p @ put_u16 ?k"
        "2 + ?n * 2 + 2" "2 + ?n * 2 + 2 + ?k" "p_payload p" rest] by simp
  have idx: "at_index ?d 0 = Some (p_type p)" "at_index ?d 1 = Some (word_of_nat ?n)"
    by (simp_all add: at_index_def)
  have long: "length ?d = 2 + ?n * 2 + 2 + ?k + length rest"
    by simp
  have eq: "marshal_packet p @ rest = ?d"
    by (simp add: marshal_packet_wire)
  show ?thesis
    unfolding eq unmarshal_packet_def using n long al src dst len payload idx
    by (auto simp: Let_def)
qed


text \<open>
  C19: packets survive the wire. \<open>UnmarshalPacket\<close> reads from the bytes of \<open>MarshalPacket\<close>,
  also when more bytes follow, the type and the payload that were sent, provided the payload
  has fewer than 65536 bytes, and the addresses in their wire form: the source is the 4-byte
  (or 16-byte) form of the address, zeros when there is none, and the destination is zeros
  when its form is not as long as the source's.
\<close>

theorem packet_roundtrip:
  assumes "length (p_payload p) < 65536"
  shows "unmarshal_packet (marshal_packet p @ rest) =
    Some (Inr \<lparr>p_type = p_type p, p_src = wire_src p, p_dst = wire_dst p, p_payload = p_payload p\<rparr>)"
  using assms by (rule packet_read)

lemma unmarshal_packet_total: "unmarshal_packet data \<noteq> None"
proof (cases "length data < 4")
  case False
  then show ?thesis
    by (auto simp: unmarshal_packet_def at_index_def u16_at_def slice_def Let_def)
qed (simp add: unmarshal_packet_def)

lemma register_payload_read:
  assumes "length c < 65536" "length h < 65536" "port < 65536"
  shows "unmarshal_register_payload (marshal_register_payload c h port @ rest) =
    Some (Inr \<lparr>rp_community = c, rp_hostname = h, rp_port = port\<rparr>)"
proof -
  let ?c = "length c" and ?h = "length h"
  let ?d = "put_u16 ?c @ bytes_of_string c @ put_u16 ?h @ bytes_of_string h @ put_u16 port @ rest"
  have a: "u16_at ?d 0 = Some ?c"
    using u16_at_put [of "[]" 0 ?c] assms(1) by simp
  have b: "slice ?d 2 (2 + ?c) = Some (bytes_of_string c)"
    using slice_at [of "put_u16 ?c" 2 "2 + ?c" "bytes_of_string c"] by simp
  have hb: "slice ?d (2 + ?c) (2 + ?c + 2) = Some (put_u16 ?h)"
    using slice_at [of "put_u16 ?c @ bytes_of_string c" "2 + ?c" "2 + ?c + 2" "put_u16 ?h"] by simp
  have d: "slice ?d (4 + ?c) (4 + ?c + ?h) = Some (bytes_of_string h)"
    using slice_at [of "put_u16 ?c @ bytes_of_string c @ put_u16 ?h" "4 + ?c" "4 + ?c + ?h" "bytes_of_string h"]
    by simp
  have pb: "slice ?d (4 + ?c + ?h) (4 + ?c + ?h + 2) = Some (put_u16 port)"
    using slice_at [of "put_u16 ?c @ bytes_of_string c @ put_u16 ?h @ bytes_of_string h"
        "4 + ?c + ?h" "4 + ?c + ?h + 2" "put_u16 port" rest] by simp
  have u: "u16_at (put_u16 n) 0 = Some n" if "n < 65536" for n
    using u16_at_put [of "[]" 0 n "[]"] that by simp
  have eq: "marshal_register_payload c h port @ rest = ?d"
    by (simp add: marshal_register_payload_def)
  show ?thesis
    unfolding eq unmarshal_register_payload_def using a b hb d pb u assms by simp
qed

text \<open>
  The payloads survive the wire: a registration is read back with its community, host name
  and port, and a peer list with its addresses, in their wire form, and real addresses, in
  order, as long as every length fits its two-byte field.
\<close>

theorem payload_roundtrips:
  assumes "length c < 65536" and "length h < 65536" and "port < 65536"
    and "length ps < 65536" and "\<forall>p \<in> set ps. length (pi_real p) < 65536"
  shows "unmarshal_register_payload (marshal_register_payload c h port) =
      Some (Inr \<lparr>rp_community = c, rp_hostname = h, rp_port = port\<rparr>) \<and>
    unmarshal_peer_list (marshal_peer_list ps) =
      Some (Some (map (\<lambda>p. of_wire (ip_bytes (pi_vip p), pi_real p)) ps))"
proof
  show "unmarshal_register_payload (marshal_register_payload c h port) =
      Some (Inr \<lparr>rp_community = c, rp_hostname = h, rp_port = port\<rparr>)"
    using register_payload_read [OF assms(1-3), of "[]"] by simp
  have "\<forall>p \<in> set (map wire_of ps). wire_ok p"
    using assms(5) by (auto simp: wire_ok_def wire_of_def)
  from parse_peer_list_bytes [OF _ this, of "[]"] assms(4)
  show "unmarshal_peer_list (marshal_peer_list ps) =
      Some (Some (map (\<lambda>p. of_wire (ip_bytes (pi_vip p), pi_real p)) ps))"
    by (simp add: unmarshal_peer_list_def marshal_peer_list_def wire_of_def wire_view_def comp_def)
qed

text \<open>
  The packet reader and the peer-list reader accept any bytes without a panic, and so does
  an edge that handles any datagram.
\<close>

theorem readers_never_panic:
  "unmarshal_packet data \<noteq> None \<and> unmarshal_peer_list data \<noteq> None \<and> ed_handle_packet resolve e data \<noteq> None"
proof -
  have pl: "unmarshal_peer_list d \<noteq> None" for d
    using parse_peer_list_total [of d] by (simp add: unmarshal_peer_list_def)
  have "decrypt_and_unmarshal cr d \<noteq> None" for cr d
    by (simp add: decrypt_and_unmarshal_def unmarshal_packet_total del: not_None_eq split: option.split)
  then obtain r where r: "decrypt_and_unmarshal (ed_crypto e) data = Some r"
    by blast
  have "ed_handle_peers e pkt \<noteq> None" for pkt
    by (simp add: ed_handle_peers_def pl del: not_None_eq)
  with r have "ed_handle_packet resolve e data \<noteq> None"
    by (simp add: ed_handle_packet_def del: not_None_eq split: sum.split)
  with unmarshal_packet_total pl show ?thesis by blast
qed

definition crash_packet :: packet where
  "crash_packet = (bare_packet TypeRegister [])\<lparr>p_payload := [255, 255, 0, 0, 0, 0]\<rparr>"


text \<open>
  One datagram stops an open supernode. Without a password, a registration whose payload
  claims a community longer than the payload makes the handler slice out of bounds, in every
  state of the supernode: a panic in a goroutine that nothing recovers.
\<close>

theorem supernode_crash:
  assumes "sn_crypto s = None"
  shows "sn_handle_packet resolve now order s (marshal_packet crash_packet) remote = None"
proof -
  have "unmarshal_register_payload [255, 255, 0, 0, 0, 0] = None"
    by (simp add: unmarshal_register_payload_def u16_at_def at_index_def get_u16_def slice_def)
  moreover have "wire_src crash_packet = [0, 0, 0, 0]" "wire_dst crash_packet = [0, 0, 0, 0]"
    by code_simp+
  then have "unmarshal_packet (marshal_packet crash_packet) =
      Some (Inr \<lparr>p_type = TypeRegister, p_src = [0, 0, 0, 0], p_dst = [0, 0, 0, 0], p_payload = [255, 255, 0, 0, 0, 0]\<rparr>)"
    using packet_read [of crash_packet "[]"] by (simp add: crash_packet_def bare_packet_def)
  ultimately show ?thesis
    using assms by (simp add: sn_handle_packet_def decrypt_and_unmarshal_def sn_handle_register_def)
qed


section \<open>The peer table\<close>

text \<open>The steps of a supernode: a datagram is handled, or stale peers are cleaned up.\<close>

inductive sn_step :: "udp_resolver \<Rightarrow> supernode \<Rightarrow> supernode \<Rightarrow> bool" for resolve where
  packet: "sn_handle_packet resolve now order s data remote = Some (s', out) \<Longrightarrow> sn_step resolve s s'"
| stale: "sn_step resolve s (sn_cleanup now order s)"

inductive_cases sn_stepE: "sn_step resolve s s'"

inductive sn_reachable :: "udp_resolver \<Rightarrow> supernode \<Rightarrow> bool" for resolve where
  start: "new_supernode cidr community cr = Some s \<Longrightarrow> sn_reachable resolve s"
| step: "sn_reachable resolve s \<Longrightarrow> sn_step resolve s s' \<Longrightarrow> sn_reachable resolve s'"

definition sn_inv :: "supernode \<Rightarrow> bool" where
  "sn_inv s \<longleftrightarrow> vip_pool.tracks (sn_pool s) (sn_peers s) \<and>
     (\<forall>k e. sn_peers s k = Some e \<longrightarrow> k = ip_string (pi_vip (pe_info e)))"

text \<open>What a registration does to the table.\<close>

lemma sn_register_table:
  assumes "sn_handle_register resolve now order s pkt remote = Some (s', out)"
  shows "sn_peers s' = sn_peers s \<and> sn_pool s' = sn_pool s \<or>
    (\<exists>vip e. pool_allocate (sn_pool s) = (sn_pool s', Some vip) \<and> pi_vip (pe_info e) = vip \<and>
      sn_peers s' = (sn_peers s)(ip_string vip \<mapsto> e))"
proof -
  obtain r where r: "unmarshal_register_payload (p_payload pkt) = Some r"
    using assms by (auto simp: sn_handle_register_def bind_eq_Some_conv)
  obtain p' a where alloc: "pool_allocate (sn_pool s) = (p', a)"
    by (cases "pool_allocate (sn_pool s)")
  show ?thesis
  proof (cases r)
    case (Inr pl)
    show ?thesis
    proof (cases "rp_community pl = sn_community s")
      case True
      with assms r Inr alloc show ?thesis
        using vip_pool.alloc_None [of "sn_pool s" p']
        by (cases a) (auto simp: sn_handle_register_def Let_def intro!: exI)
    qed (use assms r Inr in \<open>simp add: sn_handle_register_def\<close>)
  qed (use assms r in \<open>simp add: sn_handle_register_def\<close>)
qed

lemma sn_inv_register:
  assumes "sn_inv s" "sn_handle_register resolve now order s pkt remote = Some (s', out)"
  shows "sn_inv s'"
  using sn_register_table [OF assms(2)] assms(1)
  by (auto simp: sn_inv_def dest: vip_pool.tracks_alloc split: if_splits)

lemma sn_inv_drop:
  assumes "sn_inv s" "sn_peers s k = Some e"
  shows "sn_inv (sn_drop s k e)"
proof -
  have "k = ip_string (pi_vip (pe_info e))"
    using assms by (simp add: sn_inv_def)
  with assms(1) vip_pool.tracks_release [of "sn_pool s" "sn_peers s" "pi_vip (pe_info e)"] show ?thesis
    by (simp add: sn_inv_def sn_drop_def)
qed

lemma sn_inv_heartbeat: "sn_inv s \<Longrightarrow> sn_inv (fst (sn_handle_heartbeat now order s pkt remote))"
  by (auto simp: sn_handle_heartbeat_def sn_inv_def Let_def
      intro: vip_pool.tracks_update split: option.splits)

lemma sn_inv_cleanup: "sn_inv s \<Longrightarrow> sn_inv (sn_cleanup now ks s)"
  by (induction ks arbitrary: s) (auto simp: sn_inv_drop split: option.splits)

lemma sn_packet_cases:
  assumes "sn_handle_packet resolve now order s data remote = Some (s', out)"
  shows "s' = s \<or> (\<exists>pkt. sn_handle_register resolve now order s pkt remote = Some (s', out)) \<or>
    (\<exists>pkt. sn_handle_heartbeat now order s pkt remote = (s', out)) \<or> (\<exists>pkt. s' = sn_handle_bye s pkt)"
proof -
  obtain r where "decrypt_and_unmarshal (sn_crypto s) data = Some r"
    using assms by (auto simp: sn_handle_packet_def bind_eq_Some_conv)
  with assms show ?thesis
    by (cases r) (auto simp: sn_handle_packet_def split: if_splits)
qed

lemma sn_inv_bye: "sn_inv s \<Longrightarrow> sn_inv (sn_handle_bye s pkt)"
  by (simp add: sn_handle_bye_def sn_inv_drop split: option.split)

lemma sn_inv_packet:
  assumes "sn_inv s" "sn_handle_packet resolve now order s data remote = Some (s', out)"
  shows "sn_inv s'"
  using sn_packet_cases [OF assms(2)] assms(1) sn_inv_register sn_inv_bye sn_inv_heartbeat
  by (metis fst_conv)

lemma sn_reachable_inv: "sn_reachable resolve s \<Longrightarrow> sn_inv s"
proof (induction rule: sn_reachable.induct)
  case (start cidr community cr s)
  then show ?case
    by (auto simp: new_supernode_def sn_inv_def vip_pool.tracks_empty split: option.splits)
next
  case (step s s')
  then show ?case
    by (auto elim: sn_stepE intro: sn_inv_packet sn_inv_cleanup)
qed

text \<open>
  C4: virtual addresses are unique. In every state that a supernode reaches, whatever datagrams
  arrive and however often stale peers are removed, two entries of its table have different
  addresses, and a registration either leaves the table alone or adds an entry under an
  address that no entry has: nobody's address is given to somebody else.
\<close>

theorem supernode_addresses_unique:
  assumes "sn_reachable resolve s" and "sn_handle_register resolve' now order s pkt remote = Some (s', out)"
  shows "(\<forall>k e k' e'. sn_peers s k = Some e \<longrightarrow> sn_peers s k' = Some e' \<longrightarrow>
      pi_vip (pe_info e) = pi_vip (pe_info e') \<longrightarrow> k = k') \<and>
    (sn_peers s' = sn_peers s \<or>
     (\<exists>vip e. sn_peers s (ip_string vip) = None \<and> pi_vip (pe_info e) = vip \<and>
        sn_peers s' = (sn_peers s)(ip_string vip \<mapsto> e)))"
proof
  have inv: "sn_inv s" using assms(1) by (rule sn_reachable_inv)
  then show "\<forall>k e k' e'. sn_peers s k = Some e \<longrightarrow> sn_peers s k' = Some e' \<longrightarrow>
      pi_vip (pe_info e) = pi_vip (pe_info e') \<longrightarrow> k = k'"
    unfolding sn_inv_def by metis
  show "sn_peers s' = sn_peers s \<or>
     (\<exists>vip e. sn_peers s (ip_string vip) = None \<and> pi_vip (pe_info e) = vip \<and>
        sn_peers s' = (sn_peers s)(ip_string vip \<mapsto> e))"
    using sn_register_table [OF assms(2)] inv vip_pool.alloc_fresh unfolding sn_inv_def by blast
qed


section \<open>Conversations\<close>

text \<open>The cipher recovers what it has sealed.\<close>

definition good_crypto :: "crypto option \<Rightarrow> bool" where
  "good_crypto cr \<longleftrightarrow> (case cr of None \<Rightarrow> True | Some c \<Rightarrow> \<forall>x. decrypt c (encrypt c x) = Some x)"

definition wire_packet :: "packet \<Rightarrow> packet" where
  "wire_packet p = \<lparr>p_type = p_type p, p_src = wire_src p, p_dst = wire_dst p, p_payload = p_payload p\<rparr>"

lemma receive_sealed:
  "good_crypto cr \<Longrightarrow> length (p_payload p) < 65536 \<Longrightarrow>
   decrypt_and_unmarshal cr (seal cr (marshal_packet p)) = Some (Inr (wire_packet p))"
  using packet_read [of p "[]"]
  by (auto simp: decrypt_and_unmarshal_def seal_def good_crypto_def wire_packet_def split: option.splits)

lemma ack_payload_fields:
  assumes "length vip = 4"
  shows "at_index (ack_payload vip ps) 0 = Some 4" "slice (ack_payload vip ps) 1 5 = Some vip"
    "at_index (ack_payload vip ps) 5 = Some (word_of_nat (length (marshal_peer_list ps) div 256))"
  using assms slice_at [of "[4]" 1 5 vip]
  by (auto simp: ack_payload_def Let_def at_index_def put_u16_def nth_append)

lemma unmarshal_peer_list_total: "\<exists>r. unmarshal_peer_list d = Some r"
  using parse_peer_list_total [of d] by (auto simp: unmarshal_peer_list_def)

text \<open>What an edge makes of an acknowledgement: its address, and peers only if the high byte
  of the length of the peer list is not zero.\<close>

lemma register_reply_ack:
  assumes "decrypt_and_unmarshal (ed_crypto e) data = Some (Inr pkt)"
    and "p_type pkt = TypeRegisterAck" "p_payload pkt = ack_payload vip ps" "length vip = 4"
  shows "\<exists>e'. ed_register_reply e data = Some (e', None) \<and> ed_vip e' = vip \<and>
    (length (marshal_peer_list ps) < 256 \<longrightarrow> ed_peers e' = ed_peers e)"
proof -
  note ack = ack_payload_fields [OF assms(4), of ps]
  let ?ll = "unat (word_of_nat (length (marshal_peer_list ps) div 256) :: byte)"
  let ?pl = "ack_payload vip ps"
  have idx: "at_index ?pl (Suc 4) = Some (word_of_nat (length (marshal_peer_list ps) div 256))"
    "slice ?pl (Suc 0) 5 = Some vip"
    using ack by simp_all
  have zero: "?ll = 0" if "length (marshal_peer_list ps) < 256"
    using that by simp
  show ?thesis
  proof (cases "0 < ?ll \<and> 6 + ?ll \<le> length ?pl")
    case True
    then have "slice ?pl 6 (6 + ?ll) = Some (take ?ll (drop 6 ?pl))"
      by (simp add: slice_def)
    moreover obtain r where "unmarshal_peer_list (take ?ll (drop 6 ?pl)) = Some r"
      using unmarshal_peer_list_total by blast
    moreover have "\<not> length (marshal_peer_list ps) < 256"
      using True zero by auto
    ultimately show ?thesis
      using assms ack True by (simp add: ed_register_reply_def Let_def)
  next
    case False
    with assms ack show ?thesis
      by (auto simp: ed_register_reply_def Let_def)
  qed
qed

lemma register_run:
  assumes "unmarshal_register_payload (p_payload pkt) = Some (Inr pl)"
    and "rp_community pl = sn_community s" and "pool_allocate (sn_pool s) = (p', Some vip)"
  obtains s' ack out entry where
    "sn_handle_register resolve now order s pkt remote = Some (s', sn_send s' ack remote # out)"
    "sn_crypto s' = sn_crypto s" "sn_peers s' (ip_string vip) = Some entry"
    "pi_real (pe_info entry) = real_addr_string remote"
    "p_type ack = TypeRegisterAck" "p_src ack = vip" "p_payload ack = ack_payload vip (peers_in s' order)"
  using assms by (auto simp: sn_handle_register_def Let_def)

lemma bare_packet_simps [simp]:
  "p_type (bare_packet t a) = t" "p_src (bare_packet t a) = a" "p_payload (bare_packet t a) = []"
  by (simp_all add: bare_packet_def)

text \<open>
 C21: the registration handshake. When the supernode and the edge share the community and a working
  cipher, and the pool has an IPv4 address left, the supernode answers the request of the edge with
  an acknowledgement, and enters the edge in its table under that address. When the list of peers in
  the acknowledgement has fewer than 256 bytes, the edge takes exactly that address from it, and
  none of the peers: the supernode writes the length of the list in two bytes and the edge reads
  one. (Nothing is said about longer lists.)
\<close>

theorem registration_handshake:
  assumes "sn_crypto s = ed_crypto e" and "good_crypto (ed_crypto e)"
    and "sn_community s = ed_community e"
    and "length (ed_community e) + length (ed_hostname e) < 65000"
    and "pool_allocate (sn_pool s) = (p', Some vip)" and "length vip = 4"
  shows "\<exists>s' ack out. sn_handle_packet resolve now order s (fst (ed_register_request e)) remote =
      Some (s', (ack, remote) # out) \<and>
    (\<exists>entry. sn_peers s' (ip_string vip) = Some entry \<and> pi_real (pe_info entry) = real_addr_string remote) \<and>
    (length (marshal_peer_list (peers_in s' order)) < 256 \<longrightarrow>
      (\<exists>e'. ed_register_reply e ack = Some (e', None) \<and> ed_vip e' = vip \<and> ed_peers e' = ed_peers e))"
proof -
  let ?req = "(bare_packet TypeRegister [])\<lparr>p_payload :=
      marshal_register_payload (ed_community e) (ed_hostname e) 0\<rparr>"
  have dec: "decrypt_and_unmarshal (sn_crypto s) (fst (ed_register_request e)) = Some (Inr (wire_packet ?req))"
    using assms(1,2,4) receive_sealed [of "ed_crypto e" ?req]
    by (simp add: ed_register_request_def ed_send_def marshal_register_payload_def)
  have payload: "unmarshal_register_payload (p_payload (wire_packet ?req)) =
      Some (Inr \<lparr>rp_community = ed_community e, rp_hostname = ed_hostname e, rp_port = 0\<rparr>)"
    using register_payload_read [of "ed_community e" "ed_hostname e" 0 "[]"] assms(4)
    by (simp add: wire_packet_def)
  obtain s' ack out entry where
    reg: "sn_handle_register resolve now order s (wire_packet ?req) remote = Some (s', sn_send s' ack remote # out)"
    and crypto: "sn_crypto s' = sn_crypto s"
    and entry: "sn_peers s' (ip_string vip) = Some entry" "pi_real (pe_info entry) = real_addr_string remote"
    and ack: "p_type ack = TypeRegisterAck" "p_src ack = vip" "p_payload ack = ack_payload vip (peers_in s' order)"
    by (rule register_run [OF payload _ assms(5)]) (auto simp: assms(3))
  have "p_type (wire_packet ?req) = TypeRegister"
    by (simp add: wire_packet_def)
  with dec reg have run: "sn_handle_packet resolve now order s (fst (ed_register_request e)) remote =
      Some (s', sn_send s' ack remote # out)"
    by (simp add: sn_handle_packet_def)
  have reply: "\<exists>e'. ed_register_reply e (fst (sn_send s' ack remote)) = Some (e', None) \<and> ed_vip e' = vip \<and>
      ed_peers e' = ed_peers e" if small: "length (marshal_peer_list (peers_in s' order)) < 256"
  proof -
    have "length (p_payload ack) < 65536"
      using small assms(6) by (simp add: ack ack_payload_def Let_def)
    with assms(1,2) have "decrypt_and_unmarshal (ed_crypto e) (fst (sn_send s' ack remote)) = Some (Inr (wire_packet ack))"
      by (simp add: sn_send_def crypto receive_sealed)
    from register_reply_ack [OF this, of vip "peers_in s' order"] ack assms(6) small show ?thesis
      by (auto simp: wire_packet_def)
  qed
  have "sn_send s' ack remote = (fst (sn_send s' ack remote), remote)"
    by (simp add: sn_send_def)
  with run entry reply show ?thesis
    by metis
qed

text \<open>
  Data between edges that know each other is delivered: the datagram that \<open>SendTo\<close>
  produces for a peer goes to the peer's address, and the peer hands to its callback the
  sender's address and exactly the data. For a destination that is not in the table the
  datagram goes to the supernode, which drops it: there is no relay.
\<close>

theorem edge_delivery:
  assumes "good_crypto (ed_crypto a)" and "ed_crypto b = ed_crypto a" and "length data < 65536"
    and "length (ed_vip a) = 4"
  shows "(case ed_peers a (ip_string dst) of
      None \<Rightarrow> snd (ed_send_to resolve a dst data) = ed_super a
    | Some p \<Rightarrow> (\<forall>addr. resolve (pi_real p) = Some addr \<longrightarrow> snd (ed_send_to resolve a dst data) = addr)) \<and>
    ed_handle_packet resolve' b (fst (ed_send_to resolve a dst data)) = Some (b, [], [(ed_vip a, data)]) \<and>
    (sn_crypto s = ed_crypto a \<longrightarrow>
      sn_handle_packet resolve' now order s (fst (ed_send_to resolve a dst data)) remote = Some (s, []))"
proof -
  let ?pkt = "\<lparr>p_type = TypeData, p_src = ed_vip a, p_dst = dst, p_payload = data\<rparr>"
  have "fst (ed_send_to resolve a dst data) = seal (ed_crypto a) (marshal_packet ?pkt)"
    by (simp add: ed_send_to_def ed_send_def Let_def)
  then have "decrypt_and_unmarshal (ed_crypto a) (fst (ed_send_to resolve a dst data)) = Some (Inr (wire_packet ?pkt))"
    using receive_sealed [OF assms(1), of ?pkt] assms(3) by simp
  moreover have "wire_src ?pkt = ed_vip a"
    using assms(4) by (auto simp: wire_src_def)
  ultimately show ?thesis
    using assms(2)
    by (auto simp: ed_handle_packet_def sn_handle_packet_def wire_packet_def packet_types
        ed_send_to_def ed_send_def Let_def split: option.splits)
qed


section \<open>Examples\<close>

definition n2n_demo_pool :: ip_pool where
  "n2n_demo_pool = \<lparr>pool_network = \<lparr>net_ip = [10, 200, 0, 0], net_mask = [255, 255, 0, 0]\<rparr>,
     pool_base = [10, 200, 0, 10], pool_used = {}\<rparr>"

definition n2n_demo_supernode :: supernode where
  "n2n_demo_supernode = \<lparr>sn_community = ''c'', sn_crypto = None, sn_peers = Map.empty,
     sn_addr_index = Map.empty, sn_pool = n2n_demo_pool\<rparr>"

definition n2n_demo_remote :: udp_addr where
  "n2n_demo_remote = \<lparr>ua_ip = [1, 2, 3, 4], ua_port = 5\<rparr>"

definition n2n_demo_edge :: edge where
  "n2n_demo_edge = \<lparr>ed_community = ''c'', ed_hostname = ''h'', ed_crypto = None, ed_super = n2n_demo_remote,
     ed_local = [], ed_vip = [10, 200, 0, 10], ed_peers = Map.empty\<rparr>"

lemma n2n_demo_new_supernode: "new_supernode ''10.200.0.0/16'' ''c'' None = Some n2n_demo_supernode"
proof -
  have "parse_cidr ''10.200.0.0/16'' = Some (pool_network n2n_demo_pool)"
    by code_simp
  then show ?thesis
    by (simp add: new_supernode_def new_pool_def n2n_demo_supernode_def n2n_demo_pool_def with_last_def)
qed

lemma n2n_demo_allocate:
  "pool_allocate n2n_demo_pool = (n2n_demo_pool\<lparr>pool_used := {ip_string [10, 200, 0, 10]}\<rparr>, Some [10, 200, 0, 10])"
proof -
  have hosts: "pool_hosts = 10 # [11..<255]"
    unfolding pool_hosts_def by (subst upt_conv_Cons) simp_all
  have "pool_scan [10, 200, 0, 10] {} pool_hosts = Some [10, 200, 0, 10]"
    unfolding hosts pool_scan.simps by (simp add: with_last_def)
  then show ?thesis
    by (simp add: pool_allocate_def n2n_demo_pool_def)
qed

theorem packet_roundtrip_witness:
  "unmarshal_packet (marshal_packet \<lparr>p_type = 5, p_src = [10, 0, 0, 1], p_dst = [], p_payload = [7, 8]\<rparr> @ [9]) =
    Some (Inr \<lparr>p_type = 5, p_src = [10, 0, 0, 1], p_dst = [0, 0, 0, 0], p_payload = [7, 8]\<rparr>)"
proof -
  have "wire_src \<lparr>p_type = 5, p_src = [10, 0, 0, 1], p_dst = [], p_payload = [7, 8]\<rparr> = [10, 0, 0, 1]"
    "wire_dst \<lparr>p_type = 5, p_src = [10, 0, 0, 1], p_dst = [], p_payload = [7, 8]\<rparr> = [0, 0, 0, 0]"
    by code_simp+
  then show ?thesis
    using packet_roundtrip [of "\<lparr>p_type = 5, p_src = [10, 0, 0, 1], p_dst = [], p_payload = [7, 8]\<rparr>" "[9]"]
    by simp
qed

theorem payload_roundtrips_witness:
  "unmarshal_register_payload (marshal_register_payload ''com'' ''host'' 7) =
      Some (Inr \<lparr>rp_community = ''com'', rp_hostname = ''host'', rp_port = 7\<rparr>) \<and>
    unmarshal_peer_list (marshal_peer_list [of_wire ([1, 2, 3, 4], ''a:1'')]) =
      Some (Some [of_wire ([1, 2, 3, 4], ''a:1'')])"
  using payload_roundtrips [of "''com''" "''host''" 7 "[of_wire ([1, 2, 3, 4], ''a:1'')]"]
  by (simp add: of_wire_def)

theorem supernode_crash_witness:
  "sn_handle_packet (\<lambda>a. None) 0 [] n2n_demo_supernode (marshal_packet crash_packet) n2n_demo_remote = None"
  by (rule supernode_crash) (simp add: n2n_demo_supernode_def)

lemma n2n_demo_reachable: "sn_reachable (\<lambda>a. None) n2n_demo_supernode"
  using n2n_demo_new_supernode by (rule sn_reachable.start)

definition n2n_demo_register :: packet where
  "n2n_demo_register = \<lparr>p_type = TypeRegister, p_src = [], p_dst = [],
     p_payload = marshal_register_payload ''c'' ''h'' 0\<rparr>"

theorem supernode_addresses_unique_witness:
  "\<exists>s' out. sn_handle_register (\<lambda>a. None) 0 [] n2n_demo_supernode n2n_demo_register n2n_demo_remote = Some (s', out) \<and>
    (\<exists>vip e. pi_vip (pe_info e) = vip \<and> sn_peers s' = [ip_string vip \<mapsto> e])"
proof -
  have "unmarshal_register_payload (p_payload n2n_demo_register) =
      Some (Inr \<lparr>rp_community = ''c'', rp_hostname = ''h'', rp_port = 0\<rparr>)"
    using register_payload_read [of "''c''" "''h''" 0 "[]"] by (simp add: n2n_demo_register_def)
  then obtain s' ack out entry where
    run: "sn_handle_register (\<lambda>a. None) 0 [] n2n_demo_supernode n2n_demo_register n2n_demo_remote = Some (s', sn_send s' ack n2n_demo_remote # out)"
    and entry: "sn_peers s' (ip_string [10, 200, 0, 10]) = Some entry"
    by (rule register_run) (auto simp: n2n_demo_supernode_def n2n_demo_allocate)
  have "sn_peers n2n_demo_supernode = Map.empty"
    by (simp add: n2n_demo_supernode_def)
  with supernode_addresses_unique [OF n2n_demo_reachable run] entry run show ?thesis
    by auto
qed

theorem registration_handshake_witness:
  "\<exists>s' ack out. sn_handle_packet (\<lambda>a. None) 0 [] n2n_demo_supernode (fst (ed_register_request n2n_demo_edge)) n2n_demo_remote =
      Some (s', (ack, n2n_demo_remote) # out) \<and>
    (\<exists>e'. ed_register_reply n2n_demo_edge ack = Some (e', None) \<and> ed_vip e' = [10, 200, 0, 10] \<and>
      ed_peers e' = Map.empty)"
proof -
  have "length (marshal_peer_list (peers_in s' [])) < 256" for s'
    by (simp add: peers_in_def marshal_peer_list_def peer_list_bytes_def List.map_filter_simps)
  then show ?thesis
    using registration_handshake [of n2n_demo_supernode n2n_demo_edge _ "[10, 200, 0, 10]" "\<lambda>a. None" 0 "[]" n2n_demo_remote]
    by (fastforce simp: n2n_demo_supernode_def n2n_demo_edge_def n2n_demo_allocate good_crypto_def)
qed

theorem edge_delivery_witness:
  "snd (ed_send_to (\<lambda>a. None) n2n_demo_edge [9, 9, 9, 9] [1, 2]) = n2n_demo_remote \<and>
    ed_handle_packet (\<lambda>a. None) n2n_demo_edge (fst (ed_send_to (\<lambda>a. None) n2n_demo_edge [9, 9, 9, 9] [1, 2])) =
      Some (n2n_demo_edge, [], [([10, 200, 0, 10], [1, 2])])"
  using edge_delivery [where a = n2n_demo_edge and b = n2n_demo_edge and data = "[1, 2]" and dst = "[9, 9, 9, 9]"
      and resolve = "\<lambda>a. None" and resolve' = "\<lambda>a. None"]
  by (simp add: n2n_demo_edge_def good_crypto_def)

end
