(* ===== verification/Stunvpv.thy ===== *)
theory Stunvpv
  imports Overlay_Codec
begin

text \<open>
  The relayed overlay network (\<open>stunvpv/server.go\<close>, \<open>client.go\<close>): control messages, the
  server that registers clients and relays between them, and the client.

  The outer option of an operation is a panic; sent datagrams are returned. \<open>resolve\<close> turns
  text into an address, \<open>order\<close> lists the keys of the peer map in the order of a range loop,
  and \<open>stun\<close> stands for the third-party STUN package: its test for STUN messages and the
  response it builds for a request.
\<close>

section \<open>Messages\<close>

definition msgRegister :: byte where "msgRegister = 1"
definition msgRegisterAck :: byte where "msgRegisterAck = 2"
definition msgPeerList :: byte where "msgPeerList = 3"
definition msgData :: byte where "msgData = 4"

lemmas msg_types = msgRegister_def msgRegisterAck_def msgPeerList_def msgData_def

text \<open>\<open>makeControlMessage\<close>: without an address the field has 16 zero bytes.\<close>

definition control_addr :: "ip \<Rightarrow> bytes" where
  "control_addr vip = (case to4 vip of
       Some b \<Rightarrow> b
     | None \<Rightarrow> (case to16 vip of Some b \<Rightarrow> b | None \<Rightarrow> replicate 16 0))"

definition make_control :: "byte \<Rightarrow> ip \<Rightarrow> bytes \<Rightarrow> bytes" where
  "make_control t vip payload =
     (let a = control_addr vip
      in [t, word_of_nat (length a)] @ a @ replicate 4 0 @ put_u16 (length payload) @ payload)"

text \<open>
  The common beginning of \<open>handleControl\<close> and \<open>handlePacket\<close>: None is a panic, Some None a
  message that is ignored.
\<close>

definition parse_control :: "bytes \<Rightarrow> (byte \<times> ip \<times> bytes) option option" where
  "parse_control data =
     (if length data < 8 then Some None
      else do {
        t \<leftarrow> at_index data 0;
        al \<leftarrow> at_index data 1;
        let addr_len = unat al;
        (if addr_len \<noteq> 4 \<and> addr_len \<noteq> 16 then Some None
         else if length data < 8 + addr_len then Some None
         else do {
           vip \<leftarrow> slice data 2 (2 + addr_len);
           n \<leftarrow> u16_at data (6 + addr_len);
           payload \<leftarrow> slice data (8 + addr_len) (length data);
           payload' \<leftarrow> (if n < length payload then slice payload 0 n else Some payload);
           Some (Some (t, vip, payload'))
         })
      })"

record vpv_peer =
  vp_vip :: ip
  vp_relay :: "udp_addr option"
  vp_last_seen :: int
  vp_hostname :: string

definition relay_string :: "udp_addr option \<Rightarrow> string" where
  "relay_string a = (case a of None \<Rightarrow> ''<nil>'' | Some u \<Rightarrow> udp_string u)"

definition vpv_marshal_peers :: "vpv_peer list \<Rightarrow> bytes" where
  "vpv_marshal_peers ps = peer_list_bytes (map (\<lambda>p. (vp_vip p, relay_string (vp_relay p))) ps)"

definition vpv_unmarshal_peers ::
    "(string \<Rightarrow> udp_addr option) \<Rightarrow> bytes \<Rightarrow> vpv_peer list option option" where
  "vpv_unmarshal_peers resolve data = map_option (map_option (map (\<lambda>(vip, addr).
     \<lparr>vp_vip = vip, vp_relay = resolve addr, vp_last_seen = 0, vp_hostname = []\<rparr>))) (parse_peer_list data)"

section \<open>Server\<close>

record vpv_server =
  sv_peers :: "string \<rightharpoonup> vpv_peer"
  sv_index :: "string \<rightharpoonup> string"
  sv_pool :: ip_pool

type_synonym datagram = "bytes \<times> udp_addr"

record stun_lib =
  is_stun :: "bytes \<Rightarrow> bool"
  binding_response :: "bytes \<Rightarrow> udp_addr \<Rightarrow> bytes option"

definition new_server :: "string \<Rightarrow> vpv_server option" where
  "new_server cidr = (case new_pool cidr of
       None \<Rightarrow> None
     | Some p \<Rightarrow> Some \<lparr>sv_peers = Map.empty, sv_index = Map.empty, sv_pool = p\<rparr>)"

definition sv_peers_in :: "vpv_server \<Rightarrow> string list \<Rightarrow> vpv_peer list" where
  "sv_peers_in s order = List.map_filter (sv_peers s) order"

definition send_register_ack :: "ip \<Rightarrow> vpv_peer list \<Rightarrow> udp_addr \<Rightarrow> datagram" where
  "send_register_ack vip ps to = (make_control msgRegisterAck vip (vpv_marshal_peers ps), to)"

definition broadcast_peer_list :: "vpv_server \<Rightarrow> string list \<Rightarrow> ip \<Rightarrow> datagram list" where
  "broadcast_peer_list s order except =
     (let ps = sv_peers_in s order; payload = vpv_marshal_peers ps
      in List.map_filter (\<lambda>p. if ip_equal (vp_vip p) except then None
           else map_option (Pair (make_control msgPeerList (vp_vip p) payload)) (vp_relay p)) ps)"

definition sv_handle_register ::
    "int \<Rightarrow> string list \<Rightarrow> vpv_server \<Rightarrow> bytes \<Rightarrow> ip \<Rightarrow> udp_addr \<Rightarrow> vpv_server \<times> datagram list" where
  "sv_handle_register now order s payload vip remote =
     (let (pool', assigned) = (if is_unspecified vip then pool_allocate (sv_pool s)
                               else (sv_pool s, Some vip))
      in case assigned of
           None \<Rightarrow> (s\<lparr>sv_pool := pool'\<rparr>, [])
         | Some a \<Rightarrow>
             (let p = \<lparr>vp_vip = a, vp_relay = Some remote, vp_last_seen = now,
                       vp_hostname = string_of_bytes payload\<rparr>;
                  s' = s\<lparr>sv_pool := pool', sv_peers := (sv_peers s)(ip_string a \<mapsto> p),
                         sv_index := (sv_index s)(udp_string remote \<mapsto> ip_string a)\<rparr>
              in (s', send_register_ack a (sv_peers_in s' order) remote # broadcast_peer_list s' order a)))"

definition sv_handle_relay :: "vpv_server \<Rightarrow> ip \<Rightarrow> bytes \<Rightarrow> udp_addr \<Rightarrow> datagram list" where
  "sv_handle_relay s dst payload from = (case sv_peers s (ip_string dst) of
       None \<Rightarrow> []
     | Some p \<Rightarrow> (case sv_index s (udp_string from) of
         None \<Rightarrow> []
       | Some src \<Rightarrow> (case parse_ip src of
           None \<Rightarrow> []
         | Some a \<Rightarrow> (case vp_relay p of
             None \<Rightarrow> [] | Some to \<Rightarrow> [(make_control msgData a payload, to)]))))"

definition sv_handle_control ::
    "int \<Rightarrow> string list \<Rightarrow> vpv_server \<Rightarrow> bytes \<Rightarrow> udp_addr \<Rightarrow> (vpv_server \<times> datagram list) option" where
  "sv_handle_control now order s data remote = map_option (\<lambda>r. case r of
       None \<Rightarrow> (s, [])
     | Some (t, vip, payload) \<Rightarrow>
         (if t = msgRegister then sv_handle_register now order s payload vip remote
          else if t = msgData then (s, sv_handle_relay s vip payload remote)
          else (s, []))) (parse_control data)"

definition sv_handle_packet ::
    "stun_lib \<Rightarrow> int \<Rightarrow> string list \<Rightarrow> vpv_server \<Rightarrow> bytes \<Rightarrow> udp_addr \<Rightarrow>
     (vpv_server \<times> datagram list) option" where
  "sv_handle_packet lib now order s data remote =
     (if is_stun lib data
      then Some (s, case binding_response lib data remote of None \<Rightarrow> [] | Some r \<Rightarrow> [(r, remote)])
      else sv_handle_control now order s data remote)"

definition sv_handle_bye :: "vpv_server \<Rightarrow> udp_addr \<Rightarrow> vpv_server" where
  "sv_handle_bye s remote = (case sv_index s (udp_string remote) of
       None \<Rightarrow> s
     | Some vip \<Rightarrow>
         (let pool' = (case sv_peers s vip of
              None \<Rightarrow> sv_pool s | Some p \<Rightarrow> pool_release (sv_pool s) (vp_vip p))
          in s\<lparr>sv_pool := pool', sv_peers := (sv_peers s)(vip := None),
               sv_index := (sv_index s)(udp_string remote := None)\<rparr>))"

fun sv_cleanup :: "int \<Rightarrow> string list \<Rightarrow> vpv_server \<Rightarrow> vpv_server" where
  "sv_cleanup now [] s = s"
| "sv_cleanup now (k # ks) s = (case sv_peers s k of
       None \<Rightarrow> sv_cleanup now ks s
     | Some p \<Rightarrow> sv_cleanup now ks
         (if 300000000000 < now - vp_last_seen p
          then s\<lparr>sv_pool := pool_release (sv_pool s) (vp_vip p),
                 sv_index := (sv_index s)(relay_string (vp_relay p) := None),
                 sv_peers := (sv_peers s)(k := None)\<rparr>
          else s))"

section \<open>Client\<close>

record vpv_client =
  cl_server :: udp_addr
  cl_hostname :: string
  cl_vip :: ip
  cl_peers :: "string \<rightharpoonup> vpv_peer"

definition new_client ::
    "(string \<Rightarrow> udp_addr option) \<Rightarrow> string \<Rightarrow> string \<Rightarrow> vpv_client option" where
  "new_client resolve server hostname =
     (if server = [] then None
      else map_option (\<lambda>a. \<lparr>cl_server = a, cl_hostname = hostname, cl_vip = [], cl_peers = Map.empty\<rparr>)
             (resolve server))"

definition cl_register_request :: "vpv_client \<Rightarrow> datagram" where
  "cl_register_request c = (make_control msgRegister [] (bytes_of_string (cl_hostname c)), cl_server c)"

definition cl_learn :: "vpv_client \<Rightarrow> vpv_peer list \<Rightarrow> vpv_client" where
  "cl_learn c ps = c\<lparr>cl_peers := fold (\<lambda>p m. m(ip_string (vp_vip p) \<mapsto> p))
     (filter (\<lambda>p. \<not> ip_equal (vp_vip p) (cl_vip c)) ps) (cl_peers c)\<rparr>"

text \<open>
  What \<open>register\<close> does with the reply: True is success. The reply is a prefix of a larger
  buffer, so that reading the address of a short reply does not panic; cutting the payload does.
\<close>

definition cl_register_reply ::
    "(string \<Rightarrow> udp_addr option) \<Rightarrow> vpv_client \<Rightarrow> bytes \<Rightarrow> (vpv_client \<times> bool) option" where
  "cl_register_reply resolve c resp =
     (if length resp < 8 then Some (c, False)
      else if resp ! 0 \<noteq> msgRegisterAck then Some (c, False)
      else let addr_len = unat (resp ! 1) in
        if addr_len \<noteq> 4 \<and> addr_len \<noteq> 16 then Some (c, False)
        else if length resp < 8 + addr_len then None
        else do {
          vip \<leftarrow> slice resp 2 (2 + addr_len);
          n \<leftarrow> u16_at resp (6 + addr_len);
          payload \<leftarrow> slice resp (8 + addr_len) (length resp);
          payload' \<leftarrow> (if n < length payload then slice payload 0 n else Some payload);
          let c' = c\<lparr>cl_vip := vip\<rparr>;
          (if 2 < length payload'
           then map_option (\<lambda>r. (case r of None \<Rightarrow> c' | Some ps \<Rightarrow> cl_learn c' ps, True))
                  (vpv_unmarshal_peers resolve payload')
           else Some (c', True))
        })"

text \<open>The client, and what it gives to its data callback.\<close>

definition cl_handle_packet ::
    "(string \<Rightarrow> udp_addr option) \<Rightarrow> vpv_client \<Rightarrow> bytes \<Rightarrow> (vpv_client \<times> (ip \<times> bytes) list) option" where
  "cl_handle_packet resolve c data = do {
     r \<leftarrow> parse_control data;
     (case r of
        None \<Rightarrow> Some (c, [])
      | Some (t, src, payload) \<Rightarrow>
          (if t = msgPeerList
           then map_option (\<lambda>r. (case r of None \<Rightarrow> c | Some ps \<Rightarrow> cl_learn c ps, []))
                  (vpv_unmarshal_peers resolve payload)
           else if t = msgData then Some (c, [(src, payload)])
           else Some (c, [])))
   }"

definition cl_send_to :: "vpv_client \<Rightarrow> ip \<Rightarrow> bytes \<Rightarrow> datagram" where
  "cl_send_to c dst data = (make_control msgData dst data, cl_server c)"

definition cl_heartbeat :: "vpv_client \<Rightarrow> datagram" where
  "cl_heartbeat c = (make_control msgRegister (cl_vip c) (bytes_of_string (cl_hostname c)), cl_server c)"


section \<open>Formats\<close>

lemma length_control_addr: "length (control_addr vip) = 4 \<or> length (control_addr vip) = 16"
  using to4_length [of vip] to16_length [of vip] by (auto simp: control_addr_def split: option.splits)

lemma control_addr_4: "length vip = 4 \<Longrightarrow> control_addr vip = vip"
  by (simp add: control_addr_def)

lemma control_addr_nil: "control_addr [] = replicate 16 0"
  by (simp add: control_addr_def)

lemma parse_make_control:
  assumes "length payload < 65536"
  shows "parse_control (make_control t vip payload @ rest) = Some (Some (t, control_addr vip, payload))"
proof -
  let ?a = "control_addr vip" and ?k = "length payload"
  let ?d = "[t, word_of_nat (length ?a)] @ ?a @ replicate 4 0 @ put_u16 ?k @ payload @ rest"
  have n: "length ?a = 4 \<or> length ?a = 16" by (rule length_control_addr)
  then have al: "unat (word_of_nat (length ?a) :: byte) = length ?a"
    by (auto simp: unat_of_nat)
  have a: "slice ?d 2 (2 + length ?a) = Some ?a"
    using slice_at [of "[t, word_of_nat (length ?a)]" 2 "2 + length ?a" ?a] by simp
  have k: "u16_at ?d (6 + length ?a) = Some ?k"
    using u16_at_put [of "[t, word_of_nat (length ?a)] @ ?a @ replicate 4 0" "6 + length ?a" ?k] assms
    by simp
  have p: "slice ?d (8 + length ?a) (length ?d) = Some (payload @ rest)"
    using slice_at [of "[t, word_of_nat (length ?a)] @ ?a @ replicate 4 0 @ put_u16 ?k"
        "8 + length ?a" "length ?d" "payload @ rest" "[]"] by simp
  have cut: "slice (payload @ rest) 0 ?k = Some payload"
    by (simp add: slice_def)
  have idx: "at_index ?d 0 = Some t" "at_index ?d 1 = Some (word_of_nat (length ?a))"
    by (simp_all add: at_index_def)
  have eq: "make_control t vip payload @ rest = ?d"
    by (simp add: make_control_def Let_def)
  show ?thesis
    unfolding eq parse_control_def using n al a k p cut idx
    by (auto simp: Let_def)
qed

text \<open>
  The documented test of the STUN package: at least 20 bytes, and the magic cookie in bytes 4
  to 7. A control message about an IPv4 address has zeros in bytes 6 and 7, one without an
  address in all four.
\<close>

definition stun_cookie :: "stun_lib \<Rightarrow> bool" where
  "stun_cookie lib \<longleftrightarrow> (\<forall>d. is_stun lib d \<longrightarrow> 20 \<le> length d \<and> take 4 (drop 4 d) = [33, 18, 164, 66])"

lemma control_not_stun:
  assumes "stun_cookie lib" "length vip = 4 \<or> vip = []"
  shows "\<not> is_stun lib (make_control t vip payload)"
proof
  assume "is_stun lib (make_control t vip payload)"
  then have "take 4 (drop 4 (make_control t vip payload)) = [33, 18, 164, 66]"
    using assms(1) unfolding stun_cookie_def by blast
  moreover have "take 4 (drop 4 (make_control t vip payload)) ! 3 = 0"
  proof (cases "vip = []")
    case True
    then show ?thesis by (simp add: make_control_def control_addr_nil Let_def nth_append nth_Cons')
  next
    case False
    with assms(2) obtain w x y z where "vip = [w, x, y, z]" using length_4_cases by blast
    then show ?thesis by (simp add: make_control_def control_addr_4 Let_def nth_append nth_Cons')
  qed
  ultimately show False by simp
qed

text \<open>
  Control messages survive the wire: the server and the client read from the bytes of
  \<open>makeControlMessage\<close>, also when more bytes follow, the type, the address in its wire form and
  a payload of fewer than 65536 bytes.
\<close>

theorem control_roundtrip:
  assumes "length payload < 65536"
  shows "parse_control (make_control t vip payload @ rest) = Some (Some (t, control_addr vip, payload))"
  using assms by (rule parse_make_control)

lemma parse_make_control_exact:
  "length payload < 65536 \<Longrightarrow> parse_control (make_control t vip payload) = Some (Some (t, control_addr vip, payload))"
  using parse_make_control [of payload t vip "[]"] by simp

section \<open>Relaying\<close>

text \<open>
  Relayed data cannot be forged. When a client sends data to a registered IPv4 address, the
  server sends one datagram, to the address registered for the destination, and the receiver
  hands to its callback the data and, as the source, the virtual address that the server has
  on record for the sender's real address, whatever the sender may claim.
\<close>

theorem relay_delivery:
  assumes "stun_cookie lib" and "length dst = 4" and "length data < 65536"
    and "sv_index s (udp_string from) = Some (ip_string a)" and "length a = 4"
    and "sv_peers s (ip_string dst) = Some p" and "vp_relay p = Some to"
  shows "\<exists>m. sv_handle_packet lib now order s (fst (cl_send_to c dst data)) from = Some (s, [(m, to)]) \<and>
    cl_handle_packet resolve c' m = Some (c', [(a, data)])"
proof -
  let ?m = "make_control msgData (v4_in_v6_prefix @ a) data"
  have "\<not> is_stun lib (make_control msgData dst data)"
    using control_not_stun assms(1,2) by blast
  moreover have "sv_handle_relay s dst data from = [(?m, to)]"
    using assms by (simp add: sv_handle_relay_def parse_ip_dotted)
  ultimately have "sv_handle_packet lib now order s (fst (cl_send_to c dst data)) from = Some (s, [(?m, to)])"
    using assms(2,3)
    by (simp add: sv_handle_packet_def sv_handle_control_def cl_send_to_def parse_make_control_exact
        control_addr_4 msg_types)
  moreover have "control_addr (v4_in_v6_prefix @ a) = a"
    using assms(5) by (simp add: control_addr_def)
  then have "cl_handle_packet resolve c' ?m = Some (c', [(a, data)])"
    using assms(3) by (simp add: cl_handle_packet_def parse_make_control_exact msg_types)
  ultimately show ?thesis by blast
qed

text \<open>
  C23: but addresses can be taken over. Anyone who registers with the virtual address of a client
  replaces it in the table without any check: from then on the data for that address goes to
  the newcomer.
\<close>

theorem register_takes_over:
  assumes "stun_cookie lib" and "length victim = 4" and "victim \<noteq> [0, 0, 0, 0]" and "length host < 65536"
    and "sv_index s (udp_string from) = Some (ip_string a)" and "length a = 4"
    and "udp_string from \<noteq> udp_string attacker"
  shows "\<exists>s' out. sv_handle_packet lib now order s (make_control msgRegister victim host) attacker = Some (s', out) \<and>
    (\<exists>m. sv_handle_relay s' victim data from = [(m, attacker)])"
proof -
  have "\<not> is_unspecified victim"
    using assms(2,3) by (simp add: is_unspecified_4)
  moreover have "\<not> is_stun lib (make_control msgRegister victim host)"
    using control_not_stun assms(1,2) by blast
  ultimately show ?thesis
    using assms by (auto simp: sv_handle_packet_def sv_handle_control_def sv_handle_register_def
        sv_handle_relay_def parse_make_control_exact control_addr_4 parse_ip_dotted Let_def)
qed

section \<open>Registering\<close>

lemma unspecified_16: "is_unspecified (replicate 16 0)"
  by (simp add: is_unspecified_def)

lemma fold_learn_keep:
  "m k \<noteq> None \<Longrightarrow> fold (\<lambda>p m. m(ip_string (vp_vip p) \<mapsto> p)) (ps :: vpv_peer list) m k \<noteq> None"
  by (induction ps arbitrary: m) auto

lemma fold_learn:
  "p \<in> set (ps :: vpv_peer list) \<Longrightarrow>
   fold (\<lambda>p m. m(ip_string (vp_vip p) \<mapsto> p)) ps m (ip_string (vp_vip p)) \<noteq> None"
proof (induction ps arbitrary: m)
  case (Cons q ps)
  let ?m = "m(ip_string (vp_vip q) \<mapsto> q)"
  have "?m (ip_string (vp_vip q)) \<noteq> None" by simp
  from fold_learn_keep [of ?m "ip_string (vp_vip q)", OF this, of ps] Cons show ?case
    by (cases "p = q") (simp_all del: fun_upd_apply not_None_eq)
qed simp

lemma cl_learn_known:
  assumes "p \<in> set ps" "length (vp_vip p) = 4" "length (cl_vip c) = 4" "vp_vip p \<noteq> cl_vip c"
  shows "cl_peers (cl_learn c ps) (ip_string (vp_vip p)) \<noteq> None"
  using assms fold_learn [of p "filter (\<lambda>p. \<not> ip_equal (vp_vip p) (cl_vip c)) ps" "cl_peers c"]
  by (simp add: cl_learn_def ip_equal_4)

lemma client_reply_ack:
  assumes "length vip = 4" "length payload < 65536"
  shows "cl_register_reply resolve c (make_control msgRegisterAck vip payload) =
    (if 2 < length payload
     then map_option (\<lambda>r. (case r of None \<Rightarrow> c\<lparr>cl_vip := vip\<rparr> | Some ps \<Rightarrow> cl_learn (c\<lparr>cl_vip := vip\<rparr>) ps, True))
            (vpv_unmarshal_peers resolve payload)
     else Some (c\<lparr>cl_vip := vip\<rparr>, True))"
proof -
  let ?k = "length payload"
  let ?d = "[msgRegisterAck, 4] @ vip @ replicate 4 0 @ put_u16 ?k @ payload"
  have eq: "make_control msgRegisterAck vip payload = ?d"
    using assms(1) by (simp add: make_control_def control_addr_4)
  have a: "slice ?d 2 6 = Some vip"
    using slice_at [of "[msgRegisterAck, 4]" 2 6 vip] assms(1) by simp
  have k: "u16_at ?d 10 = Some ?k"
    using u16_at_put [of "[msgRegisterAck, 4] @ vip @ replicate 4 0" 10 ?k payload] assms by simp
  have p: "slice ?d 12 (length ?d) = Some payload"
    using slice_at [of "[msgRegisterAck, 4] @ vip @ replicate 4 0 @ put_u16 ?k" 12 "length ?d" payload "[]"]
      assms(1) by simp
  have b: "?d ! 0 = msgRegisterAck" "unat (?d ! 1) = 4" "\<not> length ?d < 8" "\<not> length ?d < 8 + 4"
    using assms(1) by simp_all
  show ?thesis
    unfolding eq cl_register_reply_def Let_def b
    using a k p assms(1) by (simp del: append.simps append_Cons One_nat_def)
qed

text \<open>The table fits one acknowledgement.\<close>

definition list_fits :: "vpv_server \<Rightarrow> string list \<Rightarrow> bool" where
  "list_fits s order \<longleftrightarrow> length (vpv_marshal_peers (sv_peers_in s order)) < 65536 \<and>
     length (sv_peers_in s order) < 65536 \<and>
     (\<forall>p \<in> set (sv_peers_in s order). length (vp_vip p) = 4 \<and> length (relay_string (vp_relay p)) < 65536)"

text \<open>
  The registration conversation. A client without an address is given one that the pool did
  not count as used and is entered in the table under it; if the table fits one message, the
  client takes from the acknowledgement exactly that address and learns every other client.
\<close>

theorem client_registration:
  assumes "stun_cookie lib" and "length (cl_hostname c) < 65536"
    and "pool_allocate (sv_pool s) = (pool', Some vip)" and "length vip = 4"
  shows "\<exists>s' ack out. sv_handle_packet lib now order s (fst (cl_register_request c)) remote = Some (s', (ack, remote) # out) \<and>
    ip_string vip \<notin> pool_used (sv_pool s) \<and> sv_index s' (udp_string remote) = Some (ip_string vip) \<and>
    (list_fits s' order \<longrightarrow> (\<exists>c'. cl_register_reply resolve c ack = Some (c', True) \<and> cl_vip c' = vip \<and>
      (\<forall>p \<in> set (sv_peers_in s' order). vp_vip p \<noteq> vip \<longrightarrow> cl_peers c' (ip_string (vp_vip p)) \<noteq> None)))"
proof -
  define s' where "s' = s\<lparr>sv_pool := pool', sv_peers := (sv_peers s)(ip_string vip \<mapsto>
      \<lparr>vp_vip = vip, vp_relay = Some remote, vp_last_seen = now, vp_hostname = cl_hostname c\<rparr>),
      sv_index := (sv_index s)(udp_string remote \<mapsto> ip_string vip)\<rparr>"
  let ?ps = "sv_peers_in s' order" and ?c = "c\<lparr>cl_vip := vip\<rparr>"
  let ?w = "map (\<lambda>p. (vp_vip p, relay_string (vp_relay p))) ?ps"
  let ?ack = "make_control msgRegisterAck vip (vpv_marshal_peers ?ps)"
  have "\<not> is_stun lib (fst (cl_register_request c))"
    using control_not_stun [OF assms(1)] by (simp add: cl_register_request_def)
  then have run: "sv_handle_packet lib now order s (fst (cl_register_request c)) remote =
      Some (s', (?ack, remote) # broadcast_peer_list s' order vip)"
    using assms(2,3)
    by (simp add: sv_handle_packet_def sv_handle_control_def cl_register_request_def parse_make_control_exact
        control_addr_nil sv_handle_register_def unspecified_16 send_register_ack_def s'_def Let_def)
  have reply: "\<exists>c'. cl_register_reply resolve c ?ack = Some (c', True) \<and> cl_vip c' = vip \<and>
      (\<forall>p \<in> set ?ps. vp_vip p \<noteq> vip \<longrightarrow> cl_peers c' (ip_string (vp_vip p)) \<noteq> None)" if "list_fits s' order"
  proof (cases "2 < length (vpv_marshal_peers ?ps)")
    case True
    define heard where "heard p = \<lparr>vp_vip = vp_vip p, vp_relay = resolve (relay_string (vp_relay p)),
        vp_last_seen = 0, vp_hostname = []\<rparr>" for p :: vpv_peer
    define learnt where "learnt = map heard ?ps"
    have "parse_peer_list (vpv_marshal_peers ?ps) = Some (Some (map wire_view ?w))"
      using parse_peer_list_bytes [of ?w "[]"] that by (simp add: vpv_marshal_peers_def wire_ok_def list_fits_def)
    moreover have "map wire_view ?w = ?w"
      using that by (auto simp: wire_view_def list_fits_def)
    ultimately have "vpv_unmarshal_peers resolve (vpv_marshal_peers ?ps) = Some (Some learnt)"
      by (simp add: vpv_unmarshal_peers_def learnt_def heard_def comp_def)
    then have "cl_register_reply resolve c ?ack = Some (cl_learn ?c learnt, True)"
      using True that assms(4) client_reply_ack by (simp add: list_fits_def)
    moreover have "cl_peers (cl_learn ?c learnt) (ip_string (vp_vip p)) \<noteq> None"
      if "p \<in> set ?ps" "vp_vip p \<noteq> vip" for p
    proof -
      have "heard p \<in> set learnt" "vp_vip (heard p) = vp_vip p"
        using that(1) by (simp_all add: learnt_def heard_def)
      with that \<open>list_fits s' order\<close> assms(4) cl_learn_known [of "heard p" learnt ?c] show ?thesis
        by (simp add: list_fits_def)
    qed
    moreover have "cl_vip (cl_learn ?c learnt) = vip"
      by (simp add: cl_learn_def)
    ultimately show ?thesis by blast
  next
    case False
    then have "?ps = []"
      by (cases ?ps) (auto simp: vpv_marshal_peers_def peer_list_bytes_def entry_bytes_def)
    with False assms(4) show ?thesis
      by (simp add: client_reply_ack vpv_marshal_peers_def peer_list_bytes_def)
  qed
  have "sv_index s' (udp_string remote) = Some (ip_string vip)"
    by (simp add: s'_def)
  with run reply vip_pool.alloc_Some [OF assms(3)] show ?thesis
    by blast
qed

text \<open>
  A short acknowledgement stops a client: eight bytes that announce an IPv4 address pass the
  length check of \<open>register\<close>, and cutting the payload behind them panics.
\<close>

theorem short_ack_panics:
  assumes "8 \<le> length resp" and "length resp < 12" and "resp ! 0 = msgRegisterAck" and "resp ! 1 = 4"
  shows "cl_register_reply resolve c resp = None"
  using assms by (simp add: cl_register_reply_def)


section \<open>Examples\<close>

definition vpv_demo_stun :: stun_lib where
  "vpv_demo_stun = \<lparr>is_stun = (\<lambda>d. 20 \<le> length d \<and> take 4 (drop 4 d) = [33, 18, 164, 66]),
     binding_response = (\<lambda>d a. None)\<rparr>"

definition vpv_demo_pool :: ip_pool where
  "vpv_demo_pool = \<lparr>pool_network = \<lparr>net_ip = [10, 201, 0, 0], net_mask = [255, 255, 0, 0]\<rparr>,
     pool_base = [10, 201, 0, 10], pool_used = {}\<rparr>"

definition vpv_demo_addr :: "byte \<Rightarrow> udp_addr" where
  "vpv_demo_addr b = \<lparr>ua_ip = [1, 1, 1, b], ua_port = 5\<rparr>"

definition vpv_demo_client :: vpv_client where
  "vpv_demo_client = \<lparr>cl_server = vpv_demo_addr 9, cl_hostname = ''h'', cl_vip = [], cl_peers = Map.empty\<rparr>"

definition vpv_demo_vip :: "byte \<Rightarrow> ip" where
  "vpv_demo_vip b = [10, 201, 0, b]"

definition vpv_demo_server :: vpv_server where
  "vpv_demo_server = \<lparr>sv_peers = [ip_string (vpv_demo_vip 2) \<mapsto>
       \<lparr>vp_vip = vpv_demo_vip 2, vp_relay = Some (vpv_demo_addr 2), vp_last_seen = 0, vp_hostname = []\<rparr>],
     sv_index = [udp_string (vpv_demo_addr 1) \<mapsto> ip_string (vpv_demo_vip 1)], sv_pool = vpv_demo_pool\<rparr>"

lemma vpv_demo_stun_cookie: "stun_cookie vpv_demo_stun"
  by (simp add: stun_cookie_def vpv_demo_stun_def)

theorem control_roundtrip_witness:
  "parse_control (make_control 4 [10, 0, 0, 1] [7] @ [1]) = Some (Some (4, [10, 0, 0, 1], [7]))"
  using control_roundtrip [of "[7]" 4 "[10, 0, 0, 1]" "[1]"] by (simp add: control_addr_4)

theorem relay_delivery_witness:
  "\<exists>m. sv_handle_packet vpv_demo_stun 0 [] vpv_demo_server (fst (cl_send_to vpv_demo_client (vpv_demo_vip 2) [1, 2])) (vpv_demo_addr 1) =
      Some (vpv_demo_server, [(m, vpv_demo_addr 2)]) \<and>
    cl_handle_packet (\<lambda>a. None) vpv_demo_client m = Some (vpv_demo_client, [(vpv_demo_vip 1, [1, 2])])"
  using relay_delivery [OF vpv_demo_stun_cookie, of "vpv_demo_vip 2" "[1, 2]" vpv_demo_server "vpv_demo_addr 1" "vpv_demo_vip 1"
      "\<lparr>vp_vip = vpv_demo_vip 2, vp_relay = Some (vpv_demo_addr 2), vp_last_seen = 0, vp_hostname = []\<rparr>" "vpv_demo_addr 2"]
  by (simp add: vpv_demo_server_def vpv_demo_vip_def)

theorem register_takes_over_witness:
  "\<exists>s' out. sv_handle_packet vpv_demo_stun 0 [] vpv_demo_server (make_control msgRegister (vpv_demo_vip 2) []) (vpv_demo_addr 3) = Some (s', out) \<and>
    (\<exists>m. sv_handle_relay s' (vpv_demo_vip 2) [1, 2] (vpv_demo_addr 1) = [(m, vpv_demo_addr 3)])"
proof -
  have "udp_string (vpv_demo_addr 1) \<noteq> udp_string (vpv_demo_addr 3)"
    by code_simp
  then show ?thesis
    using register_takes_over [OF vpv_demo_stun_cookie, of "vpv_demo_vip 2" "[]" vpv_demo_server "vpv_demo_addr 1" "vpv_demo_vip 1" "vpv_demo_addr 3"]
    by (simp add: vpv_demo_server_def vpv_demo_vip_def)
qed

lemma vpv_demo_allocate:
  "pool_allocate vpv_demo_pool = (vpv_demo_pool\<lparr>pool_used := {ip_string [10, 201, 0, 10]}\<rparr>, Some [10, 201, 0, 10])"
proof -
  have hosts: "pool_hosts = 10 # [11..<255]"
    unfolding pool_hosts_def by (subst upt_conv_Cons) simp_all
  have "pool_scan [10, 201, 0, 10] {} pool_hosts = Some [10, 201, 0, 10]"
    unfolding hosts pool_scan.simps by (simp add: with_last_def)
  then show ?thesis
    by (simp add: pool_allocate_def vpv_demo_pool_def)
qed

theorem client_registration_witness:
  "\<exists>s' ack out. sv_handle_packet vpv_demo_stun 0 [] vpv_demo_server (fst (cl_register_request vpv_demo_client)) (vpv_demo_addr 4) =
      Some (s', (ack, vpv_demo_addr 4) # out) \<and>
    (\<exists>c'. cl_register_reply (\<lambda>a. None) vpv_demo_client ack = Some (c', True) \<and> cl_vip c' = [10, 201, 0, 10])"
proof -
  have "list_fits s' []" for s'
    by (simp add: list_fits_def sv_peers_in_def vpv_marshal_peers_def peer_list_bytes_def List.map_filter_simps)
  then show ?thesis
    using client_registration [OF vpv_demo_stun_cookie, of vpv_demo_client vpv_demo_server _ "[10, 201, 0, 10]" 0 "[]"
        "vpv_demo_addr 4" "\<lambda>a. None"]
    by (fastforce simp: vpv_demo_server_def vpv_demo_client_def vpv_demo_allocate)
qed

theorem short_ack_panics_witness:
  "cl_register_reply (\<lambda>a. None) vpv_demo_client [msgRegisterAck, 4, 0, 0, 0, 0, 0, 0] = None"
  using short_ack_panics [of "[msgRegisterAck, 4, 0, 0, 0, 0, 0, 0]"] by simp

end
