(* ===== verification/Runtime.thy ===== *)
theory Runtime
  imports Config Listener Dialers Proxy_Probe N2n Stunvpv
begin

text \<open>
  How a configuration becomes a running program (\<open>cmd/runtime.go\<close>): the router with its
  registry, the interception handler, the sinks and the upstream proxy of the listener, and the
  configurations of the other services.

  The machine is a \<open>host_env\<close>: which files can be read and opened, what the certificate
  library makes of them, the network that probes see and the order in which maps are listed.
\<close>

section \<open>The machine\<close>

record host_env =
  he_re :: regex
  he_overlay_path :: string
  he_overlay :: overlay_file
  he_by_value :: "string \<Rightarrow> by_value"
  he_net :: net
  he_fuel :: nat
  he_each :: "string list"
  he_shuffle :: "string list \<Rightarrow> string list"
  he_keep :: "string \<Rightarrow> nat list"
  he_load_ca :: "string \<Rightarrow> string \<Rightarrow> bool"
  he_generate_ca :: bool
  he_save_ca :: "string \<Rightarrow> bool"
  he_open_append :: "string \<Rightarrow> bool"
  he_open_db :: "string \<Rightarrow> bool"
  he_read :: "string \<Rightarrow> bytes option"
  he_key_pair :: "bytes \<Rightarrow> bytes \<Rightarrow> bool"
  he_parse_url :: "string \<Rightarrow> upstream_url option"
  he_resolve_udp :: "string \<Rightarrow> udp_addr option"
  he_hostname :: string
  he_local :: string
  he_crypto :: "string \<Rightarrow> crypto"

datatype boot_err =
    MergeFailed string
  | RegisterFailed perr
  | RouterFailed router_err

section \<open>The router\<close>

text \<open>One probe of every URL-test group, in the order in which the registry is listed.\<close>

fun probe_each :: "host_env \<Rightarrow> string list \<Rightarrow> world \<Rightarrow> world option" where
  "probe_each he [] w = Some w"
| "probe_each he (nm # nms) w = (case names w nm of
       Some (PObj i) \<Rightarrow> (case heap w ! i of
           OURLTest c best lat failed \<Rightarrow>
             (case probe_round (he_net he) (he_fuel he) i (he_shuffle he (c_proxies c)) (he_keep he nm) w of
                None \<Rightarrow> None | Some w' \<Rightarrow> probe_each he nms w')
         | _ \<Rightarrow> probe_each he nms w)
     | _ \<Rightarrow> probe_each he nms w)"

text \<open>\<open>buildRouter\<close>; None is a panic of the overlay's decoder or a probe that does not return.\<close>

definition build_router :: "host_env \<Rightarrow> config \<Rightarrow> (boot_err + router \<times> world) option" where
  "build_router he c = (case merge_dynamic (he_by_value he) (he_overlay_path he) (he_overlay he) c of
       None \<Rightarrow> None
     | Some (Inl e) \<Rightarrow> Some (Inl (MergeFailed e))
     | Some (Inr c') \<Rightarrow> (case register_all (cf_proxies c') of
         Inl e \<Rightarrow> Some (Inl (RegisterFailed e))
       | Inr w \<Rightarrow> (case new_router (he_re he) (cf_mode c') (cf_rules c') of
           Inl e \<Rightarrow> Some (Inl (RouterFailed e))
         | Inr r \<Rightarrow> map_option (\<lambda>w'. Inr (r, w')) (probe_each he (he_each he) w))))"

section \<open>Interception\<close>

datatype cert_err = BothRequired | CrtUnreadable string | KeyUnreadable string | BadPair

definition load_client_cert_pair :: "host_env \<Rightarrow> string \<Rightarrow> string \<Rightarrow> cert_err option" where
  "load_client_cert_pair he crt key =
     (if crt = [] \<or> key = [] then Some BothRequired
      else case he_read he crt of
        None \<Rightarrow> Some (CrtUnreadable crt)
      | Some a \<Rightarrow> (case he_read he key of
          None \<Rightarrow> Some (KeyUnreadable key)
        | Some b \<Rightarrow> if he_key_pair he a b then None else Some BadPair))"

definition cert_of :: "host_env \<Rightarrow> string \<Rightarrow> string \<Rightarrow> bool" where
  "cert_of he crt key \<longleftrightarrow> (crt \<noteq> [] \<or> key \<noteq> []) \<and> load_client_cert_pair he crt key = None"

text \<open>Whether an authority is at hand: loaded, or made and saved.\<close>

definition authority :: "host_env \<Rightarrow> string \<Rightarrow> bool" where
  "authority he path \<longleftrightarrow> he_load_ca he (path @ ''.crt'') (path @ ''.key'') \<or> (he_generate_ca he \<and> he_save_ca he path)"

definition build_mitm_handler :: "host_env \<Rightarrow> config \<Rightarrow> mitm_handler option" where
  "build_mitm_handler he c = (let m = cf_mitm c in
     if \<not> mc_enable m then None
     else if mc_allow m = [] then None
     else if \<not> authority he (mc_ca_path m) then None
     else Some \<lparr>mh_allow = mc_allow m, mh_egress = None, mh_verify = mc_verify m, mh_skip = mc_skip m,
       mh_rewrite = mc_rewrite m, mh_logging = (mc_log_path m \<noteq> [] \<and> he_open_append he (mc_log_path m)),
       mh_actions = mc_actions m, mh_client_cert = cert_of he (mc_client_crt m) (mc_client_key m)\<rparr>)"

section \<open>Flows and the upstream proxy\<close>

datatype sink = JsonSink string | SqliteSink string

definition build_flow_sinks :: "host_env \<Rightarrow> config \<Rightarrow> sink list" where
  "build_flow_sinks he c = (let f = cf_flow c in
     if \<not> fc_enable f then []
     else (if fc_log_path f \<noteq> [] \<and> he_open_append he (fc_log_path f) then [JsonSink (fc_log_path f)] else []) @
          (if fc_db_path f \<noteq> [] \<and> he_open_db he (fc_db_path f) then [SqliteSink (fc_db_path f)] else []))"

definition build_flow_hooks :: "config \<Rightarrow> hook option list" where
  "build_flow_hooks c = []"

definition build_upstream :: "host_env \<Rightarrow> config \<Rightarrow> upstream_proxy option" where
  "build_upstream he c = (let u = cf_upstream c in
     if uc_url u = [] then None
     else case new_upstream (he_parse_url he) (uc_url u) (uc_timeout u * 1000000000) of
       Inl e \<Rightarrow> None
     | Inr None \<Rightarrow> None
     | Inr (Some p) \<Rightarrow> Some (if cert_of he (uc_client_crt u) (uc_client_key u) then set_client_cert p else p))"

section \<open>The services\<close>

text \<open>The options that \<open>runProxy\<close> gives to the listener, and the world behind them.\<close>

definition proxy_options :: "host_env \<Rightarrow> config \<Rightarrow> bool \<Rightarrow> (boot_err + options \<times> world) option" where
  "proxy_options he c stats = (case build_router he c of
       None \<Rightarrow> None
     | Some (Inl e) \<Rightarrow> Some (Inl e)
     | Some (Inr (r, w)) \<Rightarrow> Some (Inr (\<lparr>op_router = r, op_mitm = build_mitm_handler he c,
         op_actions = mc_actions (cf_mitm c), op_hooks = build_flow_hooks c,
         op_sinks = map (\<lambda>_. True) (build_flow_sinks he c), op_upstream = (build_upstream he c \<noteq> None),
         op_stats = stats\<rparr>, w)))"

text \<open>\<open>runDNS\<close>, \<open>runN2N\<close> and \<open>runSTUNVPV\<close> up to the start of the service.\<close>

definition run_dns :: "config \<Rightarrow> dns_server option" where
  "run_dns c = new_dns_server \<lparr>dc_mode = dc_mode (cf_dns c), dc_doh_server = dc_doh_server (cf_dns c),
     dc_dot_server = dc_dot_server (cf_dns c), dc_fake_cidr = dc_fake_cidr (cf_dns c)\<rparr>"

datatype n2n_node = N2nSupernode supernode | N2nEdge edge bool

definition crypto_for :: "host_env \<Rightarrow> string \<Rightarrow> crypto option" where
  "crypto_for he pw = (if pw = [] then None else Some (he_crypto he pw))"

text \<open>An edge is bridged to a TUN device when one is wanted and enabled.\<close>

definition bridged :: "config \<Rightarrow> bool \<Rightarrow> bool" where
  "bridged c use_tun \<longleftrightarrow> use_tun \<and> tc_enable (cf_tun c)"

definition run_n2n :: "host_env \<Rightarrow> config \<Rightarrow> bool \<Rightarrow> n2n_node option" where
  "run_n2n he c use_tun = (let n = cf_n2n c in
     if nc_mode n = ''supernode'' then
       map_option N2nSupernode (new_supernode (nc_virtual_cidr n) (nc_community n) (crypto_for he (nc_password n)))
     else if nc_mode n = ''edge'' then
       map_option (\<lambda>e. N2nEdge e (bridged c use_tun))
         (new_edge (he_resolve_udp he) (nc_supernode n) (nc_community n) (crypto_for he (nc_password n))
            (he_hostname he) (he_local he))
     else None)"

datatype vpn_node = VpnServer vpv_server | VpnClient vpv_client bool

definition run_stunvpn :: "host_env \<Rightarrow> config \<Rightarrow> bool \<Rightarrow> vpn_node option" where
  "run_stunvpn he c use_tun = (let v = cf_stunvpn c in
     if sc_mode v = ''supernode'' then map_option VpnServer (new_server (sc_virtual_cidr v))
     else if sc_mode v = ''client'' then
       map_option (\<lambda>cl. VpnClient cl (bridged c use_tun))
         (new_client (he_resolve_udp he) (sc_turn_server v) (he_hostname he))
     else None)"

section \<open>What the registry of a configuration holds\<close>

lemma register_pass_keys:
  assumes "made_by mk"
  shows "register_pass mk grp w pcs = Inr w' \<Longrightarrow> names w' k \<noteq> None \<Longrightarrow>
    names w k \<noteq> None \<or> k \<in> entry_key ` set pcs"
proof (induction pcs arbitrary: w)
  case (Cons pc pcs)
  show ?case
  proof (cases "is_group (to_lower (pc_type pc)) = grp")
    case True
    from register_pass_step [OF Cons.prems(1) True] obtain ob where
      ob: "mk w (to_proxy_config (pc\<lparr>pc_type := to_lower (pc_type pc)\<rparr>)) = Inr ob"
      and rest: "register_pass mk grp
        (reg_register (w\<lparr>heap := heap w @ [ob]\<rparr>) (PObj (length (heap w)))) pcs = Inr w'"
      by blast
    let ?w = "reg_register (w\<lparr>heap := heap w @ [ob]\<rparr>) (PObj (length (heap w)))"
    have "names ?w k = (if k = to_lower (obj_name ob) then Some (PObj (length (heap w))) else names w k)"
      by (simp only: reg_register_def pref_name_def) (simp add: fun_upd_def del: map_map)
    then have "names ?w k \<noteq> None \<Longrightarrow> names w k \<noteq> None \<or> k = entry_key pc"
      unfolding registered_key(1) [OF assms ob] by (cases "k = entry_key pc") simp_all
    with Cons.IH [OF rest Cons.prems(2)] show ?thesis
      by fastforce
  qed (use Cons in auto)
qed simp

lemma register_all_keys:
  assumes "register_all cfgs = Inr w" "names w k \<noteq> None"
  shows "k \<in> entry_key ` set cfgs"
proof -
  obtain w1 where pass1: "register_pass (\<lambda>_. new_proxy) False new_registry cfgs = Inr w1"
    and pass2: "register_pass new_group True w1 cfgs = Inr w"
    using assms(1) by (auto simp: register_all_def split: sum.splits)
  have "names new_registry k = None"
    by (simp add: new_registry_def)
  then show ?thesis
    using register_pass_keys [OF made_by_new_group pass2 assms(2)]
      register_pass_keys [OF made_by_new_proxy pass1, of k] by argo
qed

lemma probe_round_names: "probe_round net n i order keep w = Some w' \<Longrightarrow> names w' = names w"
  by (auto simp: probe_round_def apply_results_def marks_only_def dest!: marks_only_probe_members
      split: obj.splits option.splits prod.splits)

lemma probe_each_names: "probe_each he nms w = Some w' \<Longrightarrow> names w' = names w"
  by (induction nms arbitrary: w) (auto dest: probe_round_names split: option.splits pref.splits obj.splits)

lemma build_router_parts:
  assumes "build_router he c = Some (Inr (r, w))"
  shows "r_mode r = cf_mode c" "parse_rules (he_re he) (cf_rules c) = Inr (r_rules r)"
    "\<And>k. names w k \<noteq> None \<Longrightarrow> k \<in> entry_key ` set (cf_proxies c)"
proof -
  obtain w0 where reg: "register_all (cf_proxies c) = Inr w0"
    and router: "new_router (he_re he) (cf_mode c) (cf_rules c) = Inr r"
    and probes: "probe_each he (he_each he) w0 = Some w"
    using assms by (auto simp: build_router_def dest!: overlay_ignored split: option.splits sum.splits)
  from router show "r_mode r = cf_mode c" "parse_rules (he_re he) (cf_rules c) = Inr (r_rules r)"
    by (auto simp: new_router_def split: sum.splits)
  show "k \<in> entry_key ` set (cf_proxies c)" if "names w k \<noteq> None" for k
    using register_all_keys [OF reg] that unfolding probe_each_names [OF probes] .
qed

section \<open>The rules of a configuration\<close>

lemma split_all_first:
  "split_all x s = (case index_byte s x of
     None \<Rightarrow> [s] | Some i \<Rightarrow> take i s # split_all x (drop (Suc i) s))"
  by (induction s) (auto split: option.splits list.splits)

lemma split_all_nonempty: "split_all x s \<noteq> []"
  by (subst split_all_first) (simp split: option.split)

lemma split_n_all: "length (split_all x s) \<le> Suc n \<Longrightarrow> split_n (Suc n) x s = split_all x s"
proof (induction n arbitrary: s)
  case 0
  then show ?case
    using split_all_nonempty by (subst (asm) split_all_first, subst split_all_first) (simp split: option.splits)
next
  case (Suc n)
  show ?case
  proof (cases "index_byte s x")
    case None
    then show ?thesis by (subst split_all_first) simp
  next
    case (Some i)
    have "split_all x s = take i s # split_all x (drop (Suc i) s)"
      using Some by (subst split_all_first) simp
    with Suc Some show ?thesis by simp
  qed
qed

text \<open>Where the rules of a router come from.\<close>

lemma parse_rules_target:
  "parse_rules re raws = Inr rs \<Longrightarrow> ru \<in> set rs \<Longrightarrow>
   \<exists>raw \<in> set raws. 3 \<le> length (split_n 3 CHR '','' raw) \<and> ru_target ru = trim_space (split_n 3 CHR '','' raw ! 2)"
proof (induction raws arbitrary: rs)
  case (Cons raw raws)
  show ?case
  proof (cases "length (split_n 3 CHR '','' raw) < 3")
    case True
    with Cons show ?thesis by (auto simp: Let_def)
  next
    case False
    then obtain ru' rs' where "rs = ru' # rs'" "parse_rules re raws = Inr rs'"
      and "ru_target ru' = trim_space (split_n 3 CHR '','' raw ! 2)"
      using Cons.prems(1) by (auto simp: Let_def mk_rule_def split: if_splits sum.splits)
    with Cons.IH [of rs'] Cons.prems(2) False show ?thesis
      by (auto simp: not_less)
  qed
qed simp

definition plain_rule :: "string \<Rightarrow> bool" where
  "plain_rule rl \<longleftrightarrow> length (split_all CHR '','' rl) \<le> 3 \<and>
     trim_space (List.last (split_all CHR '','' rl)) = List.last (split_all CHR '','' rl)"

lemma plain_rule_target:
  assumes "plain_rule raw" "3 \<le> length (split_n 3 CHR '','' raw)"
  shows "trim_space (split_n 3 CHR '','' raw ! 2) = List.last (split_all CHR '','' raw)"
    "length (split_all CHR '','' raw) = 3"
proof -
  have "split_n 3 CHR '','' raw = split_all CHR '','' raw"
    using assms(1) split_n_all [of "CHR '',''" raw 2] by (simp add: plain_rule_def eval_nat_numeral)
  moreover from this show "length (split_all CHR '','' raw) = 3"
    using assms by (simp add: plain_rule_def)
  then obtain a b d where "split_all CHR '','' raw = [a, b, d]"
    by (auto simp: eval_nat_numeral length_Suc_conv)
  ultimately show "trim_space (split_n 3 CHR '','' raw ! 2) = List.last (split_all CHR '','' raw)"
    using assms(1) by (simp add: plain_rule_def)
qed

text \<open>
  No group of the configuration ever exists at run time. Take a configuration that
  \<open>Validate\<close> accepts, in rule mode, with rules of three fields, whose groups (and \<open>PROXY\<close>)
  do not share a name with a proxy: every destination that matches a rule is dialled directly,
  rejected, or fails because the target of the rule is not found.
\<close>

theorem validated_rules_dead:
  assumes "validate (Some c) = []" and "build_router he c = Some (Inr (r, w))" and "cf_mode c = ''rule''"
    and "\<forall>rl \<in> set (cf_rules c). plain_rule rl"
    and "\<forall>nm \<in> insert ''PROXY'' (set (map gc_name (cf_groups c))). to_lower nm \<notin> entry_key ` set (cf_proxies c)"
    and "parse_host_port addr = Some (host, port)"
    and "find (match_rule lookup host port) (r_rules r) = Some ru"
  shows "pick lookup order w r addr =
      (if to_upper (ru_target ru) = ''DIRECT'' then Inr PDirect
       else if to_upper (ru_target ru) = ''REJECT'' then Inr PReject
       else Inl (NotFound (ru_target ru))) \<and>
    ru_target ru \<in> {''DIRECT'', ''REJECT'', ''PROXY''} \<union> set (map gc_name (cf_groups c))"
proof -
  note parts = build_router_parts [OF assms(2)]
  have "ru \<in> set (r_rules r)"
    using assms(7) by (auto simp: find_Some_iff in_set_conv_nth)
  then obtain raw where raw: "raw \<in> set (cf_rules c)" "3 \<le> length (split_n 3 CHR '','' raw)"
    and t: "ru_target ru = trim_space (split_n 3 CHR '','' raw ! 2)"
    using parse_rules_target [OF parts(2)] by blast
  note plain = plain_rule_target [OF bspec [OF assms(4) raw(1)] raw(2)]
  have known: "ru_target ru \<in> {''DIRECT'', ''REJECT'', ''PROXY''} \<union> set (map gc_name (cf_groups c))"
    using validate_rules [OF assms(1) raw(1)] plain t by (simp add: rule_ok_def)
  have upper: "to_upper ''DIRECT'' = ''DIRECT''" "to_upper ''REJECT'' = ''REJECT''"
    by code_simp+
  have "names w (to_lower (ru_target ru)) = None"
    if "ru_target ru \<notin> {''DIRECT'', ''REJECT''}"
    using that known assms(5) parts(3) [of "to_lower (ru_target ru)"] by blast
  moreover have "ru_target ru \<notin> {''DIRECT'', ''REJECT''}"
    if "to_upper (ru_target ru) \<noteq> ''DIRECT''" "to_upper (ru_target ru) \<noteq> ''REJECT''"
    using that upper by (metis insertE singletonD)
  ultimately have "names w (to_lower (ru_target ru)) = None"
    if "to_upper (ru_target ru) \<noteq> ''DIRECT''" "to_upper (ru_target ru) \<noteq> ''REJECT''"
    using that by blast
  then have "reg_get w (ru_target ru) =
      (if to_upper (ru_target ru) = ''DIRECT'' then Inr PDirect
       else if to_upper (ru_target ru) = ''REJECT'' then Inr PReject
       else Inl (NotFound (ru_target ru)))"
    unfolding reg_get_def by simp
  with known show ?thesis
    using assms(3,6,7) parts(1) by (simp add: pick_def)
qed

section \<open>Interception is off unless it is configured\<close>

text \<open>
  A connection to one of the listeners: to the HTTP listener, by what it sends, or to a transparent
  one, by its original destination and what has arrived when the greeting is looked at.
\<close>

datatype inbound_conn =
    HttpInbound string
  | TransparentInbound tcp_addr bool nat bytes bytes

definition serve_inbound :: "options \<Rightarrow> http_env \<Rightarrow> inbound_conn \<Rightarrow> lstate \<Rightarrow> (lev list \<times> lstate) option" where
  "serve_inbound op en conn st = (case conn of
       HttpInbound inp \<Rightarrow> Some (handle_http op en inp st)
     | TransparentInbound ta tcp k arrived later \<Rightarrow> handle_tproxy op en (Some ta) tcp k arrived later st)"

text \<open>The destination of a connection and the names under which the lists may know it.\<close>

definition asks_for :: "inbound_conn \<Rightarrow> string \<Rightarrow> string \<Rightarrow> bool" where
  "asks_for conn target host \<longleftrightarrow> (case conn of
       HttpInbound inp \<Rightarrow> connect_target inp = Some target \<and> host = target_host target
     | TransparentInbound ta tcp k arrived later \<Rightarrow> target = tproxy_target ta \<and>
         (host = ip_string (ta_ip ta) \<or> (\<exists>name. sniffed_name tcp k arrived = Some name \<and> host = target_host name)))"

lemma inbound_mitm:
  assumes "serve_inbound op en conn st = Some (evs, st')" and "Mitm m \<in> set evs"
  shows "\<exists>h target host. op_mitm op = Some h \<and> asks_for conn target host \<and> allowed (en_re en) h host \<and>
    m = fst (intercept_connect (en_re en) (en_mitm en) (en_world en) h (en_stamp en) target)"
proof (cases conn)
  case (HttpInbound inp)
  with assms mitm_event_allowed [of op en inp st evs st' m] show ?thesis
    by (auto simp: serve_inbound_def asks_for_def)
next
  case (TransparentInbound ta tcp k arrived later)
  with assms tproxy_mitm_allowed [of op en ta tcp k arrived later st evs st' m] show ?thesis
    by (auto simp: serve_inbound_def asks_for_def)
qed

text \<open>
  C2: The listeners that a configuration starts open up a connection only if interception is
  enabled, an authority is at hand, and the name of this connection is on the configured allow
  list and not on the skip list; what is opened up is the connection to its own destination. The
  name is the host of the CONNECT request, and for a transparent connection its original address
  or the server name in its greeting.
\<close>

theorem configured_interception:
  assumes "proxy_options he c stats = Some (Inr (op, w))"
    and "serve_inbound op en conn st = Some (evs, st')" and "Mitm m \<in> set evs"
  shows "mc_enable (cf_mitm c) \<and> authority he (mc_ca_path (cf_mitm c)) \<and>
    (\<exists>h target host. op_mitm op = Some h \<and> asks_for conn target host \<and>
       m = fst (intercept_connect (en_re en) (en_mitm en) (en_world en) h (en_stamp en) target) \<and>
       match_allow (en_re en) host (mc_allow (cf_mitm c)) \<and> \<not> match_allow (en_re en) host (mc_skip (cf_mitm c)))"
proof -
  from inbound_mitm [OF assms(2,3)] obtain h target host where
    h: "op_mitm op = Some h" "asks_for conn target host" "allowed (en_re en) h host"
    "m = fst (intercept_connect (en_re en) (en_mitm en) (en_world en) h (en_stamp en) target)" by blast
  have b: "build_mitm_handler he c = Some h"
    using assms(1) h(1) by (auto simp: proxy_options_def split: option.splits sum.splits)
  then have "mc_enable (cf_mitm c) \<and> authority he (mc_ca_path (cf_mitm c)) \<and>
      match_allow (en_re en) host (mc_allow (cf_mitm c)) \<and> \<not> match_allow (en_re en) host (mc_skip (cf_mitm c))"
    using h(3) by (auto simp: build_mitm_handler_def Let_def allowed_def split: if_splits)
  with h show ?thesis by blast
qed

section \<open>Fake addresses are never used\<close>

text \<open>The queries that a DNS server answers one after the other.\<close>

fun serve_queries :: "dns_lib \<Rightarrow> inner_resolver \<Rightarrow> (int \<times> bytes) list \<Rightarrow> dns_server \<Rightarrow> dns_server option" where
  "serve_queries lib inner [] srv = Some srv"
| "serve_queries lib inner ((now, d) # qs) srv = (case process_query lib inner now srv d of
       None \<Rightarrow> None | Some (srv', r) \<Rightarrow> serve_queries lib inner qs srv')"

lemma process_query_fake: "process_query lib inner now srv d = Some (srv', r) \<Longrightarrow> ds_fake srv' = ds_fake srv"
  by (auto simp: process_query_def Let_def split: option.splits list.splits sum.splits bool.splits)

lemma serve_queries_fake: "serve_queries lib inner qs srv = Some srv' \<Longrightarrow> ds_fake srv' = ds_fake srv"
proof (induction qs arbitrary: srv)
  case (Cons q qs)
  obtain now d where q: "q = (now, d)" by (cases q)
  with Cons.prems obtain s1 r where "process_query lib inner now srv d = Some (s1, r)" "serve_queries lib inner qs s1 = Some srv'"
    by (auto split: option.splits)
  with Cons.IH [of s1] process_query_fake show ?case by metis
qed simp

lemma run_dns_fake: "run_dns c = Some srv \<Longrightarrow> ds_fake srv = Some f \<Longrightarrow> fd_ip f d = None"
  by (auto simp: run_dns_def new_dns_server_def Let_def new_fake_dns_def fd_ip_def split: if_splits option.splits)

text \<open>
  The pool of fake addresses that a configured DNS server sets up is never filled: after any
  queries, the server answers the next one as if it had no pool, by asking its resolver.
\<close>

theorem configured_dns_never_fakes:
  assumes "run_dns c = Some srv" and "serve_queries lib inner qs srv = Some srv'"
  shows "map_option snd (process_query lib inner now srv' data) =
    map_option snd (process_query lib inner now (srv'\<lparr>ds_fake := None\<rparr>) data)"
proof (cases "ds_fake srv'")
  case None
  then have "srv'\<lparr>ds_fake := None\<rparr> = srv'" by simp
  then show ?thesis by simp
next
  case (Some f)
  then have "fd_ip f d = None" for d
    using run_dns_fake [OF assms(1)] serve_queries_fake [OF assms(2)] by simp
  with Some show ?thesis
    by (auto simp: process_query_def Let_def split: option.splits list.splits sum.splits)
qed

section \<open>Witnesses\<close>

definition rt_demo_env :: host_env where
  "rt_demo_env = \<lparr>he_re = mitm_demo_re, he_overlay_path = [], he_overlay = NoFile, he_by_value = (\<lambda>_. ByValueOk),
     he_net = demo_net, he_fuel = 1, he_each = [], he_shuffle = id, he_keep = (\<lambda>_. [0]), he_load_ca = (\<lambda>_ _. True), he_generate_ca = False,
     he_save_ca = (\<lambda>_. False), he_open_append = (\<lambda>_. True), he_open_db = (\<lambda>_. False), he_read = (\<lambda>_. None),
     he_key_pair = (\<lambda>_ _. False), he_parse_url = (\<lambda>_. None), he_resolve_udp = (\<lambda>_. None), he_hostname = [],
     he_local = [], he_crypto = (\<lambda>_. \<lparr>encrypt = id, decrypt = Some\<rparr>)\<rparr>"

definition rt_demo_mitm :: mitm_config where
  "rt_demo_mitm = (cf_mitm zero_config)\<lparr>mc_enable := True, mc_allow := [''DOMAIN,a.com''], mc_skip := [''DOMAIN,b.com''],
     mc_actions := [mitm_demo_redirect, mitm_demo_rule]\<rparr>"

definition rt_demo_config :: config where
  "rt_demo_config = zero_config\<lparr>cf_mode := ''direct'', cf_mitm := rt_demo_mitm,
     cf_flow := \<lparr>fc_enable = True, fc_log_path = ''f'', fc_db_path = [], fc_max_flows = 0\<rparr>\<rparr>"

lemma rt_demo_options: "proxy_options rt_demo_env rt_demo_config True = Some (Inr (li_demo_mitm_options, new_registry))"
  by (simp add: proxy_options_def build_router_def merge_dynamic_def rt_demo_env_def rt_demo_config_def rt_demo_mitm_def
      zero_config_def register_all_def new_router_def build_mitm_handler_def authority_def build_flow_hooks_def
      build_flow_sinks_def build_upstream_def cert_of_def li_demo_mitm_options_def li_demo_options_def
      mitm_demo_handler_def Let_def)

theorem configured_interception_witness:
  "\<exists>target host. asks_for (HttpInbound (''CONNECT a.com HTTP/1.1'' @ crlf @ crlf)) target host \<and>
     match_allow mitm_demo_re host (mc_allow (cf_mitm rt_demo_config))"
proof -
  obtain evs st' where "handle_http li_demo_mitm_options (li_demo_mitm li_demo_opening)
      (''CONNECT a.com HTTP/1.1'' @ crlf @ crlf) li_demo_state = (evs, st')"
    and "Mitm [UpDial None ''a.com'' True, UpTls ''a.com'' True False, ClientTls ''a.com''] \<in> set evs"
    using li_demo_connect by blast
  then have run: "serve_inbound li_demo_mitm_options (li_demo_mitm li_demo_opening)
      (HttpInbound (''CONNECT a.com HTTP/1.1'' @ crlf @ crlf)) li_demo_state = Some (evs, st')"
    and ev: "Mitm [UpDial None ''a.com'' True, UpTls ''a.com'' True False, ClientTls ''a.com''] \<in> set evs"
    by (simp_all add: serve_inbound_def)
  from configured_interception [OF rt_demo_options run ev] show ?thesis by auto
qed

definition rt_demo_dns :: config where
  "rt_demo_dns = zero_config\<lparr>cf_dns := (cf_dns zero_config)\<lparr>dc_fake_cidr := ''10.0.0.0/24''\<rparr>\<rparr>"

theorem configured_dns_never_fakes_witness:
  "\<exists>srv f. run_dns rt_demo_dns = Some srv \<and> ds_fake srv = Some f \<and>
    map_option snd (process_query dns_demo_lib dns_demo_inner 0 srv []) =
    map_option snd (process_query dns_demo_lib dns_demo_inner 0 (srv\<lparr>ds_fake := None\<rparr>) [])"
proof -
  have "parse_cidr ''10.0.0.0/24'' \<noteq> None"
    by code_simp
  then obtain srv f where run: "run_dns rt_demo_dns = Some srv" and f: "ds_fake srv = Some f"
    by (auto simp: run_dns_def rt_demo_dns_def zero_config_def new_dns_server_def new_fake_dns_def Let_def)
  have "serve_queries dns_demo_lib dns_demo_inner [] srv = Some srv" by simp
  from configured_dns_never_fakes [OF run this] run f show ?thesis by blast
qed

definition rt_demo_rules :: config where
  "rt_demo_rules = zero_config\<lparr>cf_mode := ''rule'', cf_rules := [''MATCH,x,Auto''],
     cf_proxies := [demo_entry ''Hop'' ''HTTP'' []],
     cf_groups := [\<lparr>gc_name = ''Auto'', gc_type = ''failover'', gc_proxies = [''Hop''], gc_url = [], gc_interval = 0, gc_default = []\<rparr>]\<rparr>"

theorem validated_rules_dead_witness:
  "\<exists>r w. build_router rt_demo_env rt_demo_rules = Some (Inr (r, w)) \<and>
    pick (\<lambda>_. None) [] w r ''a.b:80'' = Inl (NotFound ''Auto'')"
proof -
  define ru where "ru = \<lparr>ru_type = ''MATCH'', ru_pattern = ''x'', ru_target = ''Auto'', ru_regex = None\<rparr>"
  have "split_n 3 CHR '','' ''MATCH,x,Auto'' = [''MATCH'', ''x'', ''Auto'']" "to_upper (trim_space ''MATCH'') = ''MATCH''"
    "trim_space ''x'' = ''x''" "trim_space ''Auto'' = ''Auto''"
    by code_simp+
  then have rules: "parse_rules mitm_demo_re [''MATCH,x,Auto''] = Inr [ru]"
    by (simp add: mk_rule_def ru_def Let_def del: map_map list.map)
  have "case register_all [demo_entry ''Hop'' ''HTTP'' []] of Inl _ \<Rightarrow> False | Inr w \<Rightarrow> True"
    by code_simp
  then obtain w where reg: "register_all [demo_entry ''Hop'' ''HTTP'' []] = Inr w"
    by (auto split: sum.splits)
  have fields: "cf_mode rt_demo_rules = ''rule''" "cf_rules rt_demo_rules = [''MATCH,x,Auto'']"
    "cf_proxies rt_demo_rules = [demo_entry ''Hop'' ''HTTP'' []]" "map gc_name (cf_groups rt_demo_rules) = [''Auto'']"
    by (simp_all add: rt_demo_rules_def)
  have build: "build_router rt_demo_env rt_demo_rules = Some (Inr (\<lparr>r_mode = ''rule'', r_rules = [ru]\<rparr>, w))"
    using rules reg by (simp add: build_router_def fields merge_dynamic_def rt_demo_env_def new_router_def)
  have valid: "validate (Some rt_demo_rules) = []"
    by code_simp
  have plain: "\<forall>rl \<in> set (cf_rules rt_demo_rules). plain_rule rl"
    unfolding fields by code_simp
  have keys: "to_lower ''Auto'' \<notin> set (map entry_key [demo_entry ''Hop'' ''HTTP'' []])"
    "to_lower ''PROXY'' \<notin> set (map entry_key [demo_entry ''Hop'' ''HTTP'' []])"
    by code_simp+
  then have apart: "\<forall>nm \<in> insert ''PROXY'' (set (map gc_name (cf_groups rt_demo_rules))).
      to_lower nm \<notin> entry_key ` set (cf_proxies rt_demo_rules)"
    unfolding fields set_map by simp
  have addr: "parse_host_port ''a.b:80'' = Some (''a.b'', 80)"
    by code_simp
  have hit: "find (match_rule (\<lambda>_. None) ''a.b'' 80) (r_rules \<lparr>r_mode = ''rule'', r_rules = [ru]\<rparr>) = Some ru"
    by (simp add: match_rule_def ru_def)
  have "to_upper ''Auto'' \<noteq> ''DIRECT''" "to_upper ''Auto'' \<noteq> ''REJECT''"
    by code_simp+
  then have "pick (\<lambda>_. None) [] w \<lparr>r_mode = ''rule'', r_rules = [ru]\<rparr> ''a.b:80'' = Inl (NotFound ''Auto'')"
    using validated_rules_dead [OF valid build fields(1) plain apart addr hit, of "[]"]
    by (simp add: ru_def del: list.map)
  with build show ?thesis by blast
qed

end
