(* ===== verification/Agent_Tools.thy ===== *)
theory Agent_Tools
  imports Complex_Main Runtime
begin

text \<open>
  The tools with which the agent edits the configuration (\<open>agent/tools.go\<close>,
  \<open>agent/extra_tools.go\<close>, \<open>agent/dynamic.go\<close> and \<open>toInt\<close> of \<open>agent/helpers.go\<close>).

  A tool gets its arguments as decoded JSON and works on a disk of files. Its answer, a text in
  the sources, is a \<open>reply\<close>. The YAML codec and the human who may be asked are parameters.
\<close>

section \<open>Arguments\<close>

text \<open>A JSON number is a rational: what \<open>float64\<close> can hold.\<close>

datatype json = JNull | JBool bool | JNum rat | JStr string | JArr "json list" | JObj "(string \<times> json) list"

type_synonym args = "(string \<times> json) list"

text \<open>The last of several entries with one key is the one that the decoder keeps.\<close>

definition arg :: "args \<Rightarrow> string \<Rightarrow> json" where
  "arg m k = (case map_of (rev m) k of Some v \<Rightarrow> v | None \<Rightarrow> JNull)"

definition get_string :: "args \<Rightarrow> string \<Rightarrow> string" where
  "get_string m k = (case arg m k of JStr s \<Rightarrow> s | _ \<Rightarrow> [])"

definition get_bool :: "args \<Rightarrow> string \<Rightarrow> bool" where
  "get_bool m k = (case arg m k of JBool b \<Rightarrow> b | _ \<Rightarrow> False)"

definition strings_of :: "json \<Rightarrow> string list" where
  "strings_of j = (case j of
       JArr xs \<Rightarrow> List.map_filter (\<lambda>x. case x of JStr s \<Rightarrow> Some s | _ \<Rightarrow> None) xs
     | _ \<Rightarrow> [])"

definition objects_of :: "json \<Rightarrow> args list" where
  "objects_of j = (case j of
       JArr xs \<Rightarrow> List.map_filter (\<lambda>x. case x of JObj m \<Rightarrow> Some m | _ \<Rightarrow> None) xs
     | _ \<Rightarrow> [])"

text \<open>The first result of \<open>strconv.Atoi\<close>: the nearest integer of 64 bits when the number is out
  of range, 0 when there is none.\<close>

definition atoi_value :: "string \<Rightarrow> int" where
  "atoi_value s = (case atoi s of
       Some i \<Rightarrow> i
     | None \<Rightarrow>
       let neg = (case s of c # _ \<Rightarrow> c = CHR ''-'' | [] \<Rightarrow> False);
           ds = (case s of c # r \<Rightarrow> if c = CHR ''-'' \<or> c = CHR ''+'' then r else s | [] \<Rightarrow> [])
       in if ds = [] \<or> \<not> list_all is_digit ds then 0 else if neg then - (2 ^ 63) else 2 ^ 63 - 1)"

text \<open>\<open>int(n)\<close> drops the fraction.\<close>

definition to_int :: "json \<Rightarrow> int" where
  "to_int j = (case j of
       JNum q \<Rightarrow> (if 0 \<le> q then \<lfloor>q\<rfloor> else \<lceil>q\<rceil>)
     | JStr s \<Rightarrow> atoi_value s
     | _ \<Rightarrow> 0)"

section \<open>From a specification to a configuration\<close>

definition spec_proxy :: "args \<Rightarrow> config_proxy" where
  "spec_proxy m = \<lparr>pc_name = get_string m ''name'', pc_type = to_lower (get_string m ''type''),
     pc_server = get_string m ''server'', pc_port = to_int (arg m ''port''),
     pc_username = get_string m ''username'', pc_password = get_string m ''password'',
     pc_cipher = get_string m ''cipher'', pc_sni = get_string m ''sni'', pc_alpn = strings_of (arg m ''alpn''),
     pc_uuid = get_string m ''uuid'', pc_alter_id = to_int (arg m ''alterId''), pc_method = get_string m ''method'',
     pc_proxies = strings_of (arg m ''proxies''), pc_url = get_string m ''url'',
     pc_interval = to_int (arg m ''interval''), pc_default = get_string m ''default'',
     pc_public_key = [], pc_short_id = [], pc_fingerprint = []\<rparr>"

definition spec_group :: "args \<Rightarrow> group_config" where
  "spec_group m = \<lparr>gc_name = get_string m ''name'', gc_type = to_lower (get_string m ''type''),
     gc_proxies = strings_of (arg m ''proxies''), gc_url = get_string m ''url'',
     gc_interval = to_int (arg m ''interval''), gc_default = get_string m ''default''\<rparr>"

definition spec_tun :: "args \<Rightarrow> tun_config" where
  "spec_tun t = \<lparr>tc_enable = get_bool t ''enable'', tc_device = get_string t ''device'', tc_mtu = to_int (arg t ''mtu''),
     tc_gateway = get_string t ''gateway'', tc_cidr = get_string t ''cidr'', tc_dns = get_string t ''dns''\<rparr>"

definition spec_dns :: "args \<Rightarrow> dns_section" where
  "spec_dns d = \<lparr>dc_mode = get_string d ''mode'', dc_doh_server = get_string d ''doh-server'',
     dc_dot_server = get_string d ''dot-server'', dc_fake_cidr = get_string d ''fake-cidr'',
     dc_enable = get_bool d ''enable'', dc_listen = get_string d ''listen''\<rparr>"

definition spec_web :: "args \<Rightarrow> web_config" where
  "spec_web w = \<lparr>wc_enable = get_bool w ''enable'', wc_port = to_int (arg w ''port''),
     wc_username = get_string w ''username'', wc_password = get_string w ''password''\<rparr>"

definition spec_listen :: "args \<Rightarrow> listen_config \<Rightarrow> listen_config" where
  "spec_listen sec l = l\<lparr>lc_http := (if 0 < to_int (arg sec ''http'') then to_int (arg sec ''http'') else lc_http l),
     lc_socks5 := (if 0 < to_int (arg sec ''socks5'') then to_int (arg sec ''socks5'') else lc_socks5 l)\<rparr>"

definition in_section :: "args \<Rightarrow> string \<Rightarrow> (args \<Rightarrow> 'a) \<Rightarrow> 'a \<Rightarrow> 'a" where
  "in_section spec k f old = (case arg spec k of JObj m \<Rightarrow> f m | _ \<Rightarrow> old)"

definition spec_to_config :: "args \<Rightarrow> config" where
  "spec_to_config spec = first_config\<lparr>
     cf_mode := (if get_string spec ''mode'' \<noteq> [] then to_lower (get_string spec ''mode'') else ''rule''),
     cf_listen := in_section spec ''listen'' (\<lambda>sec. spec_listen sec (cf_listen zero_config)) (cf_listen zero_config),
     cf_proxies := map spec_proxy (objects_of (arg spec ''proxies'')),
     cf_groups := map spec_group (objects_of (arg spec ''groups'')),
     cf_rules := filter (\<lambda>r. trim_space r \<noteq> []) (strings_of (arg spec ''rules'')),
     cf_tun := in_section spec ''tun'' spec_tun (cf_tun zero_config),
     cf_dns := in_section spec ''dns'' spec_dns (cf_dns zero_config),
     cf_web := in_section spec ''web'' spec_web (cf_web zero_config)\<rparr>"

section \<open>Files\<close>

record disk =
  dk_files :: "string \<Rightarrow> string option"
  dk_frozen :: "string \<Rightarrow> bool"

definition read_file :: "disk \<Rightarrow> string \<Rightarrow> string + string" where
  "read_file d p = (case dk_files d p of None \<Rightarrow> Inl ''no such file'' | Some s \<Rightarrow> Inr s)"

definition write_file :: "string \<Rightarrow> string \<Rightarrow> disk \<Rightarrow> disk option" where
  "write_file p s d = (if dk_frozen d p then None else Some (d\<lparr>dk_files := (dk_files d)(p \<mapsto> s)\<rparr>))"

text \<open>The agent: its paths, the variable \<open>AGENT_API_KEY\<close>, the codecs, and the human, who is shown
  the path and the text that is to be written.\<close>

record agent =
  ag_path :: string
  ag_dyn_path :: string
  ag_key :: string
  ag_decode :: decoder
  ag_encode :: "config \<Rightarrow> string"
  ag_dyn_decode :: "string \<Rightarrow> string + dynamic_spec"
  ag_dyn_encode :: "dynamic_spec \<Rightarrow> string"
  ag_ask :: "(string \<Rightarrow> string \<Rightarrow> string) option"

datatype failure =
    MissingArgument
  | LoadError config_err
  | ParseError config_err
  | Invalid "config_err list"
  | OverlayError string
  | WriteError
  | NoSuchGroup
  | BadFormat
  | NoSuchFile
  | NotConfigured
  | UnknownAction

datatype reply = Saved | Shown | Cancelled | NothingRemoved | Failed failure

definition load_cfg :: "agent \<Rightarrow> disk \<Rightarrow> config_err + config" where
  "load_cfg ag d = load (ag_decode ag) (ag_key ag) (read_file d (ag_path ag))"

definition put_text :: "string \<Rightarrow> string \<Rightarrow> disk \<Rightarrow> reply \<times> disk" where
  "put_text p s d = (case write_file p s d of None \<Rightarrow> (Failed WriteError, d) | Some d' \<Rightarrow> (Saved, d'))"

definition write_config_back :: "agent \<Rightarrow> config \<Rightarrow> disk \<Rightarrow> reply \<times> disk" where
  "write_config_back ag c d = put_text (ag_path ag) (ag_encode ag c) d"

section \<open>The tools of \<open>register\<close>\<close>

definition update_config :: "agent \<Rightarrow> args \<Rightarrow> disk \<Rightarrow> reply \<times> disk" where
  "update_config ag m d = (let y = get_string m ''yaml'' in
     if trim_space y = [] then (Failed MissingArgument, d)
     else case load_from_bytes (ag_decode ag) y of
       Inl e \<Rightarrow> (Failed (ParseError e), d)
     | Inr _ \<Rightarrow> put_text (ag_path ag) y d)"

text \<open>The text is cut after 400 bytes and marked in UTF-8.\<close>

definition cut_mark :: string where
  "cut_mark = map char_of [10, 226, 128, 166, 40, 230, 136, 170, 230, 150, 173, 41 :: nat]"

definition preview :: "string \<Rightarrow> string" where
  "preview s = (if 400 < length s then take 400 s @ cut_mark else s)"

definition gen_config :: "agent \<Rightarrow> args \<Rightarrow> disk \<Rightarrow> reply \<times> disk" where
  "gen_config ag m d = (case arg m ''spec'' of
       JObj spec \<Rightarrow>
         (let c = spec_to_config spec; b = ag_encode ag c in
          case load_from_bytes (ag_decode ag) b of
            Inl e \<Rightarrow> (Failed (ParseError e), d)
          | Inr _ \<Rightarrow>
            if validate (Some c) \<noteq> [] then (Failed (Invalid (validate (Some c))), d)
            else
              let p = (if trim_space (get_string m ''path'') \<noteq> [] then get_string m ''path'' else ag_path ag) in
              case ag_ask ag of
                None \<Rightarrow> put_text p b d
              | Some ask \<Rightarrow>
                if trim_space (ask p (preview b)) \<noteq> ''yes'' then (Cancelled, d) else put_text p b d)
     | _ \<Rightarrow> (Failed MissingArgument, d))"

text \<open>The first group with the name gets the new default.\<close>

fun set_default :: "string \<Rightarrow> string \<Rightarrow> group_config list \<Rightarrow> group_config list" where
  "set_default g t [] = []"
| "set_default g t (x # xs) = (if gc_name x = g then x\<lparr>gc_default := t\<rparr> # xs else x # set_default g t xs)"

definition switch_group :: "agent \<Rightarrow> args \<Rightarrow> disk \<Rightarrow> reply \<times> disk" where
  "switch_group ag m d = (case load_cfg ag d of
       Inl e \<Rightarrow> (Failed (LoadError e), d)
     | Inr c \<Rightarrow>
       if get_string m ''group'' \<notin> set (map gc_name (cf_groups c)) then (Failed NoSuchGroup, d)
       else write_config_back ag
         (c\<lparr>cf_groups := set_default (get_string m ''group'') (get_string m ''proxy'') (cf_groups c)\<rparr>) d)"

section \<open>The overlay of \<open>dynamic.yml\<close>\<close>

definition load_dynamic :: "agent \<Rightarrow> disk \<Rightarrow> string + dynamic_spec" where
  "load_dynamic ag d = (case dk_files d (ag_dyn_path ag) of
       None \<Rightarrow> Inr \<lparr>dy_proxies = [], dy_rules = []\<rparr>
     | Some b \<Rightarrow> ag_dyn_decode ag b)"

definition save_dynamic :: "agent \<Rightarrow> dynamic_spec \<Rightarrow> disk \<Rightarrow> reply \<times> disk" where
  "save_dynamic ag s d = put_text (ag_dyn_path ag) (ag_dyn_encode ag s) d"

definition new_entry :: "args \<Rightarrow> config_proxy" where
  "new_entry m = (spec_proxy [])\<lparr>pc_name := get_string m ''name'', pc_type := get_string m ''type'',
     pc_server := get_string m ''server'', pc_port := to_int (arg m ''port''), pc_cipher := get_string m ''cipher'',
     pc_password := get_string m ''password'', pc_uuid := get_string m ''uuid'', pc_sni := get_string m ''sni'',
     pc_alter_id := to_int (arg m ''alterId'')\<rparr>"

text \<open>Both \<open>add_proxy_tool\<close> and \<open>url_action\<close> replace the first entry with the key, or append.\<close>

fun put_entry :: "('a \<Rightarrow> string) \<Rightarrow> 'a \<Rightarrow> 'a list \<Rightarrow> 'a list" where
  "put_entry key e [] = [e]"
| "put_entry key e (x # xs) = (if key x = key e then e # xs else x # put_entry key e xs)"

definition add_proxy_tool :: "agent \<Rightarrow> args \<Rightarrow> disk \<Rightarrow> reply \<times> disk" where
  "add_proxy_tool ag m d = (let p = new_entry m in
     if pc_name p = [] \<or> pc_type p = [] \<or> pc_server p = [] \<or> pc_port p = 0 then (Failed MissingArgument, d)
     else case load_dynamic ag d of
       Inl e \<Rightarrow> (Failed (OverlayError e), d)
     | Inr s \<Rightarrow> save_dynamic ag (s\<lparr>dy_proxies := put_entry pc_name p (dy_proxies s)\<rparr>) d)"

definition add_dynamic_rule :: "agent \<Rightarrow> args \<Rightarrow> disk \<Rightarrow> reply \<times> disk" where
  "add_dynamic_rule ag m d = (let r = trim_space (get_string m ''rule'') in
     if r = [] then (Failed MissingArgument, d)
     else if length (split_all CHR '','' r) < 3 then (Failed BadFormat, d)
     else case load_dynamic ag d of
       Inl e \<Rightarrow> (Failed (OverlayError e), d)
     | Inr s \<Rightarrow> save_dynamic ag (s\<lparr>dy_rules := r # dy_rules s\<rparr>) d)"

section \<open>The other tools of \<open>registerExtra\<close>\<close>

text \<open>These fall back to the empty configuration when \<open>Load\<close> fails, for whatever reason.\<close>

definition load_or_zero :: "agent \<Rightarrow> disk \<Rightarrow> config" where
  "load_or_zero ag d = (case load_cfg ag d of Inl e \<Rightarrow> zero_config | Inr c \<Rightarrow> c)"

definition new_action :: "args \<Rightarrow> url_action" where
  "new_action m = \<lparr>ua_match = get_string m ''match'', ua_regex = get_bool m ''regex'',
     ua_action = get_string m ''urlAction'', ua_status = to_int (arg m ''status''), ua_body = get_string m ''body'',
     ua_location = get_string m ''location'', ua_headers = strings_of (arg m ''headers'')\<rparr>"

definition with_actions :: "(url_action list \<Rightarrow> url_action list) \<Rightarrow> config \<Rightarrow> config" where
  "with_actions f c = c\<lparr>cf_mitm := (cf_mitm c)\<lparr>mc_actions := f (mc_actions (cf_mitm c))\<rparr>\<rparr>"

definition drop_matching :: "string \<Rightarrow> url_action list \<Rightarrow> url_action list" where
  "drop_matching k xs = filter (\<lambda>x. ua_match x \<noteq> k) xs"

definition url_action_tool :: "agent \<Rightarrow> args \<Rightarrow> disk \<Rightarrow> reply \<times> disk" where
  "url_action_tool ag m d =
     (let act = get_string m ''action''; c = load_or_zero ag d; k = get_string m ''match'' in
      if act = ''list'' then (Shown, d)
      else if act = ''add'' then
        (if k = [] \<or> get_string m ''urlAction'' = [] then (Failed MissingArgument, d)
         else if ua_action (new_action m) = ''redirect'' \<and> ua_location (new_action m) = [] then (Failed MissingArgument, d)
         else write_config_back ag (with_actions (put_entry ua_match (new_action m)) c) d)
      else if act = ''remove'' then
        (if k = [] then (Failed MissingArgument, d)
         else case write_config_back ag (with_actions (drop_matching k) c) d of
           (Saved, d') \<Rightarrow> (if k \<in> ua_match ` set (mc_actions (cf_mitm c)) then Saved else NothingRemoved, d')
         | r \<Rightarrow> r)
      else (Failed UnknownAction, d))"

definition flow_settings :: "args \<Rightarrow> bool \<Rightarrow> flow_config \<Rightarrow> flow_config" where
  "flow_settings m on f =
     (let lp = (if get_string m ''logPath'' \<noteq> [] then get_string m ''logPath'' else fc_log_path f);
          db = (if get_string m ''dbPath'' \<noteq> [] then get_string m ''dbPath'' else fc_db_path f);
          mx = (if 0 < to_int (arg m ''maxFlows'') then to_int (arg m ''maxFlows'') else fc_max_flows f)
      in \<lparr>fc_enable = on, fc_log_path = (if on \<and> lp = [] \<and> db = [] then ''./flows.jsonl'' else lp),
           fc_db_path = db, fc_max_flows = mx\<rparr>)"

definition flow_set :: "agent \<Rightarrow> args \<Rightarrow> bool \<Rightarrow> disk \<Rightarrow> reply \<times> disk" where
  "flow_set ag m on d = (let c = load_or_zero ag d in
     write_config_back ag (c\<lparr>cf_flow := flow_settings m on (cf_flow c)\<rparr>) d)"

definition flow_dump :: "agent \<Rightarrow> args \<Rightarrow> disk \<Rightarrow> reply \<times> disk" where
  "flow_dump ag m d = (case load_cfg ag d of
       Inl e \<Rightarrow> (Failed NotConfigured, d)
     | Inr c \<Rightarrow>
       if fc_log_path (cf_flow c) = [] then (Failed NotConfigured, d)
       else let src = or_str (get_string m ''src'') (fc_log_path (cf_flow c)); dst = get_string m ''dst'' in
         if dst = [] then (Failed MissingArgument, d)
         else case dk_files d src of
           None \<Rightarrow> (Failed NoSuchFile, d)
         | Some s \<Rightarrow> put_text dst s d)"

text \<open>\<open>replay\<close> answers with what its command, a parameter here, makes of the file.\<close>

definition flow_replay :: "agent \<Rightarrow> (string \<Rightarrow> string \<Rightarrow> reply) \<Rightarrow> args \<Rightarrow> disk \<Rightarrow> reply \<times> disk" where
  "flow_replay ag replay m d = (case load_cfg ag d of
       Inl e \<Rightarrow> (Failed NotConfigured, d)
     | Inr c \<Rightarrow>
       if \<not> fc_enable (cf_flow c) \<or> fc_log_path (cf_flow c) = [] then (Failed NotConfigured, d)
       else let src = get_string m ''src'' in
         if src = [] then (Failed MissingArgument, d)
         else if dk_files d src = None then (Failed NoSuchFile, d)
         else (replay (ag_path ag) src, d))"

definition flow_tool :: "agent \<Rightarrow> (string \<Rightarrow> string \<Rightarrow> reply) \<Rightarrow> args \<Rightarrow> disk \<Rightarrow> reply \<times> disk" where
  "flow_tool ag replay m d = (let act = get_string m ''action'' in
     if act = ''status'' then (case load_cfg ag d of Inl e \<Rightarrow> (Failed (LoadError e), d) | Inr c \<Rightarrow> (Shown, d))
     else if act = ''enable'' then flow_set ag m True d
     else if act = ''disable'' then flow_set ag m False d
     else if act = ''dump'' then flow_dump ag m d
     else if act = ''replay'' then flow_replay ag replay m d
     else (Failed UnknownAction, d))"

definition upstream_tool :: "agent \<Rightarrow> args \<Rightarrow> disk \<Rightarrow> reply \<times> disk" where
  "upstream_tool ag m d =
     (let act = get_string m ''action''; c = load_or_zero ag d; u = cf_upstream c; url = get_string m ''url'';
          n = to_int (arg m ''timeout'') in
      if act = ''status'' then (Shown, d)
      else if act = ''enable'' then
        (if url = [] then (Failed MissingArgument, d)
         else if \<not> has_prefix url ''http://'' \<and> \<not> has_prefix url ''https://'' \<and> \<not> has_prefix url ''socks5://''
         then (Failed BadFormat, d)
         else write_config_back ag
           (c\<lparr>cf_upstream := u\<lparr>uc_url := url, uc_timeout := or_int (if 0 < n then n else uc_timeout u) 30\<rparr>\<rparr>) d)
      else if act = ''disable'' then write_config_back ag (c\<lparr>cf_upstream := u\<lparr>uc_url := []\<rparr>\<rparr>) d
      else (Failed UnknownAction, d))"

definition set_paths :: "string \<Rightarrow> string \<Rightarrow> string \<Rightarrow> config \<Rightarrow> config" where
  "set_paths target crt key c =
     (if target = ''origin'' then c\<lparr>cf_mitm := (cf_mitm c)\<lparr>mc_client_crt := crt, mc_client_key := key\<rparr>\<rparr>
      else c\<lparr>cf_upstream := (cf_upstream c)\<lparr>uc_client_crt := crt, uc_client_key := key\<rparr>\<rparr>)"

definition mtls_tool :: "agent \<Rightarrow> args \<Rightarrow> disk \<Rightarrow> reply \<times> disk" where
  "mtls_tool ag m d =
     (let act = get_string m ''action''; target = or_str (get_string m ''target'') ''upstream'';
          c = load_or_zero ag d; crt = get_string m ''crt''; key = or_str (get_string m ''key'') crt in
      if act = ''status'' then (Shown, d)
      else if act = ''enable'' then
        (if crt = [] then (Failed MissingArgument, d)
         else if dk_files d crt = None then (Failed NoSuchFile, d)
         else if dk_files d key = None then (Failed NoSuchFile, d)
         else write_config_back ag (set_paths target crt key c) d)
      else if act = ''disable'' then write_config_back ag (set_paths target [] [] c) d
      else (Failed UnknownAction, d))"

section \<open>Configurations of started services\<close>

text \<open>The configurations that the tools \<open>tproxy\<close> and \<open>mitm\<close> write for the proxy they start.\<close>

definition tproxy_tool_config :: "args \<Rightarrow> config" where
  "tproxy_tool_config m = zero_config\<lparr>cf_mode := ''direct'',
     cf_listen := \<lparr>lc_http = 0, lc_socks5 = 0, lc_tproxy = to_int (arg m ''port''),
       lc_tproxy_mark = or_int (to_int (arg m ''mark'')) 1, lc_tproxy_table = or_int (to_int (arg m ''table'')) 100\<rparr>\<rparr>"

definition mitm_tool_config :: "args \<Rightarrow> config" where
  "mitm_tool_config m = (let port = or_int (to_int (arg m ''http-port'')) 8081 in
     zero_config\<lparr>cf_mode := ''direct'',
       cf_mitm := (cf_mitm zero_config)\<lparr>mc_enable := True, mc_ca_path := or_str (get_string m ''ca-path'') ''ca.crt'',
         mc_http_port := port\<rparr>,
       cf_listen := (cf_listen zero_config)\<lparr>lc_http := port\<rparr>\<rparr>)"

section \<open>Arguments and lists\<close>

text \<open>A number given as text is an integer of 64 bits.\<close>

lemma atoi_value_range: "- (2 ^ 63) \<le> atoi_value s \<and> atoi_value s < 2 ^ 63"
  by (auto simp: atoi_value_def atoi_def Let_def split: option.splits if_splits prod.splits)

lemma put_entry_keys: "key ` set (put_entry key e xs) = insert (key e) (key ` set xs)"
  by (induction xs) auto

lemma put_entry_distinct: "distinct (map key xs) \<Longrightarrow> distinct (map key (put_entry key e xs))"
proof (induction xs)
  case (Cons x xs)
  have "key ` set (put_entry key e xs) = insert (key e) (key ` set xs)"
    by (rule put_entry_keys)
  with Cons show ?case by auto
qed simp

lemma put_entry_finds: "find (\<lambda>x. key x = k) (put_entry key e xs) = (if k = key e then Some e else find (\<lambda>x. key x = k) xs)"
  by (induction xs) auto

lemma drop_matching_finds:
  "find (\<lambda>x. ua_match x = k) (drop_matching k' xs) = (if k = k' then None else find (\<lambda>x. ua_match x = k) xs)"
  by (induction xs) (auto simp: drop_matching_def)

lemma drop_put_entry: "k \<notin> ua_match ` set xs \<Longrightarrow> ua_match e = k \<Longrightarrow> drop_matching k (put_entry ua_match e xs) = xs"
  by (induction xs) (auto simp: drop_matching_def)

lemma set_default_finds:
  "find (\<lambda>x. gc_name x = g) (set_default g t xs) = map_option (\<lambda>x. x\<lparr>gc_default := t\<rparr>) (find (\<lambda>x. gc_name x = g) xs)"
  by (induction xs) auto

section \<open>What is read after it was written\<close>

text \<open>The codec reads a configuration back as it was.\<close>

definition readable :: "agent \<Rightarrow> config \<Rightarrow> bool" where
  "readable ag c \<longleftrightarrow> ag_decode ag (ag_encode ag c) first_config = Inr c"

lemma put_text_saved:
  "put_text p s d = (Saved, d') \<longleftrightarrow> \<not> dk_frozen d p \<and> d' = d\<lparr>dk_files := (dk_files d)(p \<mapsto> s)\<rparr>"
  by (auto simp: put_text_def write_file_def split: if_splits)

lemmas saving = write_config_back_def save_dynamic_def put_text_saved

lemma write_back_loads:
  "write_config_back ag c d = (Saved, d') \<Longrightarrow> readable ag c \<Longrightarrow> load_cfg ag d' = Inr (apply_defaults (ag_key ag) c)"
  by (auto simp: saving load_cfg_def load_def read_file_def readable_def)

lemma loaded_settled: "load_cfg ag d = Inr c \<Longrightarrow> apply_defaults (ag_key ag) c = c"
  by (auto simp: load_cfg_def load_def defaults_settle split: sum.splits)

lemma loaded_key:
  "load_cfg ag d = Inr c \<Longrightarrow> ac_api_key (cf_agent c) \<noteq> [] \<or> ag_key ag = []"
  by (auto simp: load_cfg_def load_def apply_defaults_def agent_defaults_def or_str_def split: sum.splits if_splits)

lemma defaults_groups: "apply_defaults env (c\<lparr>cf_groups := g\<rparr>) = (apply_defaults env c)\<lparr>cf_groups := g\<rparr>"
  by (simp add: apply_defaults_def)

section \<open>Edits without effect\<close>

text \<open>Nothing that is started from a configuration looks at its groups.\<close>

lemma options_without_groups: "proxy_options he (c\<lparr>cf_groups := g\<rparr>) st = proxy_options he c st"
proof -
  have "merge_dynamic dec path ov (c\<lparr>cf_groups := g\<rparr>) =
      map_option (map_sum id (\<lambda>c. c\<lparr>cf_groups := g\<rparr>)) (merge_dynamic dec path ov c)" for dec path ov
    by (cases ov) (auto simp: merge_dynamic_def merge_spec_def split: by_value.splits)
  then have same: "build_router he (c\<lparr>cf_groups := g\<rparr>) = build_router he c"
    by (simp add: build_router_def split: option.splits sum.splits)
  have parts: "build_mitm_handler he (c\<lparr>cf_groups := g\<rparr>) = build_mitm_handler he c"
    "build_flow_hooks (c\<lparr>cf_groups := g\<rparr>) = build_flow_hooks c" "cf_mitm (c\<lparr>cf_groups := g\<rparr>) = cf_mitm c"
    "build_flow_sinks he (c\<lparr>cf_groups := g\<rparr>) = build_flow_sinks he c"
    "build_upstream he (c\<lparr>cf_groups := g\<rparr>) = build_upstream he c"
    by (simp_all add: build_mitm_handler_def build_flow_hooks_def build_flow_sinks_def build_upstream_def)
  show ?thesis
    unfolding proxy_options_def same parts ..
qed

text \<open>
 C20: switching a group switches nothing. When the tool reports success, the configuration on
  disk has the new default in the first group of that name, and a proxy started from it, on any
  machine, is the one that would have been started before.
\<close>

theorem switch_group_ineffective:
  assumes "load_cfg ag d = Inr c" and "switch_group ag m d = (Saved, d')"
    and "readable ag (c\<lparr>cf_groups := set_default (get_string m ''group'') (get_string m ''proxy'') (cf_groups c)\<rparr>)"
  shows "\<exists>c'. load_cfg ag d' = Inr c' \<and>
    find (\<lambda>x. gc_name x = get_string m ''group'') (cf_groups c') =
      map_option (\<lambda>x. x\<lparr>gc_default := get_string m ''proxy''\<rparr>) (find (\<lambda>x. gc_name x = get_string m ''group'') (cf_groups c)) \<and>
    (\<forall>he st. proxy_options he c' st = proxy_options he c st)"
proof -
  let ?c = "c\<lparr>cf_groups := set_default (get_string m ''group'') (get_string m ''proxy'') (cf_groups c)\<rparr>"
  have "write_config_back ag ?c d = (Saved, d')"
    using assms(1,2) by (auto simp: switch_group_def split: if_splits)
  from write_back_loads [OF this assms(3)] have "load_cfg ag d' = Inr ?c"
    by (simp add: defaults_groups loaded_settled [OF assms(1)])
  then show ?thesis
    by (auto simp: set_default_finds options_without_groups)
qed

text \<open>The same holds for what is added to the overlay: it is never merged.\<close>

definition overlay_on :: "agent \<Rightarrow> disk \<Rightarrow> overlay_file" where
  "overlay_on ag d = (case dk_files d (ag_dyn_path ag) of None \<Rightarrow> NoFile | Some b \<Rightarrow> Contents b)"

lemma merge_any_overlay:
  "merge_dynamic dec path ov c = Some (Inr c') \<Longrightarrow> merge_dynamic dec path NoFile c = Some (Inr c')"
  using overlay_ignored [of dec path ov c c'] by (simp add: merge_dynamic_def)

lemma probe_each_overlay: "probe_each (he\<lparr>he_overlay := ov\<rparr>) nms w = probe_each he nms w"
  by (induction nms arbitrary: w) (simp_all split: option.splits pref.splits obj.splits)

lemma overlay_ineffective:
  "build_router (he\<lparr>he_overlay := ov\<rparr>) c = Some (Inr rw) \<Longrightarrow> build_router (he\<lparr>he_overlay := NoFile\<rparr>) c = Some (Inr rw)"
  by (auto simp: build_router_def probe_each_overlay dest: merge_any_overlay split: option.splits sum.splits)

lemma additions_ineffective:
  assumes "add_proxy_tool ag m d = (Saved, d') \<or> add_dynamic_rule ag m d = (Saved, d')" and "ag_dyn_path ag \<noteq> ag_path ag"
  shows "load_cfg ag d' = load_cfg ag d \<and>
    (build_router (he\<lparr>he_overlay := overlay_on ag d'\<rparr>) c = Some (Inr rw) \<longrightarrow>
     build_router (he\<lparr>he_overlay := overlay_on ag d\<rparr>) c \<in> {Some (Inr rw), None} \<or>
     (\<exists>e. build_router (he\<lparr>he_overlay := overlay_on ag d\<rparr>) c = Some (Inl e)))"
proof -
  have "\<exists>s. d' = d\<lparr>dk_files := (dk_files d)(ag_dyn_path ag \<mapsto> s)\<rparr>"
    using assms(1) by (auto simp: add_proxy_tool_def add_dynamic_rule_def saving Let_def split: if_splits sum.splits)
  then have "load_cfg ag d' = load_cfg ag d"
    using assms(2) by (auto simp: load_cfg_def read_file_def)
  moreover have "build_router (he\<lparr>he_overlay := overlay_on ag d\<rparr>) c \<in> {Some (Inr rw), None} \<or>
      (\<exists>e. build_router (he\<lparr>he_overlay := overlay_on ag d\<rparr>) c = Some (Inl e))"
    if "build_router (he\<lparr>he_overlay := overlay_on ag d'\<rparr>) c = Some (Inr rw)"
  proof (cases "build_router (he\<lparr>he_overlay := overlay_on ag d\<rparr>) c")
    case (Some r)
    show ?thesis
    proof (cases r)
      case (Inr rw')
      then show ?thesis
        using overlay_ineffective [OF that] overlay_ineffective [where he = he and rw = rw' and c = c and ov = "overlay_on ag d"] Some by auto
    qed (simp add: Some)
  qed simp
  ultimately show ?thesis by blast
qed

section \<open>What edits destroy and disclose\<close>

text \<open>
  C18: a file that cannot be read is thrown away by four of the editing tools. When the
  configuration does not decode, say for one wrong indentation, a successful edit with
  \<open>url_action\<close>, \<open>flow\<close>, \<open>upstream\<close> or \<open>mtls\<close> replaces it by a configuration without proxies,
  groups and rules; \<open>switch_group\<close> on the other hand refuses and leaves the file as it is.
\<close>

theorem broken_config_overwritten:
  assumes "load_cfg ag d = Inl e"
    and "tool \<in> {url_action_tool ag m, flow_set ag m on, upstream_tool ag m, mtls_tool ag m}"
    and "tool d = (Saved, d')"
  shows "(\<exists>c. dk_files d' (ag_path ag) = Some (ag_encode ag c) \<and>
      cf_proxies c = [] \<and> cf_groups c = [] \<and> cf_rules c = []) \<and>
    switch_group ag m' d = (Failed (LoadError e), d)"
proof
  have "\<exists>c. write_config_back ag c d = (Saved, d') \<and> cf_proxies c = [] \<and> cf_groups c = [] \<and> cf_rules c = []"
    using assms
    by (auto simp: url_action_tool_def flow_set_def upstream_tool_def mtls_tool_def load_or_zero_def zero_config_def
        Let_def with_actions_def set_paths_def split: if_splits reply.splits prod.splits)
      (rule exI, erule conjI, simp)+
  then show "\<exists>c. dk_files d' (ag_path ag) = Some (ag_encode ag c) \<and> cf_proxies c = [] \<and> cf_groups c = [] \<and> cf_rules c = []"
    by (auto simp: saving)
qed (simp add: switch_group_def assms(1))

text \<open>
 Every edit writes the secret of the environment to disk. \<open>Load\<close> fills an empty key in
  from \<open>AGENT_API_KEY\<close>, and the tools write out what they loaded: after any successful edit
  the file holds a configuration with the key in it.
\<close>

theorem edits_write_key:
  assumes "ag_decode ag s first_config = Inr c0" and "dk_files d (ag_path ag) = Some s"
    and "ac_api_key (cf_agent c0) = []" and "ag_key ag \<noteq> []"
    and "tool \<in> {switch_group ag m, url_action_tool ag m, flow_set ag m on, upstream_tool ag m, mtls_tool ag m}"
    and "tool d = (Saved, d')"
  shows "\<exists>c. dk_files d' (ag_path ag) = Some (ag_encode ag c) \<and> ac_api_key (cf_agent c) = ag_key ag"
proof -
  have loaded: "load_cfg ag d = Inr (apply_defaults (ag_key ag) c0)"
    using assms(1,2) by (simp add: load_cfg_def load_def read_file_def)
  have key: "ac_api_key (cf_agent (apply_defaults (ag_key ag) c0)) = ag_key ag"
    using assms(3,4) by (simp add: apply_defaults_def agent_defaults_def agent_basics_def or_str_def)
  have "\<exists>c. write_config_back ag c d = (Saved, d') \<and> cf_agent c = cf_agent (apply_defaults (ag_key ag) c0)"
    using assms(5,6)
    by (auto simp: switch_group_def url_action_tool_def flow_set_def upstream_tool_def mtls_tool_def load_or_zero_def
        loaded Let_def with_actions_def set_paths_def split: if_splits reply.splits prod.splits)
      (rule exI, erule conjI, simp)+
  then show ?thesis
    using key by (auto simp: saving)
qed

section \<open>Generated configurations\<close>

text \<open>
 What \<open>gen_config\<close> writes has been checked. On success exactly one file has changed: it
  holds the configuration that the specification stands for, which passes validation, and a
  human, if there is one, was shown the path and the start of the text and has answered yes. In
  every other case no file has changed.
\<close>

theorem gen_config_checked:
  shows "(fst (gen_config ag m d) = Saved \<longrightarrow>
      (\<exists>spec p. arg m ''spec'' = JObj spec \<and> validate (Some (spec_to_config spec)) = [] \<and>
        snd (gen_config ag m d) = d\<lparr>dk_files := (dk_files d)(p \<mapsto> ag_encode ag (spec_to_config spec))\<rparr> \<and>
        (\<forall>ask. ag_ask ag = Some ask \<longrightarrow>
          trim_space (ask p (preview (ag_encode ag (spec_to_config spec)))) = ''yes''))) \<and>
    (fst (gen_config ag m d) \<noteq> Saved \<longrightarrow> snd (gen_config ag m d) = d)"
proof -
  have "(fst (put_text p b d) = Saved \<longrightarrow> snd (put_text p b d) = d\<lparr>dk_files := (dk_files d)(p \<mapsto> b)\<rparr>) \<and>
      (fst (put_text p b d) \<noteq> Saved \<longrightarrow> snd (put_text p b d) = d)" for p b
    by (simp add: put_text_def write_file_def)
  then show ?thesis
    unfolding gen_config_def Let_def
    by (cases "arg m ''spec''") (auto split: sum.split option.split)
qed

section \<open>The started interceptor\<close>

text \<open>
 The tool that starts interception starts none: its configuration has no allow list, without
  which there is no handler, and its HTTP listener only tunnels.
\<close>

lemma mitm_tool_intercepts_nothing: "build_mitm_handler he (apply_defaults env (mitm_tool_config m)) = None"
  by (simp add: build_mitm_handler_def mitm_tool_config_def apply_defaults_def mitm_defaults_def ca_default_def
      zero_config_def Let_def)

text \<open>The zeros with which the tool \<open>tproxy\<close> means to switch the other listeners off are filled in.\<close>

lemma tproxy_tool_listens:
  "lc_http (cf_listen (apply_defaults env (tproxy_tool_config m))) = 7890"
  "lc_socks5 (cf_listen (apply_defaults env (tproxy_tool_config m))) = 7891"
  by (simp_all add: apply_defaults_def tproxy_tool_config_def listen_defaults_def or_int_def)

section \<open>Examples\<close>

definition at_demo_config :: config where
  "at_demo_config = zero_config\<lparr>cf_groups := [\<lparr>gc_name = ''G'', gc_type = ''selector'', gc_proxies = [''a'', ''b''],
     gc_url = [], gc_interval = 0, gc_default = ''a''\<rparr>]\<rparr>"

text \<open>A codec that knows one text, the other it rejects.\<close>

definition at_demo_agent :: "config \<Rightarrow> agent" where
  "at_demo_agent c = \<lparr>ag_path = ''config.yml'', ag_dyn_path = ''dynamic.yml'', ag_key = ''k'',
     ag_decode = (\<lambda>s _. if s = ''broken'' then Inl ''yaml'' else Inr c), ag_encode = (\<lambda>_. ''text''),
     ag_dyn_decode = (\<lambda>_. Inl ''yaml''), ag_dyn_encode = (\<lambda>_. ''text''), ag_ask = None\<rparr>"

definition at_demo_disk :: "string \<Rightarrow> disk" where
  "at_demo_disk s = \<lparr>dk_files = [''config.yml'' \<mapsto> s], dk_frozen = (\<lambda>_. False)\<rparr>"

lemma to_int_example: "to_int (JNum (15 / 2)) = 7" "to_int (JNum (- 15 / 2)) = - 7" "to_int (JStr ''8080'') = 8080"
proof -
  have "atoi ''8080'' = Some 8080" by code_simp
  moreover have "\<lfloor>15 / 2 :: rat\<rfloor> = 7" by (simp add: floor_eq_iff)
  ultimately show "to_int (JNum (15 / 2)) = 7" "to_int (JNum (- 15 / 2)) = - 7" "to_int (JStr ''8080'') = 8080"
    by (simp_all add: to_int_def atoi_value_def ceiling_minus)
qed

theorem broken_config_overwritten_witness:
  "\<exists>d1. upstream_tool (at_demo_agent zero_config) [(''action'', JStr ''disable'')] (at_demo_disk ''broken'') = (Saved, d1) \<and>
     dk_files d1 ''config.yml'' = Some ''text'' \<and>
     fst (switch_group (at_demo_agent zero_config) [] (at_demo_disk ''broken'')) \<noteq> Saved"
proof -
  let ?ag = "at_demo_agent zero_config" and ?d = "at_demo_disk ''broken''" and ?m = "[(''action'', JStr ''disable'')]"
  have "load_cfg ?ag ?d = Inl (DecodeError ''yaml'')"
    by (simp add: load_cfg_def load_def read_file_def at_demo_agent_def at_demo_disk_def)
  moreover obtain d1 where "upstream_tool ?ag ?m ?d = (Saved, d1)"
    by (simp add: upstream_tool_def get_string_def arg_def write_config_back_def put_text_def write_file_def
        at_demo_disk_def Let_def)
  ultimately show ?thesis
    using broken_config_overwritten [of ?ag ?d "DecodeError ''yaml''" "upstream_tool ?ag ?m" ?m True d1 "[]"]
    by (auto simp: at_demo_agent_def)
qed

theorem edits_write_key_witness:
  "\<exists>d' c. upstream_tool (at_demo_agent zero_config) [(''action'', JStr ''disable'')] (at_demo_disk ''ok'') = (Saved, d') \<and>
     dk_files d' ''config.yml'' = Some (ag_encode (at_demo_agent zero_config) c) \<and> ac_api_key (cf_agent c) = ''k''"
proof -
  let ?ag = "at_demo_agent zero_config" and ?d = "at_demo_disk ''ok''" and ?m = "[(''action'', JStr ''disable'')]"
  obtain d' where "upstream_tool ?ag ?m ?d = (Saved, d')"
    by (simp add: upstream_tool_def get_string_def arg_def write_config_back_def put_text_def write_file_def
        at_demo_disk_def Let_def)
  then show ?thesis
    using edits_write_key [of ?ag "''ok''" zero_config ?d "upstream_tool ?ag ?m" ?m True d']
    by (auto simp: at_demo_agent_def at_demo_disk_def zero_config_def)
qed

text \<open>Two texts for two configurations.\<close>

definition at_demo_first :: config where
  "at_demo_first = apply_defaults ''k'' at_demo_config"

definition at_demo_second :: config where
  "at_demo_second = at_demo_first\<lparr>cf_groups := set_default ''G'' ''b'' (cf_groups at_demo_first)\<rparr>"

definition at_demo_switching :: agent where
  "at_demo_switching = (at_demo_agent zero_config)
     \<lparr>ag_decode := (\<lambda>s _. if s = ''second'' then Inr at_demo_second else Inr at_demo_first), ag_encode := (\<lambda>_. ''second'')\<rparr>"

theorem switch_group_ineffective_witness:
  "\<exists>d' c'. switch_group at_demo_switching [(''group'', JStr ''G''), (''proxy'', JStr ''b'')] (at_demo_disk ''first'') = (Saved, d') \<and>
     load_cfg at_demo_switching d' = Inr c' \<and> proxy_options rt_demo_env c' True = proxy_options rt_demo_env at_demo_first True"
proof -
  let ?m = "[(''group'', JStr ''G''), (''proxy'', JStr ''b'')]"
  have args: "get_string ?m ''group'' = ''G''" "get_string ?m ''proxy'' = ''b''"
    by (simp_all add: get_string_def arg_def)
  have load1: "load_cfg at_demo_switching (at_demo_disk ''first'') = Inr at_demo_first"
    using defaults_settle [of "''k''" at_demo_config]
    by (simp add: load_cfg_def load_def read_file_def at_demo_switching_def at_demo_agent_def at_demo_disk_def at_demo_first_def)
  have "gc_name ` set (cf_groups at_demo_first) = {''G''}"
    by (simp add: at_demo_first_def apply_defaults_def at_demo_config_def)
  moreover have "\<not> dk_frozen (at_demo_disk ''first'') p" for p
    by (simp add: at_demo_disk_def)
  ultimately obtain d' where saved: "switch_group at_demo_switching ?m (at_demo_disk ''first'') = (Saved, d')"
    by (simp add: switch_group_def load1 args write_config_back_def put_text_def write_file_def)
  have "readable at_demo_switching (at_demo_first\<lparr>cf_groups :=
      set_default (get_string ?m ''group'') (get_string ?m ''proxy'') (cf_groups at_demo_first)\<rparr>)"
    unfolding args by (simp add: readable_def at_demo_switching_def at_demo_second_def)
  from switch_group_ineffective [OF load1 saved this] saved show ?thesis by blast
qed

theorem gen_config_checked_witness:
  "\<exists>spec p. validate (Some (spec_to_config spec)) = [] \<and>
     snd (gen_config (at_demo_agent zero_config) [(''spec'', JObj [])] (at_demo_disk ''old'')) =
       (at_demo_disk ''old'')\<lparr>dk_files := (dk_files (at_demo_disk ''old''))(p \<mapsto> ''text'')\<rparr>"
proof -
  let ?ag = "at_demo_agent zero_config" and ?m = "[(''spec'', JObj [])]"
  have "arg ?m ''spec'' = JObj []" "trim_space (get_string ?m ''path'') = []"
    by (simp_all add: get_string_def arg_def trim_space_def trim_right_def)
  moreover have "validate (Some (spec_to_config [])) = []"
    by (simp add: validate_def spec_to_config_def first_config_def zero_config_def get_string_def arg_def objects_of_def
        strings_of_def in_section_def port_errors_def all_rule_errors_def cidr_errors_def)
  ultimately have "fst (gen_config ?ag ?m (at_demo_disk ''old'')) = Saved"
    by (simp add: gen_config_def Let_def put_text_def write_file_def load_from_bytes_def at_demo_agent_def at_demo_disk_def)
  with gen_config_checked [of ?ag ?m "at_demo_disk ''old''"] show ?thesis
    by (auto simp: at_demo_agent_def)
qed

end
