(* ===== verification/Agent_Keys.thy ===== *)
theory Agent_Keys
  imports Go_Io
begin

text \<open>
  The keys of the terminal (\<open>readUtf8Rune\<close>, \<open>readESCSuffix\<close> in \<open>agent/tui.go\<close>), characters of several
  bytes (package \<open>unicode/utf8\<close>) and the questions of tools (\<open>tuiAsk\<close>).

  The keyboard is the list of the bytes it will ever send; a read behind the last one fails.
\<close>

section \<open>Package unicode/utf8\<close>

definition cont_byte :: "byte \<Rightarrow> bool" where
  "cont_byte b \<longleftrightarrow> 0x80 \<le> b \<and> b < 0xC0"

text \<open>The encoding of one character.\<close>

fun rune_ok :: "bytes \<Rightarrow> bool" where
  "rune_ok [a] = (a < 0x80)"
| "rune_ok [a, b] = (0xC2 \<le> a \<and> a < 0xE0 \<and> cont_byte b)"
| "rune_ok [a, b, c] = (0xE0 \<le> a \<and> a < 0xF0 \<and> cont_byte b \<and> cont_byte c \<and> (a = 0xE0 \<longrightarrow> 0xA0 \<le> b) \<and> (a = 0xED \<longrightarrow> b < 0xA0))"
| "rune_ok [a, b, c, d] = (0xF0 \<le> a \<and> a < 0xF5 \<and> cont_byte b \<and> cont_byte c \<and> cont_byte d \<and>
     (a = 0xF0 \<longrightarrow> 0x90 \<le> b) \<and> (a = 0xF4 \<longrightarrow> b < 0x90))"
| "rune_ok bs = False"

fun rune_value :: "bytes \<Rightarrow> nat" where
  "rune_value [a] = unat a"
| "rune_value [a, b] = (unat a - 0xC0) * 64 + (unat b - 0x80)"
| "rune_value [a, b, c] = ((unat a - 0xE0) * 64 + (unat b - 0x80)) * 64 + (unat c - 0x80)"
| "rune_value [a, b, c, d] = (((unat a - 0xF0) * 64 + (unat b - 0x80)) * 64 + (unat c - 0x80)) * 64 + (unat d - 0x80)"
| "rune_value bs = 0xFFFD"

text \<open>\<open>DecodeRune\<close> on a nonempty string: the character and its length.\<close>

definition decode_rune :: "bytes \<Rightarrow> nat \<times> nat" where
  "decode_rune bs = (case find (\<lambda>n. n \<le> length bs \<and> rune_ok (take n bs)) [1, 2, 3, 4] of
       Some n \<Rightarrow> (rune_value (take n bs), n)
     | None \<Rightarrow> (0xFFFD, 1))"

text \<open>The length that \<open>DecodeLastRune\<close> returns.\<close>

definition last_rune_size :: "bytes \<Rightarrow> nat" where
  "last_rune_size bs =
     (if bs = [] then 0
      else case find (\<lambda>n. n \<le> length bs \<and> rune_ok (drop (length bs - n) bs)) [1, 2, 3, 4] of Some n \<Rightarrow> n | None \<Rightarrow> 1)"

text \<open>The characters over which \<open>range\<close> goes.\<close>

function runes :: "bytes \<Rightarrow> nat list" where
  "runes bs = (if bs = [] then [] else fst (decode_rune bs) # runes (drop (snd (decode_rune bs)) bs))"
  by pat_completeness auto
termination
proof (relation "measure length", simp)
  fix bs :: bytes assume "bs \<noteq> []"
  moreover have "0 < snd (decode_rune bs)"
    by (auto simp: decode_rune_def find_Some_iff split: option.split)
  ultimately show "(drop (snd (decode_rune bs)) bs, bs) \<in> measure length"
    by (cases bs) (auto simp: diff_less_Suc less_Suc_eq_le)
qed

declare runes.simps [simp del]

section \<open>Keys\<close>

text \<open>The number of bytes that \<open>readUtf8RuneBuf\<close> takes for a first byte.\<close>

definition lead_length :: "byte \<Rightarrow> nat" where
  "lead_length b = (if b < 0x80 then 1 else if b < 0xE0 then 2 else if b < 0xF0 then 3 else 4)"

definition read_rune :: "bytes \<Rightarrow> (bytes \<times> bytes) option" where
  "read_rune inp = (case inp of [] \<Rightarrow> None | b # _ \<Rightarrow> read_full (lead_length b) inp)"

datatype esc = Bare | EscCr | Alt | Csi

fun csi_suffix :: "bytes \<Rightarrow> (byte \<times> esc) \<times> bytes" where
  "csi_suffix [] = ((0, Csi), [])"
| "csi_suffix (c # cs) = (if 0x40 \<le> c \<and> c \<le> 0x7E \<or> c < 0x20 then ((c, Csi), cs) else csi_suffix cs)"

definition esc_suffix :: "bytes \<Rightarrow> (byte \<times> esc) \<times> bytes" where
  "esc_suffix inp = (case inp of
       [] \<Rightarrow> ((0, Bare), [])
     | b # bs \<Rightarrow>
       if b = 13 \<or> b = 10 then ((b, EscCr), bs)
       else if b = 0x5B then csi_suffix bs
       else if b = 0x4F then (case bs of [] \<Rightarrow> ((0, Csi), []) | c # cs \<Rightarrow> ((c, Csi), cs))
       else ((b, Alt), bs))"

lemma csi_suffix_shorter: "length (snd (csi_suffix inp)) \<le> length inp"
  by (induction inp rule: csi_suffix.induct) auto

lemma esc_suffix_shorter: "length (snd (esc_suffix inp)) \<le> length inp"
  by (auto simp: esc_suffix_def le_SucI csi_suffix_shorter split: list.split)

lemma lead_length_pos [simp]: "0 < lead_length b"
  by (simp add: lead_length_def)

lemma read_rune_shorter: "read_rune inp = Some (key, rest) \<Longrightarrow> length rest < length inp"
proof (cases inp)
  case (Cons b bs)
  moreover assume "read_rune inp = Some (key, rest)"
  ultimately have "inp = key @ rest" "length key = lead_length b"
    by (auto simp: read_rune_def dest: read_full_SomeD)
  then show ?thesis using lead_length_pos [of b] by (cases key) auto
qed (simp add: read_rune_def)

section \<open>Questions of tools\<close>

text \<open>\<open>tuiAsk\<close>: the answer, and whether it was ended with Enter and so became the pending answer.\<close>

function ask_keys :: "bytes \<Rightarrow> bytes \<Rightarrow> (bytes \<times> bool) \<times> bytes" where
  "ask_keys buf inp = (case read_rune inp of
       None \<Rightarrow> ((buf, False), [])
     | Some (key, rest) \<Rightarrow>
       let k = hd key in
       if k = 13 \<or> k = 10 then ((buf, True), rest)
       else if k = 4 \<or> k = 3 then (([], False), rest)
       else if k = 127 \<or> k = 8 then ask_keys (take (length buf - last_rune_size buf) buf) rest
       else if 32 \<le> k then ask_keys (buf @ key) rest
       else ask_keys buf rest)"
  by pat_completeness auto
termination
  by (relation "measure (\<lambda>(buf, inp). length inp)") (auto dest: read_rune_shorter [OF sym] read_rune_shorter)

declare ask_keys.simps [simp del]

section \<open>Characters\<close>

lemmas byte_order = word_le_nat_alt word_less_nat_alt

lemma rune_ok_length: "rune_ok r \<Longrightarrow> r \<noteq> [] \<and> length r = lead_length (hd r)"
  by (cases r rule: rune_ok.cases) (auto simp: lead_length_def byte_order)

lemma read_rune_char: "rune_ok r \<Longrightarrow> read_rune (r @ rest) = Some (r, rest)"
  using rune_ok_length [of r] read_full_append [of r "lead_length (hd r)" rest] by (cases r) (auto simp: read_rune_def)

lemma cont_byte_no_start:
  assumes "cont_byte b"
  shows "\<not> rune_ok (b # bs)"
  using assms by (cases "b # bs" rule: rune_ok.cases) (auto simp: cont_byte_def byte_order)

lemma rune_ok_tail: "rune_ok (a # b # bs) \<Longrightarrow> list_all cont_byte (b # bs)"
  by (cases "a # b # bs" rule: rune_ok.cases) auto

lemma rune_suffix:
  assumes "rune_ok r" and "0 < n" and "n < length r"
  shows "\<not> rune_ok (drop (length r - n) r)"
proof -
  obtain a b bs where r: "r = a # b # bs"
    using assms by (metis One_nat_def Suc_leI length_0_conv length_Cons less_Suc0 list.exhaust not_less rune_ok_length)
  have "drop (length r - n) r = drop (length r - n - 1) (b # bs)"
    using assms r by (cases "length r - n") auto
  moreover have "drop (length r - n - 1) (b # bs) \<noteq> []"
    using assms r by auto
  moreover have "list_all cont_byte (b # bs)"
    using rune_ok_tail assms(1) r by blast
  ultimately obtain c cs where "drop (length r - n) r = c # cs" "cont_byte c"
    by (metis in_set_dropD list.exhaust list.pred_set list.set_intros(1))
  then show ?thesis using cont_byte_no_start by simp
qed

lemma last_rune_size_char:
  assumes "rune_ok r"
  shows "last_rune_size (buf @ r) = length r"
proof -
  let ?P = "\<lambda>n. n \<le> length (buf @ r) \<and> rune_ok (drop (length (buf @ r) - n) (buf @ r))"
  have small: "\<not> ?P n" if "0 < n" "n < length r" for n
    using rune_suffix [OF assms that] that by simp
  have this_one: "?P (length r)" using assms by simp
  have "r \<noteq> []" "length r \<in> {1, 2, 3, 4}"
    using rune_ok_length [OF assms] by (auto simp: lead_length_def)
  moreover have "find ?P [1, 2, 3, 4] = Some (length r)"
    using \<open>length r \<in> {1, 2, 3, 4}\<close> this_one small
    by (elim insertE emptyE) (simp_all only: find.simps if_True if_False zero_less_one zero_less_numeral, auto)
  ultimately show ?thesis by (simp add: last_rune_size_def)
qed

end
