(* ===== verification/Agent_Chat.thy ===== *)
theory Agent_Chat
  imports Agent_Tools Agent_Keys "HOL-Library.AList"
begin

text \<open>
  The conversation of the agent (\<open>agent/tui.go\<close>), its requests to the language model
  (\<open>agent/llm.go\<close>), the modes in which tools run (\<open>agent/config.go\<close> and \<open>agent/tui.go\<close>) and
  the stored sessions (\<open>agent/session.go\<close>, \<open>agent/session_export.go\<close>).

  What the model answers, what the tools answer and what the human types are parameters.
\<close>

section \<open>Messages\<close>

datatype role = System | User | Assistant | Tool

record tool_call =
  tl_id :: string
  tl_name :: string
  tl_args :: string

record message =
  ms_role :: role
  ms_content :: string
  ms_calls :: "tool_call list"
  ms_call_id :: string

definition plain_message :: "role \<Rightarrow> string \<Rightarrow> message" where
  "plain_message r s = \<lparr>ms_role = r, ms_content = s, ms_calls = [], ms_call_id = []\<rparr>"

definition tool_message :: "tool_call \<Rightarrow> string \<Rightarrow> message" where
  "tool_message c s = \<lparr>ms_role = Tool, ms_content = s, ms_calls = [], ms_call_id = tl_id c\<rparr>"

section \<open>Requests to the model\<close>

datatype llm_err = NoKey | NetworkError | BadJson nat | ApiError string | HttpStatus nat | NoChoices | Exhausted llm_err

text \<open>What came back: nothing, or a status with a body, which may be no JSON, and otherwise has an
  error or choices or both.\<close>

datatype llm_answer = NoAnswer | Answer nat "(string option \<times> message list) option"

text \<open>\<open>doOnce\<close>: the message or the error, and whether to try again.\<close>

definition do_once :: "llm_answer \<Rightarrow> (llm_err + message) \<times> bool" where
  "do_once a = (case a of
       NoAnswer \<Rightarrow> (Inl NetworkError, True)
     | Answer st None \<Rightarrow> (Inl (BadJson st), 500 \<le> st)
     | Answer st (Some (Some e, _)) \<Rightarrow> (Inl (ApiError e), False)
     | Answer st (Some (None, cs)) \<Rightarrow>
         if st = 429 \<or> 500 \<le> st then (Inl (HttpStatus st), True)
         else if 400 \<le> st then (Inl (HttpStatus st), False)
         else (case cs of [] \<Rightarrow> (Inl NoChoices, False) | m # _ \<Rightarrow> (Inr m, False)))"

text \<open>The loop of \<open>Complete\<close>: with \<open>n\<close> attempts left, the next of which is number \<open>k\<close>; the result,
  the number of requests and the seconds waited between them.\<close>

fun complete_from :: "(nat \<Rightarrow> llm_answer) \<Rightarrow> nat \<Rightarrow> nat \<Rightarrow> nat \<Rightarrow> llm_err \<Rightarrow> (llm_err + message) \<times> nat \<times> nat" where
  "complete_from ans 0 k secs lasterr = (Inl (Exhausted lasterr), k, secs)"
| "complete_from ans (Suc n) k secs lasterr =
     (let secs' = (if k = 0 then secs else secs + 2 ^ (k - 1)) in
      case do_once (ans k) of
        (Inr m, _) \<Rightarrow> (Inr m, k + 1, secs')
      | (Inl e, retry) \<Rightarrow> if retry then complete_from ans n (k + 1) secs' e else (Inl e, k + 1, secs'))"

record llm =
  lm_key :: string
  lm_retries :: nat
  lm_timeout :: int

definition new_llm :: "string \<Rightarrow> int \<Rightarrow> int \<Rightarrow> llm" where
  "new_llm key timeout retries = \<lparr>lm_key = key, lm_retries = (if retries \<le> 0 then 2 else nat retries),
     lm_timeout = (if timeout \<le> 0 then 60 else timeout)\<rparr>"

definition complete :: "llm \<Rightarrow> (nat \<Rightarrow> llm_answer) \<Rightarrow> (llm_err + message) \<times> nat \<times> nat" where
  "complete l ans = (if lm_key l = [] then (Inl NoKey, 0, 0) else complete_from ans (lm_retries l + 1) 0 0 NoKey)"

section \<open>Modes\<close>

datatype agent_mode = ModeAuto | ModeManual | ModeAcceptEdits | ModePlan

definition mode_string :: "agent_mode \<Rightarrow> string" where
  "mode_string m = (case m of ModeAuto \<Rightarrow> ''auto'' | ModeManual \<Rightarrow> ''manual'' | ModeAcceptEdits \<Rightarrow> ''accept edits''
     | ModePlan \<Rightarrow> ''plan'')"

definition next_mode :: "agent_mode \<Rightarrow> agent_mode" where
  "next_mode m = (case m of ModeAuto \<Rightarrow> ModeManual | ModeManual \<Rightarrow> ModeAcceptEdits | ModeAcceptEdits \<Rightarrow> ModePlan
     | ModePlan \<Rightarrow> ModeAuto)"

definition parse_agent_mode :: "string \<Rightarrow> agent_mode" where
  "parse_agent_mode s = (let t = to_lower (trim_space s) in
     if t = ''manual'' then ModeManual
     else if t = ''accept edits'' \<or> t = ''acceptedits'' then ModeAcceptEdits
     else if t = ''plan'' then ModePlan else ModeAuto)"

text \<open>The modes that the conversation goes by, and the index into their list.\<close>

datatype ai_mode = Manual | Plan | Edit | Auto

definition ai_modes :: "ai_mode list" where
  "ai_modes = [Manual, Plan, Edit, Auto]"

definition current_mode :: "nat \<Rightarrow> ai_mode" where
  "current_mode i = ai_modes ! (i mod 4)"

definition cycle_mode :: "int \<Rightarrow> nat \<Rightarrow> nat" where
  "cycle_mode dir i = nat ((int i + dir + 4) mod 4)"

definition is_exec_tool :: "string \<Rightarrow> bool" where
  "is_exec_tool name \<longleftrightarrow> name \<in> {''service'', ''sysproxy'', ''run_local'', ''run_remote'', ''file_copy''}"

text \<open>
  A goroutine of \<open>thinkLoop\<close> that is still in its read when the model has answered: it takes the
  next key, with what belongs to it, before it sees that it should stop. Behind Enter it reads once
  more, and \<open>drain\<close> is the number of bytes that this read returns. Readers of the terminal are
  served in the order in which they came, and one that has a key finishes with it first.
\<close>

definition stale_take :: "nat \<Rightarrow> bytes \<Rightarrow> bytes" where
  "stale_take drain inp = (case inp of
       [] \<Rightarrow> []
     | b # rest \<Rightarrow>
       if b = 13 \<or> b = 10 then drop drain rest
       else if b = 27 then snd (esc_suffix rest)
       else if b \<noteq> 127 \<and> 32 \<le> b then (case read_rune inp of None \<Rightarrow> [] | Some (r, rest') \<Rightarrow> rest')
       else rest)"

definition swallow :: "nat \<Rightarrow> nat \<Rightarrow> bytes \<Rightarrow> bytes" where
  "swallow drain k inp = (stale_take drain ^^ k) inp"

text \<open>
  \<open>confirmTool\<close> on a terminal, which reads keys: whether the tool may run, and whether every
  later one may. The end of the input counts as consent. Of a character of several bytes only the
  first is kept.
\<close>

function confirm_keys :: "bytes \<Rightarrow> bytes \<Rightarrow> bool \<times> bool" where
  "confirm_keys buf inp = (case read_rune inp of
       None \<Rightarrow> (True, False)
     | Some (key, rest) \<Rightarrow>
       let ch = hd key in
       if ch = 13 \<or> ch = 10 then (buf = [] \<or> hd buf \<noteq> 110 \<and> hd buf \<noteq> 78, False)
       else if ch = 97 \<or> ch = 65 then (True, True)
       else if ch = 4 \<or> ch = 3 then (False, False)
       else if ch = 127 \<or> ch = 8 then confirm_keys (butlast buf) rest
       else if 32 \<le> ch then confirm_keys (buf @ [ch]) rest
       else confirm_keys buf rest)"
  by pat_completeness auto
termination
  by (relation "measure (\<lambda>(buf, inp). length inp)") (auto dest: read_rune_shorter [OF sym] read_rune_shorter)

declare confirm_keys.simps [simp del]

definition confirm_tool :: "bool \<Rightarrow> bytes \<Rightarrow> bool \<times> bool" where
  "confirm_tool terminal keys = (if \<not> terminal then (True, False) else confirm_keys [] keys)"

section \<open>A turn of the conversation\<close>

text \<open>The rest of the world: whether there is a terminal, the number of bytes that a read behind
  Enter returns, the keys that are pressed when a call is to be confirmed, the keys for each
  question that a tool asks, and what a tool answers, given the answers to its questions; in each
  case after the messages so far. No key is pressed while the model is asked.\<close>

record surroundings =
  su_terminal :: bool
  su_drain :: nat
  su_keys :: "message list \<Rightarrow> tool_call \<Rightarrow> bytes"
  su_asked :: "message list \<Rightarrow> tool_call \<Rightarrow> bytes list"
  su_result :: "message list \<Rightarrow> tool_call \<Rightarrow> string list \<Rightarrow> string"

text \<open>A stored session; the two time stamps and the number of turns are numbers.\<close>

record session =
  se_id :: string
  se_name :: string
  se_updated :: nat
  se_model :: string
  se_turns :: nat
  se_msgs :: "message list"

text \<open>The conversation; \<open>ch_stale\<close> counts the goroutines that are still in a read of the terminal.\<close>

record chat =
  ch_stale :: nat
  ch_msgs :: "message list"
  ch_mode :: nat
  ch_approve_all :: bool
  ch_ran :: "tool_call list"
  ch_pending :: string
  ch_turns :: nat
  ch_model :: string
  ch_models :: "string list"
  ch_model_idx :: nat
  ch_session :: session
  ch_store :: "(string \<times> session) list"

text \<open>The content of the answer to a call that did not run.\<close>

definition not_run :: string where
  "not_run = ''not run''"

definition say :: "message \<Rightarrow> chat \<Rightarrow> chat" where
  "say m c = c\<lparr>ch_msgs := ch_msgs c @ [m]\<rparr>"

text \<open>A question of a tool on the terminal: the keys that the readers of earlier requests leave are
  the answer, and an answer that ends with Enter becomes \<open>pendingAnswer\<close>.\<close>

definition ask_question :: "surroundings \<Rightarrow> bytes \<Rightarrow> chat \<Rightarrow> string \<times> chat" where
  "ask_question su keys c =
     (let ((buf, entered), rest) = ask_keys [] (swallow (su_drain su) (ch_stale c) keys); a = string_of_bytes buf
      in (a, c\<lparr>ch_stale := 0, ch_pending := (if entered then a else ch_pending c)\<rparr>))"

fun ask_questions :: "surroundings \<Rightarrow> bytes list \<Rightarrow> chat \<Rightarrow> string list \<times> chat" where
  "ask_questions su [] c = ([], c)"
| "ask_questions su (keys # ks) c =
     (let (a, c1) = ask_question su keys c; (as, c2) = ask_questions su ks c1 in (a # as, c2))"

definition run_tool :: "surroundings \<Rightarrow> tool_call \<Rightarrow> chat \<Rightarrow> chat" where
  "run_tool su t c =
     (let (as, c') = ask_questions su (if su_terminal su then su_asked su (ch_msgs c) t else []) c
      in (say (tool_message t (su_result su (ch_msgs c) t as)) c')\<lparr>ch_ran := ch_ran c @ [t]\<rparr>)"

definition needs_confirm :: "chat \<Rightarrow> tool_call \<Rightarrow> bool" where
  "needs_confirm c t \<longleftrightarrow> (current_mode (ch_mode c) = Manual \<or>
     current_mode (ch_mode c) = Edit \<and> is_exec_tool (tl_name t)) \<and> \<not> ch_approve_all c"

definition tool_step :: "surroundings \<Rightarrow> tool_call \<Rightarrow> chat \<Rightarrow> chat" where
  "tool_step su t c =
     (if current_mode (ch_mode c) = Plan then say (tool_message t not_run) c
      else if needs_confirm c t then
        (let (ok, every) = confirm_tool (su_terminal su) (swallow (su_drain su) (ch_stale c) (su_keys su (ch_msgs c) t));
             c' = c\<lparr>ch_approve_all := ch_approve_all c \<or> every, ch_stale := 0\<rparr>
         in if ok then run_tool su t c' else say (tool_message t not_run) c')
      else run_tool su t c)"

datatype outcome = Done | Broken llm_err | Thinking

text \<open>A request on a terminal leaves one more reader behind.\<close>

definition new_reader :: "surroundings \<Rightarrow> chat \<Rightarrow> chat" where
  "new_reader su c = (if su_terminal su then c\<lparr>ch_stale := ch_stale c + 1\<rparr> else c)"

text \<open>The inner loop, with a bound on its rounds, against what the model answers to a list of
  messages. After an error the last message is dropped.\<close>

fun think :: "surroundings \<Rightarrow> (message list \<Rightarrow> llm_err + message) \<Rightarrow> nat \<Rightarrow> chat \<Rightarrow> outcome \<times> chat" where
  "think su model 0 c = (Thinking, c)"
| "think su model (Suc n) c = (case model (ch_msgs c) of
       Inl e \<Rightarrow> (Broken e, (new_reader su c)\<lparr>ch_msgs := butlast (ch_msgs c)\<rparr>)
     | Inr m \<Rightarrow>
       (let c' = say m (new_reader su c) in
        if ms_calls m = [] then (Done, c') else think su model n (fold (tool_step su) (ms_calls m) c')))"

definition user_turn :: "surroundings \<Rightarrow> (message list \<Rightarrow> llm_err + message) \<Rightarrow> nat \<Rightarrow> string \<Rightarrow> chat \<Rightarrow> outcome \<times> chat" where
  "user_turn su model n line c =
     think su model n (say (plain_message User line) (c\<lparr>ch_turns := ch_turns c + 1\<rparr>))"

section \<open>Stored sessions\<close>

definition trim_messages :: "message list \<Rightarrow> message list" where
  "trim_messages ms = (if length ms \<le> 200 then ms else take 1 ms @ drop (length ms - 199) ms)"

text \<open>The directory as an association list from file names to sessions; files that do not decode
  are left out, as \<open>List\<close> does. \<open>Save\<close> stamps the time.\<close>

definition save_session :: "nat \<Rightarrow> session \<Rightarrow> (string \<times> session) list \<Rightarrow> (string \<times> session) list" where
  "save_session now s st = AList.update (se_id s) (s\<lparr>se_updated := now, se_msgs := trim_messages (se_msgs s)\<rparr>) st"

definition new_session :: "nat \<Rightarrow> string \<Rightarrow> string \<Rightarrow> string \<Rightarrow> string \<Rightarrow> session" where
  "new_session now uuid dated name model = \<lparr>se_id = ''session_'' @ uuid, se_name = (if name = [] then dated else name),
     se_updated = now, se_model = model, se_turns = 0, se_msgs = []\<rparr>"

definition list_sessions :: "(string \<times> session) list \<Rightarrow> session list" where
  "list_sessions st = sort_key (\<lambda>s. - int (se_updated s)) (map snd st)"

definition load_session :: "string \<Rightarrow> (string \<times> session) list \<Rightarrow> session option" where
  "load_session which st =
     (let w = trim_space which in
      if w = [] then None
      else if has_prefix w ''session_'' then map_of st w
      else find (\<lambda>s. se_name s = w) (list_sessions st))"

definition most_recent :: "(string \<times> session) list \<Rightarrow> session option" where
  "most_recent st = (case list_sessions st of [] \<Rightarrow> None | s # _ \<Rightarrow> Some s)"

definition delete_session :: "string \<Rightarrow> (string \<times> session) list \<Rightarrow> (string \<times> session) list option" where
  "delete_session which st = (case load_session which st of
       None \<Rightarrow> None
     | Some s \<Rightarrow> if map_of st (se_id s) = None then None else Some (AList.delete (se_id s) st))"

definition rename_session :: "nat \<Rightarrow> string \<Rightarrow> string \<Rightarrow> string \<Rightarrow> (string \<times> session) list \<Rightarrow> (string \<times> session) list option" where
  "rename_session now dated which name st = (case load_session which st of
       None \<Rightarrow> None
     | Some s \<Rightarrow> Some (save_session now (s\<lparr>se_name := (if name = [] then dated else name)\<rparr>) st))"

definition import_session :: "nat \<Rightarrow> string \<Rightarrow> session \<Rightarrow> (string \<times> session) list \<Rightarrow> session \<times> (string \<times> session) list" where
  "import_session now uuid s st =
     (let s' = (if se_id s = [] then s\<lparr>se_id := ''session_'' @ uuid\<rparr> else s)
      in (s', save_session now s' st))"

definition save_current :: "nat \<Rightarrow> chat \<Rightarrow> chat" where
  "save_current now c =
     (let s = (ch_session c)\<lparr>se_msgs := ch_msgs c, se_turns := ch_turns c\<rparr>
      in c\<lparr>ch_session := s\<lparr>se_updated := now, se_msgs := trim_messages (ch_msgs c)\<rparr>,
           ch_store := save_session now s (ch_store c)\<rparr>)"

section \<open>Commands on sessions\<close>

definition cmd_session :: "nat \<Rightarrow> string \<Rightarrow> chat \<Rightarrow> chat" where
  "cmd_session now ag c =
     (if ag = [] then c
      else let c' = save_current now c in
        (case load_session ag (ch_store c') of
           None \<Rightarrow> c'
         | Some s \<Rightarrow> c'\<lparr>ch_session := s\<lparr>se_model := ch_model c'\<rparr>, ch_msgs := se_msgs s, ch_turns := se_turns s\<rparr>))"

definition cmd_new :: "nat \<Rightarrow> string \<Rightarrow> string \<Rightarrow> string \<Rightarrow> chat \<Rightarrow> chat" where
  "cmd_new now uuid dated ag c =
     (let c' = save_current now c;
          ms = [plain_message System (ms_content (hd (ch_msgs c')))];
          s = (new_session now uuid dated ag (ch_model c'))\<lparr>se_msgs := ms\<rparr>
      in c'\<lparr>ch_session := s, ch_msgs := ms, ch_store := save_session now s (ch_store c')\<rparr>)"

definition cmd_rename :: "nat \<Rightarrow> string \<Rightarrow> string \<Rightarrow> chat \<Rightarrow> chat" where
  "cmd_rename now dated ag c =
     (if ag = [] then c
      else case rename_session now dated (se_id (ch_session c)) ag (ch_store c) of
        None \<Rightarrow> c
      | Some st \<Rightarrow> c\<lparr>ch_store := st, ch_session := (ch_session c)\<lparr>se_name := ag\<rparr>\<rparr>)"

definition cmd_delete :: "string \<Rightarrow> chat \<Rightarrow> chat" where
  "cmd_delete ag c =
     (if ag = [] \<or> ag = se_id (ch_session c) \<or> ag = se_name (ch_session c) then c
      else case delete_session ag (ch_store c) of None \<Rightarrow> c | Some st \<Rightarrow> c\<lparr>ch_store := st\<rparr>)"

definition cmd_clear :: "nat \<Rightarrow> chat \<Rightarrow> chat" where
  "cmd_clear now c =
     (let s = (ch_session c)\<lparr>se_msgs := take 1 (ch_msgs c)\<rparr>
      in c\<lparr>ch_msgs := take 1 (ch_msgs c), ch_session := s, ch_store := save_session now s (ch_store c), ch_turns := 0\<rparr>)"

text \<open>\<open>setModel\<close>, the command \<open>/model\<close> and the key that goes through the candidates.\<close>

definition set_model :: "string \<Rightarrow> chat \<Rightarrow> chat" where
  "set_model name c =
     (if name = [] then c
      else let c' = (case find (\<lambda>i. ch_models c ! i = name) [0..<length (ch_models c)] of
              Some i \<Rightarrow> c\<lparr>ch_model_idx := i\<rparr> | None \<Rightarrow> c)
        in if ch_model c = name then c'
           else c'\<lparr>ch_model := name, ch_session := (ch_session c)\<lparr>se_model := name\<rparr>\<rparr>)"

definition cmd_model :: "string \<Rightarrow> chat \<Rightarrow> chat" where
  "cmd_model ag c = (if ag \<noteq> [] \<and> ag \<in> set (ch_models c) then set_model ag c else c)"

definition cycle_model :: "int \<Rightarrow> chat \<Rightarrow> chat" where
  "cycle_model dir c = (let n = int (length (ch_models c)) in
     if n \<le> 1 then c
     else let i = nat ((int (ch_model_idx c) + dir + n) mod n)
       in set_model (ch_models c ! i) (c\<lparr>ch_model_idx := i\<rparr>))"

text \<open>The candidates: the primary model, then the others once each.\<close>

definition model_candidates :: "string \<Rightarrow> string list \<Rightarrow> string list" where
  "model_candidates primary ms = fold (\<lambda>m acc. let t = trim_space m in
     if t = [] \<or> t = primary \<or> t \<in> set (tl acc) then acc else acc @ [t]) ms [primary]"

text \<open>\<open>newTUI\<close>: the system prompt goes behind the messages of a session that is continued.\<close>

definition start_chat :: "nat \<Rightarrow> string \<Rightarrow> string \<Rightarrow> string \<Rightarrow> string \<Rightarrow> string list \<Rightarrow> string \<Rightarrow> (string \<times> session) list \<Rightarrow> chat" where
  "start_chat now uuid dated prompt primary ms continue st =
     (let fresh = new_session now uuid dated [] primary;
          s = (if trim_space continue = [] then fresh
               else case load_session continue st of None \<Rightarrow> fresh | Some l \<Rightarrow> l\<lparr>se_model := primary\<rparr>);
          msgs = trim_messages (se_msgs s @ [plain_message System prompt])
      in \<lparr>ch_stale = 0, ch_msgs = msgs, ch_mode = 0, ch_approve_all = False, ch_ran = [], ch_pending = [], ch_turns = 0,
          ch_model = primary, ch_models = model_candidates primary ms, ch_model_idx = 0,
          ch_session = s\<lparr>se_msgs := msgs, se_updated := now\<rparr>, ch_store = save_session now (s\<lparr>se_msgs := msgs\<rparr>) st\<rparr>)"

datatype handled = NoCommand | Handled chat | Panics

text \<open>\<open>handleCommand\<close>: a line that no command takes is sent to the model. \<open>other\<close>
  tells which of the remaining commands there are; they leave the conversation as it is.\<close>

definition handle_command :: "(string \<Rightarrow> bool) \<Rightarrow> nat \<Rightarrow> string \<Rightarrow> string \<Rightarrow> string \<Rightarrow> chat \<Rightarrow> handled" where
  "handle_command other now uuid dated line c =
     (let t = trim_space line; cmd = to_lower (takeWhile (\<lambda>ch. ch \<noteq> CHR '' '') t);
          ag = trim_space (drop 1 (dropWhile (\<lambda>ch. ch \<noteq> CHR '' '') t))
      in if t = [] then Handled c
         else if cmd = ''/session'' then Handled (cmd_session now ag c)
         else if cmd = ''/new'' then (if ch_msgs c = [] then Panics else Handled (cmd_new now uuid dated ag c))
         else if cmd = ''/rename'' then Handled (cmd_rename now dated ag c)
         else if cmd = ''/delete'' then Handled (cmd_delete ag c)
         else if cmd = ''/clear'' then (if ch_msgs c = [] then Panics else Handled (cmd_clear now c))
         else if cmd = ''/model'' then Handled (cmd_model ag c)
         else if other cmd then Handled c else NoCommand)"

section \<open>The main loop\<close>

datatype input = Eof | Cancelled | Typed string

datatype loop_state = Running | Ended | Failed

record setting =
  wl_su :: surroundings
  wl_model :: "message list \<Rightarrow> llm_err + message"
  wl_rounds :: nat
  wl_now :: nat
  wl_uuid :: string
  wl_dated :: string
  wl_other :: "string \<Rightarrow> bool"

definition on_line :: "setting \<Rightarrow> string \<Rightarrow> chat \<Rightarrow> loop_state \<times> chat" where
  "on_line w raw c =
     (let line = trim_space raw in
      if line = [] then (Running, c)
      else if line \<in> {''exit'', ''quit'', ''q''} then (Ended, save_current (wl_now w) c)
      else case (if has_prefix line ''/'' then handle_command (wl_other w) (wl_now w) (wl_uuid w) (wl_dated w) line c else NoCommand) of
        Handled c' \<Rightarrow> (Running, c')
      | Panics \<Rightarrow> (Failed, c)
      | NoCommand \<Rightarrow> (Running, save_current (wl_now w) (snd (user_turn (wl_su w) (wl_model w) (wl_rounds w) line c))))"

text \<open>One round; the last component tells whether input was read. A line that was typed on a terminal
  came behind the keys that the readers of earlier requests took.\<close>

definition main_step :: "setting \<Rightarrow> input \<Rightarrow> chat \<Rightarrow> (loop_state \<times> chat) \<times> bool" where
  "main_step w inp c =
     (if ch_pending c \<noteq> [] then (on_line w (ch_pending c) (c\<lparr>ch_pending := []\<rparr>), False)
      else ((case inp of Eof \<Rightarrow> (Ended, save_current (wl_now w) c) | Cancelled \<Rightarrow> (Failed, c) | Typed line \<Rightarrow> on_line w line (if su_terminal (wl_su w) then c\<lparr>ch_stale := 0\<rparr> else c)), True))"

text \<open>\<open>readLine\<close> without a terminal: pieces of the input are read until one has a line break; the
  rest of the pieces is dropped.\<close>

fun read_piped :: "string \<Rightarrow> string list \<Rightarrow> input \<times> string list" where
  "read_piped buf ps =
     (if CHR 0x0A \<in> set buf \<or> ps = [] then
        (let line = takeWhile (\<lambda>ch. ch \<noteq> CHR 0x0A) buf in
         if line \<noteq> [] \<or> buf = []
         then (Typed (trim_eol line), ps) else (Eof, ps))
      else read_piped (buf @ hd ps) (tl ps))"

text \<open>\<open>k\<close> rounds of the loop on piped input, where there is no terminal.\<close>

definition piped :: "setting \<Rightarrow> setting" where
  "piped w = w\<lparr>wl_su := (wl_su w)\<lparr>su_terminal := False\<rparr>\<rparr>"

fun main_loop :: "setting \<Rightarrow> nat \<Rightarrow> string list \<Rightarrow> chat \<Rightarrow> loop_state \<times> chat" where
  "main_loop w 0 ps c = (Running, c)"
| "main_loop w (Suc k) ps c =
     (let (inp, rest) = read_piped [] ps; ((st, c'), used) = main_step (piped w) inp c
      in if st = Running then main_loop w k (if used then rest else ps) c' else (st, c'))"

section \<open>Retries\<close>

text \<open>One attempt more than the retries, unless an answer is final before.\<close>

lemma complete_from_result:
  assumes "\<And>i. i < j \<Longrightarrow> snd (do_once (ans (k + i))) \<and> (\<exists>e. fst (do_once (ans (k + i))) = Inl e)"
    and "j < n" and "\<not> snd (do_once (ans (k + j)))"
  shows "fst (complete_from ans n k secs e0) = fst (do_once (ans (k + j))) \<and>
    fst (snd (complete_from ans n k secs e0)) = k + j + 1"
  using assms
proof (induction n arbitrary: j k secs e0)
  case (Suc n)
  show ?case
  proof (cases j)
    case 0
    with Suc.prems show ?thesis
      by (auto simp: Let_def split: prod.splits sum.splits)
  next
    case (Suc i)
    with Suc.prems(1) [of 0] obtain e where e: "do_once (ans k) = (Inl e, True)"
      by (cases "do_once (ans k)") auto
    have ih: "fst (complete_from ans n (k + 1) (if k = 0 then secs else secs + 2 ^ (k - 1)) e) = fst (do_once (ans (k + 1 + i))) \<and>
      fst (snd (complete_from ans n (k + 1) (if k = 0 then secs else secs + 2 ^ (k - 1)) e)) = k + 1 + i + 1"
    proof (rule Suc.IH)
      show "snd (do_once (ans (k + 1 + l))) \<and> (\<exists>e. fst (do_once (ans (k + 1 + l))) = Inl e)" if "l < i" for l
        using Suc.prems(1) [of "Suc l"] that Suc by simp
    qed (use Suc.prems(2,3) Suc in simp_all)
    show ?thesis
      using ih by (simp add: e Suc Let_def)
  qed
qed simp

lemma retried_error: "snd (do_once a) \<Longrightarrow> \<exists>e. fst (do_once a) = Inl e"
  by (auto simp: do_once_def split: llm_answer.splits option.splits if_splits list.splits)

lemma complete_from_exhausted:
  assumes "\<And>i. i < n \<Longrightarrow> snd (do_once (ans (k + i)))"
  shows "fst (snd (complete_from ans n k secs e0)) = k + n \<and>
    (\<exists>e. fst (complete_from ans n k secs e0) = Inl (Exhausted e))"
  using assms
proof (induction n arbitrary: k secs e0)
  case (Suc n)
  from Suc.prems [of 0] retried_error [of "ans k"] obtain e where e: "do_once (ans k) = (Inl e, True)"
    by (cases "do_once (ans k)") auto
  have "snd (do_once (ans (k + 1 + i)))" if "i < n" for i
    using Suc.prems [of "Suc i"] that by simp
  from Suc.IH [OF this] show ?case by (simp add: e Let_def)
qed simp

text \<open>
 C35: requests end, with the first final answer or after the retries. If some answer among
  the first retries and one is not to be tried again, the first of these is the result, after
  exactly that many requests; otherwise the result is an error after all of them.
\<close>

theorem completion_settles:
  assumes "lm_key l \<noteq> []"
  shows "(case find (\<lambda>i. \<not> snd (do_once (ans i))) [0..<lm_retries l + 1] of
      Some j \<Rightarrow> fst (complete l ans) = fst (do_once (ans j)) \<and> fst (snd (complete l ans)) = j + 1
    | None \<Rightarrow> (\<exists>e. fst (complete l ans) = Inl (Exhausted e)) \<and> fst (snd (complete l ans)) = lm_retries l + 1)"
proof (cases "find (\<lambda>i. \<not> snd (do_once (ans i))) [0..<lm_retries l + 1]")
  case None
  then have "snd (do_once (ans (0 + i)))" if "i < lm_retries l + 1" for i
    using that by (auto simp: find_None_iff less_Suc_eq)
  from complete_from_exhausted [of "lm_retries l + 1" ans 0, OF this] None assms show ?thesis
    by (simp add: complete_def)
next
  case (Some j)
  then have j: "j < lm_retries l + 1" "\<not> snd (do_once (ans j))" "\<forall>i < j. snd (do_once (ans i))"
    by (auto simp: find_Some_iff nth_append split: if_splits)
  then have "snd (do_once (ans (0 + i))) \<and> (\<exists>e. fst (do_once (ans (0 + i))) = Inl e)" if "i < j" for i
    using that retried_error by auto
  from complete_from_result [of j ans 0 "lm_retries l + 1", OF this] j Some assms show ?thesis
    by (simp add: complete_def)
qed

text \<open>An answer with status 429 and the body that the interface prescribes is not tried again.\<close>

lemma rate_limit_is_final: "do_once (Answer 429 (Some (Some e, cs))) = (Inl (ApiError e), False)"
  by (simp add: do_once_def)

section \<open>Modes and confirmations\<close>

lemma mode_roundtrip: "parse_agent_mode (mode_string m) = m"
proof -
  have "parse_agent_mode ''auto'' = ModeAuto" "parse_agent_mode ''manual'' = ModeManual"
    "parse_agent_mode ''accept edits'' = ModeAcceptEdits" "parse_agent_mode ''plan'' = ModePlan"
    by code_simp+
  then show ?thesis by (cases m) (simp_all add: mode_string_def)
qed

lemma mode_cycle: "next_mode (next_mode (next_mode (next_mode m))) = m"
  by (cases m) (simp_all add: next_mode_def)

lemma cycle_back: "i < 4 \<Longrightarrow> cycle_mode (-1) (cycle_mode 1 i) = i"
  by (auto simp: cycle_mode_def eval_nat_numeral less_Suc_eq)

text \<open>The conversation starts with index 0: not with the mode that the comment names.\<close>

lemma first_mode: "current_mode 0 = Manual"
  by (simp add: current_mode_def ai_modes_def)

lemma read_ascii: "b < 0x80 \<Longrightarrow> read_rune (b # bs) = Some ([b], bs)"
  by (simp add: read_rune_def lead_length_def read_full_def)

lemmas confirm_step = confirm_keys.simps [of buf "b # bs" for buf b bs]

text \<open>
  A word with an \<open>a\<close> in it consents to this call and to every later one, before it is
  complete: whoever types "nah" or "cancel" has approved all tools.
\<close>

lemma letter_a_approves:
  assumes "list_all (\<lambda>ch. 32 \<le> ch \<and> ch \<noteq> 97 \<and> ch \<noteq> 65 \<and> ch < 127) ks"
  shows "confirm_keys buf (ks @ 97 # rest) = (True, True)"
  using assms
proof (induction ks arbitrary: buf)
  case Nil
  have "read_rune (97 # rest) = Some ([97], rest)" by (rule read_ascii) simp
  then show ?case by (simp add: confirm_step)
next
  case (Cons k ks)
  then have "k < 0x80" "k \<noteq> 13" "k \<noteq> 10" "k \<noteq> 4" "k \<noteq> 3" "k \<noteq> 8" by (auto simp: byte_order)
  with Cons show ?case by (auto simp: confirm_step read_ascii)
qed

lemma end_of_input_approves: "fst (confirm_keys buf []) = True"
  by (simp add: confirm_keys.simps read_rune_def)

text \<open>In the mode that is to ask before commands are executed, the tool \<open>run\<close> executes one
  unasked.\<close>

lemma edit_mode_runs_shell:
  "current_mode (ch_mode c) = Edit \<Longrightarrow> tl_name t = ''run'' \<Longrightarrow> tool_step su t c = run_tool su t c"
  by (simp add: tool_step_def needs_confirm_def is_exec_tool_def)

lemma say_simps [simp]: "ch_ran (say m c) = ch_ran c" "ch_mode (say m c) = ch_mode c"
  "ch_approve_all (say m c) = ch_approve_all c" "ch_msgs (say m c) = ch_msgs c @ [m]" "ch_pending (say m c) = ch_pending c"
  by (simp_all add: say_def)

lemma ask_question_rest [simp]:
  "ch_msgs (snd (ask_question su keys c)) = ch_msgs c" "ch_mode (snd (ask_question su keys c)) = ch_mode c"
  "ch_approve_all (snd (ask_question su keys c)) = ch_approve_all c"
  by (simp_all add: ask_question_def Let_def split: prod.split)

lemma ask_questions_rest:
  "ch_msgs (snd (ask_questions su ks c)) = ch_msgs c \<and> ch_mode (snd (ask_questions su ks c)) = ch_mode c \<and>
   ch_approve_all (snd (ask_questions su ks c)) = ch_approve_all c"
proof (induction ks arbitrary: c)
  case (Cons keys ks)
  obtain a c1 as c2 where q: "ask_question su keys c = (a, c1)" "ask_questions su ks c1 = (as, c2)"
    by (cases "ask_question su keys c", cases "ask_questions su ks (snd (ask_question su keys c))") auto
  then show ?case
    using ask_question_rest [of su keys c] Cons.IH [of c1] by simp
qed simp

text \<open>The questions of a tool, answered.\<close>

definition question_answers :: "surroundings \<Rightarrow> tool_call \<Rightarrow> chat \<Rightarrow> string list \<times> chat" where
  "question_answers su t c = ask_questions su (if su_terminal su then su_asked su (ch_msgs c) t else []) c"

lemma question_answers_rest [simp]:
  "ch_msgs (snd (question_answers su t c)) = ch_msgs c" "ch_mode (snd (question_answers su t c)) = ch_mode c"
  "ch_approve_all (snd (question_answers su t c)) = ch_approve_all c"
  by (simp_all add: question_answers_def ask_questions_rest)

lemma run_tool_eq:
  "run_tool su t c = (say (tool_message t (su_result su (ch_msgs c) t (fst (question_answers su t c)))) (snd (question_answers su t c)))
     \<lparr>ch_ran := ch_ran c @ [t]\<rparr>"
  by (simp add: run_tool_def question_answers_def split: prod.split)

lemma run_tool_simps [simp]: "ch_ran (run_tool su t c) = ch_ran c @ [t]" "ch_mode (run_tool su t c) = ch_mode c"
  "ch_approve_all (run_tool su t c) = ch_approve_all c"
  "ch_msgs (run_tool su t c) = ch_msgs c @ [tool_message t (su_result su (ch_msgs c) t (fst (question_answers su t c)))]"
  by (simp_all add: run_tool_eq)

lemma new_reader_simps [simp]: "ch_ran (new_reader su c) = ch_ran c" "ch_mode (new_reader su c) = ch_mode c"
  "ch_approve_all (new_reader su c) = ch_approve_all c" "ch_msgs (new_reader su c) = ch_msgs c"
  "ch_pending (new_reader su c) = ch_pending c"
  by (simp_all add: new_reader_def)

lemma tool_step_mode [simp]: "ch_mode (tool_step su t c) = ch_mode c"
  by (simp add: tool_step_def Let_def split: prod.splits)

lemma fold_tool_step_mode [simp]: "ch_mode (fold (tool_step su) ts c) = ch_mode c"
  by (induction ts arbitrary: c) simp_all

lemma tool_step_approved: "ch_approve_all c \<Longrightarrow> ch_approve_all (tool_step su t c)"
  by (simp add: tool_step_def needs_confirm_def Let_def split: prod.splits)

lemma confirm_keys_every: "snd (confirm_keys buf ks) \<Longrightarrow> fst (confirm_keys buf ks)"
proof (induction buf ks rule: confirm_keys.induct)
  case (1 buf inp)
  show ?case
  proof (cases "read_rune inp")
    case (Some kr)
    obtain key rest where kr: "(key, rest) = kr" by (metis prod.collapse)
    note step = confirm_keys.simps [of buf inp, unfolded Some kr [symmetric] Let_def option.case prod.case]
    show ?thesis
      using "1.prems" "1.IH" [OF Some kr refl] unfolding step by (auto split: if_splits)
  qed (use "1.prems" in \<open>simp add: confirm_keys.simps [of buf inp]\<close>)
qed

text \<open>The keys refuse every call, also when up to \<open>k\<close> readers of earlier requests take theirs first.\<close>

definition refuses :: "surroundings \<Rightarrow> nat \<Rightarrow> bool" where
  "refuses su k \<longleftrightarrow> su_terminal su \<and> (\<forall>ms t. \<forall>j \<le> k. \<not> fst (confirm_keys [] (swallow (su_drain su) j (su_keys su ms t))))"

text \<open>No consent can be given: the mode is \<open>plan\<close>, or it is \<open>manual\<close> and every call is refused.\<close>

definition no_consent :: "surroundings \<Rightarrow> nat \<Rightarrow> nat \<Rightarrow> chat \<Rightarrow> bool" where
  "no_consent su k j c \<longleftrightarrow> current_mode (ch_mode c) = Plan \<or>
     current_mode (ch_mode c) = Manual \<and> \<not> ch_approve_all c \<and> refuses su k \<and> ch_stale c \<le> j"

lemma refuses_key:
  assumes "refuses su k" and "j \<le> k"
  shows "confirm_tool (su_terminal su) (swallow (su_drain su) j (su_keys su ms t)) = (False, False)"
proof -
  let ?r = "confirm_keys [] (swallow (su_drain su) j (su_keys su ms t))"
  have "\<not> fst ?r" using assms by (auto simp: refuses_def)
  moreover from this have "\<not> snd ?r" using confirm_keys_every by blast
  ultimately show ?thesis using assms(1) by (auto simp: refuses_def confirm_tool_def prod_eq_iff)
qed

lemma no_consent_step:
  assumes "no_consent su k j c" and "j \<le> k"
  shows "ch_ran (tool_step su t c) = ch_ran c \<and> no_consent su k 0 (tool_step su t c)"
proof (cases "current_mode (ch_mode c) = Plan")
  case False
  then have c: "current_mode (ch_mode c) = Manual" "\<not> ch_approve_all c" "refuses su k" "ch_stale c \<le> k"
    using assms by (auto simp: no_consent_def)
  then show ?thesis
    using refuses_key [OF c(3,4), of "ch_msgs c" t]
    by (simp add: tool_step_def needs_confirm_def no_consent_def say_def)
qed (simp add: tool_step_def no_consent_def)

lemma no_consent_fold:
  "no_consent su k j c \<Longrightarrow> j \<le> k \<Longrightarrow> ch_ran (fold (tool_step su) ts c) = ch_ran c \<and>
   (ts \<noteq> [] \<longrightarrow> no_consent su k 0 (fold (tool_step su) ts c))"
proof (induction ts arbitrary: c j)
  case (Cons t ts)
  from no_consent_step [OF Cons.prems, of t] Cons.IH [of 0 "tool_step su t c"] show ?case
    by (cases ts) auto
qed simp

lemma no_consent_think: "no_consent su k j c \<Longrightarrow> Suc j \<le> k \<Longrightarrow> ch_ran (snd (think su model n c)) = ch_ran c"
proof (induction n arbitrary: c j)
  case (Suc n)
  have "no_consent su k (Suc j) (say m (new_reader su c))" for m
    using Suc.prems by (auto simp: no_consent_def say_def new_reader_def)
  note fold = no_consent_fold [OF this Suc.prems(2)]
  have "Suc 0 \<le> k" using Suc.prems(2) by simp
  then show ?case
    using fold Suc.IH [of 0] by (simp add: Let_def split: sum.splits)
qed simp

text \<open>
 C33: nothing runs without consent. In the mode \<open>plan\<close> a turn runs no tool, whatever the model asks
  for and however it ends. In the mode \<open>manual\<close> on a terminal it runs none, unless all were allowed
  before, when the keys at each confirmation refuse also without those that the readers of earlier
  requests take: as many as there were before the turn, and one more. No key is pressed while the
  model is asked.
\<close>

theorem refused_runs_nothing:
  assumes "current_mode (ch_mode c) = Plan \<or>
    current_mode (ch_mode c) = Manual \<and> \<not> ch_approve_all c \<and> refuses su (Suc (ch_stale c))"
  shows "ch_ran (snd (user_turn su model n line c)) = ch_ran c"
proof -
  have "no_consent su (Suc (ch_stale c)) (ch_stale c) (say (plain_message User line) (c\<lparr>ch_turns := ch_turns c + 1\<rparr>))"
    using assms by (auto simp: no_consent_def say_def)
  from no_consent_think [OF this] show ?thesis by (simp add: user_turn_def)
qed

lemma tool_step_ran: "\<exists>ts. ch_ran (tool_step su t c) = ch_ran c @ ts"
  by (auto simp: tool_step_def Let_def split: prod.splits)

lemma fold_tool_step_ran: "\<exists>us. ch_ran (fold (tool_step su) ts c) = ch_ran c @ us"
proof (induction ts arbitrary: c)
  case (Cons t ts)
  from tool_step_ran [of su t c] Cons.IH [of "tool_step su t c"] show ?case by auto
qed simp

lemma think_ran: "\<exists>us. ch_ran (snd (think su model n c)) = ch_ran c @ us"
proof (induction n arbitrary: c)
  case (Suc n)
  show ?case
  proof (cases "model (ch_msgs c)")
    case (Inr m)
    let ?c = "fold (tool_step su) (ms_calls m) (say m (new_reader su c))"
    obtain us where "ch_ran ?c = ch_ran c @ us"
      using fold_tool_step_ran [of su "ms_calls m" "say m (new_reader su c)"] by auto
    moreover obtain vs where "ch_ran (snd (think su model n ?c)) = ch_ran ?c @ vs"
      using Suc.IH by blast
    ultimately show ?thesis using Inr by (simp add: Let_def)
  qed simp
qed simp

lemma swallow_one: "b < 0x80 \<Longrightarrow> b \<notin> {13, 10, 27} \<Longrightarrow> swallow drain 1 (b # rest) = rest"
  by (simp add: swallow_def stale_take_def read_ascii)

text \<open>
 C34: a refusal counts as consent. In the mode \<open>manual\<close>, whoever answers the first confirmation of
  a turn with n and Enter, as the prompt tells, runs the tool: the n goes to the reader that the
  request to the model left behind, and Enter alone means yes. No reader is left from before, no key
  was pressed while the model was asked, and not all tools were allowed before.
\<close>

theorem refusal_runs_tool:
  assumes "current_mode (ch_mode c) = Manual" and "\<not> ch_approve_all c" and "su_terminal su" and "ch_stale c = 0"
    and request: "model (ch_msgs c @ [plain_message User line]) = Inr m" "ms_calls m = t # ts"
    and keys: "su_keys su (ch_msgs c @ [plain_message User line, m]) t = [110, 13]"
  shows "\<exists>us. ch_ran (snd (user_turn su model (Suc n) line c)) = ch_ran c @ t # us"
proof -
  let ?c = "say m (new_reader su (say (plain_message User line) (c\<lparr>ch_turns := ch_turns c + 1\<rparr>)))"
  have "confirm_keys [] [13] = (True, False)"
    by (simp add: confirm_keys.simps [of "[]" "[13]"] read_ascii)
  moreover have "swallow (su_drain su) 1 [110, 13] = [13]" by (rule swallow_one) simp_all
  moreover have "ch_stale ?c = 1" using assms(3,4) by (simp add: say_def new_reader_def)
  moreover have "needs_confirm ?c t" "current_mode (ch_mode ?c) \<noteq> Plan"
    using assms(1,2) by (simp_all add: needs_confirm_def)
  ultimately have "ch_ran (tool_step su t ?c) = ch_ran c @ [t]"
    using assms(3) keys by (simp add: tool_step_def confirm_tool_def)
  moreover obtain us where "ch_ran (fold (tool_step su) ts (tool_step su t ?c)) = ch_ran (tool_step su t ?c) @ us"
    using fold_tool_step_ran by blast
  moreover obtain vs where "ch_ran (snd (think su model n (fold (tool_step su) ts (tool_step su t ?c)))) =
      ch_ran (fold (tool_step su) ts (tool_step su t ?c)) @ vs"
    using think_ran by blast
  ultimately show ?thesis using request by (simp add: user_turn_def)
qed

section \<open>Well-formed conversations\<close>

text \<open>Each call of an assistant is answered, in order, by the messages right behind it: what the
  interface of the language models asks for.\<close>

definition tool_answers :: "tool_call list \<Rightarrow> message list \<Rightarrow> bool" where
  "tool_answers ts outs \<longleftrightarrow> map ms_call_id outs = map tl_id ts \<and> list_all (\<lambda>m. ms_role m = Tool) outs"

function answered :: "message list \<Rightarrow> bool" where
  "answered [] = True"
| "answered (m # ms) = (ms_role m \<noteq> Tool \<and> tool_answers (ms_calls m) (take (length (ms_calls m)) ms) \<and>
     answered (drop (length (ms_calls m)) ms))"
  by pat_completeness auto
termination by (relation "measure length") auto

lemma tool_answers_length: "tool_answers ts outs \<Longrightarrow> length outs = length ts"
  unfolding tool_answers_def by (metis length_map)

lemma tool_answers_Nil [simp]: "tool_answers [] []"
  by (simp add: tool_answers_def)

lemma tool_answers_append: "tool_answers ts us \<Longrightarrow> tool_answers ts' vs \<Longrightarrow> tool_answers (ts @ ts') (us @ vs)"
  by (simp add: tool_answers_def)

lemma answered_append: "answered xs \<Longrightarrow> answered (xs @ ys) = answered ys"
proof (induction xs rule: answered.induct)
  case (2 m ms)
  then have "length (ms_calls m) \<le> length ms"
    using tool_answers_length by fastforce
  with 2 show ?case by simp
qed simp

lemma plain_message_simps [simp]: "ms_role (plain_message r s) = r" "ms_calls (plain_message r s) = []"
  by (simp_all add: plain_message_def)

lemma answered_round: "ms_role m \<noteq> Tool \<Longrightarrow> tool_answers (ms_calls m) outs \<Longrightarrow> answered (m # outs)"
  by (simp add: tool_answers_length)

lemma tool_step_answer:
  "\<exists>out. ch_msgs (tool_step su t c) = ch_msgs c @ [out] \<and> tool_answers [t] [out]"
  by (auto simp: tool_step_def tool_message_def tool_answers_def Let_def split: prod.splits)

lemma fold_tool_step_answers:
  "\<exists>outs. ch_msgs (fold (tool_step su) ts c) = ch_msgs c @ outs \<and> tool_answers ts outs"
proof (induction ts arbitrary: c)
  case (Cons t ts)
  obtain out where out: "ch_msgs (tool_step su t c) = ch_msgs c @ [out]" "tool_answers [t] [out]"
    using tool_step_answer by blast
  obtain outs where "ch_msgs (fold (tool_step su) ts (tool_step su t c)) = ch_msgs (tool_step su t c) @ outs" "tool_answers ts outs"
    using Cons.IH by blast
  with out tool_answers_append [OF out(2), of ts outs] show ?case by auto
qed simp

text \<open>A history that ends in a round with one answer missing.\<close>

definition dangling :: "message list \<Rightarrow> bool" where
  "dangling ms \<longleftrightarrow> (\<exists>xs m outs. ms = xs @ m # outs \<and> answered xs \<and> Suc (length outs) = length (ms_calls m))"

lemma dangling_not_answered:
  assumes "dangling ms" and "r \<noteq> Tool"
  shows "\<not> answered ms" "\<not> answered (ms @ [plain_message r s])"
proof -
  obtain xs m outs where ms: "ms = xs @ m # outs" "answered xs" "Suc (length outs) = length (ms_calls m)"
    using assms(1) unfolding dangling_def by blast
  then show "\<not> answered ms"
    using tool_answers_length by (fastforce simp: answered_append)
  have "\<not> tool_answers (ms_calls m) (outs @ [plain_message r s])"
    using assms(2) by (simp add: tool_answers_def plain_message_def)
  then show "\<not> answered (ms @ [plain_message r s])"
    using ms by (simp add: answered_append)
qed

lemma think_answered:
  assumes "answered (ch_msgs c)" and "\<And>ms m. model ms = Inr m \<Longrightarrow> ms_role m \<noteq> Tool"
  shows "case think su model n c of
      (Done, c') \<Rightarrow> answered (ch_msgs c')
    | (Thinking, c') \<Rightarrow> answered (ch_msgs c')
    | (Broken e, c') \<Rightarrow> (case model (ch_msgs c) of
          Inl e' \<Rightarrow> e = e' \<and> ch_msgs c' = butlast (ch_msgs c)
        | Inr m \<Rightarrow> dangling (ch_msgs c') \<and> (\<exists>ms. ch_msgs c' = ch_msgs c @ m # ms))"
  using assms(1)
proof (induction n arbitrary: c)
  case (Suc n)
  show ?case
  proof (cases "model (ch_msgs c)")
    case (Inr m)
    have role: "ms_role m \<noteq> Tool" using assms(2) Inr .
    show ?thesis
    proof (cases "ms_calls m = []")
      case True
      then show ?thesis using Suc.prems Inr role by (simp add: answered_append)
    next
      case False
      let ?c = "fold (tool_step su) (ms_calls m) (say m (new_reader su c))"
      obtain outs where outs: "ch_msgs ?c = ch_msgs c @ m # outs" "tool_answers (ms_calls m) outs"
        using fold_tool_step_answers [of su "ms_calls m" "say m (new_reader su c)"] by auto
      then have "answered (ch_msgs ?c)"
        using Suc.prems answered_round [OF role] by (simp add: answered_append)
      note ih = Suc.IH [OF this]
      have "outs \<noteq> []" using outs(2) False tool_answers_length by fastforce
      then have last: "butlast (ch_msgs ?c) = ch_msgs c @ m # butlast outs"
        unfolding outs(1) by (simp add: butlast_append)
      moreover have "Suc (length (butlast outs)) = length (ms_calls m)"
        using False tool_answers_length [OF outs(2)] by (cases "ms_calls m") simp_all
      ultimately have "dangling (butlast (ch_msgs ?c))"
        using Suc.prems unfolding dangling_def by blast
      with ih Inr False last show ?thesis
        by (auto simp: Let_def outs(1) split: prod.splits outcome.splits sum.splits)
    qed
  qed simp
qed simp

text \<open>
 C31: the conversation stays well-formed, unless a later request fails. Let every call be answered
  before a turn, and let no answer of the model be one of a tool. A turn that ends keeps every call
  answered. A turn whose first request fails leaves the conversation as it was. When an answer of the
  model came first and a later request fails, the last message, the answer of a tool, is dropped: a call
  has no answer, and if the model rejects such conversations then every later turn ends with an error
  and leaves the messages as they are.
\<close>

theorem turn_keeps_conversation:
  assumes ok: "answered (ch_msgs c)" and role: "\<And>ms m. model ms = Inr m \<Longrightarrow> ms_role m \<noteq> Tool"
    and strict: "\<And>ms. \<not> answered ms \<Longrightarrow> \<exists>e. model ms = Inl e"
  shows "case user_turn su model n line c of
      (Done, c') \<Rightarrow> answered (ch_msgs c')
    | (Thinking, c') \<Rightarrow> answered (ch_msgs c')
    | (Broken e, c') \<Rightarrow> (case model (ch_msgs c @ [plain_message User line]) of
          Inl e' \<Rightarrow> e = e' \<and> ch_msgs c' = ch_msgs c
        | Inr m \<Rightarrow> \<not> answered (ch_msgs c') \<and> (\<exists>ms. ch_msgs c' = ch_msgs c @ plain_message User line # m # ms) \<and>
            (\<forall>line' n'. \<exists>e'. fst (user_turn su model (Suc n') line' c') = Broken e' \<and>
               ch_msgs (snd (user_turn su model (Suc n') line' c')) = ch_msgs c'))"
proof -
  let ?c = "say (plain_message User line) (c\<lparr>ch_turns := ch_turns c + 1\<rparr>)"
  have "answered (ch_msgs ?c)"
    using ok by (simp add: answered_append)
  note think = think_answered [where su = su and n = n and model = model, OF this role]
  have stuck: "\<exists>e'. fst (user_turn su model (Suc n') line' c') = Broken e' \<and>
      ch_msgs (snd (user_turn su model (Suc n') line' c')) = ch_msgs c'" if "dangling (ch_msgs c')" for line' n' c'
  proof -
    have "\<not> answered (ch_msgs c' @ [plain_message User line'])"
      by (rule dangling_not_answered(2) [OF that]) simp
    with strict obtain e' where "model (ch_msgs c' @ [plain_message User line']) = Inl e'" by blast
    then show ?thesis by (simp add: user_turn_def)
  qed
  obtain out c' where res: "think su model n ?c = (out, c')" by fastforce
  have msgs: "ch_msgs ?c = ch_msgs c @ [plain_message User line]" by simp
  have turn: "user_turn su model n line c = (out, c')"
    unfolding user_turn_def by (rule res)
  show ?thesis
    using think stuck [of c'] dangling_not_answered(1) [of "ch_msgs c'" User] unfolding turn res msgs
    by (cases out) (auto split: sum.splits)
qed

section \<open>Answers to questions\<close>

lemma think_done_prefix:
  "fst (think su model n c) = Done \<Longrightarrow> \<exists>ms. ch_msgs (snd (think su model n c)) = ch_msgs c @ ms"
proof (induction n arbitrary: c)
  case (Suc n)
  show ?case
  proof (cases "model (ch_msgs c)")
    case (Inr m)
    obtain outs where "ch_msgs (fold (tool_step su) (ms_calls m) (say m (new_reader su c))) = ch_msgs c @ m # outs"
      using fold_tool_step_answers [of su "ms_calls m" "say m (new_reader su c)"] by auto
    with Suc Inr show ?thesis by (fastforce simp: Let_def)
  qed (use Suc.prems in simp)
qed simp

text \<open>A line that is neither a command nor an end of the conversation.\<close>

definition plain_line :: "string \<Rightarrow> bool" where
  "plain_line s \<longleftrightarrow> trim_space s \<notin> {[], ''exit'', ''quit'', ''q''} \<and> \<not> has_prefix (trim_space s) ''/''"

lemma on_line_plain:
  "plain_line s \<Longrightarrow> on_line w s c =
     (Running, save_current (wl_now w) (snd (user_turn (wl_su w) (wl_model w) (wl_rounds w) (trim_space s) c)))"
  by (simp add: on_line_def plain_line_def Let_def)

lemma save_current_simps [simp]: "ch_msgs (save_current now c) = ch_msgs c" "ch_pending (save_current now c) = ch_pending c"
  by (simp_all add: save_current_def Let_def)

text \<open>A turn in which the model asks for one tool, which asks one question, and then answers.\<close>

lemma questioned_turn:
  assumes runs: "current_mode (ch_mode c) \<noteq> Plan" "\<not> needs_confirm c t" and terminal: "su_terminal su" "ch_stale c = 0"
    and ask: "model (ch_msgs c @ [plain_message User line]) = Inr m" "ms_calls m = [t]"
      "su_asked su (ch_msgs c @ [plain_message User line, m]) t = [keys]"
      "fst (ask_keys [] (swallow (su_drain su) 1 keys)) = (bytes_of_string pw, True)"
    and finish: "\<And>out. model (ch_msgs c @ [plain_message User line, m, out]) = Inr m'" "ms_calls m' = []"
  shows "\<exists>out. fst (user_turn su model (Suc (Suc n)) line c) = Done \<and>
    ch_pending (snd (user_turn su model (Suc (Suc n)) line c)) = pw \<and>
    ch_msgs (snd (user_turn su model (Suc (Suc n)) line c)) = ch_msgs c @ [plain_message User line, m, out, m']"
proof -
  let ?c = "say m (new_reader su (say (plain_message User line) (c\<lparr>ch_turns := ch_turns c + 1\<rparr>)))"
  have c: "ch_msgs ?c = ch_msgs c @ [plain_message User line, m]" "ch_stale ?c = 1" "current_mode (ch_mode ?c) \<noteq> Plan"
    "\<not> needs_confirm ?c t"
    using runs terminal by (simp_all add: needs_confirm_def) (simp_all add: say_def new_reader_def)
  let ?out = "tool_message t (su_result su (ch_msgs ?c) t (fst (question_answers su t ?c)))"
  obtain rest where "ask_keys [] (swallow (su_drain su) 1 keys) = ((bytes_of_string pw, True), rest)"
    using ask(4) by (metis prod.collapse)
  then have "ch_pending (snd (ask_question su keys ?c)) = pw"
    by (simp add: ask_question_def c(2) del: One_nat_def)
  then have "ch_pending (snd (question_answers su t ?c)) = pw"
    using terminal(1) ask(3) by (auto simp: question_answers_def c(1) split: prod.split)
  then have "ch_pending (run_tool su t ?c) = pw" by (simp add: run_tool_eq)
  moreover have "ch_msgs (run_tool su t ?c) = ch_msgs c @ [plain_message User line, m, ?out]" by (simp add: c(1))
  moreover have "tool_step su t ?c = run_tool su t ?c" using c(3,4) by (simp add: tool_step_def)
  ultimately show ?thesis
    using ask(1,2) finish by (simp add: user_turn_def)
qed

text \<open>
 C32: answers are sent to the model. On a terminal let the model answer a line with a call of one
  tool, which runs and asks the human one question, a password for instance, and then answer plainly.
  What was typed as the answer, behind the keys that the reader of the request took, and ended with
  Enter, is taken for a line by the next round of the loop, which reads no input: if it is neither a
  command nor blank nor an end, it becomes a message of the user. When the turn that this starts ends
  with an answer of the model, the message stays and is stored with the session, if that has at most
  200 messages.
\<close>

theorem answer_becomes_message:
  assumes line: "plain_line line" and idle: "ch_pending c = []"
    and runs: "current_mode (ch_mode c) \<noteq> Plan" "\<not> needs_confirm c t" and terminal: "su_terminal (wl_su w)" "2 \<le> wl_rounds w"
    and ask: "wl_model w (ch_msgs c @ [plain_message User (trim_space line)]) = Inr m" "ms_calls m = [t]"
      "su_asked (wl_su w) (ch_msgs c @ [plain_message User (trim_space line), m]) t = [keys]"
      "fst (ask_keys [] (swallow (su_drain (wl_su w)) 1 keys)) = (bytes_of_string pw, True)"
    and finish: "\<And>out. wl_model w (ch_msgs c @ [plain_message User (trim_space line), m, out]) = Inr m'" "ms_calls m' = []"
    and pw: "plain_line pw"
    and first: "main_step w (Typed line) c = ((Running, c1), True)"
    and turn: "fst (user_turn (wl_su w) (wl_model w) (wl_rounds w) (trim_space pw) (c1\<lparr>ch_pending := []\<rparr>)) = Done"
    and second: "main_step w inp c1 = ((st, c2), used)"
  shows "\<not> used \<and> plain_message User (trim_space pw) \<in> set (ch_msgs c2) \<and>
    (length (ch_msgs c2) \<le> 200 \<longrightarrow> (\<exists>s. map_of (ch_store c2) (se_id (ch_session c2)) = Some s \<and>
       plain_message User (trim_space pw) \<in> set (se_msgs s)))"
proof -
  let ?t = "user_turn (wl_su w) (wl_model w) (wl_rounds w) (trim_space pw) (c1\<lparr>ch_pending := []\<rparr>)"
  let ?c = "c\<lparr>ch_stale := 0\<rparr>"
  obtain n where n: "wl_rounds w = Suc (Suc n)"
    using terminal(2) by (metis add_2_eq_Suc le_Suc_ex)
  have "c1 = save_current (wl_now w) (snd (user_turn (wl_su w) (wl_model w) (wl_rounds w) (trim_space line) ?c))"
    using first idle terminal(1) on_line_plain [OF line] by (simp add: main_step_def)
  moreover have "\<not> needs_confirm ?c t" using runs(2) by (simp add: needs_confirm_def)
  ultimately have "ch_pending c1 = pw"
    using questioned_turn [of ?c t "wl_su w" "wl_model w" "trim_space line" m keys pw m' n] runs(1) terminal(1) ask finish
    by (auto simp: n)
  moreover have "pw \<noteq> []" using pw by (auto simp: plain_line_def trim_space_def trim_right_def)
  ultimately have step: "c2 = save_current (wl_now w) (snd ?t)" "\<not> used"
    using second on_line_plain [OF pw] by (simp_all add: main_step_def)
  obtain ms where "ch_msgs (snd ?t) = ch_msgs c1 @ plain_message User (trim_space pw) # ms"
    using think_done_prefix [OF turn [unfolded user_turn_def]] by (auto simp: user_turn_def)
  then show ?thesis
    by (auto simp: step save_current_def save_session_def trim_messages_def Let_def update_conv)
qed

section \<open>Piped input\<close>

text \<open>
 C36: piped input never ends. At its end \<open>readLine\<close> returns an empty line, not the end of the
  input, so that the loop turns on without a change for ever; an empty line on the other hand ends
  the conversation, and what arrived behind it is never read.
\<close>

theorem piped_input_spins:
  assumes "ch_pending c = []"
  shows "main_loop w k [] c = (Running, c) \<and>
    main_loop w (Suc k) ((CHR 0x0A # rest) # ps) c = (Ended, save_current (wl_now w) c)"
proof
  have eof: "main_step (piped w) (Typed []) c = ((Running, c), True)"
    using assms by (simp add: main_step_def on_line_def piped_def trim_space_def trim_right_def)
  show "main_loop w k [] c = (Running, c)"
    by (induction k) (simp_all add: eof trim_eol_def trim_right_def)
  show "main_loop w (Suc k) ((CHR 0x0A # rest) # ps) c = (Ended, save_current (wl_now w) c)"
    using assms by (simp add: main_step_def piped_def)
qed

text \<open>Lines that arrive in one piece: all but the first are lost.\<close>

lemma piped_lines_lost:
  assumes "a \<noteq> []" and "CHR 0x0A \<notin> set a" and "CHR 0x0D \<notin> set a"
  shows "read_piped [] ((a @ CHR 0x0A # b) # ps) = (Typed a, ps)"
proof -
  have "takeWhile (\<lambda>ch. ch \<noteq> CHR 0x0A) (a @ CHR 0x0A # b) = a"
    using assms(2) by (subst takeWhile_append2) auto
  moreover have "trim_eol a = a"
    using assms(2,3) unfolding trim_eol_def by (cases a rule: rev_cases) (auto simp: trim_right_def)
  ultimately show ?thesis using assms(1) by simp
qed

section \<open>Sessions\<close>

lemma trim_messages_short [simp]: "length ms \<le> 200 \<Longrightarrow> trim_messages ms = ms"
  by (simp add: trim_messages_def)

lemma trim_messages_bound:
  "length (trim_messages ms) \<le> 200 \<and> take 1 (trim_messages ms) = take 1 ms \<and> trim_messages (trim_messages ms) = trim_messages ms"
proof (cases "length ms \<le> 200")
  case False
  then have "length (trim_messages ms) = 200" "ms \<noteq> []"
    by (auto simp: trim_messages_def)
  then show ?thesis
    using False by (cases ms) (simp_all add: trim_messages_def)
qed simp

text \<open>The cut does not look at what it cuts: the answer of a tool may be left without its call.\<close>

lemma trimming_cuts_calls:
  assumes "t = \<lparr>tl_id = ''1'', tl_name = ''recall'', tl_args = []\<rparr>"
    and "ms = plain_message System [] # \<lparr>ms_role = Assistant, ms_content = [], ms_calls = [t], ms_call_id = []\<rparr> #
      tool_message t [] # replicate 198 (plain_message User [])"
  shows "answered ms \<and> \<not> answered (trim_messages ms)"
proof -
  have plain: "answered (replicate n (plain_message User []))" for n
    by (induction n) simp_all
  have "trim_messages ms = plain_message System [] # tool_message t [] # replicate 198 (plain_message User [])"
    unfolding assms(2) trim_messages_def by (simp add: numeral_nat)
  moreover have "\<not> answered (plain_message System [] # tool_message t [] # replicate 198 (plain_message User []))"
    by (simp add: tool_message_def)
  moreover have "answered ms"
    unfolding assms(2) using plain by (simp add: tool_answers_def tool_message_def assms(1))
  ultimately show ?thesis by simp
qed

text \<open>A session that is imported with an identity of another form cannot be loaded by it.\<close>

lemma imported_unreachable:
  assumes "\<not> has_prefix (trim_space (se_id s)) ''session_''"
    and "\<forall>(f, r) \<in> set (snd (import_session now uuid s st)). se_name r \<noteq> trim_space (se_id s)"
  shows "load_session (se_id s) (snd (import_session now uuid s st)) = None"
  using assms by (auto simp: load_session_def list_sessions_def find_None_iff Let_def)

text \<open>The number of turns goes over into a new session.\<close>

lemma new_session_keeps_turns: "ch_turns (cmd_new now uuid dated ag c) = ch_turns c"
  by (simp add: cmd_new_def save_current_def Let_def)

lemma fold_candidates:
  "acc \<noteq> [] \<Longrightarrow> hd acc = p \<Longrightarrow> distinct acc \<Longrightarrow>
   (let r = fold (\<lambda>m acc. let t = trim_space m in if t = [] \<or> t = p \<or> t \<in> set (tl acc) then acc else acc @ [t]) ms acc
    in r \<noteq> [] \<and> hd r = p \<and> distinct r)"
proof (induction ms arbitrary: acc)
  case (Cons m ms)
  have "set acc = insert p (set (tl acc))"
    using Cons.prems by (cases acc) auto
  then show ?case
    using Cons.prems Cons.IH [of acc] Cons.IH [of "acc @ [trim_space m]"] by (simp add: Let_def)
qed (simp add: Let_def)

lemma model_candidates_distinct: "hd (model_candidates p ms) = p \<and> distinct (model_candidates p ms)"
  using fold_candidates [of "[p]" p ms] by (simp add: model_candidates_def Let_def)

text \<open>
 Switching back restores. Whoever switches to another stored session and back finds the
  messages, the number of turns and the name of the first one again, if it has at most 200
  messages.
\<close>

theorem session_switch_back:
  assumes i: "se_id (ch_session c) = i" "has_prefix i ''session_''" "trim_space i = i"
    and j: "map_of (ch_store c) j = Some t" "se_id t = j" "has_prefix j ''session_''" "trim_space j = j" "j \<noteq> i"
    and short: "length (ch_msgs c) \<le> 200"
    and c1: "cmd_session now j c = c1" and c2: "cmd_session now' i c1 = c2"
  shows "ch_msgs c1 = se_msgs t \<and> ch_msgs c2 = ch_msgs c \<and> ch_turns c2 = ch_turns c \<and>
    se_name (ch_session c2) = se_name (ch_session c)"
proof -
  have nil: "i \<noteq> []" "j \<noteq> []"
    using i(2) j(3) by (auto simp: has_prefix_def)
  let ?s = "(ch_session c)\<lparr>se_turns := ch_turns c, se_updated := now, se_msgs := ch_msgs c\<rparr>"
  have load1: "load_session j (ch_store (save_current now c)) = Some t"
    using i j nil by (simp add: load_session_def save_current_def save_session_def update_conv Let_def)
  have c1': "ch_msgs c1 = se_msgs t" "ch_turns c1 = se_turns t" "se_id (ch_session c1) = j"
    "ch_store c1 = ch_store (save_current now c)"
    using nil load1 j(2) unfolding c1 [symmetric] by (simp_all add: cmd_session_def Let_def)
  have "map_of (ch_store (save_current now c)) i = Some ?s"
    using i(1) short by (simp add: save_current_def save_session_def update_conv Let_def)
  then have load2: "load_session i (ch_store (save_current now' c1)) = Some ?s"
    using i j nil c1' by (simp add: load_session_def save_current_def [of now' c1] save_session_def update_conv Let_def)
  show ?thesis
    using nil load2 c1'(1) unfolding c2 [symmetric] by (simp add: cmd_session_def Let_def)
qed

section \<open>Examples\<close>

definition demo_call :: "string \<Rightarrow> tool_call" where
  "demo_call name = \<lparr>tl_id = ''1'', tl_name = name, tl_args = []\<rparr>"

definition demo_request :: "string \<Rightarrow> message" where
  "demo_request name = \<lparr>ms_role = Assistant, ms_content = [], ms_calls = [demo_call name], ms_call_id = []\<rparr>"

text \<open>The model calls a tool in answer to the first line, and then answers plainly.\<close>

definition demo_model :: "string \<Rightarrow> message list \<Rightarrow> llm_err + message" where
  "demo_model name ms = Inr (if length ms = 2 then demo_request name else plain_message Assistant ''ok'')"

text \<open>A human who presses n and Enter at each confirmation, and answers each question of a tool behind
  a key that a reader takes.\<close>

definition demo_surroundings :: surroundings where
  "demo_surroundings = \<lparr>su_terminal = True, su_drain = 1, su_keys = \<lambda>ms t. [110, 13],
     su_asked = \<lambda>ms t. [bytes_of_string '' hunter2'' @ [13]], su_result = \<lambda>ms t as. ''done''\<rparr>"

definition demo_session :: "string \<Rightarrow> session" where
  "demo_session i = \<lparr>se_id = i, se_name = ''work'', se_updated = 0, se_model = ''m'', se_turns = 0, se_msgs = [plain_message System []]\<rparr>"

definition demo_chat :: "nat \<Rightarrow> chat" where
  "demo_chat mode = \<lparr>ch_stale = 0, ch_msgs = [plain_message System []], ch_mode = mode, ch_approve_all = False, ch_ran = [], ch_pending = [],
     ch_turns = 0, ch_model = ''m'', ch_models = [''m''], ch_model_idx = 0, ch_session = demo_session ''session_1'',
     ch_store = [(''session_2'', demo_session ''session_2'')]\<rparr>"

theorem completion_settles_witness:
  "fst (snd (complete \<lparr>lm_key = ''k'', lm_retries = 2, lm_timeout = 60\<rparr> (\<lambda>i. NoAnswer))) = 3"
proof -
  have "[0..<3] = [0, 1, 2]" by (simp add: upt_rec)
  then show ?thesis
    using completion_settles [of "\<lparr>lm_key = ''k'', lm_retries = 2, lm_timeout = 60\<rparr>" "\<lambda>i. NoAnswer"]
    by (simp add: do_once_def)
qed

text \<open>A human who presses n twice: the first goes to the reader.\<close>

lemma two_refusals: "refuses (demo_surroundings\<lparr>su_keys := \<lambda>ms t. [110, 110, 13]\<rparr>) 1"
proof -
  have r: "read_rune (b # bs) = Some ([b], bs)" if "b \<in> {110, 13}" for b bs
    using that by (intro read_ascii) auto
  have "confirm_keys [] [110, 13] = (False, False)" "confirm_keys [] [110, 110, 13] = (False, False)"
    by (simp_all add: confirm_keys.simps [of _ "_ # _"] r)
  moreover have "swallow 1 1 [110, 110, 13] = [110, 13]" by (rule swallow_one) simp_all
  ultimately have "\<not> fst (confirm_keys [] (swallow 1 j [110, 110, 13]))" if "j \<le> 1" for j
    using that by (cases "j = 0") (simp_all add: swallow_def le_Suc_eq)
  then show ?thesis by (simp add: refuses_def demo_surroundings_def)
qed

theorem refused_runs_nothing_witness:
  "ch_ran (snd (user_turn (demo_surroundings\<lparr>su_keys := \<lambda>ms t. [110, 110, 13]\<rparr>) (demo_model ''run'') 5 ''list the files'' (demo_chat 0))) = []"
proof -
  have "current_mode (ch_mode (demo_chat 0)) = Manual \<and> \<not> ch_approve_all (demo_chat 0) \<and>
      refuses (demo_surroundings\<lparr>su_keys := \<lambda>ms t. [110, 110, 13]\<rparr>) (Suc (ch_stale (demo_chat 0)))"
    using two_refusals by (simp add: demo_chat_def current_mode_def ai_modes_def)
  from refused_runs_nothing [OF disjI2 [OF this]] show ?thesis by (simp add: demo_chat_def)
qed

theorem refusal_runs_tool_witness:
  "\<exists>us. ch_ran (snd (user_turn demo_surroundings (demo_model ''run'') 5 ''list the files'' (demo_chat 0))) = demo_call ''run'' # us"
proof -
  have "\<exists>us. ch_ran (snd (user_turn demo_surroundings (demo_model ''run'') (Suc 4) ''list the files'' (demo_chat 0))) =
      ch_ran (demo_chat 0) @ demo_call ''run'' # us"
    by (rule refusal_runs_tool [where m = "demo_request ''run''" and ts = "[]"])
      (simp_all add: demo_chat_def demo_surroundings_def demo_model_def demo_request_def current_mode_def ai_modes_def)
  then show ?thesis by (simp add: demo_chat_def)
qed

text \<open>A model that rejects ill-formed conversations and is gone after its first answer.\<close>

definition failing_model :: "message list \<Rightarrow> llm_err + message" where
  "failing_model ms = (if answered ms \<and> length ms = 2 then Inr (demo_request ''recall'') else Inl (HttpStatus 400))"

lemmas demo_defs = demo_chat_def demo_surroundings_def demo_request_def demo_call_def demo_session_def

lemma demo_failed_round:
  "user_turn demo_surroundings failing_model 5 ''hi'' (demo_chat 3) =
    (Broken (HttpStatus 400), (demo_chat 3)\<lparr>ch_msgs := [plain_message System [], plain_message User ''hi'', demo_request ''recall''],
       ch_turns := 1, ch_stale := 1, ch_ran := [demo_call ''recall''], ch_pending := ''hunter2''\<rparr>)"
  by code_simp

theorem turn_keeps_conversation_witness:
  "\<exists>e. fst (user_turn demo_surroundings failing_model 1 ''again'' (snd (user_turn demo_surroundings failing_model 5 ''hi'' (demo_chat 3)))) = Broken e"
proof -
  have ok: "answered (ch_msgs (demo_chat 3))" by (simp add: demo_defs)
  have role: "ms_role m \<noteq> Tool" if "failing_model ms = Inr m" for ms m
    using that by (auto simp: failing_model_def demo_request_def split: if_splits)
  have strict: "\<exists>e. failing_model ms = Inl e" if "\<not> answered ms" for ms
    using that by (simp add: failing_model_def)
  have "failing_model (ch_msgs (demo_chat 3) @ [plain_message User ''hi'']) = Inr (demo_request ''recall'')"
    by (simp add: failing_model_def demo_chat_def)
  with turn_keeps_conversation [where model = failing_model and su = demo_surroundings and n = 5 and line = "''hi''", OF ok role strict] show ?thesis
    unfolding demo_failed_round One_nat_def by auto
qed

definition demo_setting :: setting where
  "demo_setting = \<lparr>wl_su = demo_surroundings, wl_model = demo_model ''file_copy'', wl_rounds = 5, wl_now = 1, wl_uuid = ''u'',
     wl_dated = ''d'', wl_other = \<lambda>s. False\<rparr>"

lemma demo_questioned:
  "main_step demo_setting (Typed ''copy it'') (demo_chat 3) = ((Running,
     save_current 1 ((demo_chat 3)\<lparr>ch_stale := 1, ch_msgs := [plain_message System [], plain_message User ''copy it'', demo_request ''file_copy'',
       tool_message (demo_call ''file_copy'') ''done'', plain_message Assistant ''ok''], ch_turns := 1,
       ch_ran := [demo_call ''file_copy''], ch_pending := ''hunter2''\<rparr>)), True)"
  by code_simp

lemma demo_answer: "fst (ask_keys [] (swallow 1 1 (bytes_of_string '' hunter2'' @ [13]))) = (bytes_of_string ''hunter2'', True)"
  by code_simp

theorem answer_becomes_message_witness:
  "plain_message User ''hunter2'' \<in> set (ch_msgs (snd (fst (main_step demo_setting Eof
     (snd (fst (main_step demo_setting (Typed ''copy it'') (demo_chat 3))))))))"
proof -
  let ?c = "snd (fst (main_step demo_setting (Typed ''copy it'') (demo_chat 3)))"
  have line: "trim_space ''copy it'' = ''copy it''" "trim_space ''hunter2'' = ''hunter2''" by code_simp+
  then have plain: "plain_line ''copy it''" "plain_line ''hunter2''" by (simp_all add: plain_line_def has_prefix_def)
  have set: "wl_su demo_setting = demo_surroundings" "wl_model demo_setting = demo_model ''file_copy''" "wl_rounds demo_setting = 5"
    "su_terminal demo_surroundings" "su_drain demo_surroundings = 1"
    "su_asked demo_surroundings ms t = [bytes_of_string '' hunter2'' @ [13]]" for ms t
    by (simp_all add: demo_setting_def demo_surroundings_def)
  have ends: "fst (user_turn (wl_su demo_setting) (wl_model demo_setting) (wl_rounds demo_setting) (trim_space ''hunter2'')
      (?c\<lparr>ch_pending := []\<rparr>)) = Done"
    unfolding demo_questioned line fst_conv snd_conv
    by (simp add: set user_turn_def demo_model_def eval_nat_numeral Let_def)
  have "main_step demo_setting (Typed ''copy it'') (demo_chat 3) = ((Running, ?c), True)"
    unfolding demo_questioned by simp
  note step = answer_becomes_message [of "''copy it''" "demo_chat 3" "demo_call ''file_copy''" demo_setting "demo_request ''file_copy''"
      "bytes_of_string '' hunter2'' @ [13]" "''hunter2''" "plain_message Assistant ''ok''", OF _ _ _ _ _ _ _ _ _ _ _ _ _ this ends,
      of Eof "fst (fst (main_step demo_setting Eof ?c))" "snd (fst (main_step demo_setting Eof ?c))" "snd (main_step demo_setting Eof ?c)"]
  have chat: "ch_pending (demo_chat 3) = []" "ch_msgs (demo_chat 3) = [plain_message System []]"
    "current_mode (ch_mode (demo_chat 3)) = Auto"
    by (simp_all add: demo_chat_def current_mode_def ai_modes_def)
  have "\<not> needs_confirm (demo_chat 3) t" for t
    using chat(3) by (simp add: needs_confirm_def)
  with step show ?thesis
    using demo_answer unfolding set line by (simp add: chat plain demo_model_def demo_request_def set del: list.map)
qed

theorem piped_input_spins_witness: "main_loop demo_setting 1000 [] (demo_chat 0) = (Running, demo_chat 0)"
  using piped_input_spins [of "demo_chat 0" demo_setting 1000] by (simp add: demo_chat_def)

theorem session_switch_back_witness:
  "ch_msgs (cmd_session 2 ''session_1'' (cmd_session 1 ''session_2'' (demo_chat 0))) = [plain_message System []]"
proof -
  have "trim_space ''session_1'' = ''session_1''" "trim_space ''session_2'' = ''session_2''" by code_simp+
  then show ?thesis
    using session_switch_back [of "demo_chat 0" "''session_1''" "''session_2''" "demo_session ''session_2''", OF _ _ _ _ _ _ _ _ _ refl refl]
    by (simp add: demo_chat_def demo_session_def has_prefix_def)
qed

end
