(* ===== verification/Agent_Line.thy ===== *)
theory Agent_Line
  imports Agent_Chat
begin

text \<open>
  What is typed and what is drawn: the line editor of the terminal with its keys, history and
  completion (\<open>readLine\<close> in \<open>agent/tui.go\<close>, \<open>agent/tui_cmds.go\<close>), the clipping and wrapping of lines (\<open>agent/helpers.go\<close>,
  \<open>agent/tui.go\<close>) and the comparison of release tags (\<open>cmd/update.go\<close>).

  The keyboard is the list of the bytes it will ever send; a read behind the last one fails.
\<close>

section \<open>Completion\<close>

definition slash_commands :: "string list" where
  "slash_commands = [''help'', ''sessions'', ''session'', ''new'', ''rename'', ''delete'', ''clear'', ''model'',
     ''init'', ''status'', ''ping'', ''use'', ''sysproxy'', ''start'', ''proxy'', ''dns'', ''web'', ''tun'', ''n2n'', ''stunvpv'',
     ''wireguard'', ''frp'', ''tinc'', ''socat'', ''corsproxy'', ''forward'', ''scp'', ''netdiag'', ''logs'', ''validate'',
     ''stop'', ''restart'', ''add-proxy'', ''add-rule'', ''session-export'', ''session-import'']"

definition complete_slash :: "string \<Rightarrow> string list" where
  "complete_slash text = filter (\<lambda>c. has_prefix c text) slash_commands"

record editor =
  ed_buf :: bytes
  ed_tab :: nat
  ed_mode :: nat
  ed_hide :: bool
  ed_hist :: "bytes list"
  ed_idx :: nat
  ed_model :: nat
  ed_models :: nat

definition set_buf :: "string \<Rightarrow> editor \<Rightarrow> editor" where
  "set_buf s ed = ed\<lparr>ed_buf := bytes_of_string s\<rparr>"

definition complete_tab :: "editor \<Rightarrow> editor" where
  "complete_tab ed = (case ed_buf ed of
       [] \<Rightarrow> ed
     | b # bs \<Rightarrow>
       if b \<noteq> 0x2F then ed
       else
         let rest = string_of_bytes bs;
             (word, tail) = (case index_byte rest CHR '' '' of
                None \<Rightarrow> (rest, rest) | Some i \<Rightarrow> (take i rest, drop (i + 1) rest));
             cands = complete_slash word
         in case cands of
              [] \<Rightarrow> ed
            | [c] \<Rightarrow> set_buf (''/'' @ c @ '' '' @ tail) ed
            | c # _ \<Rightarrow>
              if word = [] then set_buf (''/'' @ c @ '' '') ed
              else let k = (ed_tab ed + 1) mod length cands
                in set_buf (''/'' @ cands ! k @ '' '' @ tail) (ed\<lparr>ed_tab := k\<rparr>))"

section \<open>The line editor\<close>

definition back_space :: "editor \<Rightarrow> editor" where
  "back_space ed = ed\<lparr>ed_buf := take (length (ed_buf ed) - last_rune_size (ed_buf ed)) (ed_buf ed)\<rparr>"

definition cycle_models :: "editor \<Rightarrow> editor" where
  "cycle_models ed = (if ed_models ed \<le> 1 then ed else ed\<lparr>ed_model := (ed_model ed + 1 + ed_models ed) mod ed_models ed\<rparr>)"

datatype key_result = More editor | Enter | EndOfInput | Interrupt

definition csi_key :: "byte \<Rightarrow> editor \<Rightarrow> key_result" where
  "csi_key final ed =
     (if final = 0x5A then More (cycle_models ed)
      else if final = 0x41 then
        (if ed_hist ed \<noteq> [] \<and> 0 < ed_idx ed
         then More (ed\<lparr>ed_idx := ed_idx ed - 1, ed_buf := ed_hist ed ! (ed_idx ed - 1)\<rparr>) else More ed)
      else if final = 0x42 then
        (if ed_idx ed < length (ed_hist ed)
         then More (ed\<lparr>ed_idx := ed_idx ed + 1,
                ed_buf := (if ed_idx ed + 1 < length (ed_hist ed) then ed_hist ed ! (ed_idx ed + 1) else [])\<rparr>) else More ed)
      else if final = 0x44 then (if ed_buf ed = [] then EndOfInput else More (back_space ed))
      else if final = 0x48 then More (back_space ed)
      else More ed)"

text \<open>One key, given the bytes behind it.\<close>

definition on_key :: "bytes \<Rightarrow> bytes \<Rightarrow> editor \<Rightarrow> key_result \<times> bytes" where
  "on_key key rest ed =
     (let k = hd key in
      if k = 9 then
        (More (if ed_buf ed \<noteq> [] \<and> hd (ed_buf ed) = 0x2F then complete_tab ed else ed\<lparr>ed_mode := cycle_mode 1 (ed_mode ed)\<rparr>), rest)
      else if k = 20 then (More (ed\<lparr>ed_hide := \<not> ed_hide ed\<rparr>), rest)
      else if k = 13 then (Enter, rest)
      else if k = 10 \<or> k = 12 then (More ed, rest)
      else if k = 4 then (EndOfInput, rest)
      else if k = 3 then (Interrupt, rest)
      else if k = 127 \<or> k = 8 then (More (back_space ed), rest)
      else if k = 27 then
        (let ((final, kind), rest') = esc_suffix rest in
         (case kind of
            Bare \<Rightarrow> More (ed\<lparr>ed_buf := []\<rparr>)
          | Alt \<Rightarrow> More (ed\<lparr>ed_buf := ed_buf ed @ [final]\<rparr>)
          | EscCr \<Rightarrow> More (ed\<lparr>ed_buf := ed_buf ed @ [10]\<rparr>)
          | Csi \<Rightarrow> csi_key final ed, rest'))
      else if 32 \<le> k then (More (ed\<lparr>ed_buf := ed_buf ed @ key\<rparr>), rest)
      else (More ed, rest))"

lemma on_key_shorter: "length (snd (on_key key rest ed)) \<le> length rest"
  using esc_suffix_shorter [of rest] by (cases "esc_suffix rest") (auto simp: on_key_def Let_def)

lemma on_key_rest:
  "(kr, rest') = on_key key rest ed \<Longrightarrow> read_rune inp = Some (key, rest) \<Longrightarrow> length rest' < length inp"
  using read_rune_shorter [of inp key rest] on_key_shorter [of key rest ed] by (cases "on_key key rest ed") auto

datatype line_result = Entered bytes | InputEnded | KeyCancelled

text \<open>The loop of \<open>readLine\<close> on a terminal.\<close>

function read_raw :: "bytes \<Rightarrow> editor \<Rightarrow> line_result \<times> editor \<times> bytes" where
  "read_raw inp ed = (case read_rune inp of
       None \<Rightarrow> (InputEnded, ed, [])
     | Some (key, rest) \<Rightarrow>
       case on_key key rest ed of
         (More ed', rest') \<Rightarrow> read_raw rest' ed'
       | (Enter, rest') \<Rightarrow> (Entered (ed_buf ed), ed, rest')
       | (EndOfInput, rest') \<Rightarrow> (InputEnded, ed, rest')
       | (Interrupt, rest') \<Rightarrow> (KeyCancelled, ed, rest'))"
  by pat_completeness auto
termination
  by (relation "measure (\<lambda>(inp, ed). length inp)") (auto dest: on_key_rest)

declare read_raw.simps [simp del]

definition read_line_raw :: "bytes \<Rightarrow> editor \<Rightarrow> line_result \<times> editor \<times> bytes" where
  "read_line_raw inp ed = read_raw inp (ed\<lparr>ed_tab := 0, ed_buf := []\<rparr>)"

section \<open>Display\<close>

definition disp_rune_width :: "nat \<Rightarrow> nat" where
  "disp_rune_width r =
     (if 0x1100 \<le> r \<and> r \<le> 0x115F \<or> 0x2E80 \<le> r \<and> r \<le> 0x9FFF \<or> 0xA000 \<le> r \<and> r \<le> 0xA4CF \<or> 0xAC00 \<le> r \<and> r \<le> 0xD7A3 \<or>
         0xF900 \<le> r \<and> r \<le> 0xFAFF \<or> 0xFE30 \<le> r \<and> r \<le> 0xFE6F \<or> 0xFF00 \<le> r \<and> r \<le> 0xFF60 \<or> 0x20000 \<le> r \<and> r \<le> 0x2FA1F
      then 2
      else if r = 0xB7 \<or> r = 0x2026 \<or> 0x2190 \<le> r \<and> r \<le> 0x21FF \<or> 0x2200 \<le> r \<and> r \<le> 0x22FF \<or> 0x2300 \<le> r \<and> r \<le> 0x23FF \<or>
         0x2460 \<le> r \<and> r \<le> 0x25FF \<or> 0x2600 \<le> r \<and> r \<le> 0x27BF \<or> 0x2B00 \<le> r \<and> r \<le> 0x2BFF
      then 2 else 1)"

fun printable_from :: "bool \<Rightarrow> nat list \<Rightarrow> nat" where
  "printable_from in_esc [] = 0"
| "printable_from in_esc (r # rs) =
     (if r = 27 then printable_from True rs
      else if in_esc then printable_from (r \<noteq> 109) rs
      else disp_rune_width r + printable_from False rs)"

definition printable_len :: "nat list \<Rightarrow> nat" where
  "printable_len rs = printable_from False rs"

text \<open>\<open>truncateDisp\<close>: a cut inside of the text is followed by the sequence that ends the style.\<close>

fun truncate_from :: "bool \<Rightarrow> nat \<Rightarrow> nat \<Rightarrow> nat list \<Rightarrow> nat list" where
  "truncate_from in_esc w width [] = []"
| "truncate_from in_esc w width (r # rs) =
     (if r = 27 then r # truncate_from True w width rs
      else if in_esc then r # truncate_from (r \<noteq> 109) w width rs
      else if width < w + disp_rune_width r then [27, 0x5B, 0x30, 109]
      else r # truncate_from False (w + disp_rune_width r) width rs)"

definition truncate_disp :: "nat list \<Rightarrow> nat \<Rightarrow> nat list" where
  "truncate_disp rs width = truncate_from False 0 width rs"

text \<open>The widths that \<open>compactTail\<close> and \<open>wrapLines\<close> count, which are not those of \<open>dispRuneWidth\<close>.\<close>

definition cjk_width :: "nat \<Rightarrow> nat" where
  "cjk_width r =
     (if 0x1100 \<le> r \<and> r \<le> 0x115F \<or> 0x2E80 \<le> r \<and> r \<le> 0x9FFF \<or> 0xA000 \<le> r \<and> r \<le> 0xA4CF \<or> 0xAC00 \<le> r \<and> r \<le> 0xD7A3 \<or>
         0xF900 \<le> r \<and> r \<le> 0xFAFF \<or> 0xFE30 \<le> r \<and> r \<le> 0xFE6F then 2 else 1)"

fun take_width :: "nat \<Rightarrow> int \<Rightarrow> nat list \<Rightarrow> nat list" where
  "take_width w limit [] = []"
| "take_width w limit (r # rs) =
     (if limit < int (w + cjk_width r) then [] else r # take_width (w + cjk_width r) limit rs)"

definition compact_tail :: "nat list \<Rightarrow> int \<Rightarrow> nat list" where
  "compact_tail st width = (if int (printable_len st) \<le> width then st else take_width 0 (width - 1) st @ [0x2026])"

text \<open>\<open>wrapLines\<close> on one line: characters are counted, bytes are cut. None is the panic of cutting a
  byte off the empty line, which a negative limit leads to.\<close>

definition chop_of :: "bytes \<Rightarrow> int \<Rightarrow> nat" where
  "chop_of line limit = (let n = length (take_width 0 limit (runes line)) in if n = 0 then 1 else n)"

function wrap_line :: "bytes \<Rightarrow> int \<Rightarrow> bytes list option" where
  "wrap_line line limit =
     (if limit < int (printable_len (runes line)) then
        (if line = [] then None
         else map_option ((#) (take (chop_of line limit) line)) (wrap_line (drop (chop_of line limit) line) limit))
      else Some (if line = [] then [] else [line]))"
  by pat_completeness auto
termination
  by (relation "measure (\<lambda>(line, limit). length line)") (auto simp: chop_of_def Let_def)

declare wrap_line.simps [simp del]

fun wrap_all :: "bytes list \<Rightarrow> int \<Rightarrow> bytes list option" where
  "wrap_all [] limit = Some []"
| "wrap_all (l # ls) limit = (case wrap_line l limit of
       None \<Rightarrow> None | Some out \<Rightarrow> map_option ((@) out) (wrap_all ls limit))"

definition split_lines :: "bytes \<Rightarrow> bytes list" where
  "split_lines s = map bytes_of_string (split_all LF (string_of_bytes s))"

definition wrap_lines :: "bytes \<Rightarrow> int \<Rightarrow> bytes list option" where
  "wrap_lines s limit = wrap_all (split_lines s) limit"

text \<open>\<open>cleanAIContent\<close> on one line, and on all.\<close>

definition clean_line :: "string \<Rightarrow> string" where
  "clean_line line =
     (if has_prefix (trim_space line) ''```'' then []
      else let l = replace_all ''__'' [] (replace_all ''**'' [] line); h = dropWhile (\<lambda>ch. ch = CHR ''#'') l
        in if length h < length l \<and> (h = [] \<or> hd h = CHR '' '') then trim_space h else l)"

fun join_lines :: "string list \<Rightarrow> string" where
  "join_lines [] = []"
| "join_lines [l] = l"
| "join_lines (l # ls) = l @ LF # join_lines ls"

definition clean_ai_content :: "string \<Rightarrow> string" where
  "clean_ai_content s = (let out = trim_space (join_lines (map clean_line (split_all LF s))) in if out = [] then s else out)"

definition short_base_url :: "string \<Rightarrow> string" where
  "short_base_url s =
     (let u = trim_suffix (trim_suffix (trim_prefix (trim_prefix s ''https://'') ''http://'') ''/v1'') ''/''
      in if 28 < length u then take 25 u @ map char_of_byte [0xE2, 0x80, 0xA6] else u)"

section \<open>Release tags\<close>

definition atoi_or_zero :: "string \<Rightarrow> int" where
  "atoi_or_zero s = (case atoi s of None \<Rightarrow> 0 | Some n \<Rightarrow> n)"

text \<open>The loop over the parts from \<open>i\<close> on; None is the panic of an index out of range.\<close>

fun cmp_parts :: "nat \<Rightarrow> string list \<Rightarrow> string list \<Rightarrow> int option" where
  "cmp_parts 0 ap bp = Some 0"
| "cmp_parts (Suc n) ap bp = (case (ap, bp) of
       (a # as, b # bs) \<Rightarrow>
         if atoi_or_zero a \<noteq> atoi_or_zero b then Some (if atoi_or_zero a < atoi_or_zero b then -1 else 1) else cmp_parts n as bs
     | _ \<Rightarrow> None)"

definition cmp_semver :: "string \<Rightarrow> string \<Rightarrow> int option" where
  "cmp_semver a b = cmp_parts 3 (split_all CHR ''.'' (trim_prefix a ''v'')) (split_all CHR ''.'' (trim_prefix b ''v''))"

text \<open>\<open>latestReleaseNewer\<close> of the banner, the same comparison once more.\<close>

definition release_newer :: "string \<Rightarrow> string \<Rightarrow> bool option" where
  "release_newer cur latest = map_option (\<lambda>c. c = -1) (cmp_semver cur latest)"

datatype update_check = NoBanner | Banner | CheckPanics

text \<open>\<open>checkUpdate\<close>, which runs before every command.\<close>

definition check_update :: "string \<Rightarrow> string option \<Rightarrow> update_check" where
  "check_update version latest =
     (if version = [] \<or> version = ''dev'' then NoBanner
      else case latest of
        None \<Rightarrow> NoBanner
      | Some t \<Rightarrow>
        if t = version then NoBanner
        else case cmp_semver version t of None \<Rightarrow> CheckPanics | Some c \<Rightarrow> if 0 \<le> c then NoBanner else Banner)"

section \<open>The editor edits characters\<close>

datatype stroke = Key bytes | Rub

fun stroke_bytes :: "stroke \<Rightarrow> bytes" where
  "stroke_bytes (Key r) = r"
| "stroke_bytes Rub = [127]"

fun stroke_ok :: "stroke \<Rightarrow> bool" where
  "stroke_ok (Key r) = (rune_ok r \<and> 32 \<le> hd r \<and> hd r \<noteq> 127)"
| "stroke_ok Rub = True"

text \<open>The specification: a list of characters.\<close>

fun edit :: "bytes list \<Rightarrow> stroke \<Rightarrow> bytes list" where
  "edit cs (Key r) = cs @ [r]"
| "edit cs Rub = butlast cs"

lemma back_space_char:
  "list_all rune_ok cs \<Longrightarrow> back_space (ed\<lparr>ed_buf := concat cs\<rparr>) = ed\<lparr>ed_buf := concat (butlast cs)\<rparr>"
  by (cases cs rule: rev_cases) (simp_all add: back_space_def last_rune_size_char)

lemma on_key_stroke:
  assumes "stroke_ok s" and "list_all rune_ok cs"
  shows "\<exists>key. read_rune (stroke_bytes s @ inp) = Some (key, inp) \<and>
    on_key key inp (ed\<lparr>ed_buf := concat cs\<rparr>) = (More (ed\<lparr>ed_buf := concat (edit cs s)\<rparr>), inp)"
proof (cases s)
  case (Key r)
  then have "rune_ok r" "32 \<le> hd r" "hd r \<noteq> 127" using assms(1) by auto
  moreover from this have "hd r \<notin> {9, 20, 13, 10, 12, 4, 3, 8, 27}"
    by (auto simp: byte_order)
  ultimately show ?thesis
    using Key by (simp add: read_rune_char on_key_def Let_def)
next
  case Rub
  have "read_rune (127 # inp) = Some ([127], inp)"
    using read_rune_char [of "[127]" inp] by simp
  with Rub show ?thesis
    using back_space_char [OF assms(2), of ed] by (simp add: on_key_def Let_def)
qed

lemma edit_ok: "stroke_ok s \<Longrightarrow> list_all rune_ok cs \<Longrightarrow> list_all rune_ok (edit cs s)"
  by (cases s) (auto simp: list_all_iff dest: in_set_butlastD)

lemma read_raw_strokes:
  "list_all stroke_ok ss \<Longrightarrow> list_all rune_ok cs \<Longrightarrow>
   read_raw (concat (map stroke_bytes ss) @ 13 # rest) (ed\<lparr>ed_buf := concat cs\<rparr>) =
   (Entered (concat (foldl edit cs ss)), ed\<lparr>ed_buf := concat (foldl edit cs ss)\<rparr>, rest)"
proof (induction ss arbitrary: cs)
  case Nil
  have "read_rune (13 # rest) = Some ([13], rest)"
    using read_rune_char [of "[13]" rest] by simp
  then show ?case by (simp add: read_raw.simps [of "13 # rest"] on_key_def)
next
  case (Cons s ss)
  let ?inp = "concat (map stroke_bytes ss) @ 13 # rest"
  obtain key where key: "read_rune (stroke_bytes s @ ?inp) = Some (key, ?inp)"
    "on_key key ?inp (ed\<lparr>ed_buf := concat cs\<rparr>) = (More (ed\<lparr>ed_buf := concat (edit cs s)\<rparr>), ?inp)"
    using on_key_stroke [of s cs ?inp ed] Cons.prems by auto
  have "list_all rune_ok (edit cs s)" using edit_ok Cons.prems by simp
  with Cons.IH [OF _ this] Cons.prems(1) show ?case
    by (subst read_raw.simps) (simp add: key)
qed

text \<open>
 C37: the editor edits characters. Typed characters, of one byte or of several, and backspaces
  give, with Enter, the line that the same strokes give on a list of characters: a backspace takes
  one character, never a part of it. What was typed behind Enter stays for the next line.
\<close>

theorem editor_refines_characters:
  assumes "list_all stroke_ok ss"
  shows "read_line_raw (concat (map stroke_bytes ss) @ 13 # rest) ed =
    (Entered (concat (foldl edit [] ss)), ed\<lparr>ed_tab := 0, ed_buf := concat (foldl edit [] ss)\<rparr>, rest)"
  using read_raw_strokes [OF assms, of "[]" rest "ed\<lparr>ed_tab := 0\<rparr>"] by (simp add: read_line_raw_def)

text \<open>The key ESC alone is not seen as such while the keyboard works: it takes the next key with it.\<close>

lemma bare_escape_unreachable: "snd (fst (esc_suffix (b # bs))) \<noteq> Bare"
proof -
  have "snd (fst (csi_suffix bs)) \<noteq> Bare"
    by (induction bs rule: csi_suffix.induct) auto
  then show ?thesis by (auto simp: esc_suffix_def split: list.split)
qed

lemma escape_types_next_key:
  "32 \<le> b \<Longrightarrow> b \<noteq> 0x5B \<Longrightarrow> b \<noteq> 0x4F \<Longrightarrow> on_key [27] (b # rest) ed = (More (ed\<lparr>ed_buf := ed_buf ed @ [b]\<rparr>), rest)"
  by (auto simp: on_key_def esc_suffix_def byte_order)

text \<open>The left arrow on an empty line ends the conversation, and deletes a character elsewhere.\<close>

lemma left_arrow_quits: "ed_buf ed = [] \<Longrightarrow> on_key [27] (0x5B # 0x44 # rest) ed = (EndOfInput, rest)"
  by (simp add: on_key_def esc_suffix_def csi_key_def)

text \<open>An arrow key that is pressed in an answer leaves its letters there.\<close>

lemma arrow_in_answer: "ask_keys [] (27 # 0x5B # 0x41 # 13 # rest) = (([0x5B, 0x41], True), rest)"
  by (simp add: ask_keys.simps read_rune_def lead_length_def read_full_def)

section \<open>Completion repeats the word\<close>

lemma complete_slash_prefix: "c \<in> set (complete_slash w) \<Longrightarrow> has_prefix c w"
  by (simp add: complete_slash_def)

text \<open>
 C38: completion repeats the word. A typed command without arguments is completed to one of the
  candidates, and what was typed stays behind it as an argument: the index of the missing blank is
  taken for a position.
\<close>

theorem completion_repeats_word:
  assumes "ed_buf ed = 0x2F # bytes_of_string word" and "CHR '' '' \<notin> set word" and "word \<noteq> []"
    and "complete_slash word \<noteq> []"
  shows "\<exists>c. c \<in> set slash_commands \<and> has_prefix c word \<and>
    ed_buf (complete_tab ed) = bytes_of_string (''/'' @ c @ '' '' @ word)"
proof -
  have no: "index_byte word CHR '' '' = None"
    using assms(2) by (simp add: index_byte_None_iff)
  obtain c cs where cands: "complete_slash word = c # cs"
    using assms(4) by (cases "complete_slash word") auto
  let ?k = "(ed_tab ed + 1) mod length (c # cs)"
  define d where "d = (if cs = [] then c else (c # cs) ! ?k)"
  have "?k < length (c # cs)" by simp
  then have "(c # cs) ! ?k \<in> set (c # cs)" by (rule nth_mem)
  then have mem: "d \<in> set (complete_slash word)"
    unfolding d_def cands by simp
  have "complete_tab ed = set_buf (''/'' @ d @ '' '' @ word) (if cs = [] then ed else ed\<lparr>ed_tab := ?k\<rparr>)"
    using assms(1,3) unfolding complete_tab_def d_def by (simp add: no cands Let_def split: list.split)
  then have "ed_buf (complete_tab ed) = bytes_of_string (''/'' @ d @ '' '' @ word)"
    by (simp add: set_buf_def)
  moreover have "d \<in> set slash_commands" "has_prefix d word"
    using mem by (simp_all only: complete_slash_def set_filter mem_Collect_eq)
  ultimately show ?thesis by blast
qed

section \<open>Nothing is drawn beyond the edge\<close>

lemma truncate_from_fits: "w \<le> width \<Longrightarrow> w + printable_from e (truncate_from e w width rs) \<le> width"
  by (induction e w width rs rule: truncate_from.induct) (auto simp: add.assoc)

text \<open>
 Clipped lines fit. Whatever the line, with styles or without, what \<open>truncateDisp\<close> leaves
  takes at most the given number of cells, as the same table of widths counts them.
\<close>

theorem truncate_fits: "printable_len (truncate_disp rs width) \<le> width"
  using truncate_from_fits [of 0 width False rs] by (simp add: printable_len_def truncate_disp_def)

lemma truncate_short: "printable_len rs \<le> width \<Longrightarrow> truncate_disp rs width = rs"
proof -
  have "w + printable_from e rs \<le> width \<Longrightarrow> truncate_from e w width rs = rs" for e w
    by (induction e w width rs rule: truncate_from.induct) (auto split: if_splits)
  then show "printable_len rs \<le> width \<Longrightarrow> truncate_disp rs width = rs"
    by (simp add: printable_len_def truncate_disp_def)
qed

text \<open>\<open>compactTail\<close> counts its mark as one cell, and box drawing characters too.\<close>

lemma compact_tail_overflows:
  assumes "1 \<le> k" and "k < n"
  shows "printable_len (compact_tail (replicate n 97) (int k)) = k + 1"
proof -
  have len: "printable_from False (replicate m 97 @ rs) = m + printable_from False rs" for m rs
    by (induction m) (simp_all add: disp_rune_width_def)
  have take: "take_width w (int l) (replicate m 97) = replicate (min m (l - w)) 97" for w l m
  proof (induction m arbitrary: w)
    case (Suc m)
    then show ?case by (cases "l - w") (auto simp: cjk_width_def of_nat_diff)
  qed simp
  have "int k - 1 = int (k - 1)" using assms(1) by simp
  then show ?thesis
    using assms len [of n "[]"] take [of 0 "k - 1" n] len [of "k - 1" "[0x2026]"]
    by (auto simp: compact_tail_def printable_len_def disp_rune_width_def min_def)
qed

section \<open>Wrapping\<close>

lemma wrap_line_total:
  "0 \<le> limit \<Longrightarrow> \<exists>out. wrap_line line limit = Some out \<and> concat out = line \<and> [] \<notin> set out"
proof (induction line limit rule: wrap_line.induct)
  case (1 line limit)
  show ?case
  proof (cases "limit < int (printable_len (runes line))")
    case True
    then have "line \<noteq> []"
      using 1(2) by (auto simp: printable_len_def runes.simps)
    with 1 True obtain out where "wrap_line (drop (chop_of line limit) line) limit = Some out"
      "concat out = drop (chop_of line limit) line" "[] \<notin> set out" by blast
    with True \<open>line \<noteq> []\<close> show ?thesis
      by (auto simp: wrap_line.simps [of line] chop_of_def Let_def)
  next
    case False
    then show ?thesis by (simp add: wrap_line.simps [of line])
  qed
qed

lemma wrap_all_total:
  "0 \<le> limit \<Longrightarrow> \<exists>out. wrap_all ls limit = Some out \<and> concat out = concat ls \<and> [] \<notin> set out"
proof (induction ls)
  case (Cons l ls)
  with wrap_line_total [of limit l] obtain o1 o2 where "wrap_line l limit = Some o1" "concat o1 = l" "[] \<notin> set o1"
    "wrap_all ls limit = Some o2" "concat o2 = concat ls" "[] \<notin> set o2" by auto
  then show ?case by simp
qed simp

lemma concat_split_all: "concat (split_all x s) = filter (\<lambda>c. c \<noteq> x) s"
  by (induction s) (auto split: list.split)

lemma byte_of_char_LF: "byte_of_char c = 10 \<longleftrightarrow> c = LF"
proof
  assume "byte_of_char c = 10"
  then have "char_of_byte (byte_of_char c) = char_of_byte 10" by simp
  moreover have "char_of (10 :: nat) = LF" by code_simp
  ultimately show "c = LF" by (simp add: char_of_byte_def)
qed (simp add: byte_of_char_def)

text \<open>
 Wrapping loses nothing. With room for at least no cell, wrapping ends, without a panic and
  without an empty line, and its lines joined are the text without the line breaks.
\<close>

theorem wrapping_keeps_text:
  assumes "0 \<le> limit"
  shows "\<exists>out. wrap_lines s limit = Some out \<and> concat out = filter (\<lambda>b. b \<noteq> 10) s \<and> [] \<notin> set out"
proof -
  have "concat (split_lines s) = map byte_of_char (filter (\<lambda>c. c \<noteq> LF) (string_of_bytes s))"
    unfolding split_lines_def concat_split_all [symmetric] by (simp add: map_concat)
  also have "\<dots> = filter (\<lambda>b. b \<noteq> 10) s"
    using byte_of_char_LF [of "char_of_byte b" for b] by (simp add: filter_map comp_def)
  finally show ?thesis
    using wrap_all_total [OF assms, of "split_lines s"] by (simp add: wrap_lines_def)
qed

text \<open>The cut counts characters and takes as many bytes: three characters of three bytes each are
  cut inside of the first.\<close>

lemma wrapping_cuts_characters:
  "wrap_lines [0xE4, 0xB8, 0xAD, 0xE4, 0xB8, 0xAD, 0xE4, 0xB8, 0xAD] 4 =
    Some [[0xE4, 0xB8], [0xAD, 0xE4], [0xB8, 0xAD, 0xE4, 0xB8, 0xAD]]"
proof -
  have r: "runes [0xE4, 0xB8, 0xAD, 0xE4, 0xB8, 0xAD, 0xE4, 0xB8, 0xAD] = [0x4E2D, 0x4E2D, 0x4E2D]"
    "runes [0xAD, 0xE4, 0xB8, 0xAD, 0xE4, 0xB8, 0xAD] = [0xFFFD, 0x4E2D, 0x4E2D]"
    "runes [0xB8, 0xAD, 0xE4, 0xB8, 0xAD] = [0xFFFD, 0xFFFD, 0x4E2D]"
    by (simp_all add: runes.simps decode_rune_def cont_byte_def)
  have "split_lines [0xE4, 0xB8, 0xAD, 0xE4, 0xB8, 0xAD, 0xE4, 0xB8, 0xAD] = [[0xE4, 0xB8, 0xAD, 0xE4, 0xB8, 0xAD, 0xE4, 0xB8, 0xAD]]"
    by code_simp
  then show ?thesis
    by (simp add: wrap_lines_def wrap_line.simps r chop_of_def printable_len_def disp_rune_width_def cjk_width_def)
qed

section \<open>Release tags are compared part by part\<close>

definition tag_of :: "nat \<times> nat \<times> nat \<Rightarrow> string" where
  "tag_of v = (case v of (x, y, z) \<Rightarrow> ''v'' @ itoa x @ ''.'' @ itoa y @ ''.'' @ itoa z)"

definition older :: "nat \<times> nat \<times> nat \<Rightarrow> nat \<times> nat \<times> nat \<Rightarrow> bool" where
  "older v w = (case (v, w) of ((x, y, z), (x', y', z')) \<Rightarrow> x < x' \<or> x = x' \<and> (y < y' \<or> y = y' \<and> z < z'))"

lemma itoa_no_dot: "CHR ''.'' \<notin> set (itoa n)"
  using itoa_digits [of n] by (auto simp: list_all_iff is_digit_def)

lemma split_tag: "split_all CHR ''.'' (trim_prefix (tag_of (x, y, z)) ''v'') = [itoa x, itoa y, itoa z]"
  by (simp add: tag_of_def trim_prefix_def has_prefix_def split_all_cons split_all_no itoa_no_dot)

lemma atoi_or_zero_itoa: "int n < 2 ^ 63 \<Longrightarrow> atoi_or_zero (itoa n) = int n"
  by (simp add: atoi_or_zero_def atoi_itoa)

lemma cmp_semver_tags:
  assumes "\<And>n. n \<in> {x, y, z, x', y', z'} \<Longrightarrow> int n < 2 ^ 63"
  shows "cmp_semver (tag_of (x, y, z)) (tag_of (x', y', z')) =
    Some (if older (x, y, z) (x', y', z') then -1 else if older (x', y', z') (x, y, z) then 1 else 0)"
proof -
  have [simp]: "atoi_or_zero (itoa x) = int x" "atoi_or_zero (itoa y) = int y" "atoi_or_zero (itoa z) = int z"
    "atoi_or_zero (itoa x') = int x'" "atoi_or_zero (itoa y') = int y'" "atoi_or_zero (itoa z') = int z'"
    by (rule atoi_or_zero_itoa, rule assms, simp)+
  show ?thesis
    unfolding cmp_semver_def split_tag by (simp add: numeral_3_eq_3 older_def)
qed

text \<open>
 The update check. Among tags of the form \<open>vX.Y.Z\<close> the banner is shown exactly for a later
  release than the own one; but a tag without a dot that agrees in the first number, such as
  \<open>nightly\<close> for a version \<open>v0.Y.Z\<close>, panics, before any command runs.
\<close>

theorem update_check_compares:
  assumes "x < 2 ^ 63" "y < 2 ^ 63" "z < 2 ^ 63" "x' < 2 ^ 63" "y' < 2 ^ 63" "z' < 2 ^ 63"
    and "CHR ''.'' \<notin> set t" and "atoi_or_zero (trim_prefix t ''v'') = int x"
  shows "check_update (tag_of (x, y, z)) (Some (tag_of (x', y', z'))) =
      (if older (x, y, z) (x', y', z') then Banner else NoBanner) \<and>
    check_update (tag_of (x, y, z)) (Some t) = CheckPanics"
proof
  have small: "int n < 2 ^ 63" if "n \<in> {x, y, z, x', y', z'}" for n
    using that assms(1-6) by (elim insertE emptyE) simp_all
  have not_dev: "tag_of v \<noteq> []" "tag_of v \<noteq> ''dev''" for v
    by (simp_all add: tag_of_def split: prod.split)
  show "check_update (tag_of (x, y, z)) (Some (tag_of (x', y', z'))) =
      (if older (x, y, z) (x', y', z') then Banner else NoBanner)"
  proof (cases "tag_of (x', y', z') = tag_of (x, y, z)")
    case True
    have "cmp_semver (tag_of (x, y, z)) (tag_of (x, y, z)) = Some 0"
      using cmp_semver_tags [of x y z x y z] small [of x] small [of y] small [of z] by (auto simp: older_def)
    then have "\<not> older (x, y, z) (x', y', z')"
      using cmp_semver_tags [of x y z x' y' z', OF small] True by (auto split: if_splits)
    with True not_dev [of "(x, y, z)"] show ?thesis by (simp add: check_update_def)
  next
    case False
    then show ?thesis
      using cmp_semver_tags [of x y z x' y' z', OF small] not_dev [of "(x, y, z)"] by (simp add: check_update_def)
  qed
  have "CHR ''.'' \<in> set (tag_of (x, y, z))" by (simp add: tag_of_def)
  then have "t \<noteq> tag_of (x, y, z)" using assms(7) by auto
  moreover have "CHR ''.'' \<notin> set (trim_prefix t ''v'')"
    using assms(7) in_set_dropD unfolding trim_prefix_def by (metis)
  then have "cmp_semver (tag_of (x, y, z)) t = None"
    using assms(8) atoi_or_zero_itoa [OF small, of x]
    by (simp add: cmp_semver_def split_tag split_all_no numeral_3_eq_3)
  ultimately show "check_update (tag_of (x, y, z)) (Some t) = CheckPanics"
    using not_dev [of "(x, y, z)"] by (simp add: check_update_def)
qed

section \<open>Examples\<close>

definition demo_editor :: editor where
  "demo_editor = \<lparr>ed_buf = [], ed_tab = 0, ed_mode = 0, ed_hide = False, ed_hist = [], ed_idx = 0, ed_model = 0, ed_models = 1\<rparr>"

theorem editor_refines_characters_witness:
  "fst (read_line_raw [104, 0xE4, 0xB8, 0xAD, 127, 105, 13] demo_editor) = Entered [104, 105]"
proof -
  have "list_all stroke_ok [Key [104], Key [0xE4, 0xB8, 0xAD], Rub, Key [105]]"
    by (simp add: cont_byte_def)
  from editor_refines_characters [OF this, of "[]" demo_editor] show ?thesis by simp
qed

theorem completion_repeats_word_witness:
  "ed_buf (complete_tab (demo_editor\<lparr>ed_buf := bytes_of_string ''/val''\<rparr>)) = bytes_of_string ''/validate val''"
proof -
  have "complete_slash ''val'' = [''validate'']" by code_simp
  moreover have "\<exists>c. c \<in> set slash_commands \<and> has_prefix c ''val'' \<and>
    ed_buf (complete_tab (demo_editor\<lparr>ed_buf := bytes_of_string ''/val''\<rparr>)) = bytes_of_string (''/'' @ c @ '' '' @ ''val'')"
    by (rule completion_repeats_word) (simp_all add: calculation byte_of_char_def)
  then obtain c where c: "c \<in> set (complete_slash ''val'')"
    "ed_buf (complete_tab (demo_editor\<lparr>ed_buf := bytes_of_string ''/val''\<rparr>)) = bytes_of_string (''/'' @ c @ '' '' @ ''val'')"
    by (auto simp: complete_slash_def)
  ultimately have "c = ''validate''" by simp
  then show ?thesis using c(2) by simp
qed

theorem wrapping_keeps_text_witness: "\<exists>out. wrap_lines (bytes_of_string ''a longer line'') 5 = Some out \<and> [] \<notin> set out"
  using wrapping_keeps_text [of 5 "bytes_of_string ''a longer line''"] by auto

theorem update_check_compares_witness:
  "check_update (tag_of (0, 2, 2)) (Some (tag_of (0, 10, 0))) = Banner \<and> check_update (tag_of (0, 2, 2)) (Some ''nightly'') = CheckPanics"
proof -
  have "atoi_or_zero (trim_prefix ''nightly'' ''v'') = int 0" by code_simp
  then show ?thesis
    using update_check_compares [of 0 2 2 0 10 0 "''nightly''"] by (simp add: older_def)
qed

end
