(* ===== verification/Agent_Memory.thy ===== *)
theory Agent_Memory
  imports Agent_Tools "HOL-Library.AList" "HOL-Library.List_Lexorder" "HOL-Library.Char_ord"
begin

text \<open>
  What the agent remembers and whom it asks: the store of facts (\<open>agent/memory.go\<close>), the
  resolution of SSH hosts from arguments, memory and the human (\<open>agent/scp.go\<close>, \<open>agent/hil.go\<close>), and
  the tools on top of them (\<open>agent/tools.go\<close>, \<open>cmd/scp.go\<close>, \<open>cmd/run.go\<close>).

  The JSON texts of the store and of a host are parameters; that decoding undoes encoding is a named
  hypothesis where it is needed.
\<close>

section \<open>The store\<close>

text \<open>A Go map: nil, or the entries, in no order that matters.\<close>

record memory =
  mm_path :: string
  mm_data :: "(string \<times> string) list option"

type_synonym files = "string \<Rightarrow> string option"

text \<open>How the store is written, and what decoding a text leaves in a map: on an error, the map may
  have changed in part, and \<open>null\<close> makes it nil.\<close>

record store_codec =
  sc_encode :: "(string \<times> string) list option \<Rightarrow> string"
  sc_decode :: "string \<Rightarrow> (string \<times> string) list option \<Rightarrow> (string \<times> string) list option"

definition new_memory :: "store_codec \<Rightarrow> string \<Rightarrow> files \<Rightarrow> memory" where
  "new_memory sc path fs = \<lparr>mm_path = path, mm_data =
     (if path = [] then Some [] else case fs path of None \<Rightarrow> Some [] | Some text \<Rightarrow> sc_decode sc text (Some []))\<rparr>"

definition save_memory :: "store_codec \<Rightarrow> memory \<Rightarrow> files \<Rightarrow> files" where
  "save_memory sc m fs = (if mm_path m = [] then fs else fs(mm_path m := Some (sc_encode sc (mm_data m))))"

definition get_mem :: "memory \<Rightarrow> string \<Rightarrow> string option" where
  "get_mem m k = (case mm_data m of None \<Rightarrow> None | Some d \<Rightarrow> map_of d k)"

text \<open>\<open>Set\<close>; None is the panic of writing to a nil map.\<close>

definition set_mem :: "store_codec \<Rightarrow> string \<Rightarrow> string \<Rightarrow> memory \<Rightarrow> files \<Rightarrow> (memory \<times> files) option" where
  "set_mem sc k v m fs = (case mm_data m of
       None \<Rightarrow> None
     | Some d \<Rightarrow> let m' = m\<lparr>mm_data := Some (AList.update k v d)\<rparr> in Some (m', save_memory sc m' fs))"

definition entries :: "memory \<Rightarrow> (string \<times> string) list" where
  "entries m = (case mm_data m of None \<Rightarrow> [] | Some d \<Rightarrow> d)"

definition find_mem :: "string \<Rightarrow> memory \<Rightarrow> (string \<times> string) list" where
  "find_mem query m = (let q = to_lower query in
     filter (\<lambda>(k, v). q = [] \<or> contains (to_lower k) q \<or> contains (to_lower v) q) (entries m))"

definition ssh_prefix :: string where
  "ssh_prefix = ''ssh:host:''"

definition has_ssh_hosts :: "memory \<Rightarrow> bool" where
  "has_ssh_hosts m \<longleftrightarrow> list_ex (\<lambda>(k, v). has_prefix k ssh_prefix) (entries m)"

definition ssh_aliases :: "memory \<Rightarrow> string list" where
  "ssh_aliases m = sort (map (\<lambda>(k, v). trim_prefix k ssh_prefix) (filter (\<lambda>(k, v). has_prefix k ssh_prefix) (entries m)))"

section \<open>Hosts\<close>

record host_info =
  hi_name :: string
  hi_host :: string
  hi_port :: int
  hi_user :: string
  hi_password :: string
  hi_key :: string

definition host_port :: "host_info \<Rightarrow> int" where
  "host_port h = (if 0 < hi_port h then hi_port h else 22)"

definition merge_host :: "host_info \<Rightarrow> host_info \<Rightarrow> host_info" where
  "merge_host dst src = dst\<lparr>hi_host := (if hi_host dst = [] then hi_host src else hi_host dst),
     hi_port := (if hi_port dst = 0 then hi_port src else hi_port dst),
     hi_user := (if hi_user dst = [] then hi_user src else hi_user dst),
     hi_password := (if hi_password dst = [] then hi_password src else hi_password dst),
     hi_key := (if hi_key dst = [] then hi_key src else hi_key dst)\<rparr>"

datatype question = AskHost | AskUser | AskMethod | AskKeyPath | AskPassword

datatype resolve_err = NeedHost | NeedUser | NeedAuth

text \<open>\<open>isPasswordPrompt\<close>: which of the questions are read without an echo.\<close>

definition hidden_question :: "question \<Rightarrow> bool" where
  "hidden_question q \<longleftrightarrow> q = AskPassword \<or> q = AskMethod"

text \<open>The human; none without a terminal.\<close>

type_synonym prompter = "(question \<Rightarrow> string) option"

text \<open>The gaps that are left are asked for, one after the other; the questions that were asked.\<close>

definition ask_host :: "prompter \<Rightarrow> host_info \<Rightarrow> (resolve_err + host_info) \<times> question list" where
  "ask_host ask h =
     (if hi_host h \<noteq> [] then (Inr h, [])
      else case ask of None \<Rightarrow> (Inl NeedHost, []) | Some f \<Rightarrow> (Inr (h\<lparr>hi_host := f AskHost\<rparr>), [AskHost]))"

definition ask_user :: "prompter \<Rightarrow> host_info \<Rightarrow> (resolve_err + host_info) \<times> question list" where
  "ask_user ask h =
     (if hi_user h \<noteq> [] then (Inr h, [])
      else case ask of None \<Rightarrow> (Inl NeedUser, []) | Some f \<Rightarrow> (Inr (h\<lparr>hi_user := f AskUser\<rparr>), [AskUser]))"

definition ask_auth :: "prompter \<Rightarrow> host_info \<Rightarrow> (resolve_err + host_info) \<times> question list" where
  "ask_auth ask h =
     (if hi_password h \<noteq> [] \<or> hi_key h \<noteq> [] then (Inr h, [])
      else case ask of
        None \<Rightarrow> (Inl NeedAuth, [])
      | Some f \<Rightarrow>
        if trim_space (f AskMethod) = ''2'' then (Inr (h\<lparr>hi_key := f AskKeyPath\<rparr>), [AskMethod, AskKeyPath])
        else (Inr (h\<lparr>hi_password := f AskPassword\<rparr>), [AskMethod, AskPassword]))"

definition then_ask :: "(resolve_err + host_info) \<times> question list \<Rightarrow> (host_info \<Rightarrow> (resolve_err + host_info) \<times> question list)
    \<Rightarrow> (resolve_err + host_info) \<times> question list" where
  "then_ask r f = (case r of (Inl e, qs) \<Rightarrow> (Inl e, qs) | (Inr h, qs) \<Rightarrow> (case f h of (r', qs') \<Rightarrow> (r', qs @ qs')))"

record host_codec =
  hc_encode :: "host_info \<Rightarrow> string"
  hc_decode :: "string \<Rightarrow> host_info option"

text \<open>\<open>ResolveHost\<close> for the arguments in \<open>h\<close>, whose name is the alias; None is the panic of \<open>Set\<close>.\<close>

definition recalled :: "host_codec \<Rightarrow> memory option \<Rightarrow> host_info \<Rightarrow> host_info" where
  "recalled hc mem h = (case mem of
       None \<Rightarrow> h
     | Some m \<Rightarrow>
       if hi_name h = [] then h
       else case get_mem m (ssh_prefix @ hi_name h) of
         None \<Rightarrow> h
       | Some raw \<Rightarrow> (case hc_decode hc raw of None \<Rightarrow> h | Some old \<Rightarrow> merge_host h old))"

definition resolve_host :: "store_codec \<Rightarrow> host_codec \<Rightarrow> prompter \<Rightarrow> host_info \<Rightarrow> memory option \<Rightarrow> files \<Rightarrow>
    ((resolve_err + host_info) \<times> question list \<times> memory option \<times> files) option" where
  "resolve_host sc hc ask h mem fs =
     (case then_ask (then_ask (ask_host ask (recalled hc mem h)) (ask_user ask)) (ask_auth ask) of
        (Inl e, qs) \<Rightarrow> Some (Inl e, qs, mem, fs)
      | (Inr h', qs) \<Rightarrow>
        (case mem of
           Some m \<Rightarrow>
           if hi_name h' \<noteq> [] then
             (case set_mem sc (ssh_prefix @ hi_name h') (hc_encode hc h') m fs of
                None \<Rightarrow> None | Some (m', fs') \<Rightarrow> Some (Inr h', qs, Some m', fs'))
           else Some (Inr h', qs, mem, fs)
         | None \<Rightarrow> Some (Inr h', qs, mem, fs)))"

section \<open>Connections\<close>

datatype auth_method = KeyAuth string | PasswordAuth string

datatype ssh_err = NoKeyFile | BadKey | NoAuth | BadKnownHosts | HostKeyRejected

text \<open>\<open>authMethods\<close>, given what reading and parsing the key file leads to.\<close>

definition auth_methods :: "(string \<Rightarrow> ssh_err + string) \<Rightarrow> host_info \<Rightarrow> ssh_err + auth_method list" where
  "auth_methods load_key h =
     (case (if hi_key h = [] then Inr [] else case load_key (hi_key h) of Inl e \<Rightarrow> Inl e | Inr k \<Rightarrow> Inr [KeyAuth k]) of
        Inl e \<Rightarrow> Inl e
      | Inr ms \<Rightarrow>
        let ms' = ms @ (if hi_password h = [] then [] else [PasswordAuth (hi_password h)])
        in if ms' = [] then Inl NoAuth else Inr ms')"

text \<open>\<open>hostKeyCallback\<close>: no file, a file that does not parse, or its verdict on host and key.\<close>

datatype known_hosts = NoFile | Unreadable | Known "string \<Rightarrow> string \<Rightarrow> bool"

definition host_key_check :: "known_hosts \<Rightarrow> string \<Rightarrow> string \<Rightarrow> ssh_err + unit" where
  "host_key_check kn addr key = (case kn of
       NoFile \<Rightarrow> Inr ()
     | Unreadable \<Rightarrow> Inl BadKnownHosts
     | Known ok \<Rightarrow> if ok addr key then Inr () else Inl HostKeyRejected)"

section \<open>Tools\<close>

datatype copy_err = BadAction | NeedPaths | NeedAlias

definition file_copy_args :: "args \<Rightarrow> copy_err + host_info" where
  "file_copy_args m =
     (if get_string m ''action'' \<noteq> ''upload'' \<and> get_string m ''action'' \<noteq> ''download'' then Inl BadAction
      else if get_string m ''src'' = [] \<or> get_string m ''dst'' = [] then Inl NeedPaths
      else if get_string m ''alias'' = [] \<and> get_string m ''host'' = [] then Inl NeedAlias
      else Inr \<lparr>hi_name = get_string m ''alias'', hi_host = get_string m ''host'', hi_port = to_int (arg m ''port''),
        hi_user = get_string m ''user'', hi_password = get_string m ''password'', hi_key = get_string m ''keyPath''\<rparr>)"

definition remember_tool :: "store_codec \<Rightarrow> args \<Rightarrow> memory \<Rightarrow> files \<Rightarrow> (memory \<times> files) option" where
  "remember_tool sc m mem fs =
     (if get_string m ''key'' = [] then Some (mem, fs) else set_mem sc (get_string m ''key'') (get_string m ''value'') mem fs)"

definition recall_tool :: "args \<Rightarrow> memory \<Rightarrow> (string \<times> string) list" where
  "recall_tool m mem = find_mem (get_string m ''query'') mem"

text \<open>\<open>ask_human\<close>: the question that is put, whose labels are in Chinese in the source, and what becomes
  of the answer.\<close>

definition human_question :: "args \<Rightarrow> string" where
  "human_question m =
     (let q = get_string m ''question''; cs = filter (\<lambda>s. s \<noteq> []) (concat (map (\<lambda>j. case j of JStr s \<Rightarrow> [s] | _ \<Rightarrow> [])
        (case arg m ''choices'' of JArr js \<Rightarrow> js | _ \<Rightarrow> [])))
      in if cs = [] then q @ LF # ''  > ''
         else q @ LF # ''  choices: '' @ concat (map (\<lambda>(i, s). (if i = 0 then [] else '' / '') @ s) (enumerate 0 cs)) @ LF # ''  > '')"

datatype human_reply = NoQuestion | NoHuman | NoAnswerGiven | Answered string string

definition ask_human :: "(string \<Rightarrow> string) option \<Rightarrow> args \<Rightarrow> human_reply" where
  "ask_human ask m =
     (if get_string m ''question'' = [] then NoQuestion
      else case ask of
        None \<Rightarrow> NoHuman
      | Some f \<Rightarrow> let a = f (human_question m) in if trim_space a = [] then NoAnswerGiven else Answered (get_string m ''question'') a)"

section \<open>What is remembered is not asked for again\<close>

text \<open>A host to which one can log in.\<close>

definition host_complete :: "host_info \<Rightarrow> bool" where
  "host_complete h \<longleftrightarrow> hi_host h \<noteq> [] \<and> hi_user h \<noteq> [] \<and> (hi_password h \<noteq> [] \<or> hi_key h \<noteq> [])"

lemma complete_asks_nothing:
  "host_complete h \<Longrightarrow> then_ask (then_ask (ask_host ask h) (ask_user ask)) (ask_auth ask) = (Inr h, [])"
  by (auto simp: host_complete_def then_ask_def ask_host_def ask_user_def ask_auth_def)

lemma ask_name:
  "fst (then_ask (then_ask (ask_host ask h) (ask_user ask)) (ask_auth ask)) = Inr h' \<Longrightarrow> hi_name h' = hi_name h"
  by (auto simp: then_ask_def ask_host_def ask_user_def ask_auth_def split: if_splits option.splits)

lemma recalled_name [simp]: "hi_name (recalled hc mem h) = hi_name h"
  by (simp add: recalled_def merge_host_def split: option.split)

lemma get_set_mem: "set_mem sc k v m fs = Some (m', fs') \<Longrightarrow> get_mem m' k' = (if k' = k then Some v else get_mem m k')"
  by (auto simp: set_mem_def get_mem_def update_conv Let_def split: option.splits)

definition only_alias :: "string \<Rightarrow> host_info" where
  "only_alias a = \<lparr>hi_name = a, hi_host = [], hi_port = 0, hi_user = [], hi_password = [], hi_key = []\<rparr>"

lemma merge_only_alias: "hi_name h = a \<Longrightarrow> merge_host (only_alias a) h = h"
  by (cases h) (simp add: merge_host_def only_alias_def)

text \<open>
 C39: a remembered host is not asked for again. After a host has been resolved under an alias,
  from arguments, memory and answers, the alias alone gives the same host, without a question and
  without a terminal.
\<close>

theorem remembered_not_asked:
  assumes "resolve_host sc hc ask h (Some m) fs = Some (Inr h', qs, Some m', fs')"
    and "hi_name h \<noteq> []" and "host_complete h'"
    and json: "hc_decode hc (hc_encode hc h') = Some h'"
  shows "\<exists>m'' fs''. resolve_host sc hc None (only_alias (hi_name h)) (Some m') fs' = Some (Inr h', [], Some m'', fs'')"
proof -
  let ?ask = "then_ask (then_ask (ask_host ask (recalled hc (Some m) h)) (ask_user ask)) (ask_auth ask)"
  obtain r qs' where ask: "?ask = (r, qs')" by fastforce
  then obtain h1 where r: "r = Inr h1"
    using assms(1) by (cases r) (simp_all add: resolve_host_def)
  then have name: "hi_name h1 = hi_name h"
    using ask_name [of ask "recalled hc (Some m) h" h1] ask by simp
  then have "h1 = h'" and set: "set_mem sc (ssh_prefix @ hi_name h) (hc_encode hc h') m fs = Some (m', fs')"
    using assms(1,2) ask r by (auto simp: resolve_host_def split: option.splits)
  with name have name': "hi_name h' = hi_name h" by simp
  have "recalled hc (Some m') (only_alias (hi_name h)) = h'"
    using get_set_mem [OF set] assms(2) json merge_only_alias [OF name'] by (simp add: recalled_def only_alias_def)
  then have "then_ask (then_ask (ask_host None (recalled hc (Some m') (only_alias (hi_name h)))) (ask_user None)) (ask_auth None) = (Inr h', [])"
    using complete_asks_nothing [OF assms(3)] by simp
  moreover obtain m'' fs'' where "set_mem sc (ssh_prefix @ hi_name h) (hc_encode hc h') m' fs' = Some (m'', fs'')"
    using set by (auto simp: set_mem_def Let_def split: option.splits)
  ultimately show ?thesis
    using assms(2) name' by (simp add: resolve_host_def)
qed

text \<open>Arguments that are given win over what is remembered and are not asked for.\<close>

lemma arguments_win:
  assumes "resolve_host sc hc ask h mem fs = Some (Inr h', qs, rest)"
  shows "(hi_host h \<noteq> [] \<longrightarrow> hi_host h' = hi_host h \<and> AskHost \<notin> set qs) \<and>
    (hi_user h \<noteq> [] \<longrightarrow> hi_user h' = hi_user h \<and> AskUser \<notin> set qs) \<and>
    (hi_password h \<noteq> [] \<longrightarrow> hi_password h' = hi_password h \<and> AskPassword \<notin> set qs)"
proof -
  let ?r = "recalled hc mem h"
  have keep: "hi_host h \<noteq> [] \<longrightarrow> hi_host ?r = hi_host h" "hi_user h \<noteq> [] \<longrightarrow> hi_user ?r = hi_user h"
    "hi_password h \<noteq> [] \<longrightarrow> hi_password ?r = hi_password h"
    by (auto simp: recalled_def merge_host_def split: option.split)
  have "then_ask (then_ask (ask_host ask ?r) (ask_user ask)) (ask_auth ask) = (Inr h', qs)"
    using assms by (auto simp: resolve_host_def split: prod.splits sum.splits option.splits if_splits)
  with keep show ?thesis
    by (auto simp: then_ask_def ask_host_def ask_user_def ask_auth_def split: if_splits option.splits)
qed

text \<open>A prompter that answers nothing, as the silent one, lets an unusable host pass and stores it.\<close>

lemma silent_host_stored:
  assumes "get_mem m (ssh_prefix @ a) = None" and "a \<noteq> []" and "mm_data m = Some d"
  shows "\<exists>m' fs'. resolve_host sc hc (Some (\<lambda>q. [])) (only_alias a) (Some m) fs =
      Some (Inr (only_alias a), [AskHost, AskUser, AskMethod, AskPassword], Some m', fs') \<and>
    get_mem m' (ssh_prefix @ a) = Some (hc_encode hc (only_alias a))"
  using assms by (auto simp: resolve_host_def recalled_def then_ask_def ask_host_def ask_user_def ask_auth_def only_alias_def
    set_mem_def get_mem_def update_conv trim_space_def trim_right_def Let_def)

section \<open>Persistence\<close>

text \<open>
 Facts survive. What has been stored is there again in a store that is opened on the same
  file; but if the file holds \<open>null\<close>, storing anything panics.
\<close>

theorem facts_survive:
  assumes "mm_path m \<noteq> []" and "mm_data m = Some d"
    and json: "\<And>d. sc_decode sc (sc_encode sc (Some d)) (Some []) = Some d"
    and null: "sc_decode sc ''null'' (Some []) = None"
  shows "(\<exists>m' fs'. set_mem sc k v m fs = Some (m', fs') \<and> new_memory sc (mm_path m) fs' = m' \<and>
      get_mem (new_memory sc (mm_path m) fs') k = Some v \<and>
      (\<forall>k'. k' \<noteq> k \<longrightarrow> get_mem (new_memory sc (mm_path m) fs') k' = get_mem m k')) \<and>
    set_mem sc k v (new_memory sc (mm_path m) (fs(mm_path m \<mapsto> ''null''))) fs = None"
proof -
  let ?m = "m\<lparr>mm_data := Some (AList.update k v d)\<rparr>" and ?fs = "fs(mm_path m \<mapsto> sc_encode sc (Some (AList.update k v d)))"
  have set: "set_mem sc k v m fs = Some (?m, ?fs)"
    using assms(1,2) by (simp add: set_mem_def save_memory_def Let_def)
  have new: "new_memory sc (mm_path m) ?fs = ?m"
    using assms(1,2) json by (cases m) (simp add: new_memory_def)
  show ?thesis
    using get_set_mem [OF set] set new null assms(1) by (simp add: new_memory_def [of sc _ "fs(_ \<mapsto> ''null'')"] set_mem_def)
qed

text \<open>What \<open>recall\<close> shows without a query is the whole store, the passwords of the hosts included.\<close>

lemma recall_everything: "recall_tool [] mem = entries mem"
  by (simp add: recall_tool_def find_mem_def get_string_def arg_def)

text \<open>Without a file of known hosts any key of a host is accepted; with one, a host that is not in
  it is rejected: there is no question in either case.\<close>

lemma first_use_unverified: "host_key_check NoFile addr key = Inr ()"
  by (simp add: host_key_check_def)

lemma password_login_possible:
  "hi_key h = [] \<Longrightarrow> hi_password h \<noteq> [] \<Longrightarrow> auth_methods load_key h = Inr [PasswordAuth (hi_password h)]"
  by (simp add: auth_methods_def)

section \<open>Examples\<close>

definition demo_host :: host_info where
  "demo_host = \<lparr>hi_name = ''prod'', hi_host = ''10.0.0.5'', hi_port = 0, hi_user = ''root'', hi_password = ''secret'', hi_key = []\<rparr>"

definition demo_host_codec :: host_codec where
  "demo_host_codec = \<lparr>hc_encode = \<lambda>h. ''json'', hc_decode = \<lambda>s. if s = ''json'' then Some demo_host else None\<rparr>"

definition demo_answers :: "question \<Rightarrow> string" where
  "demo_answers q = (case q of AskHost \<Rightarrow> ''10.0.0.5'' | AskUser \<Rightarrow> ''root'' | AskMethod \<Rightarrow> [] | AskKeyPath \<Rightarrow> [] | AskPassword \<Rightarrow> ''secret'')"

text \<open>A codec that writes each entry with the length of its parts in front.\<close>

fun demo_text :: "(string \<times> string) list \<Rightarrow> string" where
  "demo_text [] = []"
| "demo_text ((k, v) # r) = replicate (length k) CHR ''k'' @ ''.'' @ k @ replicate (length v) CHR ''v'' @ ''.'' @ v @ demo_text r"

fun demo_part :: "nat \<Rightarrow> char \<Rightarrow> string \<Rightarrow> string \<times> string" where
  "demo_part n x [] = ([], [])"
| "demo_part n x (c # s) = (if c = x then demo_part (n + 1) x s else (take n s, drop n s))"

lemma demo_part_append: "x \<noteq> CHR ''.'' \<Longrightarrow> demo_part n x (replicate m x @ CHR ''.'' # w @ s) = (take (n + m) (w @ s), drop (n + m) (w @ s))"
  by (induction m arbitrary: n) simp_all

fun demo_parse :: "nat \<Rightarrow> string \<Rightarrow> (string \<times> string) list" where
  "demo_parse 0 s = []"
| "demo_parse (Suc n) s = (if s = [] then [] else
     let (k, s1) = demo_part 0 CHR ''k'' s; (v, s2) = demo_part 0 CHR ''v'' s1 in (k, v) # demo_parse n s2)"

lemma demo_parse_text: "length d \<le> n \<Longrightarrow> demo_parse n (demo_text d) = d"
proof (induction d arbitrary: n)
  case Nil
  then show ?case by (cases n) simp_all
next
  case (Cons e d)
  then show ?case by (cases n; cases e) (simp_all add: demo_part_append [of _ 0, simplified])
qed

definition demo_store_codec :: store_codec where
  "demo_store_codec = \<lparr>sc_encode = \<lambda>d. case d of None \<Rightarrow> ''null'' | Some d \<Rightarrow> CHR ''['' # demo_text d,
     sc_decode = \<lambda>s old. if s = ''null'' then None else Some (demo_parse (length s) (tl s))\<rparr>"

lemma length_demo_text: "length d \<le> length (demo_text d)"
  by (induction d rule: demo_text.induct) auto

theorem remembered_not_asked_witness:
  "\<exists>m fs. resolve_host demo_store_codec demo_host_codec (Some demo_answers) (only_alias ''prod'') (Some \<lparr>mm_path = [], mm_data = Some []\<rparr>)
      Map.empty = Some (Inr demo_host, [AskHost, AskUser, AskMethod, AskPassword], Some m, fs) \<and>
    (\<exists>m' fs'. resolve_host demo_store_codec demo_host_codec None (only_alias ''prod'') (Some m) fs = Some (Inr demo_host, [], Some m', fs'))"
proof -
  have first: "resolve_host demo_store_codec demo_host_codec (Some demo_answers) (only_alias ''prod'') (Some \<lparr>mm_path = [], mm_data = Some []\<rparr>)
      Map.empty = Some (Inr demo_host, [AskHost, AskUser, AskMethod, AskPassword],
        Some \<lparr>mm_path = [], mm_data = Some [(''ssh:host:prod'', ''json'')]\<rparr>, Map.empty)"
    by (simp add: resolve_host_def recalled_def then_ask_def ask_host_def ask_user_def ask_auth_def only_alias_def demo_host_def
      set_mem_def get_mem_def save_memory_def trim_space_def trim_right_def Let_def demo_answers_def demo_host_codec_def ssh_prefix_def)
  have "host_complete demo_host" "hc_decode demo_host_codec (hc_encode demo_host_codec demo_host) = Some demo_host"
    by (simp_all add: host_complete_def demo_host_def demo_host_codec_def)
  from remembered_not_asked [OF first _ this] first show ?thesis by (auto simp: only_alias_def)
qed

theorem facts_survive_witness:
  "get_mem (new_memory demo_store_codec ''m.json'' (snd (the (set_mem demo_store_codec ''user:pref'' ''socks''
     \<lparr>mm_path = ''m.json'', mm_data = Some []\<rparr> Map.empty)))) ''user:pref'' = Some ''socks''"
proof -
  have json: "sc_decode demo_store_codec (sc_encode demo_store_codec (Some d)) (Some []) = Some d" for d
    using demo_parse_text [of d "Suc (length (demo_text d))"] length_demo_text [of d] by (simp add: demo_store_codec_def)
  have null: "sc_decode demo_store_codec ''null'' (Some []) = None" by (simp add: demo_store_codec_def)
  show ?thesis
    using facts_survive [of "\<lparr>mm_path = ''m.json'', mm_data = Some []\<rparr>" "[]" demo_store_codec "''user:pref''" "''socks''" Map.empty,
      OF _ _ json null] by auto
qed

end
