(* ===== verification/Agent_Think.thy ===== *)
theory Agent_Think
  imports Agent_Chat Agent_Line
begin

text \<open>
  The terminal while the agent waits for the model (\<open>thinkLoop\<close> in \<open>agent/tui.go\<close>): a goroutine reads keys into a queue of
  its own, may interrupt the request, and hands what was typed back to the main loop. When the request ends first, the goroutine
  is still in its read: it takes the next key before it sees that it should stop. A read of the terminal is served in the order
  in which the readers came.
\<close>

section \<open>A key\<close>

datatype think_key = ThinkMore bytes | ThinkStop bytes | ThinkBlocked bytes | ThinkGone

text \<open>The first byte, the bytes behind it and the queue; the key and what is left of the input. After Enter up to 128 further
  bytes are read and dropped; the read waits when there are none.\<close>

definition think_on_key :: "bytes list \<Rightarrow> byte \<Rightarrow> bytes \<Rightarrow> bytes \<Rightarrow> think_key \<times> bytes" where
  "think_on_key history b rest buf =
     (if b = 13 \<or> b = 10 then (if rest = [] then (ThinkBlocked buf, []) else (ThinkStop buf, drop 128 rest))
      else if b = 3 \<or> b = 4 then (ThinkStop buf, rest)
      else if b = 27 then
        (let ((final, kind), rest') = esc_suffix rest in
         (case kind of
            EscCr \<Rightarrow> ThinkMore (buf @ [10])
          | Csi \<Rightarrow> if final = 0x41 then ThinkMore (case history of h # _ \<Rightarrow> h | [] \<Rightarrow> buf)
                    else if final = 0x42 then ThinkMore [] else ThinkMore buf
          | Alt \<Rightarrow> ThinkMore (buf @ [final])
          | Bare \<Rightarrow> ThinkStop buf, rest'))
      else if b = 127 \<or> b = 8 then (ThinkMore (take (length buf - last_rune_size buf) buf), rest)
      else if 32 \<le> b then
        (case read_rune (b # rest) of None \<Rightarrow> (ThinkGone, []) | Some (r, rest') \<Rightarrow> (ThinkMore (buf @ r), rest'))
      else (ThinkMore buf, rest))"

lemma think_on_key_shorter: "length (snd (think_on_key history b rest buf)) \<le> length rest"
  using esc_suffix_shorter [of rest] read_rune_shorter [of "b # rest"]
  by (cases "esc_suffix rest") (auto simp: think_on_key_def split: option.split)

lemma think_on_key_rest: "(k, rest') = think_on_key history b rest buf \<Longrightarrow> length rest' < Suc (length rest)"
  using think_on_key_shorter [of history b rest buf] by (cases "think_on_key history b rest buf") auto

section \<open>The loop\<close>

text \<open>What the goroutine is doing when the keys so far are read: listening with a queue, having stopped the request, waiting in
  the read behind Enter, or gone.\<close>

datatype think_input = Listening bytes | Stopped bytes bytes | Waiting bytes | Gone

function think_keys :: "bytes list \<Rightarrow> bytes \<Rightarrow> bytes \<Rightarrow> think_input" where
  "think_keys history buf inp = (case inp of
       [] \<Rightarrow> Listening buf
     | b # rest \<Rightarrow> (case think_on_key history b rest buf of
         (ThinkMore buf', rest') \<Rightarrow> think_keys history buf' rest'
       | (ThinkStop buf', rest') \<Rightarrow> Stopped buf' rest'
       | (ThinkBlocked buf', rest') \<Rightarrow> Waiting buf'
       | (ThinkGone, rest') \<Rightarrow> Gone))"
  by pat_completeness auto
termination
  by (relation "measure (\<lambda>(h, buf, inp). length inp)") (auto dest: think_on_key_rest)

declare think_keys.simps [simp del]

section \<open>The result\<close>

datatype request_end = RequestCanceled | RequestDone "llm_err + message"

datatype think_end = ThinkInterrupted bytes | ThinkDone "llm_err + message"

definition think_result :: "think_input \<Rightarrow> request_end \<Rightarrow> think_end" where
  "think_result ti e = (case ti of
       Stopped (x # xs) rest \<Rightarrow> ThinkInterrupted (x # xs)
     | _ \<Rightarrow> (case e of RequestCanceled \<Rightarrow> ThinkInterrupted [] | RequestDone r \<Rightarrow> ThinkDone r))"

definition think_loop :: "bool \<Rightarrow> bytes list \<Rightarrow> bytes \<Rightarrow> (bool \<Rightarrow> request_end) \<Rightarrow> think_end" where
  "think_loop raw history inp request =
     (if \<not> raw then (case request False of RequestCanceled \<Rightarrow> ThinkInterrupted [] | RequestDone r \<Rightarrow> ThinkDone r)
      else let ti = think_keys history [] inp
        in think_result ti (request (case ti of Stopped b r \<Rightarrow> True | _ \<Rightarrow> False)))"

text \<open>What is left for the next line of the bytes that come after the request ended.\<close>

definition next_line_input :: "bytes list \<Rightarrow> think_input \<Rightarrow> bytes \<Rightarrow> bytes" where
  "next_line_input history ti later = (case ti of
       Stopped buf rest \<Rightarrow> rest @ later
     | Gone \<Rightarrow> later
     | Waiting buf \<Rightarrow> drop 128 later
     | Listening buf \<Rightarrow> (case later of [] \<Rightarrow> [] | b # rest \<Rightarrow> snd (think_on_key history b rest buf)))"

section \<open>Facts\<close>

definition printable_ascii :: "byte \<Rightarrow> bool" where
  "printable_ascii b \<longleftrightarrow> 32 \<le> b \<and> b < 127"

lemma ascii_key: "printable_ascii b \<Longrightarrow> think_on_key history b rest buf = (ThinkMore (buf @ [b]), rest)"
  by (auto simp: printable_ascii_def think_on_key_def read_rune_def lead_length_def read_full_def byte_order)

lemma think_keys_ascii: "list_all printable_ascii w \<Longrightarrow> think_keys history buf (w @ inp) = think_keys history (buf @ w) inp"
proof (induction w arbitrary: buf)
  case (Cons b w)
  then show ?case by (subst think_keys.simps) (simp add: ascii_key)
qed simp

lemma think_keys_typed: "list_all printable_ascii w \<Longrightarrow> think_keys history [] (w @ inp) = think_keys history w inp"
  by (simp add: think_keys_ascii)

lemma think_keys_stop: "b = 3 \<or> b = 4 \<Longrightarrow> think_keys history buf (b # rest) = Stopped buf rest"
  by (subst think_keys.simps) (auto simp: think_on_key_def)

lemma think_keys_enter: "b = 13 \<or> b = 10 \<Longrightarrow>
    think_keys history buf (b # rest) = (if rest = [] then Waiting buf else Stopped buf (drop 128 rest))"
  by (subst think_keys.simps) (auto simp: think_on_key_def)

lemma think_keys_end: "think_keys history buf [] = Listening buf"
  by (subst think_keys.simps) simp

text \<open> An interrupt.\<close>

lemma interrupt_returns_text:
  assumes "list_all printable_ascii w" "b = 3 \<or> b = 4"
  shows "think_loop True history (w @ b # rest) request =
    (if w \<noteq> [] then ThinkInterrupted w
     else case request True of RequestCanceled \<Rightarrow> ThinkInterrupted [] | RequestDone r \<Rightarrow> ThinkDone r) \<and>
    next_line_input history (think_keys history [] (w @ b # rest)) later = rest @ later"
proof -
  have t: "think_keys history [] (w @ b # rest) = Stopped w rest"
    using assms by (simp add: think_keys_typed think_keys_stop)
  show ?thesis by (simp add: think_loop_def t think_result_def next_line_input_def split: list.split)
qed

lemma interrupt_returns_text_witness: "think_loop True [] ([104, 105] @ 3 # []) (\<lambda>c. RequestCanceled) = ThinkInterrupted [104, 105]"
  using interrupt_returns_text [of "[104, 105]" 3 "[]" "[]" "\<lambda>c. RequestCanceled"] by (simp add: printable_ascii_def byte_order)

text \<open> Enter.\<close>

lemma enter_waits_for_key:
  assumes "list_all printable_ascii w" "w \<noteq> []" "x \<noteq> []" "length x \<le> 128"
  shows "think_loop True history (w @ [13]) request = (case request False of RequestCanceled \<Rightarrow> ThinkInterrupted [] | RequestDone r \<Rightarrow> ThinkDone r) \<and>
    think_loop True history (w @ 13 # x) request = ThinkInterrupted w \<and>
    next_line_input history (think_keys history [] (w @ 13 # x)) later = later"
proof -
  have t: "think_keys history [] (w @ 13 # y) = (if y = [] then Waiting w else Stopped w (drop 128 y))" for y
    using assms(1) by (simp add: think_keys_typed think_keys_enter)
  have r: "think_result (Stopped w rest) e = ThinkInterrupted w" for rest e
    using assms(2) by (cases w) (simp_all add: think_result_def)
  show ?thesis using assms(3,4) by (simp add: think_loop_def t r next_line_input_def) (simp add: think_result_def)
qed

lemma enter_waits_for_key_witness:
  "think_loop True [] ([104, 105] @ [13]) (\<lambda>c. if c then RequestCanceled else RequestDone (Inl NoKey)) = ThinkDone (Inl NoKey)"
  using enter_waits_for_key [of "[104, 105]" "[0]" "[]" "\<lambda>c. if c then RequestCanceled else RequestDone (Inl NoKey)" "[]"]
  by (simp add: printable_ascii_def byte_order)

text \<open> The answer comes first.\<close>

lemma typed_text_lost:
  assumes "list_all printable_ascii w" "printable_ascii b"
  shows "think_loop True history w request = (case request False of RequestCanceled \<Rightarrow> ThinkInterrupted [] | RequestDone r \<Rightarrow> ThinkDone r) \<and>
    next_line_input history (think_keys history [] w) (b # later) = later"
proof -
  have t: "think_keys history [] w = Listening w"
    using think_keys_typed [OF assms(1), of history "[]"] by (simp add: think_keys_end)
  show ?thesis using assms(2) by (simp add: think_loop_def t think_result_def next_line_input_def ascii_key)
qed

lemma typed_text_lost_witness:
  "next_line_input [] (think_keys [] [] [104]) ([47] @ [113]) = [113]"
  using typed_text_lost [of "[104]" 47 "[]" "\<lambda>c. RequestCanceled" "[113]"] by (simp add: printable_ascii_def byte_order)

text \<open>The key for the last message brings the first one.\<close>

lemma up_brings_first: "think_keys (h # hs) buf [27, 0x5B, 0x41] = Listening h"
  by (subst think_keys.simps) (simp add: think_on_key_def esc_suffix_def think_keys_end byte_order)

end
