(* ===== verification/Authority.thy ===== *)
theory Authority
  imports Go_Net
begin

text \<open>
  The certificate authority of the interception (\<open>mitm/ca.go\<close>): how it is made, saved and loaded, the template of a
  certificate for a host, and the cache of certificates. Keys, signatures, the encodings of certificates and keys and the
  file system are parameters; a key is known by a number. Times are seconds.
\<close>

section \<open>Certificates\<close>

datatype public_key = RsaKey nat | EcdsaKey | OtherKey

record cert =
  ct_serial :: nat
  ct_name :: string
  ct_org :: string
  ct_from :: int
  ct_until :: int
  ct_dns :: "string list"
  ct_ips :: "ip list"
  ct_is_ca :: bool
  ct_sign_certs :: bool
  ct_server_auth :: bool
  ct_key :: public_key

type_synonym priv_key = nat

record ca_cert =
  ca_cert :: cert
  ca_key :: priv_key
  ca_pem_cert :: bytes
  ca_pem_key :: bytes

datatype ca_err =
    GenerateKey string | SerialErr string | CreateCa string | ParseCa string | MarshalKey string | ReadCert string | ReadKey string
  | DecodeCertPem | ParseCert string | DecodeKeyPem | ParseKey string | LeafKey string | CreateLeaf string | ParseLeaf string
  | SignFor string ca_err

text \<open>
  \<open>cv_create template parent key\<close> signs, \<open>cv_parse\<close> reads a certificate; a PEM block has a type and its bytes.
\<close>

record crypto_env =
  cv_keygen :: "string + priv_key"
  cv_serial :: "string + nat"
  cv_create :: "cert \<Rightarrow> cert \<Rightarrow> priv_key \<Rightarrow> string + bytes"
  cv_parse :: "bytes \<Rightarrow> string + cert"
  cv_marshal_key :: "priv_key \<Rightarrow> string + bytes"
  cv_parse_ec :: "bytes \<Rightarrow> string + priv_key"
  cv_parse_pkcs8 :: "bytes \<Rightarrow> string + priv_key"
  cv_pem_encode :: "string \<Rightarrow> bytes \<Rightarrow> bytes"
  cv_pem_decode :: "bytes \<Rightarrow> (string \<times> bytes) option"

section \<open>The authority\<close>

definition ca_template :: "int \<Rightarrow> nat \<Rightarrow> string \<Rightarrow> cert" where
  "ca_template now serial name =
     \<lparr>ct_serial = serial, ct_name = name @ '' CA'', ct_org = name, ct_from = now - 3600, ct_until = now + 10 * 365 * 24 * 3600,
      ct_dns = [], ct_ips = [], ct_is_ca = True, ct_sign_certs = True, ct_server_auth = False, ct_key = EcdsaKey\<rparr>"

definition generate_ca :: "crypto_env \<Rightarrow> int \<Rightarrow> string \<Rightarrow> ca_err + ca_cert" where
  "generate_ca env now name = (case cv_keygen env of
       Inl e \<Rightarrow> Inl (GenerateKey e)
     | Inr key \<Rightarrow> (case cv_serial env of
         Inl e \<Rightarrow> Inl (SerialErr e)
       | Inr serial \<Rightarrow> let t = ca_template now serial name in
           (case cv_create env t t key of
             Inl e \<Rightarrow> Inl (CreateCa e)
           | Inr der \<Rightarrow> (case cv_parse env der of
               Inl e \<Rightarrow> Inl (ParseCa e)
             | Inr c \<Rightarrow> (case cv_marshal_key env key of
                 Inl e \<Rightarrow> Inl (MarshalKey e)
               | Inr kb \<Rightarrow> Inr \<lparr>ca_cert = c, ca_key = key, ca_pem_cert = cv_pem_encode env ''CERTIFICATE'' der,
                   ca_pem_key = cv_pem_encode env ''EC PRIVATE KEY'' kb\<rparr>)))))"

text \<open>Files are a map from paths to their bytes; \<open>read_err\<close> names the failure of a read.\<close>

type_synonym cert_disk = "string \<rightharpoonup> bytes"

definition load_ca :: "crypto_env \<Rightarrow> string \<Rightarrow> cert_disk \<Rightarrow> string \<Rightarrow> string \<Rightarrow> ca_err + ca_cert" where
  "load_ca env read_err cert_disk cert_path key_path = (case cert_disk cert_path of
       None \<Rightarrow> Inl (ReadCert read_err)
     | Some cert_pem \<Rightarrow> (case cert_disk key_path of
         None \<Rightarrow> Inl (ReadKey read_err)
       | Some key_pem \<Rightarrow> (case cv_pem_decode env cert_pem of
           None \<Rightarrow> Inl DecodeCertPem
         | Some (ty, der) \<Rightarrow> (case cv_parse env der of
             Inl e \<Rightarrow> Inl (ParseCert e)
           | Inr c \<Rightarrow> (case cv_pem_decode env key_pem of
               None \<Rightarrow> Inl DecodeKeyPem
             | Some (kt, kb) \<Rightarrow> (case (if kt = ''EC PRIVATE KEY'' then cv_parse_ec env kb else cv_parse_pkcs8 env kb) of
                 Inl e \<Rightarrow> Inl (ParseKey e)
               | Inr key \<Rightarrow> Inr \<lparr>ca_cert = c, ca_key = key, ca_pem_cert = cert_pem, ca_pem_key = key_pem\<rparr>))))))"

definition save_ca :: "(string \<Rightarrow> string option) \<Rightarrow> ca_cert \<Rightarrow> string \<Rightarrow> cert_disk \<Rightarrow> cert_disk \<times> string option" where
  "save_ca write_err ca path cert_disk = (case write_err (path @ ''.crt'') of
       Some e \<Rightarrow> (cert_disk, Some e)
     | None \<Rightarrow> let d = cert_disk(path @ ''.crt'' \<mapsto> ca_pem_cert ca) in
         (case write_err (path @ ''.key'') of
           Some e \<Rightarrow> (d, Some e)
         | None \<Rightarrow> (d(path @ ''.key'' \<mapsto> ca_pem_key ca), None)))"

section \<open>Certificates of hosts\<close>

definition add_name :: "string \<Rightarrow> cert \<Rightarrow> cert" where
  "add_name n t = (case parse_ip n of Some a \<Rightarrow> t\<lparr>ct_ips := ct_ips t @ [a]\<rparr> | None \<Rightarrow> t\<lparr>ct_dns := ct_dns t @ [n]\<rparr>)"

definition leaf_template :: "int \<Rightarrow> nat \<Rightarrow> string \<Rightarrow> string list \<Rightarrow> cert" where
  "leaf_template now serial cn sans =
     (let t = \<lparr>ct_serial = serial, ct_name = cn, ct_org = ''net-redirect'', ct_from = now - 3600, ct_until = now + 365 * 24 * 3600,
            ct_dns = [], ct_ips = [], ct_is_ca = False, ct_sign_certs = False, ct_server_auth = True, ct_key = EcdsaKey\<rparr>;
          t1 = fold add_name (filter (\<lambda>n. n \<noteq> []) (map trim_space sans)) t
      in if ct_dns t1 = [] \<and> ct_ips t1 = [] then add_name cn t1 else t1)"

definition sign_cert :: "crypto_env \<Rightarrow> int \<Rightarrow> ca_cert \<Rightarrow> string \<Rightarrow> string list \<Rightarrow> ca_err + cert \<times> priv_key" where
  "sign_cert env now ca cn sans = (case cv_keygen env of
       Inl e \<Rightarrow> Inl (LeafKey e)
     | Inr key \<Rightarrow> (case cv_serial env of
         Inl e \<Rightarrow> Inl (SerialErr e)
       | Inr serial \<Rightarrow> (case cv_create env (leaf_template now serial cn sans) (ca_cert ca) (ca_key ca) of
           Inl e \<Rightarrow> Inl (CreateLeaf e)
         | Inr der \<Rightarrow> (case cv_parse env der of Inl e \<Rightarrow> Inl (ParseLeaf e) | Inr c \<Rightarrow> Inr (c, key)))))"

type_synonym cert_cache = "string \<rightharpoonup> cert \<times> priv_key"

definition cert_for_host :: "crypto_env \<Rightarrow> int \<Rightarrow> ca_cert \<Rightarrow> string \<Rightarrow> cert_cache \<Rightarrow> cert_cache \<times> (ca_err + cert \<times> priv_key)" where
  "cert_for_host env now ca host cache = (case cache host of
       Some c \<Rightarrow> (cache, Inr c)
     | None \<Rightarrow> let base = (if has_prefix host ''*.'' then drop 2 host else host);
           sans = [host] @ (if has_prefix host ''*.'' then [base] else [])
         in case sign_cert env now ca base sans of
           Inl e \<Rightarrow> (cache, Inl (SignFor host e))
         | Inr c \<Rightarrow> (cache(host \<mapsto> c), Inr c))"

definition ssl_grade :: "cert option \<Rightarrow> string" where
  "ssl_grade c = (case c of
       None \<Rightarrow> ''N/A''
     | Some c \<Rightarrow> if ct_is_ca c then ''CA''
         else (case ct_key c of
             RsaKey bits \<Rightarrow> if 4096 \<le> bits then ''A+'' else if 2048 \<le> bits then ''A'' else ''B''
           | EcdsaKey \<Rightarrow> ''A'' | OtherKey \<Rightarrow> ''B''))"

definition cert_fingerprint :: "(bytes \<Rightarrow> bytes) \<Rightarrow> bytes option \<Rightarrow> string" where
  "cert_fingerprint sha256 raw = (case raw of None \<Rightarrow> [] | Some b \<Rightarrow> hex_string (sha256 b))"

section \<open>The library\<close>

text \<open>
  What the sources rely on: a certificate that was created from a template can be read again with the fields of the template.
\<close>

definition reads_template :: "crypto_env \<Rightarrow> cert \<Rightarrow> bool" where
  "reads_template env t \<longleftrightarrow> (\<forall>parent key der. cv_create env t parent key = Inr der \<longrightarrow> cv_parse env der = Inr t)"

text \<open>A library with one key, whose certificates are all the certificate \<open>t\<close>; a block is its type, a zero and its bytes.\<close>

definition demo_crypto :: "cert \<Rightarrow> crypto_env" where
  "demo_crypto t = \<lparr>cv_keygen = Inr 7, cv_serial = Inr 1, cv_create = (\<lambda>x parent key. if x = t then Inr [] else Inl ''template''),
     cv_parse = (\<lambda>der. Inr t), cv_marshal_key = (\<lambda>k. if k = 7 then Inr [9] else Inl ''key''),
     cv_parse_ec = (\<lambda>b. Inr 7), cv_parse_pkcs8 = (\<lambda>b. Inl ''pkcs8''),
     cv_pem_encode = (\<lambda>ty b. of_nat (length ty) # bytes_of_string ty @ b),
     cv_pem_decode = (\<lambda>b. case b of [] \<Rightarrow> None | n # r \<Rightarrow> Some (string_of_bytes (take (unat n) r), drop (unat n) r))\<rparr>"

section \<open>Facts\<close>

text \<open> Saved and loaded.\<close>

lemma ca_roundtrip:
  assumes "generate_ca env now name = Inr ca" "save_ca we ca path d = (d', None)"
    and "cv_pem_decode env (ca_pem_cert ca) = Some (''CERTIFICATE'', der)" "cv_parse env der = Inr (ca_cert ca)"
    and "cv_pem_decode env (ca_pem_key ca) = Some (''EC PRIVATE KEY'', kb)" "cv_parse_ec env kb = Inr (ca_key ca)"
  shows "load_ca env re d' (path @ ''.crt'') (path @ ''.key'') = Inr ca"
proof -
  have "d' (path @ ''.crt'') = Some (ca_pem_cert ca)" "d' (path @ ''.key'') = Some (ca_pem_key ca)"
    using assms(2) by (auto simp: save_ca_def Let_def split: option.splits)
  then show ?thesis using assms by (simp add: load_ca_def)
qed

lemma ca_roundtrip_witness:
  "\<exists>ca d'. generate_ca (demo_crypto (ca_template 0 1 ''n'')) 0 ''n'' = Inr ca \<and> load_ca (demo_crypto (ca_template 0 1 ''n'')) [] d' ''p.crt'' ''p.key'' = Inr ca"
proof -
  let ?env = "demo_crypto (ca_template 0 1 ''n'')"
  obtain ca :: ca_cert where g: "generate_ca ?env 0 ''n'' = Inr ca"
    and ca: "ca = \<lparr>ca_cert = ca_template 0 1 ''n'', ca_key = 7, ca_pem_cert = cv_pem_encode ?env ''CERTIFICATE'' [],
      ca_pem_key = cv_pem_encode ?env ''EC PRIVATE KEY'' [9]\<rparr>"
    by (simp add: generate_ca_def demo_crypto_def Let_def)
  obtain d' where s: "save_ca (\<lambda>p. None) ca ''p'' Map.empty = (d', None)" by (simp add: save_ca_def Let_def)
  have "load_ca ?env [] d' (''p'' @ ''.crt'') (''p'' @ ''.key'') = Inr ca"
    by (rule ca_roundtrip [OF g s, of "[]" "[9]"]) (simp_all add: ca demo_crypto_def)
  then show ?thesis using g by auto
qed

text \<open>The names of a certificate.\<close>

definition names_host :: "cert \<Rightarrow> string \<Rightarrow> bool" where
  "names_host c h = (case parse_ip h of Some a \<Rightarrow> List.member (ct_ips c) a | None \<Rightarrow> List.member (ct_dns c) h)"

lemma add_name_mono: "names_host t h \<Longrightarrow> names_host (add_name n t) h"
  by (auto simp: names_host_def add_name_def split: option.splits)

lemma add_name_names: "names_host (add_name n t) n"
  by (simp add: names_host_def add_name_def split: option.splits)

lemma fold_add_name: "names_host t h \<or> h \<in> set ns \<Longrightarrow> names_host (fold add_name ns t) h"
  by (induction ns arbitrary: t) (auto intro: add_name_mono add_name_names)

lemma add_name_rest:
  "ct_from (add_name n t) = ct_from t \<and> ct_until (add_name n t) = ct_until t \<and> ct_is_ca (add_name n t) = ct_is_ca t \<and>
   ct_server_auth (add_name n t) = ct_server_auth t \<and> ct_name (add_name n t) = ct_name t"
  by (simp add: add_name_def split: option.splits)

lemma fold_add_name_rest:
  "ct_from (fold add_name ns t) = ct_from t \<and> ct_until (fold add_name ns t) = ct_until t \<and> ct_is_ca (fold add_name ns t) = ct_is_ca t \<and>
   ct_server_auth (fold add_name ns t) = ct_server_auth t \<and> ct_name (fold add_name ns t) = ct_name t"
  by (induction ns arbitrary: t) (simp_all add: add_name_rest)

lemma leaf_names:
  assumes "n \<in> set sans" "trim_space n = n" "n \<noteq> []"
  shows "names_host (leaf_template now serial cn sans) n"
proof -
  let ?ns = "filter (\<lambda>n. n \<noteq> []) (map trim_space sans)"
  have "n \<in> set ?ns" using assms by force
  then show ?thesis
    by (auto simp: leaf_template_def Let_def intro!: fold_add_name add_name_mono)
qed

lemma leaf_rest:
  "ct_from (leaf_template now serial cn sans) = now - 3600 \<and> ct_until (leaf_template now serial cn sans) = now + 31536000 \<and>
   \<not> ct_is_ca (leaf_template now serial cn sans) \<and> ct_server_auth (leaf_template now serial cn sans) \<and>
   ct_name (leaf_template now serial cn sans) = cn"
  by (simp add: leaf_template_def Let_def add_name_rest fold_add_name_rest)

text \<open>A name that is not an address is covered by its own name, and what follows \<open>*.\<close> by the second name.\<close>

text \<open> The certificate of a host.\<close>

lemma leaf_covers_host:
  assumes "cert_for_host env now ca host cache = (cache', Inr (c, key))" "cache host = None"
    and "trim_space host = host" "host \<noteq> []"
    and "\<forall>serial cn sans. reads_template env (leaf_template now serial cn sans)"
  shows "names_host c host \<and> (\<forall>base. host = ''*.'' @ base \<and> base \<noteq> [] \<and> trim_space base = base \<longrightarrow> names_host c base \<and> ct_name c = base) \<and>
    ct_from c \<le> now \<and> now < ct_until c \<and> \<not> ct_is_ca c \<and> ct_server_auth c \<and> cache' = cache(host \<mapsto> (c, key))"
proof -
  let ?base = "if has_prefix host ''*.'' then drop 2 host else host"
  let ?sans = "[host] @ (if has_prefix host ''*.'' then [?base] else [])"
  have s: "sign_cert env now ca ?base ?sans = Inr (c, key)" and c': "cache' = cache(host \<mapsto> (c, key))"
    using assms(1,2) by (auto simp: cert_for_host_def Let_def split: sum.splits)
  obtain serial where t: "c = leaf_template now serial ?base ?sans"
    using s assms(5) by (auto simp: sign_cert_def reads_template_def split: sum.splits)
  have "names_host c host" unfolding t using assms(3,4) by (intro leaf_names) simp_all
  moreover have "names_host c base \<and> ct_name c = base" if b: "host = ''*.'' @ base" "base \<noteq> []" "trim_space base = base" for base
  proof -
    have eq: "?base = base" "base \<in> set ?sans" using b(1) by (simp_all add: has_prefix_def)
    have "names_host c base" unfolding t by (rule leaf_names [OF eq(2) b(3,2)])
    moreover have "ct_name c = ?base" unfolding t by (simp only: leaf_rest)
    ultimately show ?thesis using eq(1) by simp
  qed
  moreover have "ct_from c \<le> now \<and> now < ct_until c \<and> \<not> ct_is_ca c \<and> ct_server_auth c"
    unfolding t using leaf_rest [of now serial ?base ?sans] by linarith
  ultimately show ?thesis using c' by blast
qed

text \<open> The cache.\<close>

lemma cached_cert_outlives:
  assumes "cert_for_host env now ca host cache = (cache', Inr (c, key))" "cache host = None"
    and "\<forall>serial cn sans. reads_template env (leaf_template now serial cn sans)"
  shows "cert_for_host env2 (now + 31536000) ca2 host cache' = (cache', Inr (c, key)) \<and> ct_until c \<le> now + 31536000"
proof -
  let ?base = "if has_prefix host ''*.'' then drop 2 host else host"
  let ?sans = "[host] @ (if has_prefix host ''*.'' then [?base] else [])"
  have s: "sign_cert env now ca ?base ?sans = Inr (c, key)" and c': "cache' host = Some (c, key)"
    using assms(1,2) by (auto simp: cert_for_host_def Let_def split: sum.splits)
  obtain serial where t: "c = leaf_template now serial ?base ?sans"
    using s assms(3) by (auto simp: sign_cert_def reads_template_def split: sum.splits)
  show ?thesis using c' leaf_rest [of now serial ?base ?sans] by (simp add: cert_for_host_def t)
qed

lemma demo_reads_leaf: "reads_template (demo_crypto t) u"
  by (simp add: reads_template_def demo_crypto_def)

definition demo_ca :: ca_cert where
  "demo_ca = \<lparr>ca_cert = ca_template 0 1 ''n'', ca_key = 7, ca_pem_cert = [], ca_pem_key = []\<rparr>"

lemma demo_leaf:
  "cert_for_host (demo_crypto (leaf_template 0 1 ''pc'' [''*.pc'', ''pc''])) 0 demo_ca ''*.pc'' Map.empty =
     ([''*.pc'' \<mapsto> (leaf_template 0 1 ''pc'' [''*.pc'', ''pc''], 7)], Inr (leaf_template 0 1 ''pc'' [''*.pc'', ''pc''], 7))"
  by (simp add: cert_for_host_def sign_cert_def demo_crypto_def has_prefix_def Let_def)

lemma leaf_covers_host_witness:
  "names_host (leaf_template 0 1 ''pc'' [''*.pc'', ''pc'']) ''*.pc'' \<and> names_host (leaf_template 0 1 ''pc'' [''*.pc'', ''pc'']) ''pc''"
proof -
  have t: "trim_space ''*.pc'' = ''*.pc''" "trim_space ''pc'' = ''pc''" by code_simp+
  have r: "\<forall>serial cn sans. reads_template (demo_crypto (leaf_template 0 1 ''pc'' [''*.pc'', ''pc''])) (leaf_template 0 serial cn sans)"
    by (simp add: demo_reads_leaf)
  from leaf_covers_host [OF demo_leaf _ t(1) _ r] t(2) show ?thesis by auto
qed

lemma cached_cert_outlives_witness:
  "\<exists>cache'. cert_for_host (demo_crypto (leaf_template 0 1 ''pc'' [''*.pc'', ''pc''])) 31536000 demo_ca ''*.pc'' cache' =
     (cache', Inr (leaf_template 0 1 ''pc'' [''*.pc'', ''pc''], 7))"
proof -
  have r: "\<forall>serial cn sans. reads_template (demo_crypto (leaf_template 0 1 ''pc'' [''*.pc'', ''pc''])) (leaf_template 0 serial cn sans)"
    by (simp add: demo_reads_leaf)
  have "(Map.empty :: cert_cache) ''*.pc'' = None" by simp
  from cached_cert_outlives [OF demo_leaf this r, of "demo_crypto (leaf_template 0 1 ''pc'' [''*.pc'', ''pc''])" demo_ca]
  show ?thesis by auto
qed

end
