(* ===== verification/Commands.thy ===== *)
theory Commands
  imports Runtime Agent_Tools Web "HOL-Library.List_Lexorder" "HOL-Library.Char_ord"
begin

text \<open>
  The commands of the command line that are not components of their own (\<open>cmd/root.go\<close>, \<open>cmd/subcommands.go\<close>,
  \<open>cmd/logs.go\<close>, \<open>cmd/run.go\<close>): starting with a URL or with a configuration, the files of \<open>init\<close>, the switch of a
  group, the settings of the terminal interface, the replay of recorded flows, and the display of the log file. The parser of
  URLs, the YAML and JSON codecs and the services are parameters.
\<close>

section \<open>Starting with a URL\<close>

record proxy_url =
  px_scheme :: string
  px_host :: string
  px_port :: string
  px_user :: string
  px_password :: string
  px_sni :: string

definition url_schemes :: "string list" where
  "url_schemes = [''ss'', ''http'', ''https'', ''socks5'', ''trojan'']"

datatype start_error =
    UnsupportedScheme string | BadProxyUrl string | StartRegister perr | StartRouter router_err | StartLoad config_err
  | ServiceFailed string string | ProxyFailed string

definition parse_proxy_url :: "(string \<Rightarrow> string + proxy_url) \<Rightarrow> string \<Rightarrow> start_error + proxy_url" where
  "parse_proxy_url parse raw =
     (if list_ex (\<lambda>s. has_prefix raw (s @ ''://'')) url_schemes
      then (case parse raw of Inl e \<Rightarrow> Inl (BadProxyUrl e) | Inr u \<Rightarrow> Inr u)
      else Inl (UnsupportedScheme raw))"

definition must_port :: "string \<Rightarrow> int" where
  "must_port p = (if p = [] then 0 else atoi_value p)"

definition no_config_proxy :: config_proxy where
  "no_config_proxy = \<lparr>pc_name = [], pc_type = [], pc_server = [], pc_port = 0, pc_username = [], pc_password = [], pc_cipher = [],
     pc_sni = [], pc_alpn = [], pc_uuid = [], pc_alter_id = 0, pc_method = [], pc_proxies = [], pc_url = [], pc_interval = 0,
     pc_default = [], pc_public_key = [], pc_short_id = [], pc_fingerprint = []\<rparr>"

definition url_proxy :: "proxy_url \<Rightarrow> config_proxy" where
  "url_proxy u =
     (let p = no_config_proxy\<lparr>pc_name := px_scheme u, pc_type := px_scheme u, pc_server := px_host u, pc_port := must_port (px_port u)\<rparr>
      in if px_scheme u = ''ss'' then p\<lparr>pc_password := px_password u, pc_cipher := px_user u\<rparr>
         else if px_scheme u = ''http'' \<or> px_scheme u = ''https'' \<or> px_scheme u = ''socks5''
           then p\<lparr>pc_username := px_user u, pc_password := px_password u\<rparr>
         else if px_scheme u = ''trojan'' then p\<lparr>pc_password := px_user u, pc_sni := px_sni u\<rparr>
         else p)"

record fast_proxy =
  fp_http :: int
  fp_socks5 :: int
  fp_tproxy :: int
  fp_router :: router
  fp_world :: world

definition fast_listen :: "(config_err + config) option \<Rightarrow> listen_config" where
  "fast_listen cfg = (case cfg of
       Some (Inr c) \<Rightarrow> cf_listen c
     | _ \<Rightarrow> \<lparr>lc_http = 7890, lc_socks5 = 7891, lc_tproxy = 0, lc_tproxy_mark = 0, lc_tproxy_table = 0\<rparr>)"

definition fast_start ::
  "(string \<Rightarrow> string + proxy_url) \<Rightarrow> regex \<Rightarrow> (config_err + config) option \<Rightarrow> string \<Rightarrow> start_error + fast_proxy" where
  "fast_start parse re cfg raw = (case parse_proxy_url parse raw of
       Inl e \<Rightarrow> Inl e
     | Inr u \<Rightarrow> (case register_all [url_proxy u] of
         Inl e \<Rightarrow> Inl (StartRegister e)
       | Inr w \<Rightarrow> (case new_router re ''global'' [] of
           Inl e \<Rightarrow> Inl (StartRouter e)
         | Inr r \<Rightarrow> let l = fast_listen cfg in
             Inr \<lparr>fp_http = lc_http l, fp_socks5 = lc_socks5 l, fp_tproxy = lc_tproxy l, fp_router = r, fp_world = w\<rparr>)))"

section \<open>Starting with a configuration\<close>

text \<open>The services that run beside the proxy, in the order in which they are started.\<close>

definition start_services :: "config \<Rightarrow> string list" where
  "start_services c =
     (if dc_enable (cf_dns c) then [''dns''] else []) @ (if wc_enable (cf_web c) then [''web''] else []) @
     (if tc_enable (cf_tun c) then [''tun''] else []) @ (if nc_enable (cf_n2n c) then [''n2n''] else []) @
     (if sc_enable (cf_stunvpn c) then [''stunvpv''] else []) @ (if wg_enable (cf_wireguard c) then [''wireguard''] else [])"

datatype run_event = ServiceEnds string "string option" | ProxyEnds "string option" | Interrupted

text \<open>What ends the program, and with which error. None while it runs. A service that ends without an error does not end it.\<close>

fun full_run :: "string list \<Rightarrow> run_event list \<Rightarrow> start_error option option" where
  "full_run services [] = None"
| "full_run services (ev # evs) = (case ev of
       ServiceEnds n (Some e) \<Rightarrow> if List.member services n then Some (Some (ServiceFailed n e)) else full_run services evs
     | ServiceEnds n None \<Rightarrow> full_run services evs
     | ProxyEnds (Some e) \<Rightarrow> Some (Some (ProxyFailed e))
     | ProxyEnds None \<Rightarrow> Some None
     | Interrupted \<Rightarrow> Some None)"

definition full_start :: "config_err + config \<Rightarrow> run_event list \<Rightarrow> start_error option option" where
  "full_start cfg evs = (case cfg of Inl e \<Rightarrow> Some (Some (StartLoad e)) | Inr c \<Rightarrow> full_run (start_services c) evs)"

section \<open>The files of init\<close>

type_synonym init_files = "string \<rightharpoonup> string"

text \<open>\<open>write_err\<close> answers the attempts to write a file. On the left is its error; the list holds the files that were written.\<close>

definition scaffold :: "(string \<Rightarrow> string option) \<Rightarrow> string \<Rightarrow> string \<Rightarrow> init_files \<times> string list \<Rightarrow> string + init_files \<times> string list" where
  "scaffold write_err path content st =
     (if fst st path \<noteq> None then Inr st
      else case write_err path of Some e \<Rightarrow> Inl e | None \<Rightarrow> Inr ((fst st)(path \<mapsto> content), snd st @ [path]))"

definition run_init :: "(string \<Rightarrow> string option) \<Rightarrow> string \<Rightarrow> string \<Rightarrow> string \<Rightarrow> string \<Rightarrow> init_files \<Rightarrow> string + init_files \<times> string list" where
  "run_init write_err cfg_path cfg_text agent_path agent_text fs =
     (case scaffold write_err cfg_path cfg_text (fs, []) of
        Inl e \<Rightarrow> Inl e | Inr st \<Rightarrow> scaffold write_err agent_path agent_text st)"

section \<open>The switch of a group\<close>

fun switch_first :: "string \<Rightarrow> string \<Rightarrow> group_config list \<Rightarrow> group_config list option" where
  "switch_first name p [] = None"
| "switch_first name p (g # gs) =
     (if gc_name g = name then Some (g\<lparr>gc_default := p\<rparr> # gs) else map_option ((#) g) (switch_first name p gs))"

datatype use_result = UseUsage | UseLoad config_err | GroupMissing string | Used config

definition run_use :: "config_err + config \<Rightarrow> string list \<Rightarrow> use_result" where
  "run_use cfg args = (case args of
       grp # p # _ \<Rightarrow> (case cfg of
           Inl e \<Rightarrow> UseLoad e
         | Inr c \<Rightarrow> (case switch_first grp p (cf_groups c) of
             None \<Rightarrow> GroupMissing grp | Some gs \<Rightarrow> Used (c\<lparr>cf_groups := gs\<rparr>)))
     | _ \<Rightarrow> UseUsage)"

section \<open>Settings of the terminal interface\<close>

record agent_file =
  af_base_url :: string
  af_api_key :: string
  af_model :: string
  af_system_prompt :: string
  af_mode :: string
  af_memory :: string
  af_timeout :: int
  af_retries :: int

definition legacy_agent :: "config \<Rightarrow> agent_file" where
  "legacy_agent c = (let a = cf_agent c in
     \<lparr>af_base_url = ac_base_url a, af_api_key = ac_api_key a, af_model = ac_model a, af_system_prompt = ac_system_prompt a,
      af_mode = [], af_memory = [], af_timeout = ac_timeout a, af_retries = ac_max_retries a\<rparr>)"

definition or_else :: "string \<Rightarrow> string \<Rightarrow> string" where
  "or_else a b = (if a = [] then b else a)"

text \<open>The settings and the file that they came from; None is the error for a missing key. \<open>file\<close> is what \<open>agent.yml\<close>
  holds, or None when it cannot be read; the configuration is empty when it does not exist.\<close>

definition tui_settings ::
  "string \<Rightarrow> string \<Rightarrow> string \<Rightarrow> string \<Rightarrow> string \<Rightarrow> agent_file option \<Rightarrow> config \<Rightarrow> (agent_file \<times> string) option" where
  "tui_settings cfg_path agent_path prompt memory env_key found c =
     (let (a, path) = (case found of Some x \<Rightarrow> (x, agent_path) | None \<Rightarrow> (legacy_agent c, cfg_path));
          key = or_else (af_api_key a) env_key
      in if key = [] then None
         else Some (a\<lparr>af_base_url := or_else (af_base_url a) ''https://api.openai.com/v1'', af_api_key := key,
                af_model := or_else (af_model a) ''gpt-4o-mini'', af_system_prompt := or_else (af_system_prompt a) prompt,
                af_memory := or_else (af_memory a) memory\<rparr>, path))"

section \<open>Replay\<close>

record replay =
  re_total :: nat
  re_ok :: nat
  re_skipped :: nat
  re_written :: "flow list"

definition replay_line :: "(string \<Rightarrow> flow option) \<Rightarrow> nat \<Rightarrow> string \<Rightarrow> replay \<Rightarrow> replay" where
  "replay_line decode now line r =
     (let r1 = r\<lparr>re_total := re_total r + 1\<rparr>
      in case (if line = [] then None else decode line) of
           None \<Rightarrow> r1\<lparr>re_skipped := re_skipped r + 1\<rparr>
         | Some f \<Rightarrow> r1\<lparr>re_ok := re_ok r + 1, re_written := re_written r @ [finalize now f]\<rparr>)"

datatype replay_error = NoSinks | NoReplayFile string | ReadReplay string

text \<open>The lines of the file and the error of the scanner, and what was written when it ended.\<close>

definition run_replay ::
  "(string \<Rightarrow> flow option) \<Rightarrow> nat \<Rightarrow> nat \<Rightarrow> string + string list \<times> string option \<Rightarrow> replay \<times> replay_error option" where
  "run_replay decode now sinks input =
     (let r0 = \<lparr>re_total = 0, re_ok = 0, re_skipped = 0, re_written = []\<rparr>
      in if sinks = 0 then (r0, Some NoSinks)
         else case input of
           Inl e \<Rightarrow> (r0, Some (NoReplayFile e))
         | Inr (ls, err) \<Rightarrow> (fold (replay_line decode now) ls r0, map_option ReadReplay err))"

section \<open>The log file\<close>

definition log_levels :: "string list" where
  "log_levels = [''debug'', ''info'', ''warn'', ''error'', ''all'']"

text \<open>The first output, and one tick of \<open>--follow\<close>: the lines that are printed and the last time seen.\<close>

definition logs_first :: "string list option \<Rightarrow> int \<Rightarrow> string \<Rightarrow> bool \<Rightarrow> web_entry list option" where
  "logs_first file n level follow =
     (let lv = to_lower level in
      if lv \<noteq> [] \<and> \<not> List.member log_levels lv then None
      else Some (read_log_file file (if follow then 0 else n) lv))"

fun follow_entries :: "string \<Rightarrow> web_entry list \<Rightarrow> web_entry list \<times> string" where
  "follow_entries seen [] = ([], seen)"
| "follow_entries seen (e # es) =
     (if we_time e \<le> seen then follow_entries seen es
      else let (out, last_seen) = follow_entries (we_time e) es in (e # out, last_seen))"

definition follow_tick :: "string list option \<Rightarrow> string \<Rightarrow> string \<Rightarrow> web_entry list \<times> string" where
  "follow_tick file level seen = follow_entries seen (read_log_file file 200 (to_lower level))"

fun follow_ticks :: "string \<Rightarrow> string \<Rightarrow> string list option list \<Rightarrow> web_entry list" where
  "follow_ticks level seen [] = []"
| "follow_ticks level seen (f # fs) = (let (out, s) = follow_tick f level seen in out @ follow_ticks level s fs)"

section \<open>Running a command\<close>

datatype run_plan =
    RunNeedsAction | RunBadAction string | RunNeedsCommand | RunLocal string | RunNeedsHost | RunRemote string string

definition plan_run :: "string list \<Rightarrow> string \<Rightarrow> string \<Rightarrow> string \<Rightarrow> run_plan" where
  "plan_run args command alias host = (case args of
       [] \<Rightarrow> RunNeedsAction
     | action # _ \<Rightarrow>
         if action \<noteq> ''local'' \<and> action \<noteq> ''remote'' then RunBadAction action
         else if command = [] then RunNeedsCommand
         else if action = ''local'' then RunLocal command
         else if alias = [] \<and> host = [] then RunNeedsHost
         else RunRemote (if alias = [] then host else alias) command)"

section \<open>Facts about the start\<close>

lemma scheme_lower: "s \<in> set url_schemes \<Longrightarrow> to_lower s = s \<and> \<not> is_group s \<and> to_upper s \<noteq> ''DIRECT'' \<and> to_upper s \<noteq> ''REJECT''"
proof -
  assume "s \<in> set url_schemes"
  moreover have "list_all (\<lambda>s. to_lower s = s \<and> to_upper s \<noteq> ''DIRECT'' \<and> to_upper s \<noteq> ''REJECT'') url_schemes"
    by code_simp
  moreover have "list_all (\<lambda>s. \<not> is_group s) url_schemes"
    by (simp add: url_schemes_def is_group_def)
  ultimately show ?thesis by (simp add: list_all_iff)
qed

lemma url_proxy_fields: "pc_name (url_proxy u) = px_scheme u" "pc_type (url_proxy u) = px_scheme u"
  by (simp_all add: url_proxy_def no_config_proxy_def Let_def)

lemma new_proxy_name: "new_proxy c = Inr ob \<Longrightarrow> c_name c = s \<Longrightarrow> to_lower (c_type c) \<noteq> ''direct'' \<Longrightarrow> obj_name ob = s"
  unfolding new_proxy_def new_shadowsocks_def Let_def by (simp split: if_splits) (auto simp: obj_name_def)

lemma register_single:
  assumes "register_all [pc] = Inr w" "pc_name pc = s" "pc_type pc = s" "s \<in> set url_schemes"
  shows "\<exists>ob. heap w = [ob] \<and> names w = [s \<mapsto> PObj 0] \<and> obj_name ob = s"
proof -
  let ?c = "to_proxy_config (pc\<lparr>pc_type := s\<rparr>)"
  note low = scheme_lower [OF assms(4)]
  have name: "c_name ?c = s" "c_type ?c = s" using assms by (simp_all add: to_proxy_config_def)
  obtain ob where ob: "new_proxy ?c = Inr ob"
    and w: "w = reg_register (fst (alloc new_registry ob)) (snd (alloc new_registry ob))"
    using assms(1-3) low
    by (auto simp: register_all_def Let_def case_prod_beta alloc_def split: sum.splits if_splits)
  have "obj_name ob = s"
    using ob name(1) by (rule new_proxy_name) (use name low assms(4) in \<open>auto simp: url_schemes_def\<close>)
  then show ?thesis
    using w low by (simp add: alloc_def new_registry_def reg_register_def pref_name_def)
qed

text \<open> A program that was started with the URL of a proxy sends every connection through that proxy.\<close>

lemma fast_mode_uses_proxy:
  assumes "fast_start parse re cfg raw = Inr fp" "parse raw = Inr u" "px_scheme u \<in> set url_schemes"
    and "reg_names (fp_world fp) order"
  shows "\<exists>ob. pick lookup order (fp_world fp) (fp_router fp) addr = Inr (PObj 0) \<and> heap (fp_world fp) = [ob] \<and> obj_name ob = px_scheme u"
proof -
  have nr: "new_router re ''global'' [] = Inr \<lparr>r_mode = ''global'', r_rules = []\<rparr>"
    by (simp add: new_router_def)
  have pu: "parse_proxy_url parse raw = Inr u"
    using assms(1,2) by (cases "list_ex (\<lambda>s. has_prefix raw (s @ ''://'')) url_schemes") (simp_all add: fast_start_def parse_proxy_url_def)
  have reg: "register_all [url_proxy u] = Inr (fp_world fp)" and r: "r_mode (fp_router fp) = ''global''"
    using assms(1) by (cases "register_all [url_proxy u]"; simp add: fast_start_def pu nr Let_def; fastforce)+
  obtain ob where ob: "heap (fp_world fp) = [ob]" "names (fp_world fp) = [px_scheme u \<mapsto> PObj 0]" "obj_name ob = px_scheme u"
    using register_single [OF reg url_proxy_fields assms(3)] by blast
  have "distinct order" "set order = {px_scheme u}"
    using assms(4) by (simp_all add: reg_names_def ob(2))
  then have "length order = 1" using distinct_card [of order] by simp
  then obtain x where x: "order = [x]" by (cases order) auto
  have "order = [px_scheme u]"
    using \<open>set order = {px_scheme u}\<close> unfolding x by simp
  then show ?thesis
    using r ob scheme_lower [OF assms(3)] by (simp add: pick_def select_first_def reg_get_def)
qed

definition demo_proxy_url :: proxy_url where
  "demo_proxy_url = \<lparr>px_scheme = ''socks5'', px_host = ''10.0.0.1'', px_port = ''1080'', px_user = [], px_password = [], px_sni = []\<rparr>"

lemma fast_mode_uses_proxy_witness:
  "\<exists>fp ob. fast_start (\<lambda>_. Inr demo_proxy_url) (\<lambda>_. None) None ''socks5://10.0.0.1:1080'' = Inr fp \<and>
     pick lookup [''socks5''] (fp_world fp) (fp_router fp) ''example.com:443'' = Inr (PObj 0) \<and> heap (fp_world fp) = [ob]"
proof -
  have low: "to_lower ''socks5'' = ''socks5''" by code_simp
  have "list_ex (\<lambda>s. has_prefix ''socks5://10.0.0.1:1080'' (s @ ''://'')) url_schemes" by code_simp
  then have pu: "parse_proxy_url (\<lambda>_. Inr demo_proxy_url) ''socks5://10.0.0.1:1080'' = Inr demo_proxy_url"
    by (simp add: parse_proxy_url_def)
  have "\<exists>w. register_all [url_proxy demo_proxy_url] = Inr w \<and> dom (names w) = {''socks5''}"
    by (simp add: register_all_def url_proxy_def demo_proxy_url_def no_config_proxy_def new_proxy_def to_proxy_config_def is_group_def
        alloc_def reg_register_def new_registry_def pref_name_def obj_name_def lower_char_def Let_def)
  then obtain w where w: "register_all [url_proxy demo_proxy_url] = Inr w" "dom (names w) = {''socks5''}" by blast
  define fp where "fp = \<lparr>fp_http = 7890, fp_socks5 = 7891, fp_tproxy = 0, fp_router = \<lparr>r_mode = ''global'', r_rules = []\<rparr>, fp_world = w\<rparr>"
  have run: "fast_start (\<lambda>_. Inr demo_proxy_url) (\<lambda>_. None) None ''socks5://10.0.0.1:1080'' = Inr fp"
    by (simp add: fast_start_def pu w new_router_def fast_listen_def fp_def Let_def)
  have "px_scheme demo_proxy_url \<in> set url_schemes" "reg_names (fp_world fp) [''socks5'']"
    using w(2) by (simp_all add: demo_proxy_url_def url_schemes_def reg_names_def fp_def)
  with fast_mode_uses_proxy [OF run refl] run show ?thesis by blast
qed

text \<open> One service that fails ends the program with all the others, whatever happens later.\<close>

lemma service_failure_stops:
  assumes "n \<in> set (start_services c)"
    and "list_all (\<lambda>ev. \<exists>m. ev = ServiceEnds m None) evs"
  shows "full_start (Inr c) (evs @ ServiceEnds n (Some e) # later) = Some (Some (ServiceFailed n e))"
  using assms(2) by (induction evs) (use assms(1) in \<open>auto simp: full_start_def\<close>)

lemma service_failure_stops_witness:
  "full_start (Inr (zero_config\<lparr>cf_dns := (cf_dns zero_config)\<lparr>dc_enable := True\<rparr>\<rparr>)) [ServiceEnds ''dns'' (Some ''address in use'')] =
     Some (Some (ServiceFailed ''dns'' ''address in use''))"
  using service_failure_stops [of "''dns''" "zero_config\<lparr>cf_dns := (cf_dns zero_config)\<lparr>dc_enable := True\<rparr>\<rparr>" "[]" "''address in use''" "[]"]
  by (simp add: start_services_def)

text \<open> \<open>init\<close> never changes a file that exists, and writes each missing one once.\<close>

lemma init_keeps_files:
  assumes "run_init write_err cfg_path cfg_text agent_path agent_text fs = Inr (fs', written)" "fs p = Some c"
  shows "fs' p = Some c \<and> p \<notin> set written"
  using assms by (auto simp: run_init_def scaffold_def split: if_splits option.splits sum.splits)

lemma init_keeps_files_witness:
  "\<exists>fs' written. run_init (\<lambda>_. None) ''config.yml'' ''new'' ''agent.yml'' ''key'' [''config.yml'' \<mapsto> ''mine''] = Inr (fs', written) \<and>
     fs' ''config.yml'' = Some ''mine'' \<and> ''config.yml'' \<notin> set written"
proof -
  obtain fs' written where run: "run_init (\<lambda>_. None) ''config.yml'' ''new'' ''agent.yml'' ''key'' [''config.yml'' \<mapsto> ''mine''] = Inr (fs', written)"
    by (simp add: run_init_def scaffold_def)
  from init_keeps_files [OF run, of "''config.yml''" "''mine''"] run show ?thesis by auto
qed

text \<open> A switch changes the choice of the first group of that name and nothing else; whether the proxy belongs to the group, or exists,
  is not asked.\<close>

lemma use_switches_group:
  assumes "run_use (Inr c) (name # p # rest) = Used c'"
  shows "\<exists>pre g post. cf_groups c = pre @ g # post \<and> gc_name g = name \<and> (\<forall>h \<in> set pre. gc_name h \<noteq> name) \<and>
    c' = c\<lparr>cf_groups := pre @ g\<lparr>gc_default := p\<rparr> # post\<rparr>"
proof -
  obtain gs where gs: "switch_first name p (cf_groups c) = Some gs" "c' = c\<lparr>cf_groups := gs\<rparr>"
    using assms by (auto simp: run_use_def split: option.splits)
  have "\<exists>pre g post. xs = pre @ g # post \<and> gc_name g = name \<and> (\<forall>h \<in> set pre. gc_name h \<noteq> name) \<and> gs = pre @ g\<lparr>gc_default := p\<rparr> # post"
    if "switch_first name p xs = Some gs" for xs gs
    using that
  proof (induction xs arbitrary: gs)
    case (Cons g xs)
    show ?case
    proof (cases "gc_name g = name")
      case True
      then show ?thesis using Cons.prems by (intro exI [of _ "[]"]) auto
    next
      case False
      then obtain gs1 where "switch_first name p xs = Some gs1" "gs = g # gs1" using Cons.prems by auto
      with Cons.IH obtain pre h post where "xs = pre @ h # post" "gc_name h = name" "\<forall>h \<in> set pre. gc_name h \<noteq> name"
        "gs = (g # pre) @ h\<lparr>gc_default := p\<rparr> # post" by fastforce
      then show ?thesis using False by (intro exI [of _ "g # pre"] exI [of _ h] exI [of _ post]) simp
    qed
  qed simp
  from this [OF gs(1)] gs(2) show ?thesis by blast
qed

definition demo_group :: group_config where
  "demo_group = \<lparr>gc_name = ''Auto'', gc_type = ''url-test'', gc_proxies = [''a''], gc_url = [], gc_interval = 0, gc_default = []\<rparr>"

text \<open>The group is no selector, and the proxy is none of its members.\<close>

lemma use_switches_group_witness:
  "\<exists>c'. run_use (Inr (zero_config\<lparr>cf_groups := [demo_group]\<rparr>)) [''Auto'', ''typo''] = Used c' \<and>
     cf_groups c' = [demo_group\<lparr>gc_default := ''typo''\<rparr>]"
proof -
  obtain c' where run: "run_use (Inr (zero_config\<lparr>cf_groups := [demo_group]\<rparr>)) [''Auto'', ''typo''] = Used c'"
    by (simp add: run_use_def demo_group_def)
  have "cf_groups (zero_config\<lparr>cf_groups := [demo_group]\<rparr>) = [demo_group]" by simp
  with use_switches_group [OF run] run show ?thesis by (auto simp: Cons_eq_append_conv)
qed

text \<open>The terminal interface does not start without a key, and the one of the file wins over that of the environment.\<close>

lemma tui_needs_key:
  assumes "tui_settings cfg_path agent_path prompt memory env_key found c = Some (a, path)"
  shows "af_api_key a \<noteq> [] \<and> af_base_url a \<noteq> [] \<and> af_model a \<noteq> [] \<and> (found = None \<longrightarrow> path = cfg_path)"
  using assms by (auto simp: tui_settings_def or_else_def Let_def split: option.splits if_splits)

text \<open> The counts of a replay add up, and every flow that is written carries a duration or was taken and written at the same time.\<close>

lemma replay_counts:
  assumes "run_replay decode now sinks (Inr (ls, err)) = (r, None)"
  shows "re_total r = length ls \<and> re_total r = re_ok r + re_skipped r \<and> length (re_written r) = re_ok r \<and> 0 < sinks \<and>
    re_written r = List.map_filter (\<lambda>l. if l = [] then None else map_option (finalize now) (decode l)) ls"
proof -
  define g where "g = (\<lambda>l. if l = [] then None else map_option (finalize now) (decode l))"
  have "re_total (fold (replay_line decode now) ls r) = re_total r + length ls \<and>
      re_ok (fold (replay_line decode now) ls r) + re_skipped (fold (replay_line decode now) ls r) = re_ok r + re_skipped r + length ls \<and>
      re_ok (fold (replay_line decode now) ls r) = re_ok r + length (List.map_filter g ls) \<and>
      re_written (fold (replay_line decode now) ls r) = re_written r @ List.map_filter g ls" for r
  proof (induction ls arbitrary: r)
    case Nil
    then show ?case by (simp add: map_filter_simps)
  next
    case (Cons l ls)
    show ?case
    proof (cases "l = [] \<or> decode l = None")
      case True
      then have "replay_line decode now l r = r\<lparr>re_total := re_total r + 1, re_skipped := re_skipped r + 1\<rparr>" "g l = None"
        by (auto simp: replay_line_def g_def Let_def)
      then show ?thesis using Cons.IH [of "replay_line decode now l r"] by (simp add: map_filter_simps)
    next
      case False
      then obtain f where "decode l = Some f" by auto
      then have "replay_line decode now l r = r\<lparr>re_total := re_total r + 1, re_ok := re_ok r + 1, re_written := re_written r @ [finalize now f]\<rparr>"
        "g l = Some (finalize now f)"
        using False by (auto simp: replay_line_def g_def Let_def)
      then show ?thesis using Cons.IH [of "replay_line decode now l r"] by (simp add: map_filter_simps)
    qed
  qed
  from this [of "\<lparr>re_total = 0, re_ok = 0, re_skipped = 0, re_written = []\<rparr>"]
  show ?thesis using assms by (auto simp: run_replay_def g_def Let_def split: if_splits)
qed

lemma replay_counts_witness:
  "\<exists>r. run_replay (\<lambda>l. None) now 1 (Inr ([''x'', []], None)) = (r, None) \<and> re_total r = 2 \<and> re_skipped r = 2 \<and> re_written r = []"
proof -
  obtain r :: replay where run: "run_replay (\<lambda>l. None) now 1 (Inr ([''x'', []], None)) = (r, None)"
    by (simp add: run_replay_def Let_def)
  have "re_skipped r = 2" using run by (auto simp: run_replay_def replay_line_def Let_def)
  with replay_counts [OF run] run show ?thesis by (auto simp: map_filter_simps)
qed

lemma follow_entries_sorted:
  "follow_entries seen es = (out, s) \<Longrightarrow>
   sorted_wrt (<) (map we_time out) \<and> (\<forall>e \<in> set out. seen < we_time e \<and> we_time e \<le> s) \<and> seen \<le> s \<and> set out \<subseteq> set es"
proof (induction es arbitrary: seen out s)
  case (Cons e es)
  show ?case
  proof (cases "we_time e \<le> seen")
    case True
    then show ?thesis using Cons by fastforce
  next
    case False
    obtain out1 where out1: "follow_entries (we_time e) es = (out1, s)" "out = e # out1"
      using Cons.prems False by (auto split: prod.splits)
    note ih = Cons.IH [OF out1(1)]
    have lt: "seen < we_time e" using False by simp
    then have "\<forall>x \<in> set out1. seen < we_time x" using ih by (meson less_trans)
    then show ?thesis using ih lt out1(2) by (auto intro: less_imp_le)
  qed
qed simp

lemma follow_ticks_sorted: "sorted_wrt (<) (map we_time (follow_ticks level seen fs)) \<and> (\<forall>e \<in> set (follow_ticks level seen fs). seen < we_time e)"
proof (induction fs arbitrary: seen)
  case (Cons f fs)
  obtain out s where t: "follow_tick f level seen = (out, s)" by fastforce
  note h = follow_entries_sorted [OF t [unfolded follow_tick_def]]
  note ih = Cons.IH [of s]
  have "\<forall>e \<in> set (follow_ticks level s fs). seen < we_time e" using ih h by (meson le_less_trans)
  moreover have "\<forall>x \<in> set out. \<forall>y \<in> set (follow_ticks level s fs). we_time x < we_time y" using ih h by (meson le_less_trans)
  ultimately show ?case using ih h by (auto simp: t sorted_wrt_append)
qed simp

text \<open> The times of the lines that \<open>logs --follow\<close> prints grow strictly: of the entries of one millisecond one is shown,
  the others are lost.\<close>

lemma follow_strictly_increasing: "sorted_wrt (<) (map we_time (follow_ticks level seen files))"
  using follow_ticks_sorted by blast

end
