(* ===== verification/Dashboard.thy ===== *)
theory Dashboard
  imports Web Config
begin

text \<open>
  The server of the dashboard (\<open>web/api.go\<close>, \<open>web/handlers.go\<close>): its routes, its handlers and the stream of log entries
  with the channels of its subscribers. The decoding of a JSON body is a parameter, JSON answers are constructors of the data
  that they encode, and a map is a list in the order in which the handler goes through it.
\<close>

section \<open>Data\<close>

record proxy_info =
  pi_name :: string
  pi_type :: string
  pi_alive :: bool
  pi_latency :: int

record rule_info =
  ru_type :: string
  ru_payload :: string
  ru_proxy :: string

record conn_info =
  ci_id :: string
  ci_source :: string
  ci_destination :: string
  ci_proxy :: string
  ci_upload :: "64 word"
  ci_download :: "64 word"
  ci_start :: string

record status_info =
  si_uptime :: nat
  si_mode :: string
  si_proxies :: nat
  si_rules :: nat
  si_memory :: nat

record dashboard =
  db_config :: web_config
  db_start :: nat
  db_mode :: string
  db_proxies :: "(string \<times> proxy_info) list"
  db_rules :: "rule_info list"
  db_conns :: "(string \<times> conn_info) list"
  db_stats :: "stats option"
  db_hook :: bool

definition new_dashboard :: "web_config \<Rightarrow> stats option \<Rightarrow> dashboard" where
  "new_dashboard cfg st =
     \<lparr>db_config = cfg, db_start = 0, db_mode = [], db_proxies = [], db_rules = [], db_conns = [], db_stats = st, db_hook = False\<rparr>"

definition set_proxies :: "(string \<times> proxy_info) list \<Rightarrow> dashboard \<Rightarrow> dashboard" where
  "set_proxies ps db = db\<lparr>db_proxies := ps\<rparr>"

definition set_rules :: "rule_info list \<Rightarrow> dashboard \<Rightarrow> dashboard" where
  "set_rules rs db = db\<lparr>db_rules := rs\<rparr>"

definition set_mode :: "string \<Rightarrow> dashboard \<Rightarrow> dashboard" where
  "set_mode m db = db\<lparr>db_mode := m\<rparr>"

definition on_proxy_select :: "dashboard \<Rightarrow> dashboard" where
  "on_proxy_select db = db\<lparr>db_hook := True\<rparr>"

text \<open>How a run ends: the context is cancelled and the server is shut down, or the server stops. The result is the error.\<close>

datatype server_end = ContextDone "string option" | ServerStops "string option"

definition dashboard_run :: "nat \<Rightarrow> server_end \<Rightarrow> dashboard \<Rightarrow> dashboard \<times> string option" where
  "dashboard_run now ending db = (db\<lparr>db_start := now\<rparr>, (case ending of ContextDone e \<Rightarrow> e | ServerStops e \<Rightarrow> e))"

definition dashboard_addr :: "web_config \<Rightarrow> string" where
  "dashboard_addr cfg = (if 0 < wc_port cfg then CHR '':'' # itoa_int (wc_port cfg) else '':9090'')"

section \<open>Requests\<close>

record web_req =
  wq_method :: string
  wq_path :: string
  wq_body :: string
  wq_now :: nat

datatype web_data =
    StatusData status_info | ProxyData "proxy_info list" | RuleData "rule_info list" | ConnData "conn_info list"
  | StatsData "string \<rightharpoonup> (string \<times> proxy_stat)" | OkData | ErrorText string | StaticFile string | LogStream | NoData

record web_resp =
  wr_status :: nat
  wr_headers :: "(string \<times> string) list"
  wr_data :: web_data

definition answer :: "nat \<Rightarrow> web_data \<Rightarrow> web_resp" where
  "answer code d = \<lparr>wr_status = code, wr_headers = [], wr_data = d\<rparr>"

definition handle_status :: "dashboard \<Rightarrow> web_req \<Rightarrow> web_resp" where
  "handle_status db q = answer 200 (StatusData \<lparr>si_uptime = wq_now q - db_start db, si_mode = db_mode db,
     si_proxies = length (db_proxies db), si_rules = length (db_rules db), si_memory = 0\<rparr>)"

text \<open>The second component is the call of the hook, if there is one.\<close>

definition handle_proxy_update :: "(string \<Rightarrow> string option) \<Rightarrow> dashboard \<Rightarrow> web_req \<Rightarrow> web_resp \<times> (string \<times> string) list" where
  "handle_proxy_update decode db q =
     (case split_all (CHR ''/'') (trim_prefix (wq_path q) ''/api/proxies/'') of
        [] \<Rightarrow> (answer 400 (ErrorText ''proxy name required''), [])
      | name # _ \<Rightarrow>
          if name = [] then (answer 400 (ErrorText ''proxy name required''), [])
          else case decode (wq_body q) of
              None \<Rightarrow> (answer 400 (ErrorText ''invalid body''), [])
            | Some p \<Rightarrow> (answer 200 OkData, if db_hook db then [(name, p)] else []))"

definition handle_proxies :: "(string \<Rightarrow> string option) \<Rightarrow> dashboard \<Rightarrow> web_req \<Rightarrow> web_resp \<times> (string \<times> string) list" where
  "handle_proxies decode db q =
     (if wq_method q = ''PUT'' then handle_proxy_update decode db q
      else (answer 200 (ProxyData (map snd (db_proxies db))), []))"

definition handle_rules :: "dashboard \<Rightarrow> web_resp" where
  "handle_rules db = answer 200 (RuleData (db_rules db))"

definition handle_connections :: "dashboard \<Rightarrow> web_resp" where
  "handle_connections db = answer 200 (ConnData (map snd (db_conns db)))"

definition handle_stats :: "dashboard \<Rightarrow> web_resp" where
  "handle_stats db = answer 200 (StatsData (case db_stats db of None \<Rightarrow> Map.empty | Some s \<Rightarrow> get_stats s))"

text \<open>The routes; the longest pattern that ends with a slash and is a prefix of the path wins when no pattern is the path.\<close>

definition web_mux :: "(string \<Rightarrow> string option) \<Rightarrow> dashboard \<Rightarrow> web_req \<Rightarrow> web_resp \<times> (string \<times> string) list" where
  "web_mux decode db q =
     (let p = wq_path q in
      if p = ''/api/status'' then (handle_status db q, [])
      else if p = ''/api/proxies'' \<or> has_prefix p ''/api/proxies/'' then handle_proxies decode db q
      else if p = ''/api/rules'' then (handle_rules db, [])
      else if p = ''/api/connections'' then (handle_connections db, [])
      else if p = ''/api/logs'' then (answer 200 LogStream, [])
      else if p = ''/api/stats'' then (handle_stats db, [])
      else (answer 200 (StaticFile p), []))"

definition cors_middleware :: "(web_req \<Rightarrow> web_resp \<times> 'a list) \<Rightarrow> web_req \<Rightarrow> web_resp \<times> 'a list" where
  "cors_middleware next_handler q =
     (let hs = [(''Access-Control-Allow-Origin'', ''*''), (''Access-Control-Allow-Methods'', ''GET, PUT, POST, DELETE, OPTIONS''),
                (''Access-Control-Allow-Headers'', ''Content-Type'')] in
      if wq_method q = ''OPTIONS'' then (\<lparr>wr_status = 200, wr_headers = hs, wr_data = NoData\<rparr>, [])
      else let (r, calls) = next_handler q in (r\<lparr>wr_headers := hs @ wr_headers r\<rparr>, calls))"

definition dashboard_serve :: "(string \<Rightarrow> string option) \<Rightarrow> dashboard \<Rightarrow> web_req \<Rightarrow> web_resp \<times> (string \<times> string) list" where
  "dashboard_serve decode db = cors_middleware (web_mux decode db)"

section \<open>The stream of log entries\<close>

text \<open>
  A client of \<open>/api/logs\<close> subscribes, then sends the recent entries, then what its channel delivers. \<open>hub_queue\<close> holds the
  channels, \<open>hub_sent\<close> what each client was sent and \<open>hub_slot\<close> the position of its subscription. The library recovers the
  panic of a handler, so that a failed end of a subscription leaves the ring as it is.
\<close>

record log_hub =
  hub_ring :: log_ring
  hub_queue :: "nat \<Rightarrow> web_entry list"
  hub_sent :: "nat \<Rightarrow> web_entry list"
  hub_slot :: "nat \<Rightarrow> nat option"

datatype hub_event = LogWritten web_entry | ClientOpens nat | ClientRecent nat | ClientTakes nat | ClientGone nat

definition channel_room :: nat where
  "channel_room = 64"

definition hub_deliver :: "web_entry \<Rightarrow> nat \<Rightarrow> (nat \<Rightarrow> web_entry list) \<Rightarrow> nat \<Rightarrow> web_entry list" where
  "hub_deliver e ch qs = (if length (qs ch) < channel_room then qs(ch := qs ch @ [e]) else qs)"

definition hub_step :: "hub_event \<Rightarrow> log_hub \<Rightarrow> log_hub" where
  "hub_step ev h = (case ev of
       LogWritten e \<Rightarrow> h\<lparr>hub_ring := ring_write (hub_ring h) e, hub_queue := fold (hub_deliver e) (lr_listeners (hub_ring h)) (hub_queue h)\<rparr>
     | ClientOpens ch \<Rightarrow> (let (r, i) = ring_subscribe (hub_ring h) ch in h\<lparr>hub_ring := r, hub_slot := (hub_slot h)(ch := Some i)\<rparr>)
     | ClientRecent ch \<Rightarrow> h\<lparr>hub_sent := (hub_sent h)(ch := hub_sent h ch @ ring_recent (hub_ring h) 50)\<rparr>
     | ClientTakes ch \<Rightarrow> (case hub_queue h ch of [] \<Rightarrow> h
         | e # es \<Rightarrow> h\<lparr>hub_queue := (hub_queue h)(ch := es), hub_sent := (hub_sent h)(ch := hub_sent h ch @ [e])\<rparr>)
     | ClientGone ch \<Rightarrow> (case hub_slot h ch of None \<Rightarrow> h
         | Some i \<Rightarrow> (case ring_unsubscribe (hub_ring h) i of None \<Rightarrow> h | Some r \<Rightarrow> h\<lparr>hub_ring := r\<rparr>)))"

definition hub_run :: "hub_event list \<Rightarrow> log_hub \<Rightarrow> log_hub" where
  "hub_run = fold hub_step"

definition new_hub :: "int \<Rightarrow> log_hub" where
  "new_hub n = \<lparr>hub_ring = new_log_ring n, hub_queue = (\<lambda>ch. []), hub_sent = (\<lambda>ch. []), hub_slot = (\<lambda>ch. None)\<rparr>"

section \<open>Facts about requests\<close>

lemma update_ignores_config: "handle_proxy_update decode (db\<lparr>db_config := c\<rparr>) q = handle_proxy_update decode db q"
  by (simp add: handle_proxy_update_def split: list.split option.split)

lemma serve_config: "dashboard_serve decode (db\<lparr>db_config := c\<rparr>) q = dashboard_serve decode db q"
proof -
  have "handle_proxies decode (db\<lparr>db_config := c\<rparr>) q = handle_proxies decode db q"
    by (simp add: handle_proxies_def update_ignores_config)
  moreover have "handle_status (db\<lparr>db_config := c\<rparr>) q = handle_status db q" "handle_rules (db\<lparr>db_config := c\<rparr>) = handle_rules db"
    "handle_connections (db\<lparr>db_config := c\<rparr>) = handle_connections db" "handle_stats (db\<lparr>db_config := c\<rparr>) = handle_stats db"
    by (simp_all add: handle_status_def handle_rules_def handle_connections_def handle_stats_def)
  ultimately have "web_mux decode (db\<lparr>db_config := c\<rparr>) q = web_mux decode db q" by (simp only: web_mux_def)
  then show ?thesis by (simp only: dashboard_serve_def cors_middleware_def)
qed

lemma update_answers:
  "fst (handle_proxy_update decode db q) \<in>
     answer 200 ` {OkData} \<union> answer 400 ` {ErrorText ''proxy name required'', ErrorText ''invalid body''}"
  "\<not> db_hook db \<Longrightarrow> snd (handle_proxy_update decode db q) = []"
  unfolding handle_proxy_update_def by (auto split: list.splits option.splits)

lemma proxies_answers:
  "wr_data (fst (handle_proxies decode db q)) \<in>
     {OkData, ErrorText ''proxy name required'', ErrorText ''invalid body'', ProxyData (map snd (db_proxies db))}"
  "\<not> db_hook db \<Longrightarrow> snd (handle_proxies decode db q) = []"
  using update_answers [where decode = decode and db = db and q = q] unfolding handle_proxies_def by (auto simp: answer_def)

lemma mux_answers:
  "wr_data (fst (web_mux decode db q)) \<in>
     {OkData, ErrorText ''proxy name required'', ErrorText ''invalid body'', ProxyData (map snd (db_proxies db)),
      wr_data (handle_status db q), RuleData (db_rules db), ConnData (map snd (db_conns db)), LogStream, wr_data (handle_stats db),
      StaticFile (wq_path q)}" (is "_ \<in> ?S")
  "\<not> db_hook db \<Longrightarrow> snd (web_mux decode db q) = []"
proof -
  have c: "(P1 \<Longrightarrow> f x1 \<in> S) \<Longrightarrow> (f x2 \<in> S) \<Longrightarrow> f (if P1 then x1 else x2) \<in> S" for P1 x1 x2 S and f :: "web_resp \<times> (string \<times> string) list \<Rightarrow> web_data"
    by simp
  have pr: "wr_data (fst (handle_proxies decode db q)) \<in> ?S" using proxies_answers(1) [where decode = decode and db = db and q = q] by blast
  show "wr_data (fst (web_mux decode db q)) \<in> ?S"
    unfolding web_mux_def Let_def
    by (rule c [where f = "\<lambda>x. wr_data (fst x)"], simp only: fst_conv insert_iff simp_thms,
        rule c [where f = "\<lambda>x. wr_data (fst x)"], rule pr,
        (rule c [where f = "\<lambda>x. wr_data (fst x)"],
          simp only: fst_conv handle_rules_def handle_connections_def answer_def web_resp.simps insert_iff simp_thms)+,
        simp only: fst_conv answer_def web_resp.simps insert_iff simp_thms)
  have d: "snd x1 = [] \<Longrightarrow> snd x2 = [] \<Longrightarrow> snd (if P then x1 else x2) = []" for P and x1 x2 :: "web_resp \<times> (string \<times> string) list" by simp
  show "snd (web_mux decode db q) = []" if "\<not> db_hook db"
    unfolding web_mux_def Let_def by (intro d snd_conv proxies_answers(2) that)
qed

text \<open> What the running program serves.\<close>

lemma dashboard_inert:
  "snd (dashboard_serve decode (new_dashboard cfg st) q) = [] \<and>
   dashboard_serve decode (new_dashboard (cfg\<lparr>wc_username := u, wc_password := p\<rparr>) st) q = dashboard_serve decode (new_dashboard cfg st) q \<and>
   wr_data (fst (dashboard_serve decode (new_dashboard cfg st) q)) \<in>
     {StatusData \<lparr>si_uptime = wq_now q, si_mode = [], si_proxies = 0, si_rules = 0, si_memory = 0\<rparr>, ProxyData [], RuleData [], ConnData [],
      StatsData (case st of None \<Rightarrow> Map.empty | Some s \<Rightarrow> get_stats s), OkData, ErrorText ''proxy name required'', ErrorText ''invalid body'',
      StaticFile (wq_path q), LogStream, NoData}" (is "?a \<and> ?b \<and> ?c \<in> ?S")
proof -
  let ?db = "new_dashboard cfg st"
  have "wr_data (fst (web_mux decode ?db q)) \<in> ?S"
    using mux_answers(1) [where decode = decode and db = ?db and q = q] by (auto simp: new_dashboard_def handle_status_def handle_stats_def answer_def)
  moreover have "snd (web_mux decode ?db q) = []"
    by (rule mux_answers(2)) (simp add: new_dashboard_def)
  moreover obtain r :: web_resp and calls where "web_mux decode ?db q = (r, calls)" by fastforce
  ultimately have "?a" "?c \<in> ?S"
    by (simp_all add: dashboard_serve_def cors_middleware_def Let_def)
  moreover have "new_dashboard (cfg\<lparr>wc_username := u, wc_password := p\<rparr>) st = ?db\<lparr>db_config := cfg\<lparr>wc_username := u, wc_password := p\<rparr>\<rparr>"
    by (simp add: new_dashboard_def)
  ultimately show ?thesis by (simp only: serve_config simp_thms)
qed

lemma split_first_segment: "x \<notin> set w \<Longrightarrow> \<exists>ws. split_all x (w @ x # s) = w # ws"
  by (induction w) (auto split: list.splits)

text \<open> A switch that is not made.\<close>

lemma select_answers_ok:
  assumes "g \<noteq> []" "CHR ''/'' \<notin> set g" "decode b = Some p" "g2 = [] \<or> hd g2 = CHR ''/''"
  shows "dashboard_serve decode db \<lparr>wq_method = ''PUT'', wq_path = ''/api/proxies/'' @ g @ g2, wq_body = b, wq_now = n\<rparr> =
    (\<lparr>wr_status = 200, wr_headers = [(''Access-Control-Allow-Origin'', ''*''), (''Access-Control-Allow-Methods'', ''GET, PUT, POST, DELETE, OPTIONS''),
        (''Access-Control-Allow-Headers'', ''Content-Type'')], wr_data = OkData\<rparr>, if db_hook db then [(g, p)] else [])"
proof -
  have pre: "has_prefix (''/api/proxies/'' @ g @ g2) ''/api/proxies/''" by (simp add: has_prefix_def)
  have ne: "''/api/proxies/'' @ g @ g2 \<noteq> ''/api/status''" by simp
  have tp: "trim_prefix (''/api/proxies/'' @ g @ g2) ''/api/proxies/'' = g @ g2" using pre by (simp add: trim_prefix_def)
  have "\<exists>ws. split_all (CHR ''/'') (g @ g2) = g # ws"
  proof (cases g2)
    case Nil
    then show ?thesis using split_all_no [OF assms(2)] by simp
  next
    case (Cons c s)
    then show ?thesis using split_first_segment [OF assms(2)] assms(4) by simp
  qed
  then obtain ws where ws: "split_all (CHR ''/'') (g @ g2) = g # ws" by blast
  have "handle_proxy_update decode db \<lparr>wq_method = ''PUT'', wq_path = ''/api/proxies/'' @ g @ g2, wq_body = b, wq_now = n\<rparr> =
      (answer 200 OkData, if db_hook db then [(g, p)] else [])"
    using assms(1,3) by (simp only: handle_proxy_update_def web_req.simps tp ws) simp
  then have "web_mux decode db \<lparr>wq_method = ''PUT'', wq_path = ''/api/proxies/'' @ g @ g2, wq_body = b, wq_now = n\<rparr> =
      (answer 200 OkData, if db_hook db then [(g, p)] else [])"
    using pre ne by (simp only: web_mux_def Let_def web_req.simps handle_proxies_def) simp
  then show ?thesis by (simp only: dashboard_serve_def cors_middleware_def Let_def web_req.simps) (simp add: answer_def)
qed

lemma select_answers_ok_witness:
  "snd (dashboard_serve Some (new_dashboard \<lparr>wc_enable = True, wc_port = 0, wc_username = ''u'', wc_password = ''p''\<rparr> None)
     \<lparr>wq_method = ''PUT'', wq_path = ''/api/proxies/Auto'', wq_body = ''x'', wq_now = 0\<rparr>) = []"
  using select_answers_ok [of "''Auto''" Some "''x''" "''x''" "[]"
      "new_dashboard \<lparr>wc_enable = True, wc_port = 0, wc_username = ''u'', wc_password = ''p''\<rparr> None" 0]
  by (simp add: new_dashboard_def)

section \<open>Facts about the stream\<close>

lemma hub_run_append: "hub_run (xs @ ys) h = hub_run ys (hub_run xs h)"
  by (simp add: hub_run_def)

lemma deliver_bound:
  "(\<And>ch. length (qs ch) \<le> channel_room) \<Longrightarrow> length (fold (hub_deliver e) chs qs ch) \<le> channel_room"
  by (induction chs arbitrary: qs) (auto simp: hub_deliver_def)

lemma hub_step_bound:
  assumes "\<And>ch. length (hub_queue h ch) \<le> channel_room"
  shows "length (hub_queue (hub_step ev h) ch) \<le> channel_room"
proof (cases ev)
  case (LogWritten e)
  then show ?thesis using deliver_bound [OF assms] by (simp add: hub_step_def)
next
  case (ClientTakes c)
  then show ?thesis using assms [of ch] assms [of c] by (auto simp: hub_step_def split: list.split)
qed (use assms in \<open>auto simp: hub_step_def ring_subscribe_def split: option.split\<close>)

lemma ring_write_length: "length (lr_entries r) \<le> lr_max r \<Longrightarrow> 0 < lr_max r \<Longrightarrow> length (lr_entries (ring_write r e)) \<le> lr_max r"
  by (auto simp: ring_write_def)

lemma hub_step_ring:
  assumes "length (lr_entries (hub_ring h)) \<le> lr_max (hub_ring h)" "0 < lr_max (hub_ring h)"
  shows "length (lr_entries (hub_ring (hub_step ev h))) \<le> lr_max (hub_ring h) \<and> lr_max (hub_ring (hub_step ev h)) = lr_max (hub_ring h)"
proof (cases ev)
  case (LogWritten e)
  then show ?thesis using assms ring_write_length [OF assms, of e] by (simp add: hub_step_def ring_write_def)
qed (use assms in \<open>auto simp: hub_step_def ring_subscribe_def ring_unsubscribe_def split: option.split list.split\<close>)

text \<open> Room.\<close>

lemma hub_bounded:
  "length (hub_queue (hub_run evs (new_hub n)) ch) \<le> 64 \<and>
   length (lr_entries (hub_ring (hub_run evs (new_hub n)))) \<le> lr_max (new_log_ring n)"
proof -
  have "(\<forall>ch. length (hub_queue (hub_run evs (new_hub n)) ch) \<le> channel_room) \<and>
      length (lr_entries (hub_ring (hub_run evs (new_hub n)))) \<le> lr_max (new_log_ring n) \<and>
      lr_max (hub_ring (hub_run evs (new_hub n))) = lr_max (new_log_ring n)"
  proof (induction evs rule: rev_induct)
    case Nil
    then show ?case by (simp add: hub_run_def new_hub_def new_log_ring_def)
  next
    case (snoc ev evs)
    let ?h = "hub_run evs (new_hub n)"
    have st: "hub_run (evs @ [ev]) (new_hub n) = hub_step ev ?h" by (simp add: hub_run_def)
    have "0 < lr_max (hub_ring ?h)" using snoc by (simp add: new_log_ring_def)
    then show ?case unfolding st using hub_step_bound [of ?h ev] hub_step_ring [of ?h ev] snoc by auto
  qed
  then show ?thesis by (simp add: channel_room_def)
qed

lemma run_writes:
  assumes "lr_listeners (hub_ring h) = pre @ ch # post" "ch \<notin> set pre" "ch \<notin> set post"
    and "length (hub_queue h ch) + length es \<le> channel_room"
  shows "hub_queue (hub_run (map LogWritten es) h) ch = hub_queue h ch @ es \<and>
    hub_ring (hub_run (map LogWritten es) h) = foldl ring_write (hub_ring h) es \<and> hub_sent (hub_run (map LogWritten es) h) = hub_sent h"
  using assms(1,4)
proof (induction es arbitrary: h)
  case Nil
  then show ?case by (simp add: hub_run_def)
next
  case (Cons e es)
  have other: "ch \<notin> set chs \<Longrightarrow> fold (hub_deliver e) chs qs ch = qs ch" for chs qs
    by (induction chs arbitrary: qs) (auto simp: hub_deliver_def)
  let ?h = "hub_step (LogWritten e) h"
  have q: "hub_queue ?h ch = hub_queue h ch @ [e]"
    using Cons.prems assms(2,3) other by (simp add: hub_step_def hub_deliver_def)
  have r: "hub_ring ?h = ring_write (hub_ring h) e" "hub_sent ?h = hub_sent h" by (simp_all add: hub_step_def)
  have "lr_listeners (hub_ring ?h) = pre @ ch # post" using Cons.prems by (simp add: r ring_write_def)
  then show ?case using Cons.IH [of ?h] Cons.prems(2) q r by (simp add: hub_run_def)
qed

lemma run_takes:
  "hub_queue h ch = es \<Longrightarrow> hub_sent (hub_run (replicate (length es) (ClientTakes ch)) h) ch = hub_sent h ch @ es"
proof (induction es arbitrary: h)
  case (Cons e es)
  then show ?case
    using Cons.IH [of "hub_step (ClientTakes ch) h"] by (simp add: hub_run_def hub_step_def)
qed (simp add: hub_run_def)

lemma run_writes_alone:
  "lr_listeners (hub_ring h) = [] \<Longrightarrow> hub_run (map LogWritten es) h = h\<lparr>hub_ring := foldl ring_write (hub_ring h) es\<rparr>"
proof (induction es arbitrary: h)
  case (Cons e es)
  have "lr_listeners (hub_ring (hub_step (LogWritten e) h)) = []" using Cons.prems by (simp add: hub_step_def ring_write_def)
  from Cons.IH [OF this] Cons.prems show ?case by (simp add: hub_run_def hub_step_def)
qed (simp add: hub_run_def)

lemma foldl_write_listeners: "foldl ring_write (r\<lparr>lr_listeners := ls\<rparr>) es = (foldl ring_write r es)\<lparr>lr_listeners := ls\<rparr>"
proof (induction es arbitrary: r)
  case (Cons e es)
  have "ring_write (r\<lparr>lr_listeners := ls\<rparr>) e = (ring_write r e)\<lparr>lr_listeners := ls\<rparr>" by (simp add: ring_write_def)
  then show ?case using Cons by simp
qed simp

text \<open> What a client of the stream gets.\<close>

lemma stream_repeats:
  assumes "length es \<le> 64"
  shows "hub_sent (hub_run (map LogWritten old @ [ClientOpens ch] @ map LogWritten es @ [ClientRecent ch] @
      replicate (length es) (ClientTakes ch)) (new_hub n)) ch = ring_recent (ring_of n (old @ es)) 50 @ es"
proof -
  let ?h1 = "hub_run (map LogWritten old) (new_hub n)"
  have h1: "hub_ring ?h1 = ring_of n old" "hub_queue ?h1 ch = []" "hub_sent ?h1 ch = []"
    by (simp_all add: run_writes_alone new_hub_def new_log_ring_def ring_of_def)
  have l1: "lr_listeners (ring_of n old) = []"
    unfolding ring_of_def by (induction old rule: rev_induct) (simp_all add: new_log_ring_def ring_write_def)
  define h2 where "h2 = hub_step (ClientOpens ch) ?h1"
  have h2: "hub_ring h2 = (ring_of n old)\<lparr>lr_listeners := [ch]\<rparr>" "hub_queue h2 ch = []" "hub_sent h2 ch = []"
    using l1 by (simp_all add: h2_def hub_step_def ring_subscribe_def h1)
  define h3 where "h3 = hub_run (map LogWritten es) h2"
  have h3: "hub_queue h3 ch = es" "hub_ring h3 = foldl ring_write (hub_ring h2) es" "hub_sent h3 = hub_sent h2"
    using run_writes [of h2 "[]" ch "[]" es] h2 assms by (simp_all add: h3_def channel_room_def)
  have "ring_recent (hub_ring h3) 50 = ring_recent (ring_of n (old @ es)) 50"
    by (simp add: h3(2) h2(1) foldl_write_listeners ring_of_def ring_recent_def)
  then have "hub_sent (hub_step (ClientRecent ch) h3) ch = ring_recent (ring_of n (old @ es)) 50"
    by (simp add: hub_step_def h3(3) h2(3))
  moreover have "hub_queue (hub_step (ClientRecent ch) h3) ch = es" by (simp add: hub_step_def h3(1))
  ultimately have "hub_sent (hub_run (replicate (length es) (ClientTakes ch)) (hub_step (ClientRecent ch) h3)) ch =
      ring_recent (ring_of n (old @ es)) 50 @ es"
    by (simp add: run_takes)
  then show ?thesis by (simp add: hub_run_append) (simp add: hub_run_def h2_def h3_def)
qed

text \<open>The entry that is written while the client subscribes arrives twice.\<close>

lemma stream_repeats_witness:
  "hub_sent (hub_run [ClientOpens 0, LogWritten web_demo_entry, ClientRecent 0, ClientTakes 0] (new_hub 1000)) 0 = [web_demo_entry, web_demo_entry]"
  using stream_repeats [of "[web_demo_entry]" "[]" 0 1000]
  by (simp add: ring_recent_def ring_of_def ring_write_def new_log_ring_def)

text \<open> Clients that leave in the order in which they came.\<close>

lemma gone_clients_mix:
  assumes "distinct [a, b, c]"
  shows "let h = hub_run [ClientOpens a, ClientOpens b, ClientOpens c, ClientGone a, ClientGone b] (new_hub n) in
    lr_listeners (hub_ring h) = [b] \<and> hub_queue (hub_run (map LogWritten es) h) c = []"
proof -
  define h where "h = hub_run [ClientOpens a, ClientOpens b, ClientOpens c, ClientGone a, ClientGone b] (new_hub n)"
  have h: "lr_listeners (hub_ring h) = [b]" "hub_queue h c = []"
    using assms by (simp_all add: h_def hub_run_def hub_step_def new_hub_def new_log_ring_def ring_subscribe_def ring_unsubscribe_def)
  have "lr_listeners (hub_ring g) = [b] \<Longrightarrow> hub_queue (hub_run (map LogWritten es) g) c = hub_queue g c" for g
  proof (induction es arbitrary: g)
    case (Cons e es)
    have "lr_listeners (hub_ring (hub_step (LogWritten e) g)) = [b]" using Cons.prems by (simp add: hub_step_def ring_write_def)
    from Cons.IH [OF this] show ?case using Cons.prems assms by (simp add: hub_run_def hub_step_def hub_deliver_def)
  qed (simp add: hub_run_def)
  then show ?thesis using h by (simp add: h_def Let_def)
qed

lemma gone_clients_mix_witness:
  "hub_queue (hub_run (map LogWritten [web_demo_entry])
     (hub_run [ClientOpens 0, ClientOpens 1, ClientOpens 2, ClientGone 0, ClientGone 1] (new_hub 5))) 2 = []"
  using gone_clients_mix [of 0 1 2 5 "[web_demo_entry]"] by (simp add: Let_def)

end
