(* ===== verification/Flow_Sinks.thy ===== *)
theory Flow_Sinks
  imports Flow
begin

text \<open>
  Where flows are written: the file of JSON lines (\<open>JSONFlowSink\<close> in \<open>listener/flow.go\<close>) and the table of a database
  (\<open>listener/sqlite_sink.go\<close>). The encoding of JSON, the format of times and the errors of the database are parameters.
  The table is the list of its rows in the order in which they were inserted; its primary key is the identity of the flow.
\<close>

section \<open>The file\<close>

definition json_sink_write :: "(flow \<Rightarrow> string option) \<Rightarrow> flow \<Rightarrow> string list \<Rightarrow> string list" where
  "json_sink_write marshal f file = (case marshal f of None \<Rightarrow> file | Some line \<Rightarrow> file @ [line])"

section \<open>The table\<close>

record flow_row =
  fr_id :: string
  fr_ts :: string
  fr_protocol :: string
  fr_target :: string
  fr_client :: string
  fr_method :: string
  fr_path :: string
  fr_full_url :: string
  fr_proxy :: string
  fr_status :: int
  fr_resp_proto :: string
  fr_error :: string
  fr_duration :: nat
  fr_req_bytes :: "64 word"
  fr_resp_bytes :: "64 word"
  fr_intercepted :: nat
  fr_req_proto :: string
  fr_req_headers :: string
  fr_resp_headers :: string
  fr_req_body :: "string option"
  fr_resp_body :: "string option"

text \<open>What the setup may fail with, in the order of its steps.\<close>

datatype sqlite_err = SqlitePathRequired | SqliteMkdir string | SqliteOpen string | SqliteTable string | SqliteIndexTs string | SqliteIndexTarget string

record sqlite_env =
  sq_mkdir :: "string \<Rightarrow> string option"
  sq_open :: "string \<Rightarrow> string option"
  sq_table :: "string option"
  sq_index_ts :: "string option"
  sq_index_target :: "string option"

text \<open>\<open>dir\<close> is the directory of the path.\<close>

definition new_sqlite_sink :: "sqlite_env \<Rightarrow> string \<Rightarrow> string \<Rightarrow> sqlite_err option" where
  "new_sqlite_sink env dir path =
     (if path = [] then Some SqlitePathRequired
      else case (if dir \<noteq> ''.'' \<and> dir \<noteq> [] then sq_mkdir env dir else None) of
        Some e \<Rightarrow> Some (SqliteMkdir e)
      | None \<Rightarrow> (case sq_open env (path @ ''?_pragma=journal_mode=WAL&_pragma=busy_timeout=5000&_pragma=synchronous=NORMAL'') of
          Some e \<Rightarrow> Some (SqliteOpen e)
        | None \<Rightarrow> (case sq_table env of Some e \<Rightarrow> Some (SqliteTable e)
          | None \<Rightarrow> (case sq_index_ts env of Some e \<Rightarrow> Some (SqliteIndexTs e)
            | None \<Rightarrow> (case sq_index_target env of Some e \<Rightarrow> Some (SqliteIndexTarget e) | None \<Rightarrow> None)))))"

definition nullable_base64 :: "bytes \<Rightarrow> string option" where
  "nullable_base64 b = (if b = [] then None else Some (b64_encode False True b))"

definition flow_row_of :: "(nat \<Rightarrow> string) \<Rightarrow> (string list \<Rightarrow> string option) \<Rightarrow> flow \<Rightarrow> flow_row" where
  "flow_row_of format_time marshal f =
     (let headers = (\<lambda>hs. case marshal hs of None \<Rightarrow> ''[]'' | Some s \<Rightarrow> s) in
      \<lparr>fr_id = fl_id f, fr_ts = format_time (fl_time f), fr_protocol = fl_protocol f, fr_target = fl_target f, fr_client = fl_client f,
       fr_method = fl_method f, fr_path = fl_path f, fr_full_url = fl_full_url f, fr_proxy = fl_proxy f, fr_status = fl_status f,
       fr_resp_proto = fl_resp_proto f, fr_error = fl_error f, fr_duration = fl_duration f, fr_req_bytes = fl_req_bytes f,
       fr_resp_bytes = fl_resp_bytes f, fr_intercepted = (if fl_intercepted f then 1 else 0), fr_req_proto = fl_req_proto f,
       fr_req_headers = headers (fl_req_headers f), fr_resp_headers = headers (fl_resp_headers f),
       fr_req_body = nullable_base64 (fl_req_body f), fr_resp_body = nullable_base64 (fl_resp_body f)\<rparr>)"

definition insert_or_replace :: "flow_row \<Rightarrow> flow_row list \<Rightarrow> flow_row list" where
  "insert_or_replace row t = filter (\<lambda>r. fr_id r \<noteq> fr_id row) t @ [row]"

text \<open>A failed statement is logged only. \<open>fails\<close> says whether the statement for a row fails.\<close>

definition sqlite_write ::
  "(nat \<Rightarrow> string) \<Rightarrow> (string list \<Rightarrow> string option) \<Rightarrow> (flow_row \<Rightarrow> bool) \<Rightarrow> nat \<Rightarrow> flow \<Rightarrow> flow_row list \<Rightarrow> flow_row list" where
  "sqlite_write format_time marshal fails now f t =
     (let row = flow_row_of format_time marshal (finalize now f) in if fails row then t else insert_or_replace row t)"

text \<open>The flows that a process writes, each with the time of its write.\<close>

definition sqlite_write_all ::
  "(nat \<Rightarrow> string) \<Rightarrow> (string list \<Rightarrow> string option) \<Rightarrow> (flow_row \<Rightarrow> bool) \<Rightarrow> (nat \<times> flow) list \<Rightarrow> flow_row list \<Rightarrow> flow_row list" where
  "sqlite_write_all format_time marshal fails fs t = fold (\<lambda>(now, f). sqlite_write format_time marshal fails now f) fs t"

section \<open>Facts\<close>

text \<open> Bodies.\<close>

lemma sqlite_body_roundtrip:
  "(case fr_req_body (flow_row_of ft ms f) of None \<Rightarrow> Some [] | Some s \<Rightarrow> b64_decode False True s) = Some (fl_req_body f) \<and>
   (case fr_resp_body (flow_row_of ft ms f) of None \<Rightarrow> Some [] | Some s \<Rightarrow> b64_decode False True s) = Some (fl_resp_body f)"
  by (simp add: flow_row_of_def nullable_base64_def b64_roundtrip Let_def)

lemma finalize_id [simp]: "fl_id (finalize now f) = fl_id f"
  by (simp add: finalize_def)

lemma row_id [simp]: "fr_id (flow_row_of ft ms f) = fl_id f"
  by (simp add: flow_row_of_def Let_def)

lemma insert_distinct: "distinct (map fr_id t) \<Longrightarrow> distinct (map fr_id (insert_or_replace row t))"
  by (auto simp: insert_or_replace_def distinct_map inj_on_def)

text \<open> Keys.\<close>

lemma sqlite_keys_distinct: "distinct (map fr_id (sqlite_write_all ft ms fails fs []))"
proof -
  have "distinct (map fr_id t) \<Longrightarrow> distinct (map fr_id (sqlite_write_all ft ms fails fs t))" for t
  proof (induction fs arbitrary: t)
    case (Cons nf fs)
    then show ?case
      by (cases nf) (simp add: sqlite_write_all_def sqlite_write_def insert_distinct Let_def)
  qed (simp add: sqlite_write_all_def)
  then show ?thesis by simp
qed

text \<open>What is left of a table after further writes: the rows whose identities did not come again.\<close>

lemma filter_insert:
  "filter P (insert_or_replace row t) = filter (\<lambda>r. P r \<and> fr_id r \<noteq> fr_id row) t @ (if P row then [row] else [])"
  by (auto simp: insert_or_replace_def intro!: filter_cong)

lemma write_all_split:
  "sqlite_write_all ft ms (\<lambda>r. False) fs t =
     filter (\<lambda>r. fr_id r \<notin> (fl_id \<circ> snd) ` set fs) t @ sqlite_write_all ft ms (\<lambda>r. False) fs []"
proof (induction fs arbitrary: t)
  case (Cons nf fs)
  obtain now f where nf: "nf = (now, f)" by fastforce
  let ?row = "flow_row_of ft ms (finalize now f)" and ?P = "\<lambda>r. fr_id r \<notin> (fl_id \<circ> snd) ` set fs"
  let ?w = "sqlite_write_all ft ms (\<lambda>r. False) fs"
  have step: "sqlite_write_all ft ms (\<lambda>r. False) (nf # fs) t = ?w (insert_or_replace ?row t)" for t
    by (simp add: sqlite_write_all_def sqlite_write_def nf Let_def)
  have "?w (insert_or_replace ?row t) = filter ?P (insert_or_replace ?row t) @ ?w []" by (rule Cons.IH)
  also have "filter ?P (insert_or_replace ?row t) =
      filter (\<lambda>r. fr_id r \<notin> (fl_id \<circ> snd) ` set (nf # fs)) t @ filter ?P (insert_or_replace ?row [])"
    unfolding filter_insert by (auto simp: nf intro!: filter_cong)
  also have "(filter (\<lambda>r. fr_id r \<notin> (fl_id \<circ> snd) ` set (nf # fs)) t @ filter ?P (insert_or_replace ?row [])) @ ?w [] =
      filter (\<lambda>r. fr_id r \<notin> (fl_id \<circ> snd) ` set (nf # fs)) t @ ?w (insert_or_replace ?row [])"
    using Cons.IH [of "insert_or_replace ?row []"] by simp
  finally show ?case unfolding step .
qed (simp add: sqlite_write_all_def)

lemma write_all_ids:
  "r \<in> set (sqlite_write_all ft ms (\<lambda>r. False) fs t) \<Longrightarrow> r \<in> set t \<or> fr_id r \<in> fl_id ` snd ` set fs"
proof (induction fs arbitrary: t)
  case (Cons nf fs)
  obtain now f where nf: "nf = (now, f)" by fastforce
  let ?t = "insert_or_replace (flow_row_of ft ms (finalize now f)) t"
  have "r \<in> set (sqlite_write_all ft ms (\<lambda>r. False) fs ?t)"
    using Cons.prems by (simp add: sqlite_write_all_def sqlite_write_def nf Let_def)
  from Cons.IH [OF this] show ?case by (auto simp: nf insert_or_replace_def)
qed (simp add: sqlite_write_all_def)

lemma flow_ids_take: "k \<le> j \<Longrightarrow> flow_ids k c = take k (flow_ids j c)"
  by (rule nth_equalityI) (simp_all add: flow_ids_nth)

text \<open> The last flow with an identity.\<close>

lemma sqlite_last_wins:
  assumes "fl_id f \<notin> fl_id ` snd ` set fs2"
  shows "filter (\<lambda>r. fr_id r = fl_id f) (sqlite_write_all ft ms (\<lambda>r. False) (fs1 @ (now, f) # fs2) []) =
    [flow_row_of ft ms (finalize now f)]"
proof -
  let ?w = "sqlite_write_all ft ms (\<lambda>r. False)" and ?row = "flow_row_of ft ms (finalize now f)"
  have "?w (fs1 @ (now, f) # fs2) [] = ?w fs2 (insert_or_replace ?row (?w fs1 []))"
    by (simp add: sqlite_write_all_def sqlite_write_def Let_def)
  also have "\<dots> = filter (\<lambda>r. fr_id r \<notin> (fl_id \<circ> snd) ` set fs2) (insert_or_replace ?row (?w fs1 [])) @ ?w fs2 []"
    by (rule write_all_split)
  finally have eq: "?w (fs1 @ (now, f) # fs2) [] = \<dots>" .
  have "filter (\<lambda>r. fr_id r = fl_id f) (?w fs2 []) = []"
    unfolding filter_empty_conv using write_all_ids [of _ ft ms fs2 "[]"] assms by (metis empty_iff list.set(1))
  moreover have "filter (\<lambda>r. fr_id r = fl_id f) (filter (\<lambda>r. fr_id r \<notin> (fl_id \<circ> snd) ` set fs2) (insert_or_replace ?row t)) = [?row]" for t
    using assms by (auto simp: insert_or_replace_def filter_empty_conv)
  ultimately show ?thesis by (simp only: eq filter_append append_Nil2)
qed

definition demo_flow :: "string \<Rightarrow> flow" where
  "demo_flow target = fst (new_flow 0 0 ''http'' target ''c'')"

lemma sqlite_last_wins_witness:
  "filter (\<lambda>r. fr_id r = fl_id (demo_flow ''b'')) (sqlite_write_all (\<lambda>t. []) (\<lambda>h. None) (\<lambda>r. False) [(1, demo_flow ''a''), (2, demo_flow ''b'')] []) =
     [flow_row_of (\<lambda>t. []) (\<lambda>h. None) (finalize 2 (demo_flow ''b''))]"
  using sqlite_last_wins [of "demo_flow ''b''" "[]" "\<lambda>t. []" "\<lambda>h. None" "[(1, demo_flow ''a'')]" 2] by simp

text \<open> A restart.\<close>

lemma restart_replaces:
  assumes "map (fl_id \<circ> snd) fs1 = flow_ids k 0" "map (fl_id \<circ> snd) fs2 = flow_ids j 0" "k \<le> j"
  shows "sqlite_write_all ft ms (\<lambda>r. False) fs2 (sqlite_write_all ft ms (\<lambda>r. False) fs1 []) = sqlite_write_all ft ms (\<lambda>r. False) fs2 []"
proof -
  let ?w = "sqlite_write_all ft ms (\<lambda>r. False)"
  have "set (flow_ids k 0) \<subseteq> set (flow_ids j 0)"
    unfolding flow_ids_take [OF assms(3)] by (rule set_take_subset)
  then have sub: "fl_id ` snd ` set fs1 \<subseteq> (fl_id \<circ> snd) ` set fs2"
    using assms(1,2) by (metis image_comp set_map)
  have "filter (\<lambda>r. fr_id r \<notin> (fl_id \<circ> snd) ` set fs2) (?w fs1 []) = []"
    unfolding filter_empty_conv using write_all_ids [of _ ft ms fs1 "[]"] sub by (metis empty_iff list.set(1) subsetD)
  then show ?thesis using write_all_split [of ft ms fs2 "?w fs1 []"] by simp
qed

lemma restart_replaces_witness:
  "sqlite_write_all (\<lambda>t. []) (\<lambda>h. None) (\<lambda>r. False) [(5, demo_flow ''new'')]
     (sqlite_write_all (\<lambda>t. []) (\<lambda>h. None) (\<lambda>r. False) [(1, demo_flow ''old'')] []) =
   sqlite_write_all (\<lambda>t. []) (\<lambda>h. None) (\<lambda>r. False) [(5, demo_flow ''new'')] []"
  using restart_replaces [of "[(1, demo_flow ''old'')]" 1 "[(5, demo_flow ''new'')]" 1]
  by (simp add: demo_flow_def new_flow_def next_flow_id_def)

end
