(* ===== verification/Netdiag.thy ===== *)
theory Netdiag
  imports Agent_Line
begin

text \<open>
  The diagnosis of the machine (package \<open>netdiag\<close>): the table of sockets with its filter and its
  counters (\<open>netdiag.go\<close>), interfaces, protocol counters, routing tables and open files
  (\<open>interfaces.go\<close>, \<open>proto.go\<close>, \<open>routes.go\<close>, \<open>fd.go\<close>), and the command that calls them
  (\<open>cmd/netdiag.go\<close>). What the operating system answers (gopsutil, \<open>/proc\<close>, the output of \<open>route\<close>)
  is an argument.
\<close>

section \<open>Sockets\<close>

record conn_stat =
  ct_family :: nat
  ct_type :: nat
  ct_laddr :: "string \<times> nat"
  ct_raddr :: "string \<times> nat"
  ct_status :: string
  ct_pid :: int

record connection =
  cn_proto :: string
  cn_local_ip :: string
  cn_local_port :: int
  cn_remote_ip :: string
  cn_remote_port :: int
  cn_state :: string
  cn_pid :: int
  cn_process :: string

text \<open>\<open>toConnection\<close>. The names of the processes are looked up once each; \<open>proc_name\<close> answers the lookups.\<close>

definition socket_proto :: "conn_stat \<Rightarrow> string" where
  "socket_proto c =
     (if ct_type c = 1 then ''tcp'' else if ct_type c = 2 then ''udp'' else ''raw'') @
     (if ct_family c = 10 then ''6'' else [])"

definition process_of :: "(int \<Rightarrow> string) \<Rightarrow> int \<Rightarrow> (int \<rightharpoonup> string) \<Rightarrow> string \<times> (int \<rightharpoonup> string)" where
  "process_of proc_name pid cache =
     (if pid \<le> 0 then ([], cache)
      else case cache pid of Some name \<Rightarrow> (name, cache) | None \<Rightarrow> (proc_name pid, cache(pid \<mapsto> proc_name pid)))"

definition to_connection :: "(int \<Rightarrow> string) \<Rightarrow> conn_stat \<Rightarrow> (int \<rightharpoonup> string) \<Rightarrow> connection \<times> (int \<rightharpoonup> string)" where
  "to_connection proc_name c cache =
     (let (name, cache') = process_of proc_name (ct_pid c) cache
      in (\<lparr>cn_proto = socket_proto c, cn_local_ip = fst (ct_laddr c), cn_local_port = int (snd (ct_laddr c)),
           cn_remote_ip = fst (ct_raddr c), cn_remote_port = int (snd (ct_raddr c)), cn_state = ct_status c,
           cn_pid = ct_pid c, cn_process = name\<rparr>, cache'))"

text \<open>\<open>Filter\<close>. \<open>fmt.Sscanf(p, "%d", &portN)\<close> on a signed variable leaves 0 when it fails.\<close>

record conn_filter =
  fl_proto :: string
  fl_pid :: int
  fl_port :: int
  fl_state :: string
  fl_src :: string
  fl_dst :: string

definition sscanf_port :: "string \<Rightarrow> int" where
  "sscanf_port s =
     (let t = dropWhile (\<lambda>c. is_space c \<and> c \<noteq> LF) s;
          neg = has_prefix t ''-'';
          u = (if neg \<or> has_prefix t ''+'' then drop 1 t else t);
          ds = takeWhile is_digit u; n = int (num_of_digits 0 ds); v = (if neg then - n else n)
      in if ds = [] \<or> v < - (2 ^ 63) \<or> 2 ^ 63 - 1 < v then 0 else v)"

definition ip_port_match :: "string \<Rightarrow> int \<Rightarrow> string \<Rightarrow> bool" where
  "ip_port_match ip port spec =
     (if spec = [] then True
      else case split_host_port spec of
        None \<Rightarrow> ip = spec \<or> ip = ''::ffff:'' @ spec
      | Some (h, p) \<Rightarrow>
          if ip \<noteq> h \<and> ip \<noteq> ''::ffff:'' @ h then False
          else if p = [] then True else port = sscanf_port p)"

definition filter_matches :: "conn_filter \<Rightarrow> connection \<Rightarrow> bool" where
  "filter_matches f c \<longleftrightarrow>
     (fl_proto f \<noteq> [] \<and> fl_proto f \<noteq> ''all'' \<longrightarrow> contains (to_lower (cn_proto c)) (to_lower (fl_proto f))) \<and>
     (fl_state f \<noteq> [] \<longrightarrow> equal_fold (cn_state c) (fl_state f)) \<and>
     (0 < fl_port f \<longrightarrow> cn_local_port c = fl_port f \<or> cn_remote_port c = fl_port f) \<and>
     (fl_src f \<noteq> [] \<longrightarrow> ip_port_match (cn_local_ip c) (cn_local_port c) (fl_src f)) \<and>
     (fl_dst f \<noteq> [] \<longrightarrow> ip_port_match (cn_remote_ip c) (cn_remote_port c) (fl_dst f))"

definition flt_matches :: "conn_filter option \<Rightarrow> connection \<Rightarrow> bool" where
  "flt_matches flt c = (case flt of None \<Rightarrow> True | Some f \<Rightarrow> filter_matches f c)"

text \<open>\<open>GetConnections\<close>. The system answers a sweep over a kind of sockets, or over the sockets of a
  process, with an error or the sockets.\<close>

record netstat =
  ns_all :: "string \<Rightarrow> string + conn_stat list"
  ns_pid :: "string \<Rightarrow> int \<Rightarrow> string + conn_stat list"
  ns_name :: "int \<Rightarrow> string"

definition sweep_kind :: "string \<Rightarrow> string" where
  "sweep_kind proto = (let p = to_lower proto in
     if p = ''tcp'' then ''tcp'' else if p = ''udp'' then ''udp''
     else if List.member [''unix'', ''u'', ''local''] p then ''unix'' else ''all'')"

definition sweep :: "netstat \<Rightarrow> string \<Rightarrow> conn_filter option \<Rightarrow> string + conn_stat list" where
  "sweep sys proto flt =
     (let kind = sweep_kind proto in
      case flt of
        Some f \<Rightarrow> if 0 < fl_pid f then ns_pid sys (if kind = ''unix'' then ''unix'' else ''all'') (fl_pid f) else ns_all sys kind
      | None \<Rightarrow> ns_all sys kind)"

fun collect :: "(int \<Rightarrow> string) \<Rightarrow> conn_filter option \<Rightarrow> (int \<rightharpoonup> string) \<Rightarrow> conn_stat list \<Rightarrow> connection list" where
  "collect proc_name flt cache [] = []"
| "collect proc_name flt cache (c # cs) =
     (let (conn, cache') = to_connection proc_name c cache; rest = collect proc_name flt cache' cs
      in if flt_matches flt conn then conn # rest else rest)"

definition get_connections :: "netstat \<Rightarrow> string \<Rightarrow> conn_filter option \<Rightarrow> string + connection list" where
  "get_connections sys proto flt = (case sweep sys proto flt of
       Inl e \<Rightarrow> Inl (''get connections: '' @ e)
     | Inr raw \<Rightarrow> Inr (collect (ns_name sys) flt Map.empty raw))"

definition is_listener :: "connection \<Rightarrow> bool" where
  "is_listener c \<longleftrightarrow> contains (cn_proto c) ''tcp'' \<and> cn_state c = ''LISTEN''"

definition get_listeners :: "netstat \<Rightarrow> conn_filter option \<Rightarrow> string + connection list" where
  "get_listeners sys flt = map_sum id (filter is_listener) (get_connections sys ''all'' flt)"

text \<open>\<open>GetStats\<close>. The counters are 64-bit; a table that makes them wrap does not fit into memory.\<close>

record net_stats =
  st_total :: nat
  st_tcp :: nat
  st_udp :: nat
  st_established :: nat
  st_time_wait :: nat
  st_close_wait :: nat
  st_listen :: nat
  st_syn_sent :: nat
  st_syn_recv :: nat
  st_fin_wait_1 :: nat
  st_fin_wait_2 :: nat
  st_last_ack :: nat
  st_closing :: nat

definition no_stats :: net_stats where
  "no_stats = \<lparr>st_total = 0, st_tcp = 0, st_udp = 0, st_established = 0, st_time_wait = 0, st_close_wait = 0, st_listen = 0,
     st_syn_sent = 0, st_syn_recv = 0, st_fin_wait_1 = 0, st_fin_wait_2 = 0, st_last_ack = 0, st_closing = 0\<rparr>"

definition count_state :: "string \<Rightarrow> net_stats \<Rightarrow> net_stats" where
  "count_state s st =
     (if s = ''ESTABLISHED'' then st\<lparr>st_established := st_established st + 1\<rparr>
      else if s = ''TIME_WAIT'' then st\<lparr>st_time_wait := st_time_wait st + 1\<rparr>
      else if s = ''CLOSE_WAIT'' then st\<lparr>st_close_wait := st_close_wait st + 1\<rparr>
      else if s = ''LISTEN'' then st\<lparr>st_listen := st_listen st + 1\<rparr>
      else if s = ''SYN_SENT'' then st\<lparr>st_syn_sent := st_syn_sent st + 1\<rparr>
      else if s = ''SYN_RECV'' \<or> s = ''SYN_RCVD'' then st\<lparr>st_syn_recv := st_syn_recv st + 1\<rparr>
      else if s = ''FIN_WAIT1'' \<or> s = ''FIN_WAIT_1'' then st\<lparr>st_fin_wait_1 := st_fin_wait_1 st + 1\<rparr>
      else if s = ''FIN_WAIT2'' \<or> s = ''FIN_WAIT_2'' then st\<lparr>st_fin_wait_2 := st_fin_wait_2 st + 1\<rparr>
      else if s = ''LAST_ACK'' then st\<lparr>st_last_ack := st_last_ack st + 1\<rparr>
      else if s = ''CLOSING'' then st\<lparr>st_closing := st_closing st + 1\<rparr>
      else st)"

definition count_conn :: "connection \<Rightarrow> net_stats \<Rightarrow> net_stats" where
  "count_conn c st =
     (let st1 = st\<lparr>st_total := st_total st + 1\<rparr>;
          st2 = (if contains (cn_proto c) ''tcp'' then st1\<lparr>st_tcp := st_tcp st1 + 1\<rparr> else st1\<lparr>st_udp := st_udp st1 + 1\<rparr>)
      in count_state (cn_state c) st2)"

definition stats_of :: "connection list \<Rightarrow> net_stats" where
  "stats_of cs = fold count_conn cs no_stats"

definition socket_stats :: "netstat \<Rightarrow> string + net_stats" where
  "socket_stats sys = map_sum id stats_of (get_connections sys ''all'' None)"

section \<open>Facts about the table\<close>

text \<open>The cache of names holds what the lookups answer, so that it does not show in the result.\<close>

definition cache_ok :: "(int \<Rightarrow> string) \<Rightarrow> (int \<rightharpoonup> string) \<Rightarrow> bool" where
  "cache_ok proc_name cache \<longleftrightarrow> (\<forall>pid name. cache pid = Some name \<longrightarrow> name = proc_name pid)"

definition plain_connection :: "(int \<Rightarrow> string) \<Rightarrow> conn_stat \<Rightarrow> connection" where
  "plain_connection proc_name c = fst (to_connection proc_name c Map.empty)"

lemma to_connection_cached:
  assumes "cache_ok proc_name cache"
  shows "fst (to_connection proc_name c cache) = plain_connection proc_name c"
    and "cache_ok proc_name (snd (to_connection proc_name c cache))"
  using assms
  by (auto simp: to_connection_def process_of_def plain_connection_def cache_ok_def Let_def split: option.splits)

lemma collect_cached:
  "cache_ok proc_name cache \<Longrightarrow>
   collect proc_name flt cache raw = filter (flt_matches flt) (map (plain_connection proc_name) raw)"
proof (induction raw arbitrary: cache)
  case (Cons c raw)
  note tc = to_connection_cached [OF Cons.prems, of c]
  show ?case
    using tc Cons.IH [OF tc(2)] by (simp add: case_prod_beta Let_def)
qed simp

lemma collect_start: "collect proc_name flt Map.empty raw = filter (flt_matches flt) (map (plain_connection proc_name) raw)"
  by (rule collect_cached) (simp add: cache_ok_def)

lemma plain_simps [simp]:
  "cn_proto (plain_connection n c) = socket_proto c" "cn_state (plain_connection n c) = ct_status c"
  "cn_local_ip (plain_connection n c) = fst (ct_laddr c)" "cn_remote_ip (plain_connection n c) = fst (ct_raddr c)"
  "cn_local_port (plain_connection n c) = int (snd (ct_laddr c))" "cn_remote_port (plain_connection n c) = int (snd (ct_raddr c))"
  "cn_pid (plain_connection n c) = ct_pid c"
  by (simp_all add: plain_connection_def to_connection_def case_prod_beta Let_def)

lemma socket_proto_cases: "socket_proto c \<in> {''tcp'', ''tcp6'', ''udp'', ''udp6'', ''raw'', ''raw6''}"
  by (simp add: socket_proto_def)

lemma socket_proto_tcp: "contains (socket_proto c) ''tcp'' \<longleftrightarrow> ct_type c = 1"
  by (simp add: socket_proto_def contains_def has_prefix_def)

lemma count_conn_fields:
  "st_total (count_conn c st) = st_total st + 1"
  "st_tcp (count_conn c st) = st_tcp st + (if contains (cn_proto c) ''tcp'' then 1 else 0)"
  "st_udp (count_conn c st) = st_udp st + (if contains (cn_proto c) ''tcp'' then 0 else 1)"
  "st_listen (count_conn c st) = st_listen st + (if cn_state c = ''LISTEN'' then 1 else 0)"
  "st_established (count_conn c st) = st_established st + (if cn_state c = ''ESTABLISHED'' then 1 else 0)"
  by (simp_all add: count_conn_def count_state_def Let_def)

definition in_state :: "net_stats \<Rightarrow> nat" where
  "in_state st = st_established st + st_time_wait st + st_close_wait st + st_listen st + st_syn_sent st + st_syn_recv st +
     st_fin_wait_1 st + st_fin_wait_2 st + st_last_ack st + st_closing st"

lemma in_state_updates:
  "in_state (st\<lparr>st_total := n, st_tcp := k\<rparr>) = in_state st" "in_state (st\<lparr>st_total := n, st_udp := k\<rparr>) = in_state st"
  by (simp_all add: in_state_def)

lemma count_state_states: "in_state (count_state s t) \<le> in_state t + 1"
  unfolding count_state_def in_state_def by simp

lemma count_conn_states: "in_state (count_conn c st) \<le> in_state st + 1"
proof -
  note b = count_state_states [of "cn_state c"]
  show ?thesis
    using b [of "st\<lparr>st_total := st_total st + 1, st_tcp := st_tcp st + 1\<rparr>"]
      b [of "st\<lparr>st_total := st_total st + 1, st_udp := st_udp st + 1\<rparr>"]
    by (simp add: count_conn_def Let_def in_state_updates)
qed

lemma stats_fold:
  "st_total (fold count_conn cs st) = st_total st + length cs"
  "st_tcp (fold count_conn cs st) = st_tcp st + length (filter (\<lambda>c. contains (cn_proto c) ''tcp'') cs)"
  "st_udp (fold count_conn cs st) = st_udp st + length (filter (\<lambda>c. \<not> contains (cn_proto c) ''tcp'') cs)"
  "st_listen (fold count_conn cs st) = st_listen st + length (filter (\<lambda>c. cn_state c = ''LISTEN'') cs)"
  "st_established (fold count_conn cs st) = st_established st + length (filter (\<lambda>c. cn_state c = ''ESTABLISHED'') cs)"
  by (induction cs arbitrary: st) (simp_all add: count_conn_fields)

lemma stats_fold_states: "in_state (fold count_conn cs st) \<le> in_state st + length cs"
proof (induction cs arbitrary: st)
  case (Cons c cs)
  show ?case using Cons.IH [of "count_conn c st"] count_conn_states [of c st] by simp
qed simp

section \<open>The table, its counters and its filter\<close>

text \<open> The connection table is the filtered image of what the system reports: the cache of process names does not show
  in it; an error of the system is handed on.\<close>

lemma connections_filtered:
  "get_connections sys proto flt = (case sweep sys proto flt of
     Inl e \<Rightarrow> Inl (''get connections: '' @ e)
   | Inr raw \<Rightarrow> Inr (filter (flt_matches flt) (map (plain_connection (ns_name sys)) raw)))"
  by (simp add: get_connections_def collect_start split: sum.split)

text \<open> The counters agree with each other and with the table: every socket is a TCP or a UDP socket, none is counted in two states.\<close>

lemma stats_consistent:
  assumes "ns_all sys ''all'' = Inr raw"
  shows "\<exists>st. socket_stats sys = Inr st \<and> st_total st = length raw \<and> st_tcp st + st_udp st = st_total st \<and>
    st_tcp st = length (filter (\<lambda>c. ct_type c = 1) raw) \<and>
    st_listen st = length (filter (\<lambda>c. ct_status c = ''LISTEN'') raw) \<and>
    st_established st = length (filter (\<lambda>c. ct_status c = ''ESTABLISHED'') raw) \<and>
    in_state st \<le> st_total st"
proof -
  let ?cs = "map (plain_connection (ns_name sys)) raw"
  have sw: "sweep sys ''all'' None = Inr raw"
  proof -
    have "sweep_kind ''all'' = ''all''" by code_simp
    then show ?thesis using assms by (simp add: sweep_def)
  qed
  have eq: "socket_stats sys = Inr (stats_of ?cs)"
    by (simp add: socket_stats_def get_connections_def sw collect_start flt_matches_def)
  have zero: "in_state no_stats = 0" by (simp add: in_state_def no_stats_def)
  have fields: "st_total no_stats = 0" "st_tcp no_stats = 0" "st_udp no_stats = 0" "st_listen no_stats = 0" "st_established no_stats = 0"
    by (simp_all add: no_stats_def)
  have split: "length (filter P xs) + length (filter (\<lambda>x. \<not> P x) xs) = length xs" for P and xs :: "conn_stat list"
    by (rule sum_length_filter_compl)
  show ?thesis
    unfolding eq stats_of_def
    using stats_fold_states [of ?cs no_stats] split [of "\<lambda>c. ct_type c = 1" raw]
    by (simp add: stats_fold fields zero filter_map comp_def socket_proto_tcp)
qed

definition demo_sockets :: "conn_stat list" where
  "demo_sockets =
     [\<lparr>ct_family = 2, ct_type = 1, ct_laddr = (''0.0.0.0'', 80), ct_raddr = (''0.0.0.0'', 0), ct_status = ''LISTEN'', ct_pid = 7\<rparr>,
      \<lparr>ct_family = 1, ct_type = 1, ct_laddr = (''/run/x.sock'', 0), ct_raddr = ([], 0), ct_status = ''NONE'', ct_pid = 7\<rparr>,
      \<lparr>ct_family = 10, ct_type = 2, ct_laddr = (''::1'', 53), ct_raddr = (''::'', 0), ct_status = ''NONE'', ct_pid = 0\<rparr>]"

definition demo_netstat :: netstat where
  "demo_netstat = \<lparr>ns_all = (\<lambda>_. Inr demo_sockets), ns_pid = (\<lambda>_ _. Inr demo_sockets), ns_name = (\<lambda>_. ''nginx'')\<rparr>"

lemma stats_consistent_witness:
  "\<exists>st. socket_stats demo_netstat = Inr st \<and> st_total st = 3 \<and> st_tcp st = 2"
proof -
  have "ns_all demo_netstat ''all'' = Inr demo_sockets" by (simp add: demo_netstat_def)
  from stats_consistent [OF this] show ?thesis by (auto simp: demo_sockets_def)
qed


section \<open>Tables of text\<close>

text \<open>\<open>%-ns\<close> and \<open>%ns\<close> of package \<open>fmt\<close> count characters, not bytes.\<close>

definition rune_count :: "string \<Rightarrow> nat" where
  "rune_count s = length (runes (bytes_of_string s))"

definition left_col :: "nat \<Rightarrow> string \<Rightarrow> string" where
  "left_col n s = s @ replicate (n - rune_count s) CHR '' ''"

definition right_col :: "nat \<Rightarrow> string \<Rightarrow> string" where
  "right_col n s = replicate (n - rune_count s) CHR '' '' @ s"

definition or_dash :: "string \<Rightarrow> string" where
  "or_dash s = (if s = [] then ''-'' else s)"

definition rule_line :: "nat \<Rightarrow> string" where
  "rule_line n = replicate n CHR ''-'' @ [LF]"

definition conn_row :: "string \<Rightarrow> string \<Rightarrow> string \<Rightarrow> string \<Rightarrow> string \<Rightarrow> string \<Rightarrow> string" where
  "conn_row a b c d e f = left_col 5 a @ '' '' @ left_col 22 b @ '' '' @ left_col 30 c @ '' '' @ left_col 14 d @ '' '' @
     right_col 5 e @ ''  '' @ f @ [LF]"

definition ip_port :: "string \<Rightarrow> int \<Rightarrow> string" where
  "ip_port ip port = ip @ '':'' @ itoa_int port"

definition remote_col :: "connection \<Rightarrow> string" where
  "remote_col c =
     (if cn_remote_ip c = ''0.0.0.0'' \<and> cn_remote_port c = 0 \<or> cn_remote_ip c = ''::'' \<and> cn_remote_port c = 0 then ''-''
      else ip_port (cn_remote_ip c) (cn_remote_port c))"

definition format_connections :: "connection list \<Rightarrow> string" where
  "format_connections conns =
     (if conns = [] then ''(no connections)''
      else conn_row ''Proto'' ''Local'' ''Remote'' ''State'' ''PID'' ''Process'' @ rule_line 95 @
        concat (map (\<lambda>c. conn_row (cn_proto c) (ip_port (cn_local_ip c) (cn_local_port c)) (remote_col c)
          (or_dash (cn_state c)) (itoa_int (cn_pid c)) (or_dash (cn_process c))) conns))"

definition stat_col :: "string \<Rightarrow> nat \<Rightarrow> string" where
  "stat_col name n = name @ '': '' @ right_col 4 (itoa n)"

definition format_stats :: "net_stats \<Rightarrow> string" where
  "format_stats st =
     stat_col ''TCP'' (st_tcp st) @ ''  '' @ stat_col ''UDP'' (st_udp st) @ ''  '' @ stat_col ''Total'' (st_total st) @ [LF] @
     ''  '' @ stat_col ''LISTEN'' (st_listen st) @ ''  '' @ stat_col ''ESTABLISHED'' (st_established st) @ ''  '' @
       stat_col ''TIME_WAIT'' (st_time_wait st) @ [LF] @
     ''  '' @ stat_col ''CLOSE_WAIT'' (st_close_wait st) @ ''  '' @ stat_col ''SYN_SENT'' (st_syn_sent st) @ ''  '' @
       stat_col ''SYN_RECV'' (st_syn_recv st) @ [LF] @
     ''  '' @ stat_col ''FIN_WAIT_1'' (st_fin_wait_1 st) @ ''  '' @ stat_col ''FIN_WAIT_2'' (st_fin_wait_2 st) @ ''  '' @
       stat_col ''LAST_ACK'' (st_last_ack st) @ [LF] @
     ''  '' @ stat_col ''CLOSING'' (st_closing st) @ [LF]"

section \<open>Interfaces and protocol counters\<close>

record iface_stat =
  if_name :: string
  if_mtu :: int
  if_hardware :: string
  if_flags :: "string list"
  if_addrs :: "string list"

record io_counters =
  io_name :: string
  io_bytes_sent :: nat
  io_bytes_recv :: nat
  io_packets_sent :: nat
  io_packets_recv :: nat
  io_errin :: nat
  io_errout :: nat
  io_dropin :: nat
  io_dropout :: nat
  io_fifoin :: nat
  io_fifoout :: nat

record interface_stats =
  in_name :: string
  in_mtu :: int
  in_mac :: string
  in_up :: string
  in_loopback :: bool
  in_multicast :: bool
  in_addrs :: "string list"
  in_counters :: "nat list"

text \<open>The ten counters in the order of the fields of \<open>InterfaceStats\<close>.\<close>

definition counters_of :: "io_counters \<Rightarrow> nat list" where
  "counters_of c = [io_bytes_sent c, io_bytes_recv c, io_packets_sent c, io_packets_recv c, io_errin c, io_errout c,
     io_dropin c, io_dropout c, io_fifoin c, io_fifoout c]"

definition counters_by_name :: "io_counters list \<Rightarrow> string \<rightharpoonup> io_counters" where
  "counters_by_name cs = map_of (rev (map (\<lambda>c. (io_name c, c)) cs))"

definition interface_of :: "(string \<rightharpoonup> io_counters) \<Rightarrow> iface_stat \<Rightarrow> interface_stats" where
  "interface_of io i =
     (let flags = to_lower (join_with '','' (if_flags i)) in
      \<lparr>in_name = if_name i, in_mtu = if_mtu i, in_mac = if_hardware i,
       in_up = (if contains flags ''up'' then ''UP'' else ''DOWN''),
       in_loopback = contains flags ''loopback'', in_multicast = contains flags ''multicast'', in_addrs = if_addrs i,
       in_counters = (case io (if_name i) of Some c \<Rightarrow> counters_of c | None \<Rightarrow> replicate 10 0)\<rparr>)"

definition get_interfaces :: "string + iface_stat list \<Rightarrow> string + io_counters list \<Rightarrow> string + interface_stats list" where
  "get_interfaces ifaces counters = (case ifaces of
       Inl e \<Rightarrow> Inl (''get interfaces: '' @ e)
     | Inr is \<Rightarrow> (case counters of
         Inl e \<Rightarrow> Inl (''get IO counters: '' @ e)
       | Inr cs \<Rightarrow> Inr (map (interface_of (counters_by_name cs)) is)))"

definition interface_row :: "string list \<Rightarrow> string" where
  "interface_row xs =
     (let col = (\<lambda>i. xs ! i)
      in left_col 12 (col 0) @ '' '' @ left_col 4 (col 1) @ '' '' @ left_col 4 (col 2) @ '' '' @ left_col 20 (col 3) @ '' '' @
         right_col 10 (col 4) @ ''  '' @ right_col 10 (col 5) @ ''  '' @ right_col 8 (col 6) @ ''  '' @ right_col 8 (col 7) @ ''  '' @
         right_col 4 (col 8) @ ''  '' @ right_col 4 (col 9) @ ''  '' @ right_col 4 (col 10) @ ''  '' @ right_col 4 (col 11) @ [LF])"

definition interface_cells :: "interface_stats \<Rightarrow> string list" where
  "interface_cells s =
     (let n = (\<lambda>i. itoa (in_counters s ! i))
      in [in_name s, itoa_int (in_mtu s), in_up s, or_dash (in_mac s), n 1, n 0, n 3, n 2, n 4, n 5, n 6, n 7])"

definition format_interfaces :: "interface_stats list \<Rightarrow> string" where
  "format_interfaces stats =
     (if stats = [] then ''(no interfaces)''
      else interface_row [''Interface'', ''MTU'', ''Up'', ''MAC'', ''RecvBytes'', ''SndBytes'', ''RecvPkts'', ''SndPkts'',
          ''ErrIn'', ''ErrOut'', ''DropIn'', ''DropOut''] @ rule_line 110 @
        concat (map (\<lambda>s. interface_row (interface_cells s)) stats))"

definition format_io_addresses :: "interface_stats list \<Rightarrow> string" where
  "format_io_addresses stats =
     (if stats = [] then ''(no addresses)''
      else concat (map (\<lambda>s. if in_addrs s = [] then [] else left_col 12 (in_name s) @ ''  '' @ join_with ''  '' (in_addrs s) @ [LF]) stats))"

text \<open>The counters of a protocol, listed in an order that the runtime chooses.\<close>

type_synonym proto_stats = "string \<times> (string \<times> int) list"

definition default_protocols :: "string list" where
  "default_protocols = [''tcp'', ''udp'', ''icmp'', ''ip'', ''ip_ext'', ''icmpv6'']"

definition get_proto_stats :: "(string list \<Rightarrow> string + proto_stats list) \<Rightarrow> string list \<Rightarrow> string + proto_stats list" where
  "get_proto_stats counters protocols =
     (case counters (if protocols = [] then default_protocols else protocols) of
        Inl e \<Rightarrow> Inl (''get proto stats: '' @ e) | Inr raw \<Rightarrow> Inr raw)"

definition format_proto :: "proto_stats \<Rightarrow> string" where
  "format_proto p = ''== '' @ fst p @ '' =='' @ [LF] @
     (if snd p = [] then ''  (no counters)'' @ [LF]
      else ''  '' @ left_col 30 ''Counter'' @ '' '' @ right_col 12 ''Value'' @ [LF] @ ''  '' @ rule_line 44 @
        concat (map (\<lambda>(k, v). ''  '' @ left_col 30 k @ '' '' @ right_col 12 (itoa_int v) @ [LF]) (snd p)))"

definition format_proto_stats :: "proto_stats list \<Rightarrow> string" where
  "format_proto_stats stats = (if stats = [] then ''(no protocol stats)'' else join_with [LF] (map format_proto stats))"

section \<open>Routing tables\<close>

record route_entry =
  rt_dst :: string
  rt_gateway :: string
  rt_iface :: string
  rt_metric :: int

definition route_dst :: "string \<Rightarrow> string" where
  "route_dst dst = (if dst = ''0.0.0.0'' then ''default'' else dst)"

fun win_lines :: "bool \<Rightarrow> string list \<Rightarrow> route_entry list" where
  "win_lines in_table [] = []"
| "win_lines in_table (raw # ls) =
     (let l = trim_space raw; fs = str_fields l in
      if has_prefix l ''Interface List'' \<or> has_prefix l ''Persistent Routes'' then []
      else if contains l ''IPv4 Route Table'' then win_lines True ls
      else if \<not> in_table \<or> contains l ''List'' \<or> contains l ''---'' then win_lines in_table ls
      else if length fs < 5 then win_lines in_table ls
      else \<lparr>rt_dst = route_dst (fs ! 0), rt_gateway = fs ! 2, rt_iface = fs ! 3, rt_metric = atoi_value (fs ! 4)\<rparr>
           # win_lines in_table ls)"

definition parse_win_routes :: "string \<Rightarrow> route_entry list" where
  "parse_win_routes s = win_lines False (split_all LF s)"

definition route_row :: "string \<Rightarrow> route_entry option" where
  "route_row l =
     (let fs = str_fields (trim_space l) in
      if length fs < 8 then None
      else Some \<lparr>rt_dst = route_dst (fs ! 0), rt_gateway = fs ! 1, rt_iface = fs ! 7, rt_metric = atoi_value (fs ! 4)\<rparr>)"

definition parse_route_n :: "string \<Rightarrow> route_entry list" where
  "parse_route_n s = List.map_filter route_row (drop 2 (split_all LF s))"

text \<open>The commands: what each prints, and its error if it fails.\<close>

type_synonym command = "string list \<Rightarrow> string \<times> string option"

definition routes_command :: "command \<Rightarrow> string \<Rightarrow> string \<Rightarrow> string + route_entry list" where
  "routes_command run name ag = (case run [name, ag] of
       (out, Some e) \<Rightarrow> Inl (''route '' @ ag @ '': '' @ e @ '' ('' @ trim_space out @ '')'')
     | (out, None) \<Rightarrow> Inr (parse_route_n out))"

definition routes_windows :: "command \<Rightarrow> string + route_entry list" where
  "routes_windows run = (case run [''route'', ''print'', ''-4''] of
       (out, Some e) \<Rightarrow> routes_command run ''route'' ''-n''
     | (out, None) \<Rightarrow> Inr (parse_win_routes out))"

definition get_routes :: "bool \<Rightarrow> command \<Rightarrow> string + route_entry list" where
  "get_routes windows run = (if windows then routes_windows run else routes_command run ''route'' ''-n'')"

definition route_line :: "string \<Rightarrow> string \<Rightarrow> string \<Rightarrow> string \<Rightarrow> string" where
  "route_line a b c d = left_col 25 a @ '' '' @ left_col 18 b @ '' '' @ left_col 14 c @ '' '' @ right_col 6 d @ [LF]"

definition format_routes :: "route_entry list \<Rightarrow> string" where
  "format_routes rs =
     (if rs = [] then ''(no routes)''
      else route_line ''Destination'' ''Gateway'' ''Interface'' ''Metric'' @ rule_line 70 @
        concat (map (\<lambda>r. route_line (rt_dst r) (rt_gateway r) (rt_iface r) (itoa_int (rt_metric r))) rs))"


section \<open>Reading a routing table back\<close>

lemma fields_aux_spaces: "list_all is_space t \<Longrightarrow> fields_aux w (s @ t) = fields_aux w s"
proof (induction s arbitrary: w)
  case Nil
  then show ?case by (induction t arbitrary: w) auto
qed auto

lemma fields_drop_spaces: "fields_aux [] (dropWhile is_space s) = fields_aux [] s"
  by (induction s) auto

lemma trim_right_split: "\<exists>t. s = trim_right P s @ t \<and> list_all P t"
proof (intro exI conjI)
  show "s = trim_right P s @ rev (takeWhile P (rev s))"
    unfolding trim_right_def by (metis rev_append rev_rev_ident takeWhile_dropWhile_id)
  show "list_all P (rev (takeWhile P (rev s)))"
    by (auto simp: list_all_iff dest: set_takeWhileD)
qed

lemma fields_trim: "str_fields (trim_space s) = str_fields s"
proof -
  obtain t where t: "dropWhile is_space s = trim_right is_space (dropWhile is_space s) @ t" "list_all is_space t"
    using trim_right_split by blast
  have "fields_aux [] (trim_space s) = fields_aux [] (dropWhile is_space s)"
    using fields_aux_spaces [OF t(2)] t(1) by (metis trim_space_def)
  then show ?thesis by (simp add: str_fields_def fields_drop_spaces)
qed

definition word_ok :: "string \<Rightarrow> bool" where
  "word_ok w \<longleftrightarrow> w \<noteq> [] \<and> list_all (\<lambda>c. \<not> is_space c) w"

lemma fields_aux_word: "list_all (\<lambda>c. \<not> is_space c) w \<Longrightarrow> fields_aux u (w @ s) = fields_aux (rev w @ u) s"
  by (induction w arbitrary: u) auto

text \<open>A line in columns: every word is followed by one blank at least.\<close>

definition column_line :: "(string \<times> nat) list \<Rightarrow> string" where
  "column_line cells = concat (map (\<lambda>(w, n). w @ replicate (Suc n) CHR '' '') cells)"

lemma fields_columns:
  assumes "\<forall>(w, n) \<in> set cells. word_ok w"
  shows "str_fields (column_line cells) = map fst cells"
proof -
  have blank: "is_space CHR '' ''" by (simp add: is_space_def)
  have skip: "fields_aux [] (replicate n CHR '' '' @ s) = fields_aux [] s" for n s
    by (induction n) (simp_all add: blank)
  show ?thesis
    using assms unfolding str_fields_def column_line_def
  proof (induction cells)
    case (Cons c cells)
    obtain w n where c: "c = (w, n)" by fastforce
    have w: "w \<noteq> []" "list_all (\<lambda>c. \<not> is_space c) w" using Cons.prems by (auto simp: c word_ok_def)
    show ?case
      using Cons w by (simp add: c fields_aux_word blank skip)
  qed simp
qed

text \<open>A line of \<open>route -n\<close>: destination, gateway, mask, flags, metric, two counters, interface.\<close>

definition dst_word :: "route_entry \<Rightarrow> string" where
  "dst_word r = (if rt_dst r = ''default'' then ''0.0.0.0'' else rt_dst r)"

definition route_cells :: "route_entry \<times> string \<times> string \<Rightarrow> (string \<times> nat) list" where
  "route_cells = (\<lambda>(r, mask, flags). [(dst_word r, 8), (rt_gateway r, 5), (mask, 2), (flags, 3), (itoa_int (rt_metric r), 3), (''0'', 5), (''0'', 1), (rt_iface r, 0)])"

definition route_ok :: "route_entry \<times> string \<times> string \<Rightarrow> bool" where
  "route_ok = (\<lambda>(r, mask, flags). word_ok (rt_dst r) \<and> rt_dst r \<noteq> ''0.0.0.0'' \<and> word_ok (rt_gateway r) \<and> word_ok (rt_iface r) \<and>
     word_ok mask \<and> word_ok flags \<and> 0 \<le> rt_metric r \<and> rt_metric r < 2 ^ 63)"

definition route_n_text :: "string \<Rightarrow> string \<Rightarrow> (route_entry \<times> string \<times> string) list \<Rightarrow> string" where
  "route_n_text title heads rows =
     title @ [LF] @ heads @ [LF] @ concat (map (\<lambda>x. column_line (route_cells x) @ [LF]) rows)"

lemma route_row_cells: "route_ok x \<Longrightarrow> route_row (column_line (route_cells x)) = Some (fst x)"
proof -
  assume ok: "route_ok x"
  obtain r mask flags where x: "x = (r, mask, flags)" by (cases x)
  have m: "word_ok (itoa n)" for n
    using itoa_no_space [of _ n] itoa_nonempty by (auto simp: word_ok_def list_all_iff)
  have zero: "word_ok ''0.0.0.0''" "word_ok ''0''" by code_simp+
  have "\<forall>(w, n) \<in> set (route_cells x). word_ok w"
    using ok m zero by (auto simp: x route_cells_def route_ok_def dst_word_def itoa_int_def)
  from fields_columns [OF this] have f: "str_fields (column_line (route_cells x)) = map fst (route_cells x)" .
  have "atoi_value (itoa_int (rt_metric r)) = rt_metric r"
    using ok by (simp add: atoi_value_def itoa_int_def atoi_itoa x route_ok_def)
  then show ?thesis
    unfolding route_row_def fields_trim f Let_def
    using ok by (cases r) (auto simp: x route_cells_def route_dst_def dst_word_def route_ok_def)
qed

lemma word_no_lf: "word_ok w \<Longrightarrow> LF \<notin> set w"
  by (auto simp: word_ok_def list_all_iff is_space_def)

lemma row_no_lf: "route_ok x \<Longrightarrow> LF \<notin> set (column_line (route_cells x))"
proof -
  assume ok: "route_ok x"
  obtain r mask flags where x: "x = (r, mask, flags)" by (cases x)
  show ?thesis
    using ok word_no_lf itoa_int_no_eol
    by (auto simp: x column_line_def route_cells_def route_ok_def dst_word_def)
qed

text \<open> The table that \<open>route -n\<close> prints, with its two title lines, gives back the routes it was printed from.\<close>

lemma route_n_roundtrip:
  assumes "LF \<notin> set title" "LF \<notin> set heads" "\<forall>x \<in> set rows. route_ok x"
  shows "parse_route_n (route_n_text title heads rows) = map fst rows"
proof -
  have tail: "split_all LF (concat (map (\<lambda>x. column_line (route_cells x) @ [LF]) rows)) = map (column_line \<circ> route_cells) rows @ [[]]"
    using assms(3) by (induction rows) (simp_all add: split_all_cons row_no_lf)
  have last: "route_row [] = None" by code_simp
  have "List.map_filter route_row (map (column_line \<circ> route_cells) rows @ [[]]) = map fst rows"
    using assms(3) by (induction rows) (simp_all add: map_filter_simps last route_row_cells)
  then show ?thesis
    using assms(1,2) by (simp add: parse_route_n_def route_n_text_def split_all_cons tail)
qed

lemma route_n_roundtrip_witness:
  "parse_route_n (route_n_text ''Kernel IP routing table'' ''Destination Gateway''
     [(\<lparr>rt_dst = ''default'', rt_gateway = ''10.0.0.1'', rt_iface = ''eth0'', rt_metric = 100\<rparr>, ''0.0.0.0'', ''UG''),
      (\<lparr>rt_dst = ''10.0.0.0'', rt_gateway = ''0.0.0.0'', rt_iface = ''eth0'', rt_metric = 100\<rparr>, ''255.255.255.0'', ''U'')]) =
   [\<lparr>rt_dst = ''default'', rt_gateway = ''10.0.0.1'', rt_iface = ''eth0'', rt_metric = 100\<rparr>,
    \<lparr>rt_dst = ''10.0.0.0'', rt_gateway = ''0.0.0.0'', rt_iface = ''eth0'', rt_metric = 100\<rparr>]"
  by (subst route_n_roundtrip) (simp_all add: route_ok_def word_ok_def is_space_def)

text \<open> Windows prints the list of the interfaces before the routing table; \<open>parseWinRoutes\<close> stops at that list, so
  that it finds no route.\<close>

lemma windows_routes_lost:
  assumes "split_all LF s = pre @ l # post"
    and "\<forall>x \<in> set pre. \<not> contains (trim_space x) ''IPv4 Route Table''" and "has_prefix (trim_space l) ''Interface List''"
  shows "parse_win_routes s = []"
proof -
  have "win_lines False (pre @ l # post) = []"
    using assms(2) by (induction pre) (simp_all add: assms(3) Let_def)
  then show ?thesis by (simp add: parse_win_routes_def assms(1))
qed

definition demo_route_print :: string where
  "demo_route_print = join_with [LF] [''===='', ''Interface List'', '' 1...Software Loopback'', ''===='', [], ''IPv4 Route Table'',
     ''Active Routes:'', ''0.0.0.0 0.0.0.0 10.0.0.1 10.0.0.2 25'']"

lemma windows_routes_lost_witness: "parse_win_routes demo_route_print = []"
proof (rule windows_routes_lost)
  show "split_all LF demo_route_print = [''====''] @ ''Interface List'' # ['' 1...Software Loopback'', ''===='', [], ''IPv4 Route Table'',
     ''Active Routes:'', ''0.0.0.0 0.0.0.0 10.0.0.1 10.0.0.2 25'']" by code_simp
  show "\<forall>x \<in> set [''====''::string]. \<not> contains (trim_space x) ''IPv4 Route Table''" by code_simp
  show "has_prefix (trim_space ''Interface List'') ''Interface List''" by code_simp
qed


text \<open>The titles of the columns, which follow the start of the table, are read as a route.\<close>

lemma titles_become_route:
  "win_lines True [''Network Destination Netmask Gateway Interface Metric''] =
     [\<lparr>rt_dst = ''Network'', rt_gateway = ''Netmask'', rt_iface = ''Gateway'', rt_metric = 0\<rparr>]"
proof -
  have "str_fields (trim_space ''Network Destination Netmask Gateway Interface Metric'') = [''Network'', ''Destination'', ''Netmask'', ''Gateway'', ''Interface'', ''Metric'']"
    by code_simp
  moreover have "trim_space ''Network Destination Netmask Gateway Interface Metric'' = ''Network Destination Netmask Gateway Interface Metric''"
    by code_simp
  moreover have "atoi_value ''Interface'' = 0" by code_simp
  ultimately show ?thesis
    by (simp add: Let_def has_prefix_def contains_def route_dst_def)
qed

section \<open>Open files\<close>

record process_fd =
  fd_pid :: int
  fd_command :: string
  fd_fd :: string
  fd_type :: string
  fd_device :: string
  fd_path :: string

text \<open>What \<open>/proc\<close> holds for a process: the names in \<open>fd\<close> or an error, the program, \<open>comm\<close>, and where the links lead.\<close>

record proc_fs =
  pf_entries :: "string + string list"
  pf_exe :: "string option"
  pf_comm :: "string option"
  pf_link :: "string \<Rightarrow> string option"

definition categorize_fd :: "process_fd \<Rightarrow> process_fd" where
  "categorize_fd d =
     (let p = fd_path d in
      if has_prefix p ''socket:['' then d\<lparr>fd_type := ''socket''\<rparr>
      else if has_prefix p ''anon_inode:'' \<or> has_prefix p ''eventfd:'' \<or> has_prefix p ''signalfd:'' \<or> has_prefix p ''epoll:''
        then d\<lparr>fd_type := ''anon_inode''\<rparr>
      else if has_prefix p ''/dev/'' then d\<lparr>fd_type := ''CHR'', fd_device := p\<rparr>
      else if has_prefix p ''pipe:'' then d\<lparr>fd_type := ''FIFO''\<rparr>
      else if has_prefix p ''/'' then d\<lparr>fd_type := ''REG''\<rparr>
      else if p \<noteq> [] then d\<lparr>fd_type := ''REG''\<rparr> else d)"

definition base_name :: "string \<Rightarrow> string" where
  "base_name p =
     (if p = [] then ''.''
      else let q = trim_right (\<lambda>c. c = CHR ''/'') p in
           if q = [] then ''/'' else (case last_index_byte q CHR ''/'' of None \<Rightarrow> q | Some i \<Rightarrow> drop (Suc i) q))"

definition fds_linux :: "proc_fs \<Rightarrow> int \<Rightarrow> string + process_fd list" where
  "fds_linux fs pid = (case pf_entries fs of
       Inl e \<Rightarrow> Inl (''read fds for pid '' @ itoa_int pid @ '' ('' @
         (case pf_exe fs of Some exe \<Rightarrow> base_name exe | None \<Rightarrow> ''<unknown>'') @ ''): '' @ e)
     | Inr entries \<Rightarrow>
         let command = (case pf_comm fs of Some c \<Rightarrow> trim_space c | None \<Rightarrow> [])
         in Inr (map (\<lambda>n. categorize_fd \<lparr>fd_pid = pid, fd_command = command, fd_fd = n, fd_type = [], fd_device = [],
              fd_path = (case pf_link fs n of Some dst \<Rightarrow> dst | None \<Rightarrow> [])\<rparr>) entries))"

definition pid_filter :: "int \<Rightarrow> conn_filter" where
  "pid_filter pid = \<lparr>fl_proto = [], fl_pid = pid, fl_port = 0, fl_state = [], fl_src = [], fl_dst = []\<rparr>"

definition socket_fd :: "int \<Rightarrow> string \<Rightarrow> nat \<Rightarrow> connection \<Rightarrow> process_fd" where
  "socket_fd pid cmd i c =
     (let remote = (if cn_remote_ip c \<noteq> ''0.0.0.0'' \<or> cn_remote_port c \<noteq> 0 then ip_port (cn_remote_ip c) (cn_remote_port c) else ''-'')
      in \<lparr>fd_pid = pid, fd_command = cmd, fd_fd = ''sock-'' @ (if i < 10 then ''0'' else []) @ itoa i, fd_type = to_upper (cn_proto c),
          fd_device = [], fd_path = ip_port (cn_local_ip c) (cn_local_port c) @ '' -> '' @ remote @ '' ('' @ cn_state c @ '')''\<rparr>)"

definition fds_sockets :: "netstat \<Rightarrow> int \<Rightarrow> string + process_fd list" where
  "fds_sockets sys pid = (case get_connections sys ''all'' (Some (pid_filter pid)) of
       Inl e \<Rightarrow> Inl e
     | Inr conns \<Rightarrow>
         let cmd = (if 0 < pid \<and> ns_name sys pid \<noteq> [] then ns_name sys pid else ''<unknown>'')
         in Inr (map (\<lambda>(i, c). socket_fd pid cmd i c) (List.enumerate 0 conns)))"

definition get_process_fds :: "bool \<Rightarrow> proc_fs \<Rightarrow> netstat \<Rightarrow> int \<Rightarrow> string + process_fd list" where
  "get_process_fds linux fs sys pid = (if linux then fds_linux fs pid else fds_sockets sys pid)"

text \<open>Long columns are cut at a byte; the ellipsis has three bytes.\<close>

definition ellipsis :: string where
  "ellipsis = [CHR 0xE2, CHR 0x80, CHR 0xA6]"

definition clip_bytes :: "nat \<Rightarrow> nat \<Rightarrow> string \<Rightarrow> string" where
  "clip_bytes limit keep s = (if limit < length s then take keep s @ ellipsis else s)"

definition fd_row :: "string \<Rightarrow> string \<Rightarrow> string \<Rightarrow> string \<Rightarrow> string \<Rightarrow> string" where
  "fd_row a b c d e = right_col 7 a @ '' '' @ left_col 20 b @ '' '' @ left_col 8 c @ '' '' @ left_col 12 d @ '' '' @ e @ [LF]"

definition format_process_fds :: "process_fd list \<Rightarrow> string" where
  "format_process_fds fds =
     (if fds = [] then ''(no file descriptors)''
      else fd_row ''PID'' ''Command'' ''FD'' ''Type'' ''Path'' @ rule_line 100 @
        concat (map (\<lambda>d. fd_row (itoa_int (fd_pid d)) (clip_bytes 18 16 (fd_command d)) (fd_fd d) (fd_type d)
          (clip_bytes 60 58 (fd_path d))) fds))"

text \<open>Every open file with a target gets a type; only devices get a device.\<close>

lemma categorize_fd_typed:
  "fd_path d \<noteq> [] \<Longrightarrow> fd_type (categorize_fd d) \<in> {''socket'', ''anon_inode'', ''CHR'', ''FIFO'', ''REG''}"
  by (simp add: categorize_fd_def Let_def)

text \<open> The sockets of a process, on the systems without \<open>/proc\<close>: one entry for each socket that the system reports.\<close>

lemma fds_sockets_all:
  assumes "0 < pid" "ns_pid sys ''all'' pid = Inr raw"
  shows "\<exists>fds. fds_sockets sys pid = Inr fds \<and> length fds = length raw \<and>
    map fd_type fds = map (to_upper \<circ> socket_proto) raw"
proof -
  have kind: "sweep_kind ''all'' = ''all''" by code_simp
  have m: "filter_matches (pid_filter pid) c" for c
    by (simp add: filter_matches_def pid_filter_def)
  have "fl_pid (pid_filter pid) = pid" by (simp add: pid_filter_def)
  then have eq: "get_connections sys ''all'' (Some (pid_filter pid)) = Inr (map (plain_connection (ns_name sys)) raw)"
    by (simp add: get_connections_def sweep_def kind assms collect_start flt_matches_def m)
  have ty: "fd_type (socket_fd pid cmd i c) = to_upper (cn_proto c)" for cmd i c
    by (simp add: socket_fd_def Let_def)
  have en: "map (\<lambda>x. to_upper (cn_proto (snd x))) (List.enumerate k cs) = map (\<lambda>c. to_upper (cn_proto c)) cs" for k and cs :: "connection list"
    by (induction cs arbitrary: k) simp_all
  show ?thesis
    by (simp add: fds_sockets_def eq Let_def case_prod_beta comp_def ty en)
qed


end
