(* ===== verification/Netdiag_Capture.thy ===== *)
theory Netdiag_Capture
  imports Netdiag
begin

text \<open>
  The capture of packets (\<open>netdiag/capture.go\<close>) and the command \<open>netdiag\<close> with its actions
  (\<open>cmd/netdiag.go\<close>). The raw sockets are modelled as package \<open>net\<close> has them: a read removes the
  header of an IPv4 datagram.
\<close>

section \<open>Datagrams\<close>

record captured =
  pk_proto :: string
  pk_src :: string
  pk_dst :: string
  pk_sport :: nat
  pk_dport :: nat
  pk_length :: nat
  pk_info :: string

definition no_packet :: captured where
  "no_packet = \<lparr>pk_proto = [], pk_src = [], pk_dst = [], pk_sport = 0, pk_dport = 0, pk_length = 0, pk_info = []\<rparr>"

definition flag_names :: "byte \<Rightarrow> string list" where
  "flag_names f =
     (if bit f 1 then [''SYN''] else []) @ (if bit f 0 then [''ACK''] else []) @ (if bit f 3 then [''FIN''] else []) @
     (if bit f 2 then [''RST''] else []) @ (if bit f 4 then [''PSH''] else []) @ (if bit f 5 then [''URG''] else [])"

definition tcp_flags :: "byte \<Rightarrow> string" where
  "tcp_flags f = (if flag_names f = [] then [] else ''['' @ join_with '','' (flag_names f) @ '']'')"

text \<open>\<open>data[i] >> 4 & 0x0f\<close>.\<close>

definition high_nibble :: "byte \<Rightarrow> byte" where
  "high_nibble b = and (drop_bit 4 b) 0x0F"

definition type_code :: "byte \<Rightarrow> byte \<Rightarrow> string" where
  "type_code t c = ''type='' @ itoa (unat t) @ '' code='' @ itoa (unat c)"

text \<open>The head of the payload at offset \<open>off\<close>. None is the panic of an index out of range; on the
  left is the error.\<close>

definition parse_ports :: "bytes \<Rightarrow> nat \<Rightarrow> captured \<Rightarrow> captured option" where
  "parse_ports d off p = do {
     s \<leftarrow> u16_at d off;
     t \<leftarrow> u16_at d (off + 2);
     Some (p\<lparr>pk_sport := s, pk_dport := t\<rparr>)
   }"

definition parse_tcp :: "bytes \<Rightarrow> nat \<Rightarrow> captured \<Rightarrow> (string + captured) option" where
  "parse_tcp d off p =
     (if length d < off + 20 then Some (Inl ''short tcp'')
      else do {
        q \<leftarrow> parse_ports d off p;
        f \<leftarrow> at_index d (off + 13);
        Some (Inr (q\<lparr>pk_proto := ''tcp'', pk_info := tcp_flags (high_nibble f)\<rparr>))
      })"

definition parse_udp :: "bytes \<Rightarrow> nat \<Rightarrow> captured \<Rightarrow> (string + captured) option" where
  "parse_udp d off p =
     (if length d < off + 8 then Some (Inl ''short udp'')
      else do {
        q \<leftarrow> parse_ports d off p;
        Some (Inr (q\<lparr>pk_proto := ''udp''\<rparr>))
      })"

definition parse_icmp_head :: "string \<Rightarrow> bytes \<Rightarrow> nat \<Rightarrow> captured \<Rightarrow> (string + captured) option" where
  "parse_icmp_head proto d off p =
     (if off + 2 \<le> length d then do {
        t \<leftarrow> at_index d off;
        c \<leftarrow> at_index d (off + 1);
        Some (Inr (p\<lparr>pk_proto := proto, pk_info := type_code t c\<rparr>))
      }
      else Some (Inr (p\<lparr>pk_proto := proto\<rparr>)))"

definition parse_v4 :: "bytes \<Rightarrow> (string + captured) option" where
  "parse_v4 d = do {
     h \<leftarrow> at_index d 0;
     let ihl = unat (and h 0x0F) * 4;
     if ihl < 20 then Some (Inl ''bad IHL'')
     else do {
       n \<leftarrow> u16_at d 2;
       proto \<leftarrow> at_index d 9;
       src \<leftarrow> slice d 12 16;
       dst \<leftarrow> slice d 16 20;
       let p = no_packet\<lparr>pk_src := ip_string src, pk_dst := ip_string dst, pk_length := n\<rparr>;
       if proto = 6 then parse_tcp d ihl p
       else if proto = 17 then parse_udp d ihl p
       else if proto = 1 then parse_icmp_head ''icmp'' d ihl p
       else Some (Inr (p\<lparr>pk_proto := ''proto'' @ itoa (unat proto)\<rparr>))
     }
   }"

definition parse_v6 :: "bytes \<Rightarrow> (string + captured) option" where
  "parse_v6 d =
     (if length d < 40 then Some (Inl ''short ipv6'')
      else do {
        next_hdr \<leftarrow> at_index d 6;
        n \<leftarrow> u16_at d 4;
        src \<leftarrow> slice d 8 24;
        dst \<leftarrow> slice d 24 40;
        let p = no_packet\<lparr>pk_src := ip_string src, pk_dst := ip_string dst, pk_length := n + 40\<rparr>;
        if next_hdr = 6 then parse_tcp d 40 p
        else if next_hdr = 17 then parse_udp d 40 p
        else if next_hdr = 58 then parse_icmp_head ''icmpv6'' d 40 p
        else Some (Inr (p\<lparr>pk_proto := ''proto'' @ itoa (unat next_hdr)\<rparr>))
      })"

definition parse_captured :: "bytes \<Rightarrow> (string + captured) option" where
  "parse_captured d =
     (if length d < 20 then Some (Inl ''too short'')
      else do {
        h \<leftarrow> at_index d 0;
        let version = unat (drop_bit 4 h);
        if version = 4 then parse_v4 d
        else if version = 6 then parse_v6 d
        else Some (Inl (''ip'' @ itoa version))
      })"

section \<open>Capturing\<close>

record capture_opts =
  co_proto :: string
  co_port :: int
  co_src :: string
  co_dst :: string
  co_addr :: string
  co_count :: int
  co_timeout :: int

definition capture_filter :: "captured \<Rightarrow> capture_opts \<Rightarrow> bool" where
  "capture_filter p opts \<longleftrightarrow>
     \<not> (0 < co_port opts \<and> int (pk_sport p) \<noteq> co_port opts \<and> int (pk_dport p) \<noteq> co_port opts) \<and>
     \<not> (co_src opts \<noteq> [] \<and> pk_src p \<noteq> co_src opts) \<and> \<not> (co_dst opts \<noteq> [] \<and> pk_dst p \<noteq> co_dst opts)"

text \<open>\<open>net.PacketConn.ReadFrom\<close> on a raw socket of an \<open>ip4\<close> network: the header of the datagram is removed.\<close>

definition strip_ipv4 :: "bytes \<Rightarrow> bytes" where
  "strip_ipv4 d =
     (if length d < 20 then d
      else let l = unat (and (d ! 0) 0x0F) * 4
           in if l < 20 \<or> unat (drop_bit 4 (d ! 0)) \<noteq> 4 then d else drop l d)"

text \<open>\<open>readPackets\<close> on one datagram. None when nothing is handed on.\<close>

definition read_packet :: "capture_opts \<Rightarrow> bytes \<Rightarrow> captured option" where
  "read_packet opts d = (case parse_captured (strip_ipv4 d) of
       Some (Inr p) \<Rightarrow> if capture_filter p opts then Some p else None
     | _ \<Rightarrow> None)"

definition capture_protos :: "capture_opts \<Rightarrow> string list" where
  "capture_protos opts = (if co_proto opts \<noteq> ''all'' \<and> co_proto opts \<noteq> [] then [co_proto opts] else [''tcp'', ''udp''])"

definition capture_count :: "capture_opts \<Rightarrow> nat" where
  "capture_count opts = (if co_count opts \<le> 0 then 50 else nat (co_count opts))"

definition capture_seconds :: "capture_opts \<Rightarrow> int" where
  "capture_seconds opts = (if co_timeout opts \<le> 0 then 10 else co_timeout opts)"

definition capture_addr :: "capture_opts \<Rightarrow> string" where
  "capture_addr opts = (if co_addr opts = [] then ''0.0.0.0'' else co_addr opts)"

text \<open>\<open>CapturePackets\<close>. \<open>open_err\<close> answers the attempts to open a raw socket with an error or none;
  \<open>arrivals\<close> are the datagrams of all protocols that arrive before the given time is over, in the order in which the
  readers hand them on. On the left are the errors of all attempts.\<close>

definition capture_packets ::
  "(string \<Rightarrow> string \<Rightarrow> string option) \<Rightarrow> (int \<Rightarrow> (string \<times> bytes) list) \<Rightarrow> capture_opts \<Rightarrow> string + captured list" where
  "capture_packets open_err arrivals opts =
     (let err = (\<lambda>p. open_err (''ip4:'' @ p) (capture_addr opts));
          readers = filter (\<lambda>p. err p = None) (capture_protos opts);
          errs = List.map_filter (\<lambda>p. map_option (\<lambda>e. p @ '': '' @ e) (err p)) (capture_protos opts)
      in if readers = [] then Inl (join_with ''; '' errs)
         else Inr (take (capture_count opts)
           (List.map_filter (\<lambda>(p, d). if List.member readers p then read_packet opts d else None)
             (arrivals (capture_seconds opts)))))"

definition packet_row :: "string \<Rightarrow> string \<Rightarrow> string \<Rightarrow> string \<Rightarrow> string \<Rightarrow> string" where
  "packet_row a b c d e = left_col 12 a @ '' '' @ left_col 6 b @ '' '' @ left_col 50 c @ '' '' @ right_col 5 d @ ''  '' @ e @ [LF]"

text \<open>The times of day are those at which the packets were read.\<close>

definition format_packets :: "(string \<times> captured) list \<Rightarrow> string" where
  "format_packets pkts =
     (if pkts = [] then ''(no packets captured)''
      else packet_row ''Time'' ''Proto'' ''Address'' ''Len'' ''Info'' @ rule_line 85 @
        concat (map (\<lambda>(t, p). packet_row t (pk_proto p)
          (ip_port (pk_src p) (int (pk_sport p)) @ '' -> '' @ ip_port (pk_dst p) (int (pk_dport p))) (itoa (pk_length p)) (pk_info p)) pkts))"

section \<open>Facts about the parser\<close>

lemma u16_at_some: "Suc i < length d \<Longrightarrow> u16_at d i = Some (get_u16 (d ! i) (d ! Suc i))"
  by (simp add: u16_at_def at_index_def)

lemma slice_some: "lo \<le> hi \<Longrightarrow> hi \<le> length d \<Longrightarrow> slice d lo hi = Some (take (hi - lo) (drop lo d))"
  by (simp add: slice_def)

lemma at_index_some: "i < length d \<Longrightarrow> at_index d i = Some (d ! i)"
  by (simp add: at_index_def)

lemmas in_bounds = u16_at_some slice_some at_index_some

lemma parse_tcp_ok: "off + 20 \<le> length d \<Longrightarrow> parse_tcp d off p =
    Some (Inr (p\<lparr>pk_sport := get_u16 (d ! off) (d ! Suc off), pk_dport := get_u16 (d ! (off + 2)) (d ! (off + 3)),
      pk_proto := ''tcp'', pk_info := tcp_flags (high_nibble (d ! (off + 13)))\<rparr>))"
  by (simp add: parse_tcp_def parse_ports_def in_bounds numeral_3_eq_3)

lemma parse_heads_total [no_panic]:
  "parse_tcp d off p \<noteq> None" "parse_udp d off p \<noteq> None" "parse_icmp_head s d off p \<noteq> None"
  by (simp_all add: parse_tcp_def parse_udp_def parse_icmp_head_def parse_ports_def in_bounds)

lemma parse_v4_total [no_panic]: "20 \<le> length d \<Longrightarrow> parse_v4 d \<noteq> None"
  unfolding parse_v4_def Let_def by (intro no_panic) (auto simp: u16_at_some)

lemma parse_v6_total [no_panic]: "parse_v6 d \<noteq> None"
  unfolding parse_v6_def Let_def by (intro no_panic) (auto simp: u16_at_some)

text \<open> No datagram makes the parser index out of range.\<close>

lemma parse_packet_total: "parse_captured d \<noteq> None"
  unfolding parse_captured_def Let_def by (intro no_panic) auto

lemma high_nibble_bits: "bit (high_nibble f) i \<longleftrightarrow> i < 4 \<and> bit f (i + 4)"
proof -
  have "(0x0F :: byte) = mask 4" by (simp add: mask_eq_exp_minus_1)
  then show ?thesis
    unfolding high_nibble_def by (simp only: bit_simps) (auto simp: add.commute dest: bit_imp_le_length)
qed

text \<open> The flags are read from the wrong half of their byte: the name SYN stands for the urgent pointer, FIN and RST stand for
  the two congestion bits, and the bits of SYN, FIN, RST and PSH are not read at all.\<close>

lemma tcp_flag_names: "flag_names (high_nibble f) =
    (if bit f 5 then [''SYN''] else []) @ (if bit f 4 then [''ACK''] else []) @ (if bit f 7 then [''FIN''] else []) @
    (if bit f 6 then [''RST''] else [])"
  by (simp add: flag_names_def high_nibble_bits)

text \<open>A datagram of IPv4: its header with options, and a segment of TCP.\<close>

record tcp4 =
  t4_len :: nat
  t4_proto :: byte
  t4_src :: bytes
  t4_dst :: bytes
  t4_options :: bytes
  t4_sport :: nat
  t4_dport :: nat
  t4_seqs :: bytes
  t4_offset :: byte
  t4_flags :: byte
  t4_tail :: bytes

definition segment :: "tcp4 \<Rightarrow> bytes" where
  "segment t = put_u16 (t4_sport t) @ put_u16 (t4_dport t) @ t4_seqs t @ [t4_offset t, t4_flags t] @ t4_tail t"

definition datagram4 :: "tcp4 \<Rightarrow> bytes" where
  "datagram4 t = [0x40 + word_of_nat (5 + length (t4_options t) div 4), 0] @ put_u16 (t4_len t) @ [0, 0, 0, 0, 64, t4_proto t, 0, 0] @
     t4_src t @ t4_dst t @ t4_options t @ segment t"

definition tcp4_ok :: "tcp4 \<Rightarrow> bool" where
  "tcp4_ok t \<longleftrightarrow> t4_proto t = 6 \<and> length (t4_src t) = 4 \<and> length (t4_dst t) = 4 \<and> length (t4_seqs t) = 8 \<and> 6 \<le> length (t4_tail t) \<and>
     4 dvd length (t4_options t) \<and> length (t4_options t) \<le> 40 \<and> t4_len t < 65536 \<and> t4_sport t < 65536 \<and> t4_dport t < 65536"

lemma head_byte:
  assumes "n < 16"
  shows "unat (and (0x40 + word_of_nat n) 0x0F :: byte) = n" and "unat (drop_bit 4 (0x40 + word_of_nat n :: byte)) = 4"
proof -
  have "n = 0 \<or> n = 1 \<or> n = 2 \<or> n = 3 \<or> n = 4 \<or> n = 5 \<or> n = 6 \<or> n = 7 \<or> n = 8 \<or> n = 9 \<or> n = 10 \<or> n = 11 \<or> n = 12 \<or>
      n = 13 \<or> n = 14 \<or> n = 15"
    using assms by arith
  then have "unat (and (0x40 + word_of_nat n) 0x0F :: byte) = n \<and> unat (drop_bit 4 (0x40 + word_of_nat n :: byte)) = 4"
    by (elim disjE) simp_all
  then show "unat (and (0x40 + word_of_nat n) 0x0F :: byte) = n" "unat (drop_bit 4 (0x40 + word_of_nat n :: byte)) = 4"
    by blast+
qed

lemma datagram4_head:
  assumes "tcp4_ok t"
  defines "ihl \<equiv> 20 + length (t4_options t)"
  shows "unat (and (datagram4 t ! 0) 0x0F) * 4 = ihl" and "unat (drop_bit 4 (datagram4 t ! 0)) = 4"
    and "ihl + 20 \<le> length (datagram4 t)" and "drop ihl (datagram4 t) = segment t"
proof -
  obtain k where k: "length (t4_options t) = 4 * k" "k \<le> 10"
    using assms by (auto simp: tcp4_ok_def elim: dvdE)
  have len: "length (t4_src t) = 4" "length (t4_dst t) = 4" "length (t4_seqs t) = 8" "6 \<le> length (t4_tail t)"
    using assms by (simp_all add: tcp4_ok_def)
  have h: "datagram4 t ! 0 = 0x40 + word_of_nat (5 + k)"
    by (simp add: datagram4_def k)
  show "unat (and (datagram4 t ! 0) 0x0F) * 4 = ihl"
    unfolding h using head_byte(1) [of "5 + k"] k by (simp add: ihl_def)
  show "unat (drop_bit 4 (datagram4 t ! 0)) = 4"
    unfolding h using head_byte(2) [of "5 + k"] k by simp
  show "ihl + 20 \<le> length (datagram4 t)"
    using len by (simp add: ihl_def datagram4_def segment_def put_u16_def)
  show "drop ihl (datagram4 t) = segment t"
  proof -
    have "datagram4 t = ([0x40 + word_of_nat (5 + length (t4_options t) div 4), 0] @ put_u16 (t4_len t) @
        [0, 0, 0, 0, 64, t4_proto t, 0, 0] @ t4_src t @ t4_dst t @ t4_options t) @ segment t" (is "_ = ?pre @ _")
      by (simp add: datagram4_def)
    moreover have "length ?pre = ihl"
      using len by (simp add: ihl_def put_u16_def)
    ultimately show ?thesis by (metis append_eq_conv_conj)
  qed
qed

lemma segment_fields:
  assumes "tcp4_ok t"
  shows "get_u16 (segment t ! 0) (segment t ! 1) = t4_sport t" "get_u16 (segment t ! 2) (segment t ! 3) = t4_dport t"
    "segment t ! 13 = t4_flags t"
  using assms by (simp_all add: segment_def tcp4_ok_def put_u16_def nth_append)

text \<open> A whole datagram is read back: addresses, ports and length of an IPv4 datagram with options that carries TCP.\<close>

lemma parse_datagram4:
  assumes "tcp4_ok t"
  shows "parse_captured (datagram4 t) = Some (Inr \<lparr>pk_proto = ''tcp'', pk_src = ip_string (t4_src t), pk_dst = ip_string (t4_dst t),
     pk_sport = t4_sport t, pk_dport = t4_dport t, pk_length = t4_len t, pk_info = tcp_flags (high_nibble (t4_flags t))\<rparr>)"
proof -
  let ?d = "datagram4 t" let ?ihl = "20 + length (t4_options t)"
  note h = datagram4_head [OF assms]
  have len: "20 \<le> length ?d" using h(3) by linarith
  have nth: "?d ! (?ihl + i) = segment t ! i" for i
    using h(3,4) by (metis add_leD1 nth_drop)
  have nth': "?d ! ?ihl = segment t ! 0" "?d ! Suc ?ihl = segment t ! 1"
    using nth [of 0] nth [of 1] by simp_all
  have ok: "length (t4_src t) = 4" "length (t4_dst t) = 4" "t4_proto t = 6" "t4_len t < 65536"
    using assms by (simp_all add: tcp4_ok_def)
  have f: "u16_at ?d 2 = Some (t4_len t)" "at_index ?d 9 = Some 6" "slice ?d 12 16 = Some (t4_src t)" "slice ?d 16 20 = Some (t4_dst t)"
    using len ok by (simp_all add: in_bounds datagram4_def put_u16_def)
  have h0: "at_index ?d 0 = Some (?d ! 0)"
    by (rule at_index_some) (use len in linarith)
  have "parse_v4 ?d = parse_tcp ?d ?ihl (no_packet\<lparr>pk_src := ip_string (t4_src t), pk_dst := ip_string (t4_dst t), pk_length := t4_len t\<rparr>)"
    unfolding parse_v4_def using h(1) by (simp add: h0 f Let_def)
  also have "\<dots> = Some (Inr \<lparr>pk_proto = ''tcp'', pk_src = ip_string (t4_src t), pk_dst = ip_string (t4_dst t),
     pk_sport = t4_sport t, pk_dport = t4_dport t, pk_length = t4_len t, pk_info = tcp_flags (high_nibble (t4_flags t))\<rparr>)"
    unfolding parse_tcp_ok [OF h(3)] nth nth' segment_fields [OF assms] by (simp add: no_packet_def)
  finally show ?thesis
    using len h(2) by (simp add: parse_captured_def h0 Let_def)
qed

definition demo_segment :: "nat \<Rightarrow> byte \<Rightarrow> tcp4" where
  "demo_segment port flags = \<lparr>t4_len = 40, t4_proto = 6, t4_src = [93, 184, 216, 34], t4_dst = [10, 0, 0, 5], t4_options = [],
     t4_sport = port, t4_dport = 40000, t4_seqs = [0, 0, 0, 1, 0, 0, 0, 2], t4_offset = 0x50, t4_flags = flags,
     t4_tail = [0, 100, 0, 0, 0, 0]\<rparr>"

lemma demo_segment_ok: "port < 65536 \<Longrightarrow> tcp4_ok (demo_segment port flags)"
  by (simp add: tcp4_ok_def demo_segment_def)

text \<open> A SYN segment is shown without a flag.\<close>

lemma parse_datagram4_witness:
  "parse_captured (datagram4 (demo_segment 443 0x02)) = Some (Inr \<lparr>pk_proto = ''tcp'', pk_src = ip_string [93, 184, 216, 34],
     pk_dst = ip_string [10, 0, 0, 5], pk_sport = 443, pk_dport = 40000, pk_length = 40, pk_info = []\<rparr>)"
proof -
  have "tcp_flags (high_nibble 2) = []" by (simp add: tcp_flags_def tcp_flag_names)
  then show ?thesis
    using parse_datagram4 [OF demo_segment_ok, of 443 2] by (simp add: demo_segment_def)
qed

text \<open> The sockets hand over the payload without its IP header, and the parser looks for that header: a segment of TCP is
  dropped unless the upper half of the first byte of its source port happens to be 4 or 6.\<close>

lemma capture_drops_segments:
  assumes "tcp4_ok t" and "t4_sport t div 4096 \<noteq> 4" "t4_sport t div 4096 \<noteq> 6"
  shows "read_packet opts (datagram4 t) = None"
proof -
  note h = datagram4_head [OF assms(1)]
  have strip: "strip_ipv4 (datagram4 t) = segment t"
    using h by (simp add: strip_ipv4_def Let_def)
  have len: "20 \<le> length (segment t)"
    using assms(1) by (simp add: segment_def tcp4_ok_def put_u16_def)
  have first: "at_index (segment t) 0 = Some (word_of_nat (t4_sport t div 256))"
    by (simp add: segment_def put_u16_def at_index_def)
  have "t4_sport t < 65536" using assms(1) by (simp add: tcp4_ok_def)
  then have "t4_sport t div 256 mod 256 = t4_sport t div 256" by simp
  then have "unat (drop_bit 4 (word_of_nat (t4_sport t div 256) :: byte)) = t4_sport t div 4096"
    by (simp add: unat_div unat_of_nat drop_bit_eq_div flip: div_mult2_eq)
  then have "\<exists>e. parse_captured (segment t) = Some (Inl e)"
    using len assms(2,3) by (simp add: parse_captured_def first Let_def)
  then show ?thesis by (auto simp: read_packet_def strip)
qed

definition demo_opts :: capture_opts where
  "demo_opts = \<lparr>co_proto = ''tcp'', co_port = 443, co_src = [], co_dst = [], co_addr = [], co_count = 0, co_timeout = 0\<rparr>"

lemma capture_drops_segments_witness: "read_packet demo_opts (datagram4 (demo_segment 443 0x12)) = None"
  by (rule capture_drops_segments [OF demo_segment_ok]) (simp_all add: demo_segment_def)

text \<open> A capture ends with at most the wanted number of packets, all of which pass the filter.\<close>

lemma capture_bounded:
  assumes "capture_packets open_err arrivals opts = Inr ps"
  shows "length ps \<le> capture_count opts" and "\<forall>p \<in> set ps. capture_filter p opts"
proof -
  have read: "read_packet opts d = Some p \<Longrightarrow> capture_filter p opts" for d p
    by (auto simp: read_packet_def split: option.splits sum.splits if_splits)
  show "length ps \<le> capture_count opts"
    using assms by (auto simp: capture_packets_def Let_def split: if_splits)
  show "\<forall>p \<in> set ps. capture_filter p opts"
    using assms read
    by (auto simp: capture_packets_def Let_def List.map_filter_def split: if_splits dest!: in_set_takeD)
qed

section \<open>The command\<close>

text \<open>\<open>connFilter\<close>: the process is cut to 32 bits.\<close>

definition conn_filter_of :: "string \<Rightarrow> int \<Rightarrow> int \<Rightarrow> string \<Rightarrow> string \<Rightarrow> string \<Rightarrow> conn_filter" where
  "conn_filter_of proto port pid state src dst =
     \<lparr>fl_proto = (if proto = [] \<or> proto = ''all'' then ''all'' else proto), fl_pid = sint (word_of_int pid :: 32 word), fl_port = port,
      fl_state = state, fl_src = src, fl_dst = dst\<rparr>"

record diag_flags =
  nf_proto :: string
  nf_port :: int
  nf_pid :: int
  nf_state :: string
  nf_src :: string
  nf_dst :: string
  nf_count :: int
  nf_timeout :: int

definition flags_filter :: "diag_flags \<Rightarrow> conn_filter" where
  "flags_filter f = conn_filter_of (nf_proto f) (nf_port f) (nf_pid f) (nf_state f) (nf_src f) (nf_dst f)"

definition flags_capture :: "diag_flags \<Rightarrow> capture_opts" where
  "flags_capture f = \<lparr>co_proto = nf_proto f, co_port = nf_port f, co_src = [], co_dst = [], co_addr = [], co_count = nf_count f,
     co_timeout = nf_timeout f\<rparr>"

text \<open>The machine on which the command runs. The texts of the usage and of the errors of the command line are constructors.\<close>

record machine =
  mc_windows :: bool
  mc_linux :: bool
  mc_netstat :: netstat
  mc_ifaces :: "string + iface_stat list"
  mc_counters :: "string + io_counters list"
  mc_protos :: "string list \<Rightarrow> string + proto_stats list"
  mc_run :: command
  mc_proc :: "int \<Rightarrow> proc_fs"
  mc_open :: "string \<Rightarrow> string \<Rightarrow> string option"
  mc_arrivals :: "int \<Rightarrow> (string \<times> bytes) list"
  mc_clock :: "nat \<Rightarrow> string"

datatype netdiag_result = Usage | PortNeedsProto | FdNeedsPid | UnknownAction string | Failed string | Printed string

definition printed :: "('a \<Rightarrow> string) \<Rightarrow> string + 'a \<Rightarrow> netdiag_result" where
  "printed fmt r = (case r of Inl e \<Rightarrow> Failed e | Inr x \<Rightarrow> Printed (fmt x @ [LF]))"

definition show_packets :: "machine \<Rightarrow> diag_flags \<Rightarrow> netdiag_result" where
  "show_packets m f =
     printed (\<lambda>ps. ''Captured '' @ itoa (length ps) @ '' packets in '' @ itoa_int (nf_timeout f) @ ''s:'' @ [LF] @
         format_packets (map (\<lambda>(i, p). (mc_clock m i, p)) (List.enumerate 0 ps)))
       (capture_packets (mc_open m) (mc_arrivals m) (flags_capture f))"

definition run_netdiag :: "machine \<Rightarrow> diag_flags \<Rightarrow> string list \<Rightarrow> netdiag_result" where
  "run_netdiag m f args =
     (if args = [] then Usage
      else let action = hd args in
        if action = ''conns'' \<or> action = ''connections''
          then printed format_connections (get_connections (mc_netstat m) (nf_proto f) (Some (flags_filter f)))
        else if action = ''listeners'' \<or> action = ''listen''
          then printed format_connections (get_listeners (mc_netstat m) (Some (flags_filter f)))
        else if action = ''packets'' \<or> action = ''packet''
          then (if 0 < nf_port f \<and> nf_proto f = [] then PortNeedsProto else show_packets m f)
        else if action = ''stats'' \<or> action = ''stat'' then printed format_stats (socket_stats (mc_netstat m))
        else if action = ''interfaces'' \<or> action = ''ifaces''
          then printed (\<lambda>is. format_interfaces is @ [LF, LF] @ format_io_addresses is) (get_interfaces (mc_ifaces m) (mc_counters m))
        else if action = ''routes'' \<or> action = ''route'' then printed format_routes (get_routes (mc_windows m) (mc_run m))
        else if action = ''proto'' \<or> action = ''protocols'' then printed format_proto_stats (get_proto_stats (mc_protos m) [])
        else if action = ''fd'' \<or> action = ''fds''
          then (if nf_pid f \<le> 0 then FdNeedsPid
                else let pid = sint (word_of_int (nf_pid f) :: 32 word)
                     in printed format_process_fds (get_process_fds (mc_linux m) (mc_proc m pid) (mc_netstat m) pid))
        else UnknownAction action)"

text \<open> The Unix sockets that \<open>conns --proto unix\<close> asks the system for are all dropped: no socket is called \<open>unix\<close>.\<close>

lemma unix_sockets_hidden:
  assumes "nf_proto f = ''unix''" and "nf_pid f = 0" and "ns_all (mc_netstat m) ''unix'' = Inr raw"
  shows "run_netdiag m f [''conns''] = Printed (''(no connections)'' @ [LF])"
proof -
  have "\<not> contains (to_lower p) (to_lower ''unix'')" if "p \<in> {''tcp'', ''tcp6'', ''udp'', ''udp6'', ''raw'', ''raw6''}" for p
    using that by (elim insertE emptyE) (simp_all add: contains_def has_prefix_def lower_char_def)
  then have no: "\<not> flt_matches (Some (flags_filter f)) (plain_connection n c)" for n c
    using socket_proto_cases [of c] assms(1) by (simp add: flt_matches_def filter_matches_def flags_filter_def conn_filter_of_def)
  have kind: "sweep_kind ''unix'' = ''unix''" by code_simp
  have "fl_pid (flags_filter f) = 0" by (simp add: flags_filter_def conn_filter_of_def assms(2))
  then have "get_connections (mc_netstat m) (nf_proto f) (Some (flags_filter f)) = Inr []"
    using assms(1,3) by (simp add: get_connections_def sweep_def kind collect_start no filter_empty_conv)
  then show ?thesis by (simp add: run_netdiag_def printed_def format_connections_def)
qed

definition demo_machine :: machine where
  "demo_machine = \<lparr>mc_windows = False, mc_linux = True, mc_netstat = demo_netstat, mc_ifaces = Inr [], mc_counters = Inr [],
     mc_protos = (\<lambda>_. Inr []), mc_run = (\<lambda>_. ([], None)),
     mc_proc = (\<lambda>_. \<lparr>pf_entries = Inr [], pf_exe = None, pf_comm = None, pf_link = (\<lambda>_. None)\<rparr>),
     mc_open = (\<lambda>_ _. None), mc_arrivals = (\<lambda>_. []), mc_clock = (\<lambda>_. [])\<rparr>"

definition demo_flags :: "string \<Rightarrow> diag_flags" where
  "demo_flags proto = \<lparr>nf_proto = proto, nf_port = 0, nf_pid = 0, nf_state = [], nf_src = [], nf_dst = [], nf_count = 50, nf_timeout = 10\<rparr>"

lemma unix_sockets_hidden_witness:
  "run_netdiag demo_machine (demo_flags ''unix'') [''conns''] = Printed (''(no connections)'' @ [LF])"
  by (rule unix_sockets_hidden [where raw = demo_sockets]) (simp_all add: demo_flags_def demo_machine_def demo_netstat_def)

end
