(* ===== verification/Netdiag_Probe.thy ===== *)
theory Netdiag_Probe
  imports Netdiag Complex_Main
begin

text \<open>
  Probing a host (\<open>netdiag/probe.go\<close>) and the display of the results (\<open>netdiag/probe_fmt.go\<close>). The answers of the network
  are arguments, one for each round. Times are in nanoseconds; round trips are computed in real numbers, the rounding
  of \<open>float64\<close> is left out. The calls of \<open>emit\<close> get the samples in the order of the list, and the pauses between rounds do not show.
\<close>

section \<open>Modes and samples\<close>

datatype probe_mode = ProbeICMP | ProbeTCP | ProbeUDP

definition probe_mode_string :: "probe_mode \<Rightarrow> string" where
  "probe_mode_string m = (case m of ProbeTCP \<Rightarrow> ''tcp'' | ProbeUDP \<Rightarrow> ''udp'' | ProbeICMP \<Rightarrow> ''icmp'')"

definition parse_probe_mode :: "string \<Rightarrow> probe_mode option" where
  "parse_probe_mode s =
     (let t = to_lower (trim_space s) in
      if t = ''1'' \<or> t = ''icmp'' then Some ProbeICMP
      else if t = ''s'' \<or> t = ''tcp'' \<or> t = ''syn'' then Some ProbeTCP
      else if t = ''2'' \<or> t = ''udp'' then Some ProbeUDP else None)"

text \<open>An error of the network: the code it wraps, and its text.\<close>

datatype errno = ECONNREFUSED | ECONNRESET | OtherErrno

record net_error =
  ne_code :: errno
  ne_text :: string

definition is_refused :: "net_error \<Rightarrow> bool" where
  "is_refused e \<longleftrightarrow> ne_code e = ECONNREFUSED \<or> ne_code e = ECONNRESET \<or>
     contains (to_lower (ne_text e)) ''refused'' \<or> contains (to_lower (ne_text e)) ''connection reset''"

record probe_opts =
  po_target :: string
  po_mode :: probe_mode
  po_count :: int
  po_interval :: int
  po_timeout :: int
  po_size :: int
  po_port :: int
  po_iface :: string
  po_flood :: bool
  po_spoof :: string

record probe_sample =
  sa_seq :: nat
  sa_rtt :: int
  sa_ip :: string
  sa_bytes :: nat
  sa_state :: string
  sa_err :: "net_error option"

record probe_stats =
  ps_sent :: nat
  ps_mode :: probe_mode
  ps_target :: string
  ps_samples :: "probe_sample list"

definition add_sample :: "probe_stats \<Rightarrow> probe_sample \<Rightarrow> probe_stats" where
  "add_sample st s = st\<lparr>ps_sent := ps_sent st + 1, ps_samples := ps_samples st @ [s]\<rparr>"

section \<open>Statistics\<close>

definition sample_ok :: "probe_sample \<Rightarrow> bool" where
  "sample_ok x \<longleftrightarrow> sa_err x = None \<and> (sa_state x = ''reply'' \<or> sa_state x = ''open'')"

definition recv_count :: "probe_stats \<Rightarrow> nat" where
  "recv_count st = length (filter sample_ok (ps_samples st))"

definition loss_pct :: "probe_stats \<Rightarrow> real" where
  "loss_pct st = (if ps_sent st = 0 then 0 else real_of_int (int (ps_sent st) - int (recv_count st)) / real (ps_sent st) * 100)"

definition rtts :: "probe_stats \<Rightarrow> real list" where
  "rtts st = map (\<lambda>x. real_of_int (sa_rtt x div 1000) / 1000) (filter (\<lambda>x. sample_ok x \<and> 0 < sa_rtt x) (ps_samples st))"

definition reduce :: "real list \<Rightarrow> (real \<Rightarrow> real \<Rightarrow> real) \<Rightarrow> real \<Rightarrow> real" where
  "reduce vals f init = (if vals = [] then 0 else foldl f init vals)"

definition max_float32 :: real where
  "max_float32 = (2 ^ 24 - 1) * 2 ^ 104"

definition rtt_min :: "probe_stats \<Rightarrow> real" where
  "rtt_min st = reduce (rtts st) min max_float32"

definition rtt_max :: "probe_stats \<Rightarrow> real" where
  "rtt_max st = reduce (rtts st) max 0"

definition rtt_avg :: "probe_stats \<Rightarrow> real" where
  "rtt_avg st = (if rtts st = [] then 0 else foldl (+) 0 (rtts st) / real (length (rtts st)))"

definition rtt_stddev :: "probe_stats \<Rightarrow> real" where
  "rtt_stddev st =
     (if length (rtts st) < 2 then 0
      else sqrt (foldl (\<lambda>s x. s + (x - rtt_avg st) * (x - rtt_avg st)) 0 (rtts st) / real (length (rtts st))))"

section \<open>Rounds\<close>

definition make_payload :: "int \<Rightarrow> nat \<Rightarrow> bytes" where
  "make_payload n seq = map (\<lambda>i. word_of_nat (97 + (i + seq) mod 26)) [0..<nat (min n 65507)]"

text \<open>The answer to a connection attempt of TCP.\<close>

datatype dial = Dialed string | DialFailed net_error

definition tcp_round :: "(nat \<Rightarrow> dial \<times> int) \<Rightarrow> nat \<Rightarrow> probe_sample" where
  "tcp_round net seq = (case net seq of
       (DialFailed e, rt) \<Rightarrow> \<lparr>sa_seq = seq, sa_rtt = rt, sa_ip = [], sa_bytes = 0,
          sa_state = (if is_refused e then ''closed'' else ''timeout''), sa_err = Some e\<rparr>
     | (Dialed ip, rt) \<Rightarrow> \<lparr>sa_seq = seq, sa_rtt = rt, sa_ip = ip, sa_bytes = 0, sa_state = ''open'', sa_err = None\<rparr>)"

text \<open>The answer to a datagram: no socket, or the peer with the bytes or the error of the read.\<close>

datatype datagram_answer = NoSocket net_error | Answer string "net_error + nat"

definition udp_round :: "(nat \<Rightarrow> bytes \<Rightarrow> datagram_answer \<times> int) \<Rightarrow> int \<Rightarrow> nat \<Rightarrow> probe_sample" where
  "udp_round net n seq = (case net seq (make_payload n seq) of
       (NoSocket e, _) \<Rightarrow> \<lparr>sa_seq = seq, sa_rtt = 0, sa_ip = [], sa_bytes = 0, sa_state = ''error'', sa_err = Some e\<rparr>
     | (Answer ip (Inr k), rt) \<Rightarrow> \<lparr>sa_seq = seq, sa_rtt = rt, sa_ip = ip, sa_bytes = k, sa_state = ''open'', sa_err = None\<rparr>
     | (Answer ip (Inl e), rt) \<Rightarrow> \<lparr>sa_seq = seq, sa_rtt = rt, sa_ip = ip, sa_bytes = 0,
          sa_state = (if is_refused e then ''closed'' else ''filtered''), sa_err = Some e\<rparr>)"

text \<open>An echo request: the error of its encoding or of its transmission, the datagrams that arrive before the
  deadline with their sender and the time since the request, and the error of the read that ends the wait. \<open>parse\<close> stands
  for \<open>icmp.ParseMessage\<close>.\<close>

datatype icmp_message = EchoReply nat nat | OtherMessage

record echo_answer =
  ea_marshal :: "string option"
  ea_write :: "net_error option"
  ea_reads :: "(bytes \<times> string \<times> int) list"
  ea_end :: net_error

fun wait_icmp_reply :: "(bytes \<Rightarrow> icmp_message option) \<Rightarrow> nat \<Rightarrow> nat \<Rightarrow> (bytes \<times> string \<times> int) list \<Rightarrow> net_error \<Rightarrow> probe_sample" where
  "wait_icmp_reply parse ident want [] e =
     \<lparr>sa_seq = want, sa_rtt = 0, sa_ip = [], sa_bytes = 0, sa_state = ''timeout'', sa_err = Some e\<rparr>"
| "wait_icmp_reply parse ident want ((b, peer, t) # rs) e = (case parse b of
       Some (EchoReply i s) \<Rightarrow>
         if i \<noteq> ident \<or> s \<noteq> want then wait_icmp_reply parse ident want rs e
         else \<lparr>sa_seq = want, sa_rtt = t, sa_ip = peer, sa_bytes = 0, sa_state = ''reply'', sa_err = None\<rparr>
     | _ \<Rightarrow> wait_icmp_reply parse ident want rs e)"

definition icmp_round ::
  "(bytes \<Rightarrow> icmp_message option) \<Rightarrow> (nat \<Rightarrow> bytes \<Rightarrow> echo_answer) \<Rightarrow> nat \<Rightarrow> int \<Rightarrow> nat \<Rightarrow> string + probe_sample" where
  "icmp_round parse net ident n seq =
     (let a = net seq (make_payload n seq) in
      case ea_marshal a of
        Some e \<Rightarrow> Inl e
      | None \<Rightarrow> (case ea_write a of
          Some e \<Rightarrow> Inr \<lparr>sa_seq = seq, sa_rtt = 0, sa_ip = [], sa_bytes = 0, sa_state = ''error'', sa_err = Some e\<rparr>
        | None \<Rightarrow> Inr (wait_icmp_reply parse ident seq (ea_reads a) (ea_end a))))"

section \<open>The loop\<close>

datatype probe_error =
    SpoofRefused | NoTarget | NotIPv4 string | ResolveFailed string string | NoIPv4 string
  | InterfacesFailed string | NoInterface string | RawSocketFailed string | MarshalFailed string

text \<open>The loop of the three probes: without a count it goes on until it is cancelled.\<close>

partial_function (option) probe_loop ::
  "(nat \<Rightarrow> bool) \<Rightarrow> (nat \<Rightarrow> string + probe_sample) \<Rightarrow> int \<Rightarrow> nat \<Rightarrow> probe_stats \<Rightarrow> (probe_stats \<times> probe_error option) option" where
  "probe_loop cancelled step limit seq st =
     (if limit = 0 \<or> int seq \<le> limit then
        (if cancelled seq then Some (st, None)
         else case step seq of
           Inl e \<Rightarrow> Some (st, Some (MarshalFailed e))
         | Inr s \<Rightarrow> probe_loop cancelled step limit (seq + 1) (add_sample st s))
      else Some (st, None))"

definition resolve_ipv4 :: "(string \<Rightarrow> string + ip list) \<Rightarrow> string \<Rightarrow> probe_error + ip" where
  "resolve_ipv4 lookup host = (case parse_ip host of
       Some a \<Rightarrow> (case to4 a of Some v \<Rightarrow> Inr v | None \<Rightarrow> Inl (NotIPv4 host))
     | None \<Rightarrow> (case lookup host of
         Inl e \<Rightarrow> Inl (ResolveFailed host e)
       | Inr ips \<Rightarrow> (case List.map_filter to4 ips of v # _ \<Rightarrow> Inr v | [] \<Rightarrow> Inl (NoIPv4 host))))"

definition strip_mask :: "string \<Rightarrow> string" where
  "strip_mask a = (case index_byte a CHR ''/'' of Some i \<Rightarrow> take i a | None \<Rightarrow> a)"

definition is_ipv4_text :: "string \<Rightarrow> bool" where
  "is_ipv4_text s = (case parse_ip s of Some a \<Rightarrow> to4 a \<noteq> None | None \<Rightarrow> False)"

definition bind_addr_for :: "string + interface_stats list \<Rightarrow> string \<Rightarrow> probe_error + string" where
  "bind_addr_for ifaces name =
     (if name = [] then Inr ''0.0.0.0''
      else case ifaces of
        Inl e \<Rightarrow> Inl (InterfacesFailed e)
      | Inr is \<Rightarrow>
          (case filter is_ipv4_text (map strip_mask (concat (map in_addrs (filter (\<lambda>i. equal_fold (in_name i) name) is)))) of
             a # _ \<Rightarrow> Inr a | [] \<Rightarrow> Inl (NoInterface name)))"

text \<open>The network during a session.\<close>

record probe_net =
  pn_cancelled :: "nat \<Rightarrow> bool"
  pn_lookup :: "string \<Rightarrow> string + ip list"
  pn_ifaces :: "string + interface_stats list"
  pn_raw_err :: "string \<Rightarrow> string option"
  pn_pid :: nat
  pn_parse :: "bytes \<Rightarrow> icmp_message option"
  pn_echo :: "ip \<Rightarrow> int \<Rightarrow> nat \<Rightarrow> bytes \<Rightarrow> echo_answer"
  pn_tcp :: "string \<Rightarrow> int \<Rightarrow> nat \<Rightarrow> dial \<times> int"
  pn_udp :: "string \<Rightarrow> int \<Rightarrow> nat \<Rightarrow> bytes \<Rightarrow> datagram_answer \<times> int"

type_synonym session_result = "(probe_stats option \<times> probe_error option) option"

definition as_result :: "(probe_stats \<times> probe_error option) option \<Rightarrow> session_result" where
  "as_result r = map_option (\<lambda>(st, e). (Some st, e)) r"

definition icmp_probe :: "probe_net \<Rightarrow> probe_opts \<Rightarrow> probe_stats \<Rightarrow> session_result" where
  "icmp_probe net opts st = (case resolve_ipv4 (pn_lookup net) (po_target opts) of
       Inl e \<Rightarrow> Some (Some st, Some e)
     | Inr dst \<Rightarrow> (case bind_addr_for (pn_ifaces net) (po_iface opts) of
         Inl e \<Rightarrow> Some (Some st, Some e)
       | Inr addr \<Rightarrow> (case pn_raw_err net addr of
           Some e \<Rightarrow> Some (Some st, Some (RawSocketFailed e))
         | None \<Rightarrow> as_result (probe_loop (pn_cancelled net)
             (icmp_round (pn_parse net) (pn_echo net dst (po_timeout opts)) (pn_pid net mod 65536) (po_size opts)) (po_count opts) 1 st))))"

definition probe_addr :: "probe_opts \<Rightarrow> int \<Rightarrow> string" where
  "probe_addr opts port = join_host_port (po_target opts) (itoa_int (if po_port opts = 0 then port else po_port opts))"

definition tcp_probe :: "probe_net \<Rightarrow> probe_opts \<Rightarrow> probe_stats \<Rightarrow> session_result" where
  "tcp_probe net opts st = as_result (probe_loop (pn_cancelled net)
     (\<lambda>seq. Inr (tcp_round (pn_tcp net (probe_addr opts 80) (po_timeout opts)) seq)) (po_count opts) 1 st)"

definition udp_probe :: "probe_net \<Rightarrow> probe_opts \<Rightarrow> probe_stats \<Rightarrow> session_result" where
  "udp_probe net opts st = as_result (probe_loop (pn_cancelled net)
     (\<lambda>seq. Inr (udp_round (pn_udp net (probe_addr opts 33434) (po_timeout opts)) (po_size opts) seq)) (po_count opts) 1 st)"

definition checked_opts :: "probe_opts \<Rightarrow> probe_opts" where
  "checked_opts opts =
     (let o1 = (if po_timeout opts \<le> 0 then opts\<lparr>po_timeout := 10 ^ 9\<rparr> else opts)
      in if po_size o1 < 0 then o1\<lparr>po_size := 0\<rparr> else o1)"

definition fresh_stats :: "probe_opts \<Rightarrow> probe_stats" where
  "fresh_stats opts = \<lparr>ps_sent = 0, ps_mode = po_mode opts, ps_target = po_target opts, ps_samples = []\<rparr>"

definition probe :: "probe_net \<Rightarrow> probe_opts \<Rightarrow> session_result" where
  "probe net opts =
     (if po_spoof opts \<noteq> [] then Some (None, Some SpoofRefused)
      else if po_target opts = [] then Some (None, Some NoTarget)
      else case po_mode opts of
         ProbeTCP \<Rightarrow> tcp_probe net (checked_opts opts) (fresh_stats opts)
       | ProbeUDP \<Rightarrow> udp_probe net (checked_opts opts) (fresh_stats opts)
       | ProbeICMP \<Rightarrow> icmp_probe net (checked_opts opts) (fresh_stats opts))"

text \<open>\<open>Traceroute\<close>: the command line of the tool of the system.\<close>

definition traceroute :: "bool \<Rightarrow> (string list \<Rightarrow> string option) \<Rightarrow> string \<Rightarrow> int \<Rightarrow> string option" where
  "traceroute windows run target max_hops =
     (let hops = itoa_int (if max_hops \<le> 0 then 30 else max_hops);
          name = (if windows then ''tracert'' else ''traceroute'');
          args = (if windows then [''-d'', ''-h'', hops, target] else [''-m'', hops, target])
      in map_option (\<lambda>e. name @ '' '' @ target @ '': '' @ e) (run (name # args)))"

section \<open>Every session ends, unless it has no count\<close>

lemma loop_returns:
  assumes "limit \<noteq> 0"
  shows "\<exists>r. probe_loop cancelled step limit seq st = Some r"
proof (induction "nat (limit + 1 - int seq)" arbitrary: seq st rule: less_induct)
  case less
  show ?case
  proof (cases "int seq \<le> limit")
    case True
    then have "\<exists>r. probe_loop cancelled step limit (seq + 1) (add_sample st s) = Some r" for s
      by (intro less) simp
    then show ?thesis
      by (subst probe_loop.simps) (auto split: sum.split)
  next
    case False
    then show ?thesis using assms by (subst probe_loop.simps) simp
  qed
qed

lemma loop_ends_cancelled:
  assumes "cancelled n" "seq \<le> n"
  shows "\<exists>r. probe_loop cancelled step limit seq st = Some r"
  using assms
proof (induction "n - seq" arbitrary: seq st)
  case 0
  then show ?case by (subst probe_loop.simps) simp
next
  case (Suc k)
  have "\<exists>r. probe_loop cancelled step limit (seq + 1) (add_sample st s) = Some r" for s
    using Suc.hyps(2) Suc.prems by (intro Suc.hyps(1)) simp_all
  then show ?case by (subst probe_loop.simps) (auto split: sum.split)
qed

lemma loop_result_ends:
  assumes "probe_loop cancelled step limit seq st = Some r"
  shows "limit = 0 \<longrightarrow> (\<exists>n \<ge> seq. cancelled n \<or> (\<exists>e. step n = Inl e))"
proof (rule probe_loop.raw_induct [OF _ assms])
  fix loop :: "(nat \<Rightarrow> bool) \<Rightarrow> (nat \<Rightarrow> string + probe_sample) \<Rightarrow> int \<Rightarrow> nat \<Rightarrow> probe_stats \<Rightarrow> (probe_stats \<times> probe_error option) option"
    and cancelled step limit seq st r
  assume IH: "\<And>c s l q t u. loop c s l q t = Some u \<Longrightarrow> l = 0 \<longrightarrow> (\<exists>n \<ge> q. c n \<or> (\<exists>e. s n = Inl e))"
    and eq: "(if limit = 0 \<or> int seq \<le> limit
        then if cancelled seq then Some (st, None)
             else case step seq of Inl e \<Rightarrow> Some (st, Some (MarshalFailed e)) | Inr s \<Rightarrow> loop cancelled step limit (seq + 1) (add_sample st s)
        else Some (st, None)) = Some r"
  show "limit = 0 \<longrightarrow> (\<exists>n \<ge> seq. cancelled n \<or> (\<exists>e. step n = Inl e))"
  proof (intro impI)
    assume "limit = 0"
    show "\<exists>n \<ge> seq. cancelled n \<or> (\<exists>e. step n = Inl e)"
    proof (cases "cancelled seq \<or> (\<exists>e. step seq = Inl e)")
      case False
      then obtain s where s: "step seq = Inr s" "\<not> cancelled seq" by (cases "step seq") auto
      then have "loop cancelled step limit (seq + 1) (add_sample st s) = Some r"
        using eq \<open>limit = 0\<close> by simp
      then obtain n where "seq + 1 \<le> n" "cancelled n \<or> (\<exists>e. step n = Inl e)" using IH \<open>limit = 0\<close> by blast
      then show ?thesis by (intro exI [of _ n]) simp
    qed auto
  qed
qed

text \<open>What a session collects: one sample for each round, in order, and no more than were asked for.\<close>

lemma loop_collects:
  assumes "probe_loop cancelled step limit seq st = Some (st', e)"
  shows "\<exists>n \<ge> seq. ps_samples st' = ps_samples st @ map (\<lambda>i. projr (step i)) [seq..<n] \<and> ps_sent st' = ps_sent st + (n - seq) \<and>
    (\<forall>i \<in> {seq..<n}. \<not> cancelled i \<and> (\<exists>s. step i = Inr s)) \<and> (0 < limit \<longrightarrow> n = seq \<or> int n \<le> limit + 1)"
proof -
  let ?P = "\<lambda>cancelled step limit seq st r. \<exists>n \<ge> seq. ps_samples (fst r) = ps_samples st @ map (\<lambda>i. projr (step i)) [seq..<n] \<and>
    ps_sent (fst r) = ps_sent st + (n - seq) \<and> (\<forall>i \<in> {seq..<n}. \<not> cancelled i \<and> (\<exists>s. step i = Inr s)) \<and> (0 < limit \<longrightarrow> n = seq \<or> int n \<le> limit + 1)"
  have "?P cancelled step limit seq st (st', e)"
  proof (rule probe_loop.raw_induct [where P = ?P, OF _ assms])
    fix loop :: "(nat \<Rightarrow> bool) \<Rightarrow> (nat \<Rightarrow> string + probe_sample) \<Rightarrow> int \<Rightarrow> nat \<Rightarrow> probe_stats \<Rightarrow> (probe_stats \<times> probe_error option) option"
      and cancelled step limit seq st r
    assume IH: "\<And>c s l q t u. loop c s l q t = Some u \<Longrightarrow> ?P c s l q t u"
      and eq: "(if limit = 0 \<or> int seq \<le> limit
          then if cancelled seq then Some (st, None)
               else case step seq of Inl e \<Rightarrow> Some (st, Some (MarshalFailed e)) | Inr s \<Rightarrow> loop cancelled step limit (seq + 1) (add_sample st s)
          else Some (st, None)) = Some r"
    show "?P cancelled step limit seq st r"
    proof (cases "(limit = 0 \<or> int seq \<le> limit) \<and> \<not> cancelled seq \<and> (\<exists>s. step seq = Inr s)")
      case False
      then have "fst r = st" using eq by (auto split: if_splits sum.splits)
      then show ?thesis by (intro exI [of _ seq]) simp
    next
      case True
      then obtain s where s: "step seq = Inr s" "\<not> cancelled seq" by blast
      then have "loop cancelled step limit (seq + 1) (add_sample st s) = Some r" using eq True by simp
      from IH [OF this] obtain n where n: "Suc seq \<le> n"
        "ps_samples (fst r) = ps_samples (add_sample st s) @ map (\<lambda>i. projr (step i)) [Suc seq..<n]"
        "ps_sent (fst r) = ps_sent (add_sample st s) + (n - Suc seq)"
        "\<forall>i \<in> {Suc seq..<n}. \<not> cancelled i \<and> (\<exists>s. step i = Inr s)" "0 < limit \<longrightarrow> n = Suc seq \<or> int n \<le> limit + 1"
        unfolding Suc_eq_plus1 [symmetric] by blast
      have up: "[seq..<n] = seq # [Suc seq..<n]" using n(1) by (simp add: upt_conv_Cons)
      have "\<forall>i \<in> {seq..<n}. \<not> cancelled i \<and> (\<exists>s. step i = Inr s)"
        using n(4) s by (metis atLeastLessThan_iff le_antisym not_less_eq_eq)
      then show ?thesis
        using n s True by (intro exI [of _ n]) (auto simp: add_sample_def up)
    qed
  qed
  then show ?thesis by simp
qed

lemma loop_none_iff:
  assumes "\<And>n. \<exists>s. step n = Inr s"
  shows "probe_loop cancelled step limit seq st = None \<longleftrightarrow> limit = 0 \<and> (\<forall>n \<ge> seq. \<not> cancelled n)"
proof
  assume none: "probe_loop cancelled step limit seq st = None"
  then have "limit = 0" using loop_returns [of limit cancelled step seq st] by fastforce
  moreover have "\<not> cancelled n" if "n \<ge> seq" for n
    using loop_ends_cancelled [of cancelled n seq step limit st] that none by auto
  ultimately show "limit = 0 \<and> (\<forall>n \<ge> seq. \<not> cancelled n)" by blast
next
  assume "limit = 0 \<and> (\<forall>n \<ge> seq. \<not> cancelled n)"
  then show "probe_loop cancelled step limit seq st = None"
    using loop_result_ends [of cancelled step limit seq st] assms by (metis Inl_Inr_False option.exhaust)
qed

lemma round_seq:
  "sa_seq (tcp_round net n) = n" "sa_seq (udp_round unet k n) = n" "sa_seq (wait_icmp_reply parse ident n rs e) = n"
proof -
  show "sa_seq (tcp_round net n) = n" by (simp add: tcp_round_def split: prod.split dial.split)
  show "sa_seq (udp_round unet k n) = n" by (simp add: udp_round_def split: prod.split datagram_answer.split sum.split)
  show "sa_seq (wait_icmp_reply parse ident n rs e) = n"
    by (induction parse ident n rs e rule: wait_icmp_reply.induct) (auto split: option.split icmp_message.split)
qed

lemma icmp_round_seq: "icmp_round parse net ident k n = Inr s \<Longrightarrow> sa_seq s = n"
  by (auto simp: icmp_round_def Let_def round_seq split: option.splits)

text \<open>The shape of the results of all sessions that got as far as the loop or failed before it.\<close>

definition session_ok :: "int \<Rightarrow> probe_stats \<Rightarrow> bool" where
  "session_ok limit st \<longleftrightarrow> map sa_seq (ps_samples st) = [1..<Suc (ps_sent st)] \<and> (0 < limit \<longrightarrow> int (ps_sent st) \<le> limit)"

lemma fresh_ok: "session_ok limit (fresh_stats opts)"
  by (simp add: session_ok_def fresh_stats_def)

lemma loop_session_ok:
  assumes "probe_loop cancelled step limit 1 (fresh_stats opts) = Some (st', e)" and seqs: "\<And>n s. step n = Inr s \<Longrightarrow> sa_seq s = n"
  shows "session_ok limit st'"
proof -
  from loop_collects [OF assms(1)] obtain n where n: "1 \<le> n" "ps_samples st' = map (\<lambda>i. projr (step i)) [1..<n]" "ps_sent st' = n - 1"
    "\<forall>i \<in> {1..<n}. \<not> cancelled i \<and> (\<exists>s. step i = Inr s)" "0 < limit \<longrightarrow> n = 1 \<or> int n \<le> limit + 1"
    by (auto simp: fresh_stats_def)
  have "sa_seq (projr (step i)) = i" if i: "i \<in> set [1..<n]" for i
  proof -
    have "\<not> cancelled i \<and> (\<exists>s. step i = Inr s)" by (rule bspec [OF n(4)]) (use i in simp)
    then obtain s where "step i = Inr s" by blast
    with seqs [OF this] show ?thesis by simp
  qed
  then have "map sa_seq (ps_samples st') = [1..<n]"
    unfolding n(2) map_map comp_def by (rule map_idI)
  then show ?thesis using n by (auto simp: session_ok_def)
qed

lemma checked_count [simp]: "po_count (checked_opts opts) = po_count opts"
  by (simp add: checked_opts_def Let_def)

lemma as_result_some: "as_result r = Some (Some st, e) \<longleftrightarrow> r = Some (st, e)"
  by (auto simp: as_result_def)

lemma answered_bound: "recv_count st \<le> length (ps_samples st)"
  by (simp add: recv_count_def)

lemma loss_bounds: "recv_count st \<le> ps_sent st \<Longrightarrow> 0 \<le> loss_pct st \<and> loss_pct st \<le> 100"
  by (auto simp: loss_pct_def field_simps)

lemma icmp_session:
  assumes "icmp_probe net opts (fresh_stats opts') = Some (Some st, e)"
  shows "session_ok (po_count opts) st"
proof -
  have loop: "probe_loop c (icmp_round parse echo ident k) (po_count opts) 1 (fresh_stats opts') = Some (st, e) \<Longrightarrow>
      session_ok (po_count opts) st" for c parse echo ident k
    by (rule loop_session_ok) (auto intro: icmp_round_seq)
  show ?thesis
    using assms fresh_ok [of "po_count opts" opts']
    by (auto simp: icmp_probe_def as_result_some split: sum.splits option.splits dest!: loop [unfolded One_nat_def])
qed

text \<open> A session that ends has one sample for each request, numbered from 1, no more than were asked for, and a loss
  between 0 and 100 percent.\<close>

lemma probe_session:
  assumes "probe net opts = Some (Some st, e)"
  shows "session_ok (po_count opts) st \<and> length (ps_samples st) = ps_sent st \<and> 0 \<le> loss_pct st \<and> loss_pct st \<le> 100"
proof -
  have ok: "session_ok (po_count opts) st"
  proof (cases "po_mode opts")
    case ProbeICMP
    then have "icmp_probe net (checked_opts opts) (fresh_stats opts) = Some (Some st, e)"
      using assms by (simp add: probe_def split: if_splits)
    from icmp_session [OF this] show ?thesis by simp
  next
    case ProbeTCP
    then have "tcp_probe net (checked_opts opts) (fresh_stats opts) = Some (Some st, e)"
      using assms by (simp add: probe_def split: if_splits)
    then show ?thesis
      unfolding tcp_probe_def as_result_some checked_count by (rule loop_session_ok) (auto simp: round_seq)
  next
    case ProbeUDP
    then have "udp_probe net (checked_opts opts) (fresh_stats opts) = Some (Some st, e)"
      using assms by (simp add: probe_def split: if_splits)
    then show ?thesis
      unfolding udp_probe_def as_result_some checked_count by (rule loop_session_ok) (auto simp: round_seq)
  qed
  have "length (ps_samples st) = ps_sent st"
    using ok unfolding session_ok_def by (metis diff_Suc_1 length_map length_upt)
  then show ?thesis
    using ok answered_bound [of st] loss_bounds [of st] by simp
qed

text \<open> A probe over TCP or UDP fails to return exactly when it has neither a count nor a cancellation.\<close>

lemma probe_stops_iff:
  assumes "po_mode opts \<noteq> ProbeICMP" "po_spoof opts = []" "po_target opts \<noteq> []"
  shows "probe net opts = None \<longleftrightarrow> po_count opts = 0 \<and> (\<forall>n \<ge> 1. \<not> pn_cancelled net n)"
  using assms
  by (cases "po_mode opts") (simp_all add: probe_def tcp_probe_def udp_probe_def as_result_def loop_none_iff)

text \<open> The sequence number on the wire has 16 bits, the counter of the loop has not: from the 65536th request on no answer
  is taken for one.\<close>

lemma icmp_sequence_lost:
  assumes "\<And>b i s. parse b = Some (EchoReply i s) \<Longrightarrow> s < 65536" and "65536 \<le> seq"
    and "ea_marshal (net seq (make_payload k seq)) = None" "ea_write (net seq (make_payload k seq)) = None"
  shows "\<exists>x. icmp_round parse net ident k seq = Inr x \<and> \<not> sample_ok x"
proof -
  have "\<not> sample_ok (wait_icmp_reply parse ident seq rs e)" for rs e
  proof (induction rs)
    case (Cons r rs)
    have "parse (fst r) \<noteq> Some (EchoReply ident seq)" using assms(1,2) by (meson not_less)
    then show ?case using Cons by (cases r) (auto split: option.split icmp_message.split)
  qed (simp add: sample_ok_def)
  then show ?thesis using assms(3,4) by (simp add: icmp_round_def Let_def)
qed

definition demo_probe_net :: probe_net where
  "demo_probe_net = \<lparr>pn_cancelled = (\<lambda>n. 3 \<le> n), pn_lookup = (\<lambda>_. Inl ''no such host''), pn_ifaces = Inr [], pn_raw_err = (\<lambda>_. None),
     pn_pid = 70000, pn_parse = (\<lambda>b. case b of [x] \<Rightarrow> Some (EchoReply 4464 (unat x)) | _ \<Rightarrow> None),
     pn_echo = (\<lambda>_ _ seq _. \<lparr>ea_marshal = None, ea_write = None, ea_reads = [([], ''10.0.0.9'', 5), ([word_of_nat seq], ''10.0.0.1'', 1500000)],
       ea_end = \<lparr>ne_code = OtherErrno, ne_text = ''i/o timeout''\<rparr>\<rparr>),
     pn_tcp = (\<lambda>_ _ n. if even n then (Dialed ''10.0.0.1'', 2000000)
       else (DialFailed \<lparr>ne_code = ECONNREFUSED, ne_text = ''connection refused''\<rparr>, 1000000)),
     pn_udp = (\<lambda>_ _ _ _. (Answer ''10.0.0.1'' (Inr 4), 3000000))\<rparr>"

definition demo_probe_opts :: "probe_mode \<Rightarrow> int \<Rightarrow> probe_opts" where
  "demo_probe_opts m n = \<lparr>po_target = ''10.0.0.1'', po_mode = m, po_count = n, po_interval = 0, po_timeout = 0, po_size = - 1, po_port = 0,
     po_iface = [], po_flood = True, po_spoof = []\<rparr>"

lemma probe_session_witness:
  "\<exists>st. probe demo_probe_net (demo_probe_opts ProbeTCP 0) = Some (Some st, None) \<and> length (ps_samples st) = 2 \<and> ps_sent st = 2 \<and>
    session_ok 0 st"
proof -
  let ?st = "\<lparr>ps_sent = 2, ps_mode = ProbeTCP, ps_target = ''10.0.0.1'', ps_samples =
    [\<lparr>sa_seq = 1, sa_rtt = 1000000, sa_ip = [], sa_bytes = 0, sa_state = ''closed'',
        sa_err = Some \<lparr>ne_code = ECONNREFUSED, ne_text = ''connection refused''\<rparr>\<rparr>,
     \<lparr>sa_seq = 2, sa_rtt = 2000000, sa_ip = ''10.0.0.1'', sa_bytes = 0, sa_state = ''open'', sa_err = None\<rparr>]\<rparr>"
  have run: "probe demo_probe_net (demo_probe_opts ProbeTCP 0) = Some (Some ?st, None)"
    by (simp add: probe_def demo_probe_opts_def tcp_probe_def as_result_def demo_probe_net_def fresh_stats_def add_sample_def
        probe_loop.simps tcp_round_def is_refused_def)
  from probe_session [OF this] show ?thesis
    unfolding run by (simp add: demo_probe_opts_def)
qed

lemma probe_stops_iff_witness:
  "probe (demo_probe_net\<lparr>pn_cancelled := \<lambda>_. False\<rparr>) (demo_probe_opts ProbeUDP 0) = None"
  by (subst probe_stops_iff) (simp_all add: demo_probe_opts_def)

lemma icmp_sequence_lost_witness:
  "\<exists>x. icmp_round (pn_parse demo_probe_net) (pn_echo demo_probe_net [10, 0, 0, 1] 1) 4464 0 65537 = Inr x \<and> \<not> sample_ok x"
proof (rule icmp_sequence_lost)
  fix b i s assume "pn_parse demo_probe_net b = Some (EchoReply i s)"
  then obtain x :: byte where "s = unat x" by (auto simp: demo_probe_net_def split: list.splits)
  then show "s < 65536" using unat_byte_less [of x] by linarith
qed (simp_all add: demo_probe_net_def)

section \<open>Display\<close>

definition probe_rune_width :: "nat \<Rightarrow> nat" where
  "probe_rune_width r =
     (if 0x1100 \<le> r \<and> r \<le> 0x115F \<or> 0x2E80 \<le> r \<and> r \<le> 0x9FFF \<or> 0xA000 \<le> r \<and> r \<le> 0xA4CF \<or> 0xAC00 \<le> r \<and> r \<le> 0xD7A3 \<or>
         0xF900 \<le> r \<and> r \<le> 0xFAFF \<or> 0xFE30 \<le> r \<and> r \<le> 0xFE6F \<or> 0xFF00 \<le> r \<and> r \<le> 0xFF60 \<or> 0x20000 \<le> r \<and> r \<le> 0x2FA1F
      then 2
      else if r = 0xB7 \<or> r = 0x2026 \<or> 0x2190 \<le> r \<and> r \<le> 0x21FF \<or> 0x2200 \<le> r \<and> r \<le> 0x22FF \<or> 0x2300 \<le> r \<and> r \<le> 0x23FF \<or>
         0x2460 \<le> r \<and> r \<le> 0x25FF \<or> 0x2600 \<le> r \<and> r \<le> 0x27BF \<or> 0x2B00 \<le> r \<and> r \<le> 0x2BFF
      then 2 else 1)"

fun disp_from :: "bool \<Rightarrow> nat list \<Rightarrow> nat" where
  "disp_from in_esc [] = 0"
| "disp_from in_esc (r # rs) =
     (if r = 27 then disp_from True rs
      else if in_esc then disp_from (r \<noteq> 109) rs
      else probe_rune_width r + disp_from False rs)"

definition disp_len :: "string \<Rightarrow> nat" where
  "disp_len s = disp_from False (runes (bytes_of_string s))"

definition pad_right :: "string \<Rightarrow> int \<Rightarrow> string" where
  "pad_right s width = (let gap = width - int (disp_len s) in if gap \<le> 0 then s else s @ replicate (nat gap) CHR '' '')"

text \<open>\<open>sparkline\<close>: the eight blocks are the characters from U+2581 on.\<close>

definition max_float64 :: real where
  "max_float64 = (2 ^ 53 - 1) * 2 ^ 971"

definition trunc_int :: "real \<Rightarrow> int" where
  "trunc_int x = (if 0 \<le> x then \<lfloor>x\<rfloor> else \<lceil>x\<rceil>)"

definition spark_lo :: "real list \<Rightarrow> real" where
  "spark_lo vals = foldl (\<lambda>lo v. if v < lo then v else lo) max_float64 vals"

definition spark_hi :: "real list \<Rightarrow> real" where
  "spark_hi vals = foldl (\<lambda>hi v. if hi < v then v else hi) (- max_float64) vals"

definition spark_index :: "real \<Rightarrow> real \<Rightarrow> real \<Rightarrow> int" where
  "spark_index lo hi v =
     (if lo < hi then
        let idx = trunc_int ((v - lo) / (hi - lo) * 7)
        in if idx < 0 then 0 else if 8 \<le> idx then 7 else idx
      else 0)"

definition sparkline :: "real list \<Rightarrow> nat list" where
  "sparkline vals = map (\<lambda>v. 0x2581 + nat (spark_index (spark_lo vals) (spark_hi vals) v)) vals"

text \<open>Texts for errors and states, in UTF-8.\<close>

definition compact_reason :: "string \<Rightarrow> string" where
  "compact_reason s =
     (let lo = to_lower s in
      if contains lo ''actively refused'' then ''refused''
      else if contains lo ''connection refused'' then ''connection refused''
      else if contains lo ''i/o timeout'' \<or> contains lo ''timed out'' then ''i/o timeout''
      else if contains lo ''unreachable'' then ''unreachable'' else s)"

definition dial_reason :: "string \<Rightarrow> string" where
  "dial_reason msg = (case index_of msg ''dial '' of
       None \<Rightarrow> msg
     | Some i \<Rightarrow>
         let tok = str_fields (drop (i + 5) msg) in
         if length tok < 2 then msg
         else let addr = trim_suffix (tok ! 1) '':'' in
           if contains addr '':'' \<or> contains addr ''.'' then
             addr @ (if 2 < length tok then '': '' @ compact_reason (join_with '' '' (drop 2 tok)) else [])
           else msg)"

definition err_tail :: "net_error option \<Rightarrow> string" where
  "err_tail err = (case err of None \<Rightarrow> [] | Some e \<Rightarrow> clip_bytes 40 40 (dial_reason (ne_text e)))"

definition err_brief :: "net_error option \<Rightarrow> string" where
  "err_brief err = clip_bytes 24 24 (err_tail err)"

definition state_tag :: "string \<Rightarrow> string" where
  "state_tag state =
     (if state = ''reply'' \<or> state = ''open'' then [CHR 0xE2, CHR 0x9C, CHR 0x94]
      else if state = ''closed'' then [CHR 0xE2, CHR 0x9C, CHR 0x97]
      else if state = ''filtered'' then ''?''
      else if state = ''timeout'' then [CHR 0xE2, CHR 0x8F, CHR 0xB1]
      else if state = ''error'' then ''!'' else state)"

text \<open>A bar is made of full blocks and middle dots. \<open>fmt2\<close> prints a number with two decimals.\<close>

definition round_half :: "real \<Rightarrow> int" where
  "round_half x = (if 0 \<le> x then \<lfloor>x + 1 / 2\<rfloor> else \<lceil>x - 1 / 2\<rceil>)"

definition bar_width :: nat where
  "bar_width = 30"

definition bar_fill :: "real \<Rightarrow> probe_sample \<Rightarrow> nat" where
  "bar_fill max_rtt x =
     (if sa_err x \<noteq> None \<and> sa_state x \<noteq> ''closed'' then 0
      else if sa_state x = ''closed'' then 0
      else if 0 < sa_rtt x then
        let fill = round_half (real_of_int (sa_rtt x div 1000) / 1000 / max_rtt * real bar_width)
        in if fill < 1 then 1 else if int bar_width < fill then bar_width else nat fill
      else 0)"

definition bar_label :: "(real \<Rightarrow> string) \<Rightarrow> probe_sample \<Rightarrow> string" where
  "bar_label fmt2 x = ''seq='' @ left_col 3 (itoa (sa_seq x)) @ '' '' @ state_tag (sa_state x) @
     (if sa_err x \<noteq> None \<and> sa_state x \<noteq> ''closed'' then '' '' @ err_brief (sa_err x)
      else if sa_state x \<noteq> ''closed'' \<and> 0 < sa_rtt x then '' '' @ fmt2 (real_of_int (sa_rtt x div 1000) / 1000) @ ''ms''
      else [])"

definition bar_row :: "(real \<Rightarrow> string) \<Rightarrow> real \<Rightarrow> probe_sample \<Rightarrow> string \<times> nat list" where
  "bar_row fmt2 max_rtt x =
     (pad_right (bar_label fmt2 x) 28, replicate (bar_fill max_rtt x) 0x2588 @ replicate (bar_width - bar_fill max_rtt x) 0xB7)"

definition bar_chart :: "(real \<Rightarrow> string) \<Rightarrow> probe_sample list \<Rightarrow> real \<Rightarrow> (string \<times> nat list) list" where
  "bar_chart fmt2 samples max_rtt = map (bar_row fmt2 (if max_rtt \<le> 0 then 1 else max_rtt)) samples"

text \<open>\<open>FormatProbeStats\<close>: the values of the report, without the texts around them.\<close>

record probe_report =
  pr_sent :: nat
  pr_recv :: nat
  pr_loss :: real
  pr_rtts :: "(real \<times> real \<times> real \<times> real) option"
  pr_spark :: "nat list"
  pr_chart :: "(string \<times> nat list) list"

definition format_probe_stats :: "(real \<Rightarrow> string) \<Rightarrow> probe_stats \<Rightarrow> probe_report" where
  "format_probe_stats fmt2 st =
     (if rtts st = [] then \<lparr>pr_sent = ps_sent st, pr_recv = recv_count st, pr_loss = loss_pct st, pr_rtts = None, pr_spark = [], pr_chart = []\<rparr>
      else \<lparr>pr_sent = ps_sent st, pr_recv = recv_count st, pr_loss = loss_pct st,
        pr_rtts = Some (rtt_min st, rtt_avg st, rtt_max st, rtt_stddev st), pr_spark = sparkline (rtts st),
        pr_chart = bar_chart fmt2 (ps_samples st) (rtt_max st)\<rparr>)"

section \<open>Facts about the display\<close>

text \<open> The copy of the width table gives the widths of the original in package \<open>agent\<close>.\<close>

lemma width_copies_agree: "disp_len s = printable_len (runes (bytes_of_string s))"
proof -
  have w: "probe_rune_width r = disp_rune_width r" for r
    unfolding probe_rune_width_def disp_rune_width_def by (rule refl)
  have "disp_from b rs = printable_from b rs" for b rs
    by (induction b rs rule: disp_from.induct) (simp_all add: w)
  then show ?thesis by (simp add: disp_len_def printable_len_def)
qed

lemma bar_fill_bound: "bar_fill max_rtt x \<le> bar_width"
  by (auto simp: bar_fill_def bar_width_def Let_def)

lemma bar_row_width: "length (snd (bar_row fmt2 max_rtt x)) = bar_width"
  using bar_fill_bound by (simp add: bar_row_def)

lemma clip_bytes_length: "keep \<le> limit \<Longrightarrow> length (clip_bytes limit keep s) \<le> limit + 3"
  by (simp add: clip_bytes_def ellipsis_def)

lemma err_tail_length: "length (err_tail e) \<le> 43"
  using clip_bytes_length [of 40 40] by (auto simp: err_tail_def split: option.split)

text \<open>Minimum, maximum and mean.\<close>

lemma foldl_min: "foldl min a xs \<le> a \<and> (\<forall>x \<in> set xs. foldl min a xs \<le> x) \<and> foldl min a xs \<in> insert a (set xs)" for a :: real
proof (induction xs arbitrary: a)
  case (Cons x xs)
  show ?case using Cons.IH [of "min a x"] by (auto simp: min_def split: if_splits)
qed simp

lemma foldl_max: "a \<le> foldl max a xs \<and> (\<forall>x \<in> set xs. x \<le> foldl max a xs) \<and> foldl max a xs \<in> insert a (set xs)" for a :: real
proof (induction xs arbitrary: a)
  case (Cons x xs)
  show ?case using Cons.IH [of "max a x"] by (auto simp: max_def split: if_splits)
qed simp

lemma foldl_mean_bounds:
  assumes "\<forall>x \<in> set xs. lo \<le> x \<and> x \<le> hi"
  shows "a + lo * real (length xs) \<le> foldl (+) a xs \<and> foldl (+) a xs \<le> a + hi * real (length xs)"
  using assms
proof (induction xs arbitrary: a)
  case (Cons x xs)
  have "a + x + lo * real (length xs) \<le> foldl (+) (a + x) xs \<and> foldl (+) (a + x) xs \<le> a + x + hi * real (length xs)"
    using Cons by simp
  moreover have "lo \<le> x" "x \<le> hi" using Cons.prems by simp_all
  ultimately show ?case by (simp add: algebra_simps)
qed simp

definition rtt_ok :: "probe_stats \<Rightarrow> bool" where
  "rtt_ok st \<longleftrightarrow> list_all (\<lambda>x. sa_rtt x < 2 ^ 63) (ps_samples st)"

lemma rtts_range: "rtt_ok st \<Longrightarrow> x \<in> set (rtts st) \<Longrightarrow> 0 \<le> x \<and> x < max_float32"
proof -
  assume "rtt_ok st" "x \<in> set (rtts st)"
  then obtain s :: probe_sample where s: "x = real_of_int (sa_rtt s div 1000) / 1000" "0 < sa_rtt s" "sa_rtt s < 2 ^ 63"
    unfolding rtts_def rtt_ok_def list_all_iff set_map set_filter by blast
  have "0 \<le> sa_rtt s div 1000" "sa_rtt s div 1000 < 2 ^ 63"
    using s by linarith+
  then have "0 \<le> real_of_int (sa_rtt s div 1000)" "real_of_int (sa_rtt s div 1000) < 2 ^ 63"
    by simp_all
  then show "0 \<le> x \<and> x < max_float32"
    by (simp add: s(1) max_float32_def)
qed

text \<open> The displayed round trips are in order: the minimum is one of the measured times, no larger than the mean, which is
  no larger than the maximum.\<close>

lemma rtt_order:
  assumes "rtts st \<noteq> []" and "rtt_ok st"
  shows "rtt_min st \<in> set (rtts st) \<and> rtt_min st \<le> rtt_avg st \<and> rtt_avg st \<le> rtt_max st"
proof -
  let ?n = "real (length (rtts st))"
  have n: "0 < ?n" using assms(1) by simp
  obtain x where x: "x \<in> set (rtts st)" using assms(1) by (cases "rtts st") auto
  have "rtt_min st \<noteq> max_float32"
    using foldl_min [of max_float32 "rtts st"] rtts_range [OF assms(2) x] x assms(1) by (auto simp: rtt_min_def reduce_def)
  then have mem: "rtt_min st \<in> set (rtts st)"
    using foldl_min [of max_float32 "rtts st"] assms(1) by (auto simp: rtt_min_def reduce_def)
  have "\<forall>x \<in> set (rtts st). rtt_min st \<le> x \<and> x \<le> rtt_max st"
    using foldl_min [of max_float32 "rtts st"] foldl_max [of 0 "rtts st"] assms(1)
    by (simp add: rtt_min_def rtt_max_def reduce_def)
  from foldl_mean_bounds [OF this, of 0]
  have "rtt_min st * ?n \<le> foldl (+) 0 (rtts st)" "foldl (+) 0 (rtts st) \<le> rtt_max st * ?n" by simp_all
  then show ?thesis
    using n mem assms(1) by (simp add: rtt_avg_def field_simps)
qed

text \<open>The trend line: every value gets one of the eight blocks, and the order of the values is kept.\<close>

lemma trunc_mono: "x \<le> y \<Longrightarrow> trunc_int x \<le> trunc_int y"
proof (cases "0 \<le> x \<or> y < 0")
  case False
  then have "\<lceil>x\<rceil> \<le> 0" "0 \<le> \<lfloor>y\<rfloor>" by (simp_all add: ceiling_le_zero not_le)
  then have "\<lceil>x\<rceil> \<le> \<lfloor>y\<rfloor>" by linarith
  then show ?thesis using False by (simp add: trunc_int_def)
qed (auto simp: trunc_int_def floor_mono ceiling_mono)

lemma spark_index_range: "0 \<le> spark_index lo hi v \<and> spark_index lo hi v \<le> 7"
  by (simp add: spark_index_def Let_def)

lemma spark_index_mono: "v \<le> w \<Longrightarrow> spark_index lo hi v \<le> spark_index lo hi w"
proof -
  assume "v \<le> w"
  then have "trunc_int ((v - lo) / (hi - lo) * 7) \<le> trunc_int ((w - lo) / (hi - lo) * 7)" if "lo < hi"
    using that by (intro trunc_mono) (simp add: divide_right_mono)
  then show ?thesis by (auto simp: spark_index_def Let_def)
qed

lemma spark_index_ends: "lo < hi \<Longrightarrow> spark_index lo hi lo = 0 \<and> spark_index lo hi hi = 7"
  by (simp add: spark_index_def trunc_int_def)

definition demo_stats :: probe_stats where
  "demo_stats = \<lparr>ps_sent = 2, ps_mode = ProbeTCP, ps_target = [], ps_samples =
     [\<lparr>sa_seq = 1, sa_rtt = 3000000, sa_ip = [], sa_bytes = 0, sa_state = ''open'', sa_err = None\<rparr>,
      \<lparr>sa_seq = 2, sa_rtt = 1500000, sa_ip = [], sa_bytes = 0, sa_state = ''open'', sa_err = None\<rparr>]\<rparr>"

lemma rtt_order_witness: "rtt_min demo_stats \<in> {3, 3 / 2}"
proof -
  have r: "rtts demo_stats = [3, 3 / 2]" by (simp add: demo_stats_def rtts_def sample_ok_def)
  have ok: "rtt_ok demo_stats" by (simp add: demo_stats_def rtt_ok_def)
  have "rtts demo_stats \<noteq> []" by (simp add: r)
  from rtt_order [OF this ok] show ?thesis unfolding r by auto
qed

section \<open>The command ping\<close>

text \<open>\<open>parseInterval\<close>. \<open>parse_float\<close> stands for \<open>strconv.ParseFloat\<close>; the result is in nanoseconds.\<close>

definition parse_interval :: "(string \<Rightarrow> real option) \<Rightarrow> string \<Rightarrow> string + int" where
  "parse_interval parse_float raw =
     (let s = trim_space raw in
      if s = [] then Inr 0
      else let (unit, num) =
             (if has_suffix s ''u'' then (1000, take (length s - 1) s)
              else if has_suffix s ''ms'' then (1000000, take (length s - 2) s)
              else if has_suffix s ''s'' then (1000000000, take (length s - 1) s)
              else (1000000000, s))
        in case parse_float num of
             None \<Rightarrow> Inl (''invalid interval '' @ s)
           | Some f \<Rightarrow> Inr (trunc_int (f * unit)))"

record ping_args =
  pf_icmp :: bool
  pf_tcp :: bool
  pf_udp :: bool
  pf_count :: int
  pf_interval :: string
  pf_size :: int
  pf_port :: int
  pf_iface :: string
  pf_flood :: bool
  pf_spoof :: string
  pf_traceroute :: bool
  pf_hops :: int
  pf_timeout :: int

definition ping_mode :: "ping_args \<Rightarrow> probe_mode" where
  "ping_mode f = (if pf_tcp f then ProbeTCP else if pf_udp f then ProbeUDP else ProbeICMP)"

definition ping_opts :: "ping_args \<Rightarrow> string \<Rightarrow> int \<Rightarrow> probe_opts" where
  "ping_opts f target interval = \<lparr>po_target = target, po_mode = ping_mode f, po_count = pf_count f, po_interval = interval,
     po_timeout = pf_timeout f, po_size = pf_size f, po_port = pf_port f, po_iface = pf_iface f, po_flood = pf_flood f, po_spoof = pf_spoof f\<rparr>"

text \<open>\<open>printProbeSample\<close>; \<open>fmt3\<close> prints a number with three decimals.\<close>

definition probe_err_tail :: "net_error option \<Rightarrow> string" where
  "probe_err_tail e = (if e = None then [] else '' ('' @ err_tail e @ '')'')"

definition print_probe_sample :: "(real \<Rightarrow> string) \<Rightarrow> probe_opts \<Rightarrow> probe_sample \<Rightarrow> string" where
  "print_probe_sample fmt3 opts s =
     probe_mode_string (po_mode opts) @ ''_seq='' @ left_col 4 (itoa (sa_seq s)) @ '' '' @ state_tag (sa_state s) @ '' '' @
     (if sa_state s = ''reply'' \<or> sa_state s = ''open'' then
        fmt3 (real_of_int (sa_rtt s div 1000) / 1000) @ ''ms'' @
        (if sa_ip s \<noteq> [] then '' from '' @ sa_ip s else []) @ (if 0 < sa_bytes s then '' bytes='' @ itoa (sa_bytes s) else [])
      else sa_state s @ probe_err_tail (sa_err s)) @ [LF]"

datatype ping_result =
    Traced "string option" | BadInterval string | ProbeFailed "string list" probe_error | Probed "string list" probe_report

text \<open>None when the session goes on for ever.\<close>

definition sample_lines :: "(real \<Rightarrow> string) \<Rightarrow> probe_opts \<Rightarrow> probe_stats option \<Rightarrow> string list" where
  "sample_lines fmt3 opts st = (case st of None \<Rightarrow> [] | Some s \<Rightarrow> map (print_probe_sample fmt3 opts) (ps_samples s))"

definition run_ping ::
  "(string \<Rightarrow> real option) \<Rightarrow> (nat \<Rightarrow> real \<Rightarrow> string) \<Rightarrow> bool \<Rightarrow> (string list \<Rightarrow> string option) \<Rightarrow> probe_net \<Rightarrow> ping_args \<Rightarrow> string \<Rightarrow>
     ping_result option" where
  "run_ping parse_float fmt windows run net f target =
     (if pf_traceroute f then Some (Traced (traceroute windows run target (pf_hops f)))
      else case parse_interval parse_float (pf_interval f) of
        Inl e \<Rightarrow> Some (BadInterval e)
      | Inr interval \<Rightarrow>
          let opts = ping_opts f target interval in
          map_option (\<lambda>(st, e). case (e, st) of
              (Some err, _) \<Rightarrow> ProbeFailed (sample_lines (fmt 3) opts st) err
            | (None, Some s) \<Rightarrow> Probed (sample_lines (fmt 3) opts st) (format_probe_stats (fmt 2) s)
            | (None, None) \<Rightarrow> ProbeFailed [] NoTarget)
          (probe net opts))"

text \<open>The interval of the example in the help text, \<open>-i u100000\<close>, has its unit in front, as \<open>hping3\<close> wants it; it is refused.\<close>

lemma help_interval_refused:
  assumes "parse_float ''u100000'' = None"
  shows "parse_interval parse_float ''u100000'' = Inl (''invalid interval '' @ ''u100000'')"
proof -
  have t: "trim_space ''u100000'' = ''u100000''" by code_simp
  show ?thesis by (simp add: parse_interval_def t has_suffix_def assms)
qed

text \<open> A spoofed source is refused on every platform, before anything is sent.\<close>

lemma spoof_refused:
  assumes "pf_spoof f \<noteq> []" "\<not> pf_traceroute f" "parse_interval parse_float (pf_interval f) = Inr i"
  shows "run_ping parse_float fmt windows run net f target = Some (ProbeFailed [] SpoofRefused)"
  using assms by (simp add: run_ping_def probe_def ping_opts_def Let_def sample_lines_def)

end
