(* ===== verification/Forwarding.thy ===== *)
theory Forwarding
  imports Config Http_Connect "HOL-Library.Sublist"
begin

text \<open>
  Forwarding without the router: the relay between two endpoints (\<open>cmd/socat.go\<close>), the forwarders of
  ports (\<open>forward/forward.go\<close>, \<open>cmd/forward.go\<close>) and the proxy for scripts in browsers
  (\<open>cmd/corsproxy.go\<close>). Sockets are scripts of what they deliver and accept; the goroutines of the datagram relay
  are steps on a shared state.
\<close>

section \<open>Endpoints of socat\<close>

record socat_spec =
  sp_proto :: string
  sp_addr :: string
  sp_listen :: bool

definition socat_forms :: "(string \<times> string \<times> bool) list" where
  "socat_forms = [(''TCP4-LISTEN:'', ''tcp'', True), (''TCP-LISTEN:'', ''tcp'', True), (''TCP4:'', ''tcp'', False), (''TCP:'', ''tcp'', False),
     (''UDP4-LISTEN:'', ''udp'', True), (''UDP-LISTEN:'', ''udp'', True), (''UDP4:'', ''udp'', False), (''UDP:'', ''udp'', False)]"

datatype socat_error = MissingAddress string | ProtocolsDiffer string string | NoListener

definition parse_socat_spec :: "string \<Rightarrow> socat_error + socat_spec" where
  "parse_socat_spec s = (case find (\<lambda>(pre, proto, listen). has_prefix (to_upper s) pre) socat_forms of
       Some (pre, proto, listen) \<Rightarrow>
         let rest = trim_space (drop (length pre) s) in
         if rest = [] then Inl (MissingAddress s)
         else let addr = (if contains rest '':'' then rest else if listen then '':'' @ rest else ''127.0.0.1:'' @ rest)
              in Inr \<lparr>sp_proto = proto, sp_addr = addr, sp_listen = listen\<rparr>
     | None \<Rightarrow> Inr \<lparr>sp_proto = ''tcp'', sp_addr = trim_space s, sp_listen = False\<rparr>)"

text \<open>\<open>runSocat\<close> up to the relay: who listens, who is dialled.\<close>

definition socat_sides :: "string \<Rightarrow> string \<Rightarrow> socat_error + socat_spec \<times> socat_spec" where
  "socat_sides spec1 spec2 = (case parse_socat_spec spec1 of
       Inl e \<Rightarrow> Inl e
     | Inr local \<Rightarrow> (case parse_socat_spec spec2 of
         Inl e \<Rightarrow> Inl e
       | Inr remote \<Rightarrow>
           if sp_proto local \<noteq> sp_proto remote then Inl (ProtocolsDiffer (sp_proto local) (sp_proto remote))
           else if \<not> sp_listen local \<and> \<not> sp_listen remote then Inl NoListener
           else if sp_listen local then Inr (local, remote) else Inr (remote, local)))"

section \<open>The relay of streams\<close>

text \<open>
  A reader delivers pieces, the last of them with an error; a writer answers each call with the number of bytes it took and
  an error or none. The clock counts the calls; \<open>cancelled\<close> is asked at the time of a call. A script that is used up blocks.
\<close>

datatype ctx_error = Cancelled | IoError string

type_synonym reads = "(bytes \<times> ctx_error option) list"
type_synonym writes = "(nat \<times> ctx_error option) list"

record written =
  wr_time :: nat
  wr_rest :: writes
  wr_out :: bytes
  wr_err :: "ctx_error option"

fun full_write :: "(nat \<Rightarrow> bool) \<Rightarrow> nat \<Rightarrow> writes \<Rightarrow> bytes \<Rightarrow> written option" where
  "full_write cancelled t ws [] = Some \<lparr>wr_time = t, wr_rest = ws, wr_out = [], wr_err = None\<rparr>"
| "full_write cancelled t ws (b # bs) =
     (if cancelled t then Some \<lparr>wr_time = t, wr_rest = ws, wr_out = [], wr_err = Some Cancelled\<rparr>
      else case ws of
        [] \<Rightarrow> None
      | (n, e) # ws' \<Rightarrow>
          if e \<noteq> None then Some \<lparr>wr_time = Suc t, wr_rest = ws', wr_out = take n (b # bs), wr_err = e\<rparr>
          else map_option (\<lambda>r. r\<lparr>wr_out := take n (b # bs) @ wr_out r\<rparr>) (full_write cancelled (Suc t) ws' (drop n (b # bs))))"

record pump_result =
  pm_err :: "ctx_error option"
  pm_in :: nat
  pm_out :: nat
  pm_data :: bytes

definition pump_adds :: "bytes \<Rightarrow> bytes \<Rightarrow> pump_result \<Rightarrow> pump_result" where
  "pump_adds got put r = r\<lparr>pm_in := length got + pm_in r, pm_out := length got + pm_out r, pm_data := put @ pm_data r\<rparr>"

definition pump_ends :: "ctx_error option \<Rightarrow> pump_result" where
  "pump_ends e = \<lparr>pm_err = e, pm_in = 0, pm_out = 0, pm_data = []\<rparr>"

fun socat_pump :: "(nat \<Rightarrow> bool) \<Rightarrow> nat \<Rightarrow> reads \<Rightarrow> writes \<Rightarrow> pump_result option" where
  "socat_pump cancelled t [] ws = (if cancelled t then Some (pump_ends None) else None)"
| "socat_pump cancelled t ((d, e) # rs) ws =
     (if cancelled t then Some (pump_ends None)
      else if d = [] then (if e \<noteq> None then Some (pump_ends e) else socat_pump cancelled (Suc t) rs ws)
      else case full_write cancelled (Suc t) ws d of
        None \<Rightarrow> None
      | Some w \<Rightarrow>
          let e' = (if e = None then wr_err w else e)
          in map_option (pump_adds d (wr_out w))
               (if e' \<noteq> None then Some (pump_ends e') else socat_pump cancelled (wr_time w) rs (wr_rest w)))"

record socat_stats =
  ss_conns :: nat
  ss_in :: nat
  ss_out :: nat

text \<open>The end of \<open>socatRelay\<close>: the results of both directions in the order in which they come.\<close>

definition relay_ends :: "pump_result \<Rightarrow> pump_result \<Rightarrow> socat_stats \<Rightarrow> socat_stats \<times> ctx_error option" where
  "relay_ends r1 r2 st =
     (st\<lparr>ss_in := ss_in st + (pm_in r1 + pm_in r2), ss_out := ss_out st + (pm_out r1 + pm_out r2)\<rparr>,
      if pm_err r1 \<noteq> None then pm_err r1 else pm_err r2)"

text \<open>\<open>socatTCP\<close> and \<open>socatRelay\<close> on the connections of a session, each with the results of its two directions,
  or without them when the target cannot be dialled.\<close>

definition socat_conn :: "(pump_result \<times> pump_result) option \<Rightarrow> socat_stats \<Rightarrow> socat_stats" where
  "socat_conn c st =
     (let st1 = st\<lparr>ss_conns := ss_conns st + 1\<rparr>
      in case c of None \<Rightarrow> st1 | Some (r1, r2) \<Rightarrow> fst (relay_ends r1 r2 st1))"

definition socat_session :: "(pump_result \<times> pump_result) option list \<Rightarrow> socat_stats" where
  "socat_session cs = fold socat_conn cs \<lparr>ss_conns = 0, ss_in = 0, ss_out = 0\<rparr>"

section \<open>The relay of datagrams\<close>

text \<open>
  The goroutine of a client dials, takes a datagram from its inbox, writes it to the target and waits for one answer. The
  receiving loop looks a session up and puts the datagram into its inbox in two steps, between which the lock is free.
\<close>

datatype phase = Dialing | Idle | Waiting | Ended

record usession =
  se_phase :: phase
  se_inbox :: "bytes list"

record pending =
  pd_key :: string
  pd_data :: bytes
  pd_orphan :: bool

record socat_udp =
  su_table :: "string \<rightharpoonup> usession"
  su_pending :: "pending option"
  su_cancelled :: bool
  su_closed :: bool
  su_sent :: "(string \<times> bytes) list"
  su_replies :: "(string \<times> bytes) list"
  su_stats :: socat_stats

datatype socat_event =
    Arrive string bytes | Enqueue | DialDone string bool | Send string bool | Reply string bytes | ReadFails string | Cancel | CloseAll

datatype socat_step = Stuck | Panics | Next socat_udp

definition inbox_limit :: nat where
  "inbox_limit = 128"

text \<open>A datagram of a client: the first half of \<open>enqueue\<close>.\<close>

definition su_arrive :: "string \<Rightarrow> bytes \<Rightarrow> socat_udp \<Rightarrow> socat_udp" where
  "su_arrive k d s =
     (if d = [] then s
      else let s1 = s\<lparr>su_stats := (su_stats s)\<lparr>ss_in := ss_in (su_stats s) + length d\<rparr>\<rparr>
        in if su_cancelled s then s1
           else let s2 = s1\<lparr>su_pending := Some \<lparr>pd_key = k, pd_data = d, pd_orphan = False\<rparr>\<rparr>
             in if su_table s k \<noteq> None then s2
                else s2\<lparr>su_table := (su_table s)(k \<mapsto> \<lparr>se_phase = Dialing, se_inbox = []\<rparr>),
                  su_stats := (su_stats s1)\<lparr>ss_conns := ss_conns (su_stats s1) + 1\<rparr>\<rparr>)"

text \<open>The second half: a full inbox drops the datagram, a closed one panics.\<close>

definition su_enqueue :: "pending \<Rightarrow> socat_udp \<Rightarrow> socat_step" where
  "su_enqueue p s =
     (if pd_orphan p then Next (s\<lparr>su_pending := None\<rparr>)
      else case su_table s (pd_key p) of
        None \<Rightarrow> Panics
      | Some se \<Rightarrow>
          Next (s\<lparr>su_pending := None, su_table := (su_table s)(pd_key p \<mapsto>
            (if length (se_inbox se) < inbox_limit then se\<lparr>se_inbox := se_inbox se @ [pd_data p]\<rparr> else se))\<rparr>))"

definition set_session :: "string \<Rightarrow> usession \<Rightarrow> socat_udp \<Rightarrow> socat_udp" where
  "set_session k se s = s\<lparr>su_table := (su_table s)(k \<mapsto> se)\<rparr>"

definition su_drop :: "string \<Rightarrow> socat_udp \<Rightarrow> socat_udp" where
  "su_drop k s = s\<lparr>su_table := (su_table s)(k := None),
     su_pending := map_option (\<lambda>p. if pd_key p = k then p\<lparr>pd_orphan := True\<rparr> else p) (su_pending s)\<rparr>"

text \<open>The steps of \<open>run\<close>.\<close>

definition su_dial_done :: "string \<Rightarrow> bool \<Rightarrow> usession \<Rightarrow> socat_udp \<Rightarrow> socat_step" where
  "su_dial_done k ok se s =
     (if se_phase se \<noteq> Dialing then Stuck
      else if ok then Next (set_session k (se\<lparr>se_phase := Idle\<rparr>) s) else Next (su_drop k s))"

definition su_send :: "string \<Rightarrow> bool \<Rightarrow> usession \<Rightarrow> socat_udp \<Rightarrow> socat_step" where
  "su_send k ok se s =
     (case se_inbox se of
        [] \<Rightarrow> Stuck
      | m # ms \<Rightarrow>
          if se_phase se \<noteq> Idle then Stuck
          else if ok then Next ((set_session k (se\<lparr>se_phase := Waiting, se_inbox := ms\<rparr>) s)\<lparr>su_sent := su_sent s @ [(k, m)]\<rparr>)
          else Next (set_session k (se\<lparr>se_inbox := ms\<rparr>) s))"

definition su_reply :: "string \<Rightarrow> bytes \<Rightarrow> usession \<Rightarrow> socat_udp \<Rightarrow> socat_step" where
  "su_reply k r se s =
     (if se_phase se \<noteq> Waiting then Stuck
      else let s1 = set_session k (se\<lparr>se_phase := Idle\<rparr>) s
        in if r = [] then Next s1
           else Next (s1\<lparr>su_replies := su_replies s @ [(k, r)], su_stats := (su_stats s)\<lparr>ss_out := ss_out (su_stats s) + length r\<rparr>\<rparr>))"

definition su_read_fails :: "string \<Rightarrow> usession \<Rightarrow> socat_udp \<Rightarrow> socat_step" where
  "su_read_fails k se s =
     (if se_phase se \<noteq> Waiting then Stuck else Next (set_session k (se\<lparr>se_phase := Ended\<rparr>) s))"

definition with_session :: "string \<Rightarrow> (usession \<Rightarrow> socat_udp \<Rightarrow> socat_step) \<Rightarrow> socat_udp \<Rightarrow> socat_step" where
  "with_session k f s = (case su_table s k of None \<Rightarrow> Stuck | Some se \<Rightarrow> f se s)"

definition socat_step :: "socat_event \<Rightarrow> socat_udp \<Rightarrow> socat_step" where
  "socat_step ev s = (case ev of
       Arrive k d \<Rightarrow> if su_pending s \<noteq> None then Stuck else Next (su_arrive k d s)
     | Enqueue \<Rightarrow> (case su_pending s of None \<Rightarrow> Stuck | Some p \<Rightarrow> su_enqueue p s)
     | DialDone k ok \<Rightarrow> with_session k (su_dial_done k ok) s
     | Send k ok \<Rightarrow> with_session k (su_send k ok) s
     | Reply k r \<Rightarrow> with_session k (su_reply k r) s
     | ReadFails k \<Rightarrow> with_session k (su_read_fails k) s
     | Cancel \<Rightarrow> Next (s\<lparr>su_cancelled := True\<rparr>)
     | CloseAll \<Rightarrow> if su_cancelled s \<and> \<not> su_closed s then Next (s\<lparr>su_table := Map.empty, su_closed := True\<rparr>) else Stuck)"

definition socat_start :: socat_udp where
  "socat_start = \<lparr>su_table = Map.empty, su_pending = None, su_cancelled = False, su_closed = False, su_sent = [], su_replies = [],
     su_stats = \<lparr>ss_conns = 0, ss_in = 0, ss_out = 0\<rparr>\<rparr>"

fun socat_run :: "socat_event list \<Rightarrow> socat_udp \<Rightarrow> socat_step" where
  "socat_run [] s = Next s"
| "socat_run (ev # evs) s = (case socat_step ev s of Next s' \<Rightarrow> socat_run evs s' | r \<Rightarrow> r)"

inductive socat_reachable :: "socat_udp \<Rightarrow> bool" where
  socat_init: "socat_reachable socat_start"
| socat_next: "socat_reachable s \<Longrightarrow> socat_step ev s = Next s' \<Longrightarrow> socat_reachable s'"

section \<open>Facts about the relay of streams\<close>

lemma full_write_prefix: "full_write cancelled t ws b = Some w \<Longrightarrow> prefix (wr_out w) b \<and> (wr_err w = None \<longrightarrow> wr_out w = b)"
proof (induction cancelled t ws b arbitrary: w rule: full_write.induct)
  case (2 cancelled t ws b bs)
  show ?case
  proof (cases "cancelled t \<or> ws = [] \<or> snd (hd ws) \<noteq> None")
    case True
    then show ?thesis using "2.prems" by (cases ws) (auto simp: take_is_prefix split: if_splits)
  next
    case False
    then obtain n ws' where ws: "ws = (n, None) # ws'" by (cases ws) auto
    then obtain r where r: "full_write cancelled (Suc t) ws' (drop n (b # bs)) = Some r" "w = r\<lparr>wr_out := take n (b # bs) @ wr_out r\<rparr>"
      using "2.prems" False by auto
    have "prefix (wr_out r) (drop n (b # bs)) \<and> (wr_err r = None \<longrightarrow> wr_out r = drop n (b # bs))"
      using "2.IH" [OF _ ws refl _ r(1)] False by auto
    then have "prefix (take n (b # bs) @ wr_out r) (take n (b # bs) @ drop n (b # bs)) \<and> (wr_err r = None \<longrightarrow> take n (b # bs) @ wr_out r = b # bs)"
      by (metis append_take_drop_id same_prefix_prefix)
    then show ?thesis by (simp add: r(2))
  qed
qed auto

text \<open>What a reader delivers up to its first error.\<close>

fun delivered :: "reads \<Rightarrow> bytes" where
  "delivered [] = []"
| "delivered ((d, e) # rs) = d @ (if e = None then delivered rs else [])"

lemma pump_step:
  assumes "socat_pump cancelled t ((d, e) # rs) ws = Some r" "\<not> cancelled t" "d \<noteq> []"
  obtains w r' where "full_write cancelled (Suc t) ws d = Some w" "r = pump_adds d (wr_out w) r'"
    "(e \<noteq> None \<or> wr_err w \<noteq> None) \<and> r' = pump_ends (if e = None then wr_err w else e) \<or>
     e = None \<and> wr_err w = None \<and> socat_pump cancelled (wr_time w) rs (wr_rest w) = Some r'"
  using assms by (auto simp: Let_def split: option.splits if_splits)

lemma pump_counts: "socat_pump cancelled t rs ws = Some r \<Longrightarrow> pm_out r = pm_in r \<and> length (pm_data r) \<le> pm_in r \<and> prefix (pm_data r) (delivered rs)"
proof (induction cancelled t rs ws arbitrary: r rule: socat_pump.induct)
  case (1 cancelled t ws)
  then show ?case by (auto simp: pump_ends_def split: if_splits)
next
  case (2 cancelled t d e rs ws)
  show ?case
  proof (cases "cancelled t \<or> d = []")
    case True
    then show ?thesis using 2 by (auto simp: pump_ends_def split: if_splits)
  next
    case False
    then obtain w r' where w: "full_write cancelled (Suc t) ws d = Some w" "r = pump_adds d (wr_out w) r'"
      and or: "(e \<noteq> None \<or> wr_err w \<noteq> None) \<and> r' = pump_ends (if e = None then wr_err w else e) \<or>
        e = None \<and> wr_err w = None \<and> socat_pump cancelled (wr_time w) rs (wr_rest w) = Some r'"
      using pump_step [OF "2.prems"] by blast
    note p = full_write_prefix [OF w(1)]
    from or show ?thesis
    proof
      assume "(e \<noteq> None \<or> wr_err w \<noteq> None) \<and> r' = pump_ends (if e = None then wr_err w else e)"
      then show ?thesis using p by (auto simp: w(2) pump_adds_def pump_ends_def prefix_length_le intro: prefix_prefix)
    next
      assume a: "e = None \<and> wr_err w = None \<and> socat_pump cancelled (wr_time w) rs (wr_rest w) = Some r'"
      then have "pm_out r' = pm_in r' \<and> length (pm_data r') \<le> pm_in r' \<and> prefix (pm_data r') (delivered rs)"
        using "2.IH"(2) [OF _ _ w(1)] False by simp
      then show ?thesis using p a by (simp add: w(2) pump_adds_def)
    qed
  qed
qed

lemma full_write_complete:
  "\<forall>t. \<not> cancelled t \<Longrightarrow> list_all (\<lambda>(n, e). e = None) ws \<Longrightarrow> full_write cancelled t ws b = Some w \<Longrightarrow>
   wr_err w = None \<and> list_all (\<lambda>(n, e). e = None) (wr_rest w)"
  by (induction cancelled t ws b arbitrary: w rule: full_write.induct) (auto split: list.splits)

lemma pump_complete:
  "\<forall>t. \<not> cancelled t \<Longrightarrow> list_all (\<lambda>(n, e). e = None) ws \<Longrightarrow> socat_pump cancelled t rs ws = Some r \<Longrightarrow> pm_data r = delivered rs"
proof (induction cancelled t rs ws arbitrary: r rule: socat_pump.induct)
  case (1 cancelled t ws)
  then show ?case by simp
next
  case (2 cancelled t d e rs ws)
  show ?case
  proof (cases "d = []")
    case True
    then show ?thesis using 2 by (auto simp: pump_ends_def split: if_splits)
  next
    case False
    then obtain w r' where w: "full_write cancelled (Suc t) ws d = Some w" "r = pump_adds d (wr_out w) r'"
      and or: "(e \<noteq> None \<or> wr_err w \<noteq> None) \<and> r' = pump_ends (if e = None then wr_err w else e) \<or>
        e = None \<and> wr_err w = None \<and> socat_pump cancelled (wr_time w) rs (wr_rest w) = Some r'"
      using pump_step [OF "2.prems"(3)] "2.prems"(1) by blast
    have c: "wr_err w = None" "list_all (\<lambda>(n, e). e = None) (wr_rest w)"
      using full_write_complete [OF "2.prems"(1,2) w(1)] by simp_all
    note p = full_write_prefix [OF w(1)]
    show ?thesis
    proof (cases "e = None")
      case True
      then have run: "socat_pump cancelled (wr_time w) rs (wr_rest w) = Some r'" using or c(1) by simp
      have "pm_data r' = delivered rs"
        using "2.IH"(2) [OF _ False w(1) refl _ "2.prems"(1) c(2) run] "2.prems"(1) True c(1) by simp
      then show ?thesis using p c(1) True by (simp add: w(2) pump_adds_def)
    next
      case False
      then show ?thesis using or p c(1) by (auto simp: w(2) pump_adds_def pump_ends_def)
    qed
  qed
qed

text \<open> As long as nobody cancels and no write fails, a direction of the relay hands on everything that its source delivers
  before it ends, unchanged and in order.\<close>

lemma socat_relays_all:
  assumes "\<forall>t. \<not> cancelled t" "list_all (\<lambda>(n, e). e = None) ws" "socat_pump cancelled t rs ws = Some r"
  shows "pm_data r = delivered rs \<and> pm_in r = pm_out r"
  using pump_complete [OF assms] pump_counts [OF assms(3)] by simp

definition demo_reads :: reads where
  "demo_reads = [([1, 2, 3], None), ([], None), ([4], Some (IoError ''EOF''))]"

definition demo_writes :: writes where
  "demo_writes = [(1, None), (2, None), (1, None)]"

lemma socat_relays_all_witness: "\<exists>r. socat_pump (\<lambda>_. False) 0 demo_reads demo_writes = Some r \<and> pm_data r = [1, 2, 3, 4]"
proof -
  have ok: "list_all (\<lambda>(n, e). e = None) demo_writes" by (simp add: demo_writes_def)
  have "socat_pump (\<lambda>_. False) 0 demo_reads demo_writes \<noteq> None"
    by (simp add: demo_reads_def demo_writes_def)
  then obtain r where r: "socat_pump (\<lambda>_. False) 0 demo_reads demo_writes = Some r" by blast
  have "pm_data r = delivered demo_reads"
    using socat_relays_all [OF _ ok r] by simp
  then show ?thesis using r by (simp add: demo_reads_def)
qed

text \<open> The two totals of a session of TCP are always equal: both directions count what they read as what they wrote,
  and both totals contain both directions.\<close>

lemma socat_totals_equal:
  assumes "\<forall>c \<in> set cs. \<forall>r1 r2. c = Some (r1, r2) \<longrightarrow>
    (\<exists>c t rs ws. socat_pump c t rs ws = Some r1) \<and> (\<exists>c t rs ws. socat_pump c t rs ws = Some r2)"
  shows "ss_in (socat_session cs) = ss_out (socat_session cs) \<and> ss_conns (socat_session cs) = length cs"
proof -
  have "ss_in (fold socat_conn cs st) = ss_out (fold socat_conn cs st) \<and> ss_conns (fold socat_conn cs st) = ss_conns st + length cs"
    if "ss_in st = ss_out st" for st
    using assms that
  proof (induction cs arbitrary: st)
    case (Cons c cs)
    have "ss_in (socat_conn c st) = ss_out (socat_conn c st) \<and> ss_conns (socat_conn c st) = ss_conns st + 1"
    proof (cases c)
      case None
      then show ?thesis using Cons.prems by (simp add: socat_conn_def)
    next
      case (Some rr)
      obtain r1 r2 where rr: "rr = (r1, r2)" by (cases rr)
      have "pm_out r1 = pm_in r1" "pm_out r2 = pm_in r2"
        using Cons.prems(1) pump_counts Some rr by (metis list.set_intros(1))+
      then show ?thesis using Cons.prems by (simp add: socat_conn_def Some rr relay_ends_def)
    qed
    then show ?case using Cons.IH [of "socat_conn c st"] Cons.prems by simp
  qed simp
  then show ?thesis by (simp add: socat_session_def)
qed

text \<open>A target that takes none of two bytes is credited with both.\<close>

lemma socat_totals_equal_witness:
  "ss_out (socat_session [Some (\<lparr>pm_err = Some (IoError ''EPIPE''), pm_in = 2, pm_out = 2, pm_data = []\<rparr>, pump_ends None)]) = 2"
proof -
  let ?r = "\<lparr>pm_err = Some (IoError ''EPIPE''), pm_in = 2, pm_out = 2, pm_data = []\<rparr>"
  have "socat_pump (\<lambda>_. False) 0 [([1, 2], None)] [(0, Some (IoError ''EPIPE''))] = Some ?r"
    by (simp add: pump_adds_def pump_ends_def)
  moreover have "socat_pump (\<lambda>_. True) 0 [] [] = Some (pump_ends None)" by simp
  ultimately have "ss_in (socat_session [Some (?r, pump_ends None)]) = ss_out (socat_session [Some (?r, pump_ends None)])"
    using socat_totals_equal [of "[Some (?r, pump_ends None)]"] by (simp; blast)
  moreover have "ss_in (socat_session [Some (?r, pump_ends None)]) = 2"
    by (simp add: socat_session_def socat_conn_def relay_ends_def pump_ends_def Let_def)
  ultimately show ?thesis by simp
qed

section \<open>Facts about the relay of datagrams\<close>

definition of_client :: "string \<Rightarrow> (string \<times> bytes) list \<Rightarrow> bytes list" where
  "of_client k xs = map snd (filter (\<lambda>x. fst x = k) xs)"

lemma of_client_simps [simp]:
  "of_client k [] = []" "of_client k (xs @ [(j, d)]) = of_client k xs @ (if j = k then [d] else [])"
  by (simp_all add: of_client_def)

text \<open>The invariant of the sessions: bounded inboxes, and never more answers than requests; one request is open while the
  goroutine waits.\<close>

definition socat_inv :: "socat_udp \<Rightarrow> bool" where
  "socat_inv s \<longleftrightarrow>
     (\<forall>k se. su_table s k = Some se \<longrightarrow> length (se_inbox se) \<le> inbox_limit \<and>
        (se_phase se = Waiting \<longrightarrow> length (of_client k (su_replies s)) < length (of_client k (su_sent s)))) \<and>
     (\<forall>k. length (of_client k (su_replies s)) \<le> length (of_client k (su_sent s)))"

lemma with_session_next:
  assumes "with_session k f s = Next s'"
  obtains se where "su_table s k = Some se" "f se s = Next s'"
  using assms by (auto simp: with_session_def split: option.splits)

lemmas session_steps = su_dial_done_def su_send_def su_reply_def su_read_fails_def set_session_def su_drop_def

lemma socat_inv_step:
  assumes "socat_inv s" "socat_step ev s = Next s'"
  shows "socat_inv s'"
proof (cases ev)
  case (Arrive k d)
  then show ?thesis
    using assms by (auto simp: socat_step_def su_arrive_def socat_inv_def Let_def split: if_splits)
next
  case Enqueue
  then obtain p where p: "su_pending s = Some p" "su_enqueue p s = Next s'"
    using assms(2) by (auto simp: socat_step_def split: option.splits)
  then show ?thesis
    using assms(1) by (auto simp: su_enqueue_def socat_inv_def split: if_splits option.splits)
next
  case (DialDone k ok)
  then obtain se where "su_table s k = Some se" "su_dial_done k ok se s = Next s'"
    using assms(2) by (auto simp: socat_step_def elim: with_session_next)
  then show ?thesis
    using assms(1) by (auto simp: session_steps socat_inv_def split: if_splits)
next
  case (Send k ok)
  then obtain se where "su_table s k = Some se" "su_send k ok se s = Next s'"
    using assms(2) by (auto simp: socat_step_def elim: with_session_next)
  then show ?thesis
    using assms(1) by (auto simp: session_steps socat_inv_def le_Suc_eq less_Suc_eq_le split: if_splits list.splits) fastforce+
next
  case (Reply k r)
  then obtain se where "su_table s k = Some se" "su_reply k r se s = Next s'"
    using assms(2) by (auto simp: socat_step_def elim: with_session_next)
  then show ?thesis
    using assms(1) by (auto simp: session_steps socat_inv_def Let_def Suc_le_eq split: if_splits)
next
  case (ReadFails k)
  then obtain se where "su_table s k = Some se" "su_read_fails k se s = Next s'"
    using assms(2) by (auto simp: socat_step_def elim: with_session_next)
  then show ?thesis
    using assms(1) by (auto simp: session_steps socat_inv_def split: if_splits)
qed (use assms in \<open>auto simp: socat_step_def socat_inv_def split: if_splits\<close>)

text \<open> In every reachable state of the datagram relay the inboxes keep within their limit and no client has got more
  answers than it has sent requests.\<close>

lemma socat_sessions_invariant: "socat_reachable s \<Longrightarrow> socat_inv s"
proof (induction rule: socat_reachable.induct)
  case socat_init
  then show ?case by (simp add: socat_inv_def socat_start_def)
next
  case (socat_next s ev s')
  then show ?case by (blast intro: socat_inv_step)
qed

text \<open>A client whose session has ended, or whose session waits and gets no answer, is not served.\<close>

definition stalled :: "string \<Rightarrow> socat_udp \<Rightarrow> bool" where
  "stalled k s \<longleftrightarrow> (\<exists>se. su_table s k = Some se \<and> (se_phase se = Ended \<or> se_phase se = Waiting)) \<or> su_table s k = None \<and> su_cancelled s"

definition answers :: "string \<Rightarrow> socat_event \<Rightarrow> bool" where
  "answers k ev \<longleftrightarrow> (\<exists>r. ev = Reply k r)"

lemma stalled_step:
  assumes "stalled k s" "socat_step ev s = Next s'" "\<not> answers k ev"
  shows "stalled k s' \<and> of_client k (su_sent s') = of_client k (su_sent s)"
proof (cases ev)
  case (Arrive j d)
  then show ?thesis
    using assms by (auto simp: socat_step_def su_arrive_def stalled_def Let_def split: if_splits)
next
  case Enqueue
  then obtain p where p: "su_pending s = Some p" "su_enqueue p s = Next s'"
    using assms(2) by (auto simp: socat_step_def split: option.splits)
  then show ?thesis
    using assms(1) by (auto simp: su_enqueue_def stalled_def split: if_splits option.splits)
next
  case (DialDone j ok)
  then obtain se where "su_table s j = Some se" "su_dial_done j ok se s = Next s'"
    using assms(2) by (auto simp: socat_step_def elim: with_session_next)
  then show ?thesis
    using assms(1) by (auto simp: session_steps stalled_def split: if_splits)
next
  case (Send j ok)
  then obtain se where "su_table s j = Some se" "su_send j ok se s = Next s'"
    using assms(2) by (auto simp: socat_step_def elim: with_session_next)
  then show ?thesis
    using assms(1) by (auto simp: session_steps stalled_def split: if_splits list.splits)
next
  case (Reply j r)
  then obtain se where "su_table s j = Some se" "su_reply j r se s = Next s'" "j \<noteq> k"
    using assms(2,3) by (auto simp: socat_step_def answers_def elim: with_session_next)
  then show ?thesis
    using assms(1) by (auto simp: session_steps stalled_def Let_def split: if_splits)
next
  case (ReadFails j)
  then obtain se where "su_table s j = Some se" "su_read_fails j se s = Next s'"
    using assms(2) by (auto simp: socat_step_def elim: with_session_next)
  then show ?thesis
    using assms(1) by (auto simp: session_steps stalled_def split: if_splits)
qed (use assms in \<open>auto simp: socat_step_def stalled_def split: if_splits\<close>)

lemma stalled_run:
  "stalled k s \<Longrightarrow> socat_run evs s = Next s' \<Longrightarrow> list_all (\<lambda>ev. \<not> answers k ev) evs \<Longrightarrow>
   of_client k (su_sent s') = of_client k (su_sent s)"
proof (induction evs arbitrary: s)
  case (Cons ev evs)
  obtain s1 where s1: "socat_step ev s = Next s1" "socat_run evs s1 = Next s'"
    using Cons.prems(2) by (auto split: socat_step.splits)
  have "\<not> answers k ev" using Cons.prems(3) by simp
  note st = stalled_step [OF Cons.prems(1) s1(1) this]
  have "of_client k (su_sent s') = of_client k (su_sent s1)"
    by (rule Cons.IH) (use st s1 Cons.prems(3) in simp_all)
  then show ?case using st by simp
qed simp

definition finished :: "string \<Rightarrow> socat_udp \<Rightarrow> bool" where
  "finished k s \<longleftrightarrow> (\<exists>se. su_table s k = Some se \<and> se_phase se = Ended) \<or> su_table s k = None \<and> su_cancelled s"

lemma finished_stalled: "finished k s \<Longrightarrow> stalled k s"
  by (auto simp: finished_def stalled_def)

lemma finished_no_answer: "finished k s \<Longrightarrow> socat_step ev s = Next s' \<Longrightarrow> \<not> answers k ev"
  by (auto simp: finished_def answers_def socat_step_def with_session_def su_reply_def)

lemma finished_step:
  assumes "finished k s" "socat_step ev s = Next s'"
  shows "finished k s'"
proof (cases ev)
  case (Arrive j d)
  then show ?thesis using assms by (auto simp: finished_def socat_step_def su_arrive_def Let_def split: if_splits)
next
  case Enqueue
  then obtain p where p: "su_pending s = Some p" "su_enqueue p s = Next s'"
    using assms(2) by (auto simp: socat_step_def split: option.splits)
  then show ?thesis using assms(1) by (auto simp: finished_def su_enqueue_def split: if_splits option.splits)
next
  case (DialDone j ok)
  then show ?thesis using assms
    by (auto simp: finished_def socat_step_def session_steps split: if_splits elim!: with_session_next)
next
  case (Send j ok)
  then show ?thesis using assms
    by (auto simp: finished_def socat_step_def session_steps split: if_splits list.splits elim!: with_session_next)
next
  case (Reply j r)
  then show ?thesis using assms
    by (auto simp: finished_def socat_step_def session_steps Let_def split: if_splits elim!: with_session_next)
next
  case (ReadFails j)
  then show ?thesis using assms
    by (auto simp: finished_def socat_step_def session_steps split: if_splits elim!: with_session_next)
qed (use assms in \<open>auto simp: finished_def socat_step_def split: if_splits\<close>)

text \<open> After a failed read the session of a client stays in the table without a goroutine: whatever happens afterwards, no
  datagram of that client is forwarded again.\<close>

lemma socat_dead_client:
  assumes "su_table s k = Some se" "se_phase se = Ended" "socat_run evs s = Next s'"
  shows "of_client k (su_sent s') = of_client k (su_sent s)"
proof -
  have "finished k s" using assms(1,2) by (simp add: finished_def)
  then show ?thesis using assms(3)
  proof (induction evs arbitrary: s)
    case (Cons ev evs)
    obtain s1 where s1: "socat_step ev s = Next s1" "socat_run evs s1 = Next s'"
      using Cons.prems(2) by (auto split: socat_step.splits)
    note f = Cons.prems(1)
    have "of_client k (su_sent s1) = of_client k (su_sent s)"
      using stalled_step [OF finished_stalled [OF f] s1(1) finished_no_answer [OF f s1(1)]] by simp
    moreover have "of_client k (su_sent s') = of_client k (su_sent s1)"
      by (rule Cons.IH [OF finished_step [OF f s1(1)] s1(2)])
    ultimately show ?case by simp
  qed simp
qed

definition demo_exchange :: "socat_event list" where
  "demo_exchange = [Arrive ''c'' [1], Enqueue, DialDone ''c'' True, Send ''c'' True, ReadFails ''c'']"

definition demo_dead :: socat_udp where
  "demo_dead = (case socat_run demo_exchange socat_start of Next s \<Rightarrow> s | _ \<Rightarrow> socat_start)"

lemmas socat_eval = socat_step_def su_arrive_def su_enqueue_def with_session_def session_steps socat_start_def inbox_limit_def Let_def

lemma demo_dead_session: "su_table demo_dead ''c'' = Some \<lparr>se_phase = Ended, se_inbox = []\<rparr>" "su_sent demo_dead = [(''c'', [1])]"
  "su_pending demo_dead = None" "\<not> su_cancelled demo_dead"
  by (simp_all add: demo_dead_def demo_exchange_def socat_eval)

lemma socat_dead_client_witness:
  "\<exists>s'. socat_run [Arrive ''c'' [2], Enqueue] demo_dead = Next s' \<and> of_client ''c'' (su_sent s') = [[1]]"
proof -
  have "\<exists>s'. socat_run [Arrive ''c'' [2], Enqueue] demo_dead = Next s'"
    using demo_dead_session by (simp add: socat_eval)
  then obtain s' where s': "socat_run [Arrive ''c'' [2], Enqueue] demo_dead = Next s'" by blast
  from socat_dead_client [OF demo_dead_session(1) _ s'] demo_dead_session(2) s' show ?thesis
    by (auto simp: of_client_def)
qed

text \<open>A client whose request gets no answer is not served again before one arrives.\<close>

lemma socat_silent_target:
  assumes "su_table s k = Some se" "se_phase se = Waiting" "socat_run evs s = Next s'" "list_all (\<lambda>ev. \<not> answers k ev) evs"
  shows "of_client k (su_sent s') = of_client k (su_sent s)"
  by (rule stalled_run [OF _ assms(3,4)]) (use assms(1,2) in \<open>auto simp: stalled_def\<close>)

text \<open> An interrupt between the two halves of the delivery of a datagram closes the inbox and the program panics.\<close>

lemma socat_interrupt_panics: "socat_run [Arrive k [b], Cancel, CloseAll, Enqueue] socat_start = Panics"
  by (simp add: socat_eval)

section \<open>Facts about endpoints\<close>

text \<open> Of two listening endpoints the first listens, and the second is dialled without a word.\<close>

lemma two_listeners:
  assumes "parse_socat_spec a = Inr l" "parse_socat_spec b = Inr r" "sp_listen l" "sp_listen r" "sp_proto l = sp_proto r"
  shows "socat_sides a b = Inr (l, r)"
  using assms by (simp add: socat_sides_def)

lemma two_listeners_witness:
  "socat_sides ''TCP-LISTEN:8080'' ''tcp-listen:9000'' =
     Inr (\<lparr>sp_proto = ''tcp'', sp_addr = '':8080'', sp_listen = True\<rparr>, \<lparr>sp_proto = ''tcp'', sp_addr = '':9000'', sp_listen = True\<rparr>)"
proof -
  have "parse_socat_spec ''TCP-LISTEN:8080'' = Inr \<lparr>sp_proto = ''tcp'', sp_addr = '':8080'', sp_listen = True\<rparr>"
    "parse_socat_spec ''tcp-listen:9000'' = Inr \<lparr>sp_proto = ''tcp'', sp_addr = '':9000'', sp_listen = True\<rparr>"
    by code_simp+
  then show ?thesis by (rule two_listeners) simp_all
qed

end
