(* ===== verification/Port_Forward.thy ===== *)
theory Port_Forward
  imports Forwarding
begin

text \<open>
  The forwarders of ports (\<open>forward/forward.go\<close>) with the command that starts them (\<open>cmd/forward.go\<close>), and the proxy
  for scripts in browsers (\<open>cmd/corsproxy.go\<close>). Listeners are scripts of what \<open>Accept\<close> returns; TLS, URLs and SSH
  are parameters.
\<close>

section \<open>Accept loops\<close>

text \<open>What \<open>Accept\<close> returns, with the state of the context at that time.\<close>

datatype 'c accept = Conn 'c | AcceptError bool string

datatype serve_end = StillServing | Stopped | ServeError string

fun accept_loop :: "string \<Rightarrow> 'c accept list \<Rightarrow> 'c list \<times> serve_end" where
  "accept_loop what [] = ([], StillServing)"
| "accept_loop what (Conn c # rs) = (let (cs, r) = accept_loop what rs in (c # cs, r))"
| "accept_loop what (AcceptError cancelled e # rs) = ([], if cancelled then Stopped else ServeError (what @ '': '' @ e))"

text \<open>A connection is dialled on to the fixed destination and relayed, or closed.\<close>

datatype conn_end = ClosedAtOnce | RelayedTo string

definition forward_conn :: "(string \<Rightarrow> bool) \<Rightarrow> string \<Rightarrow> conn_end" where
  "forward_conn dial_ok dst = (if dial_ok dst then RelayedTo dst else ClosedAtOnce)"

definition serve :: "string \<Rightarrow> string \<Rightarrow> string + 'c accept list \<Rightarrow> ('c \<Rightarrow> 'r) \<Rightarrow> 'r list \<times> serve_end" where
  "serve open_text accept_text listener handle = (case listener of
       Inl e \<Rightarrow> ([], ServeError (open_text @ '': '' @ e))
     | Inr rs \<Rightarrow> (let (cs, r) = accept_loop accept_text rs in (map handle cs, r)))"

definition local_forward :: "(string \<Rightarrow> bool) \<Rightarrow> string \<Rightarrow> string \<Rightarrow> string + 'c accept list \<Rightarrow> conn_end list \<times> serve_end" where
  "local_forward dial_ok listen dst ln = serve (''listen '' @ listen) (''accept '' @ listen) ln (\<lambda>_. forward_conn dial_ok dst)"

definition remote_forward :: "(string \<Rightarrow> bool) \<Rightarrow> string \<Rightarrow> string \<Rightarrow> string + 'c accept list \<Rightarrow> conn_end list \<times> serve_end" where
  "remote_forward dial_ok listen dst ln =
     serve (''open remote listener '' @ listen) (''remote accept '' @ listen) ln (\<lambda>_. forward_conn dial_ok dst)"

text \<open>The connections of \<open>Dynamic\<close> are the streams that the clients send.\<close>

definition dynamic_forward where
  "dynamic_forward dialer listen ln = serve (''listen '' @ listen) (''accept '' @ listen) ln (forward_socks dialer)"

section \<open>Termination of TLS\<close>

record tls_settings =
  ts_certificates :: "bytes list"
  ts_get_certificate :: bool
  ts_server_name :: string
  ts_insecure :: bool

definition tls_server_settings :: "string \<Rightarrow> string \<Rightarrow> tls_settings" where
  "tls_server_settings dst sni = \<lparr>ts_certificates = [], ts_get_certificate = False,
     ts_server_name = (if sni = [] then (case split_host_port dst of Some (h, _) \<Rightarrow> h | None \<Rightarrow> []) else sni), ts_insecure = True\<rparr>"

definition tls_conn :: "(tls_settings \<Rightarrow> 'c \<Rightarrow> bool) \<Rightarrow> (string \<Rightarrow> bool) \<Rightarrow> string \<Rightarrow> string \<Rightarrow> 'c \<Rightarrow> conn_end" where
  "tls_conn handshake dial_ok dst sni c =
     (if handshake (tls_server_settings dst sni) c then forward_conn dial_ok dst else ClosedAtOnce)"

definition tls_forward ::
  "(tls_settings \<Rightarrow> 'c \<Rightarrow> bool) \<Rightarrow> (string \<Rightarrow> bool) \<Rightarrow> string \<Rightarrow> string \<Rightarrow> string \<Rightarrow> string + 'c accept list \<Rightarrow> conn_end list \<times> serve_end" where
  "tls_forward handshake dial_ok listen dst sni ln =
     serve (''listen '' @ listen) (''accept '' @ listen) ln (tls_conn handshake dial_ok dst sni)"

section \<open>Forwarding of datagrams\<close>

text \<open>What arrives: at the listener from an address, or from the proxy. What leaves: from the listener to an address, or
  to the proxy for an address. \<open>lastClient\<close> is one variable of the package.\<close>

datatype udp_in = AtListener string bytes | FromProxy bytes
datatype udp_out = SendTo string bytes | ViaProxy string bytes

record udp_forward =
  uf_last :: "string option"
  uf_replies :: bool
  uf_out :: "udp_out list"

definition udp_forward_step :: "bool \<Rightarrow> (string \<Rightarrow> string option) \<Rightarrow> string \<Rightarrow> udp_in \<Rightarrow> udp_forward \<Rightarrow> udp_forward" where
  "udp_forward_step proxied resolve dst i s = (case i of
       AtListener client d \<Rightarrow>
         s\<lparr>uf_last := Some client,
           uf_out := uf_out s @ (case resolve dst of
               None \<Rightarrow> []
             | Some a \<Rightarrow> [if proxied then ViaProxy a d else SendTo a d])\<rparr>
     | FromProxy d \<Rightarrow>
         if \<not> proxied \<or> \<not> uf_replies s then s
         else (case uf_last s of
             None \<Rightarrow> s\<lparr>uf_replies := False\<rparr>
           | Some c \<Rightarrow> s\<lparr>uf_out := uf_out s @ [SendTo c d]\<rparr>))"

definition udp_forward_run :: "bool \<Rightarrow> (string \<Rightarrow> string option) \<Rightarrow> string \<Rightarrow> udp_in list \<Rightarrow> udp_forward \<Rightarrow> udp_forward" where
  "udp_forward_run proxied resolve dst ins s = fold (udp_forward_step proxied resolve dst) ins s"

text \<open> Without a proxy the forwarder sends everything that arrives at its socket to the target, the answers of the target
  included: no client ever gets an answer.\<close>

lemma direct_udp_echoes:
  assumes "resolve dst = Some a"
  shows "uf_out (udp_forward_run False resolve dst ins s) =
    uf_out s @ List.map_filter (\<lambda>i. case i of AtListener c d \<Rightarrow> Some (SendTo a d) | FromProxy d \<Rightarrow> None) ins"
  unfolding udp_forward_run_def
proof (induction ins arbitrary: s)
  case (Cons i ins)
  show ?case
    using Cons.IH [of "udp_forward_step False resolve dst i s"] assms
    by (cases i) (simp_all add: udp_forward_step_def map_filter_simps)
qed (simp add: map_filter_simps)

definition demo_udp :: udp_forward where
  "demo_udp = \<lparr>uf_last = None, uf_replies = True, uf_out = []\<rparr>"

text \<open>The question of a client and the answer of the server both go to the server.\<close>

lemma direct_udp_echoes_witness:
  "uf_out (udp_forward_run False Some ''1.1.1.1:53'' [AtListener ''127.0.0.1:5000'' [1], AtListener ''1.1.1.1:53'' [2]] demo_udp) =
     [SendTo ''1.1.1.1:53'' [1], SendTo ''1.1.1.1:53'' [2]]"
  using direct_udp_echoes [of Some "''1.1.1.1:53''" "''1.1.1.1:53''" _ demo_udp]
  by (simp add: demo_udp_def map_filter_simps)

text \<open> Through a proxy every answer goes to the client that sent something last, whichever client it is for.\<close>

lemma proxied_udp_last_client:
  assumes "uf_replies s" "resolve dst = Some a"
  shows "uf_out (udp_forward_run True resolve dst [AtListener c1 d1, AtListener c2 d2, FromProxy r1, FromProxy r2] s) =
    uf_out s @ [ViaProxy a d1, ViaProxy a d2, SendTo c2 r1, SendTo c2 r2]"
  using assms by (simp add: udp_forward_run_def udp_forward_step_def)

lemma proxied_udp_last_client_witness:
  "uf_out (udp_forward_run True Some ''1.1.1.1:53'' [AtListener ''a'' [1], AtListener ''b'' [2], FromProxy [3], FromProxy [4]] demo_udp) =
     [ViaProxy ''1.1.1.1:53'' [1], ViaProxy ''1.1.1.1:53'' [2], SendTo ''b'' [3], SendTo ''b'' [4]]"
proof -
  have "uf_replies demo_udp" "uf_out demo_udp = []" by (simp_all add: demo_udp_def)
  then show ?thesis using proxied_udp_last_client [of demo_udp Some "''1.1.1.1:53''" "''1.1.1.1:53''"] by simp
qed

text \<open> The server of a TLS forward has no certificate, so that no handshake succeeds and no connection is relayed.\<close>

lemma tls_forward_dead:
  assumes "\<And>ts c. ts_certificates ts = [] \<Longrightarrow> \<not> ts_get_certificate ts \<Longrightarrow> \<not> handshake ts c"
  shows "set (fst (tls_forward handshake dial_ok listen dst sni ln)) \<subseteq> {ClosedAtOnce}"
proof -
  have "\<not> handshake (tls_server_settings dst sni) c" for c
    by (rule assms) (simp_all add: tls_server_settings_def)
  then have "tls_conn handshake dial_ok dst sni c = ClosedAtOnce" for c by (simp add: tls_conn_def)
  then show ?thesis by (auto simp: tls_forward_def serve_def split: sum.split prod.split)
qed

lemma tls_forward_dead_witness:
  "fst (tls_forward (\<lambda>ts c. ts_certificates ts \<noteq> [] \<or> ts_get_certificate ts) (\<lambda>_. True) '':443'' ''127.0.0.1:80'' []
     (Inr [Conn (1 :: nat)])) = [ClosedAtOnce]"
proof -
  let ?r = "fst (tls_forward (\<lambda>ts c. ts_certificates ts \<noteq> [] \<or> ts_get_certificate ts) (\<lambda>_. True) '':443'' ''127.0.0.1:80'' []
     (Inr [Conn (1 :: nat)]))"
  have "set ?r \<subseteq> {ClosedAtOnce}" by (rule tls_forward_dead) auto
  moreover have "length ?r = 1" by (simp add: tls_forward_def serve_def)
  ultimately show ?thesis by (cases ?r) auto
qed

text \<open>Every connection that is accepted before the listener ends is relayed, if the destination can be reached.\<close>

lemma accept_loop_conns: "accept_loop what (map Conn cs @ [AcceptError True e]) = (cs, Stopped)"
  by (induction cs) simp_all

lemma local_forward_relays:
  "dial_ok dst \<Longrightarrow> local_forward dial_ok listen dst (Inr (map Conn cs @ [AcceptError True e])) = (replicate (length cs) (RelayedTo dst), Stopped)"
  by (simp add: local_forward_def serve_def accept_loop_conns forward_conn_def map_replicate_const)

section \<open>The command forward\<close>

datatype fwd_dialer = DirectDial | Through world pref
datatype fwd_packets = DirectPackets | PacketsThrough proxy_cfg

datatype forward_plan =
    PlanLocal string string fwd_dialer
  | PlanRemote string string string fwd_dialer
  | PlanDynamic string fwd_dialer
  | PlanUdp string string fwd_packets
  | PlanTls string string string
  | PlanReverse string string

datatype forward_error = ForwardUsage string | UnknownMode string | LoadFailed config_err | RegisterFailed perr | NoUdpProxy string

definition named_proxy :: "config_err + config \<Rightarrow> string \<Rightarrow> forward_error + world \<times> pref" where
  "named_proxy cfg name = (case cfg of
       Inl e \<Rightarrow> Inl (LoadFailed e)
     | Inr c \<Rightarrow> (case register_all (cf_proxies c) of
         Inl e \<Rightarrow> Inl (RegisterFailed e)
       | Inr w \<Rightarrow> (case reg_get w name of Inl e \<Rightarrow> Inl (RegisterFailed e) | Inr p \<Rightarrow> Inr (w, p))))"

definition build_dialer :: "config_err + config \<Rightarrow> string \<Rightarrow> forward_error + fwd_dialer" where
  "build_dialer cfg name =
     (if name = [] then Inr DirectDial else map_sum id (\<lambda>(w, p). Through w p) (named_proxy cfg name))"

text \<open>\<open>AsPacketProxy\<close>: only the SOCKS5 proxy has \<open>ConnectUDP\<close>.\<close>

definition as_packet_proxy :: "world \<Rightarrow> pref \<Rightarrow> proxy_cfg option" where
  "as_packet_proxy w p = (case p of
       PObj i \<Rightarrow> if i < length (heap w) then (case heap w ! i of OLeaf KSOCKS5 c \<Rightarrow> Some c | _ \<Rightarrow> None) else None
     | _ \<Rightarrow> None)"

definition build_packet_dialer :: "config_err + config \<Rightarrow> string \<Rightarrow> forward_error + fwd_packets" where
  "build_packet_dialer cfg name =
     (if name = [] then Inr DirectPackets
      else case named_proxy cfg name of
        Inl e \<Rightarrow> Inl e
      | Inr (w, p) \<Rightarrow> (case as_packet_proxy w p of None \<Rightarrow> Inl (NoUdpProxy name) | Some c \<Rightarrow> Inr (PacketsThrough c)))"

definition forward_plan_of :: "config_err + config \<Rightarrow> string \<Rightarrow> string \<Rightarrow> string list \<Rightarrow> fwd_dialer \<Rightarrow> forward_error + forward_plan" where
  "forward_plan_of cfg name mode rest d =
     (if List.member [''local'', ''-l'', ''-L''] mode then
        (case rest of l # dst # _ \<Rightarrow> Inr (PlanLocal l dst d) | _ \<Rightarrow> Inl (ForwardUsage ''forward local <listen> <dst>''))
      else if List.member [''remote'', ''-r'', ''-R''] mode then
        (case rest of a # l # dst # _ \<Rightarrow> Inr (PlanRemote a l dst d)
         | _ \<Rightarrow> Inl (ForwardUsage ''forward remote <sshAlias> <remoteListen> <localDst>''))
      else if List.member [''dynamic'', ''-d'', ''-D''] mode then
        (case rest of l # _ \<Rightarrow> Inr (PlanDynamic l d) | _ \<Rightarrow> Inl (ForwardUsage ''forward dynamic <listen>''))
      else if List.member [''udp'', ''-u'', ''-U''] mode then
        (case rest of l # dst # _ \<Rightarrow> map_sum id (PlanUdp l dst) (build_packet_dialer cfg name)
         | _ \<Rightarrow> Inl (ForwardUsage ''forward udp <listen> <dst>''))
      else if mode = ''tls'' then
        (case rest of l # dst # sn \<Rightarrow> Inr (PlanTls l dst (case sn of [] \<Rightarrow> [] | x # _ \<Rightarrow> x))
         | _ \<Rightarrow> Inl (ForwardUsage ''forward tls <listen> <dst> [sni]''))
      else if mode = ''reverse'' then
        (case rest of l # target # _ \<Rightarrow> Inr (PlanReverse l target) | _ \<Rightarrow> Inl (ForwardUsage ''forward reverse <listen> <target>''))
      else Inl (UnknownMode mode))"

definition run_forward :: "config_err + config \<Rightarrow> string \<Rightarrow> string list \<Rightarrow> forward_error + forward_plan" where
  "run_forward cfg name args = (case args of
       [] \<Rightarrow> Inl (ForwardUsage ''forward <local|remote|dynamic|tls> ...'')
     | mode # rest \<Rightarrow> (case build_dialer cfg name of
         Inl e \<Rightarrow> Inl e
       | Inr d \<Rightarrow> forward_plan_of cfg name (to_lower mode) rest d))"

text \<open>A forward of connections goes through the proxy that was named, never around it.\<close>

definition plan_direct :: "forward_plan \<Rightarrow> bool" where
  "plan_direct p = (case p of
       PlanLocal _ _ d \<Rightarrow> d = DirectDial | PlanRemote _ _ _ d \<Rightarrow> d = DirectDial | PlanDynamic _ d \<Rightarrow> d = DirectDial
     | PlanUdp _ _ d \<Rightarrow> d = DirectPackets | PlanTls _ _ _ \<Rightarrow> True | PlanReverse _ _ \<Rightarrow> True)"

text \<open> With a named proxy a plan that goes around it is one of the two modes that take no proxy, TLS and reverse, which
  ignore the option without a word.\<close>

lemma forward_through_proxy:
  assumes "run_forward cfg name args = Inr plan" "name \<noteq> []" "plan_direct plan"
  shows "to_lower (hd args) = ''tls'' \<or> to_lower (hd args) = ''reverse''"
proof -
  obtain mode rest d where args: "args = mode # rest" and d: "build_dialer cfg name = Inr d"
    and plan: "forward_plan_of cfg name (to_lower mode) rest d = Inr plan"
    using assms(1) by (auto simp: run_forward_def split: list.splits sum.splits)
  have "d \<noteq> DirectDial"
    using d assms(2) by (cases "named_proxy cfg name") (auto simp: build_dialer_def)
  moreover have "build_packet_dialer cfg name \<noteq> Inr DirectPackets"
    using assms(2) by (auto simp: build_packet_dialer_def split: sum.split option.split)
  ultimately show ?thesis
    using plan assms(3) unfolding forward_plan_of_def args
    by (cases "build_packet_dialer cfg name") (auto simp: plan_direct_def split: if_splits list.splits)
qed
lemma forward_through_proxy_witness:
  "run_forward (Inr first_config) ''DIRECT'' [''TLS'', '':443'', ''a:80''] = Inr (PlanTls '':443'' ''a:80'' []) \<and>
   (to_lower ''TLS'' = ''tls'' \<or> to_lower ''TLS'' = ''reverse'')"
proof -
  have "register_all (cf_proxies first_config) = Inr new_registry"
    by (simp add: first_config_def zero_config_def register_all_def)
  moreover have tls: "to_lower ''TLS'' = ''tls''" by code_simp
  ultimately have run: "run_forward (Inr first_config) ''DIRECT'' [''TLS'', '':443'', ''a:80''] = Inr (PlanTls '':443'' ''a:80'' [])"
    by (simp add: run_forward_def build_dialer_def named_proxy_def forward_plan_of_def)
  have "plan_direct (PlanTls '':443'' ''a:80'' [])" by (simp add: plan_direct_def)
  from forward_through_proxy [OF run _ this] run show ?thesis by simp
qed

section \<open>The reverse proxy for HTTP\<close>

record web_request =
  wq_scheme :: string
  wq_url_host :: string
  wq_host :: string
  wq_headers :: "(string \<times> string) list"
  wq_remote :: string

definition header_get :: "string \<Rightarrow> (string \<times> string) list \<Rightarrow> string" where
  "header_get k hs = (case map_of hs k of Some v \<Rightarrow> v | None \<Rightarrow> [])"

definition header_set :: "string \<Rightarrow> string \<Rightarrow> (string \<times> string) list \<Rightarrow> (string \<times> string) list" where
  "header_set k v hs = filter (\<lambda>x. fst x \<noteq> k) hs @ [(k, v)]"

text \<open>The scheme and the host of the target, as \<open>url.Parse\<close> gives them.\<close>

datatype reverse_error = BadTarget string | BadScheme string | MissingHost string

definition reverse_target :: "(string \<Rightarrow> string + string \<times> string) \<Rightarrow> string \<Rightarrow> reverse_error + string \<times> string" where
  "reverse_target parse target = (case parse target of
       Inl e \<Rightarrow> Inl (BadTarget e)
     | Inr (scheme, host) \<Rightarrow>
         if scheme \<noteq> ''http'' \<and> scheme \<noteq> ''https'' then Inl (BadScheme scheme)
         else if host = [] then Inl (MissingHost target) else Inr (scheme, host))"

definition reverse_director :: "string \<times> string \<Rightarrow> web_request \<Rightarrow> web_request" where
  "reverse_director target rq =
     (let hs = header_set ''X-Forwarded-For'' (wq_remote rq) (wq_headers rq);
          hs' = (if header_get ''X-Forwarded-Proto'' hs = [] then header_set ''X-Forwarded-Proto'' ''http'' hs else hs)
      in rq\<lparr>wq_scheme := fst target, wq_url_host := snd target, wq_host := snd target, wq_headers := hs'\<rparr>)"

text \<open> Every request goes to the configured target, with the host of the target and the address of the client; the host that
  the client asked for is not handed on.\<close>

lemma reverse_request:
  fixes rq :: web_request
  assumes "reverse_target parse target = Inr (scheme, host)"
  defines "rq' \<equiv> reverse_director (scheme, host) rq"
  shows "wq_scheme rq' \<in> {''http'', ''https''} \<and> wq_url_host rq' = host \<and> wq_host rq' = host \<and> host \<noteq> [] \<and>
    header_get ''X-Forwarded-For'' (wq_headers rq') = wq_remote rq \<and>
    header_get ''X-Forwarded-Host'' (wq_headers rq') = header_get ''X-Forwarded-Host'' (wq_headers rq)"
proof -
  have none: "map_of (filter (\<lambda>x. fst x \<noteq> k) hs) k = None" for k :: string and hs :: "(string \<times> string) list"
    by (induction hs) auto
  have other: "j \<noteq> k \<Longrightarrow> map_of (filter (\<lambda>x. fst x \<noteq> k) hs) j = map_of hs j" for j k :: string and hs :: "(string \<times> string) list"
    by (induction hs) auto
  have get: "header_get j (header_set k v hs) = (if j = k then v else header_get j hs)" for j k v hs
    by (simp add: header_get_def header_set_def map_add_def none other split: option.split)
  show ?thesis
    using assms(1) by (auto simp: rq'_def reverse_director_def reverse_target_def Let_def get split: sum.splits if_splits)
qed

definition demo_web_request :: web_request where
  "demo_web_request = \<lparr>wq_scheme = [], wq_url_host = [], wq_host = ''shop.example'', wq_headers = [(''X-Forwarded-For'', ''9.9.9.9'')],
     wq_remote = ''10.0.0.7:4000''\<rparr>"

lemma reverse_request_witness:
  "header_get ''X-Forwarded-For'' (wq_headers (reverse_director (''https'', ''internal'') demo_web_request)) = ''10.0.0.7:4000''"
proof -
  have "reverse_target (\<lambda>_. Inr (''https'', ''internal'')) ''https://internal'' = Inr (''https'', ''internal'')"
    by (simp add: reverse_target_def)
  from reverse_request [OF this, where rq = demo_web_request] show ?thesis by (simp add: demo_web_request_def)
qed

section \<open>The proxy for scripts\<close>

datatype cors_reply =
    CorsPage | CorsHealth | CorsError nat string | CorsPreflight "(string \<times> string) list" | CorsProxied string "(string \<times> string) list"

text \<open>\<open>ModifyResponse\<close> on the headers of the answer of the target.\<close>

definition cors_headers :: "(string \<times> string) list \<Rightarrow> (string \<times> string) list" where
  "cors_headers hs =
     header_set ''Access-Control-Allow-Headers'' ''Content-Type, Authorization, X-Requested-With''
       (header_set ''Access-Control-Allow-Methods'' ''GET, POST, PUT, DELETE, OPTIONS''
         (header_set ''Access-Control-Allow-Origin'' ''*'' (filter (\<lambda>x. fst x \<noteq> ''Access-Control-Allow-Origin'') hs)))"

text \<open>A request: method, the parameter \<open>url\<close> of its query, and the one of its JSON body; \<open>fetch\<close> gives the headers of
  the target's answer.\<close>

definition handle_cors ::
  "(string \<Rightarrow> bool) \<Rightarrow> (string \<Rightarrow> (string \<times> string) list) \<Rightarrow> string \<Rightarrow> string \<Rightarrow> string option \<Rightarrow> cors_reply" where
  "handle_cors url_ok fetch meth query body =
     (let target = (if query = [] \<and> meth = ''POST'' then (case body of Some u \<Rightarrow> u | None \<Rightarrow> []) else query)
      in if target = [] then CorsError 400 ''Missing url''
         else if \<not> has_prefix target ''http://'' \<and> \<not> has_prefix target ''https://'' then CorsError 400 ''Invalid URL''
         else if \<not> url_ok target then CorsError 400 ''Invalid URL''
         else if meth = ''OPTIONS'' then CorsPreflight [(''Access-Control-Allow-Origin'', ''*'')]
         else CorsProxied target (cors_headers (fetch target)))"

definition cors_mux where
  "cors_mux url_ok fetch path meth query body =
     (if path = ''/proxy'' then handle_cors url_ok fetch meth query body
      else if path = ''/health'' then CorsHealth else CorsPage)"

text \<open> A preflight is answered without the methods and the headers that are allowed, so that a browser sends no request that
  needs one; and one without a target is an error.\<close>

lemma preflight_incomplete:
  assumes "handle_cors url_ok fetch ''OPTIONS'' query body = r"
  shows "r = CorsError 400 ''Missing url'' \<or> r = CorsError 400 ''Invalid URL'' \<or>
    (\<exists>hs. r = CorsPreflight hs \<and> header_get ''Access-Control-Allow-Headers'' hs = [] \<and> header_get ''Access-Control-Allow-Methods'' hs = [])"
  using assms by (auto simp: handle_cors_def header_get_def Let_def split: if_splits)

lemma preflight_incomplete_witness:
  "\<exists>hs. handle_cors (\<lambda>_. True) (\<lambda>_. []) ''OPTIONS'' ''http://a/'' None = CorsPreflight hs \<and>
     header_get ''Access-Control-Allow-Headers'' hs = []"
proof -
  have "handle_cors (\<lambda>_. True) (\<lambda>_. []) ''OPTIONS'' ''http://a/'' None = CorsPreflight [(''Access-Control-Allow-Origin'', ''*'')]"
    by (simp add: handle_cors_def has_prefix_def)
  with preflight_incomplete [OF refl, of "\<lambda>_. True" "\<lambda>_. []" "''http://a/''" None] show ?thesis by auto
qed

text \<open>The answers of the target get the three headers, once each.\<close>

lemma cors_headers_once:
  "filter (\<lambda>x. fst x = ''Access-Control-Allow-Origin'') (cors_headers hs) = [(''Access-Control-Allow-Origin'', ''*'')]"
  by (auto simp: cors_headers_def header_set_def filter_empty_conv)

end
