(* ===== verification/Remote.thy ===== *)
theory Remote
  imports Agent_Memory
begin

text \<open>
  Files and commands on another host (\<open>agent/scp.go\<close>, \<open>cmd/scp.go\<close>, \<open>cmd/stop.go\<close>): the connection, the copy of one file in
  either direction with the handles that are opened and closed, and a command with its cancellation. The network, the protocol
  and the two file systems are parameters; a remote host is its files.
\<close>

section \<open>Connections\<close>

datatype remote_err =
    RemoteAuth ssh_err | RemoteDial string string | RemoteShake string | RemoteSftp string | OpenLocal string | CreateRemote string
  | OpenRemote string | CreateLocal string | CopyFails string | RemoteSession string | RemoteExited string | RemoteCommand string | RemoteCancelled

datatype handle = TcpConn | SshClient | SftpClient | SourceFile | TargetFile | SshSession

datatype handle_event = Opened handle | Closed handle

record remote_env =
  rm_load_key :: "string \<Rightarrow> ssh_err + string"
  rm_known :: known_hosts
  rm_host_key :: string
  rm_dial :: "string \<Rightarrow> string option"
  rm_shake :: "string \<Rightarrow> auth_method list \<Rightarrow> string option"
  rm_sftp :: "string option"
  rm_create_local :: "string \<Rightarrow> string option"
  rm_create_remote :: "string \<Rightarrow> string option"
  rm_copy :: "bytes \<Rightarrow> bytes \<times> string option"

definition remote_addr :: "host_info \<Rightarrow> string" where
  "remote_addr h = join_host_port (hi_host h) (itoa_int (host_port h))"

text \<open>The key of the host is checked during the handshake.\<close>

definition dial_ssh :: "remote_env \<Rightarrow> host_info \<Rightarrow> handle_event list \<times> (remote_err + unit)" where
  "dial_ssh env h = (case auth_methods (rm_load_key env) h of
       Inl e \<Rightarrow> ([], Inl (RemoteAuth e))
     | Inr ms \<Rightarrow> if rm_known env = Unreadable then ([], Inl (RemoteAuth BadKnownHosts))
         else let addr = remote_addr h in
         case rm_dial env addr of
           Some e \<Rightarrow> ([], Inl (RemoteDial addr e))
         | None \<Rightarrow> (case host_key_check (rm_known env) addr (rm_host_key env) of
             Inl e \<Rightarrow> ([Opened TcpConn, Closed TcpConn], Inl (RemoteAuth e))
           | Inr u \<Rightarrow> (case rm_shake env addr ms of
               Some e \<Rightarrow> ([Opened TcpConn, Closed TcpConn], Inl (RemoteShake e))
             | None \<Rightarrow> ([Opened TcpConn, Opened SshClient], Inr ()))))"

section \<open>A file\<close>

text \<open>The files on both sides; the target is emptied when it is created.\<close>

type_synonym two_disks = "(string \<rightharpoonup> bytes) \<times> (string \<rightharpoonup> bytes)"

definition close_ssh :: "handle_event list" where
  "close_ssh = [Closed SftpClient, Closed SshClient, Closed TcpConn]"

definition copy_file ::
  "remote_env \<Rightarrow> string \<Rightarrow> (string \<rightharpoonup> bytes) \<Rightarrow> remote_err \<Rightarrow> string option \<Rightarrow> (string \<Rightarrow> remote_err) \<Rightarrow> string \<Rightarrow> (string \<rightharpoonup> bytes) \<Rightarrow>
   handle_event list \<times> (string \<rightharpoonup> bytes) \<times> (remote_err + nat)" where
  "copy_file env src from open_err create create_err dst to = (case from src of
       None \<Rightarrow> ([], to, Inl open_err)
     | Some content \<Rightarrow> (case create of
         Some e \<Rightarrow> ([Opened SourceFile, Closed SourceFile], to, Inl (create_err e))
       | None \<Rightarrow> let (done, err) = rm_copy env content in
           ([Opened SourceFile, Opened TargetFile, Closed TargetFile, Closed SourceFile], to(dst \<mapsto> done),
            case err of None \<Rightarrow> Inr (length done) | Some e \<Rightarrow> Inl (CopyFails e))))"

definition file_transfer ::
  "remote_env \<Rightarrow> host_info \<Rightarrow> string \<Rightarrow> string \<Rightarrow> bool \<Rightarrow> two_disks \<Rightarrow> handle_event list \<times> two_disks \<times> (remote_err + nat)" where
  "file_transfer env h src dst upload disks = (case dial_ssh env h of
       (evs, Inl e) \<Rightarrow> (evs, disks, Inl e)
     | (evs, Inr u) \<Rightarrow> (case rm_sftp env of
         Some e \<Rightarrow> (evs @ [Closed SshClient, Closed TcpConn], disks, Inl (RemoteSftp e))
       | None \<Rightarrow>
           if upload then
             (case copy_file env src (fst disks) (OpenLocal src) (rm_create_remote env dst) CreateRemote dst (snd disks) of
                (ev, to, r) \<Rightarrow> (evs @ [Opened SftpClient] @ ev @ close_ssh, (fst disks, to), r))
           else
             (case copy_file env src (snd disks) (OpenRemote src) (rm_create_local env dst) CreateLocal dst (fst disks) of
                (ev, to, r) \<Rightarrow> (evs @ [Opened SftpClient] @ ev @ close_ssh, (to, snd disks), r))))"

text \<open>The arguments of the command \<open>scp\<close> are checked before anything is asked or opened.\<close>

datatype scp_plan = ScpBadAction | ScpNeedsPaths | ScpNeedsHost | ScpRun bool

definition scp_plan_of :: "string \<Rightarrow> string \<Rightarrow> string \<Rightarrow> string \<Rightarrow> string \<Rightarrow> scp_plan" where
  "scp_plan_of action alias host src dst =
     (if action \<noteq> ''upload'' \<and> action \<noteq> ''download'' then ScpBadAction
      else if src = [] \<or> dst = [] then ScpNeedsPaths
      else if alias = [] \<and> host = [] then ScpNeedsHost
      else ScpRun (action = ''upload''))"

section \<open>A command\<close>

text \<open>\<open>session\<close> is the error of a new session, \<open>ends\<close> how the command ends, None when it does not: on the left the status of the
  command. The signal of a cancellation is sent, then the end of the command is awaited. None is no return.\<close>

datatype command_end = Succeeds | ExitStatus string | BreaksOff string

definition run_remote :: "remote_env \<Rightarrow> host_info \<Rightarrow> string option \<Rightarrow> command_end option \<Rightarrow> bool \<Rightarrow> (remote_err + unit) option" where
  "run_remote env h session ends cancelled = (case snd (dial_ssh env h) of
       Inl e \<Rightarrow> Some (Inl e)
     | Inr u \<Rightarrow> (case session of
         Some e \<Rightarrow> Some (Inl (RemoteSession e))
       | None \<Rightarrow> (case ends of
           None \<Rightarrow> None
         | Some e \<Rightarrow> if cancelled then Some (Inl RemoteCancelled)
             else Some (case e of Succeeds \<Rightarrow> Inr () | ExitStatus s \<Rightarrow> Inl (RemoteExited s) | BreaksOff s \<Rightarrow> Inl (RemoteCommand s)))))"

section \<open>Stopping services from the command line\<close>

datatype service_target = TargetMissing | AllServices | OneService string

definition service_target :: "string list \<Rightarrow> service_target" where
  "service_target ws = (case ws of
       [] \<Rightarrow> TargetMissing
     | w # _ \<Rightarrow> let t = to_lower w in if t = [] then TargetMissing else if t = ''all'' then AllServices else OneService t)"

section \<open>Facts\<close>

text \<open>What is open after a list of events, or None when something is closed that is not open.\<close>

fun open_after :: "handle list \<Rightarrow> handle_event list \<Rightarrow> handle list option" where
  "open_after hs [] = Some hs"
| "open_after hs (Opened x # es) = open_after (x # hs) es"
| "open_after hs (Closed x # es) = (case hs of y # r \<Rightarrow> if x = y then open_after r es else None | [] \<Rightarrow> None)"

lemma open_after_append: "open_after hs (xs @ ys) = Option.bind (open_after hs xs) (\<lambda>r. open_after r ys)"
  by (induction hs xs rule: open_after.induct) (auto split: list.split)

lemma dial_ssh_open:
  "open_after [] (fst (dial_ssh env h)) = Some (case snd (dial_ssh env h) of Inl e \<Rightarrow> [] | Inr u \<Rightarrow> [SshClient, TcpConn])"
  by (simp add: dial_ssh_def Let_def split: sum.split option.split)

lemma copy_file_open: "open_after hs (fst (copy_file env src from oe c ce dst to)) = Some hs"
  by (simp add: copy_file_def split: option.split prod.split)

text \<open> Nothing stays open.\<close>

lemma transfer_closes: "open_after [] (fst (file_transfer env h src dst upload disks)) = Some []"
proof -
  obtain evs r where d: "dial_ssh env h = (evs, r)" by fastforce
  have op: "open_after [] evs = Some (case r of Inl e \<Rightarrow> [] | Inr u \<Rightarrow> [SshClient, TcpConn])"
    using dial_ssh_open [of env h] by (simp add: d)
  have c: "copy_file env src fs oe c ce dst to = (ev, t, x) \<Longrightarrow> open_after hs ev = Some hs" for src fs oe c ce dst to ev t x hs
    using copy_file_open [of hs env src fs oe c ce dst to] by simp
  show ?thesis
    using op by (cases r) (auto simp: file_transfer_def d open_after_append close_ssh_def dest!: c [where hs = "[SftpClient, SshClient, TcpConn]"] split: option.split prod.split)
qed

text \<open> There and back.\<close>

lemma transfer_roundtrip:
  assumes "file_transfer env h src dst True (here, there) = (ev1, disks1, Inr n1)"
    and "file_transfer env h dst back False disks1 = (ev2, (here2, there2), Inr n2)"
    and "\<And>b p. rm_copy env b = (p, None) \<Longrightarrow> p = b"
  shows "here2 back = here src \<and> here src \<noteq> None \<and> there2 dst = here src \<and> n1 = n2 \<and> (\<forall>p. p \<noteq> back \<longrightarrow> here2 p = here p)"
proof -
  obtain content where c: "here src = Some content" "disks1 = (here, there(dst \<mapsto> content))" "n1 = length content"
    using assms(1,3) by (auto simp: file_transfer_def copy_file_def split: prod.splits sum.splits option.splits)
  then have "here2 = here(back \<mapsto> content)" "there2 = there(dst \<mapsto> content)" "n2 = length content"
    using assms(2,3) by (auto simp: file_transfer_def copy_file_def split: prod.splits sum.splits option.splits)
  with c show ?thesis by simp
qed

definition demo_remote :: remote_env where
  "demo_remote = \<lparr>rm_load_key = (\<lambda>k. Inr k), rm_known = NoFile, rm_host_key = [], rm_dial = (\<lambda>a. None), rm_shake = (\<lambda>a ms. None),
     rm_sftp = None, rm_create_local = (\<lambda>p. None), rm_create_remote = (\<lambda>p. None), rm_copy = (\<lambda>b. (b, None))\<rparr>"

lemma transfer_roundtrip_witness:
  "\<exists>ev2 here2 there2. file_transfer demo_remote demo_host ''r'' ''c'' False
      (fst (snd (file_transfer demo_remote demo_host ''a'' ''r'' True ([''a'' \<mapsto> [7]], Map.empty)))) = (ev2, (here2, there2), Inr 1) \<and>
    here2 ''c'' = Some [7]"
proof -
  have d: "dial_ssh demo_remote demo_host = ([Opened TcpConn, Opened SshClient], Inr ())"
    by (simp add: dial_ssh_def demo_remote_def demo_host_def auth_methods_def host_key_check_def Let_def)
  obtain ev1 disks1 where u: "file_transfer demo_remote demo_host ''a'' ''r'' True ([''a'' \<mapsto> [7]], Map.empty) = (ev1, disks1, Inr 1)"
    by (simp add: file_transfer_def d) (simp add: demo_remote_def copy_file_def)
  then obtain ev2 here2 there2 where b: "file_transfer demo_remote demo_host ''r'' ''c'' False disks1 = (ev2, (here2, there2), Inr 1)"
    by (simp add: file_transfer_def d) (auto simp: demo_remote_def copy_file_def)
  have "here2 ''c'' = ([''a'' \<mapsto> [7]] :: string \<rightharpoonup> bytes) ''a''"
    using transfer_roundtrip [OF u b] by (simp add: demo_remote_def)
  with u b show ?thesis by auto
qed

text \<open> A copy that breaks off.\<close>

lemma broken_copy_replaces:
  assumes "file_transfer env h src dst True (here, there) = (ev, (here2, there2), Inl (CopyFails e))"
  shows "\<exists>content. here src = Some content \<and> there2 = there(dst \<mapsto> fst (rm_copy env content)) \<and> here2 = here"
  using assms by (auto simp: file_transfer_def copy_file_def dial_ssh_def Let_def split: prod.splits sum.splits option.splits if_splits)

definition broken_remote :: remote_env where
  "broken_remote = demo_remote\<lparr>rm_copy := (\<lambda>b. (take 1 b, Some ''broken''))\<rparr>"

lemma broken_copy_replaces_witness:
  "\<exists>ev here2 there2. file_transfer broken_remote demo_host ''a'' ''r'' True ([''a'' \<mapsto> [7, 8]], [''r'' \<mapsto> [1, 2, 3]]) =
     (ev, (here2, there2), Inl (CopyFails ''broken'')) \<and> there2 ''r'' = Some [7]"
proof -
  have d: "dial_ssh broken_remote demo_host = ([Opened TcpConn, Opened SshClient], Inr ())"
    by (simp add: dial_ssh_def broken_remote_def demo_remote_def demo_host_def auth_methods_def host_key_check_def Let_def)
  obtain ev here2 there2 where u: "file_transfer broken_remote demo_host ''a'' ''r'' True ([''a'' \<mapsto> [7, 8]], [''r'' \<mapsto> [1, 2, 3]]) =
     (ev, (here2, there2), Inl (CopyFails ''broken''))"
    by (simp add: file_transfer_def d) (simp add: broken_remote_def demo_remote_def copy_file_def)
  have "fst (rm_copy broken_remote [7, 8]) = [7]" by (simp add: broken_remote_def)
  with broken_copy_replaces [OF u] u show ?thesis by auto
qed

text \<open> A cancelled command.\<close>

lemma remote_cancel_waits:
  assumes "snd (dial_ssh env h) = Inr ()"
  shows "run_remote env h None ends True = (if ends = None then None else Some (Inl RemoteCancelled))"
  using assms by (simp add: run_remote_def split: option.split)

lemma remote_cancel_waits_witness: "run_remote demo_remote demo_host None None True = None"
  using remote_cancel_waits [of demo_remote demo_host None]
  by (simp add: dial_ssh_def demo_remote_def demo_host_def auth_methods_def host_key_check_def Let_def)

end
