(* ===== verification/Services.thy ===== *)
theory Services
  imports Agent_Tools
begin

text \<open>
  The processes that the agent starts and stops (\<open>agent/service.go\<close>,
  \<open>agent/commands_tools.go\<close>, \<open>cmd/stop.go\<close>) and the command lines that it starts them
  with, against the commands and flags that the program defines (\<open>cmd/root.go\<close> and the other
  files of \<open>cmd\<close>).

  The state is what is outside of a single call: the process table of the agent, the files with
  process numbers, the processes that run and the goroutines that wait for one.
\<close>

section \<open>Services\<close>

definition allowed_services :: "string set" where
  "allowed_services = {''proxy'', ''dns'', ''web'', ''tun'', ''n2n'', ''stunvpv''}"

record host =
  ho_table :: "string \<Rightarrow> nat option"
  ho_pids :: "string \<Rightarrow> nat option"
  ho_alive :: "nat list"
  ho_waiting :: "(string \<times> nat \<times> bool) list"
  ho_next :: nat

definition fresh_host :: host where
  "fresh_host = \<lparr>ho_table = Map.empty, ho_pids = Map.empty, ho_alive = [], ho_waiting = [], ho_next = 1\<rparr>"

datatype svc_reply = UnknownService | AlreadyRunning nat | Started nat | Stopped nat | NotRunning | KillFailed
  | BadArguments | UnknownAction

text \<open>A process is known to have ended once its \<open>Wait\<close> has returned.\<close>

definition unreaped :: "host \<Rightarrow> nat \<Rightarrow> bool" where
  "unreaped h p \<longleftrightarrow> p \<in> (fst \<circ> snd) ` set (ho_waiting h)"

text \<open>A new process; \<open>tracked\<close> tells \<open>ServiceStart\<close> from \<open>genericForwardSpawn\<close>.\<close>

definition spawn :: "bool \<Rightarrow> string \<Rightarrow> host \<Rightarrow> host" where
  "spawn tracked name h = (let p = ho_next h in h
     \<lparr>ho_table := (if tracked then (ho_table h)(name \<mapsto> p) else ho_table h), ho_pids := (ho_pids h)(name \<mapsto> p),
      ho_alive := p # ho_alive h, ho_waiting := (name, p, tracked) # ho_waiting h, ho_next := p + 1\<rparr>)"

definition service_start :: "string \<Rightarrow> host \<Rightarrow> svc_reply \<times> host" where
  "service_start name h =
     (if name \<notin> allowed_services then (UnknownService, h)
      else case ho_table h name of
        Some p \<Rightarrow> if unreaped h p then (AlreadyRunning p, h) else (Started (ho_next h), spawn True name h)
      | None \<Rightarrow> (Started (ho_next h), spawn True name h))"

definition tool_spawn :: "string \<Rightarrow> host \<Rightarrow> svc_reply \<times> host" where
  "tool_spawn name h = (Started (ho_next h), spawn False name h)"

definition delete_pid :: "string \<Rightarrow> host \<Rightarrow> host" where
  "delete_pid name h = h\<lparr>ho_pids := (ho_pids h)(name := None)\<rparr>"

text \<open>\<open>Stop\<close>: a signal reaches a process that runs or has not been waited for.\<close>

definition stop_service :: "string \<Rightarrow> host \<Rightarrow> svc_reply \<times> host" where
  "stop_service name h = (case ho_pids h name of
       None \<Rightarrow> (NotRunning, h)
     | Some p \<Rightarrow>
       if p \<in> set (ho_alive h) \<or> unreaped h p
       then (Stopped p, (delete_pid name h)\<lparr>ho_alive := filter (\<lambda>q. q \<noteq> p) (ho_alive h),
              ho_table := (ho_table h)(name := None)\<rparr>)
       else (KillFailed, delete_pid name h))"

definition service_stop :: "string \<Rightarrow> host \<Rightarrow> svc_reply \<times> host" where
  "service_stop name h = (if name \<notin> allowed_services then (UnknownService, h) else stop_service name h)"

text \<open>A process ends; the goroutine that waits for it cleans up.\<close>

definition process_exit :: "nat \<Rightarrow> host \<Rightarrow> host" where
  "process_exit p h = h\<lparr>ho_alive := filter (\<lambda>q. q \<noteq> p) (ho_alive h)\<rparr>"

definition reap :: "string \<times> nat \<times> bool \<Rightarrow> host \<Rightarrow> host" where
  "reap w h = (case w of (name, p, tracked) \<Rightarrow>
     (delete_pid name h)\<lparr>ho_waiting := removeAll w (ho_waiting h),
       ho_table := (if tracked \<and> ho_table h name = Some p then (ho_table h)(name := None) else ho_table h)\<rparr>)"

text \<open>\<open>forwardStatus\<close> reads the file with the process number and nothing else.\<close>

definition forward_status :: "string \<Rightarrow> host \<Rightarrow> svc_reply" where
  "forward_status name h = (case ho_pids h name of Some p \<Rightarrow> AlreadyRunning p | None \<Rightarrow> NotRunning)"

text \<open>The handler of a tool that starts a command, if the arguments give one.\<close>

definition start_stop_tool :: "string \<Rightarrow> string list option \<Rightarrow> string \<Rightarrow> host \<Rightarrow> svc_reply \<times> host" where
  "start_stop_tool name command action h =
     (if action = ''status'' then (forward_status name h, h)
      else if action = ''stop'' then
        (case stop_service name h of
           (Stopped p, h') \<Rightarrow> (Stopped p, h')
         | (_, h') \<Rightarrow> (NotRunning, h'))
      else if action = ''start'' then (case command of None \<Rightarrow> (BadArguments, h) | Some _ \<Rightarrow> tool_spawn name h)
      else (UnknownAction, h))"

text \<open>The command \<open>restart\<close> is a process of its own: \<open>ho_table\<close> is the table of that process.\<close>

definition restart_one :: "string \<Rightarrow> host \<Rightarrow> svc_reply \<times> host" where
  "restart_one name h = service_start name (snd (stop_service name h))"

text \<open>The services of \<open>stop all\<close>.\<close>

definition service_order :: "string list" where
  "service_order = [''proxy'', ''dns'', ''web'', ''tun'', ''n2n'', ''stunvpv'', ''wireguard'', ''frp'', ''tinc'',
     ''socat'', ''corsproxy'', ''forward'']"

definition stop_all :: "host \<Rightarrow> host" where
  "stop_all h = fold (\<lambda>n h. snd (stop_service n h)) service_order h"

text \<open>
  The program also runs as another process: its table is its own, and empty. \<open>stop\<close> there kills
  the process of the file and deletes the file; \<open>restart\<close> then starts a process that nothing
  waits for, since \<open>restart\<close> itself ends.
\<close>

definition cli_stop :: "string \<Rightarrow> host \<Rightarrow> host" where
  "cli_stop name h = (snd (stop_service name h))\<lparr>ho_table := ho_table h\<rparr>"

definition cli_restart :: "string \<Rightarrow> host \<Rightarrow> host" where
  "cli_restart name h =
     (snd (restart_one name (h\<lparr>ho_table := Map.empty, ho_waiting := []\<rparr>)))\<lparr>ho_table := ho_table h, ho_waiting := ho_waiting h\<rparr>"

text \<open>
  The names that \<open>genericForwardSpawn\<close> is called with; three of them are also services. The others
  are left to the tool \<open>service\<close> alone.
\<close>

definition spawned_names :: "string list" where
  "spawned_names = [''reverse'', ''forward-local'', ''forward-dynamic'', ''forward-udp'', ''forward-tls'', ''socat'', ''tun'',
     ''corsproxy'', ''wireguard'', ''n2n'', ''stunvpv'', ''tinc'', ''frp'', ''tproxy'', ''mitm'', ''packets'']"

definition own_services :: "string set" where
  "own_services = allowed_services - set spawned_names"

lemma own_services: "own_services = {''proxy'', ''dns'', ''web''}"
  by (auto simp: own_services_def allowed_services_def spawned_names_def)

text \<open>
  What can happen to the processes of one agent, in any order: the tool \<open>service\<close>, the tools that
  start and stop a command of their own, \<open>stop\<close> in another process, the end of a process, and the
  goroutine that waits for it. One tool call runs at a time, as the loop of the chat calls them.
\<close>

inductive svc_step :: "host \<Rightarrow> host \<Rightarrow> bool" where
  Start: "svc_step h (snd (service_start name h))"
| Stop: "svc_step h (snd (service_stop name h))"
| Tool: "name \<in> set spawned_names \<Longrightarrow> svc_step h (snd (start_stop_tool name command action h))"
| Cli_Stop: "svc_step h (cli_stop name h)"
| Exit: "svc_step h (process_exit p h)"
| Reap: "(name, p, tr) \<in> set (ho_waiting h) \<Longrightarrow> p \<notin> set (ho_alive h) \<Longrightarrow> svc_step h (reap (name, p, tr) h)"

inductive svc_reachable :: "host \<Rightarrow> bool" where
  Init: "svc_reachable fresh_host"
| Step: "svc_reachable h \<Longrightarrow> svc_step h h' \<Longrightarrow> svc_reachable h'"

text \<open>A process that runs under a name: it was started for it, and the agent waits for its end.\<close>

definition runs :: "host \<Rightarrow> string \<Rightarrow> nat \<Rightarrow> bool" where
  "runs h name p \<longleftrightarrow> p \<in> set (ho_alive h) \<and> (\<exists>(n, q, t) \<in> set (ho_waiting h). n = name \<and> q = p)"

lemma runs_iff: "runs h name p \<longleftrightarrow> p \<in> set (ho_alive h) \<and> (\<exists>t. (name, p, t) \<in> set (ho_waiting h))"
  by (auto simp: runs_def)

definition svc_inv :: "host \<Rightarrow> bool" where
  "svc_inv h \<longleftrightarrow>
     (\<forall>n p. n \<in> own_services \<longrightarrow> ho_pids h n = Some p \<longrightarrow> ho_table h n = Some p) \<and>
     (\<forall>n p. ho_table h n = Some p \<longrightarrow> (n, p, True) \<in> set (ho_waiting h)) \<and>
     (\<forall>n p t. (n, p, t) \<in> set (ho_waiting h) \<longrightarrow> p < ho_next h) \<and>
     (\<forall>n m p t u. (n, p, t) \<in> set (ho_waiting h) \<longrightarrow> (m, p, u) \<in> set (ho_waiting h) \<longrightarrow> n = m) \<and>
     (\<forall>p \<in> set (ho_alive h). \<exists>n t. (n, p, t) \<in> set (ho_waiting h)) \<and>
     (\<forall>n p. n \<in> own_services \<longrightarrow> runs h n p \<longrightarrow> ho_table h n = Some p)"

lemma svc_invD:
  assumes "svc_inv h"
  shows "n \<in> own_services \<Longrightarrow> ho_pids h n = Some p \<Longrightarrow> ho_table h n = Some p"
    and "ho_table h n = Some p \<Longrightarrow> (n, p, True) \<in> set (ho_waiting h)"
    and "(n, p, t) \<in> set (ho_waiting h) \<Longrightarrow> p < ho_next h"
    and "(n, p, t) \<in> set (ho_waiting h) \<Longrightarrow> (m, p, u) \<in> set (ho_waiting h) \<Longrightarrow> n = m"
    and "p \<in> set (ho_alive h) \<Longrightarrow> \<exists>n t. (n, p, t) \<in> set (ho_waiting h)"
    and "n \<in> own_services \<Longrightarrow> runs h n p \<Longrightarrow> ho_table h n = Some p"
  using assms unfolding svc_inv_def by blast+

lemma svc_invI:
  assumes "\<And>n p. n \<in> own_services \<Longrightarrow> ho_pids h n = Some p \<Longrightarrow> ho_table h n = Some p"
    and "\<And>n p. ho_table h n = Some p \<Longrightarrow> (n, p, True) \<in> set (ho_waiting h)"
    and "\<And>n p t. (n, p, t) \<in> set (ho_waiting h) \<Longrightarrow> p < ho_next h"
    and "\<And>n m p t u. (n, p, t) \<in> set (ho_waiting h) \<Longrightarrow> (m, p, u) \<in> set (ho_waiting h) \<Longrightarrow> n = m"
    and "\<And>p. p \<in> set (ho_alive h) \<Longrightarrow> \<exists>n t. (n, p, t) \<in> set (ho_waiting h)"
    and "\<And>n p. n \<in> own_services \<Longrightarrow> runs h n p \<Longrightarrow> ho_table h n = Some p"
  shows "svc_inv h"
  using assms unfolding svc_inv_def by blast

lemma svc_inv_spawn:
  assumes inv: "svc_inv h" and free: "tracked \<and> ho_table h name = None \<or> name \<notin> own_services"
  shows "svc_inv (spawn tracked name h)"
proof (rule svc_invI)
  let ?h = "spawn tracked name h"
  show "ho_table ?h n = Some p" if "n \<in> own_services" "ho_pids ?h n = Some p" for n p
    using that free svc_invD(1) [OF inv, of n p] by (auto simp: spawn_def Let_def split: if_splits)
  show "(n, p, True) \<in> set (ho_waiting ?h)" if "ho_table ?h n = Some p" for n p
    using that svc_invD(2) [OF inv, of n p] by (auto simp: spawn_def Let_def split: if_splits)
  show "p < ho_next ?h" if "(n, p, t) \<in> set (ho_waiting ?h)" for n p t
    using that svc_invD(3) [OF inv, of n p t] by (auto simp: spawn_def Let_def)
  show "n = m" if "(n, p, t) \<in> set (ho_waiting ?h)" "(m, p, u) \<in> set (ho_waiting ?h)" for n m p t u
    using that svc_invD(3) [OF inv, of n p t] svc_invD(3) [OF inv, of m p u] svc_invD(4) [OF inv, of n p t m u]
    by (auto simp: spawn_def Let_def)
  show "\<exists>n t. (n, p, t) \<in> set (ho_waiting ?h)" if "p \<in> set (ho_alive ?h)" for p
    using that svc_invD(5) [OF inv, of p] by (auto simp: spawn_def Let_def)
  show "ho_table ?h n = Some p" if own: "n \<in> own_services" and run: "runs ?h n p" for n p
  proof (cases "runs h n p")
    case True
    with own free svc_invD(6) [OF inv] show ?thesis by (auto simp: spawn_def Let_def)
  next
    case False
    have "p \<noteq> ho_next h \<Longrightarrow> runs h n p"
      using run by (auto simp: runs_iff spawn_def Let_def)
    with False have "p = ho_next h" by blast
    moreover from this have "n = name"
      using run svc_invD(3) [OF inv, of n p] by (auto simp: runs_iff spawn_def Let_def)
    ultimately show ?thesis using own free by (auto simp: spawn_def Let_def)
  qed
qed

lemma svc_inv_start: "svc_inv h \<Longrightarrow> svc_inv (snd (service_start name h))"
proof (cases "ho_table h name")
  case (Some p)
  assume inv: "svc_inv h"
  have "unreaped h p"
    using svc_invD(2) [OF inv Some] by (force simp: unreaped_def)
  with Some inv show ?thesis by (simp add: service_start_def)
qed (simp add: service_start_def svc_inv_spawn)

text \<open>Processes may be killed and files deleted, as long as a table entry goes with its process.\<close>

lemma svc_inv_less:
  assumes inv: "svc_inv h"
    and alive: "set (ho_alive h') \<subseteq> set (ho_alive h)" and rest: "ho_waiting h' = ho_waiting h" "ho_next h' = ho_next h"
    and pids: "\<And>n. ho_pids h' n = ho_pids h n \<or> ho_pids h' n = None"
    and table: "\<And>n. ho_table h' n = ho_table h n \<or> ho_table h' n = None \<and> ho_pids h' n = None \<and>
      (\<forall>p. ho_table h n = Some p \<longrightarrow> n \<in> own_services \<longrightarrow> p \<notin> set (ho_alive h'))"
  shows "svc_inv h'"
proof (rule svc_invI)
  show "ho_table h' n = Some p" if "n \<in> own_services" "ho_pids h' n = Some p" for n p
    using that pids [of n] table [of n] svc_invD(1) [OF inv, of n p] by auto
  show "(n, p, True) \<in> set (ho_waiting h')" if "ho_table h' n = Some p" for n p
    using that table [of n] svc_invD(2) [OF inv, of n p] rest by auto
  show "p < ho_next h'" if "(n, p, t) \<in> set (ho_waiting h')" for n p t
    using that rest svc_invD(3) [OF inv, of n p t] by simp
  show "n = m" if "(n, p, t) \<in> set (ho_waiting h')" "(m, p, u) \<in> set (ho_waiting h')" for n m p t u
    using that rest svc_invD(4) [OF inv, of n p t m u] by simp
  show "\<exists>n t. (n, p, t) \<in> set (ho_waiting h')" if "p \<in> set (ho_alive h')" for p
    using that alive rest svc_invD(5) [OF inv, of p] by auto
  show "ho_table h' n = Some p" if "n \<in> own_services" "runs h' n p" for n p
  proof -
    have "p \<in> set (ho_alive h')" and "runs h n p"
      using that(2) alive rest by (auto simp: runs_iff)
    then show ?thesis using that(1) table [of n] svc_invD(6) [OF inv, of n p] by auto
  qed
qed

lemma svc_inv_stop:
  assumes inv: "svc_inv h"
  shows "svc_inv (snd (stop_service name h))" and "svc_inv (cli_stop name h)"
proof -
  show "svc_inv (cli_stop name h)"
    by (rule svc_inv_less [OF inv]) (auto simp: cli_stop_def stop_service_def delete_pid_def split: option.split)
  show "svc_inv (snd (stop_service name h))"
  proof (cases "ho_pids h name")
    case (Some p)
    have "p' = p" if "name \<in> own_services" "ho_table h name = Some p'" for p'
      using that svc_invD(1) [OF inv _ Some] by simp
    with Some show ?thesis
      by (intro svc_inv_less [OF inv]) (auto simp: stop_service_def delete_pid_def)
  qed (simp add: stop_service_def inv)
qed

lemma svc_inv_tool:
  assumes inv: "svc_inv h" and name: "name \<in> set spawned_names"
  shows "svc_inv (snd (start_stop_tool name command action h))"
proof -
  have "svc_inv (spawn False name h)"
    using svc_inv_spawn [OF inv] name by (simp add: own_services_def)
  with svc_inv_stop(1) [OF inv, of name] inv show ?thesis
    by (auto simp: start_stop_tool_def tool_spawn_def split: option.split prod.splits svc_reply.splits)
qed

lemma svc_inv_exit: "svc_inv h \<Longrightarrow> svc_inv (process_exit p h)"
  by (erule svc_inv_less) (auto simp: process_exit_def)

lemma svc_inv_reap:
  assumes inv: "svc_inv h" and dead: "p \<notin> set (ho_alive h)" and w: "(name, p, tr) \<in> set (ho_waiting h)"
  shows "svc_inv (reap (name, p, tr) h)"
proof (rule svc_invI)
  let ?h = "reap (name, p, tr) h"
  have keep: "ho_table ?h n = Some q" if "ho_table h n = Some q" "n \<noteq> name \<or> q \<noteq> p" for n q
    using that by (auto simp: reap_def delete_pid_def)
  show "ho_table ?h n = Some q" if "n \<in> own_services" "ho_pids ?h n = Some q" for n q
    using that svc_invD(1) [OF inv, of n q] by (auto simp: reap_def delete_pid_def split: if_splits)
  show "(n, q, True) \<in> set (ho_waiting ?h)" if "ho_table ?h n = Some q" for n q
    using that svc_invD(2) [OF inv, of n q] by (auto simp: reap_def delete_pid_def split: if_splits)
  show "q < ho_next ?h" if "(n, q, t) \<in> set (ho_waiting ?h)" for n q t
    using that svc_invD(3) [OF inv, of n q t] by (auto simp: reap_def delete_pid_def)
  show "n = m" if "(n, q, t) \<in> set (ho_waiting ?h)" "(m, q, u) \<in> set (ho_waiting ?h)" for n m q t u
    using that svc_invD(4) [OF inv, of n q t m u] by (auto simp: reap_def delete_pid_def)
  have live: "q \<noteq> p" "q \<in> set (ho_alive h)" if "q \<in> set (ho_alive ?h)" for q
    using that dead by (auto simp: reap_def delete_pid_def)
  show "\<exists>n t. (n, q, t) \<in> set (ho_waiting ?h)" if "q \<in> set (ho_alive ?h)" for q
    using live [OF that] svc_invD(5) [OF inv, of q] by (auto simp: reap_def delete_pid_def)
  show "ho_table ?h n = Some q" if own: "n \<in> own_services" and run: "runs ?h n q" for n q
  proof (rule keep)
    have "q \<in> set (ho_alive ?h)" using run by (simp add: runs_iff)
    with live show "n \<noteq> name \<or> q \<noteq> p" by blast
    show "ho_table h n = Some q"
      using svc_invD(6) [OF inv own] run by (auto simp: runs_iff reap_def delete_pid_def)
  qed
qed

lemma svc_reachable_inv: "svc_reachable h \<Longrightarrow> svc_inv h"
proof (induction rule: svc_reachable.induct)
  case Init
  show ?case by (simp add: svc_inv_def fresh_host_def runs_def)
next
  case (Step h h')
  from Step.hyps(2) Step.IH show ?case
    by cases (auto intro: svc_inv_start svc_inv_exit svc_inv_reap svc_inv_stop svc_inv_tool simp: service_stop_def)
qed

text \<open>
 C28: services run once. From a host where nothing runs, let the tool \<open>service\<close>, the tools that
  start and stop commands of their own, \<open>stop\<close> in another process, the ends of processes and the
  goroutines that wait for them act in any order, one tool call at a time. Then every running
  process runs under one name; \<open>proxy\<close>, \<open>dns\<close> and \<open>web\<close>, the services that no other tool starts, never
  run twice; a start while one runs answers with its number and starts nothing; and their files name
  the process of the table.
\<close>

theorem services_run_once:
  assumes "svc_reachable h"
  shows "(\<forall>p \<in> set (ho_alive h). \<exists>!n. runs h n p) \<and>
    (\<forall>n \<in> {''proxy'', ''dns'', ''web''}.
       (\<forall>p q. runs h n p \<longrightarrow> runs h n q \<longrightarrow> p = q) \<and>
       (\<forall>p. runs h n p \<longrightarrow> service_start n h = (AlreadyRunning p, h)) \<and>
       (\<forall>p. ho_pids h n = Some p \<longrightarrow> ho_table h n = Some p))"
proof -
  have inv: "svc_inv h" using svc_reachable_inv assms .
  have again: "service_start n h = (AlreadyRunning p, h)" if "n \<in> own_services" "runs h n p" for n p
  proof -
    have "ho_table h n = Some p" by (rule svc_invD(6) [OF inv that])
    moreover have "unreaped h p" using that(2) by (force simp: runs_iff unreaped_def)
    moreover have "n \<in> allowed_services" using that(1) by (simp add: own_services_def)
    ultimately show ?thesis by (simp add: service_start_def)
  qed
  have one: "\<exists>!n. runs h n p" if "p \<in> set (ho_alive h)" for p
    using svc_invD(5) [OF inv that] svc_invD(4) [OF inv] that unfolding runs_iff by blast
  have once: "p = q" if "n \<in> own_services" "runs h n p" "runs h n q" for n p q
    using svc_invD(6) [OF inv that(1,2)] svc_invD(6) [OF inv that(1,3)] by simp
  show ?thesis
    unfolding own_services [symmetric] using one again once svc_invD(1) [OF inv] by blast
qed

text \<open>
  What that leaves out. \<open>tun\<close>, \<open>n2n\<close> and \<open>stunvpv\<close> are started under the same names by the tool
  \<open>service\<close> and by tools of their own, which do not look at the table; and a service that
  \<open>restart\<close> started in another process is not in the table of the agent, whose old goroutine
  deletes its file.
\<close>

lemma shared_names_run_twice:
  assumes "name \<in> {''tun'', ''n2n'', ''stunvpv''}"
  shows "let h = snd (start_stop_tool name (Some command) ''start'' (snd (service_start name fresh_host)))
    in svc_reachable h \<and> runs h name 1 \<and> runs h name 2 \<and> fst (stop_service name h) = Stopped 2"
proof -
  have start: "service_start name fresh_host = (Started 1, spawn True name fresh_host)"
    using assms by (auto simp: service_start_def allowed_services_def fresh_host_def)
  have "name \<in> set spawned_names"
    using assms by (auto simp: spawned_names_def)
  from Step [OF Step [OF Init svc_step.Start] svc_step.Tool [OF this, of _ "Some command" "''start''"], of name] show ?thesis
    by (simp add: start start_stop_tool_def tool_spawn_def) (simp add: spawn_def fresh_host_def runs_def stop_service_def Let_def)
qed

lemma restarted_runs_twice:
  assumes "name \<in> allowed_services"
  shows "let h1 = cli_restart name (snd (service_start name fresh_host)); h2 = reap (name, 1, True) h1
    in set (ho_alive h2) = {2} \<and> ho_pids h2 name = None \<and> set (ho_alive (snd (service_start name h2))) = {2, 3}"
  using assms by (auto simp: cli_restart_def restart_one_def service_start_def stop_service_def reap_def spawn_def
    delete_pid_def fresh_host_def unreaped_def Let_def)

definition after_restart :: "string \<Rightarrow> host \<Rightarrow> host" where
  "after_restart name h =
     (let h1 = snd (service_start name h); h2 = snd (service_start name (snd (service_stop name h1)))
      in reap (name, ho_next h, True) h2)"

text \<open>
 C29: a restart loses the service. When a service is stopped and started again before the
  goroutine of the first process has run, that goroutine deletes the file of the second: the
  service runs, \<open>stop\<close> answers that it does not, and \<open>start\<close> that it does.
\<close>

theorem restart_loses_service:
  assumes "svc_reachable h" and "name \<in> allowed_services" and "ho_table h name = None"
  shows "svc_reachable (after_restart name h) \<and> ho_next h + 1 \<in> set (ho_alive (after_restart name h)) \<and>
    fst (service_stop name (after_restart name h)) = NotRunning \<and>
    fst (service_start name (after_restart name h)) = AlreadyRunning (ho_next h + 1)"
proof -
  let ?p = "ho_next h" and ?h1 = "snd (service_start name h)"
  let ?s = "snd (stop_service name ?h1)" and ?h2 = "snd (restart_one name ?h1)"
  have stop: "service_stop name ?h1 = stop_service name ?h1"
    using assms(2) by (simp add: service_stop_def)
  have inv: "svc_inv h" using svc_reachable_inv assms(1) .
  have h1: "?h1 = spawn True name h"
    using assms(2,3) by (simp add: service_start_def)
  have s: "?s = (delete_pid name ?h1)\<lparr>ho_alive := filter (\<lambda>q. q \<noteq> ?p) (ho_alive ?h1), ho_table := (ho_table ?h1)(name := None)\<rparr>"
    unfolding h1 by (simp add: stop_service_def spawn_def Let_def)
  have "ho_table ?s name = None" unfolding s by simp
  then have h2: "?h2 = spawn True name ?s"
    unfolding restart_one_def service_start_def [of name ?s] using assms(2) by simp
  have reach1: "svc_reachable ?h1"
    using Step [OF assms(1) svc_step.Start] .
  have "svc_step ?h1 ?s"
    using svc_step.Stop [of ?h1 name] assms(2) by (simp add: service_stop_def)
  then have reach2: "svc_reachable ?h2"
    unfolding restart_one_def using Step [OF Step [OF reach1] svc_step.Start] by blast
  have "\<not> unreaped h ?p" "?p \<notin> set (ho_alive h)"
    using svc_invD(3,5) [OF inv] by (fastforce simp: unreaped_def)+
  moreover have w2: "ho_waiting ?h2 = (name, ?p + 1, True) # (name, ?p, True) # ho_waiting h"
    "ho_alive ?h2 = (?p + 1) # filter (\<lambda>q. q \<noteq> ?p) (?p # ho_alive h)" "ho_table ?h2 name = Some (?p + 1)"
    unfolding h2 unfolding s unfolding h1 by (simp_all add: spawn_def Let_def delete_pid_def)
  ultimately have "svc_step ?h2 (after_restart name h)"
    unfolding after_restart_def Let_def stop restart_one_def [symmetric] by (intro svc_step.Reap) auto
  then have "svc_reachable (after_restart name h)"
    by (rule Step [OF reach2])
  moreover have "ho_pids (after_restart name h) name = None" "ho_table (after_restart name h) name = Some (?p + 1)"
    "?p + 1 \<in> set (ho_alive (after_restart name h))" "unreaped (after_restart name h) (?p + 1)"
    using w2 by (auto simp: after_restart_def Let_def stop restart_one_def [symmetric] reap_def delete_pid_def unreaped_def)
  ultimately show ?thesis
    using assms(2) by (simp add: service_stop_def stop_service_def service_start_def)
qed

text \<open>
  A tunnel that is started twice: the second process takes the file of the first, which no tool
  can stop any more.
\<close>

lemma second_start_orphans:
  assumes "ho_next h = p"
    and "snd (start_stop_tool name (Some cmd) ''start'' h) = h1"
    and "snd (start_stop_tool name (Some cmd) ''start'' h1) = h2"
  shows "fst (start_stop_tool name c ''stop'' h2) = Stopped (p + 1) \<and>
    (let h3 = snd (start_stop_tool name c ''stop'' h2) in
       p \<in> set (ho_alive h3) \<and> fst (start_stop_tool name c ''stop'' h3) = NotRunning \<and> forward_status name h3 = NotRunning)"
  using assms by (auto simp: start_stop_tool_def tool_spawn_def spawn_def stop_service_def delete_pid_def
    forward_status_def Let_def)

text \<open>Services that \<open>ServiceStart\<close> does not know are stopped by \<open>restart\<close>, and stay stopped.\<close>

lemma restart_only_stops:
  "name \<in> set service_order \<Longrightarrow> name \<notin> allowed_services \<Longrightarrow> restart_one name h = (UnknownService, snd (stop_service name h))"
  by (simp add: restart_one_def service_start_def)

lemma restart_only_stops_example: "''wireguard'' \<in> set service_order - allowed_services"
  by (simp add: service_order_def allowed_services_def)

section \<open>Command lines\<close>

text \<open>The flags of the commands, and whether each takes a value.\<close>

definition global_flags :: "(string \<times> bool) list" where
  "global_flags = [(''--config'', True), (''-c'', True)]"

text \<open>The flags of the commands that have many.\<close>

definition ping_flags :: "(string \<times> bool) list" where
  "ping_flags = [(''--icmp'', False), (''-1'', False), (''--tcp'', False), (''-S'', False), (''--udp'', False), (''-2'', False),
     (''--count'', True), (''--interval'', True), (''-i'', True), (''--data-size'', True), (''-d'', True), (''--port'', True),
     (''-p'', True), (''--interface'', True), (''-I'', True), (''--verbose'', False), (''-V'', False), (''--flood'', False),
     (''--spoof'', True), (''-a'', True), (''--traceroute'', False), (''--hops'', True), (''--timeout'', True), (''-W'', True)]"

definition tinc_flags :: "(string \<times> bool) list" where
  "tinc_flags = [(''--private'', True), (''--name'', True), (''--ca'', True), (''--listen'', True), (''--endpoint'', True),
     (''--vip'', True), (''--keepalive'', True)]"

definition socat_flags :: "(string \<times> bool) list" where
  "socat_flags = [(''--timeout'', True), (''-W'', True), (''--verbose'', False), (''-v'', False), (''--quiet'', False), (''-q'', False)]"

definition scp_flags :: "(string \<times> bool) list" where
  "scp_flags = [(''--action'', True), (''--alias'', True), (''--host'', True), (''--port'', True), (''--user'', True), (''--password'', True),
     (''--key-path'', True), (''--src'', True), (''--dst'', True)]"

definition run_flags :: "(string \<times> bool) list" where
  "run_flags = [(''--alias'', True), (''--host'', True), (''--port'', True), (''--user'', True), (''--password'', True),
     (''--key-path'', True), (''--cmd'', True)]"

definition netdiag_flags :: "(string \<times> bool) list" where
  "netdiag_flags = [(''--proto'', True), (''--port'', True), (''--pid'', True), (''--state'', True), (''--src'', True),
     (''--dst'', True), (''--count'', True), (''--timeout'', True)]"

definition logs_flags :: "(string \<times> bool) list" where
  "logs_flags = [(''--tail'', True), (''--level'', True), (''--follow'', False), (''-f'', False), (''--path'', True)]"

definition cli :: "(string list \<times> (string \<times> bool) list) list" where
  "cli = [([''init''], [(''--agent-config'', True)]), ([''start''], [(''--proxy'', True)]), ([''status''], []),
     ([''ping''], ping_flags),
     ([''use''], []), ([''forward''], [(''--proxy'', True)]), ([''sysproxy''], [(''--no-proxy'', True)]),
     ([''tui''], [(''--agent-config'', True), (''--continue'', True)]), ([''proxy''], []), ([''dns''], []), ([''web''], []), ([''tun''], []),
     ([''n2n''], [(''--no-tun'', False)]), ([''stunvpv''], [(''--no-tun'', False)]), ([''replay''], [(''--file'', True), (''-f'', True)]),
     ([''wireguard''], [(''--no-tun'', False)]), ([''frp'', ''server''], [(''--secret'', True), (''--target'', True)]),
     ([''frp'', ''client''], [(''--server'', True), (''--secret'', True)]),
     ([''tinc''], tinc_flags),
     ([''socat''], socat_flags),
     ([''corsproxy''], [(''--port'', True)]),
     ([''scp''], scp_flags),
     ([''run''], run_flags),
     ([''netdiag''], netdiag_flags),
     ([''logs''], logs_flags),
     ([''validate''], [(''--json'', False)]), ([''stop''], []), ([''restart''], [])]"

lemmas cli_defs = cli_def ping_flags_def tinc_flags_def socat_flags_def scp_flags_def run_flags_def netdiag_flags_def logs_flags_def

text \<open>The flag parser: an unknown flag or a flag without its value is an error. Values after an
  equals sign and clustered short flags, which no tool writes, are left out.\<close>

fun flags_ok :: "(string \<times> bool) list \<Rightarrow> string list \<Rightarrow> bool" where
  "flags_ok fl [] = True"
| "flags_ok fl (w # ws) =
     (if has_prefix w ''-'' then
        (case map_of (fl @ global_flags) w of
           None \<Rightarrow> False
         | Some takes \<Rightarrow> if takes then (case ws of [] \<Rightarrow> False | _ # r \<Rightarrow> flags_ok fl r) else flags_ok fl ws)
      else flags_ok fl ws)"

definition cli_accepts :: "string list \<Rightarrow> bool" where
  "cli_accepts ws \<longleftrightarrow> (\<exists>(path, fl) \<in> set cli. take (length path) ws = path \<and> flags_ok fl (drop (length path) ws))"

text \<open>What the tools start for the action \<open>start\<close>; None is an answer without a process.\<close>

definition opt :: "string \<Rightarrow> string \<Rightarrow> string list" where
  "opt flag v = (if v = [] then [] else [flag, v])"

definition opt_int :: "string \<Rightarrow> int \<Rightarrow> string list" where
  "opt_int flag n = (if 0 < n then [flag, itoa_int n] else [])"

text \<open>\<open>%v\<close> on the items, of which the tools expect strings.\<close>

definition args_slice :: "args \<Rightarrow> string \<Rightarrow> string list" where
  "args_slice m k = strings_of (arg m k)"

definition no_tun :: "string \<Rightarrow> args \<Rightarrow> string list" where
  "no_tun name m = (if get_bool m ''no-tun'' then [name, ''--no-tun''] else [name])"

definition tinc_command :: "args \<Rightarrow> string list" where
  "tinc_command m = [''tinc''] @ opt ''--private'' (get_string m ''private'') @ opt ''--name'' (get_string m ''name'') @
     opt ''--ca'' (get_string m ''ca'') @ opt ''--listen'' (get_string m ''listen'') @
     concat (map (\<lambda>e. [''--endpoint'', e]) (args_slice m ''endpoints'')) @
     opt ''--vip'' (get_string m ''vip'') @ opt_int ''--keepalive'' (to_int (arg m ''keepalive''))"

definition frp_command :: "args \<Rightarrow> string list option" where
  "frp_command m =
     (let role = get_string m ''role'';
          rest = opt ''--secret'' (get_string m ''secret'') @ opt ''--target'' (get_string m ''target'') @
            (if role = ''client'' then opt ''--server'' (get_string m ''server'') else [])
      in if role = [] then None
         else if role = ''server'' then
           Some ([''frp'', ''server''] @ (if 0 < to_int (arg m ''port'') then [itoa_int (to_int (arg m ''port''))] else []) @ rest)
         else if get_string m ''server'' = [] then None
         else Some ([''frp'', ''client'', itoa_int (to_int (arg m ''local'')), itoa_int (to_int (arg m ''remote''))] @ rest))"

definition run_command :: "args \<Rightarrow> string list option" where
  "run_command m =
     (if get_string m ''cmd'' = [] then None
      else Some ([''run'', ''--mode'', get_string m ''mode'', ''--cmd'', get_string m ''cmd''] @ opt ''--alias'' (get_string m ''alias'') @
        opt ''--host'' (get_string m ''host'') @ opt_int ''--port'' (to_int (arg m ''port'')) @ opt ''--user'' (get_string m ''user'') @
        opt ''--password'' (get_string m ''password'') @ opt ''--key-path'' (get_string m ''key-path'')))"

definition ping_command :: "args \<Rightarrow> string list option" where
  "ping_command m =
     (let mode = or_str (get_string m ''mode'') ''icmp'' in
      if get_string m ''host'' = [] then None
      else Some ([''ping''] @ (if mode = ''tcp'' then [''-S''] else if mode = ''udp'' then [''-2''] else []) @
        opt_int ''-p'' (to_int (arg m ''port'')) @ opt_int ''--count'' (to_int (arg m ''count'')) @
        (if get_bool m ''traceroute'' then ''--traceroute'' # opt_int ''--hops'' (to_int (arg m ''hops'')) else []) @
        [get_string m ''host'']))"

definition conns_command :: "string \<Rightarrow> args \<Rightarrow> string list" where
  "conns_command what m = [''netdiag'', what] @ opt ''--proto'' (get_string m ''proto'') @ opt_int ''--port'' (to_int (arg m ''port'')) @
     opt_int ''--pid'' (to_int (arg m ''pid'')) @ opt ''--state'' (get_string m ''state'') @ opt ''--src'' (get_string m ''src'') @
     opt ''--dst'' (get_string m ''dst'')"

definition packets_command :: "args \<Rightarrow> string list" where
  "packets_command m = [''netdiag'', ''packets'', ''--proto'', or_str (get_string m ''proto'') ''all'', ''--count'',
     itoa_int (or_int (to_int (arg m ''count'')) 50), ''--timeout'', itoa_int (or_int (to_int (arg m ''timeout'')) 10)] @
     opt_int ''--port'' (to_int (arg m ''port''))"

definition sysproxy_command :: "args \<Rightarrow> string list" where
  "sysproxy_command m = [''sysproxy'', get_string m ''action''] @
     (if get_string m ''proxyAddr'' \<noteq> [] then [get_string m ''proxyAddr''] else []) @ opt ''--no-proxy'' (get_string m ''no-proxy'')"

text \<open>The tools that \<open>registerStartStopTool\<close> makes, with the command that each starts.\<close>

definition start_stop_tools :: "(string \<times> string \<times> bool) list" where
  "start_stop_tools = [(''forward_local'', ''forward-local'', True), (''forward_dynamic'', ''forward-dynamic'', True),
     (''forward_udp'', ''forward-udp'', True), (''forward_tls'', ''forward-tls'', True), (''socat'', ''socat'', True), (''tun'', ''tun'', False)]"

definition start_command :: "string \<Rightarrow> args \<Rightarrow> string list option" where
  "start_command tool m = (case map_of start_stop_tools tool of
       Some (svc, positional) \<Rightarrow> Some (svc # (if positional then args_slice m ''args'' else []))
     | None \<Rightarrow>
       if tool \<in> {''wireguard'', ''n2n'', ''stunvpv''} then Some (no_tun tool m)
       else if tool = ''tinc'' then Some (tinc_command m)
       else if tool = ''frp'' then frp_command m
       else if tool = ''run'' then run_command m
       else if tool = ''net_ping'' then ping_command m
       else if tool = ''net_connections'' then Some (conns_command ''conns'' m)
       else if tool = ''net_listeners'' then Some (conns_command ''listeners'' m)
       else if tool = ''net_packets'' then Some (packets_command m)
       else if tool = ''sysproxy'' then Some (sysproxy_command m)
       else if tool = ''corsproxy'' then
         (if to_int (arg m ''port'') = 0 then None else Some [''corsproxy'', ''--port'', itoa_int (to_int (arg m ''port''))])
       else if tool = ''forward_reverse'' then
         (if get_string m ''listen'' = [] \<or> get_string m ''target'' = [] then None
          else Some [''forward'', ''reverse'', get_string m ''listen'', get_string m ''target''])
       else None)"

text \<open>The configurations that \<open>tproxy\<close> and \<open>mitm\<close> wrote are given to \<open>proxy\<close>.\<close>

definition config_command :: "string \<Rightarrow> string list" where
  "config_command path = [''proxy'', ''--config'', path]"

section \<open>Which tools can work\<close>

definition plain :: "string \<Rightarrow> bool" where
  "plain w \<longleftrightarrow> \<not> has_prefix w ''-''"

lemma flags_ok_plain [simp]: "plain w \<Longrightarrow> flags_ok fl (w # ws) = flags_ok fl ws"
  by (simp add: plain_def)

lemma flags_ok_value:
  "has_prefix f ''-'' \<Longrightarrow> map_of (fl @ global_flags) f = Some True \<Longrightarrow> flags_ok fl (f # v # ws) = flags_ok fl ws"
  by simp

lemma flags_ok_opt:
  "has_prefix f ''-'' \<Longrightarrow> map_of (fl @ global_flags) f = Some True \<Longrightarrow> flags_ok fl (opt f v @ ws) = flags_ok fl ws"
  by (simp add: opt_def)

lemma flags_ok_opt_int:
  "has_prefix f ''-'' \<Longrightarrow> map_of (fl @ global_flags) f = Some True \<Longrightarrow> flags_ok fl (opt_int f n @ ws) = flags_ok fl ws"
  by (simp add: opt_int_def)

lemma flags_ok_each:
  "has_prefix f ''-'' \<Longrightarrow> map_of (fl @ global_flags) f = Some True \<Longrightarrow>
   flags_ok fl (concat (map (\<lambda>e. [f, e]) es) @ ws) = flags_ok fl ws"
  by (induction es) simp_all

lemmas flag_rules = flags_ok_value flags_ok_opt flags_ok_opt_int flags_ok_each

text \<open>The commands that have a path.\<close>

lemma cli_at:
  "(path, fl) \<in> set cli \<Longrightarrow> flags_ok fl ws \<Longrightarrow> cli_accepts (path @ ws)"
  unfolding cli_accepts_def by (rule bexI [of _ "(path, fl)"]) simp_all

lemma unknown_command:
  assumes "w \<notin> (hd \<circ> fst) ` set cli"
  shows "\<not> cli_accepts (w # ws)"
proof
  assume "cli_accepts (w # ws)"
  then obtain path fl where "(path, fl) \<in> set cli" and "take (length path) (w # ws) = path"
    by (auto simp: cli_accepts_def)
  moreover from this have "path \<noteq> []" by (auto simp: cli_defs)
  ultimately have "hd path = w" by (cases path) auto
  with \<open>(path, fl) \<in> set cli\<close> assms show False by force
qed

lemma start_command_at:
  "start_command ''forward_local'' m = Some (''forward-local'' # args_slice m ''args'')"
  "start_command ''forward_dynamic'' m = Some (''forward-dynamic'' # args_slice m ''args'')"
  "start_command ''forward_udp'' m = Some (''forward-udp'' # args_slice m ''args'')"
  "start_command ''forward_tls'' m = Some (''forward-tls'' # args_slice m ''args'')"
  "start_command ''tun'' m = Some [''tun'']"
  "start_command ''wireguard'' m = Some (no_tun ''wireguard'' m)"
  "start_command ''n2n'' m = Some (no_tun ''n2n'' m)"
  "start_command ''stunvpv'' m = Some (no_tun ''stunvpv'' m)"
  "start_command ''tinc'' m = Some (tinc_command m)"
  "start_command ''run'' m = run_command m"
  "start_command ''net_packets'' m = Some (packets_command m)"
  "start_command ''corsproxy'' m =
    (if to_int (arg m ''port'') = 0 then None else Some [''corsproxy'', ''--port'', itoa_int (to_int (arg m ''port''))])"
  by (simp_all add: start_command_def start_stop_tools_def)

lemma dead_forwards:
  "\<not> cli_accepts (''forward-local'' # ws)" "\<not> cli_accepts (''forward-dynamic'' # ws)"
  "\<not> cli_accepts (''forward-udp'' # ws)" "\<not> cli_accepts (''forward-tls'' # ws)"
proof -
  have "list_all (\<lambda>w. w \<notin> set (map (hd \<circ> fst) cli)) [''forward-local'', ''forward-dynamic'', ''forward-udp'', ''forward-tls'']"
    by code_simp
  then show "\<not> cli_accepts (''forward-local'' # ws)" "\<not> cli_accepts (''forward-dynamic'' # ws)"
    "\<not> cli_accepts (''forward-udp'' # ws)" "\<not> cli_accepts (''forward-tls'' # ws)"
    by (simp_all add: unknown_command)
qed

lemma run_entry:
  "(path, fl) \<in> set cli \<Longrightarrow> take (length path) (''run'' # ws) = path \<Longrightarrow>
   path = [''run''] \<and> map_of (fl @ global_flags) ''--mode'' = None"
  by (auto simp: cli_defs global_flags_def)


lemma dead_run:
  assumes "run_command m = Some ws"
  shows "\<not> cli_accepts ws"
proof -
  obtain rest where ws: "ws = ''run'' # ''--mode'' # rest"
    using assms by (auto simp: run_command_def split: if_splits)
  show ?thesis
  proof
    assume "cli_accepts ws"
    then obtain path fl where "(path, fl) \<in> set cli" "take (length path) ws = path" "flags_ok fl (drop (length path) ws)"
      by (auto simp: cli_accepts_def)
    moreover from this have "path = [''run'']" "map_of (fl @ global_flags) ''--mode'' = None"
      using run_entry [of path fl "''--mode'' # rest"] by (auto simp: ws)
    ultimately show False by (simp add: ws has_prefix_def del: map_of_append)
  qed
qed

lemma live_tunnels:
  "cli_accepts [''tun'']"
  "cli_accepts (no_tun ''wireguard'' m)" "cli_accepts (no_tun ''n2n'' m)" "cli_accepts (no_tun ''stunvpv'' m)"
proof -
  show "cli_accepts [''tun'']"
    using cli_at [of "[''tun'']" "[]" "[]"] by (simp add: cli_defs)
  have "flags_ok [(''--no-tun'', False)] [''--no-tun'']" by (simp add: has_prefix_def)
  then have "cli_accepts (no_tun name m)" if "([name], [(''--no-tun'', False)]) \<in> set cli" for name
    using cli_at [OF that, of "[''--no-tun'']"] cli_at [OF that, of "[]"] by (simp add: no_tun_def)
  then show "cli_accepts (no_tun ''wireguard'' m)" "cli_accepts (no_tun ''n2n'' m)" "cli_accepts (no_tun ''stunvpv'' m)"
    by (simp_all add: cli_defs)
qed

lemma live_tinc: "cli_accepts (tinc_command m)"
proof -
  let ?fl = "[(''--private'', True), (''--name'', True), (''--ca'', True), (''--listen'', True), (''--endpoint'', True),
       (''--vip'', True), (''--keepalive'', True)]"
  have keep: "flags_ok ?fl (opt_int ''--keepalive'' n)" for n
    using flags_ok_opt_int [of "''--keepalive''" ?fl n "[]"] by (simp add: has_prefix_def)
  have "([''tinc''], ?fl) \<in> set cli" by (simp add: cli_defs)
  from cli_at [OF this, of "drop 1 (tinc_command m)"] show ?thesis
    by (simp add: tinc_command_def flag_rules has_prefix_def keep)
qed

lemma live_packets: "cli_accepts (packets_command m)"
proof -
  let ?fl = "[(''--proto'', True), (''--port'', True), (''--pid'', True), (''--state'', True), (''--src'', True),
       (''--dst'', True), (''--count'', True), (''--timeout'', True)]"
  have port: "flags_ok ?fl (opt_int ''--port'' n)" for n
    using flags_ok_opt_int [of "''--port''" ?fl n "[]"] by (simp add: has_prefix_def)
  have "([''netdiag''], ?fl) \<in> set cli" by (simp add: cli_defs)
  from cli_at [OF this, of "drop 1 (packets_command m)"] show ?thesis
    by (simp add: packets_command_def has_prefix_def port)
qed

lemma live_cors: "cli_accepts [''corsproxy'', ''--port'', n]"
  using cli_at [of "[''corsproxy'']" "[(''--port'', True)]" "[''--port'', n]"] by (simp add: cli_defs has_prefix_def)

text \<open>
 C30: five tools of the agent can never work. Whatever the arguments, \<open>forward_local\<close>,
  \<open>forward_dynamic\<close>, \<open>forward_udp\<close> and \<open>forward_tls\<close> start the program with a command that
  it does not have, and \<open>run\<close> with a flag that \<open>run\<close> does not have; each reports that the
  service was started. The tunnels start with command lines that the program accepts.
\<close>

theorem tools_against_cli:
  assumes "start_command tool m = Some ws"
  shows "(tool \<in> {''forward_local'', ''forward_dynamic'', ''forward_udp'', ''forward_tls'', ''run''} \<longrightarrow> \<not> cli_accepts ws) \<and>
    (tool \<in> {''wireguard'', ''n2n'', ''stunvpv'', ''tun'', ''tinc'', ''net_packets'', ''corsproxy''} \<longrightarrow> cli_accepts ws)"
proof (intro conjI impI)
  assume "tool \<in> {''forward_local'', ''forward_dynamic'', ''forward_udp'', ''forward_tls'', ''run''}"
  then show "\<not> cli_accepts ws"
    using assms dead_run by (elim insertE emptyE) (auto simp: start_command_at dead_forwards)
next
  assume "tool \<in> {''wireguard'', ''n2n'', ''stunvpv'', ''tun'', ''tinc'', ''net_packets'', ''corsproxy''}"
  then show "cli_accepts ws"
    using assms by (elim insertE emptyE)
      (auto simp: start_command_at live_tunnels live_tinc live_packets live_cors split: if_splits)
qed

section \<open>Examples\<close>

text \<open>The client of \<open>frp\<close> is given the flag of the server.\<close>

lemma frp_client_target:
  "\<not> cli_accepts [''frp'', ''client'', ''8080'', ''80'', ''--target'', ''127.0.0.1'', ''--server'', ''frps:7000'']"
  "cli_accepts [''frp'', ''client'', ''8080'', ''80'', ''--server'', ''frps:7000'']"
  by code_simp+

theorem tools_against_cli_witness:
  "\<not> cli_accepts [''forward-local'', '':8080'', ''example.com:80''] \<and> cli_accepts [''n2n'', ''--no-tun'']"
proof
  have "start_command ''forward_local'' [(''args'', JArr [JStr '':8080'', JStr ''example.com:80''])] =
      Some [''forward-local'', '':8080'', ''example.com:80'']"
    by (simp add: start_command_at args_slice_def strings_of_def arg_def List.map_filter_simps)
  from conjunct1 [OF tools_against_cli [OF this]] show "\<not> cli_accepts [''forward-local'', '':8080'', ''example.com:80'']"
    by (rule mp) simp
  have "start_command ''n2n'' [(''no-tun'', JBool True)] = Some [''n2n'', ''--no-tun'']"
    by (simp add: start_command_at no_tun_def get_bool_def arg_def)
  from conjunct2 [OF tools_against_cli [OF this]] show "cli_accepts [''n2n'', ''--no-tun'']"
    by (rule mp) simp
qed

theorem services_run_once_witness:
  "service_start ''dns'' (snd (service_start ''dns'' fresh_host)) = (AlreadyRunning 1, snd (service_start ''dns'' fresh_host))"
proof -
  have "svc_reachable (snd (service_start ''dns'' fresh_host))"
    by (rule svc_reachable.Step [OF svc_reachable.Init svc_step.Start])
  moreover have "runs (snd (service_start ''dns'' fresh_host)) ''dns'' 1"
    by (simp add: service_start_def allowed_services_def fresh_host_def spawn_def Let_def runs_def)
  ultimately show ?thesis using services_run_once by blast
qed

theorem restart_loses_service_witness:
  "svc_reachable (after_restart ''dns'' fresh_host) \<and> 2 \<in> set (ho_alive (after_restart ''dns'' fresh_host)) \<and>
   fst (service_stop ''dns'' (after_restart ''dns'' fresh_host)) = NotRunning"
proof -
  have "''dns'' \<in> allowed_services" "ho_table fresh_host ''dns'' = None" "ho_next fresh_host + 1 = 2"
    by (simp_all add: allowed_services_def fresh_host_def)
  with restart_loses_service [OF svc_reachable.Init, of "''dns''"] show ?thesis by metis
qed

end
