(* ===== verification/Shortcuts.thy ===== *)
theory Shortcuts
  imports Agent_Line Agent_Tools Services
begin

text \<open>
  Commands of the terminal interface that run a subcommand of the program, or a tool (\<open>agent/tui.go\<close>, \<open>agent/tui_cmds.go\<close>): the
  table of shortcuts, the command line of each, and the arguments of the tools behind \<open>/add-proxy\<close>, \<open>/add-rule\<close>,
  \<open>/session-export\<close> and \<open>/session-import\<close>. A command line is without the name of the program.
\<close>

section \<open>Subcommands\<close>

text \<open>The name and whether it is run without the configuration of the interface.\<close>

definition cli_subcommands :: "(string \<times> bool) list" where
  "cli_subcommands =
     [(''/init'', True), (''/status'', True), (''/ping'', True), (''/use'', True), (''/sysproxy'', False), (''/start'', False),
      (''/proxy'', False), (''/dns'', False), (''/web'', False), (''/tun'', False), (''/n2n'', False), (''/stunvpv'', False),
      (''/wireguard'', False), (''/frp'', False), (''/tinc'', False), (''/socat'', False), (''/corsproxy'', False),
      (''/forward'', False), (''/scp'', True), (''/run'', True), (''/netdiag'', True), (''/logs'', True), (''/validate'', True),
      (''/stop'', False), (''/restart'', False)]"

definition run_cli :: "string \<Rightarrow> string \<Rightarrow> string \<Rightarrow> bool \<Rightarrow> string list" where
  "run_cli cfg_path sub line_args no_cfg =
     sub # (if \<not> no_cfg \<and> cfg_path \<noteq> [] then [''-c'', cfg_path] else []) @ (if line_args \<noteq> [] then str_fields line_args else [])"

datatype dispatched = EmptyLine | NoShortcut | Hint string | RunCli "string list"

definition split_command :: "string \<Rightarrow> string \<times> string" where
  "split_command t =
     (to_lower (takeWhile (\<lambda>c. c \<noteq> CHR '' '') t), trim_space (drop 1 (dropWhile (\<lambda>c. c \<noteq> CHR '' '') t)))"

definition dispatch_shortcut :: "string \<Rightarrow> string \<Rightarrow> dispatched" where
  "dispatch_shortcut cfg_path line =
     (let t = trim_space line in
      if t = [] then EmptyLine
      else let (cmd, ag) = split_command t in
        case find (\<lambda>(n, x). to_lower n = cmd) cli_subcommands of
          None \<Rightarrow> NoShortcut
        | Some (n, no_cfg) \<Rightarrow> if ag = [] then Hint n else RunCli (run_cli cfg_path (tl cmd) ag no_cfg))"

section \<open>Tools\<close>

definition proxy_option :: "string \<Rightarrow> args" where
  "proxy_option kv =
     (let (k, v, found) = cut kv ''=''; k = trim_space k; v = trim_space v in
      if k = ''cipher'' \<or> k = ''password'' \<or> k = ''uuid'' \<or> k = ''sni'' then [(k, JStr v)]
      else if k = ''port'' \<or> k = ''alterId'' then [(k, JNum (of_int (atoi_value v)))]
      else [])"

datatype proxy_line = ProxyUsage | ProxyPort string | ProxyArgs args

definition add_proxy_cmd :: "string \<Rightarrow> proxy_line" where
  "add_proxy_cmd line = (case str_fields (trim_space line) of
       name # typ # server # port # opts \<Rightarrow>
         (case atoi port of
            None \<Rightarrow> ProxyPort port
          | Some p \<Rightarrow> ProxyArgs ([(''name'', JStr name), (''type'', JStr typ), (''server'', JStr server), (''port'', JNum (of_int p))] @
              concat (map proxy_option opts)))
     | _ \<Rightarrow> ProxyUsage)"

definition add_rule_cmd :: "string \<Rightarrow> args option" where
  "add_rule_cmd line = (let r = trim_space line in if r = [] then None else Some [(''rule'', JStr r)])"

text \<open>The session and the destination.\<close>

definition export_cmd :: "string \<Rightarrow> string \<Rightarrow> args option" where
  "export_cmd current line = (case str_fields (trim_space line) of
       [] \<Rightarrow> None
     | [d] \<Rightarrow> Some [(''idOrName'', JStr current), (''dst'', JStr d)]
     | w # d # ds \<Rightarrow> Some [(''idOrName'', JStr w), (''dst'', JStr (join_with '' '' (d # ds)))])"

definition import_cmd :: "string \<Rightarrow> args option" where
  "import_cmd line = (let s = trim_space line in if s = [] then None else Some [(''src'', JStr s)])"

section \<open>Completion backwards\<close>

definition complete_tab_rev :: "editor \<Rightarrow> editor" where
  "complete_tab_rev ed = (case ed_buf ed of
       [] \<Rightarrow> ed
     | b # bs \<Rightarrow>
       if b \<noteq> 0x2F then ed
       else
         let rest = string_of_bytes bs;
             (word, tail) = (case index_byte rest CHR '' '' of
                None \<Rightarrow> (rest, rest) | Some i \<Rightarrow> (take i rest, drop (i + 1) rest));
             cands = complete_slash word
         in case cands of
              [] \<Rightarrow> ed
            | [c] \<Rightarrow> set_buf (''/'' @ c @ '' '' @ tail) ed
            | c # _ \<Rightarrow>
              let k = (if word = [] then length cands - 1 else (ed_tab ed + (length cands - 1)) mod length cands)
              in set_buf (''/'' @ cands ! k @ '' '' @ (if word = [] then [] else tail)) (ed\<lparr>ed_tab := k\<rparr>))"

section \<open>Facts\<close>

lemma shortcut_names: "list_all (\<lambda>(n, x). to_lower n = n \<and> n \<noteq> [] \<and> hd n = CHR ''/'' \<and> CHR '' '' \<notin> set n) cli_subcommands"
  by code_simp

lemma shortcut_distinct: "distinct (map fst cli_subcommands)"
  by code_simp

text \<open> Every shortcut is a command.\<close>

lemma shortcuts_are_commands: "\<forall>(n, x) \<in> set cli_subcommands. \<exists>(path, fl) \<in> set cli. hd path = tl n"
proof -
  have "list_all (\<lambda>(n, x). list_ex (\<lambda>(path, fl). hd path = tl n) cli) cli_subcommands" by code_simp
  then show ?thesis by (fastforce simp: list_all_iff list_ex_iff)
qed

lemma find_shortcut: "(n, x) \<in> set cli_subcommands \<Longrightarrow> find (\<lambda>(m, y). to_lower m = n) cli_subcommands = Some (n, x)"
proof -
  assume m: "(n, x) \<in> set cli_subcommands"
  have low: "list_all (\<lambda>(m, y). to_lower m = m) cli_subcommands"
    using shortcut_names by (auto simp: list_all_iff)
  have "distinct (map fst xs) \<Longrightarrow> list_all (\<lambda>(m, y). to_lower m = m) xs \<Longrightarrow> (n, x) \<in> set xs \<Longrightarrow>
      find (\<lambda>(m, y). to_lower m = n) xs = Some (n, x)" for xs :: "(string \<times> bool) list"
    by (induction xs) (auto simp: image_iff split: prod.splits)
  then show ?thesis using shortcut_distinct low m by blast
qed

lemma split_command_line:
  assumes "CHR '' '' \<notin> set n" "a \<noteq> [] \<longrightarrow> trim_space a = a"
  shows "split_command (n @ CHR '' '' # a) = (to_lower n, trim_space a)" "split_command n = (to_lower n, [])"
proof -
  have "takeWhile (\<lambda>c. c \<noteq> CHR '' '') (n @ CHR '' '' # a) = n" "dropWhile (\<lambda>c. c \<noteq> CHR '' '') (n @ CHR '' '' # a) = CHR '' '' # a"
    using assms(1) by (induction n) auto
  then show "split_command (n @ CHR '' '' # a) = (to_lower n, trim_space a)" by (simp add: split_command_def)
  have n: "takeWhile (\<lambda>c. c \<noteq> CHR '' '') n = n" "dropWhile (\<lambda>c. c \<noteq> CHR '' '') n = []"
    using assms(1) by (induction n) auto
  have "trim_space [] = []" by (simp add: trim_space_def trim_right_def)
  then show "split_command n = (to_lower n, [])" by (simp only: split_command_def n drop_Nil)
qed

text \<open> What a line runs.\<close>

lemma shortcut_runs:
  assumes "(n, no_cfg) \<in> set cli_subcommands" "a \<noteq> []" "trim_space a = a" "trim_space (n @ CHR '' '' # a) = n @ CHR '' '' # a" "cfg_path \<noteq> []"
  shows "dispatch_shortcut cfg_path (n @ CHR '' '' # a) = RunCli (tl n # (if no_cfg then [] else [''-c'', cfg_path]) @ str_fields a) \<and>
    dispatch_shortcut cfg_path n = Hint n"
proof -
  have n: "to_lower n = n" "n \<noteq> []" "CHR '' '' \<notin> set n"
    using shortcut_names assms(1) by (auto simp: list_all_iff)
  have "list_all (\<lambda>(n, x). trim_space n = n) cli_subcommands" by code_simp
  then have t: "trim_space n = n" using assms(1) by (auto simp: list_all_iff)
  show ?thesis
    using n t assms find_shortcut [OF assms(1)] split_command_line [OF n(3), of a]
    by (simp add: dispatch_shortcut_def run_cli_def Let_def)
qed

lemma shortcut_runs_witness:
  "dispatch_shortcut ''/etc/a.yml'' ''/use Auto ss'' = RunCli [''use'', ''Auto'', ''ss''] \<and> dispatch_shortcut ''/etc/a.yml'' ''/use'' = Hint ''/use''"
proof -
  have m: "(''/use'', True) \<in> set cli_subcommands" by (simp add: cli_subcommands_def)
  have t: "trim_space ''Auto ss'' = ''Auto ss''" "trim_space (''/use'' @ CHR '' '' # ''Auto ss'') = ''/use'' @ CHR '' '' # ''Auto ss''" by code_simp+
  have f: "str_fields ''Auto ss'' = [''Auto'', ''ss'']" by code_simp
  from shortcut_runs [OF m _ t] show ?thesis by (simp add: f)
qed

text \<open> A proxy on a line.\<close>

lemma add_proxy_line:
  assumes "str_fields (trim_space line) = [name, typ, server, itoa p]" "p < 2 ^ 63"
  shows "\<exists>m. add_proxy_cmd line = ProxyArgs m \<and> pc_name (new_entry m) = name \<and> pc_type (new_entry m) = typ \<and>
    pc_server (new_entry m) = server \<and> pc_port (new_entry m) = int p \<and> pc_password (new_entry m) = []"
  using assms by (simp add: add_proxy_cmd_def atoi_itoa new_entry_def get_string_def arg_def to_int_def)

lemma add_proxy_line_witness:
  "\<exists>m. add_proxy_cmd ''a ss h 80'' = ProxyArgs m \<and> pc_name (new_entry m) = ''a'' \<and> pc_port (new_entry m) = 80"
proof -
  have "str_fields (trim_space ''a ss h 80'') = [''a'', ''ss'', ''h'', itoa 80]" by code_simp
  from add_proxy_line [OF this] show ?thesis by auto
qed

text \<open>An option without its value, or for another port, is taken as it is.\<close>

lemma proxy_option_forms: "proxy_option ''port=443'' = [(''port'', JNum 443)]" "proxy_option ''cipher'' = [(''cipher'', JStr [])]" "proxy_option ''tls=1'' = []"
  by code_simp+

end
