(* ===== verification/Socks_Server.thy ===== *)
theory Socks_Server
  imports Socks Listener
begin

text \<open>
  The SOCKS5 listener (\<open>handleSOCKS5\<close> and \<open>handleSOCKS5UDP\<close> of \<open>listener/http.go\<close>). The
  request is read into one buffer of 256 bytes with unchecked reads, so that its model may
  panic, wait for the client, or serve.
\<close>

section \<open>Requests\<close>

definition command_buffer :: "bytes \<Rightarrow> bytes \<Rightarrow> bytes" where
  "command_buffer b r = b @ r @ replicate (256 - length b - length r) 0"

text \<open>The greeting and the request; None is the panic of a slice that exceeds the buffer.\<close>

definition socks_command :: "inbound \<Rightarrow> (bytes \<times> inbound) option talk" where
  "socks_command s = read_then 3 s (\<lambda>_ s1. say_then [5, 0] (read_then 5 s1 (\<lambda>b s2.
     let done = (\<lambda>r s3. gives (Some (command_buffer b r, s3))) in
     if b ! 3 = 1 then pad_then 5 s2 done
     else if b ! 3 = 3 then
       (if 256 < 5 + unat (b ! 4) + 2 then gives None else pad_then (unat (b ! 4) + 2) s2 done)
     else if b ! 3 = 4 then pad_then 17 s2 done
     else done [] s2)))"

text \<open>The address that is dialled; the offsets of a domain are computed in bytes.\<close>

definition socks_dest :: "bytes \<Rightarrow> string option" where
  "socks_dest b =
     (if b ! 3 = 1 then
        Some (join_host_port (ip_string (ipv4 (b ! 4) (b ! 5) (b ! 6) (b ! 7))) (itoa (get_u16 (b ! 8) (b ! 9))))
      else if b ! 3 = 3 then do {
        let e = unat (5 + b ! 4);
        host \<leftarrow> slice b 5 e;
        hi \<leftarrow> at_index b e;
        lo \<leftarrow> at_index b (unat (5 + b ! 4 + 1));
        Some (join_host_port (string_of_bytes host) (itoa (get_u16 hi lo))) }
      else Some (join_host_port [] (itoa 0)))"

text \<open>The local end of the connection, the address of the client, and the port of a fresh UDP
  socket, if there is one.\<close>

record socks_env =
  se_local_ip :: ip
  se_local_port :: nat
  se_peer :: "ip option"
  se_udp :: "nat option"

definition ip_bytes_of :: "ip \<Rightarrow> bytes" where
  "ip_bytes_of a = (case to4 a of Some b \<Rightarrow> b | None \<Rightarrow> (case to16 a of Some b \<Rightarrow> b | None \<Rightarrow> []))"

definition accept_reply :: "socks_env \<Rightarrow> bytes" where
  "accept_reply se = [5, 0, 0, 1] @ ip_bytes_of (se_local_ip se) @ put_u16 (se_local_port se)"

definition associate_reply :: "socks_env \<Rightarrow> bytes" where
  "associate_reply se = (case se_udp se of
       None \<Rightarrow> [5, 1, 0, 1, 0, 0, 0, 0, 0, 0]
     | Some port \<Rightarrow> (let a = (case se_peer se of Some a \<Rightarrow> a | None \<Rightarrow> ipv4_zero)
         in [5, 0, 0, if to4 a = None then 4 else 1] @ ip_bytes_of a @ put_u16 port))"

section \<open>The handler\<close>

datatype served = Panics | Waits "lev list" | Serves "lev list" lstate

definition says :: "bytes list \<Rightarrow> lev list" where
  "says ws = map (\<lambda>b. Say (string_of_bytes b)) ws"

definition socks_tunnel ::
  "options \<Rightarrow> http_env \<Rightarrow> socks_env \<Rightarrow> string \<Rightarrow> string \<Rightarrow> lstate \<Rightarrow> lev list \<times> lstate" where
  "socks_tunnel op en se target unread st = (case pick_for op en target of
       Inl e \<Rightarrow> ([HangUp], st)
     | Inr p \<Rightarrow>
       (let (r, res) = (if pref_name (en_world en) p = ''DIRECT'' then (RawDial, en_dial en target)
                       else (ProxyDial p, en_proxy en p target))
        in case res of
             Inl err \<Rightarrow> ([Dialled r target False, HangUp], st)
           | Inr peer \<Rightarrow>
               (let (evs, st') = relay op en (pref_name (en_world en) p) None id
                  (en_chunks en unread) (en_chunks en peer) st
                in ([Dialled r target True, Say (string_of_bytes (accept_reply se))] @ evs @ [RemoteClose, HangUp], st'))))"

definition handle_socks5 ::
  "options \<Rightarrow> http_env \<Rightarrow> socks_env \<Rightarrow> inbound \<Rightarrow> lstate \<Rightarrow> served" where
  "handle_socks5 op en se s st = (case socks_command s of
       (ws, Blocks) \<Rightarrow> Waits (says ws)
     | (ws, Fails) \<Rightarrow> Serves (says ws @ [HangUp]) st
     | (ws, Gives None) \<Rightarrow> Panics
     | (ws, Gives (Some (b, rest))) \<Rightarrow>
         (if b ! 1 = 3 then Serves (says (ws @ [associate_reply se]) @ [HangUp]) st
          else case socks_dest b of
            None \<Rightarrow> Panics
          | Some target \<Rightarrow>
              (let (evs, st') = socks_tunnel op en se target (string_of_bytes (in_data rest)) st
               in Serves (says ws @ evs) st')))"

text \<open>The datagrams of an association: what arrives at the socket, from whomever, is unwrapped
  and its payload sent on. There is no pump for replies on the direct path.\<close>

definition udp_relay :: "(string \<Rightarrow> udp_addr option) \<Rightarrow> bytes \<Rightarrow> (bytes \<times> udp_addr) list" where
  "udp_relay resolve d = (case relay_read d of
       None \<Rightarrow> []
     | Some (dst, payload) \<Rightarrow> (case resolve dst of None \<Rightarrow> [] | Some a \<Rightarrow> [(payload, a)]))"

section \<open>Which address is dialled\<close>

lemma command_buffer_nth [simp]: "i < length b \<Longrightarrow> command_buffer b r ! i = b ! i"
  "length b \<le> i \<Longrightarrow> i < length b + length r \<Longrightarrow> command_buffer b r ! i = r ! (i - length b)"
  by (auto simp: command_buffer_def nth_append)

lemma command_greeting:
  "socks_command (sent ([5, m, x] @ s)) = say_then [5, 0] (read_then 5 (sent s) (\<lambda>b s2.
     let done = (\<lambda>r s3. gives (Some (command_buffer b r, s3))) in
     if b ! 3 = 1 then pad_then 5 s2 done
     else if b ! 3 = 3 then
       (if 256 < 5 + unat (b ! 4) + 2 then gives None else pad_then (unat (b ! 4) + 2) s2 done)
     else if b ! 3 = 4 then pad_then 17 s2 done
     else done [] s2))"
  using read_then_enough [of "[5, m, x]" 3 s True] by (simp add: socks_command_def)

text \<open>The buffer after the request of a client for an address of each type.\<close>

lemma command_ipv4:
  assumes "length a = 4" "port < 65536"
  shows "\<exists>b. socks_command (sent ([5, m, x] @ [5, 1, 0, 1] @ a @ put_u16 port @ rest)) =
      ([[5, 0]], Gives (Some (b, sent rest))) \<and> b ! 1 = 1 \<and>
    socks_dest b = Some (join_host_port (ip_string a) (itoa port))"
proof -
  obtain p q r t where a: "a = [p, q, r, t]"
    using length_4_cases [OF assms(1)] by blast
  let ?b = "command_buffer [5, 1, 0, 1, p] ([q, r, t] @ put_u16 port)"
  have "ip_string (ipv4 p q r t) = ip_string a"
    using ip_string_to4 [of "ipv4 p q r t" a] by (simp add: a ipv4_def)
  then have "socks_dest ?b = Some (join_host_port (ip_string a) (itoa port))"
    using assms(2) by (simp add: socks_dest_def put_u16_def)
  moreover have "socks_command (sent ([5, m, x] @ [5, 1, 0, 1] @ a @ put_u16 port @ rest)) =
      ([[5, 0]], Gives (Some (?b, sent rest)))"
    by (simp add: command_greeting [simplified] a read_then_def pad_then_def put_u16_def say_then_def gives_def Let_def)
  ultimately show ?thesis
    by fastforce
qed

lemma command_ipv6:
  assumes "length a = 16"
  shows "\<exists>b. socks_command (sent ([5, m, x] @ [5, 1, 0, 4] @ a @ put_u16 port @ rest)) =
      ([[5, 0]], Gives (Some (b, sent rest))) \<and> b ! 1 = 1 \<and> socks_dest b = Some (join_host_port [] (itoa 0))"
proof -
  obtain p r where a: "a = p # r" and r: "length r = 15"
    using assms by (cases a) auto
  let ?b = "command_buffer [5, 1, 0, 4, p] (r @ put_u16 port)"
  have "pad_then 17 (sent (r @ put_u16 port @ rest)) k = k (r @ put_u16 port) (sent rest)" for k :: "bytes \<Rightarrow> inbound \<Rightarrow> 'a talk"
    using pad_then_enough [of "r @ put_u16 port" 17 rest True k] r by simp
  then have "socks_command (sent ([5, m, x] @ [5, 1, 0, 4] @ a @ put_u16 port @ rest)) =
      ([[5, 0]], Gives (Some (?b, sent rest)))"
    by (simp add: command_greeting [simplified] a read_then_def say_then_def gives_def Let_def
        pad_then_enough [of "r @ put_u16 port" 17 rest True, simplified] r)
  then show ?thesis
    by (fastforce simp: socks_dest_def)
qed

lemma command_name:
  assumes "length host < 250" "port < 65536"
  shows "\<exists>b. socks_command (sent ([5, m, x] @ [5, 1, 0, 3] @ (length_byte host # bytes_of_string host) @ put_u16 port @ rest)) =
      ([[5, 0]], Gives (Some (b, sent rest))) \<and> b ! 1 = 1 \<and> socks_dest b = Some (join_host_port host (itoa port))"
proof -
  let ?n = "length host"
  let ?l = "length_byte host"
  let ?b = "command_buffer [5, 1, 0, 3, ?l] (bytes_of_string host @ put_u16 port)"
  have n: "unat ?l = ?n" "unat (5 + ?l) = 5 + ?n" "unat (5 + ?l + 1) = 6 + ?n"
    using assms(1) by (simp_all add: length_byte_def unat_word_ariths unat_of_nat)
  have "slice ?b 5 (5 + ?n) = Some (bytes_of_string host)"
    by (simp add: command_buffer_def slice_def)
  moreover have "at_index ?b (5 + ?n) = Some (word_of_nat (port div 256))"
    "at_index ?b (6 + ?n) = Some (word_of_nat port)"
    using assms(1) by (simp_all add: at_index_def command_buffer_def nth_append put_u16_def)
  ultimately have "socks_dest ?b = Some (join_host_port host (itoa port))"
    using assms(2) n by (simp add: socks_dest_def)
  moreover have "pad_then (?n + 2) (sent (bytes_of_string host @ put_u16 port @ rest)) k =
      k (bytes_of_string host @ put_u16 port) (sent rest)" for k :: "bytes \<Rightarrow> inbound \<Rightarrow> (bytes \<times> inbound) option talk"
    using pad_then_enough [of "bytes_of_string host @ put_u16 port" "?n + 2" rest True k] by simp
  then have "socks_command (sent ([5, m, x] @ [5, 1, 0, 3] @ (?l # bytes_of_string host) @ put_u16 port @ rest)) =
      ([[5, 0]], Gives (Some (?b, sent rest)))"
    using assms(1) n(1)
    by (simp add: command_greeting [simplified] read_then_def say_then_def gives_def Let_def)
  ultimately show ?thesis
    by fastforce
qed

lemma command_long_name:
  assumes "250 \<le> length host" "length host < 256"
  shows "socks_command (sent ([5, m, x] @ [5, 1, 0, 3] @ (length_byte host # r))) = ([[5, 0]], Gives None)"
proof -
  have "unat (length_byte host) = length host"
    using assms(2) by (simp add: length_byte_def unat_of_nat)
  then show ?thesis
    using assms(1) by (simp add: command_greeting [simplified] read_then_def say_then_def gives_def Let_def)
qed

text \<open>The address that the handler dials for a client that asks for \<open>host\<close>.\<close>

definition served_target :: "lookup_ip \<Rightarrow> string \<Rightarrow> nat \<Rightarrow> string option" where
  "served_target lookup host port = (let t = fst (socks_target lookup host) in
     if t = 3 \<and> 250 \<le> length host then None
     else if t = 4 then Some (join_host_port [] (itoa 0))
     else Some (join_host_port (asked_host lookup host) (itoa port)))"

text \<open>
  C26: What the SOCKS5 listener does for the requests of the program's own client without
  credentials. A name of less than 250 bytes or an IPv4 address is dialled as the client asked
  for it, and what the client has sent behind its request goes into the tunnel; a longer name
  makes the handler panic; and for an IPv6 address it dials the empty host and port 0.
\<close>

theorem socks5_serves_client:
  assumes "c_username c = []" and "CHR ''['' \<notin> set host" "CHR '']'' \<notin> set host" and "port < 65536"
    and "proper_lookup lookup host"
    and "socks_request_bytes lookup (join_host_port host (itoa port)) = Some rq"
  shows "handle_socks5 op en se (sent (socks_greeting c @ rq @ rest)) st =
    (case served_target lookup host port of
       None \<Rightarrow> Panics
     | Some target \<Rightarrow> (let (evs, st') = socks_tunnel op en se target (string_of_bytes rest) st
         in Serves (Say (string_of_bytes [5, 0]) # evs) st'))"
proof -
  obtain t a where t: "socks_target lookup host = (t, a)"
    by (cases "socks_target lookup host")
  have rq: "socks_greeting c @ rq @ rest = [5, 1, 0] @ [5, 1, 0, t] @ a @ put_u16 port @ rest"
    using socks_request_bytes_join [OF assms(2-4) t] assms(6) by (simp add: socks_greeting_def assms(1))
  have serve: ?thesis
    if "socks_command (sent ([5, 1, 0] @ [5, 1, 0, t] @ a @ put_u16 port @ rest)) = ([[5, 0]], Gives (Some (b, sent rest)))"
      "b ! 1 = 1" "socks_dest b = served_target lookup host port" "served_target lookup host port \<noteq> None" for b
    unfolding rq handle_socks5_def that(1) using that(2-4)
    by (auto simp: says_def split: prod.splits)
  from assms(5) show ?thesis
  proof (cases rule: socks_target_cases)
    case (ipv4 b)
    obtain x where "socks_command (sent ([5, 1, 0] @ [5, 1, 0, 1] @ b @ put_u16 port @ rest)) =
        ([[5, 0]], Gives (Some (x, sent rest)))"
      "x ! 1 = 1" "socks_dest x = Some (join_host_port (ip_string b) (itoa port))"
      using command_ipv4 [OF ipv4(2) assms(4)] by blast
    with t ipv4 show ?thesis
      by (intro serve [of x]) (simp_all add: served_target_def)
  next
    case (ipv6 b)
    obtain x where "socks_command (sent ([5, 1, 0] @ [5, 1, 0, 4] @ b @ put_u16 port @ rest)) =
        ([[5, 0]], Gives (Some (x, sent rest)))"
      "x ! 1 = 1" "socks_dest x = Some (join_host_port [] (itoa 0))"
      using command_ipv6 [OF ipv6(2)] by blast
    with t ipv6 show ?thesis
      by (intro serve [of x]) (simp_all add: served_target_def)
  next
    case name
    show ?thesis
    proof (cases "length host < 250")
      case True
      obtain x where "socks_command (sent ([5, 1, 0] @ [5, 1, 0, 3] @ (length_byte host # bytes_of_string host) @
          put_u16 port @ rest)) = ([[5, 0]], Gives (Some (x, sent rest)))"
        "x ! 1 = 1" "socks_dest x = Some (join_host_port host (itoa port))"
        using command_name [OF True assms(4)] by blast
      with t name True show ?thesis
        by (intro serve [of x]) (simp_all add: served_target_def)
    next
      case False
      have "t = 3" "a = length_byte host # bytes_of_string host"
        using t name(1) by simp_all
      with False t name command_long_name [of host 1 0 "bytes_of_string host @ put_u16 port @ rest"] show ?thesis
        unfolding rq handle_socks5_def by (simp add: served_target_def)
    qed
  qed
qed

text \<open>
  A client that has credentials offers two methods, and its greeting is one byte longer than
  what the listener reads: the request is read out of step. The listener dials the empty host
  and port 0, and the address that was asked for goes into the tunnel as data.
\<close>

theorem socks5_two_methods_lost:
  assumes "c_username c \<noteq> []" and "socks_request_bytes lookup addr = Some rq"
  shows "handle_socks5 op en se (sent (socks_greeting c @ rq @ rest)) st =
    (let (evs, st') = socks_tunnel op en se (join_host_port [] (itoa 0))
           (string_of_bytes (drop 4 rq @ rest)) st
     in Serves (Say (string_of_bytes [5, 0]) # evs) st')"
proof -
  obtain host p where "split_host_port addr = Some (host, p)"
    using assms(2) by (auto simp: socks_request_bytes_def)
  then obtain t a where rq: "rq = [5, 1, 0, t] @ a"
    using assms(2) by (cases "socks_target lookup host") (auto simp: socks_request_bytes_def)
  let ?b = "command_buffer [2, 5, 1, 0, t] []"
  have "socks_command (sent ([5, 2, 0] @ [2, 5, 1, 0, t] @ a @ rest)) = ([[5, 0]], Gives (Some (?b, sent (a @ rest))))"
    by (simp add: command_greeting [simplified] read_then_def say_then_def gives_def Let_def)
  then show ?thesis
    unfolding handle_socks5_def by (simp add: socks_greeting_def assms(1) rq says_def socks_dest_def)
qed

text \<open>The reply to a client on an IPv6 address announces an IPv4 one and carries sixteen bytes.\<close>

lemma accept_reply_ipv6:
  "length (se_local_ip se) = 16 \<Longrightarrow> to4 (se_local_ip se) = None \<Longrightarrow>
   accept_reply se = [5, 0, 0, 1] @ se_local_ip se @ put_u16 (se_local_port se)"
  by (simp add: accept_reply_def ip_bytes_of_def to16_16)

text \<open>A reply datagram, such as a DNS response, is taken for a request and dropped: its third
  byte is not an address type.\<close>

lemma udp_reply_dropped:
  assumes "length d \<le> 2 \<or> d ! 2 \<notin> {1, 3, 4}"
  shows "udp_relay resolve d = []"
proof -
  have "parse_udp_header d = Some None"
    using assms by (auto simp: parse_udp_header_def at_index_def udp_host_def)
  then show ?thesis
    by (simp add: udp_relay_def relay_read_def)
qed

section \<open>Witnesses\<close>

definition ss_demo_env :: socks_env where
  "ss_demo_env = \<lparr>se_local_ip = [127, 0, 0, 1], se_local_port = 7891, se_peer = None, se_udp = None\<rparr>"

definition ss_demo_password :: proxy_cfg where
  "ss_demo_password = socks_demo_cfg\<lparr>c_username := ''u''\<rparr>"

lemma ss_demo_request:
  "socks_request_bytes (\<lambda>_. None) (join_host_port ''a.b'' (itoa 22)) =
     Some ([5, 1, 0, 3] @ (length_byte ''a.b'' # bytes_of_string ''a.b'') @ put_u16 22)"
  by (rule socks_request_bytes_join) (simp_all add: socks_target_def)

theorem socks5_serves_client_witness:
  "\<exists>evs st'. handle_socks5 li_demo_options li_demo_env ss_demo_env
      (sent (socks_greeting socks_demo_cfg @ the (socks_request_bytes (\<lambda>_. None) (join_host_port ''a.b'' (itoa 22))) @ [7]))
      li_demo_state = Serves (Say (string_of_bytes [5, 0]) # evs) st' \<and>
    socks_tunnel li_demo_options li_demo_env ss_demo_env (join_host_port ''a.b'' (itoa 22)) (string_of_bytes [7])
      li_demo_state = (evs, st')"
proof -
  have "c_username socks_demo_cfg = []"
    by (simp add: socks_demo_cfg_def to_proxy_config_def demo_entry_def)
  moreover have "proper_lookup (\<lambda>_. None) ''a.b''"
    by (simp add: proper_lookup_def)
  moreover have "served_target (\<lambda>_. None) ''a.b'' 22 = Some (join_host_port ''a.b'' (itoa 22))"
    by (simp add: served_target_def socks_target_def asked_host_def)
  ultimately show ?thesis
    using socks5_serves_client [of socks_demo_cfg "''a.b''" 22 "\<lambda>_. None" _ li_demo_options li_demo_env
        ss_demo_env "[7]" li_demo_state, OF _ _ _ _ _ ss_demo_request]
    by (simp add: ss_demo_request Let_def split: prod.split)
qed

theorem socks5_two_methods_lost_witness:
  "\<exists>evs st'. handle_socks5 li_demo_options li_demo_env ss_demo_env
      (sent (socks_greeting ss_demo_password @ the (socks_request_bytes (\<lambda>_. None) (join_host_port ''a.b'' (itoa 22))) @ []))
      li_demo_state = Serves (Say (string_of_bytes [5, 0]) # evs) st' \<and>
    (\<exists>x. socks_tunnel li_demo_options li_demo_env ss_demo_env (join_host_port [] (itoa 0)) x li_demo_state = (evs, st'))"
proof -
  have "c_username ss_demo_password \<noteq> []"
    by (simp add: ss_demo_password_def)
  from socks5_two_methods_lost [OF this ss_demo_request, of li_demo_options li_demo_env ss_demo_env "[]" li_demo_state]
  show ?thesis
    by (simp add: ss_demo_request Let_def split: prod.splits) blast
qed

end
