(* ===== verification/Socks_Udp.thy ===== *)
theory Socks_Udp
  imports Socks_Server
begin

text \<open>
  The life of a UDP association of the SOCKS5 listener (\<open>handleSOCKS5UDP\<close> in \<open>listener/http.go\<close>): one socket takes datagrams
  from everybody, and the control connection ends the association with its end or with a byte. Names are resolved by a
  parameter. The pump of replies belongs to a proxied path that \<open>udpRelayDirect\<close> never gives, and is left out.
\<close>

record association =
  ua_open :: bool
  ua_client :: "udp_addr option"
  ua_out :: "(bytes \<times> udp_addr) list"

datatype ua_event = Datagram udp_addr bytes | ControlByte byte | ControlClosed

text \<open>The reply to the request, and the association when there is a socket and the reply could be written.\<close>

definition ua_start :: "socks_env \<Rightarrow> bool \<Rightarrow> bytes \<times> association option" where
  "ua_start se written =
     (associate_reply se,
      if se_udp se = None \<or> \<not> written then None else Some \<lparr>ua_open = True, ua_client = None, ua_out = []\<rparr>)"

definition ua_step :: "(string \<Rightarrow> udp_addr option) \<Rightarrow> ua_event \<Rightarrow> association \<Rightarrow> association" where
  "ua_step resolve ev a =
     (if \<not> ua_open a then a
      else case ev of
          Datagram src d \<Rightarrow> a\<lparr>ua_client := Some src, ua_out := ua_out a @ udp_relay resolve d\<rparr>
        | _ \<Rightarrow> a\<lparr>ua_open := False\<rparr>)"

definition ua_run :: "(string \<Rightarrow> udp_addr option) \<Rightarrow> ua_event list \<Rightarrow> association \<Rightarrow> association" where
  "ua_run resolve = fold (ua_step resolve)"

definition is_datagram :: "ua_event \<Rightarrow> bool" where
  "is_datagram ev = (case ev of Datagram src d \<Rightarrow> True | _ \<Rightarrow> False)"

definition ua_forwards :: "(string \<Rightarrow> udp_addr option) \<Rightarrow> ua_event \<Rightarrow> (bytes \<times> udp_addr) list" where
  "ua_forwards resolve ev = (case ev of Datagram src d \<Rightarrow> udp_relay resolve d | _ \<Rightarrow> [])"

lemma ua_closed: "\<not> ua_open a \<Longrightarrow> ua_run resolve evs a = a"
  by (induction evs) (simp_all add: ua_run_def ua_step_def)

lemma ua_run_out:
  "ua_open a \<Longrightarrow> ua_out (ua_run resolve evs a) = ua_out a @ concat (map (ua_forwards resolve) (takeWhile is_datagram evs)) \<and>
     (ua_open (ua_run resolve evs a) \<longleftrightarrow> list_all is_datagram evs)"
proof (induction evs arbitrary: a)
  case Nil
  then show ?case by (simp add: ua_run_def)
next
  case (Cons ev evs)
  show ?case
  proof (cases "is_datagram ev")
    case True
    then obtain src d where ev: "ev = Datagram src d" by (cases ev) (simp_all add: is_datagram_def)
    let ?a = "ua_step resolve ev a"
    have s: "ua_open ?a" "ua_out ?a = ua_out a @ udp_relay resolve d" using Cons.prems by (simp_all add: ua_step_def ev)
    have "ua_run resolve (ev # evs) a = ua_run resolve evs ?a" by (simp add: ua_run_def)
    then show ?thesis using Cons.IH [OF s(1)] s(2) True by (simp add: ua_forwards_def ev)
  next
    case False
    then have "ua_step resolve ev a = a\<lparr>ua_open := False\<rparr>" using Cons.prems by (cases ev) (simp_all add: is_datagram_def ua_step_def)
    then have "ua_run resolve (ev # evs) a = a\<lparr>ua_open := False\<rparr>" using ua_closed [of "a\<lparr>ua_open := False\<rparr>"] by (simp add: ua_run_def)
    then show ?thesis using False by simp
  qed
qed

text \<open> What an association sends.\<close>

lemma association_relays:
  assumes "ua_start se written = (reply, Some a)"
  shows "ua_out (ua_run resolve evs a) = concat (map (ua_forwards resolve) (takeWhile is_datagram evs)) \<and>
    snd ` set (ua_out (ua_run resolve evs a)) \<subseteq> {x. \<exists>dst. resolve dst = Some x} \<and>
    (ua_open (ua_run resolve evs a) \<longleftrightarrow> list_all is_datagram evs)"
proof -
  have a: "ua_open a" "ua_out a = []" using assms by (auto simp: ua_start_def split: if_splits)
  have f: "snd ` set (ua_forwards resolve ev) \<subseteq> {x. \<exists>dst. resolve dst = Some x}" for ev
    by (auto simp: ua_forwards_def udp_relay_def split: ua_event.splits option.splits)
  then have "snd ` set (concat (map (ua_forwards resolve) evs)) \<subseteq> {x. \<exists>dst. resolve dst = Some x}" for evs
    by (induction evs) (auto simp: image_Un)
  then show ?thesis using ua_run_out [OF a(1), of resolve evs] a(2) by simp
qed

text \<open>A stranger uses the relay, and a byte on the control connection ends it.\<close>

lemma association_relays_witness:
  "\<exists>reply a. ua_start (ss_demo_env\<lparr>se_udp := Some 5\<rparr>) True = (reply, Some a) \<and>
     \<not> ua_open (ua_run (\<lambda>s. None) [Datagram client [], ControlByte 0, Datagram stranger []] a)"
proof -
  obtain reply a where s: "ua_start (ss_demo_env\<lparr>se_udp := Some 5\<rparr>) True = (reply, Some a)"
    by (simp add: ua_start_def)
  show ?thesis using association_relays [OF s, of "\<lambda>s. None"] s by (auto simp: is_datagram_def)
qed

text \<open> Who may use it.\<close>

lemma association_senders_alike:
  "ua_out (ua_run resolve (map (\<lambda>(src, d). Datagram src d) ds) a) = ua_out (ua_run resolve (map (\<lambda>(src, d). Datagram other d) ds) a)"
proof (cases "ua_open a")
  case True
  have "ua_out (ua_run resolve (map (\<lambda>(src, d). Datagram (f src) d) ds) a) = ua_out a @ concat (map (\<lambda>(src, d). udp_relay resolve d) ds)" for f
  proof -
    have t: "takeWhile is_datagram (map (\<lambda>(src, d). Datagram (f src) d) ds) = map (\<lambda>(src, d). Datagram (f src) d) ds"
      by (induction ds) (auto simp: is_datagram_def)
    have "concat (map (ua_forwards resolve) (map (\<lambda>(src, d). Datagram (f src) d) ds)) = concat (map (\<lambda>(src, d). udp_relay resolve d) ds)"
      by (induction ds) (auto simp: ua_forwards_def)
    then show ?thesis using ua_run_out [OF True] by (simp only: t)
  qed
  from this [of id] this [of "\<lambda>x. other"] show ?thesis by simp
next
  case False
  then show ?thesis by (simp add: ua_closed)
qed

end
