(* ===== verification/Sysproxy.thy ===== *)
theory Sysproxy
  imports Router Config
begin

text \<open>
  The proxy setting of the desktop (\<open>sysproxy/\<close> and \<open>cmd/sysproxy.go\<close>). On Unix it is a list of runs of
  \<open>gsettings\<close>, whose errors are ignored, and a file of shell commands; on Windows it is three values of the registry
  and one run of \<open>netsh\<close>. The answers of \<open>gsettings\<close> and the errors of the registry and of the file system are
  parameters. Messages are constructors.
\<close>

section \<open>Addresses\<close>

record sys_settings =
  st_http :: string
  st_https :: string
  st_no_proxy :: string

definition strip_scheme :: "string \<Rightarrow> string" where
  "strip_scheme addr =
     trim_right (\<lambda>c. c = CHR ''/'') (fold (\<lambda>p a. trim_prefix a p) [''http://'', ''https://''] (trim_space addr))"

definition sys_host_port :: "string \<Rightarrow> string \<times> string" where
  "sys_host_port hp = (case last_index_byte hp (CHR '':'') of
       Some i \<Rightarrow> (take i hp, drop (i + 1) hp)
     | None \<Rightarrow> (hp, ''7890''))"

definition or_default :: "string \<Rightarrow> string \<Rightarrow> string" where
  "or_default a b = (if a \<noteq> [] then a else b)"

definition bypass_arg :: "string \<Rightarrow> string" where
  "bypass_arg no_proxy =
     (if no_proxy = [] then [CHR 0x22, CHR 0x22] else [CHR 0x22] @ replace_all '','' '';'' no_proxy @ [CHR 0x22])"

datatype sys_error = AddressRequired | WriteEnvFile string | RegistryOpen string | RegistrySet string string

section \<open>Unix\<close>

text \<open>The arguments of the runs of \<open>gsettings\<close>, in order.\<close>

definition unix_commands :: "sys_settings \<Rightarrow> string list list" where
  "unix_commands s =
     (let (host, port) = sys_host_port (strip_scheme (st_http s)); q = [CHR 0x27] in
      [[''set'', ''org.gnome.system.proxy'', ''mode'', ''manual''],
       [''set'', ''org.gnome.system.proxy.http'', ''host'', host],
       [''set'', ''org.gnome.system.proxy.http'', ''port'', port],
       [''set'', ''org.gnome.system.proxy.https'', ''host'', host],
       [''set'', ''org.gnome.system.proxy.https'', ''port'', port]] @
      (if st_no_proxy s \<noteq> []
       then [[''set'', ''org.gnome.system.proxy'', ''ignore-hosts'',
              ''['' @ q @ join_with (q @ '','' @ q) (split_all (CHR '','') (st_no_proxy s)) @ q @ '']'']]
       else []))"

definition env_text :: "sys_settings \<Rightarrow> string" where
  "env_text s =
     ''export HTTP_PROXY='' @ st_http s @ ''\<newline>export HTTPS_PROXY='' @ or_default (st_https s) (st_http s) @
     ''\<newline>export NO_PROXY='' @ st_no_proxy s @ ''\<newline>''"

definition unset_text :: string where
  "unset_text = ''unset HTTP_PROXY\<newline>unset HTTPS_PROXY\<newline>unset NO_PROXY\<newline>''"

text \<open>What the desktop and the file \<open>~/.proxy.env\<close> look like: the runs so far and the text of the file.\<close>

record unix_desk =
  ud_runs :: "string list list"
  ud_env_file :: "string option"

definition unix_enable :: "string option \<Rightarrow> sys_settings \<Rightarrow> unix_desk \<Rightarrow> unix_desk \<times> (sys_error + string)" where
  "unix_enable write_err s d =
     (if st_http s = [] then (d, Inl AddressRequired)
      else let d1 = d\<lparr>ud_runs := ud_runs d @ unix_commands s\<rparr> in
        case write_err of
          Some e \<Rightarrow> (d1, Inl (WriteEnvFile e))
        | None \<Rightarrow> (d1\<lparr>ud_env_file := Some (env_text s)\<rparr>, Inr (st_http s)))"

definition unix_disable :: "string option \<Rightarrow> unix_desk \<Rightarrow> unix_desk" where
  "unix_disable write_err d =
     (let d1 = d\<lparr>ud_runs := ud_runs d @ [[''set'', ''org.gnome.system.proxy'', ''mode'', ''none'']]\<rparr>
      in if write_err = None then d1\<lparr>ud_env_file := Some unset_text\<rparr> else d1)"

datatype sys_status = SysOff | SysEnvOnly string | SysOn string string string | SysServer string | SysUnknown

text \<open>\<open>get\<close> is the output of \<open>gsettings get\<close> on a schema and a key, empty when the program fails.\<close>

definition unix_status :: "(string \<Rightarrow> string \<Rightarrow> string) \<Rightarrow> string \<Rightarrow> sys_status" where
  "unix_status get env_http =
     (let m = trim_space (get ''org.gnome.system.proxy'' ''mode''); is_q = (\<lambda>c. c = CHR 0x27) in
      if m = [CHR 0x27] @ ''none'' @ [CHR 0x27] \<or> m = []
      then if env_http \<noteq> [] then SysEnvOnly env_http else SysOff
      else SysOn m (trim_right is_q (dropWhile is_q (get ''org.gnome.system.proxy.http'' ''host'')))
             (trim_right is_q (dropWhile is_q (get ''org.gnome.system.proxy.http'' ''port''))))"

section \<open>Windows\<close>

record registry =
  rg_server :: "string option"
  rg_enable :: "nat option"
  rg_override :: "string option"
  rg_netsh :: "string list list"

record registry_env =
  re_open :: "string option"
  re_set :: "string \<Rightarrow> string option"

definition windows_server :: "sys_settings \<Rightarrow> string" where
  "windows_server s =
     (let http_hp = strip_scheme (st_http s); https_hp = (if st_https s \<noteq> [] then strip_scheme (st_https s) else http_hp)
      in ''http='' @ http_hp @ '';https='' @ https_hp)"

definition windows_enable :: "registry_env \<Rightarrow> sys_settings \<Rightarrow> registry \<Rightarrow> registry \<times> (sys_error + string)" where
  "windows_enable env s r =
     (if st_http s = [] then (r, Inl AddressRequired)
      else case re_open env of
        Some e \<Rightarrow> (r, Inl (RegistryOpen e))
      | None \<Rightarrow> (case re_set env ''ProxyServer'' of
          Some e \<Rightarrow> (r, Inl (RegistrySet ''ProxyServer'' e))
        | None \<Rightarrow> let r1 = r\<lparr>rg_server := Some (windows_server s)\<rparr> in
            (case re_set env ''ProxyEnable'' of
              Some e \<Rightarrow> (r1, Inl (RegistrySet ''ProxyEnable'' e))
            | None \<Rightarrow> let r2 = r1\<lparr>rg_enable := Some 1\<rparr>;
                  netsh = (\<lambda>x. x\<lparr>rg_netsh := rg_netsh x @
                     [[''winhttp'', ''set'', ''proxy'', strip_scheme (st_http s), bypass_arg (st_no_proxy s)]]\<rparr>) in
                if st_no_proxy s = [] then (netsh r2, Inr (windows_server s))
                else case re_set env ''ProxyOverride'' of
                    Some e \<Rightarrow> (r2, Inl (RegistrySet ''ProxyOverride'' e))
                  | None \<Rightarrow> (netsh (r2\<lparr>rg_override := Some (replace_all '','' '';'' (st_no_proxy s))\<rparr>), Inr (windows_server s)))))"

definition windows_disable :: "registry_env \<Rightarrow> registry \<Rightarrow> registry \<times> sys_error option" where
  "windows_disable env r = (case re_open env of
       Some e \<Rightarrow> (r, Some (RegistryOpen e))
     | None \<Rightarrow> (case re_set env ''ProxyEnable'' of
         Some e \<Rightarrow> (r, Some (RegistrySet ''ProxyEnable'' e))
       | None \<Rightarrow> (r\<lparr>rg_enable := Some 0, rg_netsh := rg_netsh r @ [[''winhttp'', ''reset'', ''proxy'']]\<rparr>, None)))"

definition windows_status :: "registry_env \<Rightarrow> registry \<Rightarrow> sys_error + sys_status" where
  "windows_status env r = (case re_open env of
       Some e \<Rightarrow> Inl (RegistryOpen e)
     | None \<Rightarrow> (case rg_enable r of
         None \<Rightarrow> Inr SysUnknown
       | Some n \<Rightarrow> if n = 0 then Inr SysOff else Inr (SysServer (case rg_server r of Some v \<Rightarrow> v | None \<Rightarrow> []))))"

section \<open>The command\<close>

datatype sys_plan = SysUsage | SysNoAddress | SysUnknownAction string | SysEnable sys_settings | SysDisable | SysStatus

definition sys_command :: "config_err + config \<Rightarrow> string \<Rightarrow> string list \<Rightarrow> sys_plan" where
  "sys_command cfg no_proxy args = (case args of
       [] \<Rightarrow> SysUsage
     | a # rest \<Rightarrow>
         let action = to_lower a in
         if action = ''on'' then
           let given = (case rest of x # _ \<Rightarrow> x | [] \<Rightarrow> []);
               addr = (if given \<noteq> [] then given else case cfg of
                  Inr c \<Rightarrow> if lc_http (cf_listen c) \<noteq> 0 then ''http://127.0.0.1:'' @ itoa_int (lc_http (cf_listen c)) else []
                | Inl e \<Rightarrow> [])
           in if addr = [] then SysNoAddress
              else SysEnable \<lparr>st_http = addr, st_https = addr, st_no_proxy = no_proxy\<rparr>
         else if action = ''off'' then SysDisable
         else if action = ''status'' then SysStatus
         else SysUnknownAction action)"

section \<open>Facts\<close>

text \<open>An address in its usual form is taken apart into its host and its port.\<close>

definition plain_word :: "string \<Rightarrow> bool" where
  "plain_word w \<longleftrightarrow> w \<noteq> [] \<and> list_all (\<lambda>c. \<not> is_space c \<and> c \<noteq> CHR ''/'') w"

lemma plain_no_scheme: "plain_word w \<Longrightarrow> \<not> has_prefix w ''https://''"
  by (auto simp: has_prefix_iff plain_word_def)

lemma plain_word_append: "plain_word v \<Longrightarrow> plain_word w \<Longrightarrow> c \<noteq> CHR ''/'' \<Longrightarrow> \<not> is_space c \<Longrightarrow> plain_word (v @ c # w)"
  by (simp add: plain_word_def)

lemma strip_scheme_plain:
  assumes "plain_word w"
  shows "strip_scheme (''http://'' @ w) = w"
proof -
  let ?a = "''http://'' @ w"
  have "list_all (\<lambda>c. \<not> is_space c) ''http://''" by code_simp
  moreover have "list_all (\<lambda>c. \<not> is_space c) w" using assms by (simp add: plain_word_def list_all_iff)
  ultimately have "list_all (\<lambda>c. \<not> is_space c) ?a" by (simp only: list_all_append)
  then have t: "trim_space ?a = ?a" by (intro trim_space_none) (metis list_all_iff)
  have "trim_prefix ?a ''http://'' = w" by (simp add: trim_prefix_def has_prefix_def)
  moreover have "trim_prefix w ''https://'' = w" using plain_no_scheme [OF assms] by (simp add: trim_prefix_def)
  moreover have "trim_right (\<lambda>c. c = CHR ''/'') w = w"
    using assms last_in_set by (intro trim_right_id) (fastforce simp: plain_word_def list_all_iff)
  ultimately show ?thesis by (simp only: strip_scheme_def t fold_simps)
qed

lemma sys_host_port_join:
  assumes "CHR '':'' \<notin> set p"
  shows "sys_host_port (h @ CHR '':'' # p) = (h, p)"
  using assms by (simp add: sys_host_port_def last_index_byte_append)

text \<open> Address round trip.\<close>

lemma address_roundtrip:
  assumes "plain_word h" "plain_word p" "CHR '':'' \<notin> set p"
  shows "sys_host_port (strip_scheme (''http://'' @ h @ CHR '':'' # p)) = (h, p)"
proof -
  have "plain_word (h @ CHR '':'' # p)" using assms by (intro plain_word_append) (simp_all add: is_space_def)
  then show ?thesis by (simp only: strip_scheme_plain sys_host_port_join [OF assms(3)])
qed

lemma address_roundtrip_witness: "sys_host_port (strip_scheme (''http://'' @ ''pc'' @ '':81'')) = (''pc'', ''81'')"
  using address_roundtrip [of "''pc''" "''81''"] by (simp add: plain_word_def is_space_def)

text \<open> Default address.\<close>

lemma sysproxy_default:
  assumes "lc_http (cf_listen c) = int n" "0 < n"
  shows "\<exists>s. sys_command (Inr c) no_proxy [''on''] = SysEnable s \<and>
    sys_host_port (strip_scheme (st_http s)) = (''127.0.0.1'', itoa n) \<and>
    windows_server s = ''http=127.0.0.1:'' @ itoa n @ '';https=127.0.0.1:'' @ itoa n"
proof -
  define s where "s = \<lparr>st_http = ''http://'' @ ''127.0.0.1'' @ CHR '':'' # itoa n, st_https = ''http://'' @ ''127.0.0.1'' @ CHR '':'' # itoa n,
    st_no_proxy = no_proxy\<rparr>"
  have low: "lower_char CHR ''o'' = CHR ''o''" "lower_char CHR ''n'' = CHR ''n''" by code_simp+
  have cmd: "sys_command (Inr c) no_proxy [''on''] = SysEnable s"
    using assms by (simp add: sys_command_def low s_def itoa_int_def Let_def)
  have digit: "is_digit d \<Longrightarrow> d \<noteq> CHR '':'' \<and> d \<noteq> CHR ''/'' \<and> \<not> is_space d" for d
    by (auto simp: is_digit_def is_space_def)
  have pl: "plain_word (itoa n)" "CHR '':'' \<notin> set (itoa n)"
    using itoa_digits [of n] itoa_nonempty [of n] digit by (auto simp: plain_word_def list_all_iff)
  have lh: "plain_word ''127.0.0.1''" by code_simp
  have "plain_word (''127.0.0.1'' @ CHR '':'' # itoa n)" using lh pl by (intro plain_word_append) (simp_all add: is_space_def)
  note st = strip_scheme_plain [OF this]
  have "sys_host_port (strip_scheme (st_http s)) = (''127.0.0.1'', itoa n)"
    by (simp only: s_def sys_settings.simps st sys_host_port_join [OF pl(2)])
  moreover have "windows_server s = ''http='' @ (''127.0.0.1'' @ CHR '':'' # itoa n) @ '';https='' @ (''127.0.0.1'' @ CHR '':'' # itoa n)"
    using st by (simp only: s_def windows_server_def Let_def sys_settings.simps) simp
  ultimately show ?thesis using cmd by auto
qed

lemma sysproxy_default_witness:
  "\<exists>s. sys_command (Inr (zero_config\<lparr>cf_listen := \<lparr>lc_http = 7890, lc_socks5 = 0, lc_tproxy = 0, lc_tproxy_mark = 0, lc_tproxy_table = 0\<rparr>\<rparr>)) [] [''on''] = SysEnable s \<and>
     windows_server s = ''http=127.0.0.1:'' @ itoa 7890 @ '';https=127.0.0.1:'' @ itoa 7890"
  using sysproxy_default [of "zero_config\<lparr>cf_listen := \<lparr>lc_http = 7890, lc_socks5 = 0, lc_tproxy = 0, lc_tproxy_mark = 0, lc_tproxy_table = 0\<rparr>\<rparr>" 7890 "[]"]
  by auto

text \<open> Windows.\<close>

lemma windows_toggle:
  assumes "windows_enable env s r = (r1, Inr shown)" "windows_disable env r1 = (r2, None)"
  shows "windows_status env r1 = Inr (SysServer (windows_server s)) \<and> windows_status env r2 = Inr SysOff \<and>
    rg_server r2 = Some (windows_server s) \<and> rg_override r2 = rg_override r1 \<and>
    rg_override r1 = (if st_no_proxy s = [] then rg_override r else Some (replace_all '','' '';'' (st_no_proxy s)))"
  using assms by (auto simp: windows_enable_def windows_disable_def windows_status_def Let_def split: if_splits option.splits)

definition no_registry :: registry where
  "no_registry = \<lparr>rg_server = None, rg_enable = None, rg_override = Some ''old'', rg_netsh = []\<rparr>"

definition good_registry :: registry_env where
  "good_registry = \<lparr>re_open = None, re_set = (\<lambda>v. None)\<rparr>"

text \<open>Hosts of an earlier setting stay excluded from the proxy.\<close>

lemma windows_toggle_witness:
  "\<exists>r1 r2. windows_enable good_registry \<lparr>st_http = ''a:1'', st_https = [], st_no_proxy = []\<rparr> no_registry = (r1, Inr ''http=a:1;https=a:1'') \<and>
     windows_disable good_registry r1 = (r2, None) \<and> windows_status good_registry r1 = Inr (SysServer ''http=a:1;https=a:1'') \<and>
     rg_override r2 = Some ''old''"
proof -
  let ?s = "\<lparr>st_http = ''a:1'', st_https = [], st_no_proxy = []\<rparr>"
  have w: "windows_server ?s = ''http=a:1;https=a:1''" by code_simp
  obtain r1 :: registry where e: "windows_enable good_registry ?s no_registry = (r1, Inr (windows_server ?s))"
    by (simp add: windows_enable_def good_registry_def Let_def)
  obtain r2 :: registry where d: "windows_disable good_registry r1 = (r2, None)"
    by (simp add: windows_disable_def good_registry_def)
  show ?thesis using windows_toggle [OF e d] e d w by (auto simp: no_registry_def)
qed

text \<open> Partial writes.\<close>

lemma windows_half_enabled:
  assumes "windows_enable env s r = (r1, Inl e)" "rg_server r \<noteq> Some (windows_server s)" "rg_server r1 \<noteq> rg_server r"
  shows "\<exists>x. e = RegistrySet ''ProxyEnable'' x \<and> rg_enable r1 = rg_enable r \<or> e = RegistrySet ''ProxyOverride'' x \<and> rg_enable r1 = Some 1"
  using assms by (auto simp: windows_enable_def Let_def split: if_splits option.splits)

text \<open> Unix: what both kinds of clients see.\<close>

lemma unix_enable_sees:
  assumes "unix_enable None s d = (d1, Inr shown)" "sys_host_port (strip_scheme (st_http s)) = (h, p)"
  shows "[''set'', ''org.gnome.system.proxy.http'', ''host'', h] \<in> set (ud_runs d1) \<and>
    [''set'', ''org.gnome.system.proxy.https'', ''host'', h] \<in> set (ud_runs d1) \<and>
    [''set'', ''org.gnome.system.proxy.https'', ''port'', p] \<in> set (ud_runs d1) \<and>
    ud_runs d1 = ud_runs d @ unix_commands (s\<lparr>st_https := other\<rparr>) \<and>
    ud_env_file d1 = Some (''export HTTP_PROXY='' @ st_http s @ ''\<newline>export HTTPS_PROXY='' @
      (if st_https s = [] then st_http s else st_https s) @ ''\<newline>export NO_PROXY='' @ st_no_proxy s @ ''\<newline>'')"
proof -
  have "d1 = \<lparr>ud_runs = ud_runs d @ unix_commands s, ud_env_file = Some (env_text s)\<rparr>"
    using assms(1) by (auto simp: unix_enable_def Let_def split: if_splits)
  then show ?thesis using assms(2) by (simp add: unix_commands_def env_text_def or_default_def Let_def)
qed

text \<open>With two different addresses the desktop sends HTTPS to the address for HTTP, the shell to the other.\<close>

lemma unix_enable_sees_witness:
  "\<exists>d1. unix_enable None \<lparr>st_http = ''a:1'', st_https = ''b:2'', st_no_proxy = []\<rparr> \<lparr>ud_runs = [], ud_env_file = None\<rparr> = (d1, Inr ''a:1'') \<and>
     [''set'', ''org.gnome.system.proxy.https'', ''host'', ''a''] \<in> set (ud_runs d1) \<and>
     ud_env_file d1 = Some ''export HTTP_PROXY=a:1\<newline>export HTTPS_PROXY=b:2\<newline>export NO_PROXY=\<newline>''"
proof -
  let ?s = "\<lparr>st_http = ''a:1'', st_https = ''b:2'', st_no_proxy = []\<rparr>"
  have hp: "sys_host_port (strip_scheme (st_http ?s)) = (''a'', ''1'')" by code_simp
  obtain d1 :: unix_desk where e: "unix_enable None ?s \<lparr>ud_runs = [], ud_env_file = None\<rparr> = (d1, Inr ''a:1'')"
    by (simp add: unix_enable_def Let_def)
  show ?thesis using unix_enable_sees [OF e hp, of "[]"] e by auto
qed

text \<open> The host that is shown.\<close>

lemma unix_status_stray_quote:
  assumes "get ''org.gnome.system.proxy'' ''mode'' = CHR 0x27 # ''manual'' @ [CHR 0x27, CHR 0x0A]"
    and "get ''org.gnome.system.proxy.http'' ''host'' = CHR 0x27 # h @ [CHR 0x27, CHR 0x0A]" "h \<noteq> []" "hd h \<noteq> CHR 0x27"
  shows "\<exists>m p. unix_status get env_http = SysOn m (h @ [CHR 0x27, CHR 0x0A]) p"
proof -
  have m: "trim_space [CHR 0x27, CHR ''m'', CHR ''a'', CHR ''n'', CHR ''u'', CHR ''a'', CHR ''l'', CHR 0x27, CHR 0x0A] =
    [CHR 0x27, CHR ''m'', CHR ''a'', CHR ''n'', CHR ''u'', CHR ''a'', CHR ''l'', CHR 0x27]" by code_simp
  obtain x h' where h: "h = x # h'" using assms(3) by (cases h) auto
  have "trim_right (\<lambda>c. c = CHR 0x27) (h @ [CHR 0x27, CHR 0x0A]) = h @ [CHR 0x27, CHR 0x0A]"
    by (rule trim_right_id) simp
  then show ?thesis using assms h by (simp add: unix_status_def m Let_def)
qed

lemma unix_status_stray_quote_witness:
  "\<exists>m p. unix_status (\<lambda>s k. if k = ''mode'' then CHR 0x27 # ''manual'' @ [CHR 0x27, CHR 0x0A] else CHR 0x27 # ''pc'' @ [CHR 0x27, CHR 0x0A]) [] =
     SysOn m (''pc'' @ [CHR 0x27, CHR 0x0A]) p"
  by (rule unix_status_stray_quote) simp_all

end
