(* ===== verification/Tool_Handlers.thy ===== *)
theory Tool_Handlers
  imports Agent_Chat Agent_Tools Sysproxy Web
begin

text \<open>
  The handlers of \<open>agent/tools.go\<close> that are not in the other theories of the agent: reading the configuration and the log,
  measuring all proxies, the stored sessions, the files of \<open>init\<close>, the proxy of the desktop, commands and the arguments of a
  capture. Texts that are shown are the data that they show.
\<close>

section \<open>Configuration\<close>

datatype config_answer = NoConfigYet string | ConfigText string | ConfigFails config_err

text \<open>Only a missing file is no error.\<close>

definition get_config_tool :: "agent \<Rightarrow> disk \<Rightarrow> config_answer" where
  "get_config_tool ag d =
     (if dk_files d (ag_path ag) = None then NoConfigYet (ag_path ag)
      else case load_cfg ag d of Inl e \<Rightarrow> ConfigFails e | Inr c \<Rightarrow> ConfigText (ag_encode ag c))"

datatype ping_answer = PingLoad config_err | PingRegister perr | Pings "(string \<times> (string + nat)) list"

text \<open>\<open>lat\<close> measures the proxy of a name in a registry; \<open>order\<close> is the order in which the map is gone through.\<close>

definition ping_proxies_tool :: "(world \<Rightarrow> string \<Rightarrow> string + nat) \<Rightarrow> string list \<Rightarrow> agent \<Rightarrow> disk \<Rightarrow> ping_answer" where
  "ping_proxies_tool lat order ag d = (case load_cfg ag d of
       Inl e \<Rightarrow> PingLoad e
     | Inr c \<Rightarrow> (case register_all (cf_proxies c) of
         Inl e \<Rightarrow> PingRegister e
       | Inr w \<Rightarrow> Pings (map (\<lambda>n. (n, lat w n)) order)))"

definition add_rule_tool :: "agent \<Rightarrow> args \<Rightarrow> disk \<Rightarrow> reply \<times> disk" where
  "add_rule_tool ag m d = (case load_cfg ag d of
       Inl e \<Rightarrow> (reply.Failed (LoadError e), d)
     | Inr c \<Rightarrow> write_config_back ag (c\<lparr>cf_rules := get_string m ''rule'' # cf_rules c\<rparr>) d)"

text \<open>\<open>init\<close> writes both files whether they exist or not; \<open>join\<close> is \<open>filepath.Join\<close>.\<close>

definition init_tool :: "(string \<Rightarrow> string \<Rightarrow> string) \<Rightarrow> string \<Rightarrow> string \<Rightarrow> string \<Rightarrow> args \<Rightarrow> disk \<Rightarrow> reply \<times> disk" where
  "init_tool join cwd cfg_text agent_text m d =
     (let dir = (if get_string m ''path'' = [] then cwd else get_string m ''path'') in
      case write_file (join dir ''config.yml'') cfg_text d of
        None \<Rightarrow> (reply.Failed WriteError, d)
      | Some d1 \<Rightarrow> (case write_file (join dir ''agent.yml'') agent_text d1 of
          None \<Rightarrow> (reply.Failed WriteError, d1)
        | Some d2 \<Rightarrow> (Saved, d2)))"

section \<open>Logs and captures\<close>

definition logs_tail_tool :: "string list option \<Rightarrow> args \<Rightarrow> web_entry list" where
  "logs_tail_tool file m =
     (let n = (case arg m ''n'' of JNum q \<Rightarrow> to_int (JNum q) | _ \<Rightarrow> 50)
      in read_log_file file (if n \<le> 0 then 50 else n) (get_string m ''level''))"

text \<open>Protocol, port, count and timeout of a capture.\<close>

definition packet_args :: "args \<Rightarrow> string \<times> int \<times> int \<times> int" where
  "packet_args m =
     (let p = get_string m ''proto''; n = to_int (arg m ''count''); t = to_int (arg m ''timeout'')
      in (if p = [] then ''all'' else p, to_int (arg m ''port''), if n \<le> 0 then 50 else n, if t \<le> 0 then 10 else t))"

section \<open>Sessions\<close>

text \<open>A row of the list: its number, the identity and the name, cut and with a mark when they are too long, the time, the turns
  and the number of messages without the system message.\<close>

record session_row =
  sr_number :: nat
  sr_id :: string
  sr_name :: string
  sr_updated :: nat
  sr_turns :: nat
  sr_count :: nat

definition dots_mark :: string where
  "dots_mark = [CHR 0xE2, CHR 0x80, CHR 0xA6]"

definition session_row_of :: "nat \<Rightarrow> session \<Rightarrow> session_row" where
  "session_row_of i s =
     \<lparr>sr_number = i + 1, sr_id = (if 24 < length (se_id s) then take 24 (se_id s) @ dots_mark else se_id s),
      sr_name = (if 30 < length (se_name s) then take 28 (se_name s) @ dots_mark else se_name s), sr_updated = se_updated s,
      sr_turns = se_turns s, sr_count = length (se_msgs s) - 1\<rparr>"

definition session_list_tool :: "(string \<times> session) list \<Rightarrow> session_row list" where
  "session_list_tool st = map (\<lambda>(i, s). session_row_of i s) (enumerate 0 (list_sessions st))"

datatype load_answer =
    LoadNeedsName
  | LoadFails "nat option"
  | NoMessages session
  | Excerpt "nat option" session "(role \<times> string) list"

text \<open>The text of a message: without white space around it, at most 200 bytes and on one line.\<close>

definition excerpt_text :: "string \<Rightarrow> string" where
  "excerpt_text s =
     (let c = trim_space s; c1 = (if 200 < length c then take 200 c @ dots_mark else c) in map (\<lambda>x. if x = LF then CHR '' '' else x) c1)"

definition session_index :: "string \<Rightarrow> nat option" where
  "session_index which = (case atoi (dropWhile (\<lambda>c. c = CHR ''#'' \<or> c = CHR '' '') which) of
       Some n \<Rightarrow> if 1 \<le> n then Some (nat n) else None
     | None \<Rightarrow> None)"

definition session_load_tool :: "args \<Rightarrow> (string \<times> session) list \<Rightarrow> load_answer" where
  "session_load_tool m st =
     (let which = get_string m ''idOrName''; l = to_int (arg m ''limit''); limit = (if l \<le> 0 then 20 else nat l) in
      if trim_space which = [] then LoadNeedsName
      else
        let idx = session_index which;
            name = (case idx of Some n \<Rightarrow> if n \<le> length (list_sessions st) then se_id (list_sessions st ! (n - 1)) else which | None \<Rightarrow> which)
        in case load_session name st of
            None \<Rightarrow> LoadFails idx
          | Some s \<Rightarrow>
              let ms = (case se_msgs s of x # r \<Rightarrow> if ms_role x = System then r else se_msgs s | [] \<Rightarrow> []);
                  ms1 = drop (length ms - limit) ms
              in if ms1 = [] then NoMessages s else Excerpt idx s (map (\<lambda>x. (ms_role x, excerpt_text (ms_content x))) ms1))"

text \<open>The answer of \<open>session_save\<close> is the session that was stored, None without a name. The store of the tool is its own: it
  does not know the conversation.\<close>

definition session_save_tool :: "nat \<Rightarrow> string \<Rightarrow> string \<Rightarrow> string \<Rightarrow> args \<Rightarrow> (string \<times> session) list \<Rightarrow> session option \<times> (string \<times> session) list" where
  "session_save_tool now uuid dated model m st =
     (let name = get_string m ''name'' in
      if trim_space name = [] then (None, st)
      else let s = (case load_session name st of None \<Rightarrow> new_session now uuid dated name model | Some s \<Rightarrow> s\<lparr>se_name := name\<rparr>)
        in (Some s, save_session now s st))"

definition session_export_tool :: "(string \<Rightarrow> bool) \<Rightarrow> (string \<Rightarrow> string) \<Rightarrow> (session \<Rightarrow> string) \<Rightarrow> args \<Rightarrow> (string \<times> session) list \<Rightarrow> disk \<Rightarrow> string option \<times> disk" where
  "session_export_tool is_abs in_store encode m st d =
     (case load_session (get_string m ''idOrName'') st of
        None \<Rightarrow> (None, d)
      | Some s \<Rightarrow> let dst = get_string m ''dst''; p = (if is_abs dst then dst else in_store dst) in
          (case write_file p (encode s) d of None \<Rightarrow> (None, d) | Some d' \<Rightarrow> (Some p, d')))"

definition session_import_tool :: "nat \<Rightarrow> string \<Rightarrow> (string \<Rightarrow> session option) \<Rightarrow> args \<Rightarrow> (string \<times> session) list \<Rightarrow> disk \<Rightarrow> session option \<times> (string \<times> session) list" where
  "session_import_tool now uuid decode m st d =
     (case dk_files d (get_string m ''src'') of
        None \<Rightarrow> (None, st)
      | Some b \<Rightarrow> (case decode b of
          None \<Rightarrow> (None, st)
        | Some s \<Rightarrow> let (s', st') = import_session now uuid s st in (Some s', st')))"

section \<open>The desktop and commands\<close>

datatype desktop_call = DesktopError string | DesktopStatus | DesktopOff | DesktopOn sys_settings

definition desktop_tool :: "args \<Rightarrow> desktop_call" where
  "desktop_tool m =
     (let a = get_string m ''action'' in
      if a = [] then DesktopError ''action''
      else if a = ''status'' then DesktopStatus
      else if a = ''off'' then DesktopOff
      else if a = ''on'' then DesktopOn \<lparr>st_http = get_string m ''address'', st_https = get_string m ''address'', st_no_proxy = get_string m ''no_proxy''\<rparr>
      else DesktopError a)"

text \<open>The program and its arguments.\<close>

definition run_local :: "bool \<Rightarrow> string \<Rightarrow> string list" where
  "run_local windows cmd = (if windows then [''cmd.exe'', ''/c'', cmd] else [''/bin/sh'', ''-c'', cmd])"

definition run_local_tool :: "bool \<Rightarrow> args \<Rightarrow> string list option" where
  "run_local_tool windows m = (if get_string m ''cmd'' = [] then None else Some (run_local windows (get_string m ''cmd'')))"

datatype remote_call = RemoteNeedsCmd | RemoteNeedsHost | RemoteOn string string string string int string

definition run_remote_tool :: "args \<Rightarrow> remote_call" where
  "run_remote_tool m =
     (if get_string m ''cmd'' = [] then RemoteNeedsCmd
      else if get_string m ''alias'' = [] \<and> get_string m ''host'' = [] then RemoteNeedsHost
      else RemoteOn (get_string m ''alias'') (get_string m ''host'') (get_string m ''user'') (get_string m ''password'')
        (case arg m ''port'' of JNum q \<Rightarrow> if 0 < q then to_int (JNum q) else 0 | _ \<Rightarrow> 0) (get_string m ''cmd''))"

section \<open>Facts\<close>

lemma load_session_stored:
  assumes "load_session which st = Some s"
  shows "s \<in> snd ` set st"
proof (cases "has_prefix (trim_space which) ''session_''")
  case True
  then have "map_of st (trim_space which) = Some s" using assms by (auto simp: load_session_def Let_def split: if_splits)
  then show ?thesis by (metis imageI map_of_SomeD snd_conv)
next
  case False
  then have "find (\<lambda>s. se_name s = trim_space which) (list_sessions st) = Some s"
    using assms by (auto simp: load_session_def Let_def split: if_splits)
  then have "s \<in> set (list_sessions st)" by (metis find_Some_iff nth_mem)
  then show ?thesis by (simp add: list_sessions_def)
qed

text \<open> Reading a session.\<close>

lemma session_load_recent:
  assumes "session_load_tool m st = Excerpt idx s es" "to_int (arg m ''limit'') = int n" "0 < n"
  shows "0 < length es \<and> length es \<le> n \<and> s \<in> snd ` set st \<and>
    es = map (\<lambda>x. (ms_role x, excerpt_text (ms_content x))) (drop (length (se_msgs s) - length es) (se_msgs s))"
proof -
  define ms where "ms = (case se_msgs s of x # r \<Rightarrow> if ms_role x = System then r else se_msgs s | [] \<Rightarrow> [])"
  obtain nm where l: "load_session nm st = Some s" and
    es: "es = map (\<lambda>x. (ms_role x, excerpt_text (ms_content x))) (drop (length ms - n) ms)" and ne: "drop (length ms - n) ms \<noteq> []"
    using assms by (auto simp: session_load_tool_def Let_def ms_def split: if_splits option.splits)
  have tl: "ms = drop (length (se_msgs s) - length ms) (se_msgs s)" by (cases "se_msgs s") (auto simp: ms_def)
  have le: "length ms \<le> length (se_msgs s)" by (cases "se_msgs s") (auto simp: ms_def)
  have len: "length es = min n (length ms)" using es by simp
  have d: "drop (length ms - n) ms = drop (length (se_msgs s) - length es) (se_msgs s)"
    using le len by (subst tl) (simp add: min_def)
  have "s \<in> snd ` set st" by (rule load_session_stored [OF l])
  moreover have "es = map (\<lambda>x. (ms_role x, excerpt_text (ms_content x))) (drop (length (se_msgs s) - length es) (se_msgs s))"
    unfolding d [symmetric] by (rule es)
  moreover have "0 < length es" unfolding es using ne by (simp only: length_map length_greater_0_conv not_False_eq_True)
  moreover have "length es \<le> n" using len by simp
  ultimately show ?thesis by blast
qed

definition th_store :: "(string \<times> session) list" where
  "th_store = [(''session_1'', (demo_session ''session_1'')\<lparr>se_msgs := [plain_message System ''sys'', plain_message User ''a'', plain_message Assistant ''b'']\<rparr>)]"

text \<open>The first session of the list, one message.\<close>

lemma session_load_recent_witness:
  "\<exists>s es. session_load_tool [(''idOrName'', JStr ''#1''), (''limit'', JNum 1)] th_store = Excerpt (Some 1) s es \<and> length es = 1 \<and> s \<in> snd ` set th_store"
proof -
  have i: "session_index ''#1'' = Some 1" "trim_space ''#1'' = ''#1''" "trim_space ''session_1'' = ''session_1''" "trim_space ''b'' = ''b''" by code_simp+
  obtain s es where run: "session_load_tool [(''idOrName'', JStr ''#1''), (''limit'', JNum 1)] th_store = Excerpt (Some 1) s es"
    by (simp add: session_load_tool_def th_store_def i arg_def get_string_def to_int_def load_session_def list_sessions_def demo_session_def
        has_prefix_def plain_message_def Let_def)
  have "to_int (arg [(''idOrName'', JStr ''#1''), (''limit'', JNum 1)] ''limit'') = int 1" by (simp add: arg_def to_int_def)
  from session_load_recent [OF run this] have "length es = 1 \<and> s \<in> snd ` set th_store" by linarith
  with run show ?thesis by blast
qed

text \<open> Saving a session.\<close>

lemma session_save_empty:
  assumes "trim_space n \<noteq> []" "load_session n st = None"
  shows "\<exists>s. session_save_tool now uuid dated model [(''name'', JStr n)] st = (Some s, save_session now s st) \<and>
    se_name s = n \<and> se_msgs s = [] \<and> se_turns s = 0 \<and> map_of (save_session now s st) (''session_'' @ uuid) = Some (s\<lparr>se_updated := now\<rparr>)"
proof -
  have "n \<noteq> []" using assms(1) by (auto simp: trim_space_def trim_right_def)
  then show ?thesis
    using assms by (simp add: session_save_tool_def get_string_def arg_def new_session_def save_session_def trim_messages_def Let_def update_conv')
qed

lemma session_save_empty_witness:
  "\<exists>s. session_save_tool 5 ''x'' [] ''m'' [(''name'', JStr ''work'')] [] = (Some s, save_session 5 s []) \<and> se_msgs s = []"
proof -
  have t: "trim_space ''work'' = ''work''" by code_simp
  have "load_session ''work'' [] = None" by (simp add: load_session_def list_sessions_def t Let_def)
  from session_save_empty [OF _ this, of 5 "''x''" "[]" "''m''"] show ?thesis unfolding t by blast
qed

text \<open> The files of the tool.\<close>

lemma init_tool_overwrites:
  assumes "init_tool join cwd cfg_text agent_text m d = (Saved, d')" "join (if get_string m ''path'' = [] then cwd else get_string m ''path'') ''config.yml'' = p"
    "join (if get_string m ''path'' = [] then cwd else get_string m ''path'') ''agent.yml'' = q" "p \<noteq> q"
  shows "dk_files d' = (dk_files d)(p \<mapsto> cfg_text, q \<mapsto> agent_text)"
  using assms by (auto simp: init_tool_def write_file_def Let_def split: if_splits option.splits)

lemma init_tool_overwrites_witness:
  "\<exists>d'. init_tool (\<lambda>a b. a @ ''/'' @ b) ''w'' ''new'' ''key'' [] \<lparr>dk_files = [''w/config.yml'' \<mapsto> ''mine''], dk_frozen = (\<lambda>p. False)\<rparr> = (Saved, d') \<and>
     dk_files d' ''w/config.yml'' = Some ''new''"
proof -
  let ?d = "\<lparr>dk_files = [''w/config.yml'' \<mapsto> ''mine''], dk_frozen = (\<lambda>p. False)\<rparr>"
  obtain d' :: disk where run: "init_tool (\<lambda>a b. a @ ''/'' @ b) ''w'' ''new'' ''key'' [] ?d = (Saved, d')"
    by (simp add: init_tool_def write_file_def Let_def)
  have "dk_files d' = (dk_files ?d)(''w/config.yml'' \<mapsto> ''new'', ''w/agent.yml'' \<mapsto> ''key'')"
    by (rule init_tool_overwrites [OF run]) (simp_all add: get_string_def arg_def)
  with run show ?thesis by simp
qed

end
