(* ===== verification/Tool_Registry.thy ===== *)
theory Tool_Registry
  imports Agent_Chat Services
begin

text \<open>
  The tools that the agent offers to the model (\<open>agent/tools.go\<close>, \<open>agent/extra_tools.go\<close>, \<open>agent/commands_tools.go\<close>):
  the definition of each tool with the types of its parameters, the registration in the order of the sources, and the call of a
  tool by its name. The descriptions, texts for the model, are left out. A handler is known by the file that registers it.
\<close>

section \<open>Definitions\<close>

datatype param_type = PString | PInteger | PBool | PArray | PObject

record tool_param =
  tp_name :: string
  tp_type :: param_type
  tp_enum :: "string list"

record tool_def =
  td_name :: string
  td_params :: "tool_param list"
  td_required :: "string list"

definition param :: "string \<Rightarrow> param_type \<Rightarrow> tool_param" where
  "param n t = \<lparr>tp_name = n, tp_type = t, tp_enum = []\<rparr>"

definition choice :: "string \<Rightarrow> string list \<Rightarrow> tool_param" where
  "choice n vs = \<lparr>tp_name = n, tp_type = PString, tp_enum = vs\<rparr>"

section \<open>Tools of \<open>tools.go\<close>\<close>

definition def_get_config :: tool_def where
  "def_get_config = \<lparr>td_name = ''get_config'',
     td_params = [],
     td_required = []\<rparr>"

definition def_update_config :: tool_def where
  "def_update_config = \<lparr>td_name = ''update_config'',
     td_params = [param ''yaml'' PString],
     td_required = [''yaml'']\<rparr>"

definition def_gen_config :: tool_def where
  "def_gen_config = \<lparr>td_name = ''gen_config'',
     td_params = [param ''spec'' PObject, param ''path'' PString],
     td_required = [''spec'']\<rparr>"

definition def_ping_proxies :: tool_def where
  "def_ping_proxies = \<lparr>td_name = ''ping_proxies'',
     td_params = [],
     td_required = []\<rparr>"

definition def_switch_group :: tool_def where
  "def_switch_group = \<lparr>td_name = ''switch_group'',
     td_params = [param ''group'' PString, param ''proxy'' PString],
     td_required = [''group'', ''proxy'']\<rparr>"

definition def_add_rule :: tool_def where
  "def_add_rule = \<lparr>td_name = ''add_rule'',
     td_params = [param ''rule'' PString],
     td_required = [''rule'']\<rparr>"

definition def_service :: tool_def where
  "def_service = \<lparr>td_name = ''service'',
     td_params = [choice ''action'' [''start'', ''stop'', ''status''], choice ''name'' [''proxy'', ''dns'', ''web'', ''tun'',
       ''n2n'', ''stunvpv'']],
     td_required = [''action'']\<rparr>"

definition def_file_copy :: tool_def where
  "def_file_copy = \<lparr>td_name = ''file_copy'',
     td_params = [choice ''action'' [''upload'', ''download''], param ''alias'' PString, param ''host'' PString,
       param ''port'' PInteger, param ''user'' PString, param ''password'' PString, param ''keyPath'' PString,
       param ''src'' PString, param ''dst'' PString],
     td_required = [''action'', ''src'', ''dst'']\<rparr>"

definition def_ask_human :: tool_def where
  "def_ask_human = \<lparr>td_name = ''ask_human'',
     td_params = [param ''question'' PString, param ''choices'' PArray],
     td_required = [''question'']\<rparr>"

definition def_recall :: tool_def where
  "def_recall = \<lparr>td_name = ''recall'',
     td_params = [param ''query'' PString],
     td_required = []\<rparr>"

definition def_remember :: tool_def where
  "def_remember = \<lparr>td_name = ''remember'',
     td_params = [param ''key'' PString, param ''value'' PString],
     td_required = [''key'', ''value'']\<rparr>"

definition def_list_commands :: tool_def where
  "def_list_commands = \<lparr>td_name = ''list_commands'',
     td_params = [],
     td_required = []\<rparr>"

definition def_net_connections :: tool_def where
  "def_net_connections = \<lparr>td_name = ''net_connections'',
     td_params = [choice ''proto'' [''all'', ''tcp'', ''udp'']],
     td_required = [''proto'']\<rparr>"

definition def_net_listeners :: tool_def where
  "def_net_listeners = \<lparr>td_name = ''net_listeners'',
     td_params = [],
     td_required = []\<rparr>"

definition def_net_stats :: tool_def where
  "def_net_stats = \<lparr>td_name = ''net_stats'',
     td_params = [],
     td_required = []\<rparr>"

definition def_net_packet :: tool_def where
  "def_net_packet = \<lparr>td_name = ''net_packet'',
     td_params = [choice ''proto'' [''all'', ''tcp'', ''udp''], param ''port'' PInteger, param ''count'' PInteger,
       param ''timeout'' PInteger],
     td_required = [''proto'', ''count'', ''timeout'']\<rparr>"

definition def_session_list :: tool_def where
  "def_session_list = \<lparr>td_name = ''session_list'',
     td_params = [],
     td_required = []\<rparr>"

definition def_session_load :: tool_def where
  "def_session_load = \<lparr>td_name = ''session_load'',
     td_params = [param ''idOrName'' PString, param ''limit'' PInteger],
     td_required = [''idOrName'']\<rparr>"

definition def_session_save :: tool_def where
  "def_session_save = \<lparr>td_name = ''session_save'',
     td_params = [param ''name'' PString],
     td_required = [''name'']\<rparr>"

definition def_sysproxy :: tool_def where
  "def_sysproxy = \<lparr>td_name = ''sysproxy'',
     td_params = [],
     td_required = []\<rparr>"

definition def_init :: tool_def where
  "def_init = \<lparr>td_name = ''init'',
     td_params = [],
     td_required = []\<rparr>"

definition def_logs_tail :: tool_def where
  "def_logs_tail = \<lparr>td_name = ''logs_tail'',
     td_params = [param ''n'' PInteger, param ''level'' PString],
     td_required = []\<rparr>"

definition def_run_local :: tool_def where
  "def_run_local = \<lparr>td_name = ''run_local'',
     td_params = [param ''cmd'' PString],
     td_required = [''cmd'']\<rparr>"

definition def_run_remote :: tool_def where
  "def_run_remote = \<lparr>td_name = ''run_remote'',
     td_params = [param ''alias'' PString, param ''host'' PString, param ''user'' PString, param ''password'' PString,
       param ''port'' PInteger, param ''cmd'' PString],
     td_required = [''cmd'']\<rparr>"

section \<open>Tools of \<open>extra_tools.go\<close>\<close>

definition def_session_export :: tool_def where
  "def_session_export = \<lparr>td_name = ''session_export'',
     td_params = [param ''idOrName'' PString, param ''dst'' PString],
     td_required = [''idOrName'', ''dst'']\<rparr>"

definition def_session_import :: tool_def where
  "def_session_import = \<lparr>td_name = ''session_import'',
     td_params = [param ''src'' PString],
     td_required = [''src'']\<rparr>"

definition def_add_proxy :: tool_def where
  "def_add_proxy = \<lparr>td_name = ''add_proxy'',
     td_params = [param ''name'' PString, param ''type'' PString, param ''server'' PString, param ''port'' PInteger,
       param ''cipher'' PString, param ''password'' PString, param ''uuid'' PString, param ''sni'' PString,
       param ''alterId'' PInteger],
     td_required = [''name'', ''type'', ''server'', ''port'']\<rparr>"

definition def_add_rule_again :: tool_def where
  "def_add_rule_again = \<lparr>td_name = ''add_rule'',
     td_params = [param ''rule'' PString],
     td_required = [''rule'']\<rparr>"

definition def_url_action :: tool_def where
  "def_url_action = \<lparr>td_name = ''url_action'',
     td_params = [choice ''action'' [''add'', ''remove'', ''list''], param ''match'' PString, param ''regex'' PBool,
       choice ''urlAction'' [''block'', ''redirect'', ''inject''], param ''status'' PInteger, param ''body'' PString,
       param ''location'' PString, param ''headers'' PArray],
     td_required = [''action'']\<rparr>"

definition def_flow :: tool_def where
  "def_flow = \<lparr>td_name = ''flow'',
     td_params = [choice ''action'' [''status'', ''enable'', ''disable'', ''dump'', ''replay''], param ''logPath'' PString,
       param ''dbPath'' PString, param ''maxFlows'' PInteger, param ''src'' PString, param ''dst'' PString],
     td_required = [''action'']\<rparr>"

definition def_upstream :: tool_def where
  "def_upstream = \<lparr>td_name = ''upstream'',
     td_params = [choice ''action'' [''status'', ''enable'', ''disable''], param ''url'' PString, param ''timeout'' PInteger],
     td_required = [''action'']\<rparr>"

definition def_mtls :: tool_def where
  "def_mtls = \<lparr>td_name = ''mtls'',
     td_params = [choice ''action'' [''status'', ''enable'', ''disable''], choice ''target'' [''upstream'', ''origin''],
       param ''crt'' PString, param ''key'' PString],
     td_required = [''action'']\<rparr>"

section \<open>Tools of \<open>commands_tools.go\<close>\<close>

definition def_forward_reverse :: tool_def where
  "def_forward_reverse = \<lparr>td_name = ''forward_reverse'',
     td_params = [choice ''action'' [''start'', ''stop'', ''status''], param ''listen'' PString, param ''target'' PString],
     td_required = [''action'']\<rparr>"

definition def_corsproxy :: tool_def where
  "def_corsproxy = \<lparr>td_name = ''corsproxy'',
     td_params = [choice ''action'' [''start'', ''stop'', ''status''], param ''port'' PInteger],
     td_required = [''action'']\<rparr>"

definition def_wireguard :: tool_def where
  "def_wireguard = \<lparr>td_name = ''wireguard'',
     td_params = [choice ''action'' [''start'', ''stop'', ''status''], param ''no-tun'' PBool],
     td_required = [''action'']\<rparr>"

definition def_n2n :: tool_def where
  "def_n2n = \<lparr>td_name = ''n2n'',
     td_params = [choice ''action'' [''start'', ''stop'', ''status''], param ''no-tun'' PBool],
     td_required = [''action'']\<rparr>"

definition def_stunvpv :: tool_def where
  "def_stunvpv = \<lparr>td_name = ''stunvpv'',
     td_params = [choice ''action'' [''start'', ''stop'', ''status''], param ''no-tun'' PBool],
     td_required = [''action'']\<rparr>"

definition def_tinc :: tool_def where
  "def_tinc = \<lparr>td_name = ''tinc'',
     td_params = [choice ''action'' [''start'', ''stop'', ''status''], param ''private'' PString, param ''name'' PString,
       param ''ca'' PString, param ''listen'' PString, param ''endpoints'' PArray, param ''vip'' PString,
       param ''keepalive'' PInteger],
     td_required = [''action'']\<rparr>"

definition def_frp :: tool_def where
  "def_frp = \<lparr>td_name = ''frp'',
     td_params = [choice ''action'' [''start'', ''stop'', ''status''], choice ''role'' [''server'', ''client''],
       param ''port'' PInteger, param ''target'' PString, param ''local'' PInteger, param ''remote'' PInteger,
       param ''server'' PString, param ''secret'' PString],
     td_required = [''action'', ''role'']\<rparr>"

definition def_tproxy :: tool_def where
  "def_tproxy = \<lparr>td_name = ''tproxy'',
     td_params = [choice ''action'' [''start'', ''stop'', ''status''], param ''port'' PInteger, param ''mark'' PInteger,
       param ''table'' PInteger],
     td_required = [''action'']\<rparr>"

definition def_mitm :: tool_def where
  "def_mitm = \<lparr>td_name = ''mitm'',
     td_params = [choice ''action'' [''start'', ''stop'', ''status''], param ''ca-path'' PString, param ''http-port'' PInteger],
     td_required = [''action'']\<rparr>"

definition def_sysproxy_again :: tool_def where
  "def_sysproxy_again = \<lparr>td_name = ''sysproxy'',
     td_params = [choice ''action'' [''on'', ''off'', ''status''], param ''proxyAddr'' PString, param ''no-proxy'' PString],
     td_required = [''action'']\<rparr>"

definition def_net_connections_again :: tool_def where
  "def_net_connections_again = \<lparr>td_name = ''net_connections'',
     td_params = [param ''proto'' PString, param ''port'' PInteger, param ''pid'' PInteger, param ''state'' PString,
       param ''src'' PString, param ''dst'' PString],
     td_required = []\<rparr>"

definition def_net_listeners_again :: tool_def where
  "def_net_listeners_again = \<lparr>td_name = ''net_listeners'',
     td_params = [param ''proto'' PString, param ''port'' PInteger, param ''pid'' PInteger, param ''state'' PString,
       param ''src'' PString, param ''dst'' PString],
     td_required = []\<rparr>"

definition def_net_ping :: tool_def where
  "def_net_ping = \<lparr>td_name = ''net_ping'',
     td_params = [param ''host'' PString, choice ''mode'' [''icmp'', ''tcp'', ''udp''], param ''count'' PInteger,
       param ''port'' PInteger, param ''traceroute'' PBool, param ''hops'' PInteger],
     td_required = [''host'']\<rparr>"

definition def_net_packets :: tool_def where
  "def_net_packets = \<lparr>td_name = ''net_packets'',
     td_params = [choice ''action'' [''start'', ''stop'', ''status''], param ''proto'' PString, param ''port'' PInteger,
       param ''count'' PInteger, param ''timeout'' PInteger],
     td_required = [''action'']\<rparr>"

definition def_run :: tool_def where
  "def_run = \<lparr>td_name = ''run'',
     td_params = [choice ''mode'' [''local'', ''remote''], param ''cmd'' PString, param ''alias'' PString,
       param ''host'' PString, param ''port'' PInteger, param ''user'' PString, param ''password'' PString,
       param ''key-path'' PString],
     td_required = [''mode'', ''cmd'']\<rparr>"

text \<open>The tools that \<open>registerStartStopTool\<close> makes, and the stubs for modes that do not exist.\<close>

definition def_start_stop :: "string \<Rightarrow> bool \<Rightarrow> tool_def" where
  "def_start_stop name needs_args = \<lparr>td_name = name,
     td_params = choice ''action'' [''start'', ''stop'', ''status''] # (if needs_args then [param ''args'' PArray] else []),
     td_required = [''action'']\<rparr>"

definition def_stub :: "string \<Rightarrow> tool_def" where
  "def_stub mode = \<lparr>td_name = ''proxy_'' @ mode, td_params = [param ''args'' PArray], td_required = []\<rparr>"

section \<open>Registration\<close>

datatype origin = CoreTool | ExtraTool | CommandTool

record tool_registry =
  rg_defs :: "tool_def list"
  rg_funcs :: "string \<rightharpoonup> origin"

definition no_tools :: tool_registry where
  "no_tools = \<lparr>rg_defs = [], rg_funcs = Map.empty\<rparr>"

definition offer :: "tool_def \<Rightarrow> tool_registry \<Rightarrow> tool_registry" where
  "offer d r = r\<lparr>rg_defs := rg_defs r @ [d]\<rparr>"

definition handle_with :: "origin \<Rightarrow> string \<Rightarrow> tool_registry \<Rightarrow> tool_registry" where
  "handle_with og n r = r\<lparr>rg_funcs := (rg_funcs r)(n \<mapsto> og)\<rparr>"

definition register_tool :: "origin \<Rightarrow> tool_def \<Rightarrow> tool_registry \<Rightarrow> tool_registry" where
  "register_tool og d r = handle_with og (td_name d) (offer d r)"

definition core_defs :: "tool_def list" where
  "core_defs = [def_get_config, def_update_config, def_gen_config, def_ping_proxies, def_switch_group, def_add_rule,
      def_service, def_file_copy, def_ask_human, def_recall, def_remember, def_list_commands,
      def_net_connections, def_net_listeners, def_net_stats, def_net_packet, def_session_list, def_session_load,
      def_session_save, def_sysproxy, def_init, def_logs_tail, def_run_local, def_run_remote]"

definition register_core :: "tool_registry \<Rightarrow> tool_registry" where
  "register_core = fold (register_tool CoreTool) core_defs"

definition netdiag_defs :: "tool_def list" where
  "netdiag_defs = [def_net_connections_again, def_net_listeners_again, def_net_ping, def_net_packets]"

definition netdiag_shell :: "string list" where
  "netdiag_shell = [''net_connections'', ''net_listeners'', ''net_ping'', ''net_packets'']"

definition stub_modes :: "string list" where
  "stub_modes = [''local'', ''upstream'', ''dns'', ''wireguard'', ''socks5'']"

definition command_defs :: "tool_def list" where
  "command_defs = [def_forward_reverse, def_start_stop ''forward_local'' True, def_start_stop ''forward_dynamic'' True,
     def_start_stop ''forward_udp'' True, def_start_stop ''forward_tls'' True, def_start_stop ''socat'' True, def_corsproxy, def_wireguard,
     def_tinc, def_frp, def_tproxy, def_mitm, def_start_stop ''tun'' False, def_n2n, def_stunvpv, def_run, def_sysproxy_again]"

definition register_commands :: "tool_registry \<Rightarrow> tool_registry" where
  "register_commands r =
     fold (\<lambda>m. register_tool CommandTool (def_stub m)) stub_modes
       (fold (handle_with CommandTool) netdiag_shell (fold offer netdiag_defs (fold (register_tool CommandTool) command_defs r)))"

definition register_extra :: "tool_registry \<Rightarrow> tool_registry" where
  "register_extra r =
     fold (register_tool ExtraTool) [def_url_action, def_flow, def_upstream, def_mtls]
       (register_commands (fold (register_tool ExtraTool) [def_session_export, def_session_import, def_add_proxy, def_add_rule_again] r))"

definition agent_registry :: tool_registry where
  "agent_registry = register_extra (register_core no_tools)"

text \<open>\<open>run\<close> is what the handlers do, None a panic: it is reported on the terminal and the result is the empty string.\<close>

datatype tool_result = UnknownTool string | ToolText string

definition call_tool :: "tool_registry \<Rightarrow> (origin \<Rightarrow> string \<Rightarrow> args \<Rightarrow> string option) \<Rightarrow> string \<Rightarrow> args \<Rightarrow> tool_result" where
  "call_tool r run n m = (case rg_funcs r n of
       None \<Rightarrow> UnknownTool n
     | Some og \<Rightarrow> ToolText (case run og n m of None \<Rightarrow> [] | Some s \<Rightarrow> s))"

section \<open>Facts\<close>

text \<open>A definition in the sense of the schema: names and choices are distinct, required parameters are declared, and only
  strings have choices.\<close>

definition tool_ok :: "tool_def \<Rightarrow> bool" where
  "tool_ok d \<longleftrightarrow> td_name d \<noteq> [] \<and> distinct (map tp_name (td_params d)) \<and> distinct (td_required d) \<and>
     list_all (\<lambda>n. List.member (map tp_name (td_params d)) n) (td_required d) \<and>
     list_all (\<lambda>p. distinct (tp_enum p) \<and> (tp_enum p = [] \<or> tp_type p = PString)) (td_params d)"

lemma fold_register_defs: "rg_defs (fold (register_tool og) ds r) = rg_defs r @ ds"
  by (induction ds arbitrary: r) (simp_all add: register_tool_def offer_def handle_with_def)

lemma fold_offer_defs: "rg_defs (fold offer ds r) = rg_defs r @ ds" "rg_funcs (fold offer ds r) = rg_funcs r"
  by (induction ds arbitrary: r) (simp_all add: offer_def)

lemma fold_handle: "rg_defs (fold (handle_with og) ns r) = rg_defs r"
    "rg_funcs (fold (handle_with og) ns r) n = (if n \<in> set ns then Some og else rg_funcs r n)"
  by (induction ns arbitrary: r) (auto simp: handle_with_def)

lemma fold_register_funcs:
  "rg_funcs (fold (register_tool og) ds r) n = (if n \<in> td_name ` set ds then Some og else rg_funcs r n)"
  by (induction ds arbitrary: r) (auto simp: register_tool_def offer_def handle_with_def)

lemma fold_stubs: "fold (\<lambda>m. register_tool og (def_stub m)) ms = fold (register_tool og) (map def_stub ms)"
  by (simp add: fold_map comp_def)

definition offered :: "tool_def list" where
  "offered = core_defs @ [def_session_export, def_session_import, def_add_proxy, def_add_rule_again] @ command_defs @ netdiag_defs @
     map def_stub stub_modes @ [def_url_action, def_flow, def_upstream, def_mtls]"

lemma registry_defs: "rg_defs agent_registry = offered"
  unfolding agent_registry_def register_extra_def register_commands_def register_core_def fold_stubs fold_register_defs
    fold_handle fold_offer_defs
  by (simp add: no_tools_def offered_def)

lemma registry_funcs:
  "rg_funcs agent_registry n =
     (if n \<in> td_name ` {def_url_action, def_flow, def_upstream, def_mtls} then Some ExtraTool
      else if n \<in> td_name ` def_stub ` set stub_modes \<or> n \<in> set netdiag_shell \<or> n \<in> td_name ` set command_defs then Some CommandTool
      else if n \<in> td_name ` {def_session_export, def_session_import, def_add_proxy, def_add_rule_again} then Some ExtraTool
      else if n \<in> td_name ` set core_defs then Some CoreTool else None)"
  unfolding agent_registry_def register_extra_def register_commands_def register_core_def fold_stubs fold_register_funcs
    fold_handle fold_offer_defs
  by (simp add: no_tools_def)

lemma offered_ok: "list_all tool_ok offered"
  by code_simp

lemma handled_names: "rg_funcs agent_registry n \<noteq> None \<longleftrightarrow> n \<in> td_name ` set offered"
proof -
  have names: "td_name ` set netdiag_defs = set netdiag_shell" by code_simp
  show ?thesis unfolding registry_funcs offered_def set_append image_Un names by (auto simp: image_image)
qed


text \<open> Names that are offered twice.\<close>

lemma offered_twice:
  "map td_name (filter (\<lambda>d. 1 < length (filter (\<lambda>e. td_name e = td_name d) (rg_defs agent_registry))) (rg_defs agent_registry)) =
     [''add_rule'', ''net_connections'', ''net_listeners'', ''sysproxy'', ''add_rule'', ''sysproxy'', ''net_connections'', ''net_listeners''] \<and>
   map (rg_funcs agent_registry) [''add_rule'', ''net_connections'', ''net_listeners'', ''sysproxy''] =
     [Some ExtraTool, Some CommandTool, Some CommandTool, Some CommandTool] \<and>
   td_params def_sysproxy = [] \<and> td_params def_sysproxy_again \<noteq> [] \<and> td_required def_net_connections = [''proto''] \<and>
   td_required def_net_connections_again = []"
proof -
  have "map td_name (filter (\<lambda>d. 1 < length (filter (\<lambda>e. td_name e = td_name d) offered)) offered) =
     [''add_rule'', ''net_connections'', ''net_listeners'', ''sysproxy'', ''add_rule'', ''sysproxy'', ''net_connections'', ''net_listeners'']"
    by code_simp
  moreover have "map (rg_funcs agent_registry) [''add_rule'', ''net_connections'', ''net_listeners'', ''sysproxy''] =
     [Some ExtraTool, Some CommandTool, Some CommandTool, Some CommandTool]"
    by code_simp
  ultimately show ?thesis
    by (simp add: registry_defs def_sysproxy_def def_sysproxy_again_def def_net_connections_def def_net_connections_again_def)
qed

text \<open> Calls.\<close>

lemma call_tool_known:
  "(\<exists>x. call_tool agent_registry run n m = ToolText x) \<longleftrightarrow> n \<in> td_name ` set offered"
proof -
  have "(\<exists>x. call_tool agent_registry run n m = ToolText x) \<longleftrightarrow> rg_funcs agent_registry n \<noteq> None"
    by (simp add: call_tool_def split: option.split)
  then show ?thesis using handled_names by simp
qed

text \<open> What the mode for editing does not ask for.\<close>

lemma edit_mode_starts_unasked:
  assumes "current_mode (ch_mode c) = Edit" "start_command (tl_name t) m = Some w" "tl_name t \<noteq> ''sysproxy''"
  shows "tool_step su t c = run_tool su t c"
proof -
  have "\<not> is_exec_tool (tl_name t)"
  proof
    assume "is_exec_tool (tl_name t)"
    then have n: "tl_name t = ''service'' \<or> tl_name t = ''run_local'' \<or> tl_name t = ''run_remote'' \<or> tl_name t = ''file_copy''"
      using assms(3) by (auto simp: is_exec_tool_def)
    have "list_all (\<lambda>n. start_command n m = None) [''service'', ''run_local'', ''run_remote'', ''file_copy'']"
      by (simp add: start_command_def start_stop_tools_def)
    with n assms(2) show False by auto
  qed
  then show ?thesis using assms(1) by (simp add: tool_step_def needs_confirm_def)
qed

lemma edit_mode_starts_unasked_witness:
  "tool_step demo_surroundings \<lparr>tl_id = ''1'', tl_name = ''n2n'', tl_args = []\<rparr> (demo_chat 2) =
     run_tool demo_surroundings \<lparr>tl_id = ''1'', tl_name = ''n2n'', tl_args = []\<rparr> (demo_chat 2)"
  by (rule edit_mode_starts_unasked [where m = "[]" and w = "[''n2n'']"])
     (simp_all add: demo_chat_def current_mode_def ai_modes_def start_command_def start_stop_tools_def no_tun_def arg_def get_bool_def)

end
