(* ===== verification/Tun.thy ===== *)
theory Tun
  imports Config N2n Stunvpv "HOL-Library.Sublist"
begin

text \<open>
  The bridge between a TUN device and an overlay network (\<open>tun/tun.go\<close>, \<open>tun/peer.go\<close> and
  \<open>bridgeTUN\<close> of \<open>cmd/runtime.go\<close>), the commands that set routes (\<open>tun/route.go\<close>) and the
  table of intercepted names (\<open>tun/dns.go\<close>).

  The kernel device is what is read from it and what has been written to it.
\<close>

section \<open>The device\<close>

definition new_tun_device :: "tun_config \<Rightarrow> tun_config" where
  "new_tun_device c = c\<lparr>tc_mtu := (if tc_mtu c \<le> 0 then 1500 else tc_mtu c),
     tc_device := or_str (tc_device c) ''net-redirect'', tc_gateway := or_str (tc_gateway c) ''198.18.0.1'',
     tc_cidr := or_str (tc_cidr c) ''198.18.0.0/16'', tc_dns := or_str (tc_dns c) ''198.18.0.2''\<rparr>"

text \<open>The queue of packets from the overlay (None before the start), and what has been written.\<close>

record tun_device =
  td_inbound :: "bytes list option"
  td_closed :: bool
  td_written :: "bytes list"

definition fresh_device :: tun_device where
  "fresh_device = \<lparr>td_inbound = None, td_closed = False, td_written = []\<rparr>"

definition start_device :: "tun_device \<Rightarrow> tun_device" where
  "start_device d = d\<lparr>td_inbound := Some []\<rparr>"

definition shutdown_device :: "tun_device \<Rightarrow> tun_device" where
  "shutdown_device d = d\<lparr>td_closed := (td_inbound d \<noteq> None)\<rparr>"

definition queue_room :: nat where
  "queue_room = 1024"

text \<open>\<open>WritePacket\<close>; None is the panic of a send on a closed channel.\<close>

definition write_packet :: "bytes \<Rightarrow> tun_device \<Rightarrow> tun_device option" where
  "write_packet p d = (case td_inbound d of
       None \<Rightarrow> Some d
     | Some q \<Rightarrow>
       (if td_closed d then None
        else if length q < queue_room then Some (d\<lparr>td_inbound := Some (q @ [p])\<rparr>)
        else Some d))"

text \<open>One turn of \<open>writeLoop\<close>.\<close>

definition write_turn :: "tun_device \<Rightarrow> tun_device" where
  "write_turn d = (case td_inbound d of
       Some (p # q) \<Rightarrow> d\<lparr>td_inbound := Some q, td_written := td_written d @ [p]\<rparr>
     | _ \<Rightarrow> d)"

section \<open>Packets\<close>

text \<open>\<open>parsePacket\<close>: destination, port and protocol; the outer None is an index out of bounds,
  the inner one an error.\<close>

definition dest_port :: "bytes \<Rightarrow> nat \<Rightarrow> nat option" where
  "dest_port data hl = u16_at data (hl + 2)"

definition parse_packet :: "bytes \<Rightarrow> (ip \<times> nat \<times> byte) option option" where
  "parse_packet data =
     (if length data < 20 then Some None
      else do {
        v \<leftarrow> at_index data 0;
        if unat v div 16 \<noteq> 4 then Some None
        else let hl = unat v mod 16 * 4 in
          if hl < 20 \<or> length data < hl then Some None
          else do {
            proto \<leftarrow> at_index data 9;
            dst \<leftarrow> slice data 16 20;
            if proto = 6 then
              (if length data < hl + 20 then Some (Some (dst, 0, proto))
               else map_option (\<lambda>p. Some (dst, p, proto)) (dest_port data hl))
            else if proto = 17 then
              (if length data < hl + 8 then Some (Some (dst, 0, proto))
               else map_option (\<lambda>p. Some (dst, p, proto)) (dest_port data hl))
            else Some (Some (dst, 0, proto)) } })"

text \<open>What \<open>readLoop\<close> hands to the overlay for the packets that it reads.\<close>

definition routed :: "bytes \<Rightarrow> (ip \<times> bytes) option" where
  "routed p = (if p = [] then None
     else case parse_packet p of Some (Some (dst, _)) \<Rightarrow> Some (dst, p) | _ \<Rightarrow> None)"

definition read_loop :: "bytes list \<Rightarrow> (ip \<times> bytes) list" where
  "read_loop ps = List.map_filter routed ps"

text \<open>
  The bridge. What is read on one side is sent, packet by packet. On the other side \<open>WritePacket\<close>
  is called by the goroutines of the overlay, while the write loop takes its turns: any
  interleaving of the two.
\<close>

definition bridge_out :: "(ip \<Rightarrow> bytes \<Rightarrow> 'd) \<Rightarrow> bytes list \<Rightarrow> 'd list" where
  "bridge_out send ps = map (\<lambda>(dst, p). send dst p) (read_loop ps)"

datatype device_event = FromOverlay ip bytes | WriteTurn

fun device_run :: "device_event list \<Rightarrow> tun_device \<Rightarrow> tun_device option" where
  "device_run [] d = Some d"
| "device_run (FromOverlay src p # evs) d =
     (case write_packet p d of None \<Rightarrow> None | Some d' \<Rightarrow> device_run evs d')"
| "device_run (WriteTurn # evs) d = device_run evs (write_turn d)"

fun from_overlay :: "device_event list \<Rightarrow> (ip \<times> bytes) list" where
  "from_overlay [] = []"
| "from_overlay (FromOverlay src p # evs) = (src, p) # from_overlay evs"
| "from_overlay (WriteTurn # evs) = from_overlay evs"

text \<open>
  The network between two sides. Datagrams are lost, duplicated and delivered in any order, and
  the receiver handles each in a goroutine of its own: \<open>order\<close> has the numbers of the datagrams in
  the order in which their handlers run, each handler as one step.
\<close>

definition in_transit :: "nat list \<Rightarrow> 'd list \<Rightarrow> 'd list" where
  "in_transit order ds = map ((!) ds) (filter (\<lambda>i. i < length ds) order)"

fun handle_all :: "('s \<Rightarrow> 'd \<Rightarrow> ('s \<times> 'o list) option) \<Rightarrow> 'd list \<Rightarrow> 's \<Rightarrow> ('s \<times> 'o list) option" where
  "handle_all h [] s = Some (s, [])"
| "handle_all h (d # ds) s = (case h s d of
       None \<Rightarrow> None
     | Some (s1, xs) \<Rightarrow> (case handle_all h ds s1 of
           None \<Rightarrow> None | Some (s2, ys) \<Rightarrow> Some (s2, xs @ ys)))"

section \<open>Commands\<close>

datatype platform = Windows | Unix

definition add_route_cmd :: "platform \<Rightarrow> string \<Rightarrow> string \<Rightarrow> string \<Rightarrow> string list" where
  "add_route_cmd os dest gw iface = (case os of
       Windows \<Rightarrow> [''cmd'', ''/c'', ''route add '' @ dest @ '' '' @ gw @ '' IF 1'']
     | Unix \<Rightarrow> [''ip'', ''route'', ''add'', dest, ''via'', gw, ''dev'', iface])"

definition del_route_cmd :: "platform \<Rightarrow> string \<Rightarrow> string \<Rightarrow> string \<Rightarrow> string list" where
  "del_route_cmd os dest gw iface = (case os of
       Windows \<Rightarrow> [''cmd'', ''/c'', ''route delete '' @ dest]
     | Unix \<Rightarrow> [''ip'', ''route'', ''del'', dest, ''via'', gw, ''dev'', iface])"

definition cleanup_cmd :: "platform \<Rightarrow> tun_config \<Rightarrow> string list" where
  "cleanup_cmd os c = (case os of
       Windows \<Rightarrow> [''cmd'', ''/c'', ''netsh interface ipv4 delete route '' @ tc_cidr c @ '' '' @ tc_device c]
     | Unix \<Rightarrow> [''ip'', ''route'', ''del'', tc_cidr c, ''dev'', tc_device c])"

section \<open>Intercepted names\<close>

record interceptor =
  ic_ips :: "string \<rightharpoonup> ip"
  ic_domains :: "string \<rightharpoonup> string"
  ic_cidr :: ip_net
  ic_real :: string

definition new_interceptor :: "string \<Rightarrow> string \<Rightarrow> interceptor option" where
  "new_interceptor cidr real = map_option
     (\<lambda>n. \<lparr>ic_ips = Map.empty, ic_domains = Map.empty, ic_cidr = n, ic_real = real\<rparr>) (parse_cidr cidr)"

definition ic_record :: "string \<Rightarrow> ip \<Rightarrow> ip \<Rightarrow> interceptor \<Rightarrow> interceptor" where
  "ic_record domain real fake d = d\<lparr>ic_ips := (ic_ips d)(domain \<mapsto> real),
     ic_domains := (ic_domains d)(ip_string real \<mapsto> domain, ip_string fake \<mapsto> domain)\<rparr>"

definition ic_lookup_domain :: "interceptor \<Rightarrow> ip \<Rightarrow> string option" where
  "ic_lookup_domain d a = ic_domains d (ip_string a)"

definition ic_lookup_ip :: "interceptor \<Rightarrow> string \<Rightarrow> ip option" where
  "ic_lookup_ip d domain = ic_ips d domain"

definition ic_is_fake :: "interceptor \<Rightarrow> ip \<Rightarrow> bool" where
  "ic_is_fake d a = net_contains (ic_cidr d) a"

lemma ic_record_found:
  "ic_lookup_domain (ic_record domain real fake d) fake = Some domain"
  "ic_lookup_domain (ic_record domain real fake d) real = Some domain"
  "ic_lookup_ip (ic_record domain real fake d) domain = Some real"
  by (simp_all add: ic_record_def ic_lookup_domain_def ic_lookup_ip_def)

section \<open>Parsing never fails to terminate in a panic\<close>

lemma parse_packet_never_panics: "parse_packet data \<noteq> None"
proof (cases "length data < 20")
  case True
  then show ?thesis by (simp add: parse_packet_def)
next
  case False
  then have "0 < length data" by linarith
  with False have "at_index data 0 = Some (data ! 0)" "at_index data 9 = Some (data ! 9)"
    "slice data 16 20 = Some (take 4 (drop 16 data))"
    by (simp_all add: at_index_def slice_def)
  moreover from \<open>0 < length data\<close> have "data \<noteq> []" by simp
  ultimately show ?thesis using False
    by (simp add: parse_packet_def Let_def dest_port_def u16_at_in_bounds)
qed

text \<open>The destination of a packet that has one is its bytes 16 to 19.\<close>

lemma parse_packet_dst:
  "parse_packet data = Some (Some (dst, port, proto)) \<Longrightarrow>
   dst = take 4 (drop 16 data) \<and> length dst = 4 \<and> proto = data ! 9 \<and> 20 \<le> length data"
  by (auto simp: parse_packet_def Let_def slice_def at_index_def split: if_splits bind_splits option.splits)

section \<open>The interface between the bridge and an overlay\<close>

lemma in_transit_map:
  "set order \<subseteq> {..<length ds} \<Longrightarrow> in_transit order (map f ds) = map (\<lambda>i. f (ds ! i)) order"
proof -
  assume "set order \<subseteq> {..<length ds}"
  then have "filter (\<lambda>i. i < length ds) order = order" "\<And>i. i \<in> set order \<Longrightarrow> i < length ds"
    by (auto simp: filter_id_conv)
  then show ?thesis by (simp add: in_transit_def)
qed

lemma handle_all_map:
  "(\<And>x. x \<in> set xs \<Longrightarrow> h s (f x) = Some (s, [g x])) \<Longrightarrow> handle_all h (map f xs) s = Some (s, map g xs)"
  by (induction xs) simp_all

lemma read_loop_routed:
  "\<forall>p \<in> set ps. routed p = Some (dst, p) \<Longrightarrow> bridge_out send ps = map (send dst) ps"
  by (induction ps) (simp_all add: bridge_out_def read_loop_def map_filter_simps)

text \<open>
  What the bridge relies on: data that is sent between two sides which are \<open>linked\<close> for a
  destination makes the handler of the receiver give out the \<open>result\<close>, once, and leaves its state
  as it is.
\<close>

locale overlay =
  fixes linked :: "'a \<Rightarrow> 'b \<Rightarrow> ip \<Rightarrow> bool"
    and send :: "'a \<Rightarrow> ip \<Rightarrow> bytes \<Rightarrow> 'd"
    and receive :: "'b \<Rightarrow> 'd \<Rightarrow> ('b \<times> 'o list) option"
    and result :: "'a \<Rightarrow> 'b \<Rightarrow> ip \<Rightarrow> bytes \<Rightarrow> 'o"
  assumes carries: "linked a b dst \<Longrightarrow> length data < 65536 \<Longrightarrow>
    receive b (send a dst data) = Some (b, [result a b dst data])"
begin

lemma delivers:
  assumes "linked a b dst" and "\<forall>p \<in> set ps. routed p = Some (dst, p) \<and> length p < 65536"
    and "set order \<subseteq> {..<length ps}"
  shows "handle_all receive (in_transit order (bridge_out (send a) ps)) b =
    Some (b, map (\<lambda>i. result a b dst (ps ! i)) order)"
proof -
  have out: "in_transit order (bridge_out (send a) ps) = map (\<lambda>i. send a dst (ps ! i)) order"
    using assms(2,3) by (subst read_loop_routed [where dst = dst]) (simp_all add: in_transit_map)
  show ?thesis
    unfolding out
  proof (rule handle_all_map)
    fix i assume "i \<in> set order"
    then have "ps ! i \<in> set ps" using assms(3) by auto
    then show "receive b (send a dst (ps ! i)) = Some (b, [result a b dst (ps ! i)])"
      using assms(2) by (intro carries [OF assms(1)]) auto
  qed
qed

end

text \<open>
  The device writes what it is given, in the order in which it is given, and nothing else; it drops
  packets only when more have come than its queue has room for.
\<close>

lemma device_run_writes:
  assumes "td_inbound d = Some q" and "\<not> td_closed d"
  shows "\<exists>d' q'. device_run evs d = Some d' \<and> td_inbound d' = Some q' \<and> \<not> td_closed d' \<and>
    subseq (td_written d' @ q') (td_written d @ q @ map snd (from_overlay evs)) \<and>
    (length q + length (from_overlay evs) \<le> queue_room \<longrightarrow>
       td_written d' @ q' = td_written d @ q @ map snd (from_overlay evs))"
  using assms
proof (induction evs arbitrary: d q)
  case (Cons ev evs)
  show ?case
  proof (cases ev)
    case (FromOverlay src p)
    show ?thesis
    proof (cases "length q < queue_room")
      case True
      let ?d = "d\<lparr>td_inbound := Some (q @ [p])\<rparr>"
      have "write_packet p d = Some ?d"
        using Cons.prems True by (simp add: write_packet_def)
      with Cons.IH [of ?d "q @ [p]"] Cons.prems FromOverlay show ?thesis by simp
    next
      case False
      have w: "write_packet p d = Some d"
        using Cons.prems False by (simp add: write_packet_def)
      obtain d' q' where run: "device_run evs d = Some d'" "td_inbound d' = Some q'" "\<not> td_closed d'"
        and sub: "subseq (td_written d' @ q') (td_written d @ q @ map snd (from_overlay evs))"
        using Cons.IH [OF Cons.prems] by blast
      have "subseq (map snd (from_overlay evs)) (p # map snd (from_overlay evs))"
        by (rule subseq_Cons2' [OF subseq_order.refl, THEN subseq_Cons']) 
      then have "subseq (td_written d @ q @ map snd (from_overlay evs)) (td_written d @ q @ p # map snd (from_overlay evs))"
        by (simp add: subseq_append')
      with sub have "subseq (td_written d' @ q') (td_written d @ q @ p # map snd (from_overlay evs))"
        by (rule subseq_order.trans)
      with run w False FromOverlay show ?thesis by simp
    qed
  next
    case WriteTurn
    show ?thesis
    proof (cases q)
      case Nil
      then have "write_turn d = d" using Cons.prems by (simp add: write_turn_def)
      with Cons WriteTurn show ?thesis by simp
    next
      case (Cons p r)
      let ?d = "d\<lparr>td_inbound := Some r, td_written := td_written d @ [p]\<rparr>"
      have "write_turn d = ?d" using Cons.prems Cons by (simp add: write_turn_def)
      with Cons.IH [of ?d r] Cons.prems Cons WriteTurn show ?thesis by fastforce
    qed
  qed
qed simp

lemma routed_dst: "routed p = Some (dst, q) \<Longrightarrow> q = p \<and> length dst = 4 \<and> 20 \<le> length p"
  by (auto simp: routed_def dest: parse_packet_dst split: if_splits option.splits)

text \<open>A packet that reaches a device after its shutdown is a panic.\<close>

lemma write_after_shutdown: "td_inbound d \<noteq> None \<Longrightarrow> write_packet p (shutdown_device d) = None"
  by (auto simp: write_packet_def shutdown_device_def)

lemma write_to_full_queue:
  "td_inbound d = Some q \<Longrightarrow> \<not> td_closed d \<Longrightarrow> length q \<ge> queue_room \<Longrightarrow> write_packet p d = Some d"
  by (simp add: write_packet_def)

section \<open>The n2n edges as an overlay\<close>

text \<open>
  An edge with its resolver on one side, on the other the address at which the other edge receives
  and that edge. Only the edge that a datagram is addressed to gets it.
\<close>

definition n2n_linked :: "udp_resolver \<times> edge \<Rightarrow> udp_addr \<times> edge \<Rightarrow> ip \<Rightarrow> bool" where
  "n2n_linked a b dst = (good_crypto (ed_crypto (snd a)) \<and> ed_crypto (snd b) = ed_crypto (snd a) \<and>
     length (ed_vip (snd a)) = 4 \<and>
     (\<exists>p. ed_peers (snd a) (ip_string dst) = Some p \<and> fst a (pi_real p) = Some (fst b)))"

definition n2n_send :: "udp_resolver \<times> edge \<Rightarrow> ip \<Rightarrow> bytes \<Rightarrow> datagram" where
  "n2n_send a dst data = ed_send_to (fst a) (snd a) dst data"

definition n2n_receive :: "udp_resolver \<Rightarrow> udp_addr \<times> edge \<Rightarrow> datagram \<Rightarrow> ((udp_addr \<times> edge) \<times> (ip \<times> bytes) list) option" where
  "n2n_receive resolve b d = (if snd d = fst b
     then map_option (\<lambda>(e, out, got). ((fst b, e), got)) (ed_handle_packet resolve (snd b) (fst d))
     else Some (b, []))"

interpretation n2n: overlay n2n_linked n2n_send "n2n_receive resolve" "\<lambda>a b dst data. (ed_vip (snd a), data)"
proof
  fix a b dst and data :: bytes
  assume l: "n2n_linked a b dst" and d: "length data < 65536"
  then obtain p where "ed_peers (snd a) (ip_string dst) = Some p" "fst a (pi_real p) = Some (fst b)"
    by (auto simp: n2n_linked_def)
  moreover have "good_crypto (ed_crypto (snd a))" "ed_crypto (snd b) = ed_crypto (snd a)" "length (ed_vip (snd a)) = 4"
    using l by (auto simp: n2n_linked_def)
  ultimately show "n2n_receive resolve b (n2n_send a dst data) = Some (b, [(ed_vip (snd a), data)])"
    using edge_delivery [where a = "snd a" and b = "snd b" and data = data and dst = dst and resolve = "fst a" and resolve' = resolve] d
    by (simp add: n2n_receive_def n2n_send_def)
qed

section \<open>The relayed network as an overlay\<close>

text \<open>
  The server, with what it sees of the sender of a datagram: the source address and the virtual
  address that is on record for it. A datagram goes to the server first, whose handlers give out the
  datagrams for the clients.
\<close>

record vpv_site =
  vs_stun :: stun_lib
  vs_now :: int
  vs_order :: "string list"
  vs_server :: vpv_server
  vs_from :: udp_addr
  vs_vip :: ip

definition vpv_linked :: "udp_addr \<Rightarrow> vpv_client \<Rightarrow> vpv_site \<Rightarrow> ip \<Rightarrow> bool" where
  "vpv_linked to c a dst = (stun_cookie (vs_stun a) \<and> length dst = 4 \<and> length (vs_vip a) = 4 \<and>
     sv_index (vs_server a) (udp_string (vs_from a)) = Some (ip_string (vs_vip a)) \<and>
     (\<exists>p. sv_peers (vs_server a) (ip_string dst) = Some p \<and> vp_relay p = Some to))"

definition vpv_send :: "vpv_client \<Rightarrow> ip \<Rightarrow> bytes \<Rightarrow> bytes" where
  "vpv_send c dst data = fst (cl_send_to c dst data)"

definition vpv_serve :: "vpv_site \<Rightarrow> bytes \<Rightarrow> (vpv_site \<times> datagram list) option" where
  "vpv_serve a m = map_option (\<lambda>(s, out). (a\<lparr>vs_server := s\<rparr>, out))
     (sv_handle_packet (vs_stun a) (vs_now a) (vs_order a) (vs_server a) m (vs_from a))"

definition vpv_relayed :: "vpv_client \<Rightarrow> vpv_site \<Rightarrow> ip \<Rightarrow> bytes \<Rightarrow> datagram" where
  "vpv_relayed c a dst data = (case vpv_serve a (vpv_send c dst data) of
       Some (_, d # _) \<Rightarrow> d | _ \<Rightarrow> ([], vs_from a))"

definition vpv_arrive :: "udp_addr \<times> vpv_client \<Rightarrow> datagram \<Rightarrow> ((udp_addr \<times> vpv_client) \<times> (ip \<times> bytes) list) option" where
  "vpv_arrive b d = (if snd d = fst b
     then map_option (\<lambda>(c, got). ((fst b, c), got)) (cl_handle_packet (\<lambda>_. None) (snd b) (fst d))
     else Some (b, []))"

lemma vpv_relay:
  assumes "vpv_linked to c a dst" and "length data < 65536"
  shows "vpv_serve a (vpv_send c dst data) = Some (a, [vpv_relayed c a dst data])"
    and "vpv_arrive (to, c') (vpv_relayed c a dst data) = Some ((to, c'), [(vs_vip a, data)])"
proof -
  obtain p where p: "sv_peers (vs_server a) (ip_string dst) = Some p" "vp_relay p = Some to"
    using assms(1) by (auto simp: vpv_linked_def)
  from assms(1) have h: "stun_cookie (vs_stun a)" "length dst = 4" "length (vs_vip a) = 4"
    "sv_index (vs_server a) (udp_string (vs_from a)) = Some (ip_string (vs_vip a))"
    by (auto simp: vpv_linked_def)
  obtain m where m: "sv_handle_packet (vs_stun a) (vs_now a) (vs_order a) (vs_server a)
      (fst (cl_send_to c dst data)) (vs_from a) = Some (vs_server a, [(m, to)])"
    and got: "cl_handle_packet (\<lambda>_. None) c' m = Some (c', [(vs_vip a, data)])"
    using relay_delivery [OF h(1,2) assms(2) h(4,3) p, where c' = c' and resolve = "\<lambda>_. None"] by blast
  have r: "vpv_relayed c a dst data = (m, to)"
    using m by (simp add: vpv_relayed_def vpv_serve_def vpv_send_def)
  show "vpv_serve a (vpv_send c dst data) = Some (a, [vpv_relayed c a dst data])"
    unfolding r using m by (simp add: vpv_serve_def vpv_send_def)
  show "vpv_arrive (to, c') (vpv_relayed c a dst data) = Some ((to, c'), [(vs_vip a, data)])"
    unfolding r using got by (simp add: vpv_arrive_def)
qed

interpretation vpv: overlay "vpv_linked to" vpv_send vpv_serve vpv_relayed
  by unfold_locales (rule vpv_relay(1))

section \<open>The bridges\<close>

text \<open>
  C22: bridged edges deliver. Of the packets for a peer that are read from the device of one edge,
  the other edge hands on to its device the ones whose datagrams its handlers have taken from the
  network, unchanged, with the sender's address and in the order of the handlers, whatever the
  network has lost, doubled or reordered; the device has written or queued them in that order, but
  for those that found its queue of 1024 packets full, and all of them if they are no more
  than that. The edges share a working cipher, and the sender knows the other as the peer for the
  destination, at the address where it receives.
\<close>

theorem n2n_bridge_delivers:
  assumes "n2n_linked a b dst" and "\<forall>p \<in> set ps. routed p = Some (dst, p) \<and> length p < 65536"
    and "set order \<subseteq> {..<length ps}"
    and "td_inbound d = Some []" and "\<not> td_closed d"
  shows "\<exists>got. handle_all (n2n_receive resolve) (in_transit order (bridge_out (n2n_send a) ps)) b = Some (b, got) \<and>
    got = map (\<lambda>i. (ed_vip (snd a), ps ! i)) order \<and>
    (\<forall>evs. from_overlay evs = got \<longrightarrow> (\<exists>d' q. device_run evs d = Some d' \<and> td_inbound d' = Some q \<and>
       subseq (td_written d' @ q) (td_written d @ map ((!) ps) order) \<and>
       (length order \<le> 1024 \<longrightarrow> td_written d' @ q = td_written d @ map ((!) ps) order)))"
proof -
  let ?got = "map (\<lambda>i. (ed_vip (snd a), ps ! i)) order"
  have "\<exists>d' q. device_run evs d = Some d' \<and> td_inbound d' = Some q \<and>
       subseq (td_written d' @ q) (td_written d @ map ((!) ps) order) \<and>
       (length order \<le> 1024 \<longrightarrow> td_written d' @ q = td_written d @ map ((!) ps) order)"
    if "from_overlay evs = ?got" for evs
    using device_run_writes [OF assms(4,5), of evs] that by (auto simp: queue_room_def comp_def)
  with n2n.delivers [OF assms(1-3), of resolve] show ?thesis by blast
qed

text \<open>
  C10: bridged clients deliver through the server. Of the packets for a registered virtual address
  that are read from one client's device, the client that the server has on record for the address
  hands on to its device the ones that have come through, first to the handlers of the server and
  from there to its own, whatever the network has lost, doubled or reordered on either way:
  unchanged, in the order of its handlers, with the source address that the server has on record
  for the sender; the device has written or queued them in that order, but for those that found
  its queue of 1024 packets full. The table of the server stays as it is meanwhile.
\<close>

theorem stunvpn_bridge_delivers:
  assumes "vpv_linked to c a dst" and "\<forall>p \<in> set ps. routed p = Some (dst, p) \<and> length p < 65536"
    and "set order \<subseteq> {..<length ps}" and "set order' \<subseteq> {..<length order}"
    and "td_inbound d = Some []" and "\<not> td_closed d"
  shows "\<exists>relayed got. handle_all vpv_serve (in_transit order (bridge_out (vpv_send c) ps)) a = Some (a, relayed) \<and>
    handle_all vpv_arrive (in_transit order' relayed) (to, c') = Some ((to, c'), got) \<and>
    got = map (\<lambda>j. (vs_vip a, ps ! (order ! j))) order' \<and>
    (\<forall>evs. from_overlay evs = got \<longrightarrow> (\<exists>d' q. device_run evs d = Some d' \<and> td_inbound d' = Some q \<and>
       subseq (td_written d' @ q) (td_written d @ map (\<lambda>j. ps ! (order ! j)) order') \<and>
       (length order' \<le> 1024 \<longrightarrow> td_written d' @ q = td_written d @ map (\<lambda>j. ps ! (order ! j)) order')))"
proof -
  let ?relayed = "map (\<lambda>i. vpv_relayed c a dst (ps ! i)) order"
  let ?got = "map (\<lambda>j. (vs_vip a, ps ! (order ! j))) order'"
  have first: "handle_all vpv_serve (in_transit order (bridge_out (vpv_send c) ps)) a = Some (a, ?relayed)"
    by (rule vpv.delivers [OF assms(1-3)])
  have "handle_all vpv_arrive (map (\<lambda>j. vpv_relayed c a dst (ps ! (order ! j))) order') (to, c') = Some ((to, c'), ?got)"
  proof (rule handle_all_map)
    fix j assume "j \<in> set order'"
    then have "order ! j \<in> set order" using assms(4) by auto
    then have "ps ! (order ! j) \<in> set ps" using assms(3) by auto
    then show "vpv_arrive (to, c') (vpv_relayed c a dst (ps ! (order ! j))) = Some ((to, c'), [(vs_vip a, ps ! (order ! j))])"
      using assms(2) by (intro vpv_relay(2) [OF assms(1)]) auto
  qed
  then have second: "handle_all vpv_arrive (in_transit order' ?relayed) (to, c') = Some ((to, c'), ?got)"
    using assms(4) by (simp add: in_transit_map)
  have "\<exists>d' q. device_run evs d = Some d' \<and> td_inbound d' = Some q \<and>
       subseq (td_written d' @ q) (td_written d @ map (\<lambda>j. ps ! (order ! j)) order') \<and>
       (length order' \<le> 1024 \<longrightarrow> td_written d' @ q = td_written d @ map (\<lambda>j. ps ! (order ! j)) order')"
    if "from_overlay evs = ?got" for evs
    using device_run_writes [OF assms(5,6), of evs] that by (auto simp: queue_room_def comp_def)
  with first second show ?thesis by blast
qed

section \<open>Examples\<close>

definition demo_packet :: "ip \<Rightarrow> bytes" where
  "demo_packet dst = [69, 0, 0, 20, 0, 0, 0, 0, 64, 1, 0, 0, 10, 200, 0, 10] @ dst"

lemma routed_demo: "length dst = 4 \<Longrightarrow> routed (demo_packet dst) = Some (dst, demo_packet dst)"
  by (simp add: routed_def parse_packet_def demo_packet_def at_index_def slice_def Let_def)

lemma parse_port_example:
  "parse_packet ([69, 0, 0, 28, 0, 0, 0, 0, 64, 17, 0, 0, 10, 0, 0, 1, 10, 0, 0, 2, 0, 53, 1, 2, 0, 8, 0, 0]) =
     Some (Some ([10, 0, 0, 2], 258, 17))"
  by code_simp

lemma demo_packet_fits: "length dst = 4 \<Longrightarrow> length (demo_packet dst) < 65536"
  by (simp add: demo_packet_def)

text \<open>Two packets, of which the second arrives twice and the first is lost.\<close>

theorem n2n_bridge_delivers_witness:
  "\<exists>a b d'. handle_all (n2n_receive (\<lambda>_. None)) (in_transit [1, 1]
       (bridge_out (n2n_send a) [demo_packet [10, 200, 0, 11], demo_packet [10, 200, 0, 11]])) b =
     Some (b, [([10, 200, 0, 10], demo_packet [10, 200, 0, 11]), ([10, 200, 0, 10], demo_packet [10, 200, 0, 11])]) \<and>
     device_run [FromOverlay [10, 200, 0, 10] (demo_packet [10, 200, 0, 11]), WriteTurn,
       FromOverlay [10, 200, 0, 10] (demo_packet [10, 200, 0, 11])] (start_device fresh_device) = Some d' \<and>
     td_inbound d' \<noteq> None"
proof -
  let ?p = "demo_packet [10, 200, 0, 11]"
  let ?e = "n2n_demo_edge\<lparr>ed_peers := [ip_string [10, 200, 0, 11] \<mapsto> \<lparr>pi_vip = [10, 200, 0, 11], pi_real = ''x'', pi_local = False, pi_latency = 0, pi_last_seen = 0\<rparr>]\<rparr>"
  let ?a = "(\<lambda>_. Some n2n_demo_remote, ?e)" and ?b = "(n2n_demo_remote, n2n_demo_edge)"
  have l: "n2n_linked ?a ?b [10, 200, 0, 11]"
    by (simp add: n2n_linked_def n2n_demo_edge_def good_crypto_def)
  have r: "\<forall>p \<in> set [?p, ?p]. routed p = Some ([10, 200, 0, 11], p) \<and> length p < 65536"
    by (simp add: routed_demo demo_packet_fits)
  have o: "set [1, 1 :: nat] \<subseteq> {..<length [?p, ?p]}" by simp
  have d: "td_inbound (start_device fresh_device) = Some []" "\<not> td_closed (start_device fresh_device)"
    by (simp_all add: start_device_def fresh_device_def)
  have vip: "ed_vip ?e = [10, 200, 0, 10]" by (simp add: n2n_demo_edge_def)
  show ?thesis
    using n2n_bridge_delivers [OF l r o d, of "\<lambda>_. None"] vip
    by (intro exI [of _ ?a] exI [of _ ?b])
      (auto dest!: spec [of _ "[FromOverlay [10, 200, 0, 10] ?p, WriteTurn, FromOverlay [10, 200, 0, 10] ?p]"]
        simp del: device_run.simps handle_all.simps)
qed

theorem stunvpn_bridge_delivers_witness:
  "\<exists>a c b relayed. handle_all vpv_serve (in_transit [0] (bridge_out (vpv_send c) [demo_packet (vpv_demo_vip 2)])) a = Some (a, relayed) \<and>
     handle_all vpv_arrive (in_transit [0] relayed) b = Some (b, [(vpv_demo_vip 1, demo_packet (vpv_demo_vip 2))])"
proof -
  let ?a = "\<lparr>vs_stun = vpv_demo_stun, vs_now = 0, vs_order = [], vs_server = vpv_demo_server, vs_from = vpv_demo_addr 1,
    vs_vip = vpv_demo_vip 1\<rparr>" and ?p = "demo_packet (vpv_demo_vip 2)"
  have l: "vpv_linked (vpv_demo_addr 2) vpv_demo_client ?a (vpv_demo_vip 2)"
    using vpv_demo_stun_cookie by (simp add: vpv_linked_def vpv_demo_server_def vpv_demo_vip_def)
  have r: "\<forall>p \<in> set [?p]. routed p = Some (vpv_demo_vip 2, p) \<and> length p < 65536"
    by (simp add: routed_demo demo_packet_fits vpv_demo_vip_def)
  have o: "set [0 :: nat] \<subseteq> {..<length [?p]}" "set [0 :: nat] \<subseteq> {..<length [0 :: nat]}" by simp_all
  have d: "td_inbound (start_device fresh_device) = Some []" "\<not> td_closed (start_device fresh_device)"
    by (simp_all add: start_device_def fresh_device_def)
  from stunvpn_bridge_delivers [OF l r o d, of vpv_demo_client] show ?thesis
    by (intro exI [of _ ?a] exI [of _ vpv_demo_client] exI [of _ "(vpv_demo_addr 2, vpv_demo_client)"])
      (auto simp del: handle_all.simps)
qed

end
