(* ===== verification/Tunnels.thy ===== *)
theory Tunnels
  imports Dialers Tun
begin

text \<open>
  The WireGuard-style and the tinc-style peers (\<open>wireguard/wireguard.go\<close>, \<open>tinc/tinc.go\<close>)
  and the commands that start them. The ciphers, hashes and key agreements are parameters;
  a cipher is correct (\<open>good_aead\<close>) when a message is opened under the key under which it was
  sealed and is 16 bytes longer than it was; a key \<open>rejects\<close> what is sealed under another one
  when nothing of it is opened.
\<close>

section \<open>Cryptography and framing\<close>

record suite =
  su_x25519 :: "bytes \<Rightarrow> bytes \<Rightarrow> bytes option"
  su_sha256 :: "bytes \<Rightarrow> bytes"
  su_hkdf :: "bytes \<Rightarrow> bytes \<Rightarrow> string \<Rightarrow> nat \<Rightarrow> byte"
  su_seal :: "bytes \<Rightarrow> bytes \<Rightarrow> bytes \<Rightarrow> bytes"
  su_open :: "bytes \<Rightarrow> bytes \<Rightarrow> bytes \<Rightarrow> bytes option"

definition good_aead :: "suite \<Rightarrow> bool" where
  "good_aead su \<longleftrightarrow>
     (\<forall>k n m. su_open su k n (su_seal su k n m) = Some m \<and> length (su_seal su k n m) = length m + 16)"

definition rejects :: "suite \<Rightarrow> bytes \<Rightarrow> bytes \<Rightarrow> bool" where
  "rejects su k' k \<longleftrightarrow> (\<forall>n m. su_open su k' n (su_seal su k n m) = None)"

text \<open>The bytes \<open>from\<close> to \<open>from + n\<close> of a key stream.\<close>

definition stream_bytes :: "(nat \<Rightarrow> byte) \<Rightarrow> nat \<Rightarrow> nat \<Rightarrow> bytes" where
  "stream_bytes ks start n = map ks [start..<start + n]"

text \<open>The 16 bytes of the destination and the message around the packet.\<close>

definition dst_field :: "ip \<Rightarrow> bytes" where
  "dst_field dst = (case to4 dst of
       Some v \<Rightarrow> replicate 12 0 @ v
     | None \<Rightarrow> take 16 (dst @ replicate 16 0))"

definition data_message :: "ip \<Rightarrow> bytes \<Rightarrow> bytes" where
  "data_message dst data = 1 # dst_field dst @ data"

text \<open>What both handlers do with an opened message.\<close>

definition opened :: "bytes option \<Rightarrow> (ip \<times> bytes) list" where
  "opened r = (case r of None \<Rightarrow> []
     | Some plain \<Rightarrow>
       (if length plain < 17 then []
        else if plain ! 0 = 0x80 then []
        else [(take 16 (drop 1 plain), drop 17 plain)]))"

section \<open>WireGuard\<close>

record wg_peer_config =
  wp_private :: string
  wp_public :: string
  wp_preshared :: string
  wp_listen :: string
  wp_peer_addr :: string
  wp_endpoint :: string
  wp_vip :: string
  wp_keepalive :: int
  wp_handshake :: int

definition is_zero :: "string \<Rightarrow> bool" where
  "is_zero s = list_all (\<lambda>c. c = CHR ''0'') s"

text \<open>\<open>rand\<close> is what the random source delivers.\<close>

definition wp_defaults :: "(nat \<Rightarrow> byte) \<Rightarrow> wg_peer_config \<Rightarrow> wg_peer_config" where
  "wp_defaults rand c =
     (let c1 = c\<lparr>wp_listen := or_str (wp_listen c) '':51820''\<rparr>;
          c2 = (if wp_peer_addr c1 = [] \<and> wp_endpoint c1 \<noteq> []
                then c1\<lparr>wp_peer_addr := wp_endpoint c1\<rparr> else c1);
          c3 = c2\<lparr>wp_peer_addr := or_str (wp_peer_addr c2) ''127.0.0.1:51820''\<rparr>;
          c4 = (if wp_handshake c3 \<le> 0 then c3\<lparr>wp_handshake := 25\<rparr> else c3)
      in if wp_private c4 = [] \<or> is_zero (wp_private c4)
         then c4\<lparr>wp_private := hex_string (stream_bytes rand 0 32)\<rparr> else c4)"

text \<open>
  \<open>fmt.Sscanf\<close> stores into pointers to integers, floats, booleans, strings and byte slices.
  For any other pointer, such as the one to \<open>[32]byte\<close> that it gets here, it returns the
  error "can't scan type", whatever the text.
\<close>

definition sscanf_into_array :: "nat \<Rightarrow> string \<Rightarrow> bytes option" where
  "sscanf_into_array n s = None"

definition decode_key :: "string \<Rightarrow> bytes option" where
  "decode_key s =
     (if s = [] then Some (replicate 32 0)
      else if length s = 64 then sscanf_into_array 32 s
      else None)"

record wg_peer =
  wgp_cfg :: wg_peer_config
  wgp_shared :: bytes
  wgp_send :: "bytes option"
  wgp_recv :: "bytes option"
  wgp_listening :: bool

definition derive_keys :: "suite \<Rightarrow> wg_peer \<Rightarrow> wg_peer" where
  "derive_keys su p =
     (let psk = (case decode_key (wp_preshared (wgp_cfg p)) of Some k \<Rightarrow> k | None \<Rightarrow> replicate 32 0);
          salt = su_sha256 su (wgp_shared p @ psk);
          ks = su_hkdf su (su_sha256 su (wgp_shared p)) salt ''wireguard-session''
      in p\<lparr>wgp_send := Some (stream_bytes ks 0 32), wgp_recv := Some (stream_bytes ks 32 32)\<rparr>)"

definition new_wg_peer :: "suite \<Rightarrow> (nat \<Rightarrow> byte) \<Rightarrow> wg_peer_config \<Rightarrow> wg_peer option" where
  "new_wg_peer su rand cfg =
     (let c = wp_defaults rand cfg in do {
        priv \<leftarrow> decode_key (wp_private c);
        pub \<leftarrow> decode_key (wp_public c);
        ss \<leftarrow> su_x25519 su priv pub;
        Some (derive_keys su \<lparr>wgp_cfg = c, wgp_shared = take 32 (ss @ replicate 32 0), wgp_send = None,
          wgp_recv = None, wgp_listening = False\<rparr>) })"

definition wgp_virtual_ip :: "wg_peer \<Rightarrow> ip option" where
  "wgp_virtual_ip p = (if wp_vip (wgp_cfg p) = [] then Some ipv4_zero else parse_ip (wp_vip (wgp_cfg p)))"

definition wg_send_to ::
    "suite \<Rightarrow> udp_resolver \<Rightarrow> bytes \<Rightarrow> wg_peer \<Rightarrow> ip \<Rightarrow> bytes \<Rightarrow> datagram option" where
  "wg_send_to su resolve nonce p dst data = (case wgp_send p of
       None \<Rightarrow> None
     | Some k \<Rightarrow>
       if \<not> wgp_listening p then None
       else map_option (\<lambda>to. (nonce @ su_seal su k nonce (data_message dst data), to))
         (resolve (wp_peer_addr (wgp_cfg p))))"

definition wg_send_keepalive :: "suite \<Rightarrow> udp_resolver \<Rightarrow> bytes \<Rightarrow> wg_peer \<Rightarrow> datagram option" where
  "wg_send_keepalive su resolve nonce p = (case wgp_send p of
       None \<Rightarrow> None
     | Some k \<Rightarrow>
       if \<not> wgp_listening p then None
       else map_option (\<lambda>to. (nonce @ su_seal su k nonce [0x80], to)) (resolve (wp_peer_addr (wgp_cfg p))))"

definition wg_handle :: "suite \<Rightarrow> wg_peer \<Rightarrow> bytes \<Rightarrow> (ip \<times> bytes) list" where
  "wg_handle su p d = (case wgp_recv p of
       None \<Rightarrow> []
     | Some k \<Rightarrow>
       (if length d < 12 + 17 then [] else opened (su_open su k (take 12 d) (drop 12 d))))"

text \<open>\<open>runWireGuard\<close> takes its settings from the configuration.\<close>

definition run_wireguard_config :: "wireguard_config \<Rightarrow> wg_peer_config" where
  "run_wireguard_config g = \<lparr>wp_private = wg_private g, wp_public = wg_public g, wp_preshared = wg_preshared g,
     wp_listen = wg_listen g, wp_peer_addr = wg_peer_addr g, wp_endpoint = [], wp_vip = wg_virtual_ip g,
     wp_keepalive = wg_keepalive g, wp_handshake = wg_handshake g\<rparr>"

section \<open>Tinc\<close>

record tinc_config =
  tc_private :: string
  tc_name :: string
  tc_ca :: string
  tc_listen :: string
  tc_endpoints :: "string list"
  tc_vip :: string
  tc_keepalive :: int

text \<open>\<open>priv\<close> is a generated key of 64 bytes, whose second half is the public key.\<close>

definition tinc_defaults :: "(nat \<Rightarrow> byte) \<Rightarrow> tinc_config \<Rightarrow> tinc_config" where
  "tinc_defaults priv c0 =
     (let c = c0\<lparr>tc_listen := or_str (tc_listen c0) '':655''\<rparr>
      in if tc_private c = [] \<or> length (tc_private c) \<noteq> 128
         then c\<lparr>tc_private := hex_string (stream_bytes priv 0 64), tc_name := hex_string (stream_bytes priv 32 8)\<rparr>
         else if tc_name c = [] then c\<lparr>tc_name := take 8 (drop 64 (tc_private c))\<rparr> else c)"

text \<open>
  \<open>Sscanf\<close> with \<open>%2x\<close>: leading blanks are skipped, a sign counts as one of the two
  characters, and the number stays 0 where no digit follows.
\<close>

definition scan_2x :: "string \<Rightarrow> int" where
  "scan_2x s =
     (let w = take 2 (dropWhile (\<lambda>c. c \<in> set '' '' \<or> c = CHR 9) s);
          neg = (case w of c # _ \<Rightarrow> c = CHR ''-'' | [] \<Rightarrow> False);
          signed = (case w of c # _ \<Rightarrow> c = CHR ''-'' \<or> c = CHR ''+'' | [] \<Rightarrow> False);
          n = int (num_of_hex (takeWhile is_hex (if signed then tl w else w)))
      in if neg then - n else n)"

fun hex_decode :: "string \<Rightarrow> bytes" where
  "hex_decode (a # b # s) = word_of_int (scan_2x (a # b # s)) # hex_decode s"
| "hex_decode _ = []"

record tinc_peer =
  tn_cfg :: tinc_config
  tn_pub :: bytes
  tn_key :: bytes
  tn_listening :: bool
  tn_peers :: "(string \<times> udp_addr) list"

definition session_key :: "suite \<Rightarrow> bytes \<Rightarrow> string \<Rightarrow> bytes" where
  "session_key su pub ca =
     stream_bytes (su_hkdf su pub (su_sha256 su (bytes_of_string ca)) ''tinc-session'') 0 32"

definition new_tinc_peer :: "suite \<Rightarrow> (nat \<Rightarrow> byte) \<Rightarrow> tinc_config \<Rightarrow> tinc_peer option" where
  "new_tinc_peer su priv cfg =
     (let c = tinc_defaults priv cfg;
          pub = drop 32 (hex_decode (tc_private c))
      in if tc_ca c = [] then None
         else Some \<lparr>tn_cfg = c, tn_pub = pub, tn_key = session_key su pub (tc_ca c), tn_listening = False,
           tn_peers = []\<rparr>)"

definition tinc_virtual_ip :: "tinc_peer \<Rightarrow> ip option" where
  "tinc_virtual_ip p = (if tc_vip (tn_cfg p) = [] then Some ipv4_zero else parse_ip (tc_vip (tn_cfg p)))"

text \<open>\<open>Start\<close>: the endpoints that resolve are the peers; a repeated endpoint counts once.\<close>

definition tinc_start :: "udp_resolver \<Rightarrow> tinc_peer \<Rightarrow> tinc_peer" where
  "tinc_start resolve p = p\<lparr>tn_listening := True,
     tn_peers := List.map_filter (\<lambda>ep. map_option (Pair ep) (resolve ep)) (remdups (tc_endpoints (tn_cfg p)))\<rparr>"

definition to_every_peer :: "tinc_peer \<Rightarrow> bytes \<Rightarrow> datagram list" where
  "to_every_peer p m = map (\<lambda>(_, to). (m, to)) (tn_peers p)"

definition tinc_send_to :: "suite \<Rightarrow> bytes \<Rightarrow> tinc_peer \<Rightarrow> ip \<Rightarrow> bytes \<Rightarrow> datagram list option" where
  "tinc_send_to su nonce p dst data =
     (if \<not> tn_listening p then None
      else Some (to_every_peer p (1 # nonce @ su_seal su (tn_key p) nonce (data_message dst data))))"

definition tinc_hello :: "tinc_peer \<Rightarrow> datagram list" where
  "tinc_hello p = (if \<not> tn_listening p then [] else to_every_peer p (0x10 # tn_pub p))"

definition tinc_keepalive :: "suite \<Rightarrow> bytes \<Rightarrow> tinc_peer \<Rightarrow> datagram list" where
  "tinc_keepalive su nonce p =
     (if \<not> tn_listening p then [] else to_every_peer p (1 # nonce @ su_seal su (tn_key p) nonce [0x80]))"

definition tinc_handle :: "suite \<Rightarrow> tinc_peer \<Rightarrow> bytes \<Rightarrow> (ip \<times> bytes) list" where
  "tinc_handle su p d =
     (if length d < 25 then []
      else if d ! 0 \<noteq> 1 then []
      else opened (su_open su (tn_key p) (take 12 (drop 1 d)) (drop 13 d)))"

section \<open>What arrives\<close>

lemma length_dst_field [simp]: "length (dst_field dst) = 16"
proof (cases "to4 dst")
  case (Some v)
  then have "length v = 4" by (auto simp: to4_def split: if_splits)
  with Some show ?thesis by (simp add: dst_field_def)
next
  case None
  then show ?thesis by (simp add: dst_field_def)
qed

lemma opened_data: "opened (Some (data_message dst data)) = [(dst_field dst, data)]"
  by (simp add: opened_def data_message_def)

lemma opened_keepalive: "opened (Some [0x80]) = []"
  by (simp add: opened_def)

text \<open>
 No WireGuard node can be made. Every private key that is left after the defaults is a
  non-empty text, and no text can be stored in the array that it is scanned into: whatever
  the configuration and the cryptography, the constructor fails, and with it the command.
\<close>

theorem wireguard_never_starts: "new_wg_peer su rand (run_wireguard_config g) = None"
proof -
  have "hex_string (stream_bytes rand 0 32) \<noteq> []"
    by (simp add: stream_bytes_def upt_rec hex_byte_def)
  then have "wp_private (wp_defaults rand c) \<noteq> []" for c
    by (simp add: wp_defaults_def Let_def)
  then show ?thesis
    by (simp add: new_wg_peer_def decode_key_def sscanf_into_array_def Let_def)
qed

text \<open>Were it made, two nodes that share a secret could not read each other: both send under the
  first derived key and receive under the second.\<close>

lemma wireguard_pair_deaf:
  assumes "wgp_shared q = wgp_shared p" and "wp_preshared (wgp_cfg q) = wp_preshared (wgp_cfg p)"
    and "wgp_send (derive_keys su p) = Some k1" and "wgp_recv (derive_keys su p) = Some k2" and "rejects su k2 k1"
    and "length nonce = 12" and "wg_send_to su resolve nonce (derive_keys su p) dst data = Some (m, to)"
  shows "wg_handle su (derive_keys su q) m = []"
proof -
  have "wgp_recv (derive_keys su q) = Some k2"
    using assms(1,2,4) by (simp add: derive_keys_def Let_def)
  moreover have "m = nonce @ su_seal su k1 nonce (data_message dst data)"
    using assms(3,7) by (auto simp: wg_send_to_def split: if_splits)
  ultimately show ?thesis
    using assms(5,6) by (simp add: wg_handle_def rejects_def opened_def)
qed

text \<open>
 C24: what tinc nodes receive. The key of a node comes from its own public key. A datagram of
  another node is read only when the derived keys agree, and then it is passed on with the
  destination in place of the source; the packets for any destination go to every peer.
\<close>

theorem tinc_delivery:
  assumes "good_aead su" and "length nonce = 12" and "tinc_send_to su nonce a dst data = Some out"
  shows "map snd out = map snd (tn_peers a) \<and>
    (\<forall>(m, to) \<in> set out.
      (tn_key b = tn_key a \<longrightarrow> tinc_handle su b m = [(dst_field dst, data)]) \<and>
      (rejects su (tn_key b) (tn_key a) \<longrightarrow> tinc_handle su b m = []))"
proof -
  let ?m = "1 # nonce @ su_seal su (tn_key a) nonce (data_message dst data)"
  have "length (su_seal su (tn_key a) nonce (data_message dst data)) \<ge> 33"
    using assms(1) by (simp add: good_aead_def data_message_def)
  then have "tinc_handle su b ?m = opened (su_open su (tn_key b) nonce (su_seal su (tn_key a) nonce (data_message dst data)))"
    using assms(2) by (simp add: tinc_handle_def)
  moreover have "opened None = []" by (simp add: opened_def)
  ultimately have "(tn_key b = tn_key a \<longrightarrow> tinc_handle su b ?m = [(dst_field dst, data)]) \<and>
      (rejects su (tn_key b) (tn_key a) \<longrightarrow> tinc_handle su b ?m = [])"
    using assms(1) by (simp add: opened_data good_aead_def rejects_def)
  then show ?thesis
    using assms(3) by (auto simp: tinc_send_to_def to_every_peer_def case_prod_unfold split: if_splits)
qed

text \<open>The greeting is no message that a node handles, so peers are those of the configuration.\<close>

lemma hello_ignored: "(m, to) \<in> set (tinc_hello p) \<Longrightarrow> tinc_handle su q m = []"
  by (auto simp: tinc_hello_def to_every_peer_def tinc_handle_def split: if_splits)

lemma keepalive_ignored:
  assumes "good_aead su" and "length nonce = 12" and "(m, to) \<in> set (tinc_keepalive su nonce p)"
    and "tn_key q = tn_key p"
  shows "tinc_handle su q m = []"
proof -
  have "m = 1 # nonce @ su_seal su (tn_key p) nonce [0x80]"
    using assms(3) by (auto simp: tinc_keepalive_def to_every_peer_def split: if_splits)
  then show ?thesis
    using assms by (simp add: tinc_handle_def good_aead_def opened_def)
qed

lemma tinc_needs_secret: "tc_ca c = [] \<Longrightarrow> new_tinc_peer su priv c = None"
  by (simp add: new_tinc_peer_def tinc_defaults_def Let_def)

section \<open>Examples\<close>

text \<open>A cipher whose tag is the start of the key.\<close>

definition demo_suite :: suite where
  "demo_suite = \<lparr>su_x25519 = (\<lambda>a b. Some a), su_sha256 = id, su_hkdf = (\<lambda>k s i n. (k @ s @ replicate 64 0) ! (n mod 64)),
     su_seal = (\<lambda>k n m. take 16 (k @ replicate 16 0) @ m),
     su_open = (\<lambda>k n c. if take 16 c = take 16 (k @ replicate 16 0) then Some (drop 16 c) else None)\<rparr>"

definition demo_node :: "byte \<Rightarrow> tinc_peer" where
  "demo_node b = \<lparr>tn_cfg = \<lparr>tc_private = [], tc_name = [], tc_ca = ''s'', tc_listen = [], tc_endpoints = [''p''], tc_vip = [],
       tc_keepalive = 0\<rparr>,
     tn_pub = [b], tn_key = [b], tn_listening = True, tn_peers = [(''p'', \<lparr>ua_ip = [10, 0, 0, 1], ua_port = 655\<rparr>)]\<rparr>"

lemma demo_suite_good: "good_aead demo_suite"
  by (auto simp: good_aead_def demo_suite_def min_def)

lemma demo_suite_rejects: "rejects demo_suite [2] [1]"
  by (simp add: rejects_def demo_suite_def)

theorem tinc_delivery_witness:
  "\<exists>m to. tinc_send_to demo_suite (replicate 12 0) (demo_node 1) [10, 0, 0, 2] [7] = Some [(m, to)] \<and>
     tinc_handle demo_suite (demo_node 1) m = [(dst_field [10, 0, 0, 2], [7])] \<and>
     tinc_handle demo_suite (demo_node 2) m = []"
proof -
  have "tinc_send_to demo_suite (replicate 12 0) (demo_node 1) [10, 0, 0, 2] [7] =
      Some [(1 # replicate 12 0 @ su_seal demo_suite [1] (replicate 12 0) (data_message [10, 0, 0, 2] [7]),
        \<lparr>ua_ip = [10, 0, 0, 1], ua_port = 655\<rparr>)]"
    by (simp add: tinc_send_to_def to_every_peer_def demo_node_def)
  with tinc_delivery [OF demo_suite_good _ this, of "demo_node 1"] tinc_delivery [OF demo_suite_good _ this, of "demo_node 2"]
    demo_suite_rejects
  show ?thesis by (simp add: demo_node_def)
qed

end
