(* ===== verification/Spec2Isabelle.thy ===== *)
theory Spec2Isabelle
  imports Agent_Line Agent_Memory Agent_Think Authority Commands Dashboard Flow_Sinks Netdiag_Capture Netdiag_Probe Port_Forward Remote Services Shortcuts Socks_Udp Sysproxy Tool_Handlers Tool_Registry Tunnels
begin

text \<open>
  A verification development for agent-netx.
\<close>

end
